(* ===== verification/Prelude.thy ===== *)
theory Prelude
  imports Complex_Main
begin

text \<open>
  The shared vocabulary of the development: the exceptions the Python code raises, the
  result type of fallible code and its sequencing operator, the named collections of
  rewrite rules, and the generic facts on lists and options that several components use.

  Python code that can raise returns a value of \<open>'a res\<close>: \<open>Inl e\<close> is the exception and
  \<open>Inr x\<close> the returned value. \<open>bind_res\<close> sequences two statements of which the first may
  raise.
\<close>

section \<open>Exceptions and results\<close>

datatype py_error =
    ValueError
  | TypeError
  | KeyError
  | IndexError
  | ZeroDivisionError
  | OverflowError
  | StatisticsError
  | BarParseError
  | IntegrityError

type_synonym 'a res = "py_error + 'a"

definition bind_res :: "'a res \<Rightarrow> ('a \<Rightarrow> 'b res) \<Rightarrow> 'b res" where
  "bind_res m f = (case m of Inl e \<Rightarrow> Inl e | Inr x \<Rightarrow> f x)"

definition map_res :: "('a \<Rightarrow> 'b) \<Rightarrow> 'a res \<Rightarrow> 'b res" where
  "map_res f m = (case m of Inl e \<Rightarrow> Inl e | Inr x \<Rightarrow> Inr (f x))"

definition is_ok :: "'a res \<Rightarrow> bool" where
  "is_ok m = (case m of Inl _ \<Rightarrow> False | Inr _ \<Rightarrow> True)"

lemma bind_res_simps [simp]:
  "bind_res (Inl e) f = Inl e"
  "bind_res (Inr x) f = f x"
  by (simp_all add: bind_res_def)

lemma map_res_simps [simp]:
  "map_res f (Inl e) = Inl e"
  "map_res f (Inr x) = Inr (f x)"
  by (simp_all add: map_res_def)

lemma is_ok_simps [simp]: "\<not> is_ok (Inl e)" "is_ok (Inr x)"
  by (simp_all add: is_ok_def)

lemma bind_res_eq_Inr: "bind_res m f = Inr y \<longleftrightarrow> (\<exists>x. m = Inr x \<and> f x = Inr y)"
  by (cases m) auto

lemma map_res_eq_Inr: "map_res f m = Inr y \<longleftrightarrow> (\<exists>x. m = Inr x \<and> y = f x)"
  by (cases m) auto

text \<open>A loop that appends one fallible result per element and stops at the first raise.\<close>

fun mapM :: "('a \<Rightarrow> 'b res) \<Rightarrow> 'a list \<Rightarrow> 'b list res" where
  "mapM f [] = Inr []"
| "mapM f (x # xs) = bind_res (f x) (\<lambda>y. map_res (\<lambda>ys. y # ys) (mapM f xs))"

lemma mapM_eq_Inr: "mapM f xs = Inr ys \<longleftrightarrow> list_all2 (\<lambda>x y. f x = Inr y) xs ys"
  by (induction xs arbitrary: ys) (auto simp: bind_res_eq_Inr map_res_eq_Inr list_all2_Cons1)

text \<open>\<^verbatim>\<open>xs[i]\<close>: a negative index counts from the end, any other index outside the list raises.\<close>

definition py_index :: "'a list \<Rightarrow> int \<Rightarrow> 'a res" where
  "py_index xs i =
     (if 0 \<le> i \<and> i < int (length xs) then Inr (xs ! nat i)
      else if - int (length xs) \<le> i \<and> i < 0 then Inr (xs ! nat (i + int (length xs)))
      else Inl IndexError)"

lemma py_index_nat [simp]: "k < length xs \<Longrightarrow> py_index xs (int k) = Inr (xs ! k)"
  by (simp add: py_index_def)

text \<open>\<^verbatim>\<open>xs[-n:]\<close> for a positive \<open>n\<close>.\<close>

definition last_n :: "nat \<Rightarrow> 'a list \<Rightarrow> 'a list" where
  "last_n n xs = drop (length xs - n) xs"

section \<open>Named collections\<close>

named_theorems float_simps \<open>unfolding of the Python float operations\<close>
named_theorems date_simps \<open>unfolding of the calendar arithmetic\<close>

section \<open>Lists\<close>

text \<open>\<^verbatim>\<open>max(xs, key=f, default=None)\<close>: the FIRST element of greatest key wins, because Python
  replaces the running maximum only by a strictly greater one. The comparison is a
  parameter: \<open>gt a b\<close> says that \<open>a\<close>'s key is strictly greater than \<open>b\<close>'s.\<close>

fun first_max :: "('a \<Rightarrow> 'a \<Rightarrow> bool) \<Rightarrow> 'a list \<Rightarrow> 'a option" where
  "first_max gt [] = None"
| "first_max gt (x # xs) = Some (fold (\<lambda>y best. if gt y best then y else best) xs x)"

lemma fold_best_mem:
  "fold (\<lambda>y best. if gt y best then y else best) xs x \<in> insert x (set xs)"
  by (induction xs arbitrary: x) auto

lemma first_max_mem: "first_max gt xs = Some m \<Longrightarrow> m \<in> set xs"
  using fold_best_mem [of gt] by (cases xs) fastforce+

lemma first_max_None [simp]: "first_max gt xs = None \<longleftrightarrow> xs = []"
  by (cases xs) auto

text \<open>When the comparison is a strict weak order given by a key into a linear order, no
  element beats the chosen one.\<close>

lemma fold_best_ge:
  fixes k :: "'a \<Rightarrow> 'k::linorder"
  shows "y \<in> insert x (set xs) \<Longrightarrow>
    k y \<le> k (fold (\<lambda>y best. if k best < k y then y else best) xs x)"
proof (induction xs arbitrary: x y)
  case Nil
  then show ?case by simp
next
  case (Cons a xs)
  let ?b = "if k x < k a then a else x"
  have key: "k z \<le> k (fold (\<lambda>y best. if k best < k y then y else best) xs ?b)"
    if "z \<in> insert ?b (set xs)" for z
    using Cons.IH [OF that] .
  from Cons.prems consider "y = x" | "y = a" | "y \<in> set xs" by auto
  then show ?case
  proof cases
    case 1
    have "k x \<le> k ?b" by auto
    also have "\<dots> \<le> k (fold (\<lambda>y best. if k best < k y then y else best) xs ?b)"
      by (rule key) simp
    finally show ?thesis using 1 by simp
  next
    case 2
    have "k a \<le> k ?b" by auto
    also have "\<dots> \<le> k (fold (\<lambda>y best. if k best < k y then y else best) xs ?b)"
      by (rule key) simp
    finally show ?thesis using 2 by simp
  next
    case 3
    then show ?thesis using key [of y] by simp
  qed
qed

lemma first_max_ge:
  fixes k :: "'a \<Rightarrow> 'k::linorder"
  assumes "first_max (\<lambda>a b. k b < k a) xs = Some m" and "y \<in> set xs"
  shows "k y \<le> k m"
proof (cases xs)
  case Nil
  then show ?thesis using assms by simp
next
  case (Cons x rest)
  with assms(1) have "m = fold (\<lambda>y best. if k best < k y then y else best) rest x"
    by simp
  with assms(2) Cons fold_best_ge [of y x rest k] show ?thesis by simp
qed

lemma list_all2_nth_all: "list_all2 P xs ys \<Longrightarrow> i < length xs \<Longrightarrow> P (xs ! i) (ys ! i)"
  by (rule list_all2_nthD)

lemma sort_key_strict:
  assumes "distinct (map f xs)"
  shows "sorted_wrt (\<lambda>a b. f a < (f b :: 'k::linorder)) (sort_key f xs)"
proof -
  have "sorted (map f (sort_key f xs))" by simp
  moreover have "distinct (map f (sort_key f xs))"
    using assms by (metis distinct_map distinct_sort set_sort)
  ultimately have "sorted_wrt (<) (map f (sort_key f xs))"
    by (simp add: strict_sorted_iff)
  then show ?thesis by (simp add: sorted_wrt_map)
qed

end
