(* ===== verification/Calendar.thy ===== *)
theory Calendar
  imports Prelude
begin

text \<open>
  Python's \<^verbatim>\<open>datetime\<close> module, as far as the modelled code uses it: the proleptic Gregorian
  \<^verbatim>\<open>date\<close> with its range checks, ordinals and weekdays, and \<^verbatim>\<open>datetime\<close> values as
  microsecond counts, naive or aware.

  The main facts: \<open>toordinal\<close> is strictly increasing on valid dates (so comparing dates
  and comparing ordinals agree), \<open>fromordinal\<close> is its inverse, and consecutive ordinals
  have consecutive weekdays.
\<close>

section \<open>Dates\<close>

datatype date = Date (yr: int) (mo: int) (dy: int)

definition is_leap :: "int \<Rightarrow> bool" where
  "is_leap y \<longleftrightarrow> y mod 4 = 0 \<and> (y mod 100 \<noteq> 0 \<or> y mod 400 = 0)"

definition days_in_month :: "int \<Rightarrow> int \<Rightarrow> int" where
  "days_in_month y m =
     (if m = 2 then (if is_leap y then 29 else 28)
      else if m = 4 \<or> m = 6 \<or> m = 9 \<or> m = 11 then 30 else 31)"

definition valid_date :: "date \<Rightarrow> bool" where
  "valid_date d \<longleftrightarrow> 1 \<le> yr d \<and> yr d \<le> 9999 \<and> 1 \<le> mo d \<and> mo d \<le> 12 \<and>
     1 \<le> dy d \<and> dy d \<le> days_in_month (yr d) (mo d)"

text \<open>The constructor \<^verbatim>\<open>date(y, m, d)\<close>.\<close>

definition mk_date :: "int \<Rightarrow> int \<Rightarrow> int \<Rightarrow> date res" where
  "mk_date y m d = (if valid_date (Date y m d) then Inr (Date y m d) else Inl ValueError)"

definition days_before_year :: "int \<Rightarrow> int" where
  "days_before_year y = (y - 1) * 365 + (y - 1) div 4 - (y - 1) div 100 + (y - 1) div 400"

definition days_before_month :: "int \<Rightarrow> int \<Rightarrow> int" where
  "days_before_month y m =
     (if m \<le> 1 then 0 else if m = 2 then 31
      else (if is_leap y then 1 else 0) +
        (if m = 3 then 59 else if m = 4 then 90 else if m = 5 then 120 else if m = 6 then 151
         else if m = 7 then 181 else if m = 8 then 212 else if m = 9 then 243
         else if m = 10 then 273 else if m = 11 then 304 else 334))"

definition toordinal :: "date \<Rightarrow> int" where
  "toordinal d = days_before_year (yr d) + days_before_month (yr d) (mo d) + dy d"

text \<open>\<^verbatim>\<open>(a - b).days\<close> and \<^verbatim>\<open>d.weekday()\<close> (Monday is 0).\<close>

definition days_between :: "date \<Rightarrow> date \<Rightarrow> int" where
  "days_between a b = toordinal a - toordinal b"

definition weekday :: "int \<Rightarrow> int" where
  "weekday ordinal = (ordinal + 6) mod 7"

text \<open>\<^verbatim>\<open>date.fromordinal\<close>: the year by whole cycles of 400, 100, 4 and 1 years, then the
  month by walking the month lengths.\<close>

fun month_walk :: "nat \<Rightarrow> int \<Rightarrow> int \<Rightarrow> int \<Rightarrow> int \<times> int" where
  "month_walk 0 y m n = (m, n)"
| "month_walk (Suc k) y m n =
     (if days_in_month y m \<le> n then month_walk k y (m + 1) (n - days_in_month y m) else (m, n))"

definition year_of_day :: "int \<Rightarrow> int \<times> int" where
  "year_of_day n0 =
     (let n400 = n0 div 146097; a = n0 mod 146097;
          n100 = a div 36524; b = a mod 36524;
          n4 = b div 1461; c = b mod 1461;
          n1 = c div 365; d = c mod 365;
          y = n400 * 400 + n100 * 100 + n4 * 4 + n1 + 1
      in if n1 = 4 \<or> n100 = 4 then (y - 1, 365) else (y, d))"

definition fromordinal :: "int \<Rightarrow> date res" where
  "fromordinal n =
     (if n < 1 \<or> 3652059 < n then Inl ValueError
      else let (y, d) = year_of_day (n - 1); (m, r) = month_walk 11 y 1 d
           in Inr (Date y m (r + 1)))"

section \<open>Instants\<close>

text \<open>A \<^verbatim>\<open>datetime\<close>: its wall clock in microseconds since 1970-01-01T00:00 and, when it is
  aware, its UTC offset in microseconds.\<close>

datatype pydatetime = Naive int | Aware int int

abbreviation day_us :: int where "day_us \<equiv> 86400000000"
abbreviation hour_us :: int where "hour_us \<equiv> 3600000000"
abbreviation minute_us :: int where "minute_us \<equiv> 60000000"

text \<open>\<^verbatim>\<open>ensure_utc\<close>: a naive value is read as UTC, an aware one converted; the result is the
  UTC instant.\<close>

fun ensure_utc :: "pydatetime \<Rightarrow> int" where
  "ensure_utc (Naive w) = w"
| "ensure_utc (Aware w off) = w - off"

text \<open>The ordinal of the day a wall clock shows, and the time of day it shows.\<close>

definition wall_ordinal :: "int \<Rightarrow> int" where
  "wall_ordinal w = w div day_us + 719163"

definition wall_time :: "int \<Rightarrow> int" where
  "wall_time w = w mod day_us"

definition wall_weekday :: "int \<Rightarrow> int" where
  "wall_weekday w = weekday (wall_ordinal w)"

text \<open>\<^verbatim>\<open>datetime.combine(day, t)\<close> as a wall clock.\<close>

definition combine :: "int \<Rightarrow> int \<Rightarrow> int" where
  "combine ordinal t = (ordinal - 719163) * day_us + t"

section \<open>A linear order on dates\<close>

instantiation date :: linorder
begin

definition less_eq_date :: "date \<Rightarrow> date \<Rightarrow> bool" where
  "less_eq_date a b \<longleftrightarrow> yr a < yr b \<or> yr a = yr b \<and>
     (mo a < mo b \<or> mo a = mo b \<and> dy a \<le> dy b)"

definition less_date :: "date \<Rightarrow> date \<Rightarrow> bool" where
  "less_date a b \<longleftrightarrow> yr a < yr b \<or> yr a = yr b \<and>
     (mo a < mo b \<or> mo a = mo b \<and> dy a < dy b)"

instance
proof
  fix a b c :: date
  show "a < b \<longleftrightarrow> a \<le> b \<and> \<not> b \<le> a"
    by (auto simp: less_eq_date_def less_date_def)
  show "a \<le> a"
    by (simp add: less_eq_date_def)
  show "a \<le> b \<Longrightarrow> b \<le> c \<Longrightarrow> a \<le> c"
    by (auto simp: less_eq_date_def)
  show "a \<le> b \<Longrightarrow> b \<le> a \<Longrightarrow> a = b"
    by (auto simp: less_eq_date_def date.expand)
  show "a \<le> b \<or> b \<le> a"
    by (auto simp: less_eq_date_def)
qed

end

section \<open>Facts about the calendar\<close>

lemma months_cases:
  assumes "1 \<le> m" "m \<le> (12::int)"
  obtains "m = 1" | "m = 2" | "m = 3" | "m = 4" | "m = 5" | "m = 6" | "m = 7" | "m = 8"
    | "m = 9" | "m = 10" | "m = 11" | "m = 12"
proof -
  have "m \<in> set [1..12]" using assms by (simp only: set_upto atLeastAtMost_iff)
  then show thesis using that by (simp add: upto.simps) blast
qed

lemma div_pred_step:
  fixes y k :: int
  assumes "0 < k"
  shows "y div k = (y - 1) div k + (if y mod k = 0 then 1 else 0)"
proof (cases "y mod k = 0")
  case True
  have "y - 1 = k * (y div k - 1) + (k - 1)"
    using True mult_div_mod_eq [of k y] by (simp add: algebra_simps)
  then have "(y - 1) div k = y div k - 1"
    by (rule int_div_pos_eq) (use assms in auto)
  with True show ?thesis by simp
next
  case False
  have "y - 1 = k * (y div k) + (y mod k - 1)"
    using mult_div_mod_eq [of k y] by simp
  moreover have "0 \<le> y mod k - 1" "y mod k - 1 < k"
    using False assms pos_mod_bound [of k y] pos_mod_sign [of k y] by linarith+
  ultimately have "(y - 1) div k = y div k" by (rule int_div_pos_eq)
  with False show ?thesis by simp
qed

lemma mod_400_imp: "y mod 400 = 0 \<Longrightarrow> y mod 100 = (0::int)" "y mod 100 = 0 \<Longrightarrow> y mod 4 = (0::int)"
proof -
  have "(100::int) dvd 400" "(4::int) dvd 100" by simp_all
  then show "y mod 400 = 0 \<Longrightarrow> y mod 100 = 0" and "y mod 100 = 0 \<Longrightarrow> y mod 4 = 0"
    unfolding mod_eq_0_iff_dvd by (meson dvd_trans)+
qed

lemma leap_arith:
  fixes y f4 f100 f400 :: int
  assumes "g400 \<Longrightarrow> g100" "g100 \<Longrightarrow> g4"
  shows "y * 365 + (f4 + (if g4 then 1 else 0)) - (f100 + (if g100 then 1 else 0))
      + (f400 + (if g400 then 1 else 0)) =
    (y - 1) * 365 + f4 - f100 + f400 + (if g4 \<and> (\<not> g100 \<or> g400) then 366 else 365)"
  using assms by (cases g4; cases g100; cases g400) auto

lemma is_leap_year_length:
  "days_before_year (y + 1) = days_before_year y + (if is_leap y then 366 else 365)"
proof -
  define f where "f k = (y - 1) div k" for k
  define g where "g k \<longleftrightarrow> y mod k = 0" for k
  have s: "y div k = f k + (if g k then 1 else 0)" if "0 < k" for k
    using div_pred_step [OF that, of y] by (simp only: f_def g_def)
  have "days_before_year (y + 1) = y * 365 + y div 4 - y div 100 + y div 400"
    by (simp add: days_before_year_def)
  also have "\<dots> = y * 365 + (f 4 + (if g 4 then 1 else 0)) - (f 100 + (if g 100 then 1 else 0))
      + (f 400 + (if g 400 then 1 else 0))"
    by (simp only: s zero_less_numeral)
  finally have A: "days_before_year (y + 1) = y * 365 + (f 4 + (if g 4 then 1 else 0))
      - (f 100 + (if g 100 then 1 else 0)) + (f 400 + (if g 400 then 1 else 0))" .
  have B: "days_before_year y = (y - 1) * 365 + f 4 - f 100 + f 400"
    by (simp only: days_before_year_def f_def)
  have C: "is_leap y \<longleftrightarrow> g 4 \<and> (\<not> g 100 \<or> g 400)"
    by (simp only: is_leap_def g_def)
  show ?thesis unfolding A B C
    by (rule leap_arith) (unfold g_def, erule mod_400_imp(1), erule mod_400_imp(2))
qed

lemma month_end:
  assumes "1 \<le> m" "m \<le> 12"
  shows "days_before_month y m + days_in_month y m =
    (if m = 12 then (if is_leap y then 366 else 365) else days_before_month y (m + 1))"
  using assms by (cases rule: months_cases) (simp_all add: days_before_month_def days_in_month_def)

lemma days_in_month_range: "28 \<le> days_in_month y m" "days_in_month y m \<le> 31"
  by (auto simp: days_in_month_def)

lemma days_before_month_mono:
  assumes "1 \<le> m" "m < m'" "m' \<le> 12"
  shows "days_before_month y m + days_in_month y m \<le> days_before_month y m'"
proof -
  from assms(2) have "m + 1 \<le> m'" by simp
  then show ?thesis using assms(3)
  proof (induction rule: int_ge_induct)
    case base
    then show ?case using month_end [of m y] assms(1) by simp
  next
    case (step i)
    then have "days_before_month y m + days_in_month y m \<le> days_before_month y i" by simp
    also have "\<dots> \<le> days_before_month y (i + 1)"
      using month_end [of i y] days_in_month_range(1) [of y i] step assms(1) by simp
    finally show ?case .
  qed
qed

lemma day_of_year_bounds:
  assumes "valid_date d"
  shows "1 \<le> days_before_month (yr d) (mo d) + dy d"
    and "days_before_month (yr d) (mo d) + dy d \<le> (if is_leap (yr d) then 366 else 365)"
proof -
  have m: "1 \<le> mo d" "mo d \<le> 12" and dd: "1 \<le> dy d" "dy d \<le> days_in_month (yr d) (mo d)"
    using assms by (auto simp: valid_date_def)
  have "0 \<le> days_before_month (yr d) (mo d)" by (simp add: days_before_month_def)
  then show "1 \<le> days_before_month (yr d) (mo d) + dy d" using dd by simp
  have "days_before_month (yr d) (mo d) + days_in_month (yr d) (mo d)
      \<le> (if is_leap (yr d) then 366 else 365)"
  proof (cases "mo d = 12")
    case True
    then show ?thesis using month_end [OF m, of "yr d"] by simp
  next
    case False
    then have "mo d < 12" using m by simp
    then have "days_before_month (yr d) (mo d) + days_in_month (yr d) (mo d)
        \<le> days_before_month (yr d) 12"
      using m by (intro days_before_month_mono) auto
    also have "\<dots> + days_in_month (yr d) 12 = (if is_leap (yr d) then 366 else 365)"
      using month_end [of 12 "yr d"] by simp
    finally show ?thesis using days_in_month_range(1) [of "yr d" 12] by linarith
  qed
  with dd show "days_before_month (yr d) (mo d) + dy d \<le> (if is_leap (yr d) then 366 else 365)"
    by linarith
qed

lemma days_before_year_mono: "y \<le> y' \<Longrightarrow> days_before_year y \<le> days_before_year y'"
proof (induction rule: int_ge_induct)
  case (step i)
  then show ?case using is_leap_year_length [of i] by (cases "is_leap i") simp_all
qed simp

lemma toordinal_less:
  assumes "valid_date a" "valid_date b" "a < b"
  shows "toordinal a < toordinal b"
proof -
  consider "yr a < yr b" | "yr a = yr b" "mo a < mo b" | "yr a = yr b" "mo a = mo b" "dy a < dy b"
    using assms(3) by (auto simp: less_date_def)
  then show ?thesis
  proof cases
    case 1
    have "toordinal a \<le> days_before_year (yr a + 1)"
      using day_of_year_bounds(2) [OF assms(1)] is_leap_year_length [of "yr a"]
      by (simp add: toordinal_def split: if_splits)
    also have "\<dots> \<le> days_before_year (yr b)" using 1 by (intro days_before_year_mono) simp
    also have "\<dots> < toordinal b"
      using day_of_year_bounds(1) [OF assms(2)] by (simp add: toordinal_def)
    finally show ?thesis .
  next
    case 2
    have "days_before_month (yr a) (mo a) + days_in_month (yr a) (mo a)
        \<le> days_before_month (yr a) (mo b)"
      using 2 assms(1,2) by (intro days_before_month_mono) (auto simp: valid_date_def)
    then show ?thesis using 2 assms(1,2) by (auto simp: toordinal_def valid_date_def)
  next
    case 3
    then show ?thesis by (simp add: toordinal_def)
  qed
qed

theorem toordinal_less_iff:
  assumes "valid_date a" "valid_date b"
  shows "toordinal a < toordinal b \<longleftrightarrow> a < b"
  using toordinal_less assms by (metis linorder_neqE order_less_asym order_less_irrefl)

lemma toordinal_inj: "valid_date a \<Longrightarrow> valid_date b \<Longrightarrow> toordinal a = toordinal b \<Longrightarrow> a = b"
  by (metis linorder_neqE order_less_irrefl toordinal_less)

text \<open>The month walk lands in the month that holds the day.\<close>

lemma month_walk_spec:
  assumes "month_walk k y m n = (m', r)" "0 \<le> n" "1 \<le> m" "m + int k \<le> 12"
    "days_before_month y m + n < days_before_month y (m + int k) + days_in_month y (m + int k)"
  shows "m \<le> m' \<and> m' \<le> m + int k \<and> 0 \<le> r \<and> r < days_in_month y m' \<and>
    days_before_month y m' + r = days_before_month y m + n"
  using assms
proof (induction k arbitrary: m n)
  case 0
  then show ?case by simp
next
  case (Suc k)
  show ?case
  proof (cases "days_in_month y m \<le> n")
    case True
    have e: "days_before_month y m + days_in_month y m = days_before_month y (m + 1)"
      using month_end [of m y] Suc.prems by simp
    have "m + 1 \<le> m' \<and> m' \<le> m + 1 + int k \<and> 0 \<le> r \<and> r < days_in_month y m' \<and>
        days_before_month y m' + r = days_before_month y (m + 1) + (n - days_in_month y m)"
      by (rule Suc.IH) (use Suc.prems True e in \<open>auto simp: ac_simps\<close>)
    with e show ?thesis by auto
  next
    case False
    with Suc.prems show ?thesis by auto
  qed
qed

lemma month_walk_year:
  assumes "month_walk 11 y 1 n = (m, r)" "0 \<le> n" "n < (if is_leap y then 366 else 365)"
  shows "1 \<le> m \<and> m \<le> 12 \<and> 0 \<le> r \<and> r < days_in_month y m \<and> days_before_month y m + r = n"
proof -
  have "days_before_month y 12 + days_in_month y 12 = (if is_leap y then 366 else 365)"
    using month_end [of 12 y] by simp
  moreover have "days_before_month y 1 = 0" by (simp add: days_before_month_def)
  ultimately show ?thesis using month_walk_spec [OF assms(1,2)] assms(3) by auto
qed

text \<open>Years counted in whole cycles: the day count before a year and its leap status.\<close>

lemma year_cycles:
  assumes "p = 400 * A + 100 * B + 4 * C + D" "0 \<le> B" "B \<le> 3" "0 \<le> C" "C \<le> 24" "0 \<le> D" "D \<le> 3"
  shows "days_before_year (p + 1) = 146097 * A + 36524 * B + 1461 * C + 365 * D"
    and "is_leap (p + 1) \<longleftrightarrow> D = 3 \<and> (C \<noteq> 24 \<or> B = 3)"
proof -
  have "p div 4 = 100 * A + 25 * B + C"
    by (rule int_div_pos_eq [of _ _ _ D]) (use assms in auto)
  moreover have "p div 100 = 4 * A + B"
    by (rule int_div_pos_eq [of _ _ _ "4 * C + D"]) (use assms in auto)
  moreover have "p div 400 = A"
    by (rule int_div_pos_eq [of _ _ _ "100 * B + 4 * C + D"]) (use assms in auto)
  ultimately show "days_before_year (p + 1) = 146097 * A + 36524 * B + 1461 * C + 365 * D"
    using assms(1) by (simp add: days_before_year_def)
  have m: "(p + 1) mod k = (if r = k then 0 else r)"
    if "p + 1 = k * q + r" "0 < r" "r \<le> k" for k q r
    using that by (cases "r = k") (simp_all add: mod_mult_self3 add.commute mult.commute)
  have "(p + 1) mod 4 = (if D + 1 = 4 then 0 else D + 1)"
    by (rule m [of _ "100 * A + 25 * B + C"]) (use assms in auto)
  moreover have "(p + 1) mod 100 = (if 4 * C + D + 1 = 100 then 0 else 4 * C + D + 1)"
    by (rule m [of _ "4 * A + B"]) (use assms in auto)
  moreover have "(p + 1) mod 400 =
      (if 100 * B + 4 * C + D + 1 = 400 then 0 else 100 * B + 4 * C + D + 1)"
    by (rule m [of _ A]) (use assms in auto)
  ultimately show "is_leap (p + 1) \<longleftrightarrow> D = 3 \<and> (C \<noteq> 24 \<or> B = 3)"
    using assms(2-) unfolding is_leap_def by (simp split: if_splits)
qed

lemma year_of_day_spec:
  assumes "year_of_day n = (y, d)"
  shows "days_before_year y + d = n \<and> 0 \<le> d \<and> d < (if is_leap y then 366 else 365)"
proof -
  define n400 a where "n400 = n div 146097" and "a = n mod 146097"
  define n100 b where "n100 = a div 36524" and "b = a mod 36524"
  define n4 c where "n4 = b div 1461" and "c = b mod 1461"
  define n1 e where "n1 = c div 365" and "e = c mod 365"
  note fold_defs = n400_def [symmetric] a_def [symmetric] n100_def [symmetric] b_def [symmetric]
    n4_def [symmetric] c_def [symmetric] n1_def [symmetric] e_def [symmetric]
  define p where "p = 400 * n400 + 100 * n100 + 4 * n4 + n1"
  have yd: "(if n1 = 4 \<or> n100 = 4 then (p, 365) else (p + 1, e)) = (y, d)"
    using assms unfolding year_of_day_def Let_def fold_defs p_def by (simp add: algebra_simps split: if_splits)
  have r: "0 \<le> a" "a < 146097" "0 \<le> b" "b < 36524" "0 \<le> c" "c < 1461" "0 \<le> e" "e < 365"
    by (simp_all add: a_def b_def c_def e_def)
  have eqs: "n = 146097 * n400 + a" "a = 36524 * n100 + b" "b = 1461 * n4 + c" "c = 365 * n1 + e"
    using mult_div_mod_eq [of 146097 n] mult_div_mod_eq [of 36524 a]
      mult_div_mod_eq [of 1461 b] mult_div_mod_eq [of 365 c]
    unfolding fold_defs by simp_all
  have bounds: "0 \<le> n100" "n100 \<le> 4" "0 \<le> n4" "n4 \<le> 24" "0 \<le> n1" "n1 \<le> 4"
    using r eqs by linarith+
  have top: "n4 = 0 \<and> n1 = 0 \<and> e = 0" if "n100 = 4" using r eqs that bounds by linarith
  have top1: "e = 0 \<and> n4 < 24" if "n1 = 4" using r eqs that bounds by linarith
  consider "n100 = 4" | "n1 = 4" "n100 < 4" | "n1 < 4" "n100 < 4" using bounds by linarith
  then show ?thesis
  proof cases
    case 1
    have p: "p - 1 = 400 * n400 + 100 * 3 + 4 * 24 + 3" using 1 top by (simp add: p_def)
    from year_cycles [OF p] have "days_before_year p = 146097 * n400 + 36524 * 3 + 1461 * 24 + 365 * 3"
      "is_leap p" by simp_all
    with 1 yd eqs top show ?thesis by auto
  next
    case 2
    have p: "p - 1 = 400 * n400 + 100 * n100 + 4 * n4 + 3" using 2 by (simp add: p_def)
    from year_cycles [OF p] 2 bounds top1
    have "days_before_year p = 146097 * n400 + 36524 * n100 + 1461 * n4 + 365 * 3" "is_leap p"
      by simp_all
    with 2 yd eqs top1 show ?thesis by auto
  next
    case 3
    from year_cycles(1) [OF p_def] 3 bounds
    have "days_before_year (p + 1) = 146097 * n400 + 36524 * n100 + 1461 * n4 + 365 * n1" by simp
    with 3 yd eqs r show ?thesis by auto
  qed
qed

lemma days_before_year_1: "days_before_year 1 = 0"
  by (simp add: days_before_year_def)

lemma days_before_year_10000: "days_before_year 10000 = 3652059"
  by (simp add: days_before_year_def)

theorem toordinal_fromordinal:
  assumes "fromordinal n = Inr d"
  shows "toordinal d = n \<and> valid_date d"
proof -
  obtain y r where yr: "year_of_day (n - 1) = (y, r)" by fastforce
  obtain m q where mw: "month_walk 11 y 1 r = (m, q)" by fastforce
  from assms yr mw have d: "d = Date y m (q + 1)" and n: "1 \<le> n" "n \<le> 3652059"
    by (auto simp: fromordinal_def split: if_splits)
  note ys = year_of_day_spec [OF yr]
  have ms: "1 \<le> m \<and> m \<le> 12 \<and> 0 \<le> q \<and> q < days_in_month y m \<and> days_before_month y m + q = r"
    using month_walk_year [OF mw] ys by simp
  have "1 \<le> y"
  proof (rule ccontr)
    assume "\<not> 1 \<le> y"
    then have "days_before_year (y + 1) \<le> days_before_year 1" by (intro days_before_year_mono) simp
    then have "days_before_year y + (if is_leap y then 366 else 365) \<le> 0"
      by (simp only: is_leap_year_length days_before_year_1)
    then show False using ys n by linarith
  qed
  moreover have "y \<le> 9999"
  proof (rule ccontr)
    assume "\<not> y \<le> 9999"
    then have "days_before_year 10000 \<le> days_before_year y" by (intro days_before_year_mono) simp
    then show False using ys n by (simp only: days_before_year_10000) linarith
  qed
  ultimately show ?thesis using d ms ys by (auto simp: toordinal_def valid_date_def)
qed

theorem fromordinal_toordinal:
  assumes "valid_date d"
  shows "fromordinal (toordinal d) = Inr d"
proof -
  have lo: "0 \<le> days_before_year (yr d)"
    using days_before_year_mono [of 1 "yr d"] assms days_before_year_1 by (simp add: valid_date_def)
  have hi: "days_before_year (yr d + 1) \<le> 3652059"
    using days_before_year_mono [of "yr d + 1" 10000] assms days_before_year_10000
    by (simp add: valid_date_def)
  have "1 \<le> toordinal d" "toordinal d \<le> 3652059"
    using lo hi day_of_year_bounds [OF assms] is_leap_year_length [of "yr d"]
    by (auto simp: toordinal_def split: if_splits)
  then obtain d' where d': "fromordinal (toordinal d) = Inr d'"
    by (simp add: fromordinal_def case_prod_unfold Let_def)
  from toordinal_fromordinal [OF this] assms have "d' = d" by (metis toordinal_inj)
  with d' show ?thesis by simp
qed

section \<open>Facts about instants\<close>

lemma combine_wall [simp]: "combine (wall_ordinal w) (wall_time w) = w"
  by (simp add: combine_def wall_ordinal_def wall_time_def)

lemma wall_ordinal_combine [simp]: "0 \<le> t \<Longrightarrow> t < day_us \<Longrightarrow> wall_ordinal (combine n t) = n"
  by (simp add: combine_def wall_ordinal_def)

lemma wall_time_combine [simp]: "0 \<le> t \<Longrightarrow> t < day_us \<Longrightarrow> wall_time (combine n t) = t"
  using mod_mult_self3 [of "n - 719163" day_us t] by (simp only: combine_def wall_time_def) simp

lemma wall_time_range: "0 \<le> wall_time w" "wall_time w < day_us"
  by (simp_all add: wall_time_def)

lemma weekday_range: "0 \<le> weekday n" "weekday n < 7"
  by (simp_all add: weekday_def)

lemma wall_cmp_combine:
  assumes "0 \<le> t" "t < day_us"
  shows "combine n t \<le> w \<longleftrightarrow> n < wall_ordinal w \<or> n = wall_ordinal w \<and> t \<le> wall_time w"
proof -
  have w: "w = combine (wall_ordinal w) (wall_time w)" by simp
  show ?thesis
    using assms wall_time_range [of w] by (subst w) (auto simp: combine_def)
qed

end
