(* ===== verification/Jalali.thy ===== *)
theory Jalali
  imports Calendar
begin

text \<open>
  The Jalali (Solar Hijri) calendar arithmetic: \<^verbatim>\<open>app/economic/jalali.py\<close>, its forward
  counterpart \<^verbatim>\<open>gregorian_to_jalali\<close> of \<^verbatim>\<open>app/features/engineering.py\<close> and the second copy of
  the inverse in \<^verbatim>\<open>app/providers/tse_funds.py\<close>.

  Shown: the hand-written 400/100/4-year decomposition computes exactly the date with the
  right ordinal, errors included; the two directions are inverse to each other on every
  date; the two copies of the inverse agree; a month span has the right length and the
  spans of consecutive months abut; month shifting is an action of the integers.
\<close>

section \<open>jalali.py\<close>

text \<open>The month loop: \<open>gm\<close> counts the months already passed.\<close>

fun walk_months :: "int list \<Rightarrow> int \<Rightarrow> int \<Rightarrow> int \<times> int" where
  "walk_months [] gm n = (gm, n)"
| "walk_months (len # rest) gm n =
     (if len \<le> n then walk_months rest (gm + 1) (n - len) else (gm, n))"

definition month_table :: "bool \<Rightarrow> int list" where
  "month_table leap = [31, if leap then 29 else 28, 31, 30, 31, 30, 31, 31, 30, 31, 30, 31]"

text \<open>From the day number counted from 1600-01-01 to year, month and day.\<close>

definition split_years :: "int \<Rightarrow> int \<times> int \<times> bool" where
  "split_years n0 =
     (let gy = 1600 + 400 * (n0 div 146097);
          n = n0 mod 146097;
          (n, gy, leap) =
            (if 36525 \<le> n
             then let n = n - 1; gy = gy + 100 * (n div 36524); n = n mod 36524
                  in if 365 \<le> n then (n + 1, gy, True) else (n, gy, False)
             else (n, gy, True));
          gy = gy + 4 * (n div 1461);
          n = n mod 1461
      in if 366 \<le> n then let n = n - 1 in (n mod 365, gy + n div 365, False)
         else (n, gy, leap))"

definition day_no_to_gregorian :: "int \<Rightarrow> int \<times> int \<times> int" where
  "day_no_to_gregorian n0 =
     (let (n, gy, leap) = split_years n0;
          (gm, n) = walk_months (month_table leap) 0 n
      in (gy, gm + 1, n + 1))"

text \<open>The day number of a Jalali date, counted from the same origin.\<close>

definition jalali_day_no :: "int \<Rightarrow> int \<Rightarrow> int \<Rightarrow> int" where
  "jalali_day_no jy jm jd =
     (let jy2 = jy - 979;
          n = 365 * jy2 + (jy2 div 33) * 8 + ((jy2 mod 33) + 3) div 4;
          n = n + (if jm \<le> 6 then (jm - 1) * 31 else 186 + (jm - 7) * 30)
      in n + (jd - 1 + 79))"

definition jalali_to_gregorian :: "int \<Rightarrow> int \<Rightarrow> int \<Rightarrow> date res" where
  "jalali_to_gregorian jy jm jd =
     (case day_no_to_gregorian (jalali_day_no jy jm jd) of (gy, gm, gd) \<Rightarrow> mk_date gy gm gd)"

text \<open>\<^verbatim>\<open>d - timedelta(days=1)\<close>, which raises \<^verbatim>\<open>OverflowError\<close> below the first representable date.\<close>

definition day_before :: "date \<Rightarrow> date res" where
  "day_before d = (case fromordinal (toordinal d - 1) of
     Inl _ \<Rightarrow> Inl OverflowError | Inr e \<Rightarrow> Inr e)"

definition jalali_month_span :: "int \<Rightarrow> int \<Rightarrow> (date \<times> date) res" where
  "jalali_month_span jy jm =
     bind_res (jalali_to_gregorian jy jm 1) (\<lambda>start.
       let (next_year, next_month) = (if jm = 12 then (jy + 1, 1) else (jy, jm + 1))
       in bind_res (jalali_to_gregorian next_year next_month 1) (\<lambda>nxt.
            map_res (\<lambda>e. (start, e)) (day_before nxt)))"

definition shift_month :: "int \<Rightarrow> int \<Rightarrow> int \<Rightarrow> int \<times> int" where
  "shift_month jy jm months =
     (let index = jy * 12 + (jm - 1) + months in (index div 12, index mod 12 + 1))"

section \<open>features/engineering.py: the forward direction\<close>

definition g_d_m :: "int list" where
  "g_d_m = [0, 31, 59, 90, 120, 151, 181, 212, 243, 273, 304, 334]"

text \<open>The second half of the conversion: 33-year cycles of 12053 days, then four-year
  cycles, then the year and the month.\<close>

definition jalali_of_day_no :: "int \<Rightarrow> int \<times> int \<times> int" where
  "jalali_of_day_no j =
     (let j_np = j div 12053;
          j_day_no = j mod 12053;
          jy = 979 + 33 * j_np + 4 * (j_day_no div 1461);
          j_day_no = j_day_no mod 1461;
          (jy, j_day_no) =
            (if 366 \<le> j_day_no then (jy + (j_day_no - 1) div 365, (j_day_no - 1) mod 365)
             else (jy, j_day_no))
      in if j_day_no < 186 then (jy, 1 + j_day_no div 31, 1 + j_day_no mod 31)
         else (jy, 7 + (j_day_no - 186) div 30, 1 + (j_day_no - 186) mod 30))"

definition gregorian_to_jalali :: "int \<Rightarrow> int \<Rightarrow> int \<Rightarrow> (int \<times> int \<times> int) res" where
  "gregorian_to_jalali gy gm gd =
     (let gy2 = gy - 1600;
          g_day_no = 365 * gy2 + (gy2 + 3) div 4 - (gy2 + 99) div 100 + (gy2 + 399) div 400
      in bind_res (py_index g_d_m (gm - 1)) (\<lambda>before.
        let g_day_no = g_day_no + before;
            g_day_no = g_day_no +
              (if 2 < gm \<and> ((gy mod 4 = 0 \<and> gy mod 100 \<noteq> 0) \<or> gy mod 400 = 0) then 1 else 0);
            g_day_no = g_day_no + (gd - 1)
        in Inr (jalali_of_day_no (g_day_no - 79))))"

section \<open>providers/tse_funds.py: the second copy of the inverse\<close>

definition fund_jalali_to_gregorian :: "int \<Rightarrow> int \<Rightarrow> int \<Rightarrow> int \<times> int \<times> int" where
  "fund_jalali_to_gregorian jy jm jd =
     (let jy2 = jy - 979;
          j_day_no = 365 * jy2 + (jy2 div 33) * 8 + ((jy2 mod 33) + 3) div 4;
          j_day_no = j_day_no + ((jd - 1) + (if jm \<le> 7 then 31 * (jm - 1) else 186 + 30 * (jm - 7)))
      in day_no_to_gregorian (j_day_no + 79))"

section \<open>The day count from 1600-01-01\<close>

definition days_from_1600 :: "int \<Rightarrow> int" where
  "days_from_1600 g = 365 * g + (g + 3) div 4 - (g + 99) div 100 + (g + 399) div 400"

lemma days_before_year_1600: "days_before_year y = 584022 + days_from_1600 (y - 1600)"
proof -
  have lin: "(y - 1) * 365 + f - h + k = 584022 + (365 * (y - 1600) + f' - h' + k')"
    if "f = 399 + f'" "h = 15 + h'" "k = 3 + k'" for f h k f' h' k' :: int
    using that by simp
  show ?thesis
    unfolding days_before_year_def days_from_1600_def
  proof (rule lin)
    show "(y - 1) div 4 = 399 + (y - 1600 + 3) div 4"
      using div_mult_self1 [of 4 "y - 1600 + 3" 399] by simp
    show "(y - 1) div 100 = 15 + (y - 1600 + 99) div 100"
      using div_mult_self1 [of 100 "y - 1600 + 99" 15] by simp
    show "(y - 1) div 400 = 3 + (y - 1600 + 399) div 400"
      using div_mult_self1 [of 400 "y - 1600 + 399" 3] by simp
  qed
qed

lemma cycles_1600:
  assumes "g = 400 * A + 100 * B + 4 * C + D" "0 \<le> B" "B \<le> 3" "0 \<le> C" "C \<le> 24" "0 \<le> D" "D \<le> 3"
  shows "days_from_1600 g = 365 * g + (100 * A + 25 * B + C + (if D = 0 then 0 else 1))
      - (4 * A + B + (if 4 * C + D = 0 then 0 else 1))
      + (A + (if 100 * B + 4 * C + D = 0 then 0 else 1))"
    and "is_leap (1600 + g) \<longleftrightarrow> D = 0 \<and> (C \<noteq> 0 \<or> B = 0)"
proof -
  have d: "(g + (k - 1)) div k = q + (if r = 0 then 0 else 1)"
    if "g = k * q + r" "0 \<le> r" "r < k" for k q r
  proof (cases "r = 0")
    case True
    then show ?thesis using that by (intro int_div_pos_eq [of _ _ _ "k - 1"]) auto
  next
    case False
    then show ?thesis using that by (intro int_div_pos_eq [of _ _ _ "r - 1"]) (auto simp: algebra_simps)
  qed
  have "(g + 3) div 4 = 100 * A + 25 * B + C + (if D = 0 then 0 else 1)"
    using d [of 4 "100 * A + 25 * B + C" D] assms by simp
  moreover have "(g + 99) div 100 = 4 * A + B + (if 4 * C + D = 0 then 0 else 1)"
    using d [of 100 "4 * A + B" "4 * C + D"] assms by simp
  moreover have "(g + 399) div 400 = A + (if 100 * B + 4 * C + D = 0 then 0 else 1)"
    using d [of 400 A "100 * B + 4 * C + D"] assms by simp
  ultimately show "days_from_1600 g = 365 * g + (100 * A + 25 * B + C + (if D = 0 then 0 else 1))
      - (4 * A + B + (if 4 * C + D = 0 then 0 else 1))
      + (A + (if 100 * B + 4 * C + D = 0 then 0 else 1))"
    by (simp only: days_from_1600_def)
  have m: "(1600 + g) mod k = r" if "1600 + g = k * q + r" "0 \<le> r" "r < k" for k q r
    using that by (rule int_mod_pos_eq)
  have "(1600 + g) mod 4 = D"
    by (rule m [of _ "400 + 100 * A + 25 * B + C"]) (use assms in auto)
  moreover have "(1600 + g) mod 100 = 4 * C + D"
    by (rule m [of _ "16 + 4 * A + B"]) (use assms in auto)
  moreover have "(1600 + g) mod 400 = 100 * B + 4 * C + D"
    by (rule m [of _ "4 + A"]) (use assms in auto)
  ultimately show "is_leap (1600 + g) \<longleftrightarrow> D = 0 \<and> (C \<noteq> 0 \<or> B = 0)"
    using assms(2-) unfolding is_leap_def by auto
qed

text \<open>The month loop finds the month that holds the day of the year.\<close>

lemma walk_months_year:
  assumes "walk_months (month_table (is_leap y)) 0 n = (gm, r)" "0 \<le> n"
    "n < (if is_leap y then 366 else 365)"
  shows "0 \<le> gm \<and> gm \<le> 11 \<and> 0 \<le> r \<and> r < days_in_month y (gm + 1) \<and>
    days_before_month y (gm + 1) + r = n"
  using assms by (auto simp: month_table_def days_in_month_def days_before_month_def split: if_splits)

text \<open>What the hand-written cycle arithmetic computes: the year that holds the day, the day
  of that year, and whether the year is leap.\<close>

lemma split_years_correct:
  assumes "split_years n0 = (n, gy, leap)"
  shows "leap = is_leap gy \<and> 0 \<le> n \<and> n < (if is_leap gy then 366 else 365) \<and>
    days_from_1600 (gy - 1600) + n = n0"
proof -
  define A a where "A = n0 div 146097" and "a = n0 mod 146097"
  define B b where "B = (if 36525 \<le> a then (a - 1) div 36524 else 0)"
    and "b = (if 36525 \<le> a then if 365 \<le> (a - 1) mod 36524 then (a - 1) mod 36524 + 1
              else (a - 1) mod 36524 else a)"
  define C c where "C = b div 1461" and "c = b mod 1461"
  define D where "D = (if 366 \<le> c then (c - 1) div 365 else 0)"
  define l where "l = (36525 \<le> a \<longrightarrow> 365 \<le> (a - 1) mod 36524)"
  have res: "gy = 1600 + 400 * A + 100 * B + 4 * C + D"
      "n = (if 366 \<le> c then (c - 1) mod 365 else c)" "leap = (if 366 \<le> c then False else l)"
    using assms unfolding split_years_def Let_def A_def [symmetric] a_def [symmetric]
    unfolding D_def C_def c_def B_def b_def l_def
    by (simp_all only: split: if_splits prod.splits) (simp_all split: if_splits)
  have n0: "n0 = 146097 * A + a" and a: "0 \<le> a" "a < 146097"
    unfolding A_def a_def by simp_all
  have b: "b = 1461 * C + c" and c: "0 \<le> c" "c < 1461"
    unfolding C_def c_def by simp_all
  define e where "e = (a - 1) mod 36524"
  have e: "0 \<le> e" "e < 36524" unfolding e_def by simp_all
  have aB: "a - 1 = 36524 * B + e" "1 \<le> B" "B \<le> 3" if "36525 \<le> a"
  proof -
    show eq: "a - 1 = 36524 * B + e"
      using that mult_div_mod_eq [of 36524 "a - 1"] by (simp add: B_def e_def)
    then show "1 \<le> B" "B \<le> 3" using that a e by linarith+
  qed
  have cD: "c - 1 = 365 * D + (c - 1) mod 365" "1 \<le> D" "D \<le> 3" if "366 \<le> c"
  proof -
    show eq: "c - 1 = 365 * D + (c - 1) mod 365"
      using that mult_div_mod_eq [of 365 "c - 1"] by (simp add: D_def)
    have "0 \<le> (c - 1) mod 365" "(c - 1) mod 365 < 365" by simp_all
    with eq show "1 \<le> D" "D \<le> 3" using that c by linarith+
  qed
  have D0: "D = 0" if "\<not> 366 \<le> c" using that by (simp add: D_def)
  have B0: "B = 0" "b = a" "l" if "\<not> 36525 \<le> a" using that by (simp_all add: B_def b_def l_def)
  have be: "b = (if 365 \<le> e then e + 1 else e)" "l = (365 \<le> e)" if "36525 \<le> a"
    using that by (simp_all add: b_def l_def e_def)
  have bb: "0 \<le> b" "b < 36525"
    using B0(2) be(1) a e by (cases "36525 \<le> a"; simp split: if_splits)+
  have C: "0 \<le> C" "C \<le> 24" using bb b c by linarith+
  have Bb: "0 \<le> B" "B \<le> 3" using aB B0 by (cases "36525 \<le> a"; simp)+
  have Db: "0 \<le> D" "D \<le> 3" using cD D0 by (cases "366 \<le> c"; simp)+
  have g: "gy - 1600 = 400 * A + 100 * B + 4 * C + D" using res(1) by simp
  note cyc = cycles_1600 [OF g Bb C Db]
  have C0: "C \<noteq> 0 \<or> c = b" using b by auto
  show ?thesis
  proof (cases "366 \<le> c")
    case True
    have "0 \<le> n" "n < 365" "c - 1 = 365 * D + n" "D \<noteq> 0" "\<not> leap"
      using res(2,3) True cD [OF True] by simp_all
    moreover have "days_from_1600 (gy - 1600) + (c - 365 * D - 1) = n0"
    proof (cases "36525 \<le> a")
      case big: True
      have "365 \<le> e" using True b C be(1) [OF big] by (simp split: if_splits)
      then show ?thesis
        using cyc(1) g cD(2) [OF True] aB [OF big] be [OF big] n0 b C Bb by simp
    next
      case False
      then show ?thesis using cyc(1) g cD(2) [OF True] B0 [OF False] n0 b C by simp
    qed
    ultimately show ?thesis using cyc(2) by simp
  next
    case False
    then have D: "D = 0" and n: "n = c" "leap = l" using res(2,3) D0 by simp_all
    show ?thesis
    proof (cases "36525 \<le> a")
      case big: True
      have "is_leap gy \<longleftrightarrow> C \<noteq> 0" using cyc(2) D aB(2) [OF big] by simp
      moreover have "l = (C \<noteq> 0)"
        using be [OF big] b c False C by (cases "365 \<le> e") simp_all
      ultimately show ?thesis
        using cyc(1) g D n c False aB [OF big] be [OF big] n0 b C Bb by (simp split: if_splits)
    next
      case small: False
      have "is_leap gy" using cyc(2) D B0(1) [OF small] by simp
      then show ?thesis
        using cyc(1) g D n c False B0 [OF small] n0 b C by simp
    qed
  qed
qed

lemma day_no_to_gregorian_correct:
  assumes "day_no_to_gregorian n = (gy, gm, gd)"
  shows "1 \<le> gm \<and> gm \<le> 12 \<and> 1 \<le> gd \<and> gd \<le> days_in_month gy gm \<and>
    toordinal (Date gy gm gd) = 584023 + n"
proof -
  obtain d y leap where sy: "split_years n = (d, y, leap)" by (metis prod_cases3)
  obtain m r where wm: "walk_months (month_table leap) 0 d = (m, r)" by fastforce
  note ok = split_years_correct [OF sy]
  have "gy = y" "gm = m + 1" "gd = r + 1"
    using assms sy wm by (simp_all add: day_no_to_gregorian_def)
  moreover have "0 \<le> m \<and> m \<le> 11 \<and> 0 \<le> r \<and> r < days_in_month y (m + 1) \<and>
      days_before_month y (m + 1) + r = d"
    using walk_months_year [of y d m r] wm ok by simp
  ultimately show ?thesis using ok by (simp add: toordinal_def days_before_year_1600)
qed

lemma mk_date_ordinal:
  assumes "1 \<le> m" "m \<le> 12" "1 \<le> d" "d \<le> days_in_month y m"
  shows "mk_date y m d = fromordinal (toordinal (Date y m d))"
proof (cases "1 \<le> y \<and> y \<le> 9999")
  case True
  then have "valid_date (Date y m d)" using assms by (simp add: valid_date_def)
  then show ?thesis by (simp add: mk_date_def fromordinal_toordinal)
next
  case False
  have bm: "0 \<le> days_before_month y m" by (simp add: days_before_month_def)
  have "days_before_month y m + d \<le> (if is_leap y then 366 else 365)"
  proof (cases "m = 12")
    case True
    then show ?thesis using month_end [of m y] assms by simp
  next
    case False
    then show ?thesis
      using assms days_before_month_mono [of m 12 y] month_end [of 12 y] days_in_month_range [of y 12]
      by simp
  qed
  then have hi: "toordinal (Date y m d) \<le> days_before_year (y + 1)"
    using is_leap_year_length [of y] by (simp add: toordinal_def)
  have lo: "days_before_year y < toordinal (Date y m d)"
    using bm assms by (simp add: toordinal_def)
  have "toordinal (Date y m d) < 1 \<or> 3652059 < toordinal (Date y m d)"
  proof (cases "1 \<le> y")
    case True
    with False have "days_before_year 10000 \<le> days_before_year y"
      by (intro days_before_year_mono) simp
    then show ?thesis using lo by (simp only: days_before_year_10000) linarith
  next
    case neg: False
    then have "days_before_year (y + 1) \<le> days_before_year 1"
      by (intro days_before_year_mono) simp
    then show ?thesis using hi by (simp only: days_before_year_1) linarith
  qed
  then show ?thesis using False by (auto simp: mk_date_def valid_date_def fromordinal_def)
qed

text \<open>The inverse conversion is \<^verbatim>\<open>date.fromordinal\<close> of a day count, errors included.\<close>

theorem jalali_to_gregorian_ordinal:
  "jalali_to_gregorian jy jm jd = fromordinal (584023 + jalali_day_no jy jm jd)"
proof -
  obtain gy gm gd where g: "day_no_to_gregorian (jalali_day_no jy jm jd) = (gy, gm, gd)"
    by (metis prod_cases3)
  from day_no_to_gregorian_correct [OF g] show ?thesis
    by (simp add: jalali_to_gregorian_def g mk_date_ordinal)
qed

section \<open>The Jalali calendar\<close>

text \<open>The calendar the code implements: in every 33-year cycle the years 0, 4, ..., 28 are
  leap; the first six months have 31 days, the next five 30, the last 29 or 30.\<close>

definition jalali_leap :: "int \<Rightarrow> bool" where
  "jalali_leap jy \<longleftrightarrow> (jy - 979) mod 33 mod 4 = 0 \<and> (jy - 979) mod 33 \<noteq> 32"

definition jalali_month_length :: "int \<Rightarrow> int \<Rightarrow> int" where
  "jalali_month_length jy jm =
     (if jm \<le> 6 then 31 else if jm \<le> 11 then 30 else if jalali_leap jy then 30 else 29)"

definition valid_jalali :: "int \<Rightarrow> int \<Rightarrow> int \<Rightarrow> bool" where
  "valid_jalali jy jm jd \<longleftrightarrow>
     1 \<le> jm \<and> jm \<le> 12 \<and> 1 \<le> jd \<and> jd \<le> jalali_month_length jy jm"

definition jalali_year_start :: "int \<Rightarrow> int" where
  "jalali_year_start jy = 365 * (jy - 979) + ((jy - 979) div 33) * 8 + (((jy - 979) mod 33) + 3) div 4"

definition jalali_month_start :: "int \<Rightarrow> int" where
  "jalali_month_start jm = (if jm \<le> 6 then (jm - 1) * 31 else 186 + (jm - 7) * 30)"

lemma jalali_day_no_split:
  "jalali_day_no jy jm jd = jalali_year_start jy + jalali_month_start jm + (jd - 1) + 79"
  by (simp add: jalali_day_no_def jalali_year_start_def jalali_month_start_def Let_def)

lemma jalali_cycle:
  assumes "jy = 979 + 33 * P + r" "0 \<le> r" "r < 33"
  shows "jalali_year_start jy = 365 * (33 * P + r) + 8 * P + (r + 3) div 4"
    and "jalali_leap jy \<longleftrightarrow> r mod 4 = 0 \<and> r \<noteq> 32"
proof -
  have "(jy - 979) div 33 = P" by (rule int_div_pos_eq [of _ _ _ r]) (use assms in auto)
  moreover have "(jy - 979) mod 33 = r" by (rule int_mod_pos_eq [of _ _ P]) (use assms in auto)
  moreover have "jy - 979 = 33 * P + r" using assms by simp
  ultimately show "jalali_year_start jy = 365 * (33 * P + r) + 8 * P + (r + 3) div 4"
    "jalali_leap jy \<longleftrightarrow> r mod 4 = 0 \<and> r \<noteq> 32"
    by (simp_all only: jalali_year_start_def jalali_leap_def mult.commute)
qed

lemma jalali_year_step:
  "jalali_year_start (jy + 1) = jalali_year_start jy + (if jalali_leap jy then 366 else 365)"
proof -
  define P r where "P = (jy - 979) div 33" and "r = (jy - 979) mod 33"
  have jy: "jy = 979 + 33 * P + r" and r: "0 \<le> r" "r < 33"
    using mult_div_mod_eq [of 33 "jy - 979"] by (simp_all add: P_def r_def)
  note now = jalali_cycle [OF jy r]
  show ?thesis
  proof (cases "r = 32")
    case True
    then have "jy + 1 = 979 + 33 * (P + 1) + 0" using jy by simp
    from jalali_cycle(1) [OF this] now True show ?thesis by simp
  next
    case False
    then have "jy + 1 = 979 + 33 * P + (r + 1)" "r + 1 < 33" using jy r by simp_all
    from jalali_cycle(1) [OF this(1) _ this(2)] r
    have "jalali_year_start (jy + 1) = 365 * (33 * P + (r + 1)) + 8 * P + (r + 1 + 3) div 4" by simp
    moreover have "(r + 1 + 3) div 4 = (r + 3) div 4 + (if r mod 4 = 0 then 1 else 0)"
      using div_pred_step [of 4 "r + 4"] by simp
    ultimately show ?thesis using now False by (simp split: if_splits)
  qed
qed

lemma jalali_year_mono: "a \<le> b \<Longrightarrow> jalali_year_start a \<le> jalali_year_start b"
proof (induction rule: int_ge_induct)
  case (step i)
  then show ?case using jalali_year_step [of i] by (simp split: if_splits)
qed simp

lemma jalali_day_of_year:
  assumes "valid_jalali jy jm jd"
  shows "0 \<le> jalali_month_start jm + (jd - 1)"
    "jalali_month_start jm + (jd - 1) < (if jalali_leap jy then 366 else 365)"
proof -
  from assms have m: "1 \<le> jm" "jm \<le> 12" and d: "1 \<le> jd" "jd \<le> jalali_month_length jy jm"
    by (auto simp: valid_jalali_def)
  show "0 \<le> jalali_month_start jm + (jd - 1)"
    using m d by (simp add: jalali_month_start_def)
  show "jalali_month_start jm + (jd - 1) < (if jalali_leap jy then 366 else 365)"
    using m d by (simp add: jalali_month_start_def jalali_month_length_def split: if_splits)
qed

lemma jalali_month_inj:
  assumes "valid_jalali jy m d" "valid_jalali jy m' d'"
    "jalali_month_start m + d = jalali_month_start m' + d'"
  shows "m = m' \<and> d = d'"
proof -
  have *: "\<not> a < b" if "valid_jalali jy a x" "valid_jalali jy b y"
    "jalali_month_start a + x = jalali_month_start b + y" for a b x y
  proof
    assume lt: "a < b"
    then have "jalali_month_start a + jalali_month_length jy a \<le> jalali_month_start b"
      using that(1,2)
      by (auto simp: jalali_month_start_def jalali_month_length_def valid_jalali_def)
    then show False using that by (auto simp: valid_jalali_def)
  qed
  have "m = m'" using * [of m d m' d'] * [of m' d' m d] assms by linarith
  then show ?thesis using assms(3) by simp
qed

lemma jalali_day_no_inj:
  assumes "valid_jalali jy jm jd" "valid_jalali jy' jm' jd'"
    "jalali_day_no jy jm jd = jalali_day_no jy' jm' jd'"
  shows "jy = jy' \<and> jm = jm' \<and> jd = jd'"
proof -
  have lt: "\<not> a < b" if "valid_jalali a m d" "valid_jalali b m' d'"
    "jalali_day_no a m d = jalali_day_no b m' d'" for a b m d m' d'
  proof
    assume "a < b"
    then have "jalali_year_start (a + 1) \<le> jalali_year_start b" by (intro jalali_year_mono) simp
    then show False
      using that jalali_day_of_year [OF that(1)] jalali_day_of_year [OF that(2)]
      by (simp add: jalali_year_step jalali_day_no_split split: if_splits)
  qed
  have y: "jy = jy'" using lt [OF assms] lt [OF assms(2,1) assms(3)[symmetric]] by linarith
  then show ?thesis
    using assms jalali_month_inj [of jy jm jd jm' jd'] by (simp add: jalali_day_no_split)
qed


lemma jalali_of_day_no_correct:
  assumes "jalali_of_day_no j = (jy, jm, jd)"
  shows "valid_jalali jy jm jd \<and> jalali_day_no jy jm jd = j + 79"
proof -
  define P a where "P = j div 12053" and "a = j mod 12053"
  define Q c where "Q = a div 1461" and "c = a mod 1461"
  define S e where "S = (if 366 \<le> c then (c - 1) div 365 else 0)"
    and "e = (if 366 \<le> c then (c - 1) mod 365 else c)"
  define k where "k = (if e < 186 then e div 31 else 6 + (e - 186) div 30)"
  define t where "t = (if e < 186 then e mod 31 else (e - 186) mod 30)"
  have res: "jy = 979 + 33 * P + (4 * Q + S)" "jm = 1 + k" "jd = 1 + t"
    using assms unfolding jalali_of_day_no_def Let_def P_def [symmetric] a_def [symmetric]
      Q_def [symmetric] c_def [symmetric]
    unfolding k_def t_def e_def S_def by (simp_all split: if_splits)
  have j: "j = 12053 * P + a" "0 \<le> a" "a < 12053" unfolding P_def a_def by simp_all
  have a: "a = 1461 * Q + c" "0 \<le> c" "c < 1461" unfolding Q_def c_def by simp_all
  have Q: "0 \<le> Q" "Q \<le> 8" using j a by linarith+
  have big: "c - 1 = 365 * S + e \<and> 0 \<le> e \<and> e < 365" if "366 \<le> c"
    using that mult_div_mod_eq [of 365 "c - 1"] by (simp add: S_def e_def)
  have small: "S = 0 \<and> e = c" if "\<not> 366 \<le> c" using that by (simp add: S_def e_def)
  have S: "0 \<le> S" "S \<le> 3" "366 \<le> c \<Longrightarrow> 1 \<le> S"
    using a(2,3) big small by (cases "366 \<le> c"; simp; linarith)+
  have Q8: "Q = 8 \<Longrightarrow> c \<le> 364" using j a by linarith
  then have r: "0 \<le> 4 * Q + S" "4 * Q + S < 33" "4 * Q + S = 32 \<longleftrightarrow> Q = 8"
    using Q S small by (cases "Q = 8"; simp; linarith)+
  note cyc = jalali_cycle [OF res(1) r(1,2)]
  have up: "(4 * Q + S + 3) div 4 = Q + (if S = 0 then 0 else 1)"
  proof (rule int_div_pos_eq [of _ _ _ "if S = 0 then 3 else S - 1"])
    show "4 * Q + S + 3 = 4 * (Q + (if S = 0 then 0 else 1)) + (if S = 0 then 3 else S - 1)" by simp
  qed (use S in auto)
  have start: "jalali_year_start jy = 12053 * P + 1461 * Q + 365 * S + (if S = 0 then 0 else 1)"
    using cyc(1) up by simp
  have leap: "jalali_leap jy \<longleftrightarrow> S = 0 \<and> Q \<noteq> 8"
  proof -
    have "(4 * Q + S) mod 4 = S" by (rule int_mod_pos_eq [of _ _ Q]) (use S in auto)
    then show ?thesis using cyc(2) r(3) by simp
  qed
  have e: "0 \<le> e" "e < (if jalali_leap jy then 366 else 365)"
      "jalali_year_start jy + e = j"
    using leap start big small S Q8 a j by (cases "366 \<le> c"; simp)+
  have kt1: "e = 31 * k + t \<and> 0 \<le> t \<and> t < 31 \<and> 0 \<le> k \<and> k \<le> 5" if "e < 186"
  proof -
    have "e = 31 * k + t \<and> 0 \<le> t \<and> t < 31" using that by (simp add: k_def t_def)
    then show ?thesis using e that by linarith
  qed
  have kt2: "e - 186 = 30 * (k - 6) + t \<and> 0 \<le> t \<and> t < 30 \<and> 6 \<le> k \<and> k \<le> 11" if "\<not> e < 186"
  proof -
    have "e - 186 = 30 * (k - 6) + t \<and> 0 \<le> t \<and> t < 30"
      using that mult_div_mod_eq [of 30 "e - 186"] by (simp add: k_def t_def)
    then show ?thesis using e that by (simp split: if_splits)
  qed
  have "valid_jalali jy jm jd \<and> jalali_month_start jm + (jd - 1) = e"
    using kt1 kt2 e res(2,3)
    by (cases "e < 186")
      (auto simp: valid_jalali_def jalali_month_length_def jalali_month_start_def split: if_splits)
  then show ?thesis using e(3) by (simp add: jalali_day_no_split)
qed

text \<open>On a Gregorian date the first half counts its days from 1600-01-01.\<close>

lemma gregorian_to_jalali_day_no:
  assumes "1 \<le> gm" "gm \<le> 12"
  shows "gregorian_to_jalali gy gm gd =
    Inr (jalali_of_day_no (toordinal (Date gy gm gd) - 584023 - 79))"
proof -
  have l: "((gy mod 4 = 0 \<and> gy mod 100 \<noteq> 0) \<or> gy mod 400 = 0) = is_leap gy"
    unfolding is_leap_def by (metis mod_400_imp)
  have i: "py_index g_d_m (gm - 1) =
      Inr (days_before_month gy gm - (if 2 < gm \<and> is_leap gy then 1 else 0))"
    using assms
    by (cases rule: months_cases) (simp_all add: days_before_month_def g_d_m_def py_index_def)
  have "toordinal (Date gy gm gd) - 584023 - 79 = days_from_1600 (gy - 1600)
      + (days_before_month gy gm - (if 2 < gm \<and> is_leap gy then 1 else 0))
      + (if 2 < gm \<and> is_leap gy then 1 else 0) + (gd - 1) - 79"
    by (simp add: toordinal_def days_before_year_1600)
  then show ?thesis
    unfolding gregorian_to_jalali_def Let_def l i days_from_1600_def [symmetric] bind_res_simps
    by (simp only:)
qed

lemma gregorian_jalali_inverse:
  assumes "valid_date d" "gregorian_to_jalali (yr d) (mo d) (dy d) = Inr (jy, jm, jd)"
  shows "valid_jalali jy jm jd \<and> jalali_to_gregorian jy jm jd = Inr d"
proof -
  have m: "1 \<le> mo d" "mo d \<le> 12" using assms(1) by (auto simp: valid_date_def)
  from assms(2) gregorian_to_jalali_day_no [OF m]
  have "jalali_of_day_no (toordinal d - 584023 - 79) = (jy, jm, jd)" by simp
  from jalali_of_day_no_correct [OF this] show ?thesis
    using fromordinal_toordinal [OF assms(1)] by (simp add: jalali_to_gregorian_ordinal)
qed

lemma jalali_gregorian_inverse:
  assumes "valid_jalali jy jm jd" "jalali_to_gregorian jy jm jd = Inr d"
  shows "gregorian_to_jalali (yr d) (mo d) (dy d) = Inr (jy, jm, jd)"
proof -
  from assms(2) have o: "toordinal d = 584023 + jalali_day_no jy jm jd" and v: "valid_date d"
    using toordinal_fromordinal by (auto simp: jalali_to_gregorian_ordinal)
  obtain y m e where g: "gregorian_to_jalali (yr d) (mo d) (dy d) = Inr (y, m, e)"
    using gregorian_to_jalali_day_no [of "mo d"] v by (metis prod_cases3 valid_date_def)
  from gregorian_jalali_inverse [OF v g] have vj: "valid_jalali y m e"
    and "fromordinal (584023 + jalali_day_no y m e) = Inr d"
    by (simp_all add: jalali_to_gregorian_ordinal)
  then have "jalali_day_no y m e = jalali_day_no jy jm jd"
    using toordinal_fromordinal [of "584023 + jalali_day_no y m e" d] o by simp
  with jalali_day_no_inj [OF vj assms(1)] g show ?thesis by simp
qed

section \<open>Month spans and month arithmetic\<close>

lemma jalali_month_abut:
  assumes "1 \<le> jm" "jm \<le> 12"
  shows "jalali_day_no (if jm = 12 then jy + 1 else jy) (if jm = 12 then 1 else jm + 1) 1 =
    jalali_day_no jy jm 1 + jalali_month_length jy jm"
  using assms jalali_year_step [of jy]
  by (auto simp: jalali_day_no_split jalali_month_start_def jalali_month_length_def)

lemma jalali_month_span_ordinals:
  assumes "1 \<le> jm" "jm \<le> 12" "jalali_month_span jy jm = Inr (s, e)"
  shows "valid_date s \<and> valid_date e \<and> toordinal s = 584023 + jalali_day_no jy jm 1 \<and>
    toordinal e = toordinal s + jalali_month_length jy jm - 1"
proof -
  obtain nxt where nxt: "jalali_to_gregorian jy jm 1 = Inr s"
      "jalali_to_gregorian (if jm = 12 then jy + 1 else jy) (if jm = 12 then 1 else jm + 1) 1 = Inr nxt"
      "day_before nxt = Inr e"
    using assms(3) by (auto simp: jalali_month_span_def bind_res_eq_Inr map_res_eq_Inr split: if_splits)
  from nxt(3) have "fromordinal (toordinal nxt - 1) = Inr e"
    by (auto simp: day_before_def split: sum.splits)
  then show ?thesis
    using nxt(1,2) toordinal_fromordinal jalali_month_abut [OF assms(1,2), of jy]
    unfolding jalali_to_gregorian_ordinal by (metis add.assoc add_diff_eq)
qed

section \<open>Properties\<close>

text \<open>The hand-written cycle arithmetic of \<^verbatim>\<open>jalali_to_gregorian\<close> returns, for every year,
  month and day given to it, exactly the date whose ordinal is a linear day count, and
  raises \<^verbatim>\<open>ValueError\<close> exactly when that ordinal is outside Python's date range.\<close>

theorem jalali_to_gregorian_is_fromordinal:
  "jalali_to_gregorian jy jm jd = fromordinal (584023 + jalali_day_no jy jm jd)"
  by (rule jalali_to_gregorian_ordinal)

text \<open>C40: The forward and the inverse conversion are inverse to each other: a valid Jalali label
  converts to a valid Gregorian date exactly when that date converts to the label.\<close>

theorem jalali_gregorian_roundtrip:
  assumes "valid_date d" "valid_jalali jy jm jd"
  shows "jalali_to_gregorian jy jm jd = Inr d \<longleftrightarrow>
    gregorian_to_jalali (yr d) (mo d) (dy d) = Inr (jy, jm, jd)"
  using assms gregorian_jalali_inverse jalali_gregorian_inverse by blast

theorem jalali_gregorian_roundtrip_witness:
  "jalali_to_gregorian 1403 12 30 = Inr (Date 2025 3 20) \<longleftrightarrow>
    gregorian_to_jalali 2025 3 20 = Inr (1403, 12, 30)"
proof -
  have "valid_date (Date 2025 3 20)" by code_simp
  moreover have "valid_jalali 1403 12 30" by code_simp
  ultimately show ?thesis using jalali_gregorian_roundtrip [of "Date 2025 3 20" 1403 12 30] by simp
qed

text \<open>The span of a Jalali month holds exactly the days that the forward conversion labels
  with that month: no day of a neighbouring month, and none of its own missing.\<close>

theorem jalali_month_span_exact:
  assumes "1 \<le> jm" "jm \<le> 12" "jalali_month_span jy jm = Inr (s, e)" "valid_date d"
  shows "s \<le> d \<and> d \<le> e \<longleftrightarrow> (\<exists>jd. gregorian_to_jalali (yr d) (mo d) (dy d) = Inr (jy, jm, jd))"
proof -
  note o = jalali_month_span_ordinals [OF assms(1-3)]
  have cmp: "s \<le> d \<longleftrightarrow> toordinal s \<le> toordinal d" "d \<le> e \<longleftrightarrow> toordinal d \<le> toordinal e"
    using toordinal_less_iff o assms(4) by (meson not_le)+
  obtain y m k where g: "gregorian_to_jalali (yr d) (mo d) (dy d) = Inr (y, m, k)"
    using gregorian_to_jalali_day_no [of "mo d"] assms(4) by (metis prod_cases3 valid_date_def)
  from gregorian_jalali_inverse [OF assms(4) g] have v: "valid_jalali y m k"
    and d: "toordinal d = 584023 + jalali_day_no y m k"
    using toordinal_fromordinal by (auto simp: jalali_to_gregorian_ordinal)
  show ?thesis
  proof
    assume "s \<le> d \<and> d \<le> e"
    then obtain r where r: "toordinal d = 584023 + jalali_day_no jy jm r"
      "1 \<le> r" "r \<le> jalali_month_length jy jm"
      using cmp o by (auto simp: jalali_day_no_split
        intro: that [of "toordinal d - toordinal s + 1"])
    then have "valid_jalali jy jm r" using assms(1,2) by (simp add: valid_jalali_def)
    with r(1) d v g show "\<exists>jd. gregorian_to_jalali (yr d) (mo d) (dy d) = Inr (jy, jm, jd)"
      using jalali_day_no_inj by fastforce
  next
    assume "\<exists>jd. gregorian_to_jalali (yr d) (mo d) (dy d) = Inr (jy, jm, jd)"
    with g v d o cmp show "s \<le> d \<and> d \<le> e" by (auto simp: valid_jalali_def jalali_day_no_split)
  qed
qed

theorem jalali_month_span_exact_witness:
  "Date 2025 2 19 \<le> Date 2025 3 20 \<and> Date 2025 3 20 \<le> Date 2025 3 20 \<longleftrightarrow>
    (\<exists>jd. gregorian_to_jalali 2025 3 20 = Inr (1403, 12, jd))"
proof -
  have "jalali_month_span 1403 12 = Inr (Date 2025 2 19, Date 2025 3 20)" by code_simp
  moreover have "valid_date (Date 2025 3 20)" by code_simp
  ultimately show ?thesis
    using jalali_month_span_exact [of 12 1403 "Date 2025 2 19" "Date 2025 3 20" "Date 2025 3 20"]
    by simp
qed

text \<open>Shifting by months always lands on a month number from 1 to 12, shifting by zero
  changes nothing, and two shifts add up, in either direction across year ends.\<close>

theorem shift_month_action:
  assumes "shift_month jy jm k = (y, m)"
  shows "1 \<le> m \<and> m \<le> 12 \<and> 12 * y + (m - 1) = 12 * jy + (jm - 1) + k \<and>
    shift_month y m k' = shift_month jy jm (k + k') \<and>
    (1 \<le> jm \<and> jm \<le> 12 \<longrightarrow> shift_month jy jm 0 = (jy, jm))"
proof -
  define i where "i = jy * 12 + (jm - 1) + k"
  have ym: "y = i div 12" "m = i mod 12 + 1"
    using assms by (simp_all add: shift_month_def i_def Let_def)
  have i: "12 * y + (m - 1) = i" using ym mult_div_mod_eq [of 12 i] by simp
  have r: "1 \<le> m" "m \<le> 12" using ym by simp_all
  have "y * 12 + (m - 1) + k' = jy * 12 + (jm - 1) + (k + k')" using i by (simp add: i_def)
  then have "shift_month y m k' = shift_month jy jm (k + k')" by (simp only: shift_month_def)
  moreover have "shift_month jy jm 0 = (jy, jm)" if "1 \<le> jm" "jm \<le> 12"
    using int_div_pos_eq [of "jy * 12 + (jm - 1)" 12 jy "jm - 1"]
      int_mod_pos_eq [of "jy * 12 + (jm - 1)" 12 jy "jm - 1"] that
    by (simp add: shift_month_def Let_def)
  ultimately show ?thesis using i r by (simp add: i_def)
qed

theorem shift_month_action_witness:
  "shift_month 1404 1 (-1) = (1403, 12) \<and> shift_month 1403 12 1 = shift_month 1404 1 0 \<and>
    shift_month 1404 1 0 = (1404, 1)"
proof -
  have s: "shift_month 1404 1 (-1) = (1403, 12)" by code_simp
  from shift_month_action [OF s, of 1] s show ?thesis by simp
qed

text \<open>The two copies of the Jalali-to-Gregorian conversion agree: the fund provider's copy
  returns the triple from which the economic package builds its date, although it splits the
  months after the seventh and not after the sixth.\<close>

theorem fund_jalali_copy_agrees:
  "jalali_to_gregorian jy jm jd =
     (case fund_jalali_to_gregorian jy jm jd of (gy, gm, gd) \<Rightarrow> mk_date gy gm gd)"
proof -
  have "fund_jalali_to_gregorian jy jm jd = day_no_to_gregorian (jalali_day_no jy jm jd)"
    unfolding fund_jalali_to_gregorian_def jalali_day_no_def Let_def
    by (rule arg_cong [of _ _ day_no_to_gregorian]) (cases "jm = 7", auto)
  then show ?thesis by (simp add: jalali_to_gregorian_def)
qed

end
