(* ===== verification/PyFloat.thy ===== *)
theory PyFloat
  imports Prelude
begin

text \<open>
  Python's \<^verbatim>\<open>float\<close>: IEEE-754 binary64. A finite float is the rational number it denotes;
  every arithmetic operation computes the exact rational result and rounds it once, to
  nearest with ties to even, with 53 significant bits, gradual underflow at
  \<open>2 ^ -1074\<close> and overflow to an infinity at \<open>2 ^ 1024\<close>, which is what the standard
  prescribes. The sign of a zero is not kept: no modelled code can observe it (Python
  compares the two zeros equal and refuses to divide by either).

  The facts proved here are the ones the components rely on: rounding is odd, monotone,
  idempotent, and exact on integers up to \<open>2 ^ 53\<close>; comparisons are false on NaN; the
  values are linearly ordered for the library's sorting (NaN last), which agrees with
  Python's comparison wherever no NaN is involved.
\<close>

section \<open>Rounding to the nearest representable value\<close>

definition round_even :: "rat \<Rightarrow> int" where
  "round_even y = (let f = \<lfloor>y\<rfloor>; d = y - of_int f in
     if d < 1 / 2 then f else if 1 / 2 < d then f + 1 else if even f then f else f + 1)"

function ilog2 :: "int \<Rightarrow> int" where
  "ilog2 n = (if n < 2 then 0 else 1 + ilog2 (n div 2))"
  by pat_completeness auto
termination
  by (relation "measure nat") auto

function ilog2up :: "int \<Rightarrow> int" where
  "ilog2up n = (if n < 2 then 0 else 1 + ilog2up ((n + 1) div 2))"
  by pat_completeness auto
termination
  by (relation "measure nat") auto

declare ilog2.simps [simp del] ilog2up.simps [simp del]

text \<open>The exponent of the leading bit of a positive rational.\<close>

definition expo :: "rat \<Rightarrow> int" where
  "expo x = (if 1 \<le> x then ilog2 \<lfloor>x\<rfloor> else - ilog2up \<lceil>1 / x\<rceil>)"

text \<open>The exponent of the last bit kept, and the rounded rational.\<close>

definition grid :: "rat \<Rightarrow> int" where
  "grid x = max (expo \<bar>x\<bar> - 52) (-1074)"

definition rq :: "rat \<Rightarrow> rat" where
  "rq x = of_int (round_even (x / 2 powi grid x)) * 2 powi grid x"

datatype pyfloat = Fin rat | PInf | NInf | NaN

text \<open>The least power of two that no finite float reaches.\<close>

definition overflow_at :: rat where
  "overflow_at = 2 ^ 1024"

definition rnd :: "rat \<Rightarrow> pyfloat" where
  "rnd x = (let r = rq x in
     if overflow_at \<le> r then PInf else if r \<le> - overflow_at then NInf else Fin r)"

section \<open>Operations\<close>

fun fneg :: "pyfloat \<Rightarrow> pyfloat" where
  "fneg (Fin x) = Fin (- x)"
| "fneg PInf = NInf"
| "fneg NInf = PInf"
| "fneg NaN = NaN"

fun fabs :: "pyfloat \<Rightarrow> pyfloat" where
  "fabs (Fin x) = Fin \<bar>x\<bar>"
| "fabs PInf = PInf"
| "fabs NInf = PInf"
| "fabs NaN = NaN"

fun fadd :: "pyfloat \<Rightarrow> pyfloat \<Rightarrow> pyfloat" where
  "fadd (Fin x) (Fin y) = rnd (x + y)"
| "fadd NaN _ = NaN"
| "fadd _ NaN = NaN"
| "fadd PInf NInf = NaN"
| "fadd NInf PInf = NaN"
| "fadd PInf _ = PInf"
| "fadd NInf _ = NInf"
| "fadd _ PInf = PInf"
| "fadd _ NInf = NInf"

definition fsub :: "pyfloat \<Rightarrow> pyfloat \<Rightarrow> pyfloat" where
  "fsub a b = fadd a (fneg b)"

text \<open>The sign of a float as \<open>-1\<close>, \<open>0\<close> or \<open>1\<close> (0 for NaN, which no caller asks about).\<close>

fun fsign :: "pyfloat \<Rightarrow> int" where
  "fsign (Fin x) = (if 0 < x then 1 else if x < 0 then -1 else 0)"
| "fsign PInf = 1"
| "fsign NInf = -1"
| "fsign NaN = 0"

definition signed_inf :: "int \<Rightarrow> pyfloat" where
  "signed_inf s = (if 0 < s then PInf else if s < 0 then NInf else NaN)"

fun fmul :: "pyfloat \<Rightarrow> pyfloat \<Rightarrow> pyfloat" where
  "fmul (Fin x) (Fin y) = rnd (x * y)"
| "fmul NaN _ = NaN"
| "fmul _ NaN = NaN"
| "fmul a b = signed_inf (fsign a * fsign b)"

text \<open>The IEEE quotient for a nonzero divisor, and Python's division, which raises on zero.\<close>

fun fquot :: "pyfloat \<Rightarrow> pyfloat \<Rightarrow> pyfloat" where
  "fquot (Fin x) (Fin y) = rnd (x / y)"
| "fquot NaN _ = NaN"
| "fquot _ NaN = NaN"
| "fquot (Fin x) PInf = Fin 0"
| "fquot (Fin x) NInf = Fin 0"
| "fquot PInf (Fin y) = (if 0 \<le> y then PInf else NInf)"
| "fquot NInf (Fin y) = (if 0 \<le> y then NInf else PInf)"
| "fquot _ _ = NaN"

definition fdiv :: "pyfloat \<Rightarrow> pyfloat \<Rightarrow> pyfloat res" where
  "fdiv a b = (if b = Fin 0 then Inl ZeroDivisionError else Inr (fquot a b))"

text \<open>Comparisons are false on NaN.\<close>

fun flt :: "pyfloat \<Rightarrow> pyfloat \<Rightarrow> bool" where
  "flt NaN _ = False"
| "flt _ NaN = False"
| "flt (Fin x) (Fin y) = (x < y)"
| "flt NInf b = (b \<noteq> NInf)"
| "flt a PInf = (a \<noteq> PInf)"
| "flt _ _ = False"

definition feq :: "pyfloat \<Rightarrow> pyfloat \<Rightarrow> bool" where
  "feq a b = (a \<noteq> NaN \<and> a = b)"

definition fle :: "pyfloat \<Rightarrow> pyfloat \<Rightarrow> bool" where
  "fle a b = (flt a b \<or> feq a b)"

text \<open>Python's two-argument \<^verbatim>\<open>max\<close> and \<^verbatim>\<open>min\<close> keep the first argument unless the second wins.\<close>

definition fmax :: "pyfloat \<Rightarrow> pyfloat \<Rightarrow> pyfloat" where
  "fmax a b = (if flt a b then b else a)"

definition fmin :: "pyfloat \<Rightarrow> pyfloat \<Rightarrow> pyfloat" where
  "fmin a b = (if flt b a then b else a)"

fun is_finite :: "pyfloat \<Rightarrow> bool" where
  "is_finite (Fin _) = True"
| "is_finite _ = False"

text \<open>A float literal of the source, and \<^verbatim>\<open>float(n)\<close> of a Python integer.\<close>

definition lit :: "rat \<Rightarrow> pyfloat" where
  "lit x = rnd x"

definition float_of_int :: "int \<Rightarrow> pyfloat res" where
  "float_of_int n = (case rnd (of_int n) of Fin x \<Rightarrow> Inr (Fin x) | _ \<Rightarrow> Inl OverflowError)"

text \<open>\<^verbatim>\<open>round(x)\<close> to an integer, \<^verbatim>\<open>round(x, n)\<close> to \<open>n\<close> decimals, \<^verbatim>\<open>int(x)\<close>.\<close>

definition fround_int :: "pyfloat \<Rightarrow> int res" where
  "fround_int a = (case a of Fin x \<Rightarrow> Inr (round_even x)
     | NaN \<Rightarrow> Inl ValueError | _ \<Rightarrow> Inl OverflowError)"

definition fround :: "pyfloat \<Rightarrow> nat \<Rightarrow> pyfloat" where
  "fround a n = (case a of Fin x \<Rightarrow> rnd (of_int (round_even (x * 10 ^ n)) / 10 ^ n) | _ \<Rightarrow> a)"

definition ftrunc_int :: "pyfloat \<Rightarrow> int res" where
  "ftrunc_int a = (case a of Fin x \<Rightarrow> Inr (if 0 \<le> x then \<lfloor>x\<rfloor> else \<lceil>x\<rceil>)
     | NaN \<Rightarrow> Inl ValueError | _ \<Rightarrow> Inl OverflowError)"

text \<open>
  \<^verbatim>\<open>sum(xs)\<close> over floats. The service runs on Python 3.12, whose \<^verbatim>\<open>sum\<close> carries Neumaier's
  compensation term: \<open>s\<close> is the running sum, \<open>c\<close> the accumulated rounding error, and a
  finite nonzero \<open>c\<close> is added once at the end.
\<close>

fun neumaier :: "pyfloat \<Rightarrow> pyfloat \<Rightarrow> pyfloat list \<Rightarrow> pyfloat" where
  "neumaier s c [] = (if is_finite c \<and> c \<noteq> Fin 0 then fadd s c else s)"
| "neumaier s c (x # xs) = (let t = fadd s x in
     neumaier t (fadd c (if fle (fabs x) (fabs s) then fadd (fsub s t) x
                         else fadd (fsub x t) s)) xs)"

definition fsum :: "pyfloat list \<Rightarrow> pyfloat" where
  "fsum xs = (case xs of [] \<Rightarrow> Fin 0 | x # rest \<Rightarrow> neumaier x (Fin 0) rest)"

section \<open>A linear order for the library\<close>

fun frank :: "pyfloat \<Rightarrow> int" where
  "frank NInf = 0"
| "frank (Fin _) = 1"
| "frank PInf = 2"
| "frank NaN = 3"

fun fval :: "pyfloat \<Rightarrow> rat" where
  "fval (Fin x) = x"
| "fval _ = 0"

instantiation pyfloat :: linorder
begin

definition less_eq_pyfloat :: "pyfloat \<Rightarrow> pyfloat \<Rightarrow> bool" where
  "less_eq_pyfloat a b \<longleftrightarrow> frank a < frank b \<or> frank a = frank b \<and> fval a \<le> fval b"

definition less_pyfloat :: "pyfloat \<Rightarrow> pyfloat \<Rightarrow> bool" where
  "less_pyfloat a b \<longleftrightarrow> frank a < frank b \<or> frank a = frank b \<and> fval a < fval b"

instance
proof
  fix a b c :: pyfloat
  show "a < b \<longleftrightarrow> a \<le> b \<and> \<not> b \<le> a"
    by (auto simp: less_eq_pyfloat_def less_pyfloat_def)
  show "a \<le> a"
    by (simp add: less_eq_pyfloat_def)
  show "a \<le> b \<Longrightarrow> b \<le> c \<Longrightarrow> a \<le> c"
    by (auto simp: less_eq_pyfloat_def)
  show "a \<le> b \<Longrightarrow> b \<le> a \<Longrightarrow> a = b"
    by (cases a; cases b) (auto simp: less_eq_pyfloat_def)
  show "a \<le> b \<or> b \<le> a"
    by (auto simp: less_eq_pyfloat_def)
qed

end

section \<open>Rounding: nearest, odd, monotone, idempotent\<close>

lemma round_even_int [simp]: "round_even (of_int n) = n"
  by (simp add: round_even_def)

lemma round_even_floor: "\<lfloor>y\<rfloor> \<le> round_even y" "round_even y \<le> \<lfloor>y\<rfloor> + 1"
  by (auto simp: round_even_def Let_def)

lemma round_even_mono: "x \<le> y \<Longrightarrow> round_even x \<le> round_even y"
proof -
  assume le: "x \<le> y"
  then have fl: "\<lfloor>x\<rfloor> \<le> \<lfloor>y\<rfloor>" by (rule floor_mono)
  show ?thesis
  proof (cases "\<lfloor>x\<rfloor> = \<lfloor>y\<rfloor>")
    case True
    with le show ?thesis by (auto simp: round_even_def Let_def)
  next
    case False
    with fl have "\<lfloor>x\<rfloor> + 1 \<le> \<lfloor>y\<rfloor>" by simp
    with round_even_floor(2) [of x] round_even_floor(1) [of y] show ?thesis by linarith
  qed
qed

lemma round_even_le: "y \<le> of_int n \<Longrightarrow> round_even y \<le> n"
  using round_even_mono [of y "of_int n"] by simp

lemma round_even_ge: "of_int n \<le> y \<Longrightarrow> n \<le> round_even y"
  using round_even_mono [of "of_int n" y] by simp

lemma round_even_minus: "round_even (- y) = - round_even y"
proof (cases "y = of_int \<lfloor>y\<rfloor>")
  case True
  then obtain n where "y = of_int n" by blast
  then show ?thesis using round_even_int [of "- n"] by simp
next
  case False
  then have lt: "of_int \<lfloor>y\<rfloor> < y" using of_int_floor_le [of y] by linarith
  have "\<lfloor>- y\<rfloor> = - \<lfloor>y\<rfloor> - 1"
  proof (rule floor_unique)
    show "of_int (- \<lfloor>y\<rfloor> - 1) \<le> - y"
      using floor_correct [of y] by simp
    show "- y < of_int (- \<lfloor>y\<rfloor> - 1) + 1"
      using lt by simp
  qed
  then show ?thesis by (auto simp: round_even_def Let_def)
qed

lemma round_even_nearest: "\<bar>of_int (round_even y) - y\<bar> \<le> 1 / 2"
  using floor_correct [of y] by (auto simp: round_even_def Let_def abs_le_iff)

lemma ilog2_bounds: "1 \<le> n \<Longrightarrow> 0 \<le> ilog2 n \<and> 2 ^ nat (ilog2 n) \<le> n \<and> n < 2 ^ nat (ilog2 n + 1)"
proof (induction n rule: ilog2.induct)
  case (1 n)
  show ?case
  proof (cases "n < 2")
    case True
    with "1.prems" have "n = 1" by simp
    then show ?thesis by (simp add: ilog2.simps)
  next
    case False
    let ?m = "n div 2"
    from False have "1 \<le> ?m" by simp
    with 1 False have IH: "0 \<le> ilog2 ?m" "2 ^ nat (ilog2 ?m) \<le> ?m" "?m < 2 ^ nat (ilog2 ?m + 1)"
      by auto
    from False have e: "ilog2 n = 1 + ilog2 ?m" by (simp add: ilog2.simps [of n])
    have s: "nat (1 + ilog2 ?m) = Suc (nat (ilog2 ?m))" "nat (1 + ilog2 ?m + 1) = Suc (nat (ilog2 ?m + 1))"
      using IH(1) by auto
    have "2 * ?m \<le> n" "n < 2 * ?m + 2" by auto
    with IH s e show ?thesis by auto
  qed
qed

lemma ilog2up_bounds:
  "2 \<le> n \<Longrightarrow> 1 \<le> ilog2up n \<and> 2 ^ nat (ilog2up n - 1) < n \<and> n \<le> 2 ^ nat (ilog2up n)"
proof (induction n rule: ilog2up.induct)
  case (1 n)
  let ?m = "(n + 1) div 2"
  from "1.prems" have e: "ilog2up n = 1 + ilog2up ?m" by (simp add: ilog2up.simps [of n])
  show ?case
  proof (cases "?m < 2")
    case True
    with "1.prems" have "n = 2" by simp
    then show ?thesis by (simp add: ilog2up.simps)
  next
    case False
    with 1 have IH: "1 \<le> ilog2up ?m" "2 ^ nat (ilog2up ?m - 1) < ?m" "?m \<le> 2 ^ nat (ilog2up ?m)"
      by auto
    have s: "nat (1 + ilog2up ?m) = Suc (nat (ilog2up ?m))"
      "nat (ilog2up ?m) = Suc (nat (ilog2up ?m - 1))"
      using IH(1) by auto
    have "n \<le> 2 * ?m" "2 * ?m \<le> n + 1" by auto
    with IH s e show ?thesis by auto
  qed
qed

abbreviation p2 :: "int \<Rightarrow> rat" where "p2 e \<equiv> 2 powi e"

lemma p2_pos [simp]: "0 < p2 e"
  by (rule zero_less_power_int) simp

lemma p2_mono: "a \<le> b \<Longrightarrow> p2 a \<le> p2 b"
  by (rule power_int_increasing) auto

lemma p2_strict: "p2 a < p2 b \<longleftrightarrow> a < b"
  by (smt (verit) p2_mono power_int_strict_increasing one_less_numeral_iff semiring_norm(76) not_less)

lemma p2_nat: "0 \<le> e \<Longrightarrow> p2 e = of_int (2 ^ nat e)"
  by (simp add: power_int_def)

lemma p2_add: "p2 (a + b) = p2 a * p2 b"
  by (simp add: power_int_add)

lemma p2_diff: "p2 a / p2 b = p2 (a - b)"
  by (simp add: power_int_diff)

lemma expo_bounds:
  assumes "0 < x"
  shows "p2 (expo x) \<le> x \<and> x < p2 (expo x + 1)"
proof (cases "1 \<le> x")
  case True
  let ?n = "\<lfloor>x\<rfloor>"
  from True have n1: "1 \<le> ?n" by simp
  note b = ilog2_bounds [OF n1]
  have e: "expo x = ilog2 ?n" using True by (simp add: expo_def)
  have "p2 (expo x) = of_int (2 ^ nat (ilog2 ?n))" using b e p2_nat by simp
  also have "\<dots> \<le> of_int ?n" using b of_int_le_iff by blast
  also have "\<dots> \<le> x" by simp
  finally have lo: "p2 (expo x) \<le> x" .
  have "x < of_int (?n + 1)" using floor_correct [of x] by simp
  also have "\<dots> \<le> of_int (2 ^ nat (ilog2 ?n + 1))" using b of_int_le_iff by (metis zless_imp_add1_zle)
  also have "\<dots> = p2 (expo x + 1)" using b e p2_nat by simp
  finally show ?thesis using lo by simp
next
  case False
  let ?y = "1 / x" and ?n = "\<lceil>1 / x\<rceil>"
  from False assms have y1: "1 < ?y" by simp
  then have n2: "2 \<le> ?n" by (metis less_ceiling_iff of_int_1 one_add_one zless_imp_add1_zle)
  note b = ilog2up_bounds [OF n2]
  let ?k = "ilog2up ?n"
  have e: "expo x = - ?k" using False by (simp add: expo_def)
  have "?y \<le> of_int ?n" by simp
  also have "\<dots> \<le> of_int (2 ^ nat ?k)" using b of_int_le_iff by blast
  also have "\<dots> = p2 ?k" using b p2_nat by simp
  finally have "1 \<le> x * p2 ?k" using assms by (simp add: field_simps)
  moreover have "p2 (expo x) * p2 ?k = 1" using p2_add [of "- ?k" ?k] e by simp
  ultimately have lo: "p2 (expo x) \<le> x"
    by (metis mult_le_cancel_right_pos p2_pos)
  have "p2 (?k - 1) = of_int (2 ^ nat (?k - 1))" using b p2_nat by simp
  also have "\<dots> \<le> of_int (?n - 1)" using b by (metis of_int_le_iff zle_diff1_eq)
  also have "\<dots> < ?y" using ceiling_correct [of ?y] by simp
  finally have "x * p2 (?k - 1) < 1" using assms by (simp add: field_simps)
  moreover have "p2 (expo x + 1) * p2 (?k - 1) = 1"
    using p2_add [of "- ?k + 1" "?k - 1"] e by simp
  ultimately have "x < p2 (expo x + 1)"
    by (metis mult_less_cancel_right_pos p2_pos)
  with lo show ?thesis by simp
qed

lemma expo_unique:
  assumes "p2 e \<le> x" and "x < p2 (e + 1)"
  shows "expo x = e"
proof -
  have "0 < x" using assms(1) p2_pos [of e] by linarith
  note b = expo_bounds [OF this]
  have "p2 e < p2 (expo x + 1)" "p2 (expo x) < p2 (e + 1)" using assms b by linarith+
  then show ?thesis by (simp add: p2_strict)
qed

lemma expo_mono: "0 < x \<Longrightarrow> x \<le> y \<Longrightarrow> expo x \<le> expo y"
proof -
  assume a: "0 < x" "x \<le> y"
  then have "p2 (expo x) < p2 (expo y + 1)"
    using expo_bounds [of x] expo_bounds [of y] by linarith
  then show ?thesis by (simp add: p2_strict)
qed

lemma grid_minus [simp]: "grid (- x) = grid x"
  by (simp add: grid_def)

lemma rq_minus: "rq (- x) = - rq x"
  by (simp add: rq_def round_even_minus)

lemma rq_0 [simp]: "rq 0 = 0"
  using round_even_int [of 0] by (simp add: rq_def)

lemma rq_nonneg: "0 \<le> x \<Longrightarrow> 0 \<le> rq x"
  using round_even_ge [of 0 "x / p2 (grid x)"] by (simp add: rq_def)

text \<open>Rounding never crosses a multiple of the grid above it.\<close>

lemma rq_le_p2:
  assumes "x \<le> p2 k" and "grid x \<le> k"
  shows "rq x \<le> p2 k"
proof -
  have i: "p2 (k - grid x) = of_int (2 ^ nat (k - grid x))" using assms(2) p2_nat by simp
  have "x / p2 (grid x) \<le> p2 k / p2 (grid x)"
    using assms(1) by (simp add: divide_right_mono)
  also have "\<dots> = of_int (2 ^ nat (k - grid x))" using i by (simp add: p2_diff)
  finally have "round_even (x / p2 (grid x)) \<le> 2 ^ nat (k - grid x)" by (rule round_even_le)
  then have "rq x \<le> of_int (2 ^ nat (k - grid x)) * p2 (grid x)"
    unfolding rq_def by (intro mult_right_mono) (simp_all only: of_int_le_iff less_imp_le [OF p2_pos])
  also have "\<dots> = p2 k" unfolding i [symmetric] by (simp flip: p2_add)
  finally show ?thesis .
qed

lemma rq_ge_p2:
  assumes "p2 k \<le> x" and "grid x \<le> k"
  shows "p2 k \<le> rq x"
proof -
  have i: "p2 (k - grid x) = of_int (2 ^ nat (k - grid x))" using assms(2) p2_nat by simp
  have "of_int (2 ^ nat (k - grid x)) = p2 k / p2 (grid x)" using i by (simp add: p2_diff)
  also have "\<dots> \<le> x / p2 (grid x)" using assms(1) by (simp add: divide_right_mono)
  finally have "2 ^ nat (k - grid x) \<le> round_even (x / p2 (grid x))" by (rule round_even_ge)
  then have "of_int (2 ^ nat (k - grid x)) * p2 (grid x) \<le> rq x"
    unfolding rq_def by (intro mult_right_mono) (simp_all only: of_int_le_iff less_imp_le [OF p2_pos])
  moreover have "of_int (2 ^ nat (k - grid x)) * p2 (grid x) = p2 k"
    unfolding i [symmetric] by (simp flip: p2_add)
  ultimately show ?thesis by simp
qed

lemma rq_mono_pos:
  assumes "0 < x" and "x \<le> y"
  shows "rq x \<le> rq y"
proof -
  have e: "expo x \<le> expo y" using assms by (rule expo_mono)
  show ?thesis
  proof (cases "grid x = grid y")
    case True
    then have "round_even (x / p2 (grid x)) \<le> round_even (y / p2 (grid y))"
      using assms by (intro round_even_mono) (simp add: divide_right_mono)
    then show ?thesis
      unfolding rq_def True by (intro mult_right_mono) (simp_all add: less_imp_le)
  next
    case False
    with e assms have g: "grid y = expo y - 52" "expo x < expo y" "grid x \<le> expo y"
      by (auto simp: grid_def max_def split: if_splits)
    have "x \<le> p2 (expo y)"
      using expo_bounds [OF assms(1)] p2_mono [of "expo x + 1" "expo y"] g(2) by simp
    then have "rq x \<le> p2 (expo y)" using g(3) by (rule rq_le_p2)
    also have "p2 (expo y) \<le> rq y"
      using assms g(1) expo_bounds [of y] by (intro rq_ge_p2) auto
    finally show ?thesis .
  qed
qed

theorem rq_mono: "x \<le> y \<Longrightarrow> rq x \<le> rq y"
proof -
  assume le: "x \<le> y"
  consider "0 < x" | "x \<le> 0" "0 \<le> y" | "y < 0" by linarith
  then show ?thesis
  proof cases
    case 1
    then show ?thesis using le by (rule rq_mono_pos)
  next
    case 2
    then have "0 \<le> rq (- x)" "0 \<le> rq y" by (simp_all add: rq_nonneg)
    then show ?thesis by (simp add: rq_minus)
  next
    case 3
    then have "rq (- y) \<le> rq (- x)" using le by (intro rq_mono_pos) auto
    then show ?thesis by (simp add: rq_minus)
  qed
qed

lemma rq_grid_multiple: "x = of_int m * p2 k \<Longrightarrow> grid x \<le> k \<Longrightarrow> rq x = x"
proof -
  assume x: "x = of_int m * p2 k" and k: "grid x \<le> k"
  have "x / p2 (grid x) = of_int m * p2 (k - grid x)"
    using p2_diff [of k "grid x"] x by (metis times_divide_eq_right)
  also have "\<dots> = of_int (m * 2 ^ nat (k - grid x))" using k p2_nat by simp
  finally have q: "x / p2 (grid x) = of_int (m * 2 ^ nat (k - grid x))" .
  then have "round_even (x / p2 (grid x)) = m * 2 ^ nat (k - grid x)" by (metis round_even_int)
  moreover have "of_int (m * 2 ^ nat (k - grid x)) * p2 (grid x) = x"
    using q by (simp add: field_simps)
  ultimately show ?thesis by (simp add: rq_def)
qed

lemma rq_idem_pos:
  assumes "0 < x"
  shows "rq (rq x) = rq x"
proof -
  let ?r = "rq x" and ?m = "round_even (x / p2 (grid x))"
  have r: "?r = of_int ?m * p2 (grid x)" by (simp add: rq_def)
  have r0: "0 \<le> ?r" using assms by (intro rq_nonneg) simp
  consider "?r = 0" | "0 < ?r" "?r < p2 (expo x + 1)" | "0 < ?r" "p2 (expo x + 1) \<le> ?r"
    using r0 by linarith
  then show ?thesis
  proof cases
    case 1
    then show ?thesis by simp
  next
    case 2
    then have "expo ?r \<le> expo x"
      using expo_bounds [of ?r] by (metis order_le_less_trans p2_strict zle_add1_eq_le)
    then have "grid ?r \<le> grid x" using assms 2 by (auto simp: grid_def)
    with r show ?thesis by (rule rq_grid_multiple)
  next
    case 3
    have xb: "x < p2 (expo x + 1)" using expo_bounds [OF assms] by simp
    have ge: "grid x \<le> expo x + 1"
    proof (rule ccontr)
      assume "\<not> grid x \<le> expo x + 1"
      then have "expo x + 1 < grid x" by simp
      then have "p2 (expo x + 1) \<le> p2 (grid x - 1)" by (intro p2_mono) simp
      with xb have "x < p2 (grid x - 1)" by linarith
      then have "x / p2 (grid x) < 1 / 2"
        by (simp add: power_int_diff field_simps)
      moreover from this have "\<lfloor>x / p2 (grid x)\<rfloor> = 0" using assms by (intro floor_unique) auto
      ultimately have "?m \<le> 0" by (simp add: round_even_def)
      with r have "?r \<le> 0" by (simp add: mult_nonpos_nonneg)
      with 3 show False by simp
    qed
    then have "?r = p2 (expo x + 1)"
      using rq_le_p2 [of x "expo x + 1"] xb 3 by simp
    moreover have "expo (p2 (expo x + 1)) = expo x + 1"
      by (rule expo_unique) (simp_all add: p2_strict)
    moreover have "grid (p2 (expo x + 1)) \<le> expo x + 1"
      using ge calculation(2) by (auto simp: grid_def)
    ultimately show ?thesis using rq_grid_multiple [of ?r 1 "expo x + 1"] by simp
  qed
qed

theorem rq_idem: "rq (rq x) = rq x"
proof -
  consider "0 < x" | "x = 0" | "x < 0" by linarith
  then show ?thesis
  proof cases
    case 3
    then have "rq (rq (- x)) = rq (- x)" by (intro rq_idem_pos) simp
    then show ?thesis by (simp add: rq_minus)
  qed (simp_all add: rq_idem_pos)
qed

lemma rq_of_int: "\<bar>n\<bar> \<le> 2 ^ 53 \<Longrightarrow> rq (of_int n) = of_int n"
proof -
  assume n: "\<bar>n\<bar> \<le> 2 ^ 53"
  consider "n = 0" | "\<bar>n\<bar> = 2 ^ 53" | "n \<noteq> 0" "\<bar>n\<bar> < 2 ^ 53" using n by linarith
  then show ?thesis
  proof cases
    case 1
    then show ?thesis by simp
  next
    case 2
    have "expo (p2 53) = 53" by (rule expo_unique) simp_all
    then have g: "grid (p2 53) \<le> 53" by (simp add: grid_def)
    have "rq (p2 53) = p2 53" using g by (intro rq_grid_multiple [of _ 1 53]) simp
    moreover have "of_int n = p2 53 \<or> of_int n = - p2 53" using 2 by (auto simp: abs_if split: if_splits)
    ultimately show ?thesis using rq_minus [of "p2 53"] by auto
  next
    case 3
    have "(0::rat) < of_int \<bar>n\<bar>" using 3 by simp
    then have "p2 (expo (of_int \<bar>n\<bar>)) \<le> of_int \<bar>n\<bar>" using expo_bounds by blast
    also have "\<dots> < p2 53" using 3(2) by (simp flip: of_int_abs) 
    finally have "expo (of_int \<bar>n\<bar>) < 53" by (simp only: p2_strict)
    then have "grid (of_int n) \<le> 0" by (simp add: grid_def)
    then show ?thesis by (intro rq_grid_multiple [of _ n 0]) auto
  qed
qed

section \<open>Facts about floats\<close>

lemma overflow_at_pos [simp]: "0 < overflow_at"
  by (simp add: overflow_at_def)

lemma rnd_cases:
  obtains (inf) "overflow_at \<le> rq x" "rnd x = PInf"
  | (ninf) "rq x \<le> - overflow_at" "rnd x = NInf"
  | (fin) "\<bar>rq x\<bar> < overflow_at" "rnd x = Fin (rq x)"
  unfolding rnd_def Let_def by (cases "overflow_at \<le> rq x"; cases "rq x \<le> - overflow_at") auto

lemma rnd_not_NaN [simp]: "rnd x \<noteq> NaN" "NaN \<noteq> rnd x"
  by (simp_all add: rnd_def Let_def)

lemma rnd_minus: "rnd (- x) = fneg (rnd x)"
proof -
  have "\<not> (overflow_at \<le> r \<and> overflow_at \<le> - r)" for r
    using overflow_at_pos by linarith
  then show ?thesis by (auto simp: rnd_def rq_minus Let_def)
qed

lemma rnd_0 [simp]: "rnd 0 = Fin 0"
  using overflow_at_pos by (simp add: rnd_def not_le)

lemma rnd_idem: "rnd x = Fin y \<Longrightarrow> rnd y = Fin y"
  by (auto simp: rnd_def Let_def rq_idem split: if_splits)

lemma rnd_of_int: "\<bar>n\<bar> \<le> 2 ^ 53 \<Longrightarrow> rnd (of_int n) = Fin (of_int n)"
proof -
  assume n: "\<bar>n\<bar> \<le> 2 ^ 53"
  have "\<bar>of_int n :: rat\<bar> \<le> 2 ^ 53" using n by (metis of_int_abs of_int_le_iff of_int_numeral of_int_power)
  also have "\<dots> < overflow_at"
    unfolding overflow_at_def by (rule power_strict_increasing) auto
  finally show ?thesis using rq_of_int [OF n] by (auto simp: rnd_def abs_less_iff)
qed

lemma rnd_numeral [simp]:
  "numeral n \<le> (2 ^ 53 :: int) \<Longrightarrow> rnd (numeral n) = Fin (numeral n)"
  "numeral n \<le> (2 ^ 53 :: int) \<Longrightarrow> rnd (- numeral n) = Fin (- numeral n)"
  using rnd_of_int [of "numeral n"] rnd_of_int [of "- numeral n"] by simp_all

lemma rnd_1 [simp]: "rnd 1 = Fin 1" "rnd (- 1) = Fin (- 1)"
  using rnd_of_int [of 1] rnd_of_int [of "- 1"] by simp_all

lemma fle_Fin [simp]: "fle (Fin x) (Fin y) \<longleftrightarrow> x \<le> y"
  by (auto simp: fle_def feq_def)

lemma feq_Fin [simp]: "feq (Fin x) (Fin y) \<longleftrightarrow> x = y"
  by (auto simp: feq_def)

lemma flt_less: "a \<noteq> NaN \<Longrightarrow> b \<noteq> NaN \<Longrightarrow> flt a b \<longleftrightarrow> a < b"
  by (cases a; cases b) (auto simp: less_pyfloat_def)

lemma fle_less_eq: "a \<noteq> NaN \<Longrightarrow> b \<noteq> NaN \<Longrightarrow> fle a b \<longleftrightarrow> a \<le> b"
  by (auto simp: fle_def feq_def flt_less)

lemma flt_NaN [simp]: "\<not> flt NaN a" "\<not> flt a NaN"
  by (cases a; simp)+

lemma fle_NaN [simp]: "\<not> fle NaN a" "\<not> fle a NaN"
  by (auto simp: fle_def feq_def)

lemma flt_irrefl [simp]: "\<not> flt a a"
  by (cases a) auto

lemma flt_not_fle: "flt a b \<Longrightarrow> \<not> fle b a"
  by (cases a; cases b) (auto simp: fle_def feq_def)

lemma fle_or_flt: "a \<noteq> NaN \<Longrightarrow> b \<noteq> NaN \<Longrightarrow> fle a b \<or> flt b a"
  by (auto simp: fle_less_eq flt_less)

lemma not_flt: "a \<noteq> NaN \<Longrightarrow> b \<noteq> NaN \<Longrightarrow> \<not> flt a b \<longleftrightarrow> fle b a"
  by (auto simp: fle_less_eq flt_less)

lemma fle_refl [simp]: "fle a a \<longleftrightarrow> a \<noteq> NaN"
  by (auto simp: fle_def feq_def)

lemma fle_trans: "fle a b \<Longrightarrow> fle b c \<Longrightarrow> fle a c"
  by (cases "a = NaN"; cases "b = NaN"; cases "c = NaN") (auto simp: fle_less_eq)

theorem rnd_mono: "x \<le> y \<Longrightarrow> rnd x \<le> rnd y"
  using rq_mono [of x y]
  by (auto simp: rnd_def Let_def less_eq_pyfloat_def)

lemma rnd_fle: "x \<le> y \<Longrightarrow> fle (rnd x) (rnd y)"
  by (simp add: fle_less_eq rnd_mono)

lemma rnd_nonneg: "0 \<le> x \<Longrightarrow> fle (Fin 0) (rnd x)"
  using rnd_fle [of 0 x] by simp

lemma rnd_nonpos: "x \<le> 0 \<Longrightarrow> fle (rnd x) (Fin 0)"
  using rnd_fle [of x 0] by simp

lemma fneg_fneg [simp]: "fneg (fneg a) = a"
  by (cases a) auto

lemma fabs_fneg [simp]: "fabs (fneg a) = fabs a"
  by (cases a) auto

lemma fabs_nonneg: "a \<noteq> NaN \<Longrightarrow> fle (Fin 0) (fabs a)"
  by (cases a) (auto simp: fle_def)

lemma fabs_NaN [simp]: "fabs a = NaN \<longleftrightarrow> a = NaN"
  by (cases a) auto

lemma fneg_fadd: "fneg (fadd a b) = fadd (fneg a) (fneg b)"
  by (cases a; cases b) (simp_all add: rnd_minus [symmetric])

lemma fadd_commute: "fadd a b = fadd b a"
  by (cases a; cases b) (simp_all add: add.commute)

lemma fsub_swap: "fsub a b = fneg (fsub b a)"
  by (simp add: fsub_def fneg_fadd fadd_commute)

lemma fabs_fsub_commute: "fabs (fsub a b) = fabs (fsub b a)"
  by (subst fsub_swap) simp

lemma fsub_Fin [simp]: "fsub (Fin x) (Fin y) = rnd (x - y)"
  by (simp add: fsub_def)

lemma fmul_commute: "fmul a b = fmul b a"
  by (cases a; cases b) (simp_all add: mult.commute)

lemma fmax_ge: "a \<noteq> NaN \<Longrightarrow> b \<noteq> NaN \<Longrightarrow> fle a (fmax a b) \<and> fle b (fmax a b)"
  by (auto simp: fmax_def fle_less_eq flt_less)

lemma fmin_le: "a \<noteq> NaN \<Longrightarrow> b \<noteq> NaN \<Longrightarrow> fle (fmin a b) a \<and> fle (fmin a b) b"
  by (auto simp: fmin_def fle_less_eq flt_less)

lemma rnd_ge_int: "of_int n \<le> x \<Longrightarrow> \<bar>n\<bar> \<le> 2 ^ 53 \<Longrightarrow> fle (Fin (of_int n)) (rnd x)"
  using rnd_fle [of "of_int n" x] rnd_of_int [of n] by simp

lemma rnd_le_int: "x \<le> of_int n \<Longrightarrow> \<bar>n\<bar> \<le> 2 ^ 53 \<Longrightarrow> fle (rnd x) (Fin (of_int n))"
  using rnd_fle [of x "of_int n"] rnd_of_int [of n] by simp

lemma rnd_bounded_fin:
  assumes "of_int a \<le> x" "x \<le> of_int b" "\<bar>a\<bar> \<le> 2 ^ 53" "\<bar>b\<bar> \<le> 2 ^ 53"
  obtains y where "rnd x = Fin y" "of_int a \<le> y" "y \<le> of_int b"
proof -
  have "fle (Fin (of_int a)) (rnd x)" "fle (rnd x) (Fin (of_int b))"
    using assms by (simp_all add: rnd_ge_int rnd_le_int)
  then show ?thesis using that by (cases "rnd x") (auto simp: fle_def feq_def)
qed

section \<open>Representable values\<close>

text \<open>A value of \<open>pyfloat\<close> is a double when rounding leaves it alone. Every operation returns
  one, whatever its arguments.\<close>

definition is_double :: "pyfloat \<Rightarrow> bool" where
  "is_double a \<longleftrightarrow> (case a of Fin x \<Rightarrow> rnd x = Fin x | _ \<Rightarrow> True)"

lemma is_double_simps [simp]: "is_double PInf" "is_double NInf" "is_double NaN"
  "is_double (Fin x) \<longleftrightarrow> rnd x = Fin x"
  by (simp_all add: is_double_def)

lemma is_double_rnd [simp, intro]: "is_double (rnd x)"
  by (cases "rnd x") (auto dest: rnd_idem)

lemma is_double_fadd [simp, intro]: "is_double (fadd a b)"
  by (cases a; cases b) auto

lemma is_double_fsub [simp, intro]: "is_double (fsub a b)"
  by (simp add: fsub_def)

lemma is_double_fmul [simp, intro]: "is_double (fmul a b)"
  by (cases a; cases b) (auto simp: signed_inf_def)

lemma is_double_fquot [simp, intro]: "is_double (fquot a b)"
  by (cases a; cases b) auto

lemma is_double_fneg [simp]: "is_double (fneg a) \<longleftrightarrow> is_double a"
proof (cases a)
  case (Fin x)
  have "fneg a = Fin (- x) \<Longrightarrow> a = Fin x" for a by (cases a) auto
  then show ?thesis using Fin rnd_minus [of x] by auto
qed auto

lemma is_double_fabs [simp, intro]: "is_double a \<Longrightarrow> is_double (fabs a)"
proof (cases a)
  case (Fin x)
  assume "is_double a"
  then show ?thesis using Fin rnd_minus [of x] by (cases "0 \<le> x") auto
qed auto

lemma is_double_fmax [simp, intro]: "is_double a \<Longrightarrow> is_double b \<Longrightarrow> is_double (fmax a b)"
  by (simp add: fmax_def)

text \<open>Scaling a positive double up by a factor of at least one cannot make it vanish.\<close>

lemma rnd_scale_up:
  assumes "rnd x = Fin x" "x \<le> y"
  shows "fle (Fin x) (rnd y)"
  using rnd_fle [OF assms(2)] assms(1) by simp

lemma rnd_scale_down:
  assumes "rnd x = Fin x" "y \<le> x"
  shows "fle (rnd y) (Fin x)"
  using rnd_fle [OF assms(2)] assms(1) by simp

lemma fle_Fin_cases:
  assumes "fle (Fin x) a"
  obtains "a = PInf" | y where "a = Fin y" "x \<le> y"
  using assms by (cases a) (auto simp: fle_def feq_def)

lemma Fin_fle_cases:
  assumes "fle a (Fin x)"
  obtains "a = NInf" | y where "a = Fin y" "y \<le> x"
  using assms by (cases a) (auto simp: fle_def feq_def)

text \<open>Halving a double of at least one is exact.\<close>

lemma rq_half:
  assumes "1 \<le> x"
  shows "rq (x / 2) = rq x / 2"
proof -
  have b: "p2 (expo x) \<le> x \<and> x < p2 (expo x + 1)" using assms by (intro expo_bounds) simp
  have e0: "0 \<le> expo x"
  proof (rule ccontr)
    assume "\<not> 0 \<le> expo x"
    then have "p2 (expo x + 1) \<le> p2 0" by (intro p2_mono) simp
    then show False using b assms by simp
  qed
  have "expo (x / 2) = expo x - 1"
    by (rule expo_unique) (use b in \<open>simp_all add: power_int_diff power_int_add field_simps\<close>)
  then have g: "grid (x / 2) = grid x - 1" using e0 assms by (simp add: grid_def max_def)
  have "x / 2 / p2 (grid x - 1) = x / p2 (grid x)" by (simp add: power_int_diff)
  then show ?thesis by (simp add: rq_def g) (simp add: power_int_diff)
qed

lemma rnd_half:
  assumes "rnd x = Fin x" "1 \<le> x"
  shows "rnd (x / 2) = Fin (x / 2)"
proof -
  have r: "rq x = x" "\<not> overflow_at \<le> x" using assms(1) by (auto simp: rnd_def Let_def split: if_splits)
  then have "rq (x / 2) = x / 2" using rq_half [OF assms(2)] by simp
  then show ?thesis using r assms(2) overflow_at_pos by (auto simp: rnd_def Let_def)
qed

section \<open>Evaluation\<close>

text \<open>The overflow test by the exponent, so that witnesses evaluate without \<open>2 ^ 1024\<close>.\<close>

lemma overflow_expo:
  assumes "0 < x"
  shows "overflow_at \<le> x \<longleftrightarrow> 1024 \<le> expo x"
proof -
  have o: "overflow_at = p2 1024" by (simp add: overflow_at_def power_int_def)
  note b = expo_bounds [OF assms]
  show ?thesis
  proof
    assume "overflow_at \<le> x"
    then have "p2 1024 < p2 (expo x + 1)" using o b by linarith
    then show "1024 \<le> expo x" by (simp only: p2_strict)
  next
    assume "1024 \<le> expo x"
    then have "p2 1024 \<le> p2 (expo x)" by (rule p2_mono)
    then show "overflow_at \<le> x" using o b by linarith
  qed
qed

lemma rnd_code [code]:
  "rnd x = (let r = rq x in
     if \<bar>r\<bar> \<le> 18446744073709551616 then Fin r
     else if expo \<bar>r\<bar> < 1024 then Fin r else if 0 < r then PInf else NInf)"
proof -
  have "(18446744073709551616 :: rat) = 2 ^ 64" by simp
  also have "\<dots> < overflow_at" unfolding overflow_at_def by (rule power_strict_increasing) auto
  finally have small: "18446744073709551616 < overflow_at" .
  define r where "r = rq x"
  consider "\<bar>r\<bar> \<le> 18446744073709551616" | "18446744073709551616 < \<bar>r\<bar>" "0 < r"
    | "18446744073709551616 < \<bar>r\<bar>" "r < 0" by linarith
  then show ?thesis unfolding rnd_def r_def [symmetric] Let_def
  proof cases
    case 1
    then show "(if overflow_at \<le> r then PInf else if r \<le> - overflow_at then NInf else Fin r) =
        (if \<bar>r\<bar> \<le> 18446744073709551616 then Fin r
         else if expo \<bar>r\<bar> < 1024 then Fin r else if 0 < r then PInf else NInf)"
      using small by auto
  next
    case 2
    then show "(if overflow_at \<le> r then PInf else if r \<le> - overflow_at then NInf else Fin r) =
        (if \<bar>r\<bar> \<le> 18446744073709551616 then Fin r
         else if expo \<bar>r\<bar> < 1024 then Fin r else if 0 < r then PInf else NInf)"
      using small overflow_expo [of r] by auto
  next
    case 3
    then show "(if overflow_at \<le> r then PInf else if r \<le> - overflow_at then NInf else Fin r) =
        (if \<bar>r\<bar> \<le> 18446744073709551616 then Fin r
         else if expo \<bar>r\<bar> < 1024 then Fin r else if 0 < r then PInf else NInf)"
      using small overflow_expo [of "- r"] by auto
  qed
qed
end
