(* ===== verification/PyString.thy ===== *)
theory PyString
  imports Prelude
begin

text \<open>
  The string operations of Python that the modelled code uses. A string is a list of
  characters with code points below 256; text outside that range (the Persian labels) is
  not represented.
\<close>

section \<open>Splitting and stripping\<close>

text \<open>\<^verbatim>\<open>str.isspace\<close> of one character.\<close>

definition py_space :: "char \<Rightarrow> bool" where
  "py_space c \<longleftrightarrow> of_char c \<in> {9, 10, 11, 12, 13, 28, 29, 30, 31, 32, 133, 160 :: int}"

definition py_strip :: "string \<Rightarrow> string" where
  "py_strip s = rev (dropWhile py_space (rev (dropWhile py_space s)))"

text \<open>\<^verbatim>\<open>s.split(sep)\<close> for a one-character separator: never an empty list.\<close>

fun py_split :: "char \<Rightarrow> string \<Rightarrow> string list" where
  "py_split sep [] = [[]]"
| "py_split sep (c # cs) =
     (if c = sep then [] # py_split sep cs
      else case py_split sep cs of [] \<Rightarrow> [[c]] | w # ws \<Rightarrow> (c # w) # ws)"

section \<open>Integers in text\<close>

definition digit_value :: "char \<Rightarrow> int option" where
  "digit_value c = (let n = of_char c in if 48 \<le> n \<and> n \<le> 57 then Some (n - 48) else None)"

text \<open>The digits of \<^verbatim>\<open>int(s)\<close>: at least one, with single underscores between digits.\<close>

fun digits_value :: "int \<Rightarrow> string \<Rightarrow> int option" where
  "digits_value acc [] = Some acc"
| "digits_value acc (c # cs) =
     (case digit_value c of
        Some d \<Rightarrow> digits_value (10 * acc + d) cs
      | None \<Rightarrow> if c = CHR ''_'' then
            (case cs of [] \<Rightarrow> None
             | e # es \<Rightarrow> (case digit_value e of None \<Rightarrow> None
                          | Some d \<Rightarrow> digits_value (10 * acc + d) es))
          else None)"

definition unsigned_value :: "string \<Rightarrow> int option" where
  "unsigned_value s = (case s of [] \<Rightarrow> None
     | c # cs \<Rightarrow> (case digit_value c of None \<Rightarrow> None | Some d \<Rightarrow> digits_value d cs))"

definition py_int :: "string \<Rightarrow> int res" where
  "py_int raw =
     (let s = py_strip raw;
          v = (case s of [] \<Rightarrow> None
               | c # cs \<Rightarrow> if c = CHR ''-'' then map_option uminus (unsigned_value cs)
                          else if c = CHR ''+'' then unsigned_value cs else unsigned_value s)
      in case v of None \<Rightarrow> Inl ValueError | Some n \<Rightarrow> Inr n)"

section \<open>Facts\<close>

lemma py_split_nonempty [simp]: "py_split sep s \<noteq> []"
  by (cases s) (auto split: list.splits)

text \<open>Joining the parts with the separator gives the string back.\<close>

fun py_join :: "char \<Rightarrow> string list \<Rightarrow> string" where
  "py_join sep [] = []"
| "py_join sep [w] = w"
| "py_join sep (w # v # ws) = w @ sep # py_join sep (v # ws)"

lemma py_join_split: "py_join sep (py_split sep s) = s"
proof (induction s)
  case (Cons c s)
  obtain w ws where s: "py_split sep s = w # ws" by (cases "py_split sep s") auto
  with Cons show ?case by (cases ws) auto
qed simp

lemma digits_value_nonneg: "digits_value acc s = Some n \<Longrightarrow> 0 \<le> acc \<Longrightarrow> 0 \<le> n"
  by (induction acc s rule: digits_value.induct)
    (auto simp: digit_value_def Let_def split: option.splits if_splits list.splits)

end
