(* ===== verification/Market_Hours.thy ===== *)
theory Market_Hours
  imports Calendar PyFloat PyString
begin

text \<open>
  \<^verbatim>\<open>app/core/market_hours.py\<close> and \<^verbatim>\<open>app/core/freshness.py\<close>: which market of a symbol is open at
  an instant, when the closure that contains an instant began, and whether an observation
  still counts as fresh.

  The Tehran time zone comes from the tz database and is a parameter (\<open>tz\<close>): the offset at
  an instant, and the offset \<^verbatim>\<open>ZoneInfo\<close> assigns to a wall clock. The locale \<open>civil_zone\<close>
  states what a zone without clock changes promises (Asia/Tehran since 2022). The overflow of
  \<^verbatim>\<open>datetime\<close> at the ends of its range is left out.

  Shown: the nine-day search always finds the last close, whatever the configured hours, so
  the fallback is dead code; a closure start is not after the instant, no moment from it to
  the instant is open and each of them has the same closure start; therefore the freshness
  verdict does not change during a closure.
\<close>

section \<open>Settings, calendars and constants\<close>

record settings =
  market_tehran_open :: string
  market_tehran_close :: string
  market_tse_open :: string
  market_tse_close :: string
  stale_minutes :: int

record tz =
  utc_offset :: "int \<Rightarrow> int"
  wall_offset :: "int \<Rightarrow> int"

definition THURSDAY :: int where "THURSDAY = 3"
definition FRIDAY :: int where "FRIDAY = 4"

definition ALWAYS_OPEN_SYMBOLS :: "string list" where
  "ALWAYS_OPEN_SYMBOLS = [''IR_GOLD_18K'', ''USD_IRT'']"

definition IRANIAN_SYMBOLS :: "string list" where
  "IRANIAN_SYMBOLS = [''IR_COIN_EMAMI'', ''IR_SILVER_999'', ''IR_COIN_BAHAR'', ''IR_COIN_HALF'',
     ''IR_COIN_QUARTER'', ''IR_COIN_GERAMI'', ''IR_GOLD_24K'', ''IR_GOLD_MESGHAL'']"

definition GLOBAL_SYMBOLS :: "string list" where
  "GLOBAL_SYMBOLS = [''XAUUSD'', ''XAGUSD'', ''BRENT_OIL'', ''DXY'', ''US10Y'']"

definition SOURCE_TGJU_HISTORY :: string where "SOURCE_TGJU_HISTORY = ''tgju_history''"
definition SOURCE_TSETMC_CLOSES :: string where "SOURCE_TSETMC_CLOSES = ''tsetmc_cdn''"

definition TGJU_DAILY_CLOSES :: "string list" where
  "TGJU_DAILY_CLOSES = [''IR_SILVER_999'', ''IR_COIN_BAHAR'', ''IR_COIN_HALF'', ''IR_COIN_QUARTER'',
     ''IR_COIN_GERAMI'', ''IR_GOLD_24K'', ''IR_GOLD_MESGHAL'']"

definition WEEKLY_FETCH_CLOSES :: "string list" where
  "WEEKLY_FETCH_CLOSES = [''IR_SILVER_FUND_SILVER'', ''IR_SILVER_FUND_SIMIN'', ''IR_GOLD_FUND_KAHRABA'']"

definition DAILY_CLOSE_ONLY :: "string list" where
  "DAILY_CLOSE_ONLY = TGJU_DAILY_CLOSES @ WEEKLY_FETCH_CLOSES"

definition DAILY_CLOSE_STALE_DAYS :: int where "DAILY_CLOSE_STALE_DAYS = 4"
definition WEEKLY_FETCH_STALE_DAYS :: int where "WEEKLY_FETCH_STALE_DAYS = 10"

text \<open>A \<^verbatim>\<open>datetime.time\<close> is its microsecond of the day.\<close>

definition mk_time :: "int \<Rightarrow> int \<Rightarrow> int res" where
  "mk_time hh mm = (if 0 \<le> hh \<and> hh < 24 \<and> 0 \<le> mm \<and> mm < 60
     then Inr (hh * hour_us + mm * minute_us) else Inl ValueError)"

definition GLOBAL_CLOSE_UTC :: int where "GLOBAL_CLOSE_UTC = 21 * hour_us"
definition GLOBAL_OPEN_UTC :: int where "GLOBAL_OPEN_UTC = 22 * hour_us"

definition is_tse_fund :: "string \<Rightarrow> bool" where
  "is_tse_fund symbol = (let parts = py_split CHR ''_'' symbol in
     3 \<le> length parts \<and> parts ! 0 = ''IR'' \<and> parts ! 2 = ''FUND'')"

definition parse_hhmm :: "string \<Rightarrow> int \<Rightarrow> int" where
  "parse_hhmm raw dflt =
     (case (case py_split CHR '':'' (py_strip raw) of
              [hh, mm] \<Rightarrow> bind_res (py_int hh) (\<lambda>h. bind_res (py_int mm) (\<lambda>m. mk_time h m))
            | _ \<Rightarrow> Inl ValueError) of
        Inl _ \<Rightarrow> dflt | Inr t \<Rightarrow> t)"

section \<open>Open or closed\<close>

definition local_wall :: "tz \<Rightarrow> int \<Rightarrow> int" where
  "local_wall z t = t + utc_offset z t"

text \<open>The branch shared by the exchange funds and the bazaar symbols.\<close>

definition tehran_session :: "tz \<Rightarrow> int \<Rightarrow> int \<Rightarrow> int \<Rightarrow> bool" where
  "tehran_session z open_t close_t at_utc =
     (let local = local_wall z at_utc in
      if wall_weekday local = THURSDAY \<or> wall_weekday local = FRIDAY then False
      else open_t \<le> wall_time local \<and> wall_time local < close_t)"

definition global_session :: "int \<Rightarrow> bool" where
  "global_session at_utc =
     (let wd = wall_weekday at_utc in
      if wd = FRIDAY \<and> GLOBAL_CLOSE_UTC \<le> wall_time at_utc then False
      else if wd = 5 then False
      else if wd = 6 \<and> wall_time at_utc < GLOBAL_OPEN_UTC then False
      else True)"

definition tse_open :: "settings \<Rightarrow> int" where
  "tse_open s = parse_hhmm (market_tse_open s) (12 * hour_us)"

definition tse_close :: "settings \<Rightarrow> int" where
  "tse_close s = parse_hhmm (market_tse_close s) (18 * hour_us)"

definition tehran_open :: "settings \<Rightarrow> int" where
  "tehran_open s = parse_hhmm (market_tehran_open s) (12 * hour_us)"

definition tehran_close :: "settings \<Rightarrow> int" where
  "tehran_close s = parse_hhmm (market_tehran_close s) (20 * hour_us)"

definition is_market_open :: "tz \<Rightarrow> string \<Rightarrow> pydatetime \<Rightarrow> settings \<Rightarrow> bool" where
  "is_market_open z symbol dt s =
     (let at_utc = ensure_utc dt in
      if symbol \<in> set ALWAYS_OPEN_SYMBOLS then True
      else if is_tse_fund symbol then tehran_session z (tse_open s) (tse_close s) at_utc
      else if symbol \<in> set IRANIAN_SYMBOLS then
        tehran_session z (tehran_open s) (tehran_close s) at_utc
      else if symbol \<in> set GLOBAL_SYMBOLS then global_session at_utc
      else True)"

section \<open>When the closure began\<close>

text \<open>The search for the last close: \<open>days_back\<close> runs over a list.\<close>

fun close_search :: "int \<Rightarrow> int \<Rightarrow> int list \<Rightarrow> int option" where
  "close_search close_t local [] = None"
| "close_search close_t local (days_back # rest) =
     (let day = wall_ordinal (local - days_back * day_us) in
      if weekday day = THURSDAY \<or> weekday day = FRIDAY then close_search close_t local rest
      else let candidate = combine day close_t in
        if candidate \<le> local then Some candidate else close_search close_t local rest)"

definition tehran_closure :: "tz \<Rightarrow> int \<Rightarrow> int \<Rightarrow> int" where
  "tehran_closure z close_t at_utc =
     (case close_search close_t (local_wall z at_utc) [0..8] of
        Some candidate \<Rightarrow> candidate - wall_offset z candidate
      | None \<Rightarrow> at_utc)"

definition global_closure :: "int \<Rightarrow> int" where
  "global_closure at_utc =
     (let days_back = (wall_weekday at_utc - FRIDAY) mod 7;
          candidate = combine (wall_ordinal (at_utc - days_back * day_us)) GLOBAL_CLOSE_UTC
      in if at_utc < candidate then candidate - 7 * day_us else candidate)"

definition closure_started_at :: "tz \<Rightarrow> string \<Rightarrow> pydatetime \<Rightarrow> settings \<Rightarrow> int option" where
  "closure_started_at z symbol dt s =
     (let at_utc = ensure_utc dt in
      if is_market_open z symbol dt s then None
      else if is_tse_fund symbol then Some (tehran_closure z (tse_close s) at_utc)
      else if symbol \<in> set IRANIAN_SYMBOLS then Some (tehran_closure z (tehran_close s) at_utc)
      else if symbol \<in> set GLOBAL_SYMBOLS then Some (global_closure at_utc)
      else None)"

section \<open>Freshness\<close>

text \<open>\<^verbatim>\<open>not source\<close> is true of \<^verbatim>\<open>None\<close> and of the empty string.\<close>

definition daily_close_max_age :: "string \<Rightarrow> string option \<Rightarrow> int option" where
  "daily_close_max_age symbol source =
     (if symbol \<notin> set DAILY_CLOSE_ONLY then None
      else if source = Some SOURCE_TGJU_HISTORY then Some DAILY_CLOSE_STALE_DAYS
      else if source = Some SOURCE_TSETMC_CLOSES then Some WEEKLY_FETCH_STALE_DAYS
      else if source = None \<or> source = Some [] then
        Some (if symbol \<in> set WEEKLY_FETCH_CLOSES then WEEKLY_FETCH_STALE_DAYS
              else DAILY_CLOSE_STALE_DAYS)
      else None)"

definition is_acceptably_fresh ::
  "tz \<Rightarrow> string \<Rightarrow> pydatetime option \<Rightarrow> pydatetime \<Rightarrow> settings \<Rightarrow> string option \<Rightarrow> bool" where
  "is_acceptably_fresh z symbol observed dt s source =
     (case observed of None \<Rightarrow> False
      | Some o' \<Rightarrow>
          let observed_at = ensure_utc o'; at_utc = ensure_utc dt in
          case daily_close_max_age symbol source of
            Some max_age \<Rightarrow>
              wall_ordinal (local_wall z at_utc) - wall_ordinal observed_at \<le> max_age
          | None \<Rightarrow>
              let tolerance = stale_minutes s * minute_us in
              case closure_started_at z symbol dt s of
                None \<Rightarrow> at_utc - observed_at \<le> tolerance
              | Some closure_start \<Rightarrow> closure_start - tolerance \<le> observed_at)"

text \<open>freshness.py. \<^verbatim>\<open>now\<close> defaults to the clock; a naive \<^verbatim>\<open>now\<close> cannot be subtracted from an
  aware observation.\<close>

definition age_us :: "int \<Rightarrow> pydatetime \<Rightarrow> pydatetime option \<Rightarrow> int res" where
  "age_us clock observed now =
     (case now of None \<Rightarrow> Inr (clock - ensure_utc observed)
      | Some (Aware w off) \<Rightarrow> Inr (ensure_utc (Aware w off) - ensure_utc observed)
      | Some (Naive w) \<Rightarrow> Inl TypeError)"

definition is_fresh :: "int \<Rightarrow> pydatetime option \<Rightarrow> int \<Rightarrow> pydatetime option \<Rightarrow> bool res" where
  "is_fresh clock observed stale now =
     (case observed of None \<Rightarrow> Inr False
      | Some o' \<Rightarrow> map_res (\<lambda>age. age \<le> stale * minute_us) (age_us clock o' now))"

definition staleness_minutes :: "int \<Rightarrow> pydatetime option \<Rightarrow> pydatetime option \<Rightarrow> pyfloat option res" where
  "staleness_minutes clock observed now =
     (case observed of None \<Rightarrow> Inr None
      | Some o' \<Rightarrow> bind_res (age_us clock o' now)
          (\<lambda>age. map_res Some (fdiv (rnd (of_int age / 10 ^ 6)) (lit 60))))"

section \<open>The last close\<close>

definition trading_day :: "int \<Rightarrow> bool" where
  "trading_day day \<longleftrightarrow> weekday day \<noteq> THURSDAY \<and> weekday day \<noteq> FRIDAY"

definition is_last_close :: "int \<Rightarrow> int \<Rightarrow> int \<Rightarrow> bool" where
  "is_last_close close_t local c \<longleftrightarrow>
     (\<exists>day. trading_day day \<and> c = combine day close_t) \<and> c \<le> local \<and>
     (\<forall>day. trading_day day \<and> combine day close_t \<le> local \<longrightarrow> combine day close_t \<le> c)"

lemma is_last_close_unique: "is_last_close t l c \<Longrightarrow> is_last_close t l c' \<Longrightarrow> c = c'"
  unfolding is_last_close_def by (metis order_antisym)

lemma is_last_close_earlier:
  "is_last_close t l c \<Longrightarrow> c \<le> l' \<Longrightarrow> l' \<le> l \<Longrightarrow> is_last_close t l' c"
  unfolding is_last_close_def by (elim conjE exE, intro conjI exI) auto

lemma combine_mono_day: "combine a t \<le> combine b t \<longleftrightarrow> a \<le> b"
  by (simp add: combine_def)

lemma wall_ordinal_days_back [simp]: "wall_ordinal (w - k * day_us) = wall_ordinal w - k"
proof -
  have "(w + (- k) * day_us) div day_us = - k + w div day_us"
    using div_mult_self1 [of day_us w "- k"] by simp
  then show ?thesis by (simp add: wall_ordinal_def)
qed

lemma close_search_find:
  "close_search t l ks =
     map_option (\<lambda>k. combine (wall_ordinal l - k) t)
       (List.find (\<lambda>k. trading_day (wall_ordinal l - k) \<and> combine (wall_ordinal l - k) t \<le> l) ks)"
  by (induction ks) (auto simp: trading_day_def Let_def)

lemma day_before_is_earlier:
  assumes "0 \<le> t" "t < day_us" "1 \<le> k"
  shows "combine (wall_ordinal l - k) t \<le> l"
  using assms wall_cmp_combine [of t "wall_ordinal l - k" l] by simp

text \<open>Thursday and Friday are adjacent, so one of three consecutive days is a trading day.\<close>

lemma trading_day_near: "trading_day (n - 1) \<or> trading_day (n - 2) \<or> trading_day (n - 3)"
  unfolding trading_day_def weekday_def THURSDAY_def FRIDAY_def by presburger

lemma close_search_total:
  assumes "0 \<le> t" "t < day_us"
  obtains c where "close_search t l [0..8] = Some c"
proof (cases "close_search t l [0..8]")
  case None
  then have "\<not> (trading_day (wall_ordinal l - k) \<and> combine (wall_ordinal l - k) t \<le> l)"
    if "k \<in> {0..8}" for k
    using that by (auto simp: close_search_find find_None_iff)
  then have "\<not> trading_day (wall_ordinal l - k)" if "k \<in> {1..8}" for k
    using that day_before_is_earlier [OF assms, of k l] by auto
  from this [of 1] this [of 2] this [of 3] trading_day_near [of "wall_ordinal l"]
  show ?thesis by simp
qed (use that in blast)

lemma close_search_last:
  assumes "0 \<le> t" "t < day_us" "close_search t l [0..8] = Some c"
  shows "is_last_close t l c"
proof -
  let ?P = "\<lambda>k. trading_day (wall_ordinal l - k) \<and> combine (wall_ordinal l - k) t \<le> l"
  from assms(3) obtain k where k: "List.find ?P [0..8] = Some k" "c = combine (wall_ordinal l - k) t"
    by (auto simp: close_search_find)
  then obtain i where i: "i < length [0..8::int]" "?P ([0..8] ! i)" "k = [0..8] ! i"
    "\<forall>j<i. \<not> ?P ([0..8] ! j)" by (auto simp: find_Some_iff)
  then have ki: "k = int i" by (simp add: nth_upto)
  have "combine day t \<le> c" if "trading_day day" "combine day t \<le> l" for day
  proof -
    have "day \<le> wall_ordinal l" using that wall_cmp_combine [OF assms(1,2), of day l] by auto
    then have "?P (int (nat (wall_ordinal l - day)))" using that by simp
    moreover have "\<not> ?P (int j)" if "j < i" for j
      using i(1,4) that by (simp add: nth_upto)
    ultimately have "i \<le> nat (wall_ordinal l - day)" by (meson not_le)
    then show ?thesis using k(2) ki \<open>day \<le> wall_ordinal l\<close> by (simp add: combine_mono_day)
  qed
  moreover have "?P k" using i by simp
  ultimately show ?thesis using k(2) unfolding is_last_close_def by blast
qed

lemma mk_time_range: "mk_time h m = Inr t \<Longrightarrow> 0 \<le> t \<and> t < day_us"
  by (auto simp: mk_time_def split: if_splits)

lemma parse_hhmm_range:
  assumes "0 \<le> d" "d < day_us"
  shows "0 \<le> parse_hhmm raw d" "parse_hhmm raw d < day_us"
proof -
  have "0 \<le> parse_hhmm raw d \<and> parse_hhmm raw d < day_us"
  proof (cases "parse_hhmm raw d = d")
    case False
    then obtain h m where "mk_time h m = Inr (parse_hhmm raw d)"
      unfolding parse_hhmm_def
      by (auto simp: bind_res_eq_Inr split: sum.splits list.splits)
    then show ?thesis by (rule mk_time_range)
  qed (use assms in simp)
  then show "0 \<le> parse_hhmm raw d" "parse_hhmm raw d < day_us" by auto
qed

lemma session_times_range:
  "0 \<le> tse_close s" "tse_close s < day_us" "0 \<le> tehran_close s" "tehran_close s < day_us"
  unfolding tse_close_def tehran_close_def by (simp_all add: parse_hhmm_range)

section \<open>Time zones\<close>

locale civil_zone =
  fixes z :: tz
  assumes wall_mono: "s \<le> t \<Longrightarrow> local_wall z s \<le> local_wall z t"
    and wall_onto: "local_wall z (w - wall_offset z w) = w"
    and wall_back: "wall_offset z (local_wall z t) = utc_offset z t"
begin

lemma instant_of_wall: "local_wall z t - wall_offset z (local_wall z t) = t"
  by (simp add: wall_back) (simp add: local_wall_def)

lemma instant_le_iff: "w - wall_offset z w \<le> t \<longleftrightarrow> w \<le> local_wall z t"
proof
  assume "w - wall_offset z w \<le> t"
  then show "w \<le> local_wall z t" using wall_mono wall_onto by metis
next
  assume w: "w \<le> local_wall z t"
  show "w - wall_offset z w \<le> t"
  proof (rule ccontr)
    assume lt: "\<not> ?thesis"
    then have "local_wall z t \<le> w" using wall_mono wall_onto by (metis nle_le)
    with w have "w = local_wall z t" by simp
    with lt instant_of_wall show False by simp
  qed
qed

lemma wall_less_iff: "local_wall z t < w \<longleftrightarrow> t < w - wall_offset z w"
  using instant_le_iff [of w t] by linarith

lemma wall_pred: "local_wall z (t - 1) = local_wall z t - 1"
proof -
  define u where "u = (local_wall z t - 1) - wall_offset z (local_wall z t - 1)"
  have u: "local_wall z u = local_wall z t - 1" unfolding u_def by (rule wall_onto)
  have "u < t" using u wall_mono [of t u] by (cases "u < t") auto
  then have "local_wall z u \<le> local_wall z (t - 1)" by (intro wall_mono) simp
  moreover have "local_wall z (t - 1) \<noteq> local_wall z t"
    using instant_of_wall [of "t - 1"] instant_of_wall [of t] by auto
  moreover have "local_wall z (t - 1) \<le> local_wall z t" by (intro wall_mono) simp
  ultimately show ?thesis using u by simp
qed

lemma tehran_closure_last:
  assumes "0 \<le> close_t" "close_t < day_us"
  shows "is_last_close close_t (local_wall z t) (local_wall z (tehran_closure z close_t t))"
proof -
  obtain c where c: "close_search close_t (local_wall z t) [0..8] = Some c"
    using close_search_total [OF assms] by blast
  then have "local_wall z (tehran_closure z close_t t) = c" by (simp add: tehran_closure_def wall_onto)
  with close_search_last [OF assms c] show ?thesis by simp
qed

lemma tehran_closure_unique:
  assumes "0 \<le> close_t" "close_t < day_us" "is_last_close close_t (local_wall z t) (local_wall z c)"
  shows "tehran_closure z close_t t = c"
  using is_last_close_unique [OF tehran_closure_last [OF assms(1,2)] assms(3)] instant_of_wall by metis

lemma tehran_closure_le:
  assumes "0 \<le> close_t" "close_t < day_us"
  shows "tehran_closure z close_t t \<le> t"
  using tehran_closure_last [OF assms, of t] instant_le_iff instant_of_wall
  unfolding is_last_close_def by metis

lemma tehran_closed_throughout:
  assumes "0 \<le> close_t" "close_t < day_us" "\<not> tehran_session z open_t close_t t"
    "tehran_closure z close_t t \<le> u" "u \<le> t"
  shows "\<not> tehran_session z open_t close_t u \<and> tehran_closure z close_t u = tehran_closure z close_t t"
proof -
  define c where "c = local_wall z (tehran_closure z close_t t)"
  have last: "is_last_close close_t (local_wall z t) c"
    unfolding c_def by (rule tehran_closure_last [OF assms(1,2)])
  have cu: "c \<le> local_wall z u" and ut: "local_wall z u \<le> local_wall z t"
    unfolding c_def using assms(4,5) wall_mono by simp_all
  have "is_last_close close_t (local_wall z u) c"
    using last cu ut by (rule is_last_close_earlier)
  then have same: "tehran_closure z close_t u = tehran_closure z close_t t"
    unfolding c_def by (rule tehran_closure_unique [OF assms(1,2)])
  have "\<not> tehran_session z open_t close_t u"
  proof
    let ?w = "local_wall z u" and ?l = "local_wall z t"
    assume "tehran_session z open_t close_t u"
    then have td: "trading_day (wall_ordinal ?w)" and win: "open_t \<le> wall_time ?w" "wall_time ?w < close_t"
      by (auto simp: tehran_session_def trading_day_def wall_weekday_def Let_def split: if_splits)
    have later: "\<not> combine (wall_ordinal ?w) close_t \<le> ?l"
    proof
      assume "combine (wall_ordinal ?w) close_t \<le> ?l"
      then have "combine (wall_ordinal ?w) close_t \<le> c" using last td by (auto simp: is_last_close_def)
      then show False using cu win wall_cmp_combine [OF assms(1,2), of "wall_ordinal ?w" ?w] by simp
    qed
    then have lt: "?l < combine (wall_ordinal ?w) close_t" by simp
    have le: "combine (wall_ordinal ?w) (wall_time ?w) \<le> ?l" using ut by simp
    have "wall_ordinal ?l = wall_ordinal ?w \<and> wall_time ?w \<le> wall_time ?l \<and> wall_time ?l < close_t"
      using lt le wall_cmp_combine [OF assms(1,2), of "wall_ordinal ?w" ?l]
        wall_cmp_combine [OF wall_time_range, of "wall_ordinal ?w" ?w ?l] by auto
    then have "tehran_session z open_t close_t t"
      using td win by (simp add: tehran_session_def trading_day_def wall_weekday_def Let_def)
    with assms(3) show False by simp
  qed
  with same show ?thesis by simp
qed

lemma tehran_open_before_closure:
  assumes "0 \<le> open_t" "open_t < close_t" "close_t < day_us"
  shows "tehran_session z open_t close_t (tehran_closure z close_t t - 1)"
proof -
  let ?c = "tehran_closure z close_t t"
  have "is_last_close close_t (local_wall z t) (local_wall z ?c)"
    using assms by (intro tehran_closure_last) auto
  then obtain day where d: "trading_day day" "local_wall z ?c = combine day close_t"
    by (auto simp: is_last_close_def)
  then have "local_wall z (?c - 1) = combine day (close_t - 1)" by (simp add: wall_pred combine_def)
  then show ?thesis
    using d(1) assms by (simp add: tehran_session_def trading_day_def wall_weekday_def Let_def)
qed

end

text \<open>A zone at a fixed offset, and Asia/Tehran as it has been since 2022.\<close>

definition fixed_zone :: "int \<Rightarrow> tz" where
  "fixed_zone off = \<lparr>utc_offset = \<lambda>_. off, wall_offset = \<lambda>_. off\<rparr>"

definition tehran_zone :: tz where
  "tehran_zone = fixed_zone (3 * hour_us + 30 * minute_us)"

interpretation fixed: civil_zone "fixed_zone off"
  by unfold_locales (simp_all add: fixed_zone_def local_wall_def)

lemma civil_zone_tehran: "civil_zone tehran_zone"
  unfolding tehran_zone_def by (rule fixed.civil_zone_axioms)

section \<open>The global week\<close>

lemma global_closed_week:
  assumes "\<not> global_session t"
  obtains f where "weekday f = FRIDAY" "global_closure t = combine f GLOBAL_CLOSE_UTC"
    "combine f GLOBAL_CLOSE_UTC \<le> t" "t < combine (f + 2) GLOBAL_OPEN_UTC"
proof -
  let ?n = "wall_ordinal t" and ?wd = "wall_weekday t"
  consider "?wd = 4" "GLOBAL_CLOSE_UTC \<le> wall_time t" | "?wd = 5" | "?wd = 6" "wall_time t < GLOBAL_OPEN_UTC"
    using assms by (auto simp: global_session_def FRIDAY_def Let_def split: if_splits)
  then obtain k where k: "k \<in> {0, 1, 2}" "?wd = 4 + k"
    "k = 0 \<longrightarrow> GLOBAL_CLOSE_UTC \<le> wall_time t" "k = 2 \<longrightarrow> wall_time t < GLOBAL_OPEN_UTC" by cases auto
  let ?f = "?n - k"
  have r: "0 \<le> GLOBAL_CLOSE_UTC" "GLOBAL_CLOSE_UTC < day_us" "0 \<le> GLOBAL_OPEN_UTC" "GLOBAL_OPEN_UTC < day_us"
    by (simp_all add: GLOBAL_CLOSE_UTC_def GLOBAL_OPEN_UTC_def)
  have wd: "weekday ?f = FRIDAY"
  proof -
    have "(?n + 6) mod 7 = 4 + k" using k(2) by (simp add: wall_weekday_def weekday_def)
    then have "(?n + 6 - k) mod 7 = (4 + k - k) mod 7" by (metis mod_diff_left_eq)
    then show ?thesis by (simp add: weekday_def FRIDAY_def algebra_simps)
  qed
  have le: "combine ?f GLOBAL_CLOSE_UTC \<le> t"
    using wall_cmp_combine [OF r(1,2), of ?f t] k by auto
  have lt: "t < combine (?f + 2) GLOBAL_OPEN_UTC"
    using wall_cmp_combine [OF r(3,4), of "?f + 2" t] k by auto
  have "(?wd - FRIDAY) mod 7 = k" using k by (auto simp: FRIDAY_def)
  then have "global_closure t = combine ?f GLOBAL_CLOSE_UTC"
    using le by (simp only: global_closure_def Let_def wall_ordinal_days_back) simp
  with that wd le lt show thesis by blast
qed

lemma global_session_week:
  assumes "weekday f = FRIDAY" "combine f GLOBAL_CLOSE_UTC \<le> t" "t < combine (f + 2) GLOBAL_OPEN_UTC"
  shows "\<not> global_session t \<and> global_closure t = combine f GLOBAL_CLOSE_UTC"
proof -
  let ?n = "wall_ordinal t" and ?wd = "wall_weekday t"
  have r: "0 \<le> GLOBAL_CLOSE_UTC" "GLOBAL_CLOSE_UTC < day_us" "0 \<le> GLOBAL_OPEN_UTC" "GLOBAL_OPEN_UTC < day_us"
    by (simp_all add: GLOBAL_CLOSE_UTC_def GLOBAL_OPEN_UTC_def)
  have n: "f < ?n \<or> f = ?n \<and> GLOBAL_CLOSE_UTC \<le> wall_time t"
    "\<not> (f + 2 < ?n \<or> f + 2 = ?n \<and> GLOBAL_OPEN_UTC \<le> wall_time t)"
    using assms(2,3) wall_cmp_combine [OF r(1,2), of f t] wall_cmp_combine [OF r(3,4), of "f + 2" t]
    by simp_all
  define k where "k = ?n - f"
  have "0 \<le> k \<and> k \<le> 2" using n by (simp add: k_def) linarith
  then have k: "k \<in> {0, 1, 2}" by auto
  have kn: "?n = f + k" "k = 0 \<longrightarrow> GLOBAL_CLOSE_UTC \<le> wall_time t"
    "k = 2 \<longrightarrow> wall_time t < GLOBAL_OPEN_UTC" using n by (simp_all add: k_def) linarith+
  have wd: "?wd = 4 + k"
  proof -
    have "(f + 6) mod 7 = 4" using assms(1) by (simp add: weekday_def FRIDAY_def)
    then have "(f + 6 + k) mod 7 = (4 + k) mod 7" by (metis mod_add_left_eq)
    moreover have "(4 + k) mod 7 = 4 + k" using k by auto
    ultimately show ?thesis using kn(1) by (simp add: wall_weekday_def weekday_def algebra_simps)
  qed
  then have closed: "\<not> global_session t"
    using k kn by (auto simp: global_session_def FRIDAY_def Let_def)
  have "(?wd - FRIDAY) mod 7 = k" using wd k by (auto simp: FRIDAY_def)
  then have "global_closure t = combine f GLOBAL_CLOSE_UTC"
    using assms(2) kn(1) by (simp only: global_closure_def Let_def wall_ordinal_days_back) simp
  with closed show ?thesis by simp
qed

section \<open>Closures of a symbol\<close>

lemma closure_None_iff: "closure_started_at z symb dt s = None \<longleftrightarrow> is_market_open z symb dt s"
  by (auto simp: closure_started_at_def is_market_open_def Let_def)

lemma closure_cases:
  assumes "closure_started_at z symb dt s = Some c"
  obtains
    (tehran) o_t c_t where "0 \<le> c_t" "c_t < day_us"
      "c = tehran_closure z c_t (ensure_utc dt)" "\<not> tehran_session z o_t c_t (ensure_utc dt)"
      "\<And>u. is_market_open z symb (Naive u) s = tehran_session z o_t c_t u"
      "\<And>u. \<not> tehran_session z o_t c_t u \<Longrightarrow>
         closure_started_at z symb (Naive u) s = Some (tehran_closure z c_t u)"
  | (global) "c = global_closure (ensure_utc dt)" "\<not> global_session (ensure_utc dt)"
      "\<And>u. is_market_open z symb (Naive u) s = global_session u"
      "\<And>u. \<not> global_session u \<Longrightarrow> closure_started_at z symb (Naive u) s = Some (global_closure u)"
proof -
  have closed: "\<not> is_market_open z symb dt s" using assms by (metis closure_None_iff option.distinct(1))
  then have "symb \<notin> set ALWAYS_OPEN_SYMBOLS" by (auto simp: is_market_open_def)
  then consider "is_tse_fund symb" | "\<not> is_tse_fund symb" "symb \<in> set IRANIAN_SYMBOLS"
    | "\<not> is_tse_fund symb" "symb \<notin> set IRANIAN_SYMBOLS" "symb \<in> set GLOBAL_SYMBOLS"
    using closed by (auto simp: is_market_open_def Let_def split: if_splits)
  then show thesis
  proof cases
    case 1
    with closed assms \<open>symb \<notin> set ALWAYS_OPEN_SYMBOLS\<close> show ?thesis
      by (intro tehran [of "tse_close s" "tse_open s"])
        (simp_all add: session_times_range is_market_open_def closure_started_at_def Let_def)
  next
    case 2
    with closed assms \<open>symb \<notin> set ALWAYS_OPEN_SYMBOLS\<close> show ?thesis
      by (intro tehran [of "tehran_close s" "tehran_open s"])
        (simp_all add: session_times_range is_market_open_def closure_started_at_def Let_def)
  next
    case 3
    with closed assms \<open>symb \<notin> set ALWAYS_OPEN_SYMBOLS\<close> show ?thesis
      by (intro global) (simp_all add: is_market_open_def closure_started_at_def Let_def)
  qed
qed

lemma closure_interval:
  assumes "civil_zone z" "closure_started_at z symb dt s = Some c"
  shows "c \<le> ensure_utc dt"
    and "c \<le> u \<Longrightarrow> u \<le> ensure_utc dt \<Longrightarrow>
      \<not> is_market_open z symb (Naive u) s \<and> closure_started_at z symb (Naive u) s = Some c"
proof -
  from assms(2) have "c \<le> ensure_utc dt \<and> (c \<le> u \<and> u \<le> ensure_utc dt \<longrightarrow>
      \<not> is_market_open z symb (Naive u) s \<and> closure_started_at z symb (Naive u) s = Some c)"
  proof (cases rule: closure_cases)
    case (tehran o_t c_t)
    note le = civil_zone.tehran_closure_le [OF assms(1) tehran(1,2)]
    note thr = civil_zone.tehran_closed_throughout [OF assms(1) tehran(1,2,4)]
    show ?thesis using le thr tehran(3,5,6) by metis
  next
    case global
    obtain f where f: "weekday f = FRIDAY" "global_closure (ensure_utc dt) = combine f GLOBAL_CLOSE_UTC"
      "combine f GLOBAL_CLOSE_UTC \<le> ensure_utc dt" "ensure_utc dt < combine (f + 2) GLOBAL_OPEN_UTC"
      using global_closed_week [OF global(2)] by blast
    have "\<not> global_session u \<and> global_closure u = c" if "c \<le> u" "u \<le> ensure_utc dt"
      using global_session_week [OF f(1), of u] f that global(1) by simp
    then show ?thesis using f(2,3) global(1,3,4) by metis
  qed
  then show "c \<le> ensure_utc dt"
    "c \<le> u \<Longrightarrow> u \<le> ensure_utc dt \<Longrightarrow>
      \<not> is_market_open z symb (Naive u) s \<and> closure_started_at z symb (Naive u) s = Some c"
    by auto
qed

definition default_settings :: settings where
  "default_settings = \<lparr>market_tehran_open = ''12:00'', market_tehran_close = ''20:00'',
     market_tse_open = ''12:00'', market_tse_close = ''18:00'', stale_minutes = 30\<rparr>"

section \<open>Properties\<close>

text \<open>C37: For a symbol of the Tehran calendar the nine-day search of \<^verbatim>\<open>closure_started_at\<close>
  always succeeds, whatever the two configured times are and whatever the zone: the closure
  start is the last close on a Saturday-to-Wednesday day at or before the local time. The
  fallback after the loop is never taken.\<close>

theorem closure_search_total:
  assumes "is_tse_fund symb \<or> symb \<in> set IRANIAN_SYMBOLS" "\<not> is_market_open z symb dt s"
  shows "\<exists>w. closure_started_at z symb dt s = Some (w - wall_offset z w) \<and>
    is_last_close (if is_tse_fund symb then tse_close s else tehran_close s)
      (local_wall z (ensure_utc dt)) w"
proof -
  let ?t = "if is_tse_fund symb then tse_close s else tehran_close s"
  have r: "0 \<le> ?t" "?t < day_us" by (simp_all add: session_times_range)
  obtain w where w: "close_search ?t (local_wall z (ensure_utc dt)) [0..8] = Some w"
    using close_search_total [OF r] by blast
  then have "closure_started_at z symb dt s = Some (w - wall_offset z w)"
    using assms by (auto simp: closure_started_at_def tehran_closure_def Let_def)
  with close_search_last [OF r w] show ?thesis by blast
qed

theorem closure_search_total_witness:
  "\<exists>w. closure_started_at tehran_zone ''IR_COIN_EMAMI'' (Naive 0) default_settings =
      Some (w - wall_offset tehran_zone w) \<and>
    is_last_close (tehran_close default_settings) (local_wall tehran_zone 0) w"
proof -
  have "''IR_COIN_EMAMI'' \<in> set IRANIAN_SYMBOLS" by code_simp
  moreover have "\<not> is_tse_fund ''IR_COIN_EMAMI''" by code_simp
  moreover have "\<not> is_market_open tehran_zone ''IR_COIN_EMAMI'' (Naive 0) default_settings"
    by code_simp
  ultimately show ?thesis
    using closure_search_total [of "''IR_COIN_EMAMI''" tehran_zone "Naive 0" default_settings] by simp
qed

text \<open>The closure start is real. In a zone without clock changes it is not after the
  instant asked about; from it up to that instant the market is closed at every moment, and
  every such moment is given the same closure start.\<close>

theorem closure_start_sound:
  assumes "civil_zone z" "closure_started_at z symb dt s = Some c"
  shows "c \<le> ensure_utc dt \<and>
    (\<forall>u. c \<le> u \<and> u \<le> ensure_utc dt \<longrightarrow>
       \<not> is_market_open z symb (Naive u) s \<and> closure_started_at z symb (Naive u) s = Some c)"
  using closure_interval [OF assms] by blast

theorem closure_start_sound_witness:
  "closure_started_at tehran_zone ''XAUUSD'' (Naive (3 * day_us)) default_settings = Some 162000000000 \<and>
    \<not> is_market_open tehran_zone ''XAUUSD'' (Naive 200000000000) default_settings"
proof -
  have c: "closure_started_at tehran_zone ''XAUUSD'' (Naive (3 * day_us)) default_settings =
      Some 162000000000" by code_simp
  have "\<not> is_market_open tehran_zone ''XAUUSD'' (Naive 200000000000) default_settings"
    using closure_start_sound [OF civil_zone_tehran c] by simp
  with c show ?thesis by simp
qed

text \<open>The closure starts at the end of a session: with an opening time before the closing
  time, the market of a Tehran symbol was open one microsecond before the closure start.\<close>

theorem closure_follows_session:
  assumes "civil_zone z" "closure_started_at z symb dt s = Some c"
    "is_tse_fund symb \<or> symb \<in> set IRANIAN_SYMBOLS"
    "0 \<le> tse_open s" "tse_open s < tse_close s" "0 \<le> tehran_open s" "tehran_open s < tehran_close s"
  shows "is_market_open z symb (Naive (c - 1)) s"
proof -
  have closed: "\<not> is_market_open z symb dt s" using assms(2) by (metis closure_None_iff option.distinct(1))
  note ses = civil_zone.tehran_open_before_closure [OF assms(1)]
  show ?thesis
  proof (cases "is_tse_fund symb")
    case True
    then show ?thesis
      using assms(2,4,5) closed ses [OF assms(4,5) session_times_range(2)]
      by (auto simp: closure_started_at_def is_market_open_def Let_def)
  next
    case False
    then show ?thesis
      using assms(2,3,6,7) closed ses [OF assms(6,7) session_times_range(4)]
      by (auto simp: closure_started_at_def is_market_open_def Let_def)
  qed
qed

theorem closure_follows_session_witness:
  "is_market_open tehran_zone ''IR_GOLD_FUND_AYAR'' (Naive (-34200000001)) default_settings"
proof -
  have "closure_started_at tehran_zone ''IR_GOLD_FUND_AYAR'' (Naive 0) default_settings =
      Some (-34200000000)" by code_simp
  from closure_follows_session [OF civil_zone_tehran this] show ?thesis by code_simp
qed

text \<open>Freshness does not decay while a market is closed: for a symbol that is not a settled
  daily close, the verdict at any moment of the closure is the one at its end, namely that
  the observation is no older than the closure start less the tolerance.\<close>

theorem freshness_constant_in_closure:
  assumes "civil_zone z" "closure_started_at z symb dt s = Some c"
    "daily_close_max_age symb source = None" "c \<le> u" "u \<le> ensure_utc dt"
  shows "is_acceptably_fresh z symb (Some obs) (Naive u) s source =
      is_acceptably_fresh z symb (Some obs) dt s source \<and>
    is_acceptably_fresh z symb (Some obs) dt s source =
      (c - stale_minutes s * minute_us \<le> ensure_utc obs)"
  using closure_interval(2) [OF assms(1,2,4,5)] assms(2,3)
  by (simp add: is_acceptably_fresh_def)

theorem freshness_constant_in_closure_witness:
  "is_acceptably_fresh tehran_zone ''XAUUSD'' (Some (Naive 161000000000)) (Naive (3 * day_us))
      default_settings None \<and>
    is_acceptably_fresh tehran_zone ''XAUUSD'' (Some (Naive 161000000000)) (Naive 200000000000)
      default_settings None"
proof -
  have c: "closure_started_at tehran_zone ''XAUUSD'' (Naive (3 * day_us)) default_settings =
      Some 162000000000" by code_simp
  have d: "daily_close_max_age ''XAUUSD'' None = None" by code_simp
  have f: "is_acceptably_fresh tehran_zone ''XAUUSD'' (Some (Naive 161000000000)) (Naive (3 * day_us))
      default_settings None" by code_simp
  show ?thesis
    using freshness_constant_in_closure [OF civil_zone_tehran c d, of 200000000000 "Naive 161000000000"] f
    by simp
qed

end
