(* ===== verification/Validation.thy ===== *)
theory Validation
  imports Formula PyString Calendar "HOL-Library.List_Lexorder" "HOL-Library.Char_ord"
    "HOL-Library.Multiset" "HOL-Library.Sublist"
begin

text \<open>
  \<^verbatim>\<open>app/core/validation.py\<close> and \<^verbatim>\<open>app/core/normalize.py\<close>: plausibility ranges, the jump and MAD
  tests, agreement of two sources, the dispersion of several, the run of suspects that may
  stand in for a second source, and the reading of ^TNX quotes.

  Not represented: the text of the reasons (a constructor with the numbers it prints) and
  the SHA-256 of the dedupe key (a parameter of \<open>build_dedupe_key\<close>). A list with a NaN in
  it is sorted with the NaN last; Python leaves that order open.
\<close>

section \<open>Constants\<close>

definition MAX_JUMP_PCT :: pyfloat where "MAX_JUMP_PCT = lit 15"
definition CONFIRM_TOLERANCE_PCT :: pyfloat where "CONFIRM_TOLERANCE_PCT = lit 3"
definition MAD_THRESHOLD :: pyfloat where "MAD_THRESHOLD = lit 8"
definition MAX_ABS_PREMIUM_PCT :: pyfloat where "MAX_ABS_PREMIUM_PCT = lit 25"
definition SUSTAIN_MIN_OBSERVATIONS :: int where "SUSTAIN_MIN_OBSERVATIONS = 5"
definition SUSTAIN_MIN_SPAN_MINUTES :: pyfloat where "SUSTAIN_MIN_SPAN_MINUTES = lit 90"
definition SUSPECT_ALERT_AFTER :: int where "SUSPECT_ALERT_AFTER = 3"

definition SANITY_RANGES :: "(string \<times> (pyfloat \<times> pyfloat)) list" where
  "SANITY_RANGES =
    [(''IR_GOLD_18K'', (lit (10 ^ 5), lit (10 ^ 9))),
     (''IR_COIN_EMAMI'', (lit (10 ^ 6), lit (10 ^ 12))),
     (''USD_IRT'', (lit (10 ^ 3), lit (10 ^ 7))),
     (''XAUUSD'', (lit 500, lit 20000)),
     (''XAGUSD'', (lit 5, lit 500)),
     (''BRENT_OIL'', (lit 10, lit 500)),
     (''DXY'', (lit 50, lit 200)),
     (''US10Y'', (lit 0, lit 25)),
     (''IR_GOLD_FUND_AYAR'', (lit (10 ^ 2), lit (10 ^ 8))),
     (''IR_GOLD_FUND_TALA'', (lit (10 ^ 2), lit (10 ^ 8))),
     (''IR_GOLD_FUND_KAHRABA'', (lit (10 ^ 2), lit (10 ^ 8))),
     (''IR_GOLD_FUND_FLOW'', (lit (-100), lit 100))]"

definition OSCILLATING_SYMBOLS :: "string list" where
  "OSCILLATING_SYMBOLS = [''IR_GOLD_FUND_FLOW'']"

section \<open>Single-value tests\<close>

text \<open>The key text is \<^verbatim>\<open>provider|symbol|iso|value\<close>; the hash, the ISO form of an instant and the
  ten-digit form of a float are parameters.\<close>

definition build_dedupe_key ::
  "(string \<Rightarrow> string) \<Rightarrow> (int \<Rightarrow> string) \<Rightarrow> (pyfloat \<Rightarrow> string) \<Rightarrow>
   string \<Rightarrow> string \<Rightarrow> pydatetime \<Rightarrow> pyfloat \<Rightarrow> string" where
  "build_dedupe_key sha256 isoformat format10g provider symbol observed_at value =
     sha256 (provider @ ''|'' @ symbol @ ''|'' @ isoformat (ensure_utc observed_at) @ ''|'' @ format10g value)"

definition sanity_ok :: "string \<Rightarrow> pyfloat \<Rightarrow> bool" where
  "sanity_ok symbol value =
     (case (case map_of SANITY_RANGES symbol of None \<Rightarrow> (lit 0, PInf) | Some r \<Rightarrow> r) of
        (lo, hi) \<Rightarrow> fle lo value \<and> fle value hi)"

text \<open>\<^verbatim>\<open>statistics.median\<close>.\<close>

definition median :: "pyfloat list \<Rightarrow> pyfloat res" where
  "median data =
     (let xs = sort data; n = length xs in
      if n = 0 then Inl StatisticsError
      else if n mod 2 = 1 then Inr (xs ! (n div 2))
      else Inr (fquot (fadd (xs ! (n div 2 - 1)) (xs ! (n div 2))) (lit 2)))"

text \<open>The literals of the scale: \<^verbatim>\<open>1.4826\<close>, \<^verbatim>\<open>1e-4\<close> and \<^verbatim>\<open>1e-12\<close>.\<close>

definition mad_to_sigma :: pyfloat where "mad_to_sigma = lit (14826 / 10 ^ 4)"
definition mad_floor_rel :: pyfloat where "mad_floor_rel = lit (1 / 10 ^ 4)"
definition mad_floor_abs :: pyfloat where "mad_floor_abs = lit (1 / 10 ^ 12)"

definition is_mad_outlier :: "pyfloat \<Rightarrow> pyfloat list \<Rightarrow> pyfloat \<Rightarrow> bool res" where
  "is_mad_outlier value vals threshold =
     (if length vals < 5 then Inr False
      else bind_res (median vals) (\<lambda>med.
        bind_res (median (map (\<lambda>v. fabs (fsub v med)) vals)) (\<lambda>mad.
          let scale = (if flt (Fin 0) mad then fmul mad_to_sigma mad
                       else fmax (fmul (fabs med) mad_floor_rel) mad_floor_abs)
          in map_res (\<lambda>q. flt threshold q) (fdiv (fabs (fsub value med)) scale))))"

definition jump_pct :: "pyfloat \<Rightarrow> pyfloat \<Rightarrow> pyfloat res" where
  "jump_pct value last_good =
     (if feq last_good (Fin 0) then Inr (Fin 0)
      else map_res (\<lambda>q. fmul q (lit 100)) (fdiv (fabs (fsub value last_good)) (fabs last_good)))"

definition values_agree :: "pyfloat \<Rightarrow> pyfloat \<Rightarrow> pyfloat \<Rightarrow> bool res" where
  "values_agree a b tolerance_pct =
     (if feq a (Fin 0) \<and> feq b (Fin 0) then Inr True
      else map_res (\<lambda>q. fle (fmul q (lit 100)) tolerance_pct)
             (fdiv (fabs (fsub a b)) (fmax (fabs a) (fabs b))))"

section \<open>Dispersion\<close>

record dispersion =
  n_sources :: int
  n_agreeing :: int
  disp_values :: "(string \<times> pyfloat) list"
  disp_median :: pyfloat
  spread_abs :: pyfloat
  spread_pct :: "pyfloat option"
  pct :: "pyfloat option"
  disp_mad :: pyfloat
  mad_pct :: "pyfloat option"
  tolerance :: pyfloat

text \<open>\<open>values_by_source\<close> is the mapping as its items, with distinct sources.\<close>

definition dispersion_summary :: "(string \<times> pyfloat) list \<Rightarrow> pyfloat \<Rightarrow> dispersion option res" where
  "dispersion_summary values_by_source tolerance_pct =
     (let usable = filter (\<lambda>(_, value). is_finite value) values_by_source in
      if length usable < 2 then Inr None
      else let values = sort (map snd usable) in
        bind_res (median values) (\<lambda>med.
        let spread = fsub (last values) (hd values) in
        bind_res (median (map (\<lambda>v. fabs (fsub v med)) values)) (\<lambda>mad.
        let ref = fabs med;
            percent = (\<lambda>x. if flt (Fin 0) ref
                           then map_res (\<lambda>q. Some (fround (fmul q (lit 100)) 4)) (fdiv x ref)
                           else Inr None) in
        bind_res (mapM (\<lambda>v. values_agree v med tolerance_pct) values) (\<lambda>agree.
        bind_res (percent spread) (\<lambda>spread_p.
        bind_res (percent mad) (\<lambda>mad_p.
          Inr (Some \<lparr>n_sources = int (length values),
                     n_agreeing = int (length (filter id agree)),
                     disp_values = map (\<lambda>(src, val). (src, fround val 6)) (sort_key fst usable),
                     disp_median = fround med 6,
                     spread_abs = fround spread 6,
                     spread_pct = spread_p,
                     pct = spread_p,
                     disp_mad = fround mad 6,
                     mad_pct = mad_p,
                     tolerance = tolerance_pct\<rparr>)))))))"

section \<open>Corroboration by repetition\<close>

record streak =
  streak_length :: int
  span_minutes :: pyfloat
  streak_since :: int

type_synonym history_row = "pydatetime \<times> pyfloat \<times> string"

fun streak_walk :: "pyfloat \<Rightarrow> pyfloat \<Rightarrow> int \<Rightarrow> int \<Rightarrow> history_row list \<Rightarrow> (int \<times> int) res" where
  "streak_walk value tol n since [] = Inr (n, since)"
| "streak_walk value tol n since ((observed_at, past_value, quality) # rest) =
     (if quality \<noteq> ''suspect'' then Inr (n, since)
      else bind_res (values_agree value past_value tol) (\<lambda>agree.
        if \<not> agree then Inr (n, since)
        else let o' = ensure_utc observed_at in
          if since \<le> o' then streak_walk value tol n since rest
          else streak_walk value tol (n + 1) o' rest))"

text \<open>Minutes of a time difference: \<^verbatim>\<open>total_seconds() / 60.0\<close>.\<close>

definition minutes_of :: "int \<Rightarrow> pyfloat" where
  "minutes_of us = fquot (rnd (of_int us / 10 ^ 6)) (lit 60)"

definition suspect_streak :: "pyfloat \<Rightarrow> pydatetime \<Rightarrow> history_row list \<Rightarrow> pyfloat \<Rightarrow> streak res" where
  "suspect_streak value dt history tolerance_pct =
     (let at_utc = ensure_utc dt in
      map_res (\<lambda>(n, s). \<lparr>streak_length = n, span_minutes = fmax (minutes_of (at_utc - s)) (Fin 0), streak_since = s\<rparr>)
        (streak_walk value tolerance_pct 1 at_utc history))"

definition sustained_by_repetition   :: "streak \<Rightarrow> int \<Rightarrow> pyfloat \<Rightarrow> bool" where
  "sustained_by_repetition stk min_observations min_span_minutes \<longleftrightarrow>
     min_observations \<le> streak_length stk \<and> fle min_span_minutes (span_minutes stk)"

section \<open>Premium and classification\<close>

text \<open>The reason text prints the premium; the model returns it.\<close>

definition premium_suspect :: "pyfloat \<Rightarrow> pyfloat \<Rightarrow> pyfloat \<Rightarrow> pyfloat option res" where
  "premium_suspect observed_18k_irt xau_usd usd_irt =
     (let theo = k18_theoretical_irt xau_usd usd_irt in
      if fle theo (Fin 0) then Inr None
      else map_res (\<lambda>prem. if flt MAX_ABS_PREMIUM_PCT (fabs prem) then Some prem else None)
             (premium_pct observed_18k_irt theo))"

datatype reason = OutsideRange | Jump pyfloat pyfloat | MadTest

type_synonym quality = string

definition classify_observation ::
  "string \<Rightarrow> pyfloat \<Rightarrow> pyfloat list \<Rightarrow> pyfloat option \<Rightarrow> (quality \<times> reason option) res" where
  "classify_observation symbol value recent_window last_good =
     (if \<not> sanity_ok symbol value then Inr (''outlier'', Some OutsideRange)
      else if symbol \<in> set OSCILLATING_SYMBOLS then Inr (''ok'', None)
      else bind_res (case last_good of None \<Rightarrow> Inr None
                     | Some l \<Rightarrow> map_res (\<lambda>j. if flt MAX_JUMP_PCT j then Some (Jump j l) else None)
                                   (jump_pct value l)) (\<lambda>jump.
        case jump of Some r \<Rightarrow> Inr (''suspect'', Some r)
        | None \<Rightarrow> map_res (\<lambda>mad. if mad then (''suspect'', Some MadTest) else (''ok'', None))
                   (is_mad_outlier value recent_window MAD_THRESHOLD)))"

section \<open>normalize.py\<close>

definition SYMBOL_META :: "(string \<times> (string \<times> string)) list" where
  "SYMBOL_META =
    [(''IR_GOLD_18K'', (''IRT'', ''gram'')), (''IR_COIN_EMAMI'', (''IRT'', ''coin'')),
     (''USD_IRT'', (''IRT'', ''usd'')), (''XAUUSD'', (''USD'', ''ozt'')),
     (''XAGUSD'', (''USD'', ''ozt'')), (''BRENT_OIL'', (''USD'', ''bbl'')),
     (''DXY'', (''INDEX'', ''index'')), (''US10Y'', (''PCT'', ''pct'')),
     (''IR_SILVER_999'', (''IRT'', ''gram'')), (''IR_COIN_BAHAR'', (''IRT'', ''coin'')),
     (''IR_COIN_HALF'', (''IRT'', ''coin'')), (''IR_COIN_QUARTER'', (''IRT'', ''coin'')),
     (''IR_COIN_GERAMI'', (''IRT'', ''coin'')), (''IR_GOLD_24K'', (''IRT'', ''gram'')),
     (''IR_GOLD_MESGHAL'', (''IRT'', ''mesghal''))]"

definition rial_to_toman :: "pyfloat \<Rightarrow> pyfloat" where
  "rial_to_toman value_irr = fquot value_irr (lit 10)"

definition toman_to_rial :: "pyfloat \<Rightarrow> pyfloat" where
  "toman_to_rial value_irt = fmul value_irt (lit 10)"

definition TNX_MAX_YIELD_PCT :: pyfloat where
  "TNX_MAX_YIELD_PCT = snd (the (map_of SANITY_RANGES ''US10Y''))"

definition tnx_to_pct :: "pyfloat \<Rightarrow> pyfloat" where
  "tnx_to_pct quote = (if flt TNX_MAX_YIELD_PCT quote then fquot quote (lit 10) else quote)"

text \<open>\<^verbatim>\<open>max(xs)\<close> of a nonempty list of floats: the running maximum is replaced by a greater one.\<close>

fun list_fmax :: "pyfloat \<Rightarrow> pyfloat list \<Rightarrow> pyfloat" where
  "list_fmax m [] = m"
| "list_fmax m (x # xs) = list_fmax (fmax m x) xs"

definition tnx_series_to_pct :: "pyfloat list \<Rightarrow> pyfloat list" where
  "tnx_series_to_pct quotes =
     (case quotes of [] \<Rightarrow> []
      | q # qs \<Rightarrow>
          let divisor = (if flt TNX_MAX_YIELD_PCT (list_fmax q qs) then lit 10 else lit 1)
          in map (\<lambda>x. fquot x divisor) quotes)"

definition tnx_quote_meta :: "pyfloat \<Rightarrow> string \<times> string" where
  "tnx_quote_meta quote =
     (if flt TNX_MAX_YIELD_PCT quote then (''TNX_index'', ''INDEX'') else (''pct'', ''PCT''))"

section \<open>The tests never raise\<close>

lemma median_ok:
  assumes "data \<noteq> []"
  obtains m where "median data = Inr m"
proof -
  have "sort data \<noteq> []" using assms by (metis length_0_conv length_sort)
  then have "\<exists>m. median data = Inr m" by (simp add: median_def Let_def)
  then show thesis using that by blast
qed

lemma nth_sort_mem: "k < length xs \<Longrightarrow> sort xs ! k \<in> set xs"
  by (metis length_sort nth_mem set_sort)

lemma median_double:
  assumes "median data = Inr m" "\<And>x. x \<in> set data \<Longrightarrow> is_double x"
  shows "is_double m"
proof (cases "data = []")
  case False
  then have "length data div 2 < length data" by (cases data) auto
  then have "is_double (sort data ! (length data div 2))" using assms(2) nth_sort_mem by blast
  then show ?thesis using assms(1) by (auto simp: median_def Let_def split: if_splits)
qed (use assms(1) in \<open>simp add: median_def\<close>)

text \<open>The MAD scale is never zero: a positive double times 1.4826 does not vanish, and the
  fallback is at least 1e-12 or a NaN.\<close>

lemma mad_to_sigma_value: "mad_to_sigma = Fin (6677036807539497 / 4503599627370496)"
  by code_simp

lemma mad_floor_abs_value: "mad_floor_abs = Fin (4951760157141521 / 4951760157141521099596496896)"
  by code_simp

lemma mad_scale_nonzero:
  assumes "is_double mad"
  shows "(if flt (Fin 0) mad then fmul mad_to_sigma mad
     else fmax (fmul (fabs med) mad_floor_rel) mad_floor_abs) \<noteq> Fin 0"
proof (cases "flt (Fin 0) mad")
  case True
  show ?thesis
  proof (cases mad)
    case (Fin r)
    with True assms have r: "0 < r" "rnd r = Fin r" by auto
    have "r \<le> 6677036807539497 / 4503599627370496 * r" using r(1) by simp
    from rnd_scale_up [OF r(2) this] r(1) show ?thesis
      using True Fin by (auto simp: mad_to_sigma_value fle_def feq_def)
  qed (use True in \<open>auto simp: mad_to_sigma_value signed_inf_def\<close>)
next
  case False
  then show ?thesis by (auto simp: fmax_def mad_floor_abs_value)
qed

lemma is_mad_outlier_total: obtains b where "is_mad_outlier value vals threshold = Inr b"
proof (cases "length vals < 5")
  case False
  then have ne: "vals \<noteq> []" by auto
  obtain med where med: "median vals = Inr med" using median_ok [OF ne] by blast
  let ?devs = "map (\<lambda>v. fabs (fsub v med)) vals"
  obtain mad where mad: "median ?devs = Inr mad" using median_ok [of ?devs] ne by auto
  have "is_double mad" by (rule median_double [OF mad]) auto
  from mad_scale_nonzero [OF this, of med] that show ?thesis
    using False med mad by (auto simp: is_mad_outlier_def fdiv_def Let_def)
qed (use that [of False] in \<open>simp add: is_mad_outlier_def\<close>)

lemma jump_pct_total: obtains j where "jump_pct value l = Inr j"
proof (cases "feq l (Fin 0)")
  case False
  then have "fabs l \<noteq> Fin 0" by (cases l) auto
  then show ?thesis using that False by (auto simp: jump_pct_def fdiv_def)
qed (use that in \<open>simp add: jump_pct_def\<close>)

lemma values_agree_ok:
  assumes "a \<noteq> NaN" "b \<noteq> NaN"
  obtains q where "values_agree a b tol = Inr q"
proof (cases "feq a (Fin 0) \<and> feq b (Fin 0)")
  case False
  then have "fmax (fabs a) (fabs b) \<noteq> Fin 0"
    using assms by (cases a; cases b) (auto simp: fmax_def split: if_splits)
  then show ?thesis using that False by (simp add: values_agree_def fdiv_def)
qed (use that in \<open>simp add: values_agree_def\<close>)

lemma fmax_commute: "a \<noteq> NaN \<Longrightarrow> b \<noteq> NaN \<Longrightarrow> fmax a b = fmax b a"
  by (auto simp: fmax_def flt_less)

lemma values_agree_sym:
  assumes "a \<noteq> NaN" "b \<noteq> NaN"
  shows "values_agree a b tol = values_agree b a tol"
  using assms fmax_commute [of "fabs a" "fabs b"] fabs_fsub_commute [of a b]
  by (auto simp: values_agree_def)

section \<open>What the jump test catches\<close>

lemma jump_large:
  assumes "rnd l = Fin l" "0 < l" "fle (Fin (l / 2)) (fabs (fsub v (Fin l)))" "jump_pct v (Fin l) = Inr j"
  shows "flt MAX_JUMP_PCT j"
proof -
  have j: "j = fmul (fquot (fabs (fsub v (Fin l))) (Fin l)) (Fin 100)"
    using assms(2,4) by (simp add: jump_pct_def fdiv_def lit_def)
  have "fle (Fin (1 / 2)) (fquot (fabs (fsub v (Fin l))) (Fin l))"
    using assms(3)
  proof (cases rule: fle_Fin_cases)
    case 1
    then show ?thesis using assms(2) by (simp add: fle_def)
  next
    case (2 d)
    have "1 / 2 \<le> d / l" using assms(2) 2(2) by (simp add: field_simps)
    moreover have "rnd (1 / 2) = Fin (1 / 2)" by code_simp
    ultimately show ?thesis using 2(1) by (simp add: rnd_scale_up)
  qed
  then show ?thesis
  proof (cases rule: fle_Fin_cases)
    case 1
    then show ?thesis using j by (simp add: signed_inf_def MAX_JUMP_PCT_def lit_def)
  next
    case (2 q)
    have "50 \<le> q * 100" using 2(2) by simp
    then have "fle (Fin 50) (rnd (q * 100))" by (intro rnd_scale_up) simp_all
    then show ?thesis
      using j 2 by (auto simp: MAX_JUMP_PCT_def lit_def elim: fle_Fin_cases)
  qed
qed

lemma double_or_half_distance:
  assumes "rnd l = Fin l" "1 \<le> l" "2 * l \<le> v \<or> 2 * v \<le> l"
  shows "fle (Fin (l / 2)) (fabs (fsub (Fin v) (Fin l)))"
proof -
  have half: "rnd (l / 2) = Fin (l / 2)" using assms(1,2) by (rule rnd_half)
  have pos: "fabs a = a" if "fle (Fin (l / 2)) a" for a
    using that assms(2) by (cases a) (auto simp: fle_def feq_def)
  from assms(3) show ?thesis
  proof
    assume "2 * l \<le> v"
    then have "l / 2 \<le> v - l" using assms(2) by simp
    from rnd_scale_up [OF half this] pos show ?thesis by simp
  next
    assume "2 * v \<le> l"
    then have "l / 2 \<le> l - v" by simp
    from rnd_scale_up [OF half this] pos have "fle (Fin (l / 2)) (fabs (fsub (Fin l) (Fin v)))" by simp
    then show ?thesis by (simp only: fabs_fsub_commute)
  qed
qed

section \<open>Runs of suspects\<close>

abbreviation row_instant :: "history_row \<Rightarrow> int" where
  "row_instant row \<equiv> ensure_utc (fst row)"

abbreviation row_vouches :: "pyfloat \<Rightarrow> pyfloat \<Rightarrow> history_row \<Rightarrow> bool" where
  "row_vouches value tol row \<equiv>
     snd (snd row) = ''suspect'' \<and> values_agree value (fst (snd row)) tol = Inr True"

lemma streak_walk_chain:
  assumes "streak_walk v tol n s history = Inr (n', s')"
  shows "\<exists>chain. subseq chain history \<and> n' = n + int (length chain) \<and>
    sorted_wrt (>) (s # map row_instant chain) \<and> s' = last (s # map row_instant chain) \<and>
    (\<forall>row\<in>set chain. row_vouches v tol row)"
  using assms
proof (induction v tol n s history rule: streak_walk.induct)
  case (1 v tol n s)
  then show ?case by (intro exI [of _ "[]"]) auto
next
  case (2 v tol n s observed_at past quality rest)
  let ?row = "(observed_at, past, quality)"
  show ?case
  proof (cases "quality = ''suspect'' \<and> values_agree v past tol = Inr True")
    case False
    then have "n' = n \<and> s' = s"
      using "2.prems" by (cases "values_agree v past tol") (auto split: if_splits)
    then show ?thesis by (intro exI [of _ "[]"]) auto
  next
    case True
    show ?thesis
    proof (cases "s \<le> ensure_utc observed_at")
      case le: True
      with True "2.prems" have "streak_walk v tol n s rest = Inr (n', s')" by simp
      with 2(1) True le obtain chain where c: "subseq chain rest" "n' = n + int (length chain)"
        "sorted_wrt (>) (s # map row_instant chain)" "s' = last (s # map row_instant chain)"
        "\<forall>row\<in>set chain. row_vouches v tol row" by auto
      then show ?thesis by (intro exI [of _ chain]) auto
    next
      case gt: False
      with True "2.prems" have "streak_walk v tol (n + 1) (ensure_utc observed_at) rest = Inr (n', s')"
        by simp
      with 2(2) True gt obtain chain where c: "subseq chain rest" "n' = n + 1 + int (length chain)"
        "sorted_wrt (>) (ensure_utc observed_at # map row_instant chain)"
        "s' = last (ensure_utc observed_at # map row_instant chain)"
        "\<forall>row\<in>set chain. row_vouches v tol row" by auto
      then show ?thesis using gt True by (intro exI [of _ "?row # chain"]) fastforce
    qed
  qed
qed

text \<open>A span of at least ninety minutes in the float arithmetic is one in exact time.\<close>

lemma minutes_of_90:
  assumes "fle (lit 90) (minutes_of us)"
  shows "90 * minute_us \<le> us"
proof (rule ccontr)
  assume "\<not> ?thesis"
  then have "us \<le> 5399999999" by simp
  then have "(of_int us / 10 ^ 6 :: rat) \<le> of_int 5399999999 / 10 ^ 6"
    by (intro divide_right_mono) (simp_all only: of_int_le_iff, simp)
  then have secs: "fle (rnd (of_int us / 10 ^ 6)) (rnd (5399999999 / 10 ^ 6))"
    using rnd_fle by fastforce
  have top: "rnd (5399999999 / 10 ^ 6) = Fin (742170348611361 / 137438953472)" by code_simp
  have q: "rnd (742170348611361 / 137438953472 / 60) = Fin (6333186974816947 / 70368744177664)" by code_simp
  from secs have "fle (rnd (of_int us / 10 ^ 6)) (Fin (742170348611361 / 137438953472))"
    by (simp only: top)
  then have "fle (minutes_of us) (Fin (6333186974816947 / 70368744177664))"
  proof (cases rule: Fin_fle_cases)
    case 1
    then show ?thesis by (simp add: minutes_of_def lit_def fle_def)
  next
    case (2 y)
    then have "fle (rnd (y / 60)) (rnd (742170348611361 / 137438953472 / 60))"
      by (intro rnd_fle divide_right_mono) simp_all
    then show ?thesis using 2 q by (simp add: minutes_of_def lit_def)
  qed
  from fle_trans [OF assms this] show False by (simp add: lit_def)
qed

lemma fle_fmax_0: "fle (lit 90) (fmax a (Fin 0)) \<Longrightarrow> fle (lit 90) a"
  by (simp add: fmax_def lit_def split: if_splits)

section \<open>Dispersion\<close>

lemma mset_filter_eq: "mset xs = mset ys \<Longrightarrow> mset (filter P xs) = mset (filter P ys)"
  by (simp add: mset_filter)

lemma sort_mset_eq: "mset xs = mset ys \<Longrightarrow> sort xs = sort ys"
  by (metis mset_sort properties_for_sort sorted_sort)

lemma dispersion_perm:
  assumes "mset xs = mset ys" "distinct (map fst xs)"
  shows "dispersion_summary xs tol = dispersion_summary ys tol"
proof -
  let ?P = "\<lambda>(s :: string, v). is_finite v"
  have m: "mset (filter ?P xs) = mset (filter ?P ys)" using assms(1) by (rule mset_filter_eq)
  have "inj_on fst (set (filter ?P xs))"
    using assms(2) by (metis distinct_map_filter distinct_map)
  then have "sort_key fst (filter ?P xs) = sort_key fst (filter ?P ys)"
    using m sort_key_inj_key_eq [of "filter ?P xs" "sort_key fst (filter ?P ys)" fst] by simp
  moreover have "sort (map snd (filter ?P xs)) = sort (map snd (filter ?P ys))"
    by (rule sort_mset_eq) (metis m mset_map)
  moreover have "length (filter ?P xs) = length (filter ?P ys)" using m by (metis size_mset)
  ultimately show ?thesis by (simp only: dispersion_summary_def Let_def)
qed

lemma is_finite_Fin: "is_finite a \<longleftrightarrow> (\<exists>x. a = Fin x)"
  by (cases a) auto

lemma fle_between:
  assumes "fle (Fin a) y" "fle y (Fin b)"
  obtains x where "y = Fin x" "a \<le> x" "x \<le> b"
  using assms that by (cases y) (auto simp: fle_def feq_def)

lemma median_finite:
  assumes "median data = Inr m" "\<And>x. x \<in> set data \<Longrightarrow> is_finite x"
  shows "m \<noteq> NaN"
proof -
  have ne: "data \<noteq> []" using assms(1) by (auto simp: median_def)
  then have l: "length data div 2 < length data" "length data div 2 - 1 < length data"
    by (cases data; auto)+
  have f: "is_finite (sort data ! (length data div 2))" "is_finite (sort data ! (length data div 2 - 1))"
    using assms(2) nth_sort_mem l by blast+
  have "fquot (fadd a b) (lit 2) \<noteq> NaN" if ab: "is_finite a" "is_finite b" for a b
  proof -
    obtain x y where xy: "a = Fin x" "b = Fin y" using ab by (auto simp: is_finite_Fin)
    show ?thesis by (cases "rnd (x + y)") (simp_all add: xy lit_def)
  qed
  then show ?thesis
    using assms(1) f ne by (auto simp: median_def Let_def split: if_splits)
qed

lemma mapM_ok:
  assumes "\<And>x. x \<in> set xs \<Longrightarrow> \<exists>y. f x = Inr y"
  shows "\<exists>ys. mapM f xs = Inr ys \<and> length ys = length xs"
  using assms by (induction xs) fastforce+

lemma fdiv_pos: "flt (Fin 0) b \<Longrightarrow> fdiv a b = Inr (fquot a b)"
  by (auto simp: fdiv_def)

lemma dispersion_result:
  assumes "2 \<le> length (filter (\<lambda>(_, v). is_finite v) xs)"
  obtains d where "dispersion_summary xs tol = Inr (Some d)"
    "n_sources d = int (length (filter (\<lambda>(_, v). is_finite v) xs))"
    "0 \<le> n_agreeing d" "n_agreeing d \<le> n_sources d"
proof -
  let ?u = "filter (\<lambda>(_, v). is_finite v) xs"
  let ?vs = "sort (map snd ?u)"
  have len: "length ?vs = length ?u" by simp
  have ne: "?vs \<noteq> []" using assms len by (metis list.size(3) not_numeral_le_zero)
  have fin: "is_finite v" if "v \<in> set ?vs" for v using that by auto
  obtain med where med: "median ?vs = Inr med" using median_ok [OF ne] by blast
  have mN: "med \<noteq> NaN" using median_finite [OF med] fin by blast
  obtain mad where mad: "median (map (\<lambda>v. fabs (fsub v med)) ?vs) = Inr mad"
    using median_ok [of "map (\<lambda>v. fabs (fsub v med)) ?vs"] ne by auto
  have ex: "\<exists>y. values_agree v med tol = Inr y" if "v \<in> set ?vs" for v
  proof -
    have "v \<noteq> NaN" using fin [OF that] by auto
    then show ?thesis using values_agree_ok [of v med tol] mN by blast
  qed
  have "\<exists>ys. mapM (\<lambda>v. values_agree v med tol) ?vs = Inr ys \<and> length ys = length ?vs"
    by (rule mapM_ok) (rule ex)
  then obtain ag where ag: "mapM (\<lambda>v. values_agree v med tol) ?vs = Inr ag" "length ag = length ?vs"
    by blast
  have le: "length (filter id ag) \<le> length ag" by (rule length_filter_le)
  have "\<exists>d. dispersion_summary xs tol = Inr (Some d) \<and> n_sources d = int (length ?vs) \<and>
      n_agreeing d = int (length (filter id ag))"
  proof (cases "flt (Fin 0) (fabs med)")
    case True
    show ?thesis
      unfolding dispersion_summary_def Let_def med mad ag(1) bind_res_simps
      using assms True by (simp add: fdiv_pos)
  next
    case False
    show ?thesis
      unfolding dispersion_summary_def Let_def med mad ag(1) bind_res_simps
      using assms False by simp
  qed
  then show thesis using that le ag(2) len by auto
qed

section \<open>Reading ^TNX quotes\<close>

lemma TNX_MAX_value: "TNX_MAX_YIELD_PCT = Fin 25"
  by (simp add: TNX_MAX_YIELD_PCT_def SANITY_RANGES_def lit_def)

lemma list_fmax_gt:
  assumes "m \<noteq> NaN" "NaN \<notin> set xs" "b \<noteq> NaN"
  shows "flt b (list_fmax m xs) \<longleftrightarrow> flt b m \<or> (\<exists>x\<in>set xs. flt b x)"
  using assms
proof (induction xs arbitrary: m)
  case (Cons x xs)
  have "fmax m x \<noteq> NaN" using Cons.prems by (auto simp: fmax_def)
  then have "flt b (list_fmax (fmax m x) xs) \<longleftrightarrow> flt b (fmax m x) \<or> (\<exists>x\<in>set xs. flt b x)"
    using Cons by simp
  moreover have "flt b (fmax m x) \<longleftrightarrow> flt b m \<or> flt b x"
    using Cons.prems by (auto simp: fmax_def flt_less)
  ultimately show ?case by auto
qed simp

lemma fquot_1: "is_double q \<Longrightarrow> fquot q (lit 1) = q"
  by (cases q) (simp_all add: lit_def)

lemma tnx_series_cases:
  assumes "NaN \<notin> set qs" "\<forall>q\<in>set qs. is_double q"
  shows "tnx_series_to_pct qs =
    (if \<exists>q\<in>set qs. flt (Fin 25) q then map (\<lambda>q. fquot q (lit 10)) qs else qs)"
proof (cases qs)
  case (Cons q rest)
  then have m: "flt (Fin 25) (list_fmax q rest) \<longleftrightarrow> (\<exists>q\<in>set qs. flt (Fin 25) q)"
    using list_fmax_gt [of q rest "Fin 25"] assms(1) by auto
  have "map (\<lambda>x. fquot x (lit 1)) qs = qs"
    using assms(2) by (intro map_idI) (simp add: fquot_1)
  then show ?thesis using Cons m by (simp add: tnx_series_to_pct_def TNX_MAX_value Let_def)
qed (simp add: tnx_series_to_pct_def)

lemma tenth_in_range:
  assumes "0 \<le> x" "x \<le> 250"
  shows "sanity_ok ''US10Y'' (fquot (Fin x) (lit 10))"
proof -
  have "fle (Fin 0) (rnd (x / 10))" using assms(1) by (intro rnd_nonneg) simp
  moreover have "fle (rnd (x / 10)) (Fin 25)" using assms(2) by (intro rnd_scale_down) simp_all
  ultimately show ?thesis by (simp add: sanity_ok_def SANITY_RANGES_def lit_def)
qed

section \<open>Properties\<close>

text \<open>Classification always returns a verdict, on any value, window and last good value
  (no division in it can fail), and the verdict is rejection exactly when the value is outside
  the plausible range of its symbol.\<close>

theorem classify_observation_total:
  "\<exists>q r. classify_observation symbol v w l = Inr (q, r) \<and> q \<in> {''ok'', ''suspect'', ''outlier''} \<and>
    (q = ''outlier'' \<longleftrightarrow> \<not> sanity_ok symbol v) \<and> (q = ''ok'' \<longleftrightarrow> r = None)"
proof -
  obtain b where b: "is_mad_outlier v w MAD_THRESHOLD = Inr b" by (rule is_mad_outlier_total)
  show ?thesis
  proof (cases l)
    case None
    then show ?thesis using b by (cases b) (auto simp: classify_observation_def)
  next
    case (Some x)
    obtain j where j: "jump_pct v x = Inr j" by (rule jump_pct_total)
    show ?thesis using b j Some
      by (cases b; cases "flt MAX_JUMP_PCT j") (auto simp: classify_observation_def)
  qed
qed

text \<open>A quote at least double or at most half of the last good value (a rial for a toman, an
  index for a yield, a mis-parsed digit) is never classified as good, for any symbol whose
  sign may not flip.\<close>

theorem double_or_half_never_ok:
  assumes "symbol \<notin> set OSCILLATING_SYMBOLS" "is_double (Fin l)" "1 \<le> l" "2 * l \<le> v \<or> 2 * v \<le> l"
  shows "\<exists>q r. classify_observation symbol (Fin v) w (Some (Fin l)) = Inr (q, r) \<and> q \<noteq> ''ok''"
proof (cases "sanity_ok symbol (Fin v)")
  case True
  obtain j where j: "jump_pct (Fin v) (Fin l) = Inr j" by (rule jump_pct_total)
  have "rnd l = Fin l" "0 < l" using assms(2,3) by simp_all
  then have "flt MAX_JUMP_PCT j"
    using jump_large [OF _ _ double_or_half_distance j] assms(3,4) by blast
  then show ?thesis using assms(1) True j by (simp add: classify_observation_def)
qed (simp add: classify_observation_def)

theorem double_or_half_never_ok_witness:
  "\<exists>q r. classify_observation ''US10Y'' (Fin 20) [] (Some (Fin 4)) = Inr (q, r) \<and> q \<noteq> ''ok''"
proof -
  have "''US10Y'' \<notin> set OSCILLATING_SYMBOLS" by code_simp
  moreover have "is_double (Fin 4)" by simp
  ultimately show ?thesis using double_or_half_never_ok [of "''US10Y''" 4 20 "[]"] by simp
qed

text \<open>Agreement of two sources does not depend on their order and always returns a verdict,
  unless one of the values is a NaN.\<close>

theorem values_agree_symmetric:
  assumes "a \<noteq> NaN" "b \<noteq> NaN"
  shows "values_agree a b tol = values_agree b a tol \<and> is_ok (values_agree a b tol)"
  using values_agree_sym [OF assms] values_agree_ok [OF assms] by (metis is_ok_simps(2))

theorem values_agree_symmetric_witness:
  "values_agree (Fin 100) (Fin 103) CONFIRM_TOLERANCE_PCT = values_agree (Fin 103) (Fin 100) CONFIRM_TOLERANCE_PCT
    \<and> is_ok (values_agree (Fin 100) (Fin 103) CONFIRM_TOLERANCE_PCT)"
  by (rule values_agree_symmetric) simp_all

text \<open>A level accepted by repetition really was repeated: behind it stand at least four
  earlier rows of the history that were held as suspect and agree with the value, at strictly
  decreasing instants before the candidate, the oldest at least ninety minutes before it. A
  burst of observations of one instant, or of one hour, is never enough.\<close>

theorem sustained_needs_repetition:
  assumes "suspect_streak v dt history tol = Inr st"
    "sustained_by_repetition st SUSTAIN_MIN_OBSERVATIONS SUSTAIN_MIN_SPAN_MINUTES"
  shows "\<exists>chain. subseq chain history \<and> 4 \<le> length chain \<and>
    sorted_wrt (>) (ensure_utc dt # map row_instant chain) \<and>
    row_instant (last chain) \<le> ensure_utc dt - 90 * minute_us \<and>
    (\<forall>row\<in>set chain. row_vouches v tol row)"
proof -
  obtain n s where w: "streak_walk v tol 1 (ensure_utc dt) history = Inr (n, s)"
    and st: "st = \<lparr>streak_length = n, span_minutes = fmax (minutes_of (ensure_utc dt - s)) (Fin 0), streak_since = s\<rparr>"
    using assms(1) by (auto simp: suspect_streak_def Let_def map_res_eq_Inr)
  from streak_walk_chain [OF w] obtain chain where c: "subseq chain history" "n = 1 + int (length chain)"
    "sorted_wrt (>) (ensure_utc dt # map row_instant chain)"
    "s = last (ensure_utc dt # map row_instant chain)" "\<forall>row\<in>set chain. row_vouches v tol row" by blast
  from assms(2) st have n: "5 \<le> n" and f: "fle (lit 90) (fmax (minutes_of (ensure_utc dt - s)) (Fin 0))"
    by (simp_all add: sustained_by_repetition_def SUSTAIN_MIN_OBSERVATIONS_def SUSTAIN_MIN_SPAN_MINUTES_def)
  have "90 * minute_us \<le> ensure_utc dt - s" using minutes_of_90 fle_fmax_0 f by blast
  moreover have "4 \<le> length chain" using n c(2) by simp
  moreover from this have "s = row_instant (last chain)" using c(4) by (cases chain rule: rev_cases) auto
  ultimately show ?thesis using c by (intro exI [of _ chain]) simp
qed

definition demo_history :: "history_row list" where
  "demo_history = map (\<lambda>k. (Naive (- k * 30 * minute_us), Fin 40, ''suspect'')) [1, 2, 3, 4]"

theorem sustained_needs_repetition_witness:
  "\<exists>chain. subseq chain demo_history \<and> 4 \<le> length chain \<and>
    sorted_wrt (>) (0 # map row_instant chain) \<and> row_instant (last chain) \<le> - 90 * minute_us \<and>
    (\<forall>row\<in>set chain. row_vouches (Fin 40) CONFIRM_TOLERANCE_PCT row)"
proof -
  let ?st = "\<lparr>streak_length = 5, span_minutes = Fin 120, streak_since = - 7200000000\<rparr> :: streak"
  have st: "suspect_streak (Fin 40) (Naive 0) demo_history CONFIRM_TOLERANCE_PCT = Inr ?st"
  proof -
    have "streak_walk (Fin 40) CONFIRM_TOLERANCE_PCT 1 0 demo_history = Inr (5, - 7200000000)"
      by code_simp
    moreover have "minutes_of 7200000000 = Fin 120" by code_simp
    ultimately show ?thesis by (simp add: suspect_streak_def fmax_def)
  qed
  have "sustained_by_repetition ?st SUSTAIN_MIN_OBSERVATIONS SUSTAIN_MIN_SPAN_MINUTES"
    by (simp add: sustained_by_repetition_def SUSTAIN_MIN_OBSERVATIONS_def
      SUSTAIN_MIN_SPAN_MINUTES_def lit_def)
  from sustained_needs_repetition [OF st this] show ?thesis by simp
qed

text \<open>The dispersion of several sources does not depend on the order in which they were
  collected; with fewer than two finite quotes there is none, and otherwise a summary is
  always produced, counting every finite quote, with no more of them agreeing than there are.\<close>

theorem dispersion_summary_spec:
  assumes "distinct (map fst xs)" "mset xs = mset ys"
  shows "dispersion_summary xs tol = dispersion_summary ys tol \<and>
    (length (filter (\<lambda>(_, v). is_finite v) xs) < 2 \<longrightarrow> dispersion_summary xs tol = Inr None) \<and>
    (2 \<le> length (filter (\<lambda>(_, v). is_finite v) xs) \<longrightarrow>
      (\<exists>d. dispersion_summary xs tol = Inr (Some d) \<and>
        n_sources d = int (length (filter (\<lambda>(_, v). is_finite v) xs)) \<and>
        0 \<le> n_agreeing d \<and> n_agreeing d \<le> n_sources d))"
proof (intro conjI impI)
  show "dispersion_summary xs tol = dispersion_summary ys tol"
    using assms(2,1) by (rule dispersion_perm)
qed (simp add: dispersion_summary_def, blast intro: dispersion_result)

theorem dispersion_summary_spec_witness:
  "dispersion_summary [(''tgju'', Fin 100), (''brsapi'', Fin 102)] CONFIRM_TOLERANCE_PCT =
   dispersion_summary [(''brsapi'', Fin 102), (''tgju'', Fin 100)] CONFIRM_TOLERANCE_PCT"
  using dispersion_summary_spec [of "[(''tgju'', Fin 100), (''brsapi'', Fin 102)]"
    "[(''brsapi'', Fin 102), (''tgju'', Fin 100)]" CONFIRM_TOLERANCE_PCT]
  by simp

text \<open>A ^TNX history is read under one convention: if some quote is above the ceiling every
  quote is divided by ten, otherwise none is touched; a series of one quote is read as the
  quote alone; and a series of quotes from 0 to 250 gives yields that the sanity range of
  \<^verbatim>\<open>US10Y\<close> admits.\<close>

theorem tnx_series_one_convention:
  assumes "NaN \<notin> set qs" "\<forall>q\<in>set qs. is_double q"
  shows "tnx_series_to_pct qs =
      (if \<exists>q\<in>set qs. flt TNX_MAX_YIELD_PCT q then map (\<lambda>q. fquot q (lit 10)) qs else qs) \<and>
    (\<forall>q\<in>set qs. tnx_series_to_pct [q] = [tnx_to_pct q]) \<and>
    ((\<forall>q\<in>set qs. fle (Fin 0) q \<and> fle q (Fin 250)) \<longrightarrow>
      (\<forall>y\<in>set (tnx_series_to_pct qs). sanity_ok ''US10Y'' y))"
proof (intro conjI impI ballI)
  note c = tnx_series_cases [OF assms]
  show "tnx_series_to_pct qs =
      (if \<exists>q\<in>set qs. flt TNX_MAX_YIELD_PCT q then map (\<lambda>q. fquot q (lit 10)) qs else qs)"
    using c by (simp add: TNX_MAX_value)
  show "tnx_series_to_pct [q] = [tnx_to_pct q]" if "q \<in> set qs" for q
  proof -
    have "NaN \<notin> set [q]" using that assms(1) by auto
    then show ?thesis using that assms(2) tnx_series_cases [of "[q]"]
      by (simp add: tnx_to_pct_def TNX_MAX_value)
  qed
  show "sanity_ok ''US10Y'' y"
    if r: "\<forall>q\<in>set qs. fle (Fin 0) q \<and> fle q (Fin 250)" and y: "y \<in> set (tnx_series_to_pct qs)" for y
  proof (cases "\<exists>q\<in>set qs. flt (Fin 25) q")
    case True
    then obtain q where q: "q \<in> set qs" "y = fquot q (lit 10)" using y c by auto
    with r obtain x where x: "q = Fin x" "0 \<le> x" "x \<le> 250" by (meson fle_between)
    then show ?thesis using q tenth_in_range by simp
  next
    case False
    then have "y \<in> set qs" "\<not> flt (Fin 25) y" using y c by auto
    moreover from this r obtain x where "y = Fin x" "0 \<le> x" by (meson fle_between)
    ultimately show ?thesis by (simp add: sanity_ok_def SANITY_RANGES_def lit_def)
  qed
qed

theorem tnx_series_one_convention_witness:
  "tnx_series_to_pct [Fin 15, Fin 40] = map (\<lambda>q. fquot q (lit 10)) [Fin 15, Fin 40] \<and>
    sanity_ok ''US10Y'' (fquot (Fin 15) (lit 10))"
  using tnx_series_one_convention [of "[Fin 15, Fin 40]"] by (simp add: TNX_MAX_value)

end
