(* ===== verification/PyJson.thy ===== *)
theory PyJson
  imports PyFloat PyString
begin

text \<open>
  Decoded JSON values, as \<^verbatim>\<open>json.loads\<close> returns them, and Python's conversions of them:
  \<^verbatim>\<open>int(v)\<close>, \<^verbatim>\<open>float(v)\<close> of a number, \<^verbatim>\<open>str(v)\<close> and \<^verbatim>\<open>dict.get\<close>. An object is the list of its
  items in insertion order, with distinct keys.
\<close>

datatype json =
    JNull
  | JBool bool
  | JInt int
  | JFloat pyfloat
  | JStr string
  | JList "json list"
  | JObj "(string \<times> json) list"

text \<open>The decimal digits of a natural number, most significant first.\<close>

function nat_digits :: "int \<Rightarrow> string" where
  "nat_digits n = (if n < 10 then [char_of (48 + n)] else nat_digits (n div 10) @ [char_of (48 + n mod 10)])"
  by pat_completeness auto
termination
  by (relation "measure nat") auto

declare nat_digits.simps [simp del]

definition int_str :: "int \<Rightarrow> string" where
  "int_str n = (if n < 0 then CHR ''-'' # nat_digits (- n) else nat_digits n)"

text \<open>\<^verbatim>\<open>str(v)\<close>; the printed form of floats, lists and objects is a parameter.\<close>

fun py_str :: "(json \<Rightarrow> string) \<Rightarrow> json \<Rightarrow> string" where
  "py_str repr (JStr s) = s"
| "py_str repr (JInt n) = int_str n"
| "py_str repr (JBool b) = (if b then ''True'' else ''False'')"
| "py_str repr JNull = ''None''"
| "py_str repr v = repr v"

fun int_of_json :: "json \<Rightarrow> int res" where
  "int_of_json (JInt n) = Inr n"
| "int_of_json (JBool b) = Inr (if b then 1 else 0)"
| "int_of_json (JFloat a) = ftrunc_int a"
| "int_of_json (JStr s) = py_int s"
| "int_of_json _ = Inl TypeError"

definition json_get :: "(string \<times> json) list \<Rightarrow> string \<Rightarrow> json" where
  "json_get row key = (case map_of row key of None \<Rightarrow> JNull | Some v \<Rightarrow> v)"

end
