(* ===== verification/Equity_Adjust.thy ===== *)
theory Equity_Adjust
  imports Calendar PyJson "HOL-Library.Sublist"
begin

text \<open>
  \<^verbatim>\<open>app/equities/adjust.py\<close>: parsing of a TSETMC daily-bar payload, detection of corporate
  actions from the exchange's own reference prices, chaining of the factors, back-adjustment
  of the closes and the gate that decides whether returns may be computed from the result.

  All prices are binary64. Texts (error messages, the refusal reason) are reduced to the
  values they print. The folding of Persian names (\<^verbatim>\<open>fold_symbol\<close>, \<^verbatim>\<open>fold_name\<close>) is not
  modelled.
\<close>

section \<open>Records and constants\<close>

definition ADJUSTMENT_VERSION :: string where "ADJUSTMENT_VERSION = ''priceYesterday-chain-v1''"
definition MAX_SESSION_RETURN :: pyfloat where "MAX_SESSION_RETURN = lit (1 / 4)"
definition MAX_REOPENING_RETURN :: pyfloat where "MAX_REOPENING_RETURN = lit 3"
definition SESSION_GAP_DAYS :: int where "SESSION_GAP_DAYS = 4"

definition REQUIRED_FIELDS :: "string list" where
  "REQUIRED_FIELDS = [''dEven'', ''insCode'', ''priceYesterday'', ''priceFirst'', ''priceMin'',
     ''priceMax'', ''pClosing'', ''pDrCotVal'', ''qTotTran5J'', ''zTotTran'', ''qTotCap'']"

record bar =
  ins_code :: string
  trade_date :: date
  bar_open :: pyfloat
  bar_high :: pyfloat
  bar_low :: pyfloat
  bar_close :: pyfloat
  final_close :: pyfloat
  price_yesterday :: pyfloat
  volume :: int
  trade_count :: int
  bar_value :: pyfloat

definition traded :: "bar \<Rightarrow> bool" where
  "traded b \<longleftrightarrow> 0 < volume b \<or> 0 < trade_count b"

datatype action_kind = KIND_REFERENCE_RESTATED | KIND_CLOSE_RESTATED

record corporate_action =
  effective_date :: date
  prev_trade_date :: date
  prev_close :: pyfloat
  ref_price :: pyfloat
  ratio :: pyfloat
  cumulative_factor :: pyfloat
  act_kind :: action_kind
  restated_close :: "pyfloat option"

record contested_break =
  cb_effective_date :: date
  cb_prev_trade_date :: date
  cb_prev_close :: pyfloat
  cb_price_yesterday :: pyfloat
  chained_by :: pyfloat

type_synonym alternatives = "(date \<times> (pyfloat \<times> pyfloat) list) list"

record session_move =
  mv_trade_date :: date
  mv_prev_trade_date :: date
  gap_days :: int
  ret :: pyfloat
  is_session :: bool

datatype status = STATUS_VALIDATED | STATUS_REFUSED

datatype refusal =
    OverSession int "session_move list" int
  | OverReopening int "session_move list" int

record validation =
  status :: status
  sessions_checked :: int
  reopenings :: int
  worst_return :: "pyfloat option"
  worst_return_date :: "date option"
  violations :: "session_move list"
  max_session_return :: pyfloat
  max_reopening_return :: pyfloat
  session_gap_days :: int
  refusal_reason :: "refusal list"

record adjusted_series =
  series_ins_code :: string
  version :: string
  bars :: "bar list"
  actions :: "corporate_action list"
  pre_listing_bars :: nat
  adjusted_closes :: "pyfloat list"
  verdict :: validation
  contested :: "contested_break list"

definition traded_bars :: "adjusted_series \<Rightarrow> bar list" where
  "traded_bars s = drop (pre_listing_bars s) (bars s)"

definition raw_ratio :: "adjusted_series \<Rightarrow> pyfloat res" where
  "raw_ratio s = (case traded_bars s of [] \<Rightarrow> Inr (Fin 0)
     | b # bs \<Rightarrow> fdiv (final_close (last (b # bs))) (final_close b))"

definition adjusted_ratio :: "adjusted_series \<Rightarrow> pyfloat res" where
  "adjusted_ratio s = (case adjusted_closes s of [] \<Rightarrow> Inr (Fin 0) | c # cs \<Rightarrow> fdiv (last (c # cs)) c)"

section \<open>Parsing\<close>

definition parse_deven :: "json \<Rightarrow> date res" where
  "parse_deven v =
     bind_res (case int_of_json v of
                 Inl TypeError \<Rightarrow> Inl BarParseError
               | Inl ValueError \<Rightarrow> Inl BarParseError
               | r \<Rightarrow> r) (\<lambda>n.
       if \<not> (19000101 \<le> n \<and> n \<le> 21001231) then Inl BarParseError
       else case mk_date (n div 10000) (n div 100 mod 100) (n mod 100) of
              Inl _ \<Rightarrow> Inl BarParseError | Inr d \<Rightarrow> Inr d)"

definition number :: "(string \<times> json) list \<Rightarrow> string \<Rightarrow> pyfloat res" where
  "number row key = (case json_get row key of
     JInt n \<Rightarrow> float_of_int n | JFloat a \<Rightarrow> Inr a | _ \<Rightarrow> Inl BarParseError)"

text \<open>One turn of the row loop: the bar of a row, given the dates already seen.\<close>

definition parse_row :: "(json \<Rightarrow> string) \<Rightarrow> date list \<Rightarrow> json \<Rightarrow> bar res" where
  "parse_row repr seen row =
     (case row of
        JObj r \<Rightarrow>
          if \<exists>f \<in> set REQUIRED_FIELDS. f \<notin> fst ` set r then Inl BarParseError
          else let code = py_strip (py_str repr (json_get r ''insCode'')) in
            bind_res (parse_deven (json_get r ''dEven'')) (\<lambda>d.
            if d \<in> set seen then Inl BarParseError
            else bind_res (number r ''pClosing'') (\<lambda>fc.
              if fle fc (Fin 0) then Inl BarParseError
              else bind_res (number r ''priceFirst'') (\<lambda>po.
                bind_res (number r ''priceMax'') (\<lambda>ph.
                bind_res (number r ''priceMin'') (\<lambda>pl.
                bind_res (number r ''pDrCotVal'') (\<lambda>pc.
                bind_res (number r ''priceYesterday'') (\<lambda>py.
                bind_res (bind_res (number r ''qTotTran5J'') ftrunc_int) (\<lambda>v.
                bind_res (bind_res (number r ''zTotTran'') ftrunc_int) (\<lambda>n.
                bind_res (number r ''qTotCap'') (\<lambda>cap.
                  Inr \<lparr>ins_code = code, trade_date = d, bar_open = po, bar_high = ph, bar_low = pl,
                       bar_close = pc, final_close = fc, price_yesterday = py,
                       volume = v, trade_count = n, bar_value = cap\<rparr>))))))))))
      | _ \<Rightarrow> Inl BarParseError)"

fun parse_rows :: "(json \<Rightarrow> string) \<Rightarrow> bar list \<Rightarrow> json list \<Rightarrow> bar list res" where
  "parse_rows repr acc [] = Inr acc"
| "parse_rows repr acc (row # rest) =
     bind_res (parse_row repr (map trade_date acc) row) (\<lambda>b. parse_rows repr (acc @ [b]) rest)"

definition parse_daily_list :: "(json \<Rightarrow> string) \<Rightarrow> json \<Rightarrow> string \<Rightarrow> bar list res" where
  "parse_daily_list repr payload ins =
     (case payload of
        JObj p \<Rightarrow>
          (case json_get p ''closingPriceDaily'' of
             JList rows \<Rightarrow>
               if rows = [] then Inl BarParseError
               else bind_res (parse_rows repr [] rows) (\<lambda>bs.
                 let codes = remdups (map ins_code bs) in
                 if length codes \<noteq> 1 then Inl BarParseError
                 else if ins \<noteq> [] \<and> hd codes \<noteq> py_strip ins then Inl BarParseError
                 else Inr (sort_key trade_date bs))
           | _ \<Rightarrow> Inl BarParseError)
      | _ \<Rightarrow> Inl BarParseError)"

section \<open>Detection and chaining\<close>

fun first_traded_index :: "bar list \<Rightarrow> nat" where
  "first_traded_index [] = 0"
| "first_traded_index (b # bs) = (if traded b then 0 else Suc (first_traded_index bs))"

text \<open>\<^verbatim>\<open>alternatives.get(day, ())\<close>, and the least element of the intersection of two sets of floats.\<close>

definition alts_of :: "alternatives \<Rightarrow> date \<Rightarrow> (pyfloat \<times> pyfloat) list" where
  "alts_of alts d = (case map_of alts d of None \<Rightarrow> [] | Some l \<Rightarrow> l)"

definition chained_by_a_copy :: "bar \<Rightarrow> bar \<Rightarrow> alternatives option \<Rightarrow> pyfloat option" where
  "chained_by_a_copy previous current alternatives =
     (case alternatives of None \<Rightarrow> None
      | Some alts \<Rightarrow>
          if alts = [] then None
          else let closes = final_close previous # map fst (alts_of alts (trade_date previous));
                   refs = price_yesterday current # map snd (alts_of alts (trade_date current));
                   common = filter (\<lambda>c. \<exists>r \<in> set refs. feq c r) closes
               in case common of [] \<Rightarrow> None | c # cs \<Rightarrow> Some (fold (\<lambda>x m. fmin m x) cs c))"

datatype pair_outcome = NoBreak | Contested contested_break | Action corporate_action

text \<open>The body of the detection loop for one pair of neighbouring bars.\<close>

definition detect_pair :: "alternatives option \<Rightarrow> bar \<Rightarrow> bar \<Rightarrow> pair_outcome res" where
  "detect_pair alternatives previous current =
     (if \<not> feq (price_yesterday current) (final_close previous) then
        (case (if traded previous \<and> traded current
               then chained_by_a_copy previous current alternatives else None) of
           Some chained \<Rightarrow> Inr (Contested \<lparr>cb_effective_date = trade_date current,
             cb_prev_trade_date = trade_date previous, cb_prev_close = final_close previous,
             cb_price_yesterday = price_yesterday current, chained_by = chained\<rparr>)
         | None \<Rightarrow>
             if fle (price_yesterday current) (Fin 0) \<or> fle (final_close previous) (Fin 0)
             then Inl BarParseError
             else map_res (\<lambda>q. Action \<lparr>effective_date = trade_date current,
               prev_trade_date = trade_date previous, prev_close = final_close previous,
               ref_price = price_yesterday current, ratio = q, cumulative_factor = Fin 1,
               act_kind = KIND_REFERENCE_RESTATED, restated_close = None\<rparr>)
                 (fdiv (price_yesterday current) (final_close previous)))
      else if \<not> traded current \<and> \<not> feq (final_close current) (price_yesterday current) then
        (if fle (price_yesterday current) (Fin 0) then Inl BarParseError
         else map_res (\<lambda>q. Action \<lparr>effective_date = trade_date current,
               prev_trade_date = trade_date previous, prev_close = final_close previous,
               ref_price = price_yesterday current, ratio = q, cumulative_factor = Fin 1,
               act_kind = KIND_CLOSE_RESTATED, restated_close = Some (final_close current)\<rparr>)
                 (fdiv (final_close current) (price_yesterday current)))
      else Inr NoBreak)"

fun detect_walk :: "alternatives option \<Rightarrow> bar list \<Rightarrow> pair_outcome list res" where
  "detect_walk alternatives (previous # current # rest) =
     bind_res (detect_pair alternatives previous current) (\<lambda>o'.
       map_res (\<lambda>os. o' # os) (detect_walk alternatives (current # rest)))"
| "detect_walk alternatives _ = Inr []"

fun outcome_actions :: "pair_outcome list \<Rightarrow> corporate_action list" where
  "outcome_actions [] = []"
| "outcome_actions (Action a # os) = a # outcome_actions os"
| "outcome_actions (_ # os) = outcome_actions os"

fun outcome_contested :: "pair_outcome list \<Rightarrow> contested_break list" where
  "outcome_contested [] = []"
| "outcome_contested (Contested c # os) = c # outcome_contested os"
| "outcome_contested (_ # os) = outcome_contested os"

text \<open>The detected actions, and what the loop appends to the caller's list of contested breaks.\<close>

definition detect_actions ::
  "bar list \<Rightarrow> alternatives option \<Rightarrow> (corporate_action list \<times> contested_break list) res" where
  "detect_actions bs alternatives =
     map_res (\<lambda>os. (outcome_actions os, outcome_contested os)) (detect_walk alternatives bs)"

fun chain_from :: "pyfloat \<Rightarrow> corporate_action list \<Rightarrow> corporate_action list" where
  "chain_from running [] = []"
| "chain_from running (a # rest) =
     (let running = fmul running (ratio a) in
      a\<lparr>cumulative_factor := running\<rparr> # chain_from running rest)"

definition chain_factors :: "corporate_action list \<Rightarrow> corporate_action list" where
  "chain_factors acts = rev (chain_from (Fin 1) (rev acts))"

text \<open>The second argument of the walk is the actions from the cursor on.\<close>

fun apply_factors :: "bar list \<Rightarrow> corporate_action list \<Rightarrow> pyfloat list" where
  "apply_factors [] acts = []"
| "apply_factors (b # bs) acts =
     (let acts = dropWhile (\<lambda>a. effective_date a \<le> trade_date b) acts in
      fmul (final_close b) (case acts of [] \<Rightarrow> Fin 1 | a # _ \<Rightarrow> cumulative_factor a)
        # apply_factors bs acts)"

section \<open>The gate\<close>

fun session_moves :: "bar list \<Rightarrow> pyfloat list \<Rightarrow> int \<Rightarrow> session_move list res" where
  "session_moves (previous # current # rest) (x # y # ys) gap_limit =
     (let gap = days_between (trade_date current) (trade_date previous) in
      bind_res (fdiv y x) (\<lambda>q.
        map_res (\<lambda>moves. \<lparr>mv_trade_date = trade_date current, mv_prev_trade_date = trade_date previous,
              gap_days = gap, ret = fsub q (Fin 1),
              is_session = (traded current \<and> traded previous \<and> gap \<le> gap_limit)\<rparr> # moves)
          (session_moves (current # rest) (y # ys) gap_limit)))"
| "session_moves (previous # current # rest) _ gap_limit = Inl IndexError"
| "session_moves _ _ gap_limit = Inr []"

text \<open>\<^verbatim>\<open>_describe\<close> prints the first five moves and how many more there are.\<close>

definition describe :: "(int \<Rightarrow> session_move list \<Rightarrow> int \<Rightarrow> refusal) \<Rightarrow> session_move list \<Rightarrow> refusal" where
  "describe tag moves = tag (int (length moves)) (take 5 moves) (max 0 (int (length moves) - 5))"

definition validate :: "session_move list \<Rightarrow> pyfloat \<Rightarrow> pyfloat \<Rightarrow> int \<Rightarrow> validation" where
  "validate moves max_session max_reopening gap_limit =
     (let sessions = filter is_session moves;
          reopens = filter (\<lambda>m. \<not> is_session m) moves;
          over_session = filter (\<lambda>m. flt max_session (fabs (ret m))) sessions;
          over_reopening = filter (\<lambda>m. flt max_reopening (fabs (ret m))) reopens;
          viol = over_session @ over_reopening;
          worst = first_max (\<lambda>a b. flt (fabs (ret b)) (fabs (ret a))) sessions
      in \<lparr>status = (if viol \<noteq> [] then STATUS_REFUSED else STATUS_VALIDATED),
          sessions_checked = int (length sessions),
          reopenings = int (length (filter (\<lambda>m. flt max_session (fabs (ret m))) reopens)),
          worst_return = map_option ret worst,
          worst_return_date = map_option mv_trade_date worst,
          violations = viol,
          max_session_return = max_session,
          max_reopening_return = max_reopening,
          session_gap_days = gap_limit,
          refusal_reason = (if over_session \<noteq> [] then [describe OverSession over_session] else [])
            @ (if over_reopening \<noteq> [] then [describe OverReopening over_reopening] else [])\<rparr>)"

definition adjust ::
  "bar list \<Rightarrow> pyfloat \<Rightarrow> pyfloat \<Rightarrow> int \<Rightarrow> alternatives option \<Rightarrow> adjusted_series res" where
  "adjust bs max_session max_reopening gap_limit alternatives =
     (if bs = [] then Inl BarParseError
      else let ordered = sort_key trade_date bs in
        bind_res (detect_actions ordered alternatives) (\<lambda>(detected, contested_breaks).
        let acts = chain_factors detected;
            lead = first_traded_index ordered in
        if length ordered \<le> lead then Inl BarParseError
        else let span = drop lead ordered; adjusted = apply_factors span acts in
          map_res (\<lambda>moves. \<lparr>series_ins_code = ins_code (hd ordered), version = ADJUSTMENT_VERSION,
              bars = ordered, actions = acts, pre_listing_bars = lead, adjusted_closes = adjusted,
              verdict = validate moves max_session max_reopening gap_limit,
              contested = contested_breaks\<rparr>)
            (session_moves span adjusted gap_limit)))"

definition adjust_payload ::
  "(json \<Rightarrow> string) \<Rightarrow> json \<Rightarrow> string \<Rightarrow> pyfloat \<Rightarrow> pyfloat \<Rightarrow> int \<Rightarrow> adjusted_series res" where
  "adjust_payload repr payload ins max_session max_reopening gap_limit =
     bind_res (parse_daily_list repr payload ins)
       (\<lambda>bs. adjust bs max_session max_reopening gap_limit None)"

definition adjusted_pairs :: "adjusted_series \<Rightarrow> (bar \<times> pyfloat) list" where
  "adjusted_pairs s = zip (traded_bars s) (adjusted_closes s)"

section \<open>The factor chain\<close>

text \<open>The reference: walk the actions newest first, multiplying a running factor, and stop at
  the bar's date.\<close>

definition back_factor :: "corporate_action list \<Rightarrow> date \<Rightarrow> pyfloat" where
  "back_factor acts d =
     fold (\<lambda>a running. fmul running (ratio a)) (rev (filter (\<lambda>a. d < effective_date a) acts)) (Fin 1)"

lemma chain_from_append:
  "chain_from r (xs @ ys) =
     chain_from r xs @ chain_from (fold (\<lambda>a running. fmul running (ratio a)) xs r) ys"
  by (induction xs arbitrary: r) (auto simp: Let_def)

lemma chain_factors_Nil [simp]: "chain_factors [] = []"
  by (simp add: chain_factors_def)

lemma chain_factors_Cons:
  "chain_factors (a # acts) =
     a\<lparr>cumulative_factor := fold (\<lambda>a running. fmul running (ratio a)) (rev (a # acts)) (Fin 1)\<rparr>
       # chain_factors acts"
  by (simp add: chain_factors_def chain_from_append Let_def)

lemma chain_factors_keeps [simp]:
  "map effective_date (chain_factors acts) = map effective_date acts"
  "map ratio (chain_factors acts) = map ratio acts"
  "length (chain_factors acts) = length acts"
  by (induction acts) (auto simp: chain_factors_Cons)

lemma dropWhile_chain:
  "dropWhile (\<lambda>a. effective_date a \<le> d) (chain_factors acts) =
     chain_factors (dropWhile (\<lambda>a. effective_date a \<le> d) acts)"
  by (induction acts) (auto simp: chain_factors_Cons)

abbreviation ascending :: "corporate_action list \<Rightarrow> bool" where
  "ascending acts \<equiv> sorted_wrt (\<lambda>a b. effective_date a < effective_date b) acts"

lemma dropWhile_filter:
  "ascending acts \<Longrightarrow> dropWhile (\<lambda>a. effective_date a \<le> d) acts = filter (\<lambda>a. d < effective_date a) acts"
proof (induction acts)
  case (Cons a acts)
  then show ?case
  proof (cases "effective_date a \<le> d")
    case False
    then have "\<forall>b\<in>set acts. d < effective_date b" using Cons.prems by fastforce
    then show ?thesis using False by (simp add: not_le)
  qed (auto simp: not_less)
qed simp

lemma ascending_dropWhile: "ascending acts \<Longrightarrow> ascending (dropWhile P acts)"
  by (metis dropWhile_eq_drop sorted_wrt_drop)

lemma factor_at:
  assumes "ascending acts"
  shows "(case dropWhile (\<lambda>a. effective_date a \<le> d) (chain_factors acts) of
            [] \<Rightarrow> Fin 1 | a # _ \<Rightarrow> cumulative_factor a) = back_factor acts d"
proof (cases "dropWhile (\<lambda>a. effective_date a \<le> d) acts")
  case Nil
  then show ?thesis
    using dropWhile_filter [OF assms, of d] by (simp only: dropWhile_chain back_factor_def) simp
next
  case (Cons a rest)
  then show ?thesis
    using dropWhile_filter [OF assms, of d]
    by (simp add: dropWhile_chain chain_factors_Cons back_factor_def)
qed

lemma back_factor_later:
  "ascending acts \<Longrightarrow> d \<le> d' \<Longrightarrow>
     back_factor (dropWhile (\<lambda>a. effective_date a \<le> d) acts) d' = back_factor acts d'"
  by (auto simp: back_factor_def dropWhile_filter intro!: arg_cong [of _ _ "\<lambda>l. fold _ (rev l) _"] filter_cong)

lemma apply_factors_back:
  assumes "ascending acts" "sorted (map trade_date bs)"
  shows "apply_factors bs (chain_factors acts) =
    map (\<lambda>b. fmul (final_close b) (back_factor acts (trade_date b))) bs"
  using assms
proof (induction bs arbitrary: acts)
  case (Cons b bs)
  let ?rest = "dropWhile (\<lambda>a. effective_date a \<le> trade_date b) acts"
  have "apply_factors bs (chain_factors ?rest) =
      map (\<lambda>c. fmul (final_close c) (back_factor ?rest (trade_date c))) bs"
    using Cons.prems by (intro Cons.IH ascending_dropWhile) auto
  also have "\<dots> = map (\<lambda>c. fmul (final_close c) (back_factor acts (trade_date c))) bs"
    using Cons.prems by (auto simp: back_factor_later)
  finally show ?case
    using factor_at [OF Cons.prems(1), of "trade_date b"]
    by (simp add: Let_def dropWhile_chain)
qed simp

lemma length_apply_factors [simp]: "length (apply_factors bs acts) = length bs"
  by (induction bs arbitrary: acts) (auto simp: Let_def)

section \<open>Detection\<close>

lemma fdiv_positive: "\<not> fle b (Fin 0) \<Longrightarrow> fdiv a b = Inr (fquot a b)"
  by (auto simp: fdiv_def)

lemma detect_pair_action:
  assumes "detect_pair alts p c = Inr (Action a)"
  shows "effective_date a = trade_date c \<and> prev_trade_date a = trade_date p \<and>
    (act_kind a = KIND_REFERENCE_RESTATED \<and> \<not> feq (price_yesterday c) (final_close p) \<and>
       ratio a = fquot (price_yesterday c) (final_close p)
     \<or> act_kind a = KIND_CLOSE_RESTATED \<and> feq (price_yesterday c) (final_close p) \<and> \<not> traded c \<and>
       ratio a = fquot (final_close c) (price_yesterday c))"
  using assms
  by (auto simp: detect_pair_def map_res_eq_Inr fdiv_positive split: if_splits option.splits)

lemma detect_pair_no_break:
  "detect_pair alts p c = Inr NoBreak \<longleftrightarrow>
     feq (price_yesterday c) (final_close p) \<and> (traded c \<or> feq (final_close c) (price_yesterday c))"
  by (auto simp: detect_pair_def map_res_eq_Inr split: if_splits option.splits)

lemma detect_walk_nth:
  assumes "detect_walk alts bs = Inr os"
  shows "length os = length bs - 1"
    and "Suc i < length bs \<Longrightarrow> detect_pair alts (bs ! i) (bs ! Suc i) = Inr (os ! i)"
  using assms
proof (induction alts bs arbitrary: os i rule: detect_walk.induct)
  case (1 alts p c rest)
  {
    case 1
    then show ?case using "1.IH"(1) by (auto simp: bind_res_eq_Inr map_res_eq_Inr)
  next
    case 2
    then show ?case using "1.IH"(2) by (cases i) (auto simp: bind_res_eq_Inr map_res_eq_Inr)
  }
qed auto

lemma outcome_actions_filter:
  "outcome_actions os = map (\<lambda>o'. case o' of Action a \<Rightarrow> a) (filter (\<lambda>o'. \<exists>a. o' = Action a) os)"
  by (induction os rule: outcome_actions.induct) auto

lemma outcome_actions_set: "a \<in> set (outcome_actions os) \<longleftrightarrow> Action a \<in> set os"
  by (induction os rule: outcome_actions.induct) auto

text \<open>The dates of the actions are a subsequence of the dates of the bars after the first.\<close>

lemma detect_dates:
  assumes "detect_walk alts bs = Inr os"
  shows "subseq (map effective_date (outcome_actions os)) (map trade_date (tl bs))"
  using assms
proof (induction alts bs arbitrary: os rule: detect_walk.induct)
  case (1 alts p c rest)
  then obtain o' os' where o: "detect_pair alts p c = Inr o'" "detect_walk alts (c # rest) = Inr os'"
    "os = o' # os'" by (auto simp: bind_res_eq_Inr map_res_eq_Inr)
  have IH: "subseq (map effective_date (outcome_actions os')) (map trade_date rest)"
    using 1 o by simp
  show ?case
  proof (cases o')
    case (Action a)
    then show ?thesis using IH o detect_pair_action [of alts p c a] by simp
  qed (use IH o in \<open>auto intro: list_emb_Cons\<close>)
qed auto

lemma sorted_wrt_subseq: "subseq xs ys \<Longrightarrow> sorted_wrt P ys \<Longrightarrow> sorted_wrt P xs"
proof (induction rule: list_emb.induct)
  case (list_emb_Cons2 x y xs ys)
  then show ?case by (auto dest: list_emb_set)
qed auto

lemma detect_ascending:
  assumes "detect_walk alts bs = Inr os" "sorted_wrt (\<lambda>a b. trade_date a < trade_date b) bs"
  shows "ascending (outcome_actions os)"
proof -
  have "sorted_wrt (<) (map trade_date (tl bs))"
    using assms(2) by (cases bs) (auto simp: sorted_wrt_map)
  then have "sorted_wrt (<) (map effective_date (outcome_actions os))"
    using detect_dates [OF assms(1)] sorted_wrt_subseq by blast
  then show ?thesis by (simp add: sorted_wrt_map)
qed

section \<open>What parsing guarantees\<close>

lemma parse_row_facts:
  assumes "parse_row repr seen row = Inr b"
  shows "trade_date b \<notin> set seen \<and> valid_date (trade_date b) \<and> \<not> fle (final_close b) (Fin 0)"
proof -
  have v: "valid_date d" if "parse_deven j = Inr d" for j d
    using that by (auto simp: parse_deven_def mk_date_def bind_res_eq_Inr Let_def split: if_splits)
  obtain r where r: "row = JObj r" using assms by (cases row) (auto simp: parse_row_def)
  from assms r obtain d fc where "parse_deven (json_get r ''dEven'') = Inr d" "d \<notin> set seen"
    "\<not> fle fc (Fin 0)" "trade_date b = d" "final_close b = fc"
    by (auto simp: parse_row_def Let_def bind_res_eq_Inr split: if_splits)
  with v show ?thesis by blast
qed

lemma parse_rows_facts:
  assumes "parse_rows repr acc rows = Inr bs"
  shows "length bs = length acc + length rows \<and> take (length acc) bs = acc \<and>
    (distinct (map trade_date acc) \<longrightarrow> distinct (map trade_date bs)) \<and>
    (\<forall>b\<in>set (drop (length acc) bs). valid_date (trade_date b) \<and> \<not> fle (final_close b) (Fin 0))"
  using assms
proof (induction rows arbitrary: acc)
  case (Cons row rows)
  then obtain b where b: "parse_row repr (map trade_date acc) row = Inr b"
    "parse_rows repr (acc @ [b]) rows = Inr bs" by (auto simp: bind_res_eq_Inr)
  note f = parse_row_facts [OF b(1)]
  note IH = Cons.IH [OF b(2)]
  have "take (length acc) bs = acc" using IH by (metis append_eq_conv_conj length_append take_take
    min.absorb1 le_add1 take_append append_take_drop_id)
  moreover have "drop (length acc) bs = b # drop (Suc (length acc)) bs"
  proof -
    have "bs ! length acc = b" "length acc < length bs" using IH
      by (metis length_append_singleton lessI nth_append_length nth_take) (use IH in simp)
    then show ?thesis by (metis Cons_nth_drop_Suc)
  qed
  ultimately show ?case using IH f by auto
qed simp

lemma sort_dates_strict:
  "distinct (map trade_date bs) \<Longrightarrow>
     sorted_wrt (\<lambda>a b. trade_date a < trade_date b) (sort_key trade_date bs)"
  by (rule sort_key_strict)

section \<open>The adjusted series\<close>

lemma back_factor_chain [simp]: "back_factor (chain_factors acts) d = back_factor acts d"
proof -
  have m: "map ratio (filter (\<lambda>a. d < effective_date a) (chain_factors acts)) =
      map ratio (filter (\<lambda>a. d < effective_date a) acts)"
    by (induction acts) (auto simp: chain_factors_Cons)
  have g: "fold (\<lambda>a running. fmul running (ratio a)) (rev xs) r =
      fold (\<lambda>q running. fmul running q) (rev (map ratio xs)) r" for xs r
    by (simp add: rev_map fold_map comp_def)
  show ?thesis by (simp only: back_factor_def g m)
qed

lemma adjust_cases:
  assumes "adjust bs ms mr g alts = Inr s"
  obtains os moves where "bars s = sort_key trade_date bs" "bs \<noteq> []"
    "detect_walk alts (bars s) = Inr os" "actions s = chain_factors (outcome_actions os)"
    "contested s = outcome_contested os"
    "pre_listing_bars s = first_traded_index (bars s)" "pre_listing_bars s < length (bars s)"
    "adjusted_closes s = apply_factors (traded_bars s) (actions s)"
    "session_moves (traded_bars s) (adjusted_closes s) g = Inr moves"
    "verdict s = validate moves ms mr g"
  using assms that
  by (auto simp: adjust_def detect_actions_def Let_def bind_res_eq_Inr map_res_eq_Inr traded_bars_def
    split: if_splits)

lemma adjust_back_factors:
  assumes "distinct (map trade_date bs)" "adjust bs ms mr g alts = Inr s"
  shows "adjusted_closes s =
    map (\<lambda>b. fmul (final_close b) (back_factor (actions s) (trade_date b))) (traded_bars s)"
proof -
  obtain os where s: "bars s = sort_key trade_date bs" "detect_walk alts (bars s) = Inr os"
    "actions s = chain_factors (outcome_actions os)"
    "adjusted_closes s = apply_factors (traded_bars s) (actions s)"
    using assms(2) by (rule adjust_cases)
  have strict: "sorted_wrt (\<lambda>a b. trade_date a < trade_date b) (bars s)"
    using sort_dates_strict [OF assms(1)] s(1) by simp
  have "sorted (map trade_date (traded_bars s))"
    unfolding traded_bars_def s(1) by (simp add: sorted_wrt_drop flip: drop_map)
  then show ?thesis
    using apply_factors_back [OF detect_ascending [OF s(2) strict]] s(3,4) by simp
qed

lemma fmul_1 [simp]: "is_double a \<Longrightarrow> fmul a (Fin 1) = a"
  by (cases a) (auto simp: signed_inf_def)

lemma session_moves_nth:
  assumes "session_moves bs xs g = Inr moves"
  shows "length moves = length bs - 1"
    and "Suc i < length bs \<Longrightarrow> Suc i < length xs \<and> moves ! i =
      \<lparr>mv_trade_date = trade_date (bs ! Suc i), mv_prev_trade_date = trade_date (bs ! i),
       gap_days = days_between (trade_date (bs ! Suc i)) (trade_date (bs ! i)),
       ret = fsub (fquot (xs ! Suc i) (xs ! i)) (Fin 1),
       is_session = (traded (bs ! Suc i) \<and> traded (bs ! i) \<and>
         days_between (trade_date (bs ! Suc i)) (trade_date (bs ! i)) \<le> g)\<rparr>"
  using assms
proof (induction bs xs g arbitrary: moves i rule: session_moves.induct)
  case (1 p c rest x y ys g)
  {
    case 1
    then show ?case using "1.IH"(1) by (auto simp: Let_def bind_res_eq_Inr map_res_eq_Inr)
  next
    case 2
    then show ?case using "1.IH"(2)
      by (cases i) (auto simp: Let_def bind_res_eq_Inr map_res_eq_Inr fdiv_def split: if_splits)
  }
qed auto

text \<open>The bound that applies to the step from bar \<open>i\<close> to the next one.\<close>

definition move_bound :: "bar list \<Rightarrow> nat \<Rightarrow> pyfloat \<Rightarrow> pyfloat \<Rightarrow> int \<Rightarrow> pyfloat" where
  "move_bound bs i max_session max_reopening gap_limit =
     (if traded (bs ! Suc i) \<and> traded (bs ! i) \<and>
         days_between (trade_date (bs ! Suc i)) (trade_date (bs ! i)) \<le> gap_limit
      then max_session else max_reopening)"

lemma validate_status:
  "status (validate moves ms mr g) = STATUS_VALIDATED \<longleftrightarrow>
     (\<forall>m\<in>set moves. \<not> flt (if is_session m then ms else mr) (fabs (ret m)))"
  by (auto simp: validate_def Let_def filter_empty_conv)

section \<open>Properties\<close>

text \<open>C14: The stored per-action factors give exactly the back-adjustment: every adjusted close
  is the raw close times the running product, multiplied newest first, of the ratios of the
  actions that take effect after the bar. The equality is bit for bit in binary64, which the
  code only checked numerically on one share.\<close>

theorem adjust_is_backward_walk:
  assumes "distinct (map trade_date bs)" "adjust bs ms mr g alts = Inr s"
  shows "adjusted_closes s =
    map (\<lambda>b. fmul (final_close b) (back_factor (actions s) (trade_date b))) (traded_bars s)"
  using assms by (rule adjust_back_factors)

definition demo_bar :: "int \<Rightarrow> rat \<Rightarrow> rat \<Rightarrow> bar" where
  "demo_bar d close yesterday = \<lparr>ins_code = ''IRO1'', trade_date = Date 2024 1 d, bar_open = Fin close,
     bar_high = Fin close, bar_low = Fin close, bar_close = Fin close, final_close = Fin close,
     price_yesterday = Fin yesterday, volume = 10, trade_count = 1, bar_value = Fin 1000\<rparr>"

definition demo_bars :: "bar list" where
  "demo_bars = [demo_bar 2 1000 0, demo_bar 3 510 500]"

lemma demo_distinct: "distinct (map trade_date demo_bars)"
  by (simp add: demo_bars_def demo_bar_def)

lemma demo_adjust:
  "map_res (\<lambda>s. (adjusted_closes s, status (verdict s)))
     (adjust demo_bars MAX_SESSION_RETURN MAX_REOPENING_RETURN SESSION_GAP_DAYS None) =
   Inr ([Fin 500, Fin 510], STATUS_VALIDATED)"
  by code_simp

lemma demo_series:
  obtains s where "adjust demo_bars MAX_SESSION_RETURN MAX_REOPENING_RETURN SESSION_GAP_DAYS None = Inr s"
    "adjusted_closes s = [Fin 500, Fin 510]" "status (verdict s) = STATUS_VALIDATED"
  using demo_adjust by (auto simp: map_res_eq_Inr)

theorem adjust_is_backward_walk_witness:
  "\<exists>s. adjusted_closes s = [Fin 500, Fin 510] \<and> adjusted_closes s =
    map (\<lambda>b. fmul (final_close b) (back_factor (actions s) (trade_date b))) (traded_bars s)"
proof -
  obtain s where s: "adjust demo_bars MAX_SESSION_RETURN MAX_REOPENING_RETURN SESSION_GAP_DAYS None = Inr s"
    "adjusted_closes s = [Fin 500, Fin 510]" by (rule demo_series)
  from adjust_is_backward_walk [OF demo_distinct s(1)] s(2) show ?thesis by metis
qed

text \<open>Today's adjusted close is today's real one: the newest bar of an adjusted series, and
  every bar on or after the last action, carries its raw close unchanged.\<close>

theorem newest_segment_raw:
  assumes "distinct (map trade_date bs)" "adjust bs ms mr g alts = Inr s"
    "i < length (traded_bars s)" "is_double (final_close (traded_bars s ! i))"
    "\<forall>a\<in>set (actions s). effective_date a \<le> trade_date (traded_bars s ! i)"
  shows "adjusted_closes s ! i = final_close (traded_bars s ! i)"
proof -
  have "filter (\<lambda>a. trade_date (traded_bars s ! i) < effective_date a) (actions s) = []"
    using assms(5) by (auto simp: filter_empty_conv not_less)
  then have "back_factor (actions s) (trade_date (traded_bars s ! i)) = Fin 1"
    by (simp add: back_factor_def)
  then show ?thesis using adjust_back_factors [OF assms(1,2)] assms(3,4) by simp
qed

lemma actions_not_after_last:
  assumes "adjust bs ms mr g alts = Inr s" "a \<in> set (actions s)"
  shows "effective_date a \<le> trade_date (last (bars s))"
proof -
  obtain os where s: "bars s = sort_key trade_date bs" "detect_walk alts (bars s) = Inr os"
    "actions s = chain_factors (outcome_actions os)" "bs \<noteq> []"
    using assms(1) by (rule adjust_cases)
  have "effective_date a \<in> set (map effective_date (outcome_actions os))"
    using assms(2) s(3) by (metis chain_factors_keeps(1) image_eqI list.set_map)
  then have "effective_date a \<in> set (map trade_date (tl (bars s)))"
    using list_emb_set [OF detect_dates [OF s(2)]] by auto
  then have "effective_date a \<in> set (map trade_date (bars s))"
    by (cases "bars s") auto
  then obtain i where i: "i < length (bars s)" "effective_date a = trade_date (bars s ! i)"
    by (auto simp: in_set_conv_nth)
  have "sorted (map trade_date (bars s))" by (simp add: s(1))
  then have "map trade_date (bars s) ! i \<le> map trade_date (bars s) ! (length (bars s) - 1)"
    using i by (intro sorted_nth_mono) auto
  moreover have "bars s \<noteq> []" using i(1) by auto
  ultimately show ?thesis using i by (simp add: last_conv_nth)
qed

theorem newest_segment_raw_witness:
  "\<exists>s. adjusted_closes s = [Fin 500, Fin 510] \<and>
    adjusted_closes s ! 1 = final_close (traded_bars s ! 1)"
proof -
  obtain s where s: "adjust demo_bars MAX_SESSION_RETURN MAX_REOPENING_RETURN SESSION_GAP_DAYS None = Inr s"
    "adjusted_closes s = [Fin 500, Fin 510]" by (rule demo_series)
  have b: "bars s = demo_bars" "traded_bars s = demo_bars"
    using s(1) by (auto elim!: adjust_cases simp: traded_bars_def demo_bars_def demo_bar_def
      traded_def less_eq_date_def)
  have "adjusted_closes s ! 1 = final_close (traded_bars s ! 1)"
    by (rule newest_segment_raw [OF demo_distinct s(1)])
      (use b actions_not_after_last [OF s(1)] in \<open>simp_all add: demo_bars_def demo_bar_def\<close>)
  with s(2) show ?thesis by metis
qed

text \<open>The breaks that another served copy excuses.\<close>

definition excused :: "alternatives option \<Rightarrow> bar \<Rightarrow> bar \<Rightarrow> bool" where
  "excused alts p c \<longleftrightarrow> traded p \<and> traded c \<and> chained_by_a_copy p c alts \<noteq> None"

lemma detect_pair_outcome:
  assumes "detect_pair alts p c = Inr r"
  shows "(\<exists>a. r = Action a) \<longleftrightarrow>
      \<not> feq (price_yesterday c) (final_close p) \<and> \<not> excused alts p c
      \<or> feq (price_yesterday c) (final_close p) \<and> \<not> traded c \<and> \<not> feq (final_close c) (price_yesterday c)"
    and "(\<exists>b. r = Contested b) \<longleftrightarrow> \<not> feq (price_yesterday c) (final_close p) \<and> excused alts p c"
    and "r = Contested b \<Longrightarrow> cb_effective_date b = trade_date c"
  using assms
  by (auto simp: detect_pair_def excused_def map_res_eq_Inr fdiv_positive split: if_splits option.splits)

lemma outcome_contested_set: "b \<in> set (outcome_contested os) \<longleftrightarrow> Contested b \<in> set os"
  by (induction os rule: outcome_contested.induct) auto

lemma detect_at_date:
  assumes "detect_walk alts bs = Inr os" "sorted_wrt (\<lambda>a b. trade_date a < trade_date b) bs"
    "Suc i < length bs" "os ! j = r" "j < length os"
    "(\<exists>a. r = Action a \<and> effective_date a = trade_date (bs ! Suc i)) \<or>
     (\<exists>b. r = Contested b \<and> cb_effective_date b = trade_date (bs ! Suc i))"
  shows "j = i"
proof -
  have j: "Suc j < length bs" using detect_walk_nth(1) [OF assms(1)] assms(5) by simp
  then have "detect_pair alts (bs ! j) (bs ! Suc j) = Inr r"
    using detect_walk_nth(2) [OF assms(1)] assms(4) by blast
  then have eq: "trade_date (bs ! Suc j) = trade_date (bs ! Suc i)"
    using assms(6) detect_pair_action detect_pair_outcome(3) by metis
  have "\<not> i < j" "\<not> j < i"
    using sorted_wrt_nth_less [OF assms(2), of "Suc i" "Suc j"]
      sorted_wrt_nth_less [OF assms(2), of "Suc j" "Suc i"] eq j assms(3) by auto
  then show ?thesis by simp
qed

text \<open>The detector is exhaustive. On bars in date order it reports an action for the day of a
  bar exactly when the bar's reference differs from the previous close, or the bar is a halt
  whose close differs from its own reference, unless another served copy chains two traded
  sessions; and it reports a contested break exactly in that exceptional case.\<close>

theorem detect_actions_exhaustive:
  assumes "sorted_wrt (\<lambda>a b. trade_date a < trade_date b) bs"
    "detect_actions bs alts = Inr (acts, cons)" "Suc i < length bs"
  shows "((\<exists>a\<in>set acts. effective_date a = trade_date (bs ! Suc i)) \<longleftrightarrow>
      (let p = bs ! i; c = bs ! Suc i in
        \<not> feq (price_yesterday c) (final_close p) \<and> \<not> excused alts p c
        \<or> feq (price_yesterday c) (final_close p) \<and> \<not> traded c \<and>
          \<not> feq (final_close c) (price_yesterday c))) \<and>
    ((\<exists>b\<in>set cons. cb_effective_date b = trade_date (bs ! Suc i)) \<longleftrightarrow>
      \<not> feq (price_yesterday (bs ! Suc i)) (final_close (bs ! i)) \<and> excused alts (bs ! i) (bs ! Suc i))"
proof -
  obtain os where os: "detect_walk alts bs = Inr os" "acts = outcome_actions os" "cons = outcome_contested os"
    using assms(2) by (auto simp: detect_actions_def map_res_eq_Inr)
  have i: "i < length os" using detect_walk_nth(1) [OF os(1)] assms(3) by simp
  have p: "detect_pair alts (bs ! i) (bs ! Suc i) = Inr (os ! i)"
    by (rule detect_walk_nth(2) [OF os(1) assms(3)])
  have "(\<exists>a\<in>set acts. effective_date a = trade_date (bs ! Suc i)) \<longleftrightarrow> (\<exists>a. os ! i = Action a)"
  proof
    assume "\<exists>a\<in>set acts. effective_date a = trade_date (bs ! Suc i)"
    then obtain a where a: "Action a \<in> set os" "effective_date a = trade_date (bs ! Suc i)"
      by (auto simp: os(2) outcome_actions_set)
    then obtain j where "j < length os" "os ! j = Action a" by (meson in_set_conv_nth)
    with a detect_at_date [OF os(1) assms(1,3), of j "Action a"] show "\<exists>a. os ! i = Action a" by auto
  next
    assume "\<exists>a. os ! i = Action a"
    then obtain a where a: "os ! i = Action a" by blast
    then have "a \<in> set acts" using i by (metis os(2) outcome_actions_set nth_mem)
    with a p detect_pair_action show "\<exists>a\<in>set acts. effective_date a = trade_date (bs ! Suc i)" by metis
  qed
  moreover have "(\<exists>b\<in>set cons. cb_effective_date b = trade_date (bs ! Suc i)) \<longleftrightarrow> (\<exists>b. os ! i = Contested b)"
  proof
    assume "\<exists>b\<in>set cons. cb_effective_date b = trade_date (bs ! Suc i)"
    then obtain b where b: "Contested b \<in> set os" "cb_effective_date b = trade_date (bs ! Suc i)"
      by (auto simp: os(3) outcome_contested_set)
    then obtain j where "j < length os" "os ! j = Contested b" by (meson in_set_conv_nth)
    with b detect_at_date [OF os(1) assms(1,3), of j "Contested b"] show "\<exists>b. os ! i = Contested b" by auto
  next
    assume "\<exists>b. os ! i = Contested b"
    then obtain b where b: "os ! i = Contested b" by blast
    then have "b \<in> set cons" using i by (metis os(3) outcome_contested_set nth_mem)
    with b p detect_pair_outcome(3) show "\<exists>b\<in>set cons. cb_effective_date b = trade_date (bs ! Suc i)" by metis
  qed
  ultimately show ?thesis
    using detect_pair_outcome(1,2) [OF p] by (simp add: Let_def)
qed

theorem detect_actions_exhaustive_witness:
  "\<exists>acts cons. detect_actions demo_bars None = Inr (acts, cons) \<and>
    (\<exists>a\<in>set acts. effective_date a = Date 2024 1 3)"
proof -
  have s: "sorted_wrt (\<lambda>a b. trade_date a < trade_date b) demo_bars"
    by (simp add: demo_bars_def demo_bar_def less_date_def)
  have "is_ok (detect_actions demo_bars None)" by code_simp
  then obtain acts cons where d: "detect_actions demo_bars None = Inr (acts, cons)"
    by (cases "detect_actions demo_bars None") auto
  from detect_actions_exhaustive [OF s d, of 0] d show ?thesis
    by (simp add: demo_bars_def demo_bar_def excused_def chained_by_a_copy_def)
qed

text \<open>C38: The gate decides exactly by the moves of the adjusted series: it validates the series
  iff no step between neighbouring bars of the traded span exceeds the bound of its kind, the
  session bound when both bars traded and lie within the gap limit, the reopening bound
  otherwise.\<close>

theorem gate_exact:
  assumes "adjust bs ms mr g alts = Inr s"
  shows "status (verdict s) = STATUS_VALIDATED \<longleftrightarrow>
    (\<forall>i. Suc i < length (traded_bars s) \<longrightarrow>
      \<not> flt (move_bound (traded_bars s) i ms mr g)
        (fabs (fsub (fquot (adjusted_closes s ! Suc i) (adjusted_closes s ! i)) (Fin 1))))"
proof -
  obtain moves where m: "session_moves (traded_bars s) (adjusted_closes s) g = Inr moves"
    "verdict s = validate moves ms mr g" using assms by (rule adjust_cases)
  have "(\<forall>mv\<in>set moves. \<not> flt (if is_session mv then ms else mr) (fabs (ret mv))) \<longleftrightarrow>
      (\<forall>i. Suc i < length (traded_bars s) \<longrightarrow>
        \<not> flt (if is_session (moves ! i) then ms else mr) (fabs (ret (moves ! i))))"
    using session_moves_nth(1) [OF m(1)] by (auto simp: all_set_conv_all_nth)
  also have "\<dots> \<longleftrightarrow> (\<forall>i. Suc i < length (traded_bars s) \<longrightarrow>
      \<not> flt (move_bound (traded_bars s) i ms mr g)
        (fabs (fsub (fquot (adjusted_closes s ! Suc i) (adjusted_closes s ! i)) (Fin 1))))"
    using session_moves_nth(2) [OF m(1)] by (simp add: move_bound_def)
  finally show ?thesis by (simp add: m(2) validate_status)
qed

theorem gate_exact_witness:
  "\<exists>s. status (verdict s) = STATUS_VALIDATED \<and>
    \<not> flt (move_bound (traded_bars s) 0 MAX_SESSION_RETURN MAX_REOPENING_RETURN SESSION_GAP_DAYS)
        (fabs (fsub (fquot (Fin 510) (Fin 500)) (Fin 1)))"
proof -
  obtain s where s: "adjust demo_bars MAX_SESSION_RETURN MAX_REOPENING_RETURN SESSION_GAP_DAYS None = Inr s"
    "adjusted_closes s = [Fin 500, Fin 510]" "status (verdict s) = STATUS_VALIDATED" by (rule demo_series)
  have "length (adjusted_closes s) = length (traded_bars s)" using s(1) by (auto elim!: adjust_cases)
  then have "Suc 0 < length (traded_bars s)" using s(2) by simp
  with gate_exact [OF s(1)] s(2,3) show ?thesis by (metis nth_Cons_0 nth_Cons_Suc)
qed

text \<open>A payload that is accepted gives one bar per row, of one instrument (the one asked
  for, when one was), on strictly increasing valid dates, and no close that compares as zero
  or less.\<close>

theorem parse_daily_list_spec:
  assumes "parse_daily_list repr payload ins = Inr bs"
  shows "bs \<noteq> [] \<and> sorted_wrt (\<lambda>a b. trade_date a < trade_date b) bs \<and>
    (\<forall>b\<in>set bs. valid_date (trade_date b) \<and> \<not> fle (final_close b) (Fin 0) \<and>
       ins_code b = ins_code (hd bs) \<and> (ins \<noteq> [] \<longrightarrow> ins_code b = py_strip ins)) \<and>
    (\<exists>p rows. payload = JObj p \<and> json_get p ''closingPriceDaily'' = JList rows \<and>
       length bs = length rows)"
proof -
  obtain p rows acc code where p: "payload = JObj p" "json_get p ''closingPriceDaily'' = JList rows"
    "rows \<noteq> []" "parse_rows repr [] rows = Inr acc" "remdups (map ins_code acc) = [code]"
    "\<not> (ins \<noteq> [] \<and> code \<noteq> py_strip ins)" "bs = sort_key trade_date acc"
    using assms
    by (auto simp: parse_daily_list_def bind_res_eq_Inr Let_def length_Suc_conv
      split: json.splits if_splits)
  note f = parse_rows_facts [OF p(4)]
  have c: "ins_code b = code" if "b \<in> set acc" for b
  proof -
    have "ins_code b \<in> set (remdups (map ins_code acc))" using that by simp
    then show ?thesis by (simp add: p(5))
  qed
  have ne: "bs \<noteq> []" using f p(3,7) by (metis length_0_conv length_sort add_0 list.size(3))
  have "hd bs \<in> set acc" using ne p(7) by (metis hd_in_set set_sort)
  then show ?thesis
    using f c p ne sort_dates_strict [of acc] by auto
qed

definition demo_row :: "int \<Rightarrow> json \<Rightarrow> json" where
  "demo_row d close = JObj [(''dEven'', JInt d), (''insCode'', JStr ''IRO1''), (''priceYesterday'', JInt 1000),
     (''priceFirst'', JInt 1000), (''priceMin'', JInt 1000), (''priceMax'', JInt 1000),
     (''pClosing'', close), (''pDrCotVal'', JInt 1000), (''qTotTran5J'', JInt 10),
     (''zTotTran'', JInt 2), (''qTotCap'', JInt 10000)]"

definition demo_payload :: "json \<Rightarrow> json" where
  "demo_payload close = JObj [(''closingPriceDaily'',
     JList [demo_row 20240103 close, demo_row 20240102 (JInt 1000)])]"

theorem parse_daily_list_spec_witness:
  "\<exists>bs. parse_daily_list (\<lambda>_. []) (demo_payload (JInt 1010)) ''IRO1'' = Inr bs \<and> bs \<noteq> []"
proof -
  have "is_ok (parse_daily_list (\<lambda>_. []) (demo_payload (JInt 1010)) ''IRO1'')" by code_simp
  then obtain bs where "parse_daily_list (\<lambda>_. []) (demo_payload (JInt 1010)) ''IRO1'' = Inr bs"
    by (cases "parse_daily_list (\<lambda>_. []) (demo_payload (JInt 1010)) ''IRO1''") auto
  with parse_daily_list_spec show ?thesis by blast
qed

text \<open>A close that is not a number is neither zero nor less, and no comparison with a NaN return
  is true: such a payload is accepted and the series it gives is validated.\<close>

theorem nan_close_is_validated:
  "map_res (\<lambda>s. (adjusted_closes s, status (verdict s)))
     (adjust_payload (\<lambda>_. []) (demo_payload (JFloat NaN)) ''IRO1''
        MAX_SESSION_RETURN MAX_REOPENING_RETURN SESSION_GAP_DAYS) =
   Inr ([Fin 1000, NaN], STATUS_VALIDATED)"
  by code_simp

end
