(* ===== verification/Registry.thy ===== *)
theory Registry
  imports Calendar PyFloat PyString "HOL-Library.Product_Lexorder" "HOL-Library.List_Lexorder"
    "HOL-Library.Char_ord" "HOL-Library.Multiset"
begin

text \<open>
  \<^verbatim>\<open>app/providers/registry.py\<close>: which provider class a code builds, the circuit breaker, the
  ordered list of providers a pass may use, and the health bookkeeping. The table
  \<^verbatim>\<open>data_providers\<close> is a list of rows with distinct codes; the database's collation of codes
  is a parameter.

  Shown: the breaker is open exactly while the cooldown, which doubles from five minutes at the fifth
  failure to at most an hour, runs since the last error; the first success closes it; the rows offered are
  exactly the enabled ones with a closed breaker, in priority order; the failure counter is
  the number of failures since the last success.
\<close>

section \<open>Construction\<close>

record provider_settings =
  brsapi_api_key :: string
  navasan_api_key :: string
  metals_dev_api_key :: string

datatype provider_class =
    TGJUProvider | AlanchandProvider | BitmaxProvider | HamrahGoldProvider | MilligoldProvider
  | YahooProvider | StooqProvider | PriceDBProvider | GoldAPIProvider | BrsApiProvider
  | TSEFundsProvider | WorldBankProvider | IMFWeoProvider | NavasanProvider | MetalsDevProvider

definition build_provider :: "string \<Rightarrow> provider_settings \<Rightarrow> provider_class option" where
  "build_provider code s =
     (if code = ''tgju'' then Some TGJUProvider
      else if code = ''alanchand'' then Some AlanchandProvider
      else if code = ''bitmax'' then Some BitmaxProvider
      else if code = ''hamrahgold'' then Some HamrahGoldProvider
      else if code = ''milligold'' then Some MilligoldProvider
      else if code = ''yahoo'' then Some YahooProvider
      else if code = ''stooq'' then Some StooqProvider
      else if code = ''pricedb'' then Some PriceDBProvider
      else if code = ''gold_api'' then Some GoldAPIProvider
      else if code = ''brsapi'' then
        (if brsapi_api_key s = [] then None else Some BrsApiProvider)
      else if code = ''tse_funds'' then
        (if brsapi_api_key s = [] then None else Some TSEFundsProvider)
      else if code = ''worldbank'' then Some WorldBankProvider
      else if code = ''imf_weo'' then Some IMFWeoProvider
      else if code = ''navasan'' then
        (if navasan_api_key s = [] then None else Some NavasanProvider)
      else if code = ''metals_dev'' then
        (if metals_dev_api_key s = [] then None else Some MetalsDevProvider)
      else None)"

section \<open>Rows and the breaker\<close>

record provider_row =
  code :: string
  provider_name :: string
  category :: string
  priority :: int
  enabled :: bool
  last_success_at :: "pydatetime option"
  last_error_at :: "pydatetime option"
  last_error :: "string option"
  consecutive_failures :: int
  updated_at :: "pydatetime option"

definition UNHEALTHY_AFTER_FAILURES :: int where "UNHEALTHY_AFTER_FAILURES = 3"
definition BREAKER_THRESHOLD :: int where "BREAKER_THRESHOLD = 5"
definition BREAKER_BASE_MINUTES :: int where "BREAKER_BASE_MINUTES = 5"
definition BREAKER_MAX_MINUTES :: int where "BREAKER_MAX_MINUTES = 60"

text \<open>The Python value is an integer converted to float; it is at most 60, so the conversion is exact.\<close>

definition breaker_cooldown_minutes :: "int \<Rightarrow> pyfloat" where
  "breaker_cooldown_minutes failures =
     (if failures < BREAKER_THRESHOLD then Fin 0
      else let over = failures - BREAKER_THRESHOLD in
        rnd (of_int (min (BREAKER_BASE_MINUTES * 2 ^ nat (min over 10)) BREAKER_MAX_MINUTES)))"

definition breaker_open :: "int \<Rightarrow> provider_row \<Rightarrow> pydatetime option \<Rightarrow> bool" where
  "breaker_open clock row now =
     (let cooldown = breaker_cooldown_minutes (consecutive_failures row) in
      if fle cooldown (Fin 0) then False
      else case (case last_error_at row of None \<Rightarrow> updated_at row | Some e \<Rightarrow> Some e) of
        None \<Rightarrow> False
      | Some e \<Rightarrow>
          let now_utc = (case now of None \<Rightarrow> clock | Some n \<Rightarrow> ensure_utc n)
          in flt (rnd (of_int (now_utc - ensure_utc e) / 10 ^ 6)) (fmul cooldown (lit 60)))"

definition load_provider_rows ::
  "(string \<Rightarrow> string) \<Rightarrow> int \<Rightarrow> string list option \<Rightarrow> provider_row list \<Rightarrow> provider_row list" where
  "load_provider_rows collate clock categories table =
     (let rows = filter enabled table;
          rows = (case categories of None \<Rightarrow> rows
                  | Some cs \<Rightarrow> if cs = [] then rows else filter (\<lambda>r. category r \<in> set cs) rows);
          rows = sort_key (\<lambda>r. (priority r, collate (code r))) rows
      in filter (\<lambda>r. \<not> breaker_open clock r None) rows)"

definition record_success :: "int \<Rightarrow> string \<Rightarrow> provider_row list \<Rightarrow> provider_row list" where
  "record_success clock c table =
     map (\<lambda>r. if code r = c then r\<lparr>last_success_at := Some (Naive clock), consecutive_failures := 0,
            last_error := None, updated_at := Some (Naive clock)\<rparr> else r) table"

definition record_failure :: "int \<Rightarrow> string \<Rightarrow> string \<Rightarrow> provider_row list \<Rightarrow> provider_row list" where
  "record_failure clock c err table =
     map (\<lambda>r. if code r = c then r\<lparr>last_error_at := Some (Naive clock), last_error := Some (take 2000 err),
            consecutive_failures := consecutive_failures r + 1, updated_at := Some (Naive clock)\<rparr>
          else r) table"

record health =
  h_code :: string
  h_name :: string
  h_category :: string
  h_enabled :: bool
  h_priority :: int
  healthy :: bool
  h_last_success :: "int option"
  h_failures :: int
  h_last_error :: "string option"

definition providers_health :: "(string \<Rightarrow> string) \<Rightarrow> provider_row list \<Rightarrow> health list" where
  "providers_health collate table =
     map (\<lambda>m. \<lparr>h_code = code m, h_name = provider_name m, h_category = category m,
              h_enabled = enabled m, h_priority = priority m,
              healthy = (enabled m \<and> consecutive_failures m < UNHEALTHY_AFTER_FAILURES),
              h_last_success = map_option ensure_utc (last_success_at m),
              h_failures = consecutive_failures m, h_last_error = last_error m\<rparr>)
       (sort_key (\<lambda>r. (priority r, collate (code r))) table)"

section \<open>The cooldown\<close>

definition cooldown_int :: "int \<Rightarrow> int" where
  "cooldown_int failures = (if failures < 5 then 0 else min (5 * 2 ^ nat (min (failures - 5) 10)) 60)"

lemma cooldown_int_range: "0 \<le> cooldown_int f" "cooldown_int f \<le> 60"
  by (auto simp: cooldown_int_def)

lemma cooldown_value: "breaker_cooldown_minutes f = Fin (of_int (cooldown_int f))"
proof -
  have "rnd (of_int (cooldown_int f)) = Fin (of_int (cooldown_int f))"
    using cooldown_int_range [of f] by (intro rnd_of_int) simp
  then show ?thesis
    by (cases "f < 5") (simp_all only: breaker_cooldown_minutes_def cooldown_int_def BREAKER_THRESHOLD_def
        BREAKER_BASE_MINUTES_def BREAKER_MAX_MINUTES_def Let_def if_True if_False of_int_0)
qed

lemma cooldown_int_mono:
  assumes "a \<le> b"
  shows "cooldown_int a \<le> cooldown_int b"
proof (cases "a < 5")
  case True
  then show ?thesis using cooldown_int_range(1) [of b] by (simp add: cooldown_int_def)
next
  case False
  define A B :: int where "A = 2 ^ nat (min (a - 5) 10)" and "B = 2 ^ nat (min (b - 5) 10)"
  have "A \<le> B" unfolding A_def B_def using assms by (intro power_increasing) auto
  moreover have "cooldown_int a = min (5 * A) 60" "cooldown_int b = min (5 * B) 60"
    using False assms by (simp_all add: cooldown_int_def A_def B_def)
  ultimately show ?thesis by simp
qed

text \<open>The seconds since the last error are rounded, but never up to a whole number of minutes.\<close>

lemma rnd_halves: "rnd x = Fin x \<Longrightarrow> 2 ^ n \<le> x \<Longrightarrow> rnd (x / 2 ^ n) = Fin (x / 2 ^ n)"
proof (induction n)
  case (Suc n)
  have "(0 :: rat) < 2 ^ n" by simp
  then have "2 ^ n \<le> x" using Suc.prems(2) unfolding power_Suc by linarith
  then have "rnd (x / 2 ^ n) = Fin (x / 2 ^ n)" using Suc by blast
  moreover have "1 \<le> x / 2 ^ n" using Suc.prems(2) \<open>2 ^ n \<le> x\<close> by simp
  ultimately have "rnd (x / 2 ^ n) = Fin (x / 2 ^ n)" "1 \<le> x / 2 ^ n" by simp_all
  from rnd_half [OF this] show ?case by (simp add: field_simps)
qed simp

lemma rounded_seconds_below:
  assumes "d < c * 10 ^ 6" and "2 \<le> c" and "c \<le> 3600"
  shows "flt (rnd (of_int d / 10 ^ 6)) (Fin (of_int c))"
proof -
  let ?x = "of_int (c * 2 ^ 20 - 1) :: rat"
  have "rnd ?x = Fin ?x" by (rule rnd_of_int) (use assms(2,3) in simp)
  moreover have "2 ^ 20 \<le> ?x" using assms(2) by simp
  ultimately have y: "rnd (?x / 2 ^ 20) = Fin (?x / 2 ^ 20)" by (rule rnd_halves)
  have "d \<le> c * 1000000 - 1" using assms(1) by simp
  then have "(of_int d :: rat) \<le> of_int (c * 1000000 - 1)" by (simp only: of_int_le_iff)
  then have "(of_int d / 10 ^ 6 :: rat) \<le> ?x / 2 ^ 20" by (simp add: field_simps)
  from rnd_fle [OF this] have "fle (rnd (of_int d / 10 ^ 6)) (Fin (?x / 2 ^ 20))" by (simp only: y)
  moreover have "?x / 2 ^ 20 < of_int c" by (simp add: field_simps)
  ultimately show ?thesis by (cases "rnd (of_int d / 10 ^ 6 :: rat)") (auto simp: fle_def feq_def)
qed

definition last_error_stamp :: "provider_row \<Rightarrow> pydatetime option" where
  "last_error_stamp row = (case last_error_at row of None \<Rightarrow> updated_at row | Some e \<Rightarrow> Some e)"

definition breaker_now :: "int \<Rightarrow> pydatetime option \<Rightarrow> int" where
  "breaker_now clock now = (case now of None \<Rightarrow> clock | Some n \<Rightarrow> ensure_utc n)"

lemma cooldown_int_next:
  assumes "5 \<le> f"
  shows "cooldown_int (f + 1) = min (2 * cooldown_int f) 60"
proof (cases "f < 15")
  case True
  define p :: int where "p = 2 ^ nat (min (f - 5) 10)"
  have n: "nat (min (f + 1 - 5) 10) = Suc (nat (min (f - 5) 10))" using assms True by simp
  have "cooldown_int (f + 1) = min (5 * 2 ^ nat (min (f + 1 - 5) 10)) 60" using assms by (simp add: cooldown_int_def)
  then have "cooldown_int (f + 1) = min (5 * (2 * p)) 60" unfolding n p_def power_Suc .
  moreover have "cooldown_int f = min (5 * p) 60" using assms by (simp add: cooldown_int_def p_def)
  ultimately show ?thesis by simp
next
  case False
  then show ?thesis by (simp add: cooldown_int_def min_def)
qed

lemma cooldown_int_least: "5 \<le> f \<Longrightarrow> 5 \<le> cooldown_int f"
  using one_le_power [of "2 :: int" "nat (min (f - 5) 10)"] by (simp add: cooldown_int_def)

lemma breaker_open_exact:
  "breaker_open clock row now \<longleftrightarrow> 5 \<le> consecutive_failures row \<and>
     (\<exists>e. last_error_stamp row = Some e \<and>
       breaker_now clock now - ensure_utc e < cooldown_int (consecutive_failures row) * minute_us)"
proof (cases "5 \<le> consecutive_failures row")
  case False
  then show ?thesis by (simp add: breaker_open_def cooldown_value cooldown_int_def)
next
  case True
  let ?c = "cooldown_int (consecutive_failures row)"
  have c: "5 \<le> ?c" "?c \<le> 60" using cooldown_int_least [OF True] cooldown_int_range(2) by simp_all
  have prod: "fmul (Fin (of_int ?c)) (lit 60) = Fin (of_int (?c * 60))"
    using rnd_of_int [of "?c * 60"] c by (simp add: lit_def)
  have open_iff: "flt (rnd (of_int d / 10 ^ 6)) (Fin (of_int (?c * 60))) \<longleftrightarrow> d < ?c * minute_us" for d
  proof
    show "flt (rnd (of_int d / 10 ^ 6)) (Fin (of_int (?c * 60)))" if "d < ?c * minute_us"
      using that c by (intro rounded_seconds_below) simp_all
    assume l: "flt (rnd (of_int d / 10 ^ 6)) (Fin (of_int (?c * 60)))"
    show "d < ?c * minute_us"
    proof (rule ccontr)
      assume "\<not> d < ?c * minute_us"
      then have "?c * 60 * 1000000 \<le> d" by simp
      then have "(of_int (?c * 60 * 1000000) :: rat) \<le> of_int d" by (simp only: of_int_le_iff)
      then have "of_int (?c * 60) \<le> (of_int d / 10 ^ 6 :: rat)" by (simp add: le_divide_eq)
      from rnd_ge_int [OF this] c have "fle (Fin (of_int (?c * 60))) (rnd (of_int d / 10 ^ 6))" by simp
      with l show False using flt_not_fle by blast
    qed
  qed
  have pos: "\<not> fle (Fin (of_int ?c)) (Fin 0)" using c(1) by simp
  have "breaker_open clock row now = (case last_error_stamp row of None \<Rightarrow> False | Some e \<Rightarrow>
      flt (rnd (of_int (breaker_now clock now - ensure_utc e) / 10 ^ 6)) (Fin (of_int (?c * 60))))"
    unfolding breaker_open_def cooldown_value Let_def prod last_error_stamp_def breaker_now_def by (simp only: pos if_False)
  then show ?thesis using True by (simp only: open_iff) (simp split: option.splits)
qed

section \<open>The failure counter as an interface\<close>

datatype 'e outcome = Success int | Failure int 'e

locale failure_counter =
  fixes inv :: "'s \<Rightarrow> bool" and ok :: "int \<Rightarrow> 's \<Rightarrow> 's"
    and fail :: "int \<Rightarrow> 'e \<Rightarrow> 's \<Rightarrow> 's" and fails :: "'s \<Rightarrow> int"
  assumes inv_ok: "inv s \<Longrightarrow> inv (ok t s)"
    and inv_fail: "inv s \<Longrightarrow> inv (fail t e s)"
    and ok_resets: "inv s \<Longrightarrow> fails (ok t s) = 0"
    and fail_counts: "inv s \<Longrightarrow> fails (fail t e s) = fails s + 1"
begin

fun apply_outcome :: "'s \<Rightarrow> 'e outcome \<Rightarrow> 's" where
  "apply_outcome s (Success t) = ok t s"
| "apply_outcome s (Failure t e) = fail t e s"

lemma inv_run: "inv s \<Longrightarrow> inv (foldl apply_outcome s os)"
proof (induction os arbitrary: s)
  case (Cons o' os)
  then show ?case by (cases o') (simp_all add: inv_ok inv_fail)
qed simp

lemma failures_only:
  "inv s \<Longrightarrow> \<forall>o'\<in>set os. \<exists>t e. o' = Failure t e \<Longrightarrow>
     fails (foldl apply_outcome s os) = fails s + int (length os)"
  by (induction os arbitrary: s) (auto simp: fail_counts inv_fail)

lemma fails_since_success:
  assumes "inv s" "\<forall>o'\<in>set os2. \<exists>t e. o' = Failure t e"
  shows "fails (foldl apply_outcome s (os1 @ Success t # os2)) = int (length os2)"
  using failures_only [OF inv_ok [OF inv_run [OF assms(1)]] assms(2)] inv_run [OF assms(1)]
  by (simp add: ok_resets)

end

text \<open>The counter of one provider's row, and its bookkeeping as the model's updates of a table that
  has the row.\<close>

definition failures_of :: "string \<Rightarrow> provider_row list \<Rightarrow> int" where
  "failures_of c table = (case filter (\<lambda>r. code r = c) table of [] \<Rightarrow> 0 | r # _ \<Rightarrow> consecutive_failures r)"

lemma filter_code_update:
  assumes "\<And>r. code (f r) = code r"
  shows "filter (\<lambda>r. code r = c) (map (\<lambda>r. if code r = d then f r else r) table) =
    map (\<lambda>r. if code r = d then f r else r) (filter (\<lambda>r. code r = c) table)"
  using assms by (induction table) auto

lemma filter_code: "r \<in> set (filter (\<lambda>r. code r = c) table) \<Longrightarrow> code r = c"
  by auto

lemma failures_after_success:
  "c \<in> code ` set table \<Longrightarrow> failures_of c (record_success t c table) = 0"
proof -
  assume "c \<in> code ` set table"
  then have "filter (\<lambda>r. code r = c) table \<noteq> []" by (auto simp: filter_empty_conv)
  then obtain r rs where f: "filter (\<lambda>r. code r = c) table = r # rs" by (meson list.exhaust)
  then have "code r = c" using filter_code [of r c table] by simp
  then show ?thesis by (simp add: failures_of_def record_success_def filter_code_update f)
qed

lemma failures_after_failure:
  "c \<in> code ` set table \<Longrightarrow> failures_of c (record_failure t c e table) = failures_of c table + 1"
proof -
  assume "c \<in> code ` set table"
  then have "filter (\<lambda>r. code r = c) table \<noteq> []" by (auto simp: filter_empty_conv)
  then obtain r rs where f: "filter (\<lambda>r. code r = c) table = r # rs" by (meson list.exhaust)
  then have "code r = c" using filter_code [of r c table] by simp
  then show ?thesis by (simp add: failures_of_def record_failure_def filter_code_update f)
qed

lemma codes_kept:
  "map code (record_success t c table) = map code table"
  "map code (record_failure t c e table) = map code table"
  by (auto simp: record_success_def record_failure_def)

lemma code_set_kept [simp]:
  "code ` set (record_success t c table) = code ` set table"
  "code ` set (record_failure t c e table) = code ` set table"
  by (metis codes_kept(1) list.set_map, metis codes_kept(2) list.set_map)

definition apply_to_table :: "string \<Rightarrow> provider_row list \<Rightarrow> string outcome \<Rightarrow> provider_row list" where
  "apply_to_table c table o' =
     (case o' of Success t \<Rightarrow> record_success t c table | Failure t e \<Rightarrow> record_failure t c e table)"

interpretation counter: failure_counter
  "\<lambda>table. c \<in> code ` set table" "\<lambda>t. record_success t c" "\<lambda>t e. record_failure t c e" "failures_of c"
  by unfold_locales (simp_all add: failures_after_success failures_after_failure)

lemma counter_apply: "counter.apply_outcome c = apply_to_table c"
proof (intro ext)
  show "counter.apply_outcome c table o' = apply_to_table c table o'" for table o'
    by (cases o') (simp_all add: apply_to_table_def)
qed

section \<open>Properties\<close>

lemma success_closes:
  "r \<in> set (record_success t c table) \<Longrightarrow> code r = c \<Longrightarrow> consecutive_failures r = 0 \<and> \<not> breaker_open clock r now"
proof -
  assume "r \<in> set (record_success t c table)" and r: "code r = c"
  then obtain x where x: "r = (if code x = c then x\<lparr>last_success_at := Some (Naive t), consecutive_failures := 0,
      last_error := None, updated_at := Some (Naive t)\<rparr> else x)" unfolding record_success_def set_map by blast
  have "code x = c" using x r by (metis (full_types))
  then have "consecutive_failures r = 0" using x by simp
  moreover from this have "\<not> breaker_open clock r now" unfolding breaker_open_exact by simp
  ultimately show ?thesis by (rule conjI)
qed

text \<open>C36: A provider is skipped exactly while fewer minutes than its cooldown have passed since its last error.
  The cooldown is nothing below five failures in a row, at the fifth it is five minutes, it doubles with every
  further failure and is never more than an hour; so no provider is parked for good, and a breaker that is
  open is closed by the first success, whatever the clock then reads.\<close>

theorem breaker_never_permanent:
  "(breaker_open clock row now \<longleftrightarrow> BREAKER_THRESHOLD \<le> consecutive_failures row \<and>
     (\<exists>e. last_error_stamp row = Some e \<and>
       breaker_now clock now - ensure_utc e < cooldown_int (consecutive_failures row) * minute_us)) \<and>
   breaker_cooldown_minutes f = Fin (of_int (cooldown_int f)) \<and>
   (f < BREAKER_THRESHOLD \<longrightarrow> cooldown_int f = 0) \<and> cooldown_int BREAKER_THRESHOLD = 5 \<and>
   (BREAKER_THRESHOLD \<le> f \<longrightarrow> cooldown_int (f + 1) = min (2 * cooldown_int f) 60) \<and>
   (r \<in> set (record_success t c table) \<and> code r = c \<longrightarrow> consecutive_failures r = 0 \<and> \<not> breaker_open clock r now)"
proof (intro conjI)
  show "breaker_open clock row now \<longleftrightarrow> BREAKER_THRESHOLD \<le> consecutive_failures row \<and>
     (\<exists>e. last_error_stamp row = Some e \<and>
       breaker_now clock now - ensure_utc e < cooldown_int (consecutive_failures row) * minute_us)"
    unfolding BREAKER_THRESHOLD_def by (rule breaker_open_exact)
  show "f < BREAKER_THRESHOLD \<longrightarrow> cooldown_int f = 0" by (simp add: cooldown_int_def BREAKER_THRESHOLD_def)
  show "cooldown_int BREAKER_THRESHOLD = 5" by (simp add: cooldown_int_def BREAKER_THRESHOLD_def)
  show "BREAKER_THRESHOLD \<le> f \<longrightarrow> cooldown_int (f + 1) = min (2 * cooldown_int f) 60"
    using cooldown_int_next by (simp add: BREAKER_THRESHOLD_def)
  show "breaker_cooldown_minutes f = Fin (of_int (cooldown_int f))" by (rule cooldown_value)
  show "r \<in> set (record_success t c table) \<and> code r = c \<longrightarrow> consecutive_failures r = 0 \<and> \<not> breaker_open clock r now"
    using success_closes by blast
qed

definition failing_provider :: provider_row where
  "failing_provider = \<lparr>code = ''tgju'', provider_name = ''TGJU'', category = ''iran_gold'', priority = 10,
     enabled = True, last_success_at = None, last_error_at = None, last_error = None,
     consecutive_failures = 4, updated_at = None\<rparr>"

text \<open>The fifth failure opens the breaker for five minutes, the success after it closes it at once.\<close>

theorem breaker_never_permanent_witness:
  "let failed = record_failure 0 ''tgju'' ''timeout'' [failing_provider];
       cured = record_success minute_us ''tgju'' failed
   in breaker_open (5 * minute_us - 1) (hd failed) None \<and> \<not> breaker_open (5 * minute_us) (hd failed) None \<and>
      \<not> breaker_open minute_us (hd cured) None"
proof -
  define row where "row = failing_provider\<lparr>last_error_at := Some (Naive 0), last_error := Some ''timeout'',
      consecutive_failures := 5, updated_at := Some (Naive 0)\<rparr>"
  have f: "record_failure 0 ''tgju'' ''timeout'' [failing_provider] = [row]"
    by (simp add: record_failure_def failing_provider_def row_def)
  have r: "consecutive_failures row = 5" "last_error_stamp row = Some (Naive 0)" "code row = ''tgju''"
    by (simp_all add: row_def last_error_stamp_def failing_provider_def)
  have five: "cooldown_int 5 = 5" by (simp add: cooldown_int_def)
  have b: "breaker_open t row None \<longleftrightarrow> t < 5 * minute_us" for t
    using breaker_never_permanent [THEN conjunct1, of t row None] five
    by (simp add: r BREAKER_THRESHOLD_def breaker_now_def)
  define cured where "cured = record_success minute_us ''tgju'' [row]"
  have "hd cured \<in> set cured" "code (hd cured) = ''tgju''" by (simp_all add: cured_def record_success_def r)
  then have "\<not> breaker_open minute_us (hd cured) None"
    using breaker_never_permanent [where r = "hd cured" and t = minute_us and c = "''tgju''" and table = "[row]"] unfolding cured_def by blast
  then show ?thesis unfolding f Let_def list.sel cured_def by (simp only: b) simp
qed

text \<open>The rows a pass is offered are exactly the enabled rows of the asked categories whose
  breaker is closed, each as often as it is in the table, in ascending order of priority and
  then of code.\<close>

theorem load_provider_rows_spec:
  "sorted (map (\<lambda>r. (priority r, collate (code r))) (load_provider_rows collate clock categories table)) \<and>
   mset (load_provider_rows collate clock categories table) =
     filter_mset (\<lambda>r. enabled r \<and> (categories = None \<or> categories = Some [] \<or>
         category r \<in> set (the categories)) \<and> \<not> breaker_open clock r None) (mset table)"
proof
  show "sorted (map (\<lambda>r. (priority r, collate (code r))) (load_provider_rows collate clock categories table))"
    by (simp add: load_provider_rows_def Let_def sorted_filter)
  show "mset (load_provider_rows collate clock categories table) =
     filter_mset (\<lambda>r. enabled r \<and> (categories = None \<or> categories = Some [] \<or>
         category r \<in> set (the categories)) \<and> \<not> breaker_open clock r None) (mset table)"
    by (cases categories)
      (auto simp: load_provider_rows_def Let_def mset_filter filter_filter_mset conj_ac intro: filter_mset_cong)
qed

text \<open>The stored counter of a provider is the number of its failures since its last success,
  whatever happened before, so the first success closes its breaker.\<close>

theorem failures_count_since_success:
  assumes "c \<in> code ` set table" "\<forall>o'\<in>set os2. \<exists>t e. o' = Failure t e"
  shows "failures_of c (foldl (apply_to_table c) table (os1 @ Success t # os2)) = int (length os2)"
  using counter.fails_since_success [OF assms] by (simp only: counter_apply)

definition demo_provider :: provider_row where
  "demo_provider = \<lparr>code = ''tgju'', provider_name = ''TGJU'', category = ''iran_gold'', priority = 10,
     enabled = True, last_success_at = None, last_error_at = None, last_error = None,
     consecutive_failures = 1945, updated_at = None\<rparr>"

theorem failures_count_since_success_witness:
  "failures_of ''tgju'' (foldl (apply_to_table ''tgju'') [demo_provider]
     ([] @ Success 0 # [Failure 5 ''access denied''])) = 1"
  using failures_count_since_success [of "''tgju''" "[demo_provider]" "[Failure 5 ''access denied'']" "[]" 0]
  by (simp add: demo_provider_def)

end
