(* ===== verification/Index_Scale.thy ===== *)
theory Index_Scale
  imports Calendar PyFloat "HOL-Library.Product_Lexorder"
begin

text \<open>
  \<^verbatim>\<open>app/bourse/scale.py\<close>: detection of decimal shifts in an index history and the verdict on
  the corrected series.

  The two band limits are the doubles that \<^verbatim>\<open>10 ** 0.9\<close> and \<^verbatim>\<open>10 ** 1.1\<close> evaluate to, and a
  negative power of ten is the nearest double to it, as the platform's \<^verbatim>\<open>pow\<close> returns.
\<close>

section \<open>Constants\<close>

definition CHECK_VERSION :: string where "CHECK_VERSION = ''decimal-shift-v1''"
definition SCALE_BAND_LO :: pyfloat where "SCALE_BAND_LO = Fin (4471670427392673 / 562949953421312)"
definition SCALE_BAND_HI :: pyfloat where "SCALE_BAND_HI = Fin (3543560009652163 / 281474976710656)"
definition MAX_ABS_EXP :: int where "MAX_ABS_EXP = 3"
definition LIVE_RATIO_LO :: pyfloat where "LIVE_RATIO_LO = lit (3 / 4)"
definition LIVE_RATIO_HI :: pyfloat where "LIVE_RATIO_HI = fquot (Fin 1) (lit (3 / 4))"

section \<open>Exponents\<close>

definition in_band :: "pyfloat \<Rightarrow> bool" where
  "in_band r \<longleftrightarrow> fle SCALE_BAND_LO r \<and> fle r SCALE_BAND_HI"

text \<open>How one step changes the running exponent: the inverse is only taken when the ratio itself
  is not in the band, and taking it raises on a ratio that has underflowed to zero.\<close>

definition scale_step :: "pyfloat \<Rightarrow> pyfloat \<Rightarrow> int res" where
  "scale_step previous current =
     bind_res (fdiv current previous) (\<lambda>ratio.
       if in_band ratio then Inr (-1)
       else map_res (\<lambda>inverse. if in_band inverse then 1 else 0) (fdiv (Fin 1) ratio))"

text \<open>The loop: index and exponent of the previous row, the previous close, the closes to come.\<close>

fun scale_walk :: "int \<Rightarrow> int \<Rightarrow> pyfloat \<Rightarrow> pyfloat list \<Rightarrow> (int list \<times> int list) res" where
  "scale_walk i k previous [] = Inr ([], [])"
| "scale_walk i k previous (c # rest) =
     bind_res (scale_step previous c) (\<lambda>d.
       map_res (\<lambda>(rel, breaks). ((k + d) # rel, if d = 0 then breaks else (i + 1) # breaks))
         (scale_walk (i + 1) (k + d) c rest))"

text \<open>\<^verbatim>\<open>Counter(rel)\<close> keeps first-seen order; the reference is the first key of greatest rank.\<close>

definition reference_rank :: "int list \<Rightarrow> int \<Rightarrow> nat \<times> int \<times> int" where
  "reference_rank rel k = (count_list rel k, - \<bar>k\<bar>, k)"

definition reference_exp :: "int list \<Rightarrow> int" where
  "reference_exp rel =
     the (first_max (\<lambda>a b. reference_rank rel b < reference_rank rel a) (rev (remdups (rev rel))))"

definition scale_exponents :: "pyfloat list \<Rightarrow> (int list \<times> int list) res" where
  "scale_exponents closes =
     (case closes of [] \<Rightarrow> Inr ([], [])
      | c0 # rest \<Rightarrow>
          if \<exists>c \<in> set closes. \<not> flt (Fin 0) c \<or> c = PInf \<or> c = NInf then Inl ValueError
          else map_res (\<lambda>(rel, breaks).
                 let rel = 0 # rel; reference = reference_exp rel
                 in (map (\<lambda>k. k - reference) rel, breaks))
               (scale_walk 0 0 c0 rest))"

section \<open>The verdict\<close>

datatype index_status = VALIDATED | REFUSED

datatype scale_refusal = ExponentTooLarge int | LiveDisagrees pyfloat date pyfloat pyfloat

record index_verdict =
  iv_status :: index_status
  values_total :: int
  dropped :: int
  scale_breaks :: int
  rows_rescaled :: int
  first_break :: "date option"
  last_break :: "date option"
  largest_move :: "pyfloat option"
  largest_move_date :: "date option"
  live_val :: "pyfloat option"
  live_ratio :: "pyfloat option"
  iv_reasons :: "scale_refusal list"

text \<open>\<^verbatim>\<open>c * 10 ** e\<close>: an integer power for \<open>e\<close> at least 0, a float power below.\<close>

definition times_power :: "pyfloat \<Rightarrow> int \<Rightarrow> pyfloat res" where
  "times_power c e =
     (if 0 \<le> e then map_res (fmul c) (float_of_int (10 ^ nat e))
      else Inr (fmul c (rnd (1 / 10 ^ nat (- e)))))"

fun largest_walk ::
  "(pyfloat \<times> date) option \<Rightarrow> date list \<Rightarrow> int \<Rightarrow> pyfloat list \<Rightarrow> (pyfloat \<times> date) option res" where
  "largest_walk best dates i (x # y # rest) =
     bind_res (fdiv y x) (\<lambda>q.
       let move = fsub q (Fin 1) in
       if (case best of None \<Rightarrow> True | Some (m, _) \<Rightarrow> flt (fabs m) (fabs move))
       then bind_res (py_index dates i) (\<lambda>d. largest_walk (Some (move, d)) dates (i + 1) (y # rest))
       else largest_walk best dates (i + 1) (y # rest))"
| "largest_walk best dates i _ = Inr best"

definition index_date :: "date list \<Rightarrow> int option \<Rightarrow> date option res" where
  "index_date dates i = (case i of None \<Rightarrow> Inr None | Some n \<Rightarrow> map_res Some (py_index dates n))"

definition verdict ::
  "date list \<Rightarrow> pyfloat list \<Rightarrow> int list \<Rightarrow> int list \<Rightarrow> int \<Rightarrow> pyfloat option \<Rightarrow> index_verdict res" where
  "verdict dates closes exps breaks dropped_nonpositive live_value =
     bind_res (mapM (\<lambda>(c, e). times_power c e) (zip closes exps)) (\<lambda>corrected.
     bind_res (largest_walk None dates 1 corrected) (\<lambda>largest.
     let worst_exp = fold (\<lambda>e m. max m \<bar>e\<bar>) exps 0;
         reasons = (if MAX_ABS_EXP < worst_exp then [ExponentTooLarge worst_exp] else []) in
     bind_res (case live_value of
         Some lv \<Rightarrow>
           if flt (Fin 0) lv \<and> corrected \<noteq> [] then
             bind_res (fdiv (last corrected) lv) (\<lambda>ratio.
               if fle LIVE_RATIO_LO ratio \<and> fle ratio LIVE_RATIO_HI then Inr (Some ratio, reasons)
               else map_res (\<lambda>d. (Some ratio, reasons @ [LiveDisagrees (last corrected) d ratio lv]))
                      (py_index dates (-1)))
           else Inr (None, reasons)
       | None \<Rightarrow> Inr (None, reasons)) (\<lambda>(ratio, reasons).
     bind_res (index_date dates (if breaks = [] then None else Some (hd breaks))) (\<lambda>fb.
     bind_res (index_date dates (if breaks = [] then None else Some (last breaks))) (\<lambda>lb.
       Inr \<lparr>iv_status = (if reasons \<noteq> [] then REFUSED else VALIDATED),
            values_total = int (length closes), dropped = dropped_nonpositive,
            scale_breaks = int (length breaks),
            rows_rescaled = int (length (filter (\<lambda>e. e \<noteq> 0) exps)),
            first_break = fb, last_break = lb,
            largest_move = map_option fst largest, largest_move_date = map_option snd largest,
            live_val = live_value, live_ratio = ratio, iv_reasons = reasons\<rparr>)))))"

section \<open>Facts\<close>

lemma scale_walk_nth:
  assumes "scale_walk i k p cs = Inr (rel, breaks)"
  shows "length rel = length cs"
    and "j < length cs \<Longrightarrow>
      scale_step ((p # cs) ! j) (cs ! j) = Inr (rel ! j - (k # rel) ! j)"
    and "b \<in> set breaks \<longleftrightarrow> (\<exists>j. j < length cs \<and> b = i + 1 + int j \<and> rel ! j \<noteq> (k # rel) ! j)"
    and "sorted_wrt (<) breaks"
  using assms
proof (induction i k p cs arbitrary: rel breaks j b rule: scale_walk.induct)
  case (2 i k p c rest)
  {
    case 1
    then show ?case using "2.IH"(1) by (auto simp: bind_res_eq_Inr map_res_eq_Inr)
  next
    case 2
    then show ?case using "2.IH"(2)
      by (cases j) (auto simp: bind_res_eq_Inr map_res_eq_Inr)
  next
    case 3
    then obtain d rel' br where d: "scale_step p c = Inr d"
      "scale_walk (i + 1) (k + d) c rest = Inr (rel', br)" "rel = (k + d) # rel'"
      "breaks = (if d = 0 then br else (i + 1) # br)"
      by (auto simp: bind_res_eq_Inr map_res_eq_Inr)
    have IH: "b \<in> set br \<longleftrightarrow> (\<exists>j. j < length rest \<and> b = i + 1 + 1 + int j \<and> rel' ! j \<noteq> ((k + d) # rel') ! j)"
      using "2.IH"(3) [OF d(2)] .
    have "(\<exists>j. j < length (c # rest) \<and> b = i + 1 + int j \<and> rel ! j \<noteq> (k # rel) ! j) \<longleftrightarrow>
        (b = i + 1 \<and> d \<noteq> 0) \<or>
        (\<exists>j. j < length rest \<and> b = i + 1 + 1 + int j \<and> rel' ! j \<noteq> ((k + d) # rel') ! j)"
      unfolding length_Cons Ex_less_Suc2 by (auto simp: d(3) algebra_simps)
    then show ?case using IH d(4) by auto
  next
    case 4
    then obtain d rel' br where d: "scale_step p c = Inr d"
      "scale_walk (i + 1) (k + d) c rest = Inr (rel', br)"
      "breaks = (if d = 0 then br else (i + 1) # br)"
      by (auto simp: bind_res_eq_Inr map_res_eq_Inr)
    have "sorted_wrt (<) br" using "2.IH"(4) [OF d(2)] .
    moreover have "i + 1 < b" if "b \<in> set br" for b
      using "2.IH"(3) [OF d(2), of b] that by auto
    ultimately show ?case using d(3) by simp
  }
qed auto

lemma reference_exp_majority:
  assumes "rel \<noteq> []"
  shows "reference_exp rel \<in> set rel"
    and "k \<in> set rel \<Longrightarrow> reference_rank rel k \<le> reference_rank rel (reference_exp rel)"
proof -
  let ?ks = "rev (remdups (rev rel))" and ?gt = "\<lambda>a b. reference_rank rel b < reference_rank rel a"
  have "?ks \<noteq> []" using assms by simp
  then obtain m where m: "first_max ?gt ?ks = Some m" by (cases "first_max ?gt ?ks") auto
  then have e: "reference_exp rel = m" by (simp add: reference_exp_def)
  show "reference_exp rel \<in> set rel" using first_max_mem [OF m] e by simp
  show "k \<in> set rel \<Longrightarrow> reference_rank rel k \<le> reference_rank rel (reference_exp rel)"
    using first_max_ge [OF m, of k] e by simp
qed

lemma count_list_map_minus: "count_list (map (\<lambda>k. k - r) xs) (e :: int) = count_list xs (e + r)"
  by (induction xs) auto

lemma count_list_pos: "k \<notin> set xs \<Longrightarrow> count_list xs k = 0"
  by (induction xs) auto

section \<open>Properties\<close>

text \<open>The exponents undo exactly the decimal shifts: one exponent per row, from row to row it
  falls by one at a tenfold rise, rises by one at a tenfold fall and stays otherwise; the
  reported breaks are the strictly increasing positions at which it changes; and no other
  scale holds more rows than the one left uncorrected.\<close>

theorem scale_exponents_spec:
  assumes "scale_exponents closes = Inr (exps, breaks)" "closes \<noteq> []"
  shows "length exps = length closes \<and>
    (\<forall>i. Suc i < length closes \<longrightarrow>
       scale_step (closes ! i) (closes ! Suc i) = Inr (exps ! Suc i - exps ! i)) \<and>
    sorted_wrt (<) breaks \<and>
    (\<forall>b. b \<in> set breaks \<longleftrightarrow>
       (\<exists>i. Suc i < length closes \<and> b = int (Suc i) \<and> exps ! Suc i \<noteq> exps ! i)) \<and>
    0 \<in> set exps \<and> (\<forall>e. count_list exps e \<le> count_list exps 0)"
proof -
  obtain c0 rest where cl: "closes = c0 # rest" using assms(2) by (cases closes) auto
  with assms(1) obtain rel where w: "scale_walk 0 0 c0 rest = Inr (rel, breaks)"
    and e: "exps = map (\<lambda>k. k - reference_exp (0 # rel)) (0 # rel)"
    by (auto simp: scale_exponents_def map_res_eq_Inr Let_def split: if_splits)
  note nth = scale_walk_nth [OF w]
  let ?r = "reference_exp (0 # rel)"
  have len: "length exps = length closes" using nth(1) by (simp add: e cl)
  have ex: "exps ! i = (0 # rel) ! i - ?r" if "i < length closes" for i
    using that nth(1) by (simp only: e cl nth_map length_Cons)
  have steps: "scale_step (closes ! i) (closes ! Suc i) = Inr (exps ! Suc i - exps ! i)"
    if "Suc i < length closes" for i
    using nth(2) [of i] that ex [of i] ex [of "Suc i"] by (simp add: cl)
  have breaks: "b \<in> set breaks \<longleftrightarrow>
      (\<exists>i. Suc i < length closes \<and> b = int (Suc i) \<and> exps ! Suc i \<noteq> exps ! i)" for b
  proof -
    have "rel ! i \<noteq> (0 # rel) ! i \<longleftrightarrow> exps ! Suc i \<noteq> exps ! i" if "i < length rest" for i
      using that ex [of i] ex [of "Suc i"] by (simp add: cl)
    then show ?thesis using nth(3) [of b] by (auto simp: cl)
  qed
  have major: "count_list exps x \<le> count_list exps 0" for x
  proof (cases "x + ?r \<in> set (0 # rel)")
    case True
    then have "reference_rank (0 # rel) (x + ?r) \<le> reference_rank (0 # rel) ?r"
      by (intro reference_exp_majority) simp_all
    then have "count_list (0 # rel) (x + ?r) \<le> count_list (0 # rel) ?r"
      by (auto simp: reference_rank_def less_eq_prod_def)
    then show ?thesis unfolding e count_list_map_minus by simp
  next
    case False
    then show ?thesis unfolding e count_list_map_minus by (simp only: count_list_pos [OF False] le0)
  qed
  have "?r \<in> set (0 # rel)" by (rule reference_exp_majority) simp
  then have "0 \<in> set exps" unfolding e set_map by (force simp del: list.set)
  with len steps nth(4) breaks major show ?thesis by blast
qed

theorem scale_exponents_spec_witness:
  "count_list [1, 0, 0 :: int] 1 \<le> count_list [1, 0, 0 :: int] 0 \<and>
    scale_step (Fin 100) (Fin 1050) = Inr (-1)"
proof -
  have s: "scale_exponents [Fin 100, Fin 1050, Fin 1060] = Inr ([1, 0, 0], [1])" by code_simp
  from scale_exponents_spec [OF s] show ?thesis by fastforce
qed

lemma fold_max_abs: "fold (\<lambda>e m. max m \<bar>e\<bar>) exps m0 \<le> (b :: int) \<longleftrightarrow> m0 \<le> b \<and> (\<forall>e\<in>set exps. \<bar>e\<bar> \<le> b)"
  by (induction exps arbitrary: m0) auto

text \<open>C39: An index history is validated exactly when no row needs a power of ten beyond three and,
  where there is a positive live figure to compare with, the newest corrected value is within
  the live band of it.\<close>

theorem index_verdict_exact:
  assumes "verdict dates closes exps breaks dr live = Inr v"
  shows "iv_status v = VALIDATED \<longleftrightarrow> (\<forall>e\<in>set exps. \<bar>e\<bar> \<le> MAX_ABS_EXP) \<and>
    (\<forall>lv corrected. live = Some lv \<and> flt (Fin 0) lv \<and>
       mapM (\<lambda>(c, e). times_power c e) (zip closes exps) = Inr corrected \<and> corrected \<noteq> [] \<longrightarrow>
       fle LIVE_RATIO_LO (fquot (last corrected) lv) \<and> fle (fquot (last corrected) lv) LIVE_RATIO_HI)"
proof -
  let ?worst = "fold (\<lambda>e m. max m \<bar>e\<bar>) exps 0"
  obtain corrected where c: "mapM (\<lambda>(c, e). times_power c e) (zip closes exps) = Inr corrected"
    using assms by (auto simp: verdict_def bind_res_eq_Inr)
  have w: "\<not> MAX_ABS_EXP < ?worst \<longleftrightarrow> (\<forall>e\<in>set exps. \<bar>e\<bar> \<le> MAX_ABS_EXP)"
    by (simp add: not_less fold_max_abs MAX_ABS_EXP_def)
  have d: "fdiv x lv = Inr (fquot x lv)" if "flt (Fin 0) lv" for x lv
    using that by (auto simp: fdiv_def)
  show ?thesis
  proof (cases "\<exists>lv. live = Some lv \<and> flt (Fin 0) lv \<and> corrected \<noteq> []")
    case True
    then obtain lv where lv: "live = Some lv" "flt (Fin 0) lv" "corrected \<noteq> []" by blast
    have "iv_status v = VALIDATED \<longleftrightarrow> \<not> MAX_ABS_EXP < ?worst \<and>
        fle LIVE_RATIO_LO (fquot (last corrected) lv) \<and> fle (fquot (last corrected) lv) LIVE_RATIO_HI"
      using assms lv c d [OF lv(2)]
      by (auto simp: verdict_def Let_def bind_res_eq_Inr map_res_eq_Inr split: if_splits)
    then show ?thesis using w lv c by auto
  next
    case False
    have "iv_status v = VALIDATED \<longleftrightarrow> \<not> MAX_ABS_EXP < ?worst"
      using assms False c
      by (cases live) (auto simp: verdict_def Let_def bind_res_eq_Inr map_res_eq_Inr split: if_splits)
    then show ?thesis using w False c by auto
  qed
qed

theorem index_verdict_exact_witness:
  "\<exists>v. verdict [Date 2024 1 1, Date 2024 1 2] [Fin 100, Fin 1050] [1, 0] [1] 0 (Some (Fin 1000)) = Inr v \<and>
    iv_status v = VALIDATED \<and> (\<forall>e\<in>set [1, 0]. \<bar>e\<bar> \<le> MAX_ABS_EXP)"
proof -
  have "map_res iv_status (verdict [Date 2024 1 1, Date 2024 1 2] [Fin 100, Fin 1050] [1, 0] [1] 0
      (Some (Fin 1000))) = Inr VALIDATED" by code_simp
  then obtain v where v: "verdict [Date 2024 1 1, Date 2024 1 2] [Fin 100, Fin 1050] [1, 0] [1] 0
      (Some (Fin 1000)) = Inr v" "iv_status v = VALIDATED" by (auto simp: map_res_eq_Inr)
  from index_verdict_exact [OF v(1)] v show ?thesis by blast
qed

end
