(* ===== verification/Universe.thy ===== *)
theory Universe
  imports PyString "HOL-Library.List_Lexorder" "HOL-Library.Char_ord"
begin

text \<open>
  \<^verbatim>\<open>app/signals/universe.py\<close>: which symbols are eligible for a reading, which factors each of
  them can carry, how much history a factor needs, and when a reading is withheld. Reasons
  are constructors with the numbers their sentences print.
\<close>

section \<open>Symbols\<close>

definition SIGNAL_SYMBOLS :: "string list" where
  "SIGNAL_SYMBOLS = [''IR_GOLD_18K'', ''USD_IRT'', ''IR_COIN_EMAMI'', ''XAUUSD'', ''XAGUSD'',
     ''IR_GOLD_FUND_AYAR'', ''IR_GOLD_FUND_TALA'']"

definition SIGNAL_EXCLUDED_SOURCES :: "string list" where
  "SIGNAL_EXCLUDED_SOURCES = [''tsetmc_cdn'']"

definition FUND_SYMBOLS :: "string list" where
  "FUND_SYMBOLS = [''IR_GOLD_FUND_AYAR'', ''IR_GOLD_FUND_TALA'']"

definition PARITY_SYMBOLS :: "string list" where "PARITY_SYMBOLS = [''IR_GOLD_18K'']"

definition FUND_FLOW_SYMBOL :: string where "FUND_FLOW_SYMBOL = ''IR_GOLD_FUND_FLOW''"

definition FORECAST_SYMBOLS :: "string list" where
  "FORECAST_SYMBOLS = [''IR_GOLD_18K'', ''XAUUSD'']"

definition SUPPORTED_SYMBOLS :: "string list" where
  "SUPPORTED_SYMBOLS = [''IR_GOLD_18K'', ''XAUUSD'']"

text \<open>The symbols refused by name; their sentences are not represented.\<close>

definition EXCLUDED_SYMBOLS :: "string list" where
  "EXCLUDED_SYMBOLS = [''DXY'', ''US10Y'', FUND_FLOW_SYMBOL, ''IR_SILVER_999'', ''IR_COIN_BAHAR'',
     ''IR_COIN_HALF'', ''IR_COIN_QUARTER'', ''IR_COIN_GERAMI'', ''IR_GOLD_24K'', ''IR_GOLD_MESGHAL'',
     ''IR_GOLD_FUND_KAHRABA'', ''IR_SILVER_FUND_SILVER'', ''IR_SILVER_FUND_SIMIN'']"

definition NOT_COLLECTED :: "string list" where
  "NOT_COLLECTED = [''cars'', ''housing'', ''tehran_equities'', ''economic_series'']"

definition unavailable :: "string list" where
  "unavailable = EXCLUDED_SYMBOLS @ NOT_COLLECTED"

section \<open>Factors\<close>

record factor_spec =
  key :: string
  window :: int
  first_bar :: int
  directional :: bool

definition min_bars :: "factor_spec \<Rightarrow> int" where
  "min_bars spec = first_bar spec + window spec"

definition FACTOR_FORECAST :: factor_spec where
  "FACTOR_FORECAST = \<lparr>key = ''forecast_vs_cost'', window = 0, first_bar = 0, directional = True\<rparr>"
definition FACTOR_PREMIUM :: factor_spec where
  "FACTOR_PREMIUM = \<lparr>key = ''local_premium_z'', window = 30, first_bar = 30, directional = False\<rparr>"
definition FACTOR_FUND_FLOW :: factor_spec where
  "FACTOR_FUND_FLOW = \<lparr>key = ''gold_fund_flow'', window = 30, first_bar = 30, directional = False\<rparr>"
definition FACTOR_TREND_SMA :: factor_spec where
  "FACTOR_TREND_SMA = \<lparr>key = ''trend_sma'', window = 50, first_bar = 50, directional = True\<rparr>"
definition FACTOR_MA_ALIGNMENT :: factor_spec where
  "FACTOR_MA_ALIGNMENT = \<lparr>key = ''ma_alignment'', window = 220, first_bar = 220, directional = True\<rparr>"
definition FACTOR_RSI :: factor_spec where
  "FACTOR_RSI = \<lparr>key = ''rsi14'', window = 14, first_bar = 15, directional = False\<rparr>"
definition FACTOR_MOMENTUM :: factor_spec where
  "FACTOR_MOMENTUM = \<lparr>key = ''momentum_10'', window = 10, first_bar = 11, directional = False\<rparr>"
definition FACTOR_VOLATILITY :: factor_spec where
  "FACTOR_VOLATILITY = \<lparr>key = ''volatility_regime'', window = 20, first_bar = 25, directional = False\<rparr>"

lemmas factor_defs [simp] = FACTOR_FORECAST_def FACTOR_PREMIUM_def FACTOR_FUND_FLOW_def
  FACTOR_TREND_SMA_def FACTOR_MA_ALIGNMENT_def FACTOR_RSI_def FACTOR_MOMENTUM_def FACTOR_VOLATILITY_def

definition UNIVERSAL_FACTORS :: "factor_spec list" where
  "UNIVERSAL_FACTORS = [FACTOR_TREND_SMA, FACTOR_RSI, FACTOR_MOMENTUM, FACTOR_VOLATILITY]"

definition ALL_FACTORS :: "factor_spec list" where
  "ALL_FACTORS = UNIVERSAL_FACTORS @ [FACTOR_FORECAST, FACTOR_PREMIUM, FACTOR_FUND_FLOW, FACTOR_MA_ALIGNMENT]"

definition MIN_SCOREABLE_FACTORS :: nat where "MIN_SCOREABLE_FACTORS = 3"

section \<open>Profiles\<close>

datatype omission_reason =
    NoModel "string list"
  | NoParity
  | NotAFund
  | NoContinuousHistory "string list"
  | NeedsBars int int int int   \<comment> \<open>needed, available, window, first bar\<close>
  | NoRecentPrediction
  | SmaUndefined
  | RsiUndefined
  | MomentumUndefined
  | PremiumUndefined
  | RegimeUndetermined
  | FlowUnavailable
  | NoAlignmentRead

record profile =
  profile_symbol :: string
  applicable :: "factor_spec list"
  inapplicable :: "(string \<times> omission_reason) list"

definition profile_keys :: "profile \<Rightarrow> string list" where
  "profile_keys p = map key (applicable p)"

definition profile_for :: "string \<Rightarrow> profile res" where
  "profile_for symbol =
     (if symbol \<notin> set SIGNAL_SYMBOLS then Inl ValueError
      else let yes = (\<lambda>holds spec. if holds then [spec] else []);
               no = (\<lambda>holds spec reason. if holds then [] else [(key spec, reason)]);
               fc = symbol \<in> set FORECAST_SYMBOLS;
               par = symbol \<in> set PARITY_SYMBOLS;
               fund = symbol \<in> set FUND_SYMBOLS;
               al = symbol \<in> set SUPPORTED_SYMBOLS
      in Inr \<lparr>profile_symbol = symbol,
          applicable = UNIVERSAL_FACTORS @ yes fc FACTOR_FORECAST @ yes par FACTOR_PREMIUM
            @ yes fund FACTOR_FUND_FLOW @ yes al FACTOR_MA_ALIGNMENT,
          inapplicable = no fc FACTOR_FORECAST (NoModel (sort FORECAST_SYMBOLS))
            @ no par FACTOR_PREMIUM NoParity
            @ no fund FACTOR_FUND_FLOW NotAFund
            @ no al FACTOR_MA_ALIGNMENT (NoContinuousHistory (sort SUPPORTED_SYMBOLS))\<rparr>)"

definition history_omissions ::
  "profile \<Rightarrow> int \<Rightarrow> string list \<times> (string \<times> omission_reason) list" where
  "history_omissions p bars =
     (map key (filter (\<lambda>spec. min_bars spec \<le> bars) (applicable p)),
      map (\<lambda>spec. (key spec, NeedsBars (min_bars spec) bars (window spec) (first_bar spec)))
        (filter (\<lambda>spec. \<not> min_bars spec \<le> bars) (applicable p)))"

datatype withholding = NoDirectionalFactor | TooFewFactors nat "string list"

text \<open>\<open>scored\<close> is a set of keys, kept as a list without repetitions.\<close>

definition withholding_reason :: "string list \<Rightarrow> withholding option" where
  "withholding_reason scored =
     (let directional_keys = [key FACTOR_FORECAST, key FACTOR_TREND_SMA, key FACTOR_MA_ALIGNMENT] in
      if \<not> (\<exists>k \<in> set scored. k \<in> set directional_keys) then Some NoDirectionalFactor
      else if length scored < MIN_SCOREABLE_FACTORS then Some (TooFewFactors (length scored) (sort scored))
      else None)"

section \<open>Facts\<close>

lemma profile_symbol_eligible: "profile_for symbol = Inr p \<Longrightarrow> symbol \<in> set SIGNAL_SYMBOLS"
  by (auto simp: profile_for_def split: if_splits)

lemma all_keys: "map key ALL_FACTORS = [''trend_sma'', ''rsi14'', ''momentum_10'', ''volatility_regime'',
    ''forecast_vs_cost'', ''local_premium_z'', ''gold_fund_flow'', ''ma_alignment'']"
  by (simp add: ALL_FACTORS_def UNIVERSAL_FACTORS_def)

lemma profile_applicable:
  assumes "profile_for symbol = Inr p"
  shows "applicable p = UNIVERSAL_FACTORS
      @ (if symbol \<in> set FORECAST_SYMBOLS then [FACTOR_FORECAST] else [])
      @ (if symbol \<in> set PARITY_SYMBOLS then [FACTOR_PREMIUM] else [])
      @ (if symbol \<in> set FUND_SYMBOLS then [FACTOR_FUND_FLOW] else [])
      @ (if symbol \<in> set SUPPORTED_SYMBOLS then [FACTOR_MA_ALIGNMENT] else [])"
    and "map fst (inapplicable p) =
      (if symbol \<in> set FORECAST_SYMBOLS then [] else [key FACTOR_FORECAST])
      @ (if symbol \<in> set PARITY_SYMBOLS then [] else [key FACTOR_PREMIUM])
      @ (if symbol \<in> set FUND_SYMBOLS then [] else [key FACTOR_FUND_FLOW])
      @ (if symbol \<in> set SUPPORTED_SYMBOLS then [] else [key FACTOR_MA_ALIGNMENT])"
  using assms by (auto simp: profile_for_def Let_def simp del: factor_defs split: if_splits)

text \<open>A profile says of every factor, exactly once, whether the asset can carry it.\<close>

lemma profile_partition:
  assumes "profile_for symbol = Inr p"
  shows "distinct (map key (applicable p) @ map fst (inapplicable p)) \<and>
    set (map key (applicable p) @ map fst (inapplicable p)) = set (map key ALL_FACTORS)"
  unfolding profile_applicable [OF assms]
  by (auto simp: ALL_FACTORS_def UNIVERSAL_FACTORS_def)

lemma history_partition:
  "set (fst (history_omissions p bars)) \<union> fst ` set (snd (history_omissions p bars)) = set (map key (applicable p))"
  unfolding history_omissions_def fst_conv snd_conv set_map image_image set_filter by blast

lemma profile_distinct_keys:
  "profile_for symbol = Inr p \<Longrightarrow> distinct (map key (applicable p))"
  using profile_partition by (metis distinct_append)

lemma history_disjoint:
  assumes "distinct (map key (applicable p))"
  shows "set (fst (history_omissions p bars)) \<inter> fst ` set (snd (history_omissions p bars)) = {}"
proof -
  have inj: "a = b" if "a \<in> set (applicable p)" "b \<in> set (applicable p)" "key a = key b" for a b
    using assms that by (simp add: distinct_map inj_on_def)
  show ?thesis
  proof (rule equals0I)
    fix k assume "k \<in> set (fst (history_omissions p bars)) \<inter> fst ` set (snd (history_omissions p bars))"
    then obtain a b where "a \<in> set (applicable p)" "min_bars a \<le> bars" "b \<in> set (applicable p)"
      "\<not> min_bars b \<le> bars" "k = key a" "k = key b"
      by (auto simp only: history_omissions_def fst_conv snd_conv set_map set_filter image_iff
        Int_iff mem_Collect_eq) metis
    with inj [of a b] show False by simp
  qed
qed

end
