(* ===== verification/Tables.thy ===== *)
theory Tables
  imports PyJson Calendar
begin

text \<open>
  The tables of \<^verbatim>\<open>app/db.py\<close> the modelled jobs write: \<^verbatim>\<open>raw_observations\<close>, \<^verbatim>\<open>prices\<close> and
  \<^verbatim>\<open>app_settings\<close>, with their uniqueness and check constraints, and \<^verbatim>\<open>insert_ignore\<close>. Stored
  instants are microseconds of UTC; a JSON column without a value is \<open>JNull\<close>.
\<close>

section \<open>Rows\<close>

record raw_row =
  r_provider :: string
  r_symbol :: string
  r_value :: pyfloat
  r_unit :: string
  r_currency :: string
  r_payload :: json
  r_observed_at :: int
  r_collected_at :: int
  r_quality :: string
  r_dedupe :: string

record price_row =
  p_symbol :: string
  p_value :: pyfloat
  p_currency :: string
  p_unit :: string
  p_source :: string
  p_observed_at :: int
  p_collected_at :: int
  p_quality :: string

text \<open>\<^verbatim>\<open>prices_positive\<close>: a violated check raises, whatever the conflict clause. A NaN violates it here; for
  PostgreSQL's NUMERIC it is above zero.\<close>

definition prices_positive :: "price_row \<Rightarrow> bool" where
  "prices_positive r \<longleftrightarrow> flt (Fin 0) (p_value r) \<or> p_currency r = ''INDEX'' \<or> p_currency r = ''PCT''"

text \<open>\<^verbatim>\<open>prices_unique\<close>.\<close>

definition price_key :: "price_row \<Rightarrow> string \<times> int \<times> string" where
  "price_key r = (p_symbol r, p_observed_at r, p_source r)"

section \<open>\<^verbatim>\<open>INSERT ... ON CONFLICT DO NOTHING\<close>, one row\<close>

text \<open>The insertion by a unique key: the table after it, and whether the row went in.\<close>

definition insert_ignore :: "('r \<Rightarrow> 'k) \<Rightarrow> 'r \<Rightarrow> 'r list \<Rightarrow> 'r list \<times> bool" where
  "insert_ignore ukey row table =
     (if ukey row \<in> ukey ` set table then (table, False) else (table @ [row], True))"

definition insert_raw :: "raw_row \<Rightarrow> raw_row list \<Rightarrow> raw_row list \<times> bool" where
  "insert_raw = insert_ignore r_dedupe"

definition insert_price :: "price_row \<Rightarrow> price_row list \<Rightarrow> (price_row list \<times> bool) res" where
  "insert_price row table =
     (if prices_positive row then Inr (insert_ignore price_key row table) else Inl IntegrityError)"

lemma insert_ignore_distinct:
  "distinct (map ukey table) \<Longrightarrow> distinct (map ukey (fst (insert_ignore ukey row table)))"
  by (auto simp: insert_ignore_def)

lemma insert_ignore_prefix:
  "fst (insert_ignore ukey row table) = table \<or> fst (insert_ignore ukey row table) = table @ [row]"
  by (simp add: insert_ignore_def)

lemma insert_ignore_present:
  "ukey row \<in> ukey ` set (fst (insert_ignore ukey row table))"
  by (simp add: insert_ignore_def)

section \<open>Dictionaries\<close>

text \<open>\<^verbatim>\<open>d[k] = v\<close> on the items of a dictionary in insertion order.\<close>

definition dict_set :: "'k \<Rightarrow> 'v \<Rightarrow> ('k \<times> 'v) list \<Rightarrow> ('k \<times> 'v) list" where
  "dict_set k v d =
     (if k \<in> set (map fst d) then map (\<lambda>x. if fst x = k then (fst x, v) else x) d else d @ [(k, v)])"

lemma map_of_update:
  "map_of (map (\<lambda>x. if fst x = k then (fst x, v) else x) t) k' =
     (if k' = k \<and> k \<in> set (map fst t) then Some v else map_of t k')"
proof (induction t)
  case (Cons x t)
  obtain a w where x: "x = (a, w)" by fastforce
  show ?case
  proof (cases "a = k")
    case True
    then show ?thesis using Cons x by (cases "k' = k") simp_all
  next
    case False
    then show ?thesis using Cons x by (cases "k' = a") auto
  qed
qed simp

lemma dict_set_get: "map_of (dict_set k v table) k' = (if k' = k then Some v else map_of table k')"
proof (cases "k \<in> set (map fst table)")
  case True
  then show ?thesis unfolding dict_set_def by (simp only: if_True map_of_update) simp
next
  case False
  then have "map_of table k = None" by (simp add: map_of_eq_None_iff)
  then show ?thesis using False
    by (cases "k' = k"; cases "map_of table k'") (simp_all add: dict_set_def map_add_def split: option.splits)
qed

lemma map_fst_update: "map fst (map (\<lambda>x. if fst x = k then (fst x, v) else x) d) = map fst d"
proof (induction d)
  case (Cons x d)
  then show ?case by (cases "fst x = k") simp_all
qed simp

lemma map_fst_dict_set:
  "map fst (dict_set k v d) = (if k \<in> set (map fst d) then map fst d else map fst d @ [k])"
  unfolding dict_set_def by (simp only: map_fst_update if_distrib [of "map fst"] map_append) simp

lemma dict_set_keys: "set (map fst (dict_set k v d)) = insert k (set (map fst d))"
  unfolding map_fst_dict_set by auto

lemma dict_set_distinct: "distinct (map fst d) \<Longrightarrow> distinct (map fst (dict_set k v d))"
  unfolding map_fst_dict_set by simp

text \<open>\<^verbatim>\<open>d.get(k, v)\<close>.\<close>

definition dict_get :: "'v \<Rightarrow> ('k \<times> 'v) list \<Rightarrow> 'k \<Rightarrow> 'v" where
  "dict_get v d k = (case map_of d k of None \<Rightarrow> v | Some w \<Rightarrow> w)"

lemma dict_get_set: "dict_get d0 (dict_set k v d) k' = (if k' = k then v else dict_get d0 d k')"
  by (simp add: dict_get_def dict_set_get)

section \<open>Settings\<close>

text \<open>\<^verbatim>\<open>upsert_setting\<close> of \<^verbatim>\<open>app/jobs/evaluate.py\<close>: update the row of the key, or insert one.\<close>

type_synonym settings_table = "(string \<times> json) list"

definition upsert_setting :: "string \<Rightarrow> json \<Rightarrow> settings_table \<Rightarrow> settings_table" where
  "upsert_setting k v table = dict_set k v table"

end
