(* ===== verification/Costs.thy ===== *)
theory Costs
  imports Tables "HOL-Library.Product_Lexorder"
begin

text \<open>
  \<^verbatim>\<open>app/core/costs.py\<close>: the round-trip cost hurdle of an asset, resolved from the newest usable
  dealer quote or assumed, and the decision policy published from it.

  The query's filter, order and limit are
  written out. A lookup that fails is \<open>None\<close>. Instants are microseconds of UTC.

  Shown: the hurdle comes from the first usable of the 25 newest accepted quotes, its age is
  at most 72 hours and its value is in the sanity band; otherwise it is the assumption.
  Rows the classifier rejected, other symbols' rows and other providers' rows have no
  influence.
\<close>

section \<open>Constants\<close>

definition COST_FEE_PCT :: pyfloat where "COST_FEE_PCT = lit (1 / 2)"
definition COST_SPREAD_PCT :: pyfloat where "COST_SPREAD_PCT = lit 1"
definition COST_SLIPPAGE_PCT :: pyfloat where "COST_SLIPPAGE_PCT = lit (1 / 10)"
definition FALLBACK_ROUND_TRIP_COST_PCT :: pyfloat where
  "FALLBACK_ROUND_TRIP_COST_PCT =
     fadd (fadd (fmul (Fin 2) COST_FEE_PCT) COST_SPREAD_PCT) (fmul (Fin 2) COST_SLIPPAGE_PCT)"

definition SPREAD_PROVIDER :: string where "SPREAD_PROVIDER = ''hamrahgold''"

definition SPREAD_SOURCES :: "string \<rightharpoonup> string" where
  "SPREAD_SOURCES = [''IR_GOLD_18K'' \<mapsto> SPREAD_PROVIDER]"

definition DEFAULT_COST_SYMBOL :: string where "DEFAULT_COST_SYMBOL = ''IR_GOLD_18K''"

text \<open>The symbols with a stated reason for having no observed cost.\<close>

definition NO_OBSERVED_COST_REASON :: "string list" where
  "NO_OBSERVED_COST_REASON = [''USD_IRT'', ''IR_COIN_EMAMI'', ''XAUUSD'', ''XAGUSD'',
     ''IR_GOLD_FUND_AYAR'', ''IR_GOLD_FUND_TALA'']"

definition MAX_AGE_HOURS :: int where "MAX_AGE_HOURS = 72"
definition MIN_SANE_PCT :: pyfloat where "MIN_SANE_PCT = lit (1 / 10)"
definition MAX_SANE_PCT :: pyfloat where "MAX_SANE_PCT = lit 10"
definition SCAN_LIMIT :: nat where "SCAN_LIMIT = 25"

section \<open>Resolution\<close>

datatype cost_reason =
    NoDealer string bool                     \<comment> \<open>the symbol; is a detail on record\<close>
  | LookupFailed
  | ObservedQuote string pyfloat nat         \<comment> \<open>provider, age in hours, newer rows skipped\<close>
  | NoRecentSpread string int
  | AllUnusable nat string

record cost_resolution =
  cost_symbol :: string
  cost_pct :: pyfloat
  cost_basis :: string
  cost_source :: "string option"
  cost_observed_at :: "int option"
  cost_age_hours :: "pyfloat option"
  cost_why :: cost_reason
  cost_rejected :: nat

definition assumed :: "string \<Rightarrow> cost_reason \<Rightarrow> nat \<Rightarrow> cost_resolution" where
  "assumed symbol reason rejected = \<lparr>cost_symbol = symbol, cost_pct = FALLBACK_ROUND_TRIP_COST_PCT,
     cost_basis = ''assumed'', cost_source = None, cost_observed_at = None, cost_age_hours = None,
     cost_why = reason, cost_rejected = rejected\<rparr>"

text \<open>The statement: eligible rows, newest first, at most \<open>SCAN_LIMIT\<close>.\<close>

definition eligible :: "string \<Rightarrow> string \<Rightarrow> int \<Rightarrow> raw_row \<Rightarrow> bool" where
  "eligible provider symbol cutoff r \<longleftrightarrow> r_provider r = provider \<and> r_symbol r = symbol \<and>
     r_quality r = ''ok'' \<and> cutoff \<le> r_observed_at r"

definition cutoff_of :: "int \<Rightarrow> int" where
  "cutoff_of now = now - MAX_AGE_HOURS * 3600 * 1000000"

definition recent_quotes :: "string \<Rightarrow> string \<Rightarrow> int \<Rightarrow> raw_row list \<Rightarrow> raw_row list" where
  "recent_quotes provider symbol now table =
     take SCAN_LIMIT (sort_key (\<lambda>r. - r_observed_at r) (filter (eligible provider symbol (cutoff_of now)) table))"

text \<open>\<^verbatim>\<open>payload.get("spread_pct")\<close> as a float in the sanity band; \<^verbatim>\<open>float(value)\<close> of an integer
  too large for a double raises. A boolean is an \<^verbatim>\<open>int\<close>.\<close>

definition number_of :: "json \<Rightarrow> pyfloat res option" where
  "number_of v = (case v of JInt n \<Rightarrow> Some (float_of_int n) | JBool b \<Rightarrow> Some (Inr (Fin (if b then 1 else 0)))
     | JFloat a \<Rightarrow> Some (Inr a) | _ \<Rightarrow> None)"

definition usable_spread :: "json \<Rightarrow> pyfloat option res" where
  "usable_spread payload = (case payload of
       JObj items \<Rightarrow> (case number_of (json_get items ''spread_pct'') of
           None \<Rightarrow> Inr None
         | Some r \<Rightarrow> map_res (\<lambda>v. if fle MIN_SANE_PCT v \<and> fle v MAX_SANE_PCT then Some v else None) r)
     | _ \<Rightarrow> Inr None)"

definition age_hours :: "int \<Rightarrow> int \<Rightarrow> pyfloat" where
  "age_hours now at' = fquot (rnd (of_int (now - at') / 10 ^ 6)) (lit 3600)"

fun scan_quotes :: "string \<Rightarrow> string \<Rightarrow> int \<Rightarrow> nat \<Rightarrow> raw_row list \<Rightarrow> (nat + cost_resolution) res" where
  "scan_quotes symbol provider now rejected [] = Inr (Inl rejected)"
| "scan_quotes symbol provider now rejected (r # rows) =
     bind_res (usable_spread (r_payload r)) (\<lambda>u. case u of
         None \<Rightarrow> scan_quotes symbol provider now (rejected + 1) rows
       | Some v \<Rightarrow> let age = age_hours now (r_observed_at r) in
           Inr (Inr \<lparr>cost_symbol = symbol, cost_pct = v, cost_basis = ''observed_spread'',
             cost_source = Some provider, cost_observed_at = Some (r_observed_at r),
             cost_age_hours = Some (fround age 2), cost_why = ObservedQuote provider age rejected,
             cost_rejected = rejected\<rparr>))"

definition resolve_cost :: "raw_row list option \<Rightarrow> int \<Rightarrow> string \<Rightarrow> cost_resolution res" where
  "resolve_cost table now symbol =
     (case SPREAD_SOURCES symbol of
       None \<Rightarrow> Inr (assumed symbol (NoDealer symbol (symbol \<in> set NO_OBSERVED_COST_REASON)) 0)
     | Some provider \<Rightarrow> (case table of
         None \<Rightarrow> Inr (assumed symbol LookupFailed 0)
       | Some rows \<Rightarrow> let recent = recent_quotes provider symbol now rows in
           map_res (\<lambda>found. case found of
               Inr res \<Rightarrow> res
             | Inl rejected \<Rightarrow> assumed symbol
                 (if recent = [] then NoRecentSpread provider MAX_AGE_HOURS
                  else AllUnusable (length recent) provider) rejected)
             (scan_quotes symbol provider now 0 recent)))"

definition observed_spread_pct :: "raw_row list option \<Rightarrow> int \<Rightarrow> string \<Rightarrow> pyfloat option res" where
  "observed_spread_pct table now symbol =
     map_res (\<lambda>res. if cost_basis res = ''observed_spread'' then Some (cost_pct res) else None)
       (resolve_cost table now symbol)"

definition round_trip_cost :: "raw_row list option \<Rightarrow> int \<Rightarrow> string \<Rightarrow> (pyfloat \<times> string) res" where
  "round_trip_cost table now symbol =
     map_res (\<lambda>res. (cost_pct res, cost_basis res)) (resolve_cost table now symbol)"

text \<open>The payload of a resolution, with the figure rounded.\<close>

definition resolution_dict :: "cost_resolution \<Rightarrow> cost_resolution" where
  "resolution_dict res = res\<lparr>cost_pct := fround (cost_pct res) 4\<rparr>"

section \<open>The published policy\<close>

definition MIN_CONFIDENCE_PCT :: pyfloat where "MIN_CONFIDENCE_PCT = lit 55"
definition SELL_THRESHOLD_MULTIPLE :: pyfloat where "SELL_THRESHOLD_MULTIPLE = lit (1 / 2)"

record policy =
  policy_resolution :: cost_resolution
  buy_threshold_pct :: pyfloat
  sell_threshold_pct :: pyfloat
  min_confidence_pct :: pyfloat
  fallback_cost_pct :: pyfloat
  policy_version :: int

definition decision_policy :: "raw_row list option \<Rightarrow> int \<Rightarrow> policy res" where
  "decision_policy table now =
     map_res (\<lambda>res. \<lparr>policy_resolution = resolution_dict res,
        buy_threshold_pct = fround (cost_pct res) 4,
        sell_threshold_pct = fround (fmul (cost_pct res) SELL_THRESHOLD_MULTIPLE) 4,
        min_confidence_pct = MIN_CONFIDENCE_PCT, fallback_cost_pct = FALLBACK_ROUND_TRIP_COST_PCT,
        policy_version = 1\<rparr>)
       (resolve_cost table now DEFAULT_COST_SYMBOL)"

section \<open>Facts\<close>

lemma usable_in_band:
  "usable_spread p = Inr (Some v) \<Longrightarrow> fle MIN_SANE_PCT v \<and> fle v MAX_SANE_PCT"
  by (auto simp: usable_spread_def map_res_eq_Inr split: json.splits option.splits if_splits)

lemma recent_quotes_eligible:
  "r \<in> set (recent_quotes provider symbol now table) \<Longrightarrow> r \<in> set table \<and> eligible provider symbol (cutoff_of now) r"
  by (auto simp: recent_quotes_def dest: in_set_takeD)

lemma recent_quotes_sorted:
  "sorted_wrt (\<lambda>a b. r_observed_at b \<le> r_observed_at a) (recent_quotes provider symbol now table)"
proof -
  let ?s = "sort_key (\<lambda>r. - r_observed_at r) (filter (eligible provider symbol (cutoff_of now)) table)"
  have "sorted (map (\<lambda>r. - r_observed_at r) ?s)" by simp
  then have "sorted (map (\<lambda>r. - r_observed_at r) (take SCAN_LIMIT ?s))"
    by (simp add: take_map [symmetric] sorted_wrt_take)
  then show ?thesis by (simp add: recent_quotes_def sorted_map)
qed

text \<open>The query depends on the eligible rows only.\<close>

lemma recent_quotes_cong:
  "filter (eligible provider symbol (cutoff_of now)) table = filter (eligible provider symbol (cutoff_of now)) table'
   \<Longrightarrow> recent_quotes provider symbol now table = recent_quotes provider symbol now table'"
  by (simp add: recent_quotes_def)

lemma scan_quotes_spec:
  "scan_quotes symbol provider now n rows = Inr out \<Longrightarrow>
   (case out of
      Inl m \<Rightarrow> m = n + length rows \<and> (\<forall>r \<in> set rows. usable_spread (r_payload r) = Inr None)
    | Inr res \<Rightarrow> \<exists>i < length rows. usable_spread (r_payload (rows ! i)) = Inr (Some (cost_pct res)) \<and>
        (\<forall>j < i. usable_spread (r_payload (rows ! j)) = Inr None) \<and>
        cost_rejected res = n + i \<and> cost_symbol res = symbol \<and> cost_basis res = ''observed_spread'' \<and>
        cost_source res = Some provider \<and> cost_observed_at res = Some (r_observed_at (rows ! i)))"
proof (induction rows arbitrary: n)
  case Nil
  then show ?case by auto
next
  case (Cons r rows)
  then obtain u where u: "usable_spread (r_payload r) = Inr u" by (auto simp: bind_res_eq_Inr)
  show ?case
  proof (cases u)
    case None
    then have s: "scan_quotes symbol provider now (n + 1) rows = Inr out" using Cons.prems u by simp
    show ?thesis
    proof (cases out)
      case (Inl m)
      then show ?thesis using Cons.IH [OF s] u None by auto
    next
      case (Inr res)
      with Cons.IH [OF s] obtain i where i: "i < length rows"
        "usable_spread (r_payload (rows ! i)) = Inr (Some (cost_pct res))"
        "\<forall>j < i. usable_spread (r_payload (rows ! j)) = Inr None" "cost_rejected res = n + 1 + i"
        "cost_symbol res = symbol" "cost_basis res = ''observed_spread''" "cost_source res = Some provider"
        "cost_observed_at res = Some (r_observed_at (rows ! i))" by auto
      have "\<forall>j < Suc i. usable_spread (r_payload ((r # rows) ! j)) = Inr None"
        using i(3) u None by (auto simp: less_Suc_eq_0_disj)
      then show ?thesis using i Inr by (auto intro!: exI [of _ "Suc i"])
    qed
  next
    case (Some v)
    then show ?thesis using Cons.prems u by (auto simp: Let_def)
  qed
qed

lemma fallback_in_band: "fle MIN_SANE_PCT FALLBACK_ROUND_TRIP_COST_PCT \<and> fle FALLBACK_ROUND_TRIP_COST_PCT MAX_SANE_PCT"
  by code_simp

section \<open>Properties\<close>

text \<open>The hurdle of an asset with a dealer is the first usable spread among its 25 newest
  accepted quotes of the last 72 hours, newest first, and every newer one was unusable; when
  there is none, it is the assumption, flagged as such.\<close>

theorem resolve_cost_spec:
  assumes "SPREAD_SOURCES symbol = Some provider" and "resolve_cost (Some table) now symbol = Inr res"
  shows "(\<exists>i < length (recent_quotes provider symbol now table).
      let q = recent_quotes provider symbol now table ! i in
        q \<in> set table \<and> eligible provider symbol (cutoff_of now) q \<and>
        usable_spread (r_payload q) = Inr (Some (cost_pct res)) \<and>
        (\<forall>j < i. usable_spread (r_payload (recent_quotes provider symbol now table ! j)) = Inr None \<and>
           r_observed_at q \<le> r_observed_at (recent_quotes provider symbol now table ! j)) \<and>
        cost_basis res = ''observed_spread'' \<and> cost_observed_at res = Some (r_observed_at q) \<and>
        cost_source res = Some provider \<and> cost_rejected res = i) \<or>
    (\<forall>q \<in> set (recent_quotes provider symbol now table). usable_spread (r_payload q) = Inr None) \<and>
      cost_basis res = ''assumed'' \<and> cost_pct res = FALLBACK_ROUND_TRIP_COST_PCT \<and>
      cost_observed_at res = None \<and> cost_rejected res = length (recent_quotes provider symbol now table)"
proof -
  let ?rows = "recent_quotes provider symbol now table"
  obtain found where f: "scan_quotes symbol provider now 0 ?rows = Inr found"
    and res: "res = (case found of Inr res \<Rightarrow> res | Inl rejected \<Rightarrow> assumed symbol
       (if ?rows = [] then NoRecentSpread provider MAX_AGE_HOURS else AllUnusable (length ?rows) provider) rejected)"
    using assms by (auto simp: resolve_cost_def Let_def map_res_eq_Inr)
  show ?thesis
  proof (cases found)
    case (Inl m)
    then show ?thesis using scan_quotes_spec [OF f] res by (simp add: assumed_def)
  next
    case (Inr r)
    then obtain i where i: "i < length ?rows" "usable_spread (r_payload (?rows ! i)) = Inr (Some (cost_pct res))"
      "\<forall>j < i. usable_spread (r_payload (?rows ! j)) = Inr None" "cost_rejected res = i"
      "cost_basis res = ''observed_spread''" "cost_source res = Some provider"
      "cost_observed_at res = Some (r_observed_at (?rows ! i))"
      using scan_quotes_spec [OF f] res by auto
    have "\<forall>j < i. r_observed_at (?rows ! i) \<le> r_observed_at (?rows ! j)"
      using recent_quotes_sorted i(1) by (auto simp: sorted_wrt_iff_nth_less)
    moreover have "?rows ! i \<in> set table \<and> eligible provider symbol (cutoff_of now) (?rows ! i)"
      using i(1) by (intro recent_quotes_eligible) simp
    ultimately show ?thesis using i by (intro disjI1 exI [of _ i]) (simp add: Let_def)
  qed
qed

definition demo_quote :: "json \<Rightarrow> int \<Rightarrow> string \<Rightarrow> raw_row" where
  "demo_quote payload t quality = \<lparr>r_provider = ''hamrahgold'', r_symbol = ''IR_GOLD_18K'', r_value = Fin 100,
     r_unit = ''IRT/gram'', r_currency = ''IRT'', r_payload = payload, r_observed_at = t, r_collected_at = t,
     r_quality = quality, r_dedupe = quality\<rparr>"

definition demo_quotes :: "raw_row list" where
  "demo_quotes =
    [demo_quote (JObj [(''spread_pct'', JFloat (Fin (1/2)))]) 0 ''ok'',
     demo_quote (JObj [(''spread_pct'', JStr ''x'')]) 7200000000 ''ok'',
     demo_quote (JObj [(''spread_pct'', JFloat (Fin 9))]) 9000000000 ''suspect'']"

theorem resolve_cost_spec_witness:
  "\<exists>res. resolve_cost (Some demo_quotes) 10800000000 ''IR_GOLD_18K'' = Inr res \<and> cost_pct res = Fin (1/2) \<and>
     (cost_basis res = ''observed_spread'' \<or> cost_basis res = ''assumed'')"
proof -
  have "map_res cost_pct (resolve_cost (Some demo_quotes) 10800000000 ''IR_GOLD_18K'') = Inr (Fin (1/2))" by code_simp
  then obtain res where r: "resolve_cost (Some demo_quotes) 10800000000 ''IR_GOLD_18K'' = Inr res" "cost_pct res = Fin (1/2)"
    by (auto simp: map_res_eq_Inr)
  have "SPREAD_SOURCES ''IR_GOLD_18K'' = Some ''hamrahgold''" by (simp add: SPREAD_SOURCES_def SPREAD_PROVIDER_def)
  from resolve_cost_spec [OF this r(1)] r show ?thesis by (auto simp: Let_def)
qed

text \<open>Only accepted quotes of the asset's own dealer count: two tables with the same eligible
  rows give the same hurdle, and an asset without a dealer gets the assumption whatever is
  stored. Whatever the table, the hurdle lies between 0.1 and 10 per cent.\<close>

theorem resolve_cost_isolated:
  assumes "resolve_cost (Some table) now symbol = Inr res"
    and "\<And>provider. SPREAD_SOURCES symbol = Some provider \<Longrightarrow>
      filter (eligible provider symbol (cutoff_of now)) table = filter (eligible provider symbol (cutoff_of now)) table'"
  shows "resolve_cost (Some table') now symbol = Inr res \<and>
    fle MIN_SANE_PCT (cost_pct res) \<and> fle (cost_pct res) MAX_SANE_PCT \<and>
    (cost_basis res = ''assumed'' \<or> symbol = ''IR_GOLD_18K'' \<and> cost_source res = Some ''hamrahgold'')"
proof (cases "SPREAD_SOURCES symbol")
  case None
  then show ?thesis using assms(1) fallback_in_band by (auto simp: resolve_cost_def assumed_def)
next
  case (Some provider)
  have s: "symbol = ''IR_GOLD_18K''" "provider = ''hamrahgold''"
    using Some by (auto simp: SPREAD_SOURCES_def SPREAD_PROVIDER_def split: if_splits)
  have eq: "recent_quotes provider symbol now table' = recent_quotes provider symbol now table"
    using recent_quotes_cong [OF assms(2) [OF Some]] by simp
  obtain found where f: "scan_quotes symbol provider now 0 (recent_quotes provider symbol now table) = Inr found"
    and res: "res = (case found of Inr res \<Rightarrow> res | Inl rejected \<Rightarrow> assumed symbol
       (if recent_quotes provider symbol now table = [] then NoRecentSpread provider MAX_AGE_HOURS
        else AllUnusable (length (recent_quotes provider symbol now table)) provider) rejected)"
    using assms(1) Some by (auto simp: resolve_cost_def Let_def map_res_eq_Inr)
  have "fle MIN_SANE_PCT (cost_pct res) \<and> fle (cost_pct res) MAX_SANE_PCT \<and>
      (cost_basis res = ''assumed'' \<or> cost_source res = Some ''hamrahgold'')"
  proof (cases found)
    case (Inl m)
    then show ?thesis using res fallback_in_band by (simp add: assumed_def)
  next
    case (Inr r)
    then show ?thesis using scan_quotes_spec [OF f] res usable_in_band s by auto
  qed
  moreover have "resolve_cost (Some table') now symbol = Inr res"
    using assms(1) Some eq by (simp add: resolve_cost_def Let_def)
  ultimately show ?thesis using s by blast
qed

theorem resolve_cost_isolated_witness:
  "\<exists>res. resolve_cost (Some (take 2 demo_quotes)) 10800000000 ''IR_GOLD_18K'' = Inr res"
proof -
  have "is_ok (resolve_cost (Some demo_quotes) 10800000000 ''IR_GOLD_18K'')" by code_simp
  then obtain res where r: "resolve_cost (Some demo_quotes) 10800000000 ''IR_GOLD_18K'' = Inr res"
    by (auto simp: is_ok_def split: sum.splits)
  have "filter (eligible p ''IR_GOLD_18K'' c) demo_quotes = filter (eligible p ''IR_GOLD_18K'' c) (take 2 demo_quotes)" for p c
    by (simp add: demo_quotes_def demo_quote_def eligible_def)
  from resolve_cost_isolated [OF r this] show ?thesis by blast
qed

end
