(* ===== verification/Signal_Engine.thy ===== *)
theory Signal_Engine
  imports Universe Market_Hours Costs
begin

text \<open>
  \<^verbatim>\<open>app/signals/engine.py\<close>: the pure scorer \<^verbatim>\<open>compute_signal\<close>, statement by statement, and the
  assembly of its inputs with the decision to publish or to withhold.

  numpy is a parameter (the record \<open>numlib\<close>), with its documented laws in the locale \<open>numpy\<close>.
  The database and the pandas feature frame appear as a record of what they return. The
  sentences of the payload are constructors that carry the numbers they print.
\<close>

section \<open>Constants and inputs\<close>

definition DEFAULT_FEE_PCT :: pyfloat where "DEFAULT_FEE_PCT = lit (1 / 2)"
definition DEFAULT_SPREAD_PCT :: pyfloat where "DEFAULT_SPREAD_PCT = lit 1"
definition DEFAULT_SLIPPAGE_PCT :: pyfloat where "DEFAULT_SLIPPAGE_PCT = lit (1 / 10)"
definition DEFAULT_ROUND_TRIP_COST_PCT :: pyfloat where
  "DEFAULT_ROUND_TRIP_COST_PCT =
     fadd (fadd (fmul (Fin 2) DEFAULT_FEE_PCT) DEFAULT_SPREAD_PCT) (fmul (Fin 2) DEFAULT_SLIPPAGE_PCT)"

definition REVIEW_AFTER :: int where "REVIEW_AFTER = 6 * hour_us"
definition TECHNICAL_ONLY_CONFIDENCE :: pyfloat where "TECHNICAL_ONLY_CONFIDENCE = lit (3 / 10)"
definition STALE_CONFIDENCE_MULTIPLIER :: pyfloat where "STALE_CONFIDENCE_MULTIPLIER = lit (3 / 10)"
definition TECHNICAL_ONLY_WEIGHT :: pyfloat where "TECHNICAL_ONLY_WEIGHT = lit (1 / 2)"

definition FORECAST_WEIGHTS :: "(string \<times> pyfloat) list" where
  "FORECAST_WEIGHTS = [(''1h'', lit (1 / 2)), (''4h'', lit (3 / 4)), (''eod'', lit 1), (''1d'', lit 1),
     (''3d'', lit (4 / 5)), (''7d'', lit (3 / 5)), (''30d'', lit (2 / 5))]"

text \<open>numpy, as far as the scorer calls it.\<close>

record numlib =
  np_average :: "pyfloat list \<Rightarrow> pyfloat list \<Rightarrow> pyfloat"   \<comment> \<open>values, weights\<close>
  np_mean :: "pyfloat list \<Rightarrow> pyfloat"
  np_clip :: "pyfloat \<Rightarrow> pyfloat \<Rightarrow> pyfloat \<Rightarrow> pyfloat"
  np_clip_int :: "int \<Rightarrow> int \<Rightarrow> int \<Rightarrow> int"
  np_sign :: "pyfloat \<Rightarrow> pyfloat"

text \<open>Why the newest observation does not count as fresh: nothing is stored, or its age, its
  instant and the tolerance in minutes, with whether the market is closed.\<close>

datatype stale_reason = NothingStored string | TooOld string int int int bool

text \<open>\<open>cost_resolved\<close> holds the five \<^verbatim>\<open>round_trip_cost_*\<close> provenance fields; without one they are
  the defaults of the dataclass.\<close>

record signal_inputs =
  symbol :: "string option"
  expected_change_pct :: "(string \<times> pyfloat option) list"
  confidence :: "(string \<times> pyfloat option) list"
  last_price :: "pyfloat option"
  sma20 :: "pyfloat option"
  sma50 :: "pyfloat option"
  rsi14 :: "pyfloat option"
  momentum_10_pct :: "pyfloat option"
  premium_z :: "pyfloat option"
  regime :: string
  data_fresh :: bool
  market_closed :: bool
  round_trip_cost_pct :: pyfloat
  trend_alignment :: "string option"
  trend_states :: "(string \<times> string) list"
  trend_alignment_age_days :: "pyfloat option"
  trend_weight :: pyfloat
  fund_flow_z :: "pyfloat option"
  market_risk :: string
  omitted_factors :: "(string \<times> omission_reason) list"
  stale_why :: "stale_reason option"
  cost_resolved :: "cost_resolution option"

definition default_inputs :: "string \<Rightarrow> signal_inputs" where
  "default_inputs symb = \<lparr>symbol = Some symb, expected_change_pct = [], confidence = [], last_price = None,
     sma20 = None, sma50 = None, rsi14 = None, momentum_10_pct = None, premium_z = None,
     regime = ''unknown'', data_fresh = True, market_closed = False,
     round_trip_cost_pct = DEFAULT_ROUND_TRIP_COST_PCT, trend_alignment = None, trend_states = [],
     trend_alignment_age_days = None, trend_weight = Fin 0, fund_flow_z = None,
     market_risk = [], omitted_factors = [], stale_why = None, cost_resolved = None\<rparr>"

section \<open>Bands\<close>

definition SIGNAL_BANDS :: "(string \<times> int \<times> int) list" where
  "SIGNAL_BANDS = [(''strong_sell'', 0, 25), (''sell'', 26, 40), (''hold'', 41, 59), (''buy'', 60, 74),
     (''strong_buy'', 75, 100)]"

definition score_to_signal :: "int \<Rightarrow> string" where
  "score_to_signal s = (if 75 \<le> s then ''strong_buy'' else if 60 \<le> s then ''buy''
     else if s \<le> 25 then ''strong_sell'' else if s \<le> 40 then ''sell'' else ''hold'')"

definition hold_within_band :: "numlib \<Rightarrow> pyfloat \<Rightarrow> pyfloat \<Rightarrow> pyfloat res" where
  "hold_within_band np before after =
     map_res (\<lambda>r. case map_of SIGNAL_BANDS (score_to_signal (np_clip_int np r 0 100)) of
         Some (low, high) \<Rightarrow> if flt before after then fmin after (Fin (of_int high))
                            else fmax after (Fin (of_int low))
       | None \<Rightarrow> after) (fround_int before)"

section \<open>The evidence\<close>

datatype remark =
    ForecastAbove pyfloat pyfloat | ForecastBelow pyfloat pyfloat | ForecastMove pyfloat
  | ConfidenceHigh pyfloat | ConfidenceLow pyfloat | NoForecast
  | HorizonsAgree | HorizonsDisagree
  | AboveBoth | AboveSma20 | BelowBoth | BelowSma20
  | Stacked bool "pyfloat option" bool | TimeframesContradict "(string \<times> string) list"
  | Oversold pyfloat | Overbought pyfloat | MomentumUp pyfloat | MomentumDown pyfloat
  | PremiumRich pyfloat | PremiumCheap pyfloat | HighVolatility | RetailCrowded pyfloat

datatype risk =
    StatisticalEstimates | MarketRisk string | TechnicalOnly | TimeframesDisagree | PremiumReverts
  | TopDecileVolatility | CrowdedFlow | StaleInput | LastSession

text \<open>The locals every section of the scorer updates.\<close>

record board =
  score :: pyfloat
  supporting :: "remark list"
  conflicting :: "remark list"
  risks :: "risk list"

definition add_score :: "pyfloat \<Rightarrow> board \<Rightarrow> board" where
  "add_score x b = b\<lparr>score := fadd (score b) x\<rparr>"
definition support :: "remark \<Rightarrow> board \<Rightarrow> board" where
  "support n b = b\<lparr>supporting := supporting b @ [n]\<rparr>"
definition conflict :: "remark \<Rightarrow> board \<Rightarrow> board" where
  "conflict n b = b\<lparr>conflicting := conflicting b @ [n]\<rparr>"
definition add_risk :: "risk \<Rightarrow> board \<Rightarrow> board" where
  "add_risk r b = b\<lparr>risks := risks b @ [r]\<rparr>"

lemmas board_ops = add_score_def support_def conflict_def add_risk_def

definition start_board :: "signal_inputs \<Rightarrow> board" where
  "start_board inp = \<lparr>score = Fin 50, supporting = [], conflicting = [],
     risks = [StatisticalEstimates, MarketRisk (market_risk inp)]\<rparr>"

text \<open>The present values of a dictionary, in order.\<close>

definition present :: "(string \<times> pyfloat option) list \<Rightarrow> (string \<times> pyfloat) list" where
  "present d = map (\<lambda>(h, x). (h, the x)) (filter (\<lambda>(h, x). x \<noteq> None) d)"

section \<open>Factors, in the order the scorer counts them\<close>

definition weighted_expectation :: "numlib \<Rightarrow> (string \<times> pyfloat) list \<Rightarrow> pyfloat" where
  "weighted_expectation np items =
     np_average np (map snd items)
       (map (\<lambda>(h, _). case map_of FORECAST_WEIGHTS h of None \<Rightarrow> lit (1 / 2) | Some w \<Rightarrow> w) items)"

definition cost_edge :: "pyfloat \<Rightarrow> pyfloat \<Rightarrow> pyfloat" where
  "cost_edge w cost =
     (if flt cost w then fsub w cost else if flt w (fneg cost) then fadd w cost else Fin 0)"

definition forecast_contribution :: "numlib \<Rightarrow> pyfloat \<Rightarrow> pyfloat \<Rightarrow> pyfloat" where
  "forecast_contribution np w cost = np_clip np (fmul (cost_edge w cost) (lit 8)) (lit (-25)) (lit 25)"

definition forecast_factor :: "numlib \<Rightarrow> signal_inputs \<Rightarrow> board \<Rightarrow> pyfloat option \<times> board" where
  "forecast_factor np inp b =
     (let items = present (expected_change_pct inp) in
      if items = [] then (None, b)
      else let w = weighted_expectation np items;
               cost = round_trip_cost_pct inp;
               b = add_score (forecast_contribution np w cost) b
      in (Some w,
          if flt cost w then support (ForecastAbove w cost) b
          else if flt (Fin 0) w then conflict (ForecastBelow w cost) b
          else conflict (ForecastMove w) b))"

text \<open>The measured confidence (if a model reported one), the figure used, and the board.\<close>

definition confidence_factor ::
  "numlib \<Rightarrow> signal_inputs \<Rightarrow> board \<Rightarrow> pyfloat option \<times> pyfloat \<times> board" where
  "confidence_factor np inp b =
     (let confidences = map snd (present (confidence inp)) in
      if confidences \<noteq> [] then
        let c = np_mean np confidences;
            b = add_score (fmul (fsub c (lit (1 / 2))) (lit 20)) b
        in (Some c, c, if fle (lit (3 / 5)) c then support (ConfidenceHigh c) b
                       else if flt c (lit (45 / 100)) then conflict (ConfidenceLow c) b else b)
      else (None, TECHNICAL_ONLY_CONFIDENCE, conflict NoForecast (add_risk TechnicalOnly b)))"

definition agreement_factor :: "numlib \<Rightarrow> signal_inputs \<Rightarrow> board \<Rightarrow> board" where
  "agreement_factor np inp b =
     (let items = present (expected_change_pct inp) in
      if length items < 2 then b
      else let signs = map (np_sign np) (filter (\<lambda>x. \<not> feq x (Fin 0)) (map snd items)) in
        if signs = [] then b
        else let agreement = fquot (fabs (fold (\<lambda>x s. fadd s x) signs (Fin 0)))
                               (rnd (of_nat (length signs)));
                 b = add_score (fmul (fsub agreement (lit (1 / 2))) (lit 12)) b
             in if fle (lit (3 / 4)) agreement then support HorizonsAgree b
                else if flt agreement (lit (1 / 2)) then conflict HorizonsDisagree b else b)"

text \<open>A float is true unless it is zero.\<close>

definition truthy :: "pyfloat option \<Rightarrow> bool" where
  "truthy x \<longleftrightarrow> x \<noteq> None \<and> x \<noteq> Some (Fin 0)"

definition sma_factor :: "signal_inputs \<Rightarrow> board \<Rightarrow> pyfloat \<times> board" where
  "sma_factor inp b =
     (if truthy (last_price inp) \<and> truthy (sma20 inp) \<and> truthy (sma50 inp) then
        let p = the (last_price inp); s20 = the (sma20 inp); s50 = the (sma50 inp);
            (f, b) =
              (if flt s20 p \<and> flt s50 s20 then (lit 12, support AboveBoth b)
               else if flt s20 p then (lit 6, support AboveSma20 b)
               else if flt p s20 \<and> flt s20 s50 then (lit (-12), conflict BelowBoth b)
               else if flt p s20 then (lit (-6), conflict BelowSma20 b)
               else (Fin 0, b))
        in (f, add_score f b)
      else (Fin 0, b))"

definition trend_proposal :: "numlib \<Rightarrow> pyfloat \<Rightarrow> pyfloat \<Rightarrow> pyfloat res" where
  "trend_proposal np s contribution =
     (let proposed = fadd s contribution in
      if flt (fabs (fsub s (lit 50))) (fabs (fsub proposed (lit 50)))
      then hold_within_band np s proposed else Inr proposed)"

definition trend_factor :: "numlib \<Rightarrow> signal_inputs \<Rightarrow> pyfloat \<Rightarrow> board \<Rightarrow> (pyfloat \<times> board) res" where
  "trend_factor np inp sma b =
     (if (trend_alignment inp = Some ''full_bullish'' \<or> trend_alignment inp = Some ''full_bearish'')
         \<and> flt (Fin 0) (trend_weight inp) then
        let bullish = trend_alignment inp = Some ''full_bullish'';
            direction = (if bullish then Fin 1 else Fin (-1));
            confirms = flt (Fin 0) (fmul sma direction);
            contribution = fmul (fmul direction (trend_weight inp)) (if confirms then lit (1 / 2) else lit 1)
        in map_res (\<lambda>proposed.
             let line = Stacked bullish (trend_alignment_age_days inp) confirms;
                 points = fsub proposed (score b);
                 b = b\<lparr>score := proposed\<rparr>
             in (points, if bullish then support line b else conflict line b))
           (trend_proposal np (score b) contribution)
      else if trend_alignment inp = Some ''not_aligned'' \<and> trend_states inp \<noteq> [] then
        let directions = remdups (filter (\<lambda>s. s = ''bullish'' \<or> s = ''bearish'') (map snd (trend_states inp)))
        in Inr (Fin 0, if 1 < length directions then
             add_risk TimeframesDisagree (conflict (TimeframesContradict
               (concat (map (\<lambda>tf. case map_of (trend_states inp) tf of None \<Rightarrow> [] | Some t \<Rightarrow> [(tf, t)])
                 [''1d'', ''4h'', ''1h'']))) b) else b)
      else Inr (Fin 0, b))"

definition rsi_factor :: "signal_inputs \<Rightarrow> board \<Rightarrow> board" where
  "rsi_factor inp b =
     (case rsi14 inp of None \<Rightarrow> b
      | Some r \<Rightarrow> if fle r (lit 30) then support (Oversold r) (add_score (lit 8) b)
                 else if fle (lit 70) r then conflict (Overbought r) (add_score (fneg (lit 8)) b)
                 else b)"

definition momentum_factor :: "numlib \<Rightarrow> signal_inputs \<Rightarrow> board \<Rightarrow> board" where
  "momentum_factor np inp b =
     (case momentum_10_pct inp of None \<Rightarrow> b
      | Some m \<Rightarrow>
          let b = add_score (np_clip np (fmul m (lit 2)) (lit (-8)) (lit 8)) b
          in if flt (lit 1) m then support (MomentumUp m) b
             else if flt m (lit (-1)) then conflict (MomentumDown m) b else b)"

definition premium_factor :: "signal_inputs \<Rightarrow> board \<Rightarrow> board" where
  "premium_factor inp b =
     (case premium_z inp of None \<Rightarrow> b
      | Some z \<Rightarrow>
          if flt (Fin 0) z then
            let b = b\<lparr>score := fsub (score b) (fmin (lit 10) (fmul z (lit 4)))\<rparr>
            in if flt (lit 1) z then add_risk PremiumReverts (conflict (PremiumRich z) b) else b
          else
            let b = add_score (fmin (lit 6) (fmul (fneg z) (lit 3))) b
            in if flt z (lit (-1)) then support (PremiumCheap z) b else b)"

definition regime_factor :: "signal_inputs \<Rightarrow> board \<Rightarrow> board" where
  "regime_factor inp b =
     (if regime inp = ''high_volatility''
      then conflict HighVolatility (add_risk TopDecileVolatility (b\<lparr>score := fsub (score b) (lit 5)\<rparr>))
      else b)"

definition flow_factor :: "signal_inputs \<Rightarrow> board \<Rightarrow> pyfloat \<times> board" where
  "flow_factor inp b =
     (case fund_flow_z inp of None \<Rightarrow> (Fin 0, b)
      | Some z \<Rightarrow>
          if flt (lit 1) z then
            let points = fneg (fmin (lit 4) (fmul (fsub z (lit 1)) (lit 4)))
            in (points, add_risk CrowdedFlow (conflict (RetailCrowded z) (add_score points b)))
          else (Fin 0, b))"

definition discount :: "bool \<Rightarrow> board \<Rightarrow> pyfloat \<times> board" where
  "discount model_backed b =
     (if model_backed then (Fin 0, b)
      else let discounted = fadd (lit 50) (fmul (fsub (score b) (lit 50)) TECHNICAL_ONLY_WEIGHT)
           in (fsub discounted (score b), b\<lparr>score := discounted\<rparr>))"

section \<open>The scorer\<close>

datatype invalidation = BelowSma pyfloat | AboveSma pyfloat | StaleOnly

text \<open>The first sentence of the explanation: the direction a verdict favors, or the stale hold.\<close>

datatype headline = Favor string int | StaleHold

definition direction_word :: "string \<Rightarrow> string" where
  "direction_word s = (if s = ''strong_buy'' then ''accumulating'' else if s = ''buy'' then ''buying''
     else if s = ''hold'' then ''waiting'' else if s = ''sell'' then ''reducing exposure''
     else ''exiting positions'')"

definition first_of :: "'a list \<Rightarrow> 'a option" where
  "first_of xs = (case xs of [] \<Rightarrow> None | x # _ \<Rightarrow> Some x)"

record signal_row =
  row_symbol :: "string option"
  generated_at :: int
  signal :: string
  final_score :: int
  row_confidence :: pyfloat
  row_headline :: headline
  row_supporting :: "remark list"
  row_conflicting :: "remark list"
  row_risks :: "risk list"
  row_invalidation :: invalidation
  review_at :: int
  row_fresh :: bool
  model_backed :: bool
  model_confidence :: "pyfloat option"
  forecast_move :: "pyfloat option"
  top_supporting :: "remark option"
  top_conflicting :: "remark option"
  technical_only_points :: pyfloat
  fund_flow_points :: pyfloat
  trend_points :: pyfloat
  row_inputs :: signal_inputs

definition invalidation_of :: "signal_inputs \<Rightarrow> int \<Rightarrow> invalidation" where
  "invalidation_of inp n =
     (if truthy (sma20 inp) \<and> truthy (last_price inp) then
        (if 60 \<le> n then BelowSma (the (sma20 inp)) else if n \<le> 40 then AboveSma (the (sma20 inp)) else StaleOnly)
      else StaleOnly)"

definition count_factors ::
  "numlib \<Rightarrow> signal_inputs \<Rightarrow> (pyfloat option \<times> pyfloat option \<times> pyfloat \<times> pyfloat \<times> pyfloat \<times> board) res" where
  "count_factors np inp =
     (let (weighted_exp, b) = forecast_factor np inp (start_board inp);
          (measured, mean_conf, b) = confidence_factor np inp b;
          b = agreement_factor np inp b;
          (sma, b) = sma_factor inp b
      in map_res (\<lambda>(trend_pts, b).
           let b = rsi_factor inp b;
               b = momentum_factor np inp b;
               b = premium_factor inp b;
               b = regime_factor inp b;
               (flow_pts, b) = flow_factor inp b
           in (weighted_exp, measured, mean_conf, trend_pts, flow_pts, b))
         (trend_factor np inp sma b))"

definition compute_signal :: "numlib \<Rightarrow> signal_inputs \<Rightarrow> int \<Rightarrow> signal_row res" where
  "compute_signal np inp now =
     bind_res (count_factors np inp) (\<lambda>(weighted_exp, measured, mean_conf, trend_pts, flow_pts, b).
     let (tech_pts, b) = discount (measured \<noteq> None) b;
         forced_hold = \<not> data_fresh inp;
         b = (if forced_hold then b\<lparr>risks := StaleInput # risks b\<rparr>
              else if market_closed inp then add_risk LastSession b else b)
     in map_res (\<lambda>r.
          let n = (if forced_hold then 50 else np_clip_int np r 0 100);
              conf = np_clip np (fmul mean_conf (if data_fresh inp then lit 1 else STALE_CONFIDENCE_MULTIPLIER))
                       (lit (5 / 100)) (lit (95 / 100))
          in \<lparr>row_symbol = symbol inp, generated_at = now,
              signal = (if forced_hold then ''hold'' else score_to_signal n),
              final_score = n, row_confidence = fround conf 3,
              row_headline = (if forced_hold then StaleHold else Favor (direction_word (score_to_signal n)) n),
              row_supporting = supporting b, row_conflicting = conflicting b, row_risks = risks b,
              row_invalidation = invalidation_of inp n,
              review_at = now + REVIEW_AFTER, row_fresh = data_fresh inp,
              model_backed = (measured \<noteq> None),
              model_confidence = map_option (\<lambda>c. fround c 4) measured,
              forecast_move = weighted_exp,
              top_supporting = first_of (supporting b), top_conflicting = first_of (conflicting b),
              technical_only_points = fround tech_pts 2, fund_flow_points = fround flow_pts 2,
              trend_points = fround trend_pts 2, row_inputs = inp\<rparr>)
        (fround_int (score b)))"

section \<open>numpy\<close>

locale numpy =
  fixes np :: numlib
  assumes clip_law: "fle lo hi \<Longrightarrow> np_clip np x lo hi =
      (if x = NaN then NaN else if flt x lo then lo else if flt hi x then hi else x)"
    and clip_int_law: "np_clip_int np n 0 100 = max 0 (min n 100)"
    and sign_law: "np_sign np x = (case x of Fin y \<Rightarrow> Fin (sgn y) | PInf \<Rightarrow> Fin 1 | NInf \<Rightarrow> Fin (-1) | NaN \<Rightarrow> NaN)"
begin

lemma clip_range:
  assumes "fle lo hi" "x \<noteq> NaN"
  shows "fle lo (np_clip np x lo hi)" "fle (np_clip np x lo hi) hi"
proof -
  have "lo \<noteq> NaN" "hi \<noteq> NaN" using assms(1) by auto
  then show "fle lo (np_clip np x lo hi)" "fle (np_clip np x lo hi) hi"
    using assms clip_law [OF assms(1), of x] by (auto simp: not_flt)
qed

lemma clip_mono:
  assumes "fle lo hi" "fle x y"
  shows "fle (np_clip np x lo hi) (np_clip np y lo hi)"
proof -
  have n: "lo \<noteq> NaN" "hi \<noteq> NaN" "x \<noteq> NaN" "y \<noteq> NaN" using assms by auto
  then show ?thesis
    using assms clip_law [OF assms(1), of x] clip_law [OF assms(1), of y]
    by (auto simp: fle_less_eq flt_less)
qed

lemma clip_NaN: "fle lo hi \<Longrightarrow> np_clip np x lo hi = NaN \<longleftrightarrow> x = NaN"
  using clip_range(1) [of lo hi x] clip_law [of lo hi x] by auto

end

text \<open>A reference library: sums from left to right.\<close>

definition plain_sum :: "pyfloat list \<Rightarrow> pyfloat" where
  "plain_sum xs = fold (\<lambda>x s. fadd s x) xs (Fin 0)"

definition reference_numpy :: numlib where
  "reference_numpy = \<lparr>
     np_average = (\<lambda>xs ws. fquot (plain_sum (map2 fmul xs ws)) (plain_sum ws)),
     np_mean = (\<lambda>xs. fquot (plain_sum xs) (rnd (of_nat (length xs)))),
     np_clip = (\<lambda>x lo hi. if x = NaN then NaN else if flt x lo then lo else if flt hi x then hi else x),
     np_clip_int = (\<lambda>n lo hi. max lo (min n hi)),
     np_sign = (\<lambda>x. case x of Fin y \<Rightarrow> Fin (sgn y) | PInf \<Rightarrow> Fin 1 | NInf \<Rightarrow> Fin (-1) | NaN \<Rightarrow> NaN)\<rparr>"

interpretation ref: numpy reference_numpy
  by unfold_locales (simp_all add: reference_numpy_def)

section \<open>Bands\<close>

lemma band_of_score:
  assumes "0 \<le> n" "n \<le> 100"
  obtains lo hi where "map_of SIGNAL_BANDS (score_to_signal n) = Some (lo, hi)" "lo \<le> n" "n \<le> hi"
    "0 \<le> lo" "hi \<le> 100"
proof -
  consider "n \<le> 25" | "26 \<le> n" "n \<le> 40" | "41 \<le> n" "n \<le> 59" | "60 \<le> n" "n \<le> 74" | "75 \<le> n"
    by linarith
  then show thesis
  proof cases
    case 1
    show thesis by (rule that [of 0 25]) (use 1 assms in \<open>simp_all add: score_to_signal_def SIGNAL_BANDS_def\<close>)
  next
    case 2
    show thesis by (rule that [of 26 40]) (use 2 in \<open>simp_all add: score_to_signal_def SIGNAL_BANDS_def\<close>)
  next
    case 3
    show thesis by (rule that [of 41 59]) (use 3 in \<open>simp_all add: score_to_signal_def SIGNAL_BANDS_def\<close>)
  next
    case 4
    show thesis by (rule that [of 60 74]) (use 4 in \<open>simp_all add: score_to_signal_def SIGNAL_BANDS_def\<close>)
  next
    case 5
    show thesis by (rule that [of 75 100]) (use 5 assms in \<open>simp_all add: score_to_signal_def SIGNAL_BANDS_def\<close>)
  qed
qed

lemma same_band:
  assumes "map_of SIGNAL_BANDS (score_to_signal n) = Some (lo, hi)" "lo \<le> m" "m \<le> hi"
  shows "score_to_signal m = score_to_signal n"
  using assms by (auto simp: score_to_signal_def SIGNAL_BANDS_def split: if_splits)

lemma fround_int_Inr: "fround_int a = Inr r \<Longrightarrow> \<exists>x. a = Fin x \<and> r = round_even x"
  by (cases a) (auto simp: fround_int_def)

context numpy
begin

lemma hold_within_band_same:
  assumes "hold_within_band np (Fin x) after = Inr p" "after \<noteq> NaN" "\<not> feq after (Fin x)"
  shows "\<exists>z. p = Fin z \<and>
    score_to_signal (max 0 (min (round_even z) 100)) = score_to_signal (max 0 (min (round_even x) 100))"
proof -
  let ?r = "max 0 (min (round_even x) 100)"
  obtain lo hi where b: "map_of SIGNAL_BANDS (score_to_signal ?r) = Some (lo, hi)" "lo \<le> ?r" "?r \<le> hi"
    "0 \<le> lo" "hi \<le> 100" by (rule band_of_score [of ?r]) auto
  have p: "p = (if flt (Fin x) after then fmin after (Fin (of_int hi)) else fmax after (Fin (of_int lo)))"
    using assms(1) b(1) by (simp add: hold_within_band_def fround_int_def clip_int_law)
  have at: "score_to_signal (max 0 (min (round_even z) 100)) = score_to_signal ?r"
    if "z \<le> of_int hi" "x \<le> z \<or> z = of_int hi" for z
  proof (rule same_band [OF b(1)])
    have "round_even z \<le> hi" using that(1) by (rule round_even_le)
    then show "max 0 (min (round_even z) 100) \<le> hi" using b by simp
    have "?r \<le> max 0 (min (round_even z) 100) \<or> round_even z = hi"
      using that(2) round_even_mono [of x z] by auto
    then show "lo \<le> max 0 (min (round_even z) 100)" using b by auto
  qed
  have at': "score_to_signal (max 0 (min (round_even z) 100)) = score_to_signal ?r"
    if "of_int lo \<le> z" "z \<le> x \<or> z = of_int lo" for z
  proof (rule same_band [OF b(1)])
    have "lo \<le> round_even z" using that(1) by (rule round_even_ge)
    then show "lo \<le> max 0 (min (round_even z) 100)" using b by simp
    have "max 0 (min (round_even z) 100) \<le> ?r \<or> round_even z = lo"
      using that(2) round_even_mono [of z x] by auto
    then show "max 0 (min (round_even z) 100) \<le> hi" using b by auto
  qed
  show ?thesis
  proof (cases after)
    case (Fin y)
    show ?thesis
    proof (cases "x < y")
      case True
      then have "p = Fin (if of_int hi < y then of_int hi else y)" using p Fin by (auto simp: fmin_def)
      then show ?thesis using True at [of "if of_int hi < y then of_int hi else y"] by auto
    next
      case False
      then have "p = Fin (if y < of_int lo then of_int lo else y)" using p Fin by (auto simp: fmax_def)
      then show ?thesis using False at' [of "if y < of_int lo then of_int lo else y"] by auto
    qed
  next
    case PInf
    then have "p = Fin (of_int hi)" using p by (simp add: fmin_def)
    then show ?thesis using at [of "of_int hi"] by simp
  next
    case NInf
    then have "p = Fin (of_int lo)" using p by (simp add: fmax_def)
    then show ?thesis using at' [of "of_int lo"] by simp
  qed (use assms(2) in simp)
qed

lemma trend_proposal_band:
  assumes "trend_proposal np s c = Inr p" "flt (fabs (fsub s (lit 50))) (fabs (fsub (fadd s c) (lit 50)))"
  shows "\<exists>x z. s = Fin x \<and> p = Fin z \<and>
    score_to_signal (np_clip_int np (round_even z) 0 100) = score_to_signal (np_clip_int np (round_even x) 0 100)"
proof -
  have h: "hold_within_band np s (fadd s c) = Inr p" using assms by (simp add: trend_proposal_def Let_def)
  then obtain r where "fround_int s = Inr r" by (auto simp: hold_within_band_def map_res_eq_Inr)
  then obtain x where s: "s = Fin x" using fround_int_Inr by blast
  have nan: "fadd s c \<noteq> NaN" using assms(2) by (auto simp: fsub_def)
  have "\<not> feq (fadd s c) (Fin x)" using assms(2) s by (auto simp: feq_def)
  from hold_within_band_same [OF h [unfolded s] _ this [unfolded s]] nan s clip_int_law show ?thesis by simp
qed

end

section \<open>The forecast factor\<close>

lemma fle_PInf: "a \<noteq> NaN \<Longrightarrow> fle a PInf"
  by (cases a) (simp_all add: fle_less_eq less_eq_pyfloat_def)

lemma NInf_fle: "a \<noteq> NaN \<Longrightarrow> fle NInf a"
  by (cases a) (simp_all add: fle_less_eq less_eq_pyfloat_def)

lemma fmul_pos_not_NaN: "0 < k \<Longrightarrow> a \<noteq> NaN \<Longrightarrow> fmul a (Fin k) \<noteq> NaN"
  by (cases a) (auto simp: signed_inf_def)

lemma fmul_pos_mono:
  assumes k: "0 < k" and ab: "fle a b"
  shows "fle (fmul a (Fin k)) (fmul b (Fin k))"
proof -
  have nan: "a \<noteq> NaN" "b \<noteq> NaN" using ab by auto
  show ?thesis
  proof (cases "\<exists>x y. a = Fin x \<and> b = Fin y")
    case True
    then obtain x y where e: "a = Fin x" "b = Fin y" by blast
    then have "x * k \<le> y * k" using ab k by (simp add: mult_right_mono)
    then show ?thesis using e by (simp add: rnd_fle)
  next
    case False
    then have "b = PInf \<or> a = NInf" using ab nan
      by (cases a; cases b) (auto simp: fle_less_eq less_eq_pyfloat_def)
    moreover have "fmul PInf (Fin k) = PInf" "fmul NInf (Fin k) = NInf"
      using k by (simp_all add: signed_inf_def)
    ultimately show ?thesis using fle_PInf NInf_fle fmul_pos_not_NaN [OF k] nan by metis
  qed
qed

lemma cost_edge_mono:
  assumes "0 \<le> c" "x \<le> y"
  shows "fle (cost_edge (Fin x) (Fin c)) (cost_edge (Fin y) (Fin c))"
proof -
  have up: "fle (Fin 0) (cost_edge (Fin x) (Fin c))" if "\<not> x < - c" for x
    using that by (auto simp: cost_edge_def intro: rnd_nonneg)
  have down: "fle (cost_edge (Fin x) (Fin c)) (Fin 0)" if "\<not> c < x" for x
    using that by (auto simp: cost_edge_def intro: rnd_nonpos)
  consider "c < x" | "y < - c" | "\<not> c < x" "\<not> y < - c" by linarith
  then show ?thesis
  proof cases
    case 1
    then show ?thesis using assms by (auto simp: cost_edge_def intro: rnd_fle)
  next
    case 2
    then show ?thesis using assms by (auto simp: cost_edge_def intro: rnd_fle)
  next
    case 3
    then show ?thesis using up [of y] down [of x] fle_trans by blast
  qed
qed

context numpy
begin

lemma forecast_contribution_mono:
  assumes "0 \<le> c" "x \<le> y"
  shows "fle (forecast_contribution np (Fin x) (Fin c)) (forecast_contribution np (Fin y) (Fin c))"
  unfolding forecast_contribution_def
  by (intro clip_mono) (use fmul_pos_mono [OF _ cost_edge_mono [OF assms], of 8] in \<open>simp_all add: lit_def\<close>)

lemma forecast_contribution_range:
  "fle (Fin (-25)) (forecast_contribution np (Fin x) (Fin c)) \<and>
   fle (forecast_contribution np (Fin x) (Fin c)) (Fin 25)"
proof -
  have "fmul (rnd z) (Fin 8) \<noteq> NaN" for z by (cases "rnd z") (auto simp: signed_inf_def)
  then have "fmul (cost_edge (Fin x) (Fin c)) (lit 8) \<noteq> NaN"
    by (auto simp: cost_edge_def lit_def)
  from clip_range [OF _ this, of "lit (-25)" "lit 25"] show ?thesis
    by (simp add: forecast_contribution_def lit_def)
qed

lemma forecast_deadband: "\<bar>x\<bar> \<le> c \<Longrightarrow> forecast_contribution np (Fin x) (Fin c) = Fin 0"
  using clip_law [of "lit (-25)" "lit 25" "Fin 0"]
  by (simp add: forecast_contribution_def cost_edge_def lit_def abs_le_iff)

end

section \<open>Exact distances from fifty\<close>

text \<open>Near the middle of the scale the subtraction of 50 loses nothing.\<close>

lemma near_fifty_exact:
  assumes t: "rnd t = Fin t" "16 \<le> t" "\<bar>t - 50\<bar> < 32"
  shows "rnd (t - 50) = Fin (t - 50)"
proof -
  have rq: "rq t = t" using t(1) by (auto simp: rnd_def Let_def split: if_splits)
  have "expo 16 = 4" by (rule expo_unique) simp_all
  then have "4 \<le> expo t" using expo_mono [of 16 t] t(2) by simp
  then have g: "-48 \<le> grid t" using t(2) by (simp add: grid_def)
  define k where "k = round_even (t / p2 (grid t))"
  let ?m = "k * 2 ^ nat (grid t + 48)"
  have "p2 (grid t + 48) = of_int (2 ^ nat (grid t + 48))" using g by (intro p2_nat) simp
  then have pg: "p2 (grid t) = of_int (2 ^ nat (grid t + 48)) * p2 (-48)"
    using p2_add [of "grid t + 48" "-48"] by simp
  have "t = of_int k * p2 (grid t)" using rq by (simp add: rq_def k_def)
  then have tm: "t = of_int ?m * p2 (-48)" unfolding pg by (simp only: of_int_mult mult.assoc)
  have fifty: "(50::rat) = of_int (50 * 2 ^ 48) * p2 (-48)" by simp
  have d: "t - 50 = of_int (?m - 50 * 2 ^ 48) * p2 (-48)"
    using tm fifty by (simp only: of_int_diff left_diff_distrib)
  have gd: "grid (t - 50) \<le> -48"
  proof (cases "t = 50")
    case False
    have "expo 31 = 4" by (rule expo_unique) simp_all
    have "p2 (expo \<bar>t - 50\<bar>) < p2 5" using expo_bounds [of "\<bar>t - 50\<bar>"] False t(3) by simp
    then have "expo \<bar>t - 50\<bar> < 5" by (simp only: p2_strict)
    then show ?thesis by (simp add: grid_def)
  qed (simp add: grid_def expo_def ilog2up.simps)
  from rq_grid_multiple [OF d gd] have "rq (t - 50) = t - 50" .
  moreover have "(32::rat) < overflow_at" by (simp add: overflow_at_def)
  ultimately show ?thesis using t(3) by (auto simp: rnd_def Let_def)
qed

lemma far_from_fifty:
  assumes t: "rnd t = Fin t" and d: "d < 32" "rnd d = Fin d"
  shows "fle (Fin d) (fabs (fsub (Fin t) (lit 50))) \<longleftrightarrow> d \<le> \<bar>t - 50\<bar>"
    and "flt (Fin d) (fabs (fsub (Fin t) (lit 50))) \<longleftrightarrow> d < \<bar>t - 50\<bar>"
proof -
  have abs: "fabs (fsub (Fin t) (lit 50)) = rnd \<bar>t - 50\<bar>"
  proof -
    have pos: "fabs a = a" if "fle (Fin 0) a" for a using that by (auto elim!: fle_Fin_cases)
    have "\<bar>t - 50\<bar> = t - 50 \<or> \<bar>t - 50\<bar> = - (t - 50)" by linarith
    then have "fabs (rnd (t - 50)) = fabs (rnd \<bar>t - 50\<bar>)"
      using rnd_minus [of "t - 50"] fabs_fneg [of "rnd (t - 50)"] by metis
    also have "\<dots> = rnd \<bar>t - 50\<bar>" by (rule pos) (simp add: rnd_nonneg)
    finally show ?thesis by (simp add: lit_def)
  qed
  show "fle (Fin d) (fabs (fsub (Fin t) (lit 50))) \<longleftrightarrow> d \<le> \<bar>t - 50\<bar>"
    and "flt (Fin d) (fabs (fsub (Fin t) (lit 50))) \<longleftrightarrow> d < \<bar>t - 50\<bar>"
  proof -
    have "rnd \<bar>t - 50\<bar> = Fin \<bar>t - 50\<bar> \<or> fle (Fin 32) (rnd \<bar>t - 50\<bar>) \<and> 32 \<le> \<bar>t - 50\<bar>"
    proof (cases "16 \<le> t \<and> \<bar>t - 50\<bar> < 32")
      case True
      then have "rnd (t - 50) = Fin (t - 50)" using near_fifty_exact t by blast
      then show ?thesis using rnd_minus [of "t - 50"] by (simp add: abs_if)
    next
      case False
      then have "32 \<le> \<bar>t - 50\<bar>" by linarith
      then show ?thesis using rnd_ge_int [of 32 "\<bar>t - 50\<bar>"] by simp
    qed
    then have "(fle (Fin d) (rnd \<bar>t - 50\<bar>) \<longleftrightarrow> d \<le> \<bar>t - 50\<bar>) \<and> (flt (Fin d) (rnd \<bar>t - 50\<bar>) \<longleftrightarrow> d < \<bar>t - 50\<bar>)"
      using d(1) by (auto elim!: fle_Fin_cases simp: fle_PInf)
    then show "fle (Fin d) (fabs (fsub (Fin t) (lit 50))) \<longleftrightarrow> d \<le> \<bar>t - 50\<bar>"
      and "flt (Fin d) (fabs (fsub (Fin t) (lit 50))) \<longleftrightarrow> d < \<bar>t - 50\<bar>" using abs by auto
  qed
qed

section \<open>How committal a verdict is\<close>

definition commitment :: "string \<Rightarrow> int" where
  "commitment s = (if s = ''strong_buy'' then 2 else if s = ''buy'' then 1
     else if s = ''sell'' then -1 else if s = ''strong_sell'' then -2 else 0)"

definition reading :: "rat \<Rightarrow> int" where
  "reading x = commitment (score_to_signal (max 0 (min (round_even x) 100)))"

lemma round_even_less_half: "round_even x \<le> n \<longleftrightarrow> x < of_int n + 1 / 2 \<or> (x = of_int n + 1 / 2 \<and> even n)"
proof -
  have f: "of_int \<lfloor>x\<rfloor> \<le> x" "x < of_int \<lfloor>x\<rfloor> + 1" using floor_correct [of x] by simp_all
  consider "\<lfloor>x\<rfloor> < n" | "\<lfloor>x\<rfloor> = n" | "n < \<lfloor>x\<rfloor>" by linarith
  then show ?thesis
  proof cases
    case 1
    then have "of_int \<lfloor>x\<rfloor> + 1 \<le> (of_int n :: rat)" by (metis of_int_1 of_int_add of_int_le_iff zless_imp_add1_zle)
    then show ?thesis using 1 f round_even_floor(2) [of x] by auto
  next
    case 2
    then show ?thesis using f by (auto simp: round_even_def Let_def)
  next
    case 3
    then have "of_int n + 1 \<le> (of_int \<lfloor>x\<rfloor> :: rat)" by (metis of_int_1 of_int_add of_int_le_iff zless_imp_add1_zle)
    then have "of_int n + 1 \<le> x" using f(1) by linarith
    then show ?thesis using 3 round_even_floor(1) [of x] by auto
  qed
qed

lemma reading_cases:
  "reading x = (if x < 51/2 then -2 else if x \<le> 81/2 then -1 else if x < 119/2 then 0
     else if x \<le> 149/2 then 1 else 2)"
proof -
  note h = round_even_less_half [of x 25] round_even_less_half [of x 40] round_even_less_half [of x 59]
    round_even_less_half [of x 74]
  have "reading x = (if round_even x \<le> 25 then -2 else if round_even x \<le> 40 then -1
     else if round_even x \<le> 59 then 0 else if round_even x \<le> 74 then 1 else 2)"
    by (auto simp: reading_def commitment_def score_to_signal_def)
  then show ?thesis using h by auto
qed

definition milder :: "int \<Rightarrow> int \<Rightarrow> bool" where
  "milder a b \<longleftrightarrow> 0 \<le> a * sgn b \<and> \<bar>a\<bar> \<le> \<bar>b\<bar>"

context numpy
begin

lemma trend_proposal_milder:
  assumes s: "rnd x = Fin x" and p: "trend_proposal np (Fin x) c = Inr (Fin z)"
    and c: "fle (fabs c) (Fin 18)"
  shows "milder (reading z) (reading x)"
proof (cases "flt (fabs (fsub (Fin x) (lit 50))) (fabs (fsub (fadd (Fin x) c) (lit 50)))")
  case True
  from trend_proposal_band [OF p True] have "reading z = reading x"
    by (simp add: reading_def clip_int_law)
  then show ?thesis by (simp add: milder_def sgn_if)
next
  case False
  obtain y where y: "c = Fin y" "\<bar>y\<bar> \<le> 18" using c by (cases c) (auto simp: fle_def feq_def)
  have z: "rnd (x + y) = Fin z" using p False y by (simp add: trend_proposal_def)
  then have zd: "rnd z = Fin z" by (rule rnd_idem)
  have zx: "fle (fabs (fsub (Fin z) (lit 50))) (fabs (fsub (Fin x) (lit 50)))"
    using False z y(1) not_flt [of "fabs (fsub (Fin x) (lit 50))" "fabs (fsub (Fin z) (lit 50))"]
    by (simp add: lit_def)
  have r: "rnd (19/2) = Fin (19/2)" "rnd (49/2) = Fin (49/2)" "rnd (117/2) = Fin (117/2)" "rnd (83/2) = Fin (83/2)" by code_simp+
  have far: "19/2 \<le> \<bar>z - 50\<bar> \<Longrightarrow> 19/2 \<le> \<bar>x - 50\<bar>"
    using far_from_fifty(1) [OF s _ r(1)] far_from_fifty(1) [OF zd _ r(1)] fle_trans zx by auto
  have strong: "49/2 < \<bar>z - 50\<bar> \<Longrightarrow> 49/2 < \<bar>x - 50\<bar>"
    using far_from_fifty(2) [OF s _ r(2)] far_from_fifty(2) [OF zd _ r(2)] zx
    by (auto simp: lit_def flt_less fle_less_eq)
  have up: "x \<le> 81/2 \<Longrightarrow> z \<le> 117/2"
    using rnd_fle [of "x + y" "117/2"] y(2) z r(3) by simp
  have down: "119/2 \<le> x \<Longrightarrow> 83/2 \<le> z"
    using rnd_fle [of "83/2" "x + y"] y(2) z r(4) by simp
  consider "x < 51/2" | "51/2 \<le> x" "x \<le> 81/2" | "81/2 < x" "x < 119/2" | "119/2 \<le> x" "x \<le> 149/2" | "149/2 < x"
    by linarith
  then show ?thesis
  proof cases
    case 1
    then show ?thesis using up by (auto simp: milder_def reading_cases)
  next
    case 2
    then have "\<not> 49/2 < \<bar>z - 50\<bar>" using strong by auto
    then show ?thesis using 2 up by (auto simp: milder_def reading_cases)
  next
    case 3
    then have "\<not> 19/2 \<le> \<bar>x - 50\<bar>" by linarith
    then have "\<not> 19/2 \<le> \<bar>z - 50\<bar>" using far by blast
    then have "81/2 < z" "z < 119/2" by (simp_all only: not_le abs_less_iff) linarith+
    then show ?thesis using 3 by (auto simp: milder_def reading_cases)
  next
    case 4
    then have "\<not> 49/2 < \<bar>z - 50\<bar>" using strong by auto
    then have "z \<le> 149/2" by linarith
    then show ?thesis using 4 down by (auto simp: milder_def reading_cases)
  next
    case 5
    then show ?thesis using down by (auto simp: milder_def reading_cases)
  qed
qed

end

section \<open>Rounded figures stay in their range\<close>

lemma fround_mono:
  assumes "fle a b"
  shows "fle (fround a n) (fround b n)"
proof -
  have nan: "a \<noteq> NaN" "b \<noteq> NaN" using assms by auto
  have keep: "fround x n \<noteq> NaN" if "x \<noteq> NaN" for x using that by (cases x) (auto simp: fround_def)
  show ?thesis
  proof (cases "\<exists>x y. a = Fin x \<and> b = Fin y")
    case True
    then obtain x y where e: "a = Fin x" "b = Fin y" by blast
    then have "x * 10 ^ n \<le> y * 10 ^ n" using assms by simp
    then have "round_even (x * 10 ^ n) \<le> round_even (y * 10 ^ n)" by (rule round_even_mono)
    then show ?thesis using e by (simp add: fround_def rnd_fle divide_right_mono)
  next
    case False
    then have "b = PInf \<or> a = NInf"
      using assms nan by (cases a; cases b) (auto simp: fle_less_eq less_eq_pyfloat_def)
    then show ?thesis using fle_PInf NInf_fle keep nan by (auto simp: fround_def)
  qed
qed

section \<open>An upper bound on the running score\<close>

text \<open>The score is at most \<open>n\<close>, or not a number (and then no row is written).\<close>

definition at_most :: "int \<Rightarrow> pyfloat \<Rightarrow> bool" where
  "at_most n a \<longleftrightarrow> a = NaN \<or> fle a (Fin (of_int n))"

lemma at_most_NaN [simp]: "at_most n NaN" by (simp add: at_most_def)

lemma at_most_NInf [simp]: "at_most n NInf" by (simp add: at_most_def NInf_fle)

lemma at_most_PInf [simp]: "\<not> at_most n PInf" by (simp add: at_most_def fle_def feq_def)

lemma at_most_Fin [simp]: "at_most n (Fin x) \<longleftrightarrow> x \<le> of_int n" by (simp add: at_most_def)

lemma at_most_cases:
  assumes "at_most n a"
  obtains "a = NaN" | "a = NInf" | x where "a = Fin x" "x \<le> of_int n"
  using assms by (auto simp: at_most_def elim: Fin_fle_cases)

lemma at_most_rnd: "x \<le> of_int n \<Longrightarrow> \<bar>n\<bar> \<le> 2 ^ 53 \<Longrightarrow> at_most n (rnd x)"
  by (simp add: at_most_def rnd_le_int)

lemma at_most_mono: "at_most m a \<Longrightarrow> m \<le> n \<Longrightarrow> at_most n a"
  by (erule at_most_cases) auto

lemma at_most_fadd:
  assumes "at_most m a" "at_most n b" "\<bar>m + n\<bar> \<le> 2 ^ 53"
  shows "at_most (m + n) (fadd a b)"
  using assms(1)
proof (cases rule: at_most_cases)
  case (3 x)
  from assms(2) show ?thesis
  proof (cases rule: at_most_cases)
    case (3 y)
    have "x + y \<le> of_int (m + n)" using 3 \<open>x \<le> of_int m\<close> by simp
    then show ?thesis using 3 \<open>a = Fin x\<close> assms(3) at_most_rnd by simp
  qed (use 3 in auto)
next
  case 2
  from assms(2) show ?thesis by (cases rule: at_most_cases) (use 2 in auto)
qed simp

lemma at_most_fadd_to: "at_most m a \<Longrightarrow> at_most n b \<Longrightarrow> m + n = k \<Longrightarrow> \<bar>k\<bar> \<le> 2 ^ 53 \<Longrightarrow> at_most k (fadd a b)"
  using at_most_fadd [of m a n b] by simp

lemma at_most_fsub:
  assumes "at_most n a" "\<bar>n\<bar> \<le> 2 ^ 53" "fle (Fin 0) b"
  shows "at_most n (fsub a b)"
  using assms(3)
proof (cases rule: fle_Fin_cases)
  case 1
  then show ?thesis using assms(1) by (auto simp: fsub_def elim!: at_most_cases)
next
  case (2 y)
  have "at_most 0 (fneg b)" using 2 by simp
  from at_most_fadd [OF assms(1) this] assms(2) show ?thesis by (simp add: fsub_def)
qed

lemma fmul_nonneg:
  assumes "fle (Fin 0) a" "0 < k"
  shows "fle (Fin 0) (fmul a (Fin k))"
  using fmul_pos_mono [OF assms(2,1)] by simp

lemma fmin_first: "at_most n a \<Longrightarrow> a \<noteq> NaN \<Longrightarrow> at_most n (fmin a b)"
  using fle_trans [of b a] by (auto simp: fmin_def at_most_def fle_def [of b a])

lemma fmin_nonneg: "fle (Fin 0) a \<Longrightarrow> fle (Fin 0) b \<Longrightarrow> fle (Fin 0) (fmin a b)"
  by (simp add: fmin_def)

context numpy
begin

lemma clip_at_most:
  "fle lo (Fin (of_int n)) \<Longrightarrow> at_most n (np_clip np x lo (Fin (of_int n)))"
  using clip_range [of lo "Fin (of_int n)" x] clip_NaN [of lo "Fin (of_int n)" x]
  by (auto simp: at_most_def)

lemma hold_within_band_eq:
  assumes "hold_within_band np (Fin x) after = Inr p"
    "map_of SIGNAL_BANDS (score_to_signal (max 0 (min (round_even x) 100))) = Some (lo, hi)"
  shows "p = (if flt (Fin x) after then fmin after (Fin (of_int hi)) else fmax after (Fin (of_int lo)))"
  using assms by (simp add: hold_within_band_def fround_int_def clip_int_law)

lemma trend_proposal_at_most:
  assumes s: "at_most m s" and c: "at_most n c" and p: "trend_proposal np s c = Inr p"
    and b: "\<bar>m + n\<bar> \<le> 2 ^ 53" "0 \<le> m" "0 \<le> n"
  shows "at_most (m + n) p"
proof (cases "flt (fabs (fsub s (lit 50))) (fabs (fsub (fadd s c) (lit 50)))")
  case False
  then show ?thesis using p at_most_fadd [OF s c b(1)] by (simp add: trend_proposal_def)
next
  case True
  then have h: "hold_within_band np s (fadd s c) = Inr p" using p by (simp add: trend_proposal_def)
  then obtain x where x: "s = Fin x" using fround_int_Inr by (auto simp: hold_within_band_def map_res_eq_Inr)
  have r: "round_even x \<le> m" using s x by (simp add: round_even_le)
  let ?r = "max 0 (min (round_even x) 100)"
  obtain lo hi where band: "map_of SIGNAL_BANDS (score_to_signal ?r) = Some (lo, hi)" "lo \<le> ?r" "?r \<le> hi"
    "0 \<le> lo" "hi \<le> 100" by (rule band_of_score [of ?r]) auto
  have "lo \<le> m + n" using band(2) r b by auto
  moreover have "at_most (m + n) (fadd s c)" using at_most_fadd [OF s c b(1)] .
  moreover have "p = (if flt (Fin x) (fadd s c) then fmin (fadd s c) (Fin (of_int hi)) else fmax (fadd s c) (Fin (of_int lo)))"
    using hold_within_band_eq [OF h [unfolded x] band(1)] x by simp
  ultimately show ?thesis
    by (cases "fadd s c") (auto simp: fmin_def fmax_def)
qed

end

section \<open>A reading without a model\<close>

definition technical_only :: "signal_inputs \<Rightarrow> bool" where
  "technical_only inp \<longleftrightarrow> present (expected_change_pct inp) = [] \<and> present (confidence inp) = []"

lemma sma_factor_at_most:
  "at_most 50 (score b) \<Longrightarrow> at_most 62 (score (snd (sma_factor inp b)))"
  unfolding sma_factor_def
  by (auto simp: board_ops Let_def lit_def split: if_splits intro: at_most_mono [of 50] at_most_fadd_to [of 50 _ 12])

lemma rsi_factor_at_most:
  "at_most 77 (score b) \<Longrightarrow> at_most 85 (score (rsi_factor inp b))"
  unfolding rsi_factor_def
  by (auto simp: board_ops lit_def split: option.splits intro: at_most_mono [of 77] at_most_fadd_to [of 77 _ 8])

lemma regime_factor_at_most:
  "at_most 99 (score b) \<Longrightarrow> at_most 99 (score (regime_factor inp b))"
  by (auto simp: regime_factor_def board_ops lit_def intro!: at_most_fsub)

lemma premium_factor_at_most:
  assumes "at_most 93 (score b)"
  shows "at_most 99 (score (premium_factor inp b))"
proof (cases "premium_z inp")
  case None
  then show ?thesis using assms by (auto simp: premium_factor_def intro: at_most_mono)
next
  case (Some z)
  show ?thesis
  proof (cases "flt (Fin 0) z")
    case True
    then have "fle (Fin 0) z" by (simp add: fle_def)
    then have "fle (Fin 0) (fmin (lit 10) (fmul z (lit 4)))"
      by (intro fmin_nonneg) (auto simp: lit_def intro!: fmul_nonneg)
    then have "at_most 93 (fsub (score b) (fmin (lit 10) (fmul z (lit 4))))"
      using assms by (intro at_most_fsub) auto
    then show ?thesis using Some True by (auto simp: premium_factor_def board_ops Let_def intro: at_most_mono)
  next
    case False
    have "at_most 6 (fmin (lit 6) x)" for x by (rule fmin_first) (simp_all add: lit_def)
    then have "at_most 99 (fadd (score b) (fmin (lit 6) (fmul (fneg z) (lit 3))))"
      using assms by (intro at_most_fadd_to [of 93 _ 6]) auto
    then show ?thesis using Some False by (auto simp: premium_factor_def board_ops Let_def)
  qed
qed

lemma flow_factor_at_most:
  assumes "at_most 99 (score b)"
  shows "at_most 99 (score (snd (flow_factor inp b)))"
proof (cases "fund_flow_z inp")
  case None
  then show ?thesis using assms by (simp add: flow_factor_def)
next
  case (Some z)
  show ?thesis
  proof (cases "flt (lit 1) z")
    case True
    then have "fle (Fin 0) (fsub z (lit 1))" by (cases z) (auto simp: lit_def fsub_def rnd_nonneg fle_PInf)
    then have "fle (Fin 0) (fmin (lit 4) (fmul (fsub z (lit 1)) (lit 4)))"
      by (intro fmin_nonneg) (auto simp: lit_def intro!: fmul_nonneg)
    then have "at_most 99 (fsub (score b) (fmin (lit 4) (fmul (fsub z (lit 1)) (lit 4))))"
      using assms by (intro at_most_fsub) auto
    then show ?thesis using Some True by (simp add: flow_factor_def board_ops Let_def fsub_def)
  qed (use assms Some in \<open>simp add: flow_factor_def\<close>)
qed

context numpy
begin

lemma momentum_factor_at_most:
  assumes "at_most 85 (score b)"
  shows "at_most 93 (score (momentum_factor np inp b))"
proof (cases "momentum_10_pct inp")
  case None
  then show ?thesis using assms by (auto simp: momentum_factor_def intro: at_most_mono)
next
  case (Some m)
  have "at_most 8 (np_clip np (fmul m (lit 2)) (lit (-8)) (lit 8))"
    using clip_at_most [of "Fin (-8)" 8] by (simp add: lit_def)
  then have "at_most 93 (fadd (score b) (np_clip np (fmul m (lit 2)) (lit (-8)) (lit 8)))"
    using assms by (intro at_most_fadd_to [of 85 _ 8]) auto
  then show ?thesis using Some by (auto simp: momentum_factor_def board_ops Let_def)
qed

lemma trend_factor_at_most:
  assumes "at_most 62 (score b)" "fle (trend_weight inp) (Fin 15)" "trend_factor np inp sma b = Inr (pts, b')"
  shows "at_most 77 (score b')"
proof (cases "(trend_alignment inp = Some ''full_bullish'' \<or> trend_alignment inp = Some ''full_bearish'')
    \<and> flt (Fin 0) (trend_weight inp)")
  case False
  then show ?thesis using assms(1,3) unfolding trend_factor_def
    by (auto simp: board_ops Let_def split: if_splits intro: at_most_mono)
next
  case True
  then obtain w where w: "trend_weight inp = Fin w" "0 < w" "w \<le> 15"
    using assms(2) by (cases "trend_weight inp") (auto simp: fle_def feq_def)
  have half: "rnd (1 / 2) = Fin (1 / 2)" by code_simp
  have neg: "fle (rnd x) (Fin 0) \<Longrightarrow> at_most 15 (rnd x)" for x by (erule Fin_fle_cases) auto
  define c where "c = fmul (fmul (if trend_alignment inp = Some ''full_bullish'' then Fin 1 else Fin (-1)) (trend_weight inp))
    (if flt (Fin 0) (fmul sma (if trend_alignment inp = Some ''full_bullish'' then Fin 1 else Fin (-1))) then lit (1/2) else lit 1)"
  have rw: "at_most 15 (rnd w)" by (rule at_most_rnd) (use w in auto)
  have rn: "at_most 0 (rnd (- w))" by (rule at_most_rnd) (use w in auto)
  have sc: "at_most 15 (fmul a k)" if "at_most 15 a" "k = lit (1/2) \<or> k = lit 1" for a k
    using that(1)
  proof (cases rule: at_most_cases)
    case (3 x)
    then show ?thesis using that(2) half by (auto simp: lit_def intro!: at_most_rnd)
  qed (use that(2) half in \<open>auto simp: lit_def signed_inf_def\<close>)
  have "at_most 15 c" unfolding c_def
    by (rule sc) (use w rw rn in \<open>auto intro: at_most_mono\<close>)
  moreover have "trend_proposal np (score b) c = Inr (score b')"
    using assms(3) True by (auto simp: trend_factor_def Let_def map_res_eq_Inr board_ops c_def split: if_splits)
  ultimately show ?thesis using trend_proposal_at_most [OF assms(1), of 15 c "score b'"] by simp
qed

end

section \<open>What a row says\<close>

lemma compute_signal_row:
  assumes "compute_signal np inp now = Inr row"
  obtains weighted_exp measured mean_conf trend_pts flow_pts b r where
    "count_factors np inp = Inr (weighted_exp, measured, mean_conf, trend_pts, flow_pts, b)"
    "fround_int (score (snd (discount (measured \<noteq> None) b))) = Inr r"
    "row_fresh row = data_fresh inp" "row_symbol row = symbol inp" "generated_at row = now"
    "review_at row = now + REVIEW_AFTER" "forecast_move row = weighted_exp"
    "final_score row = (if \<not> data_fresh inp then 50 else np_clip_int np r 0 100)"
    "signal row = (if \<not> data_fresh inp then ''hold'' else score_to_signal (final_score row))"
    "row_invalidation row = invalidation_of inp (final_score row)"
    "model_backed row \<longleftrightarrow> measured \<noteq> None"
    "model_confidence row = map_option (\<lambda>c. fround c 4) measured"
    "row_confidence row = fround (np_clip np (fmul mean_conf
       (if data_fresh inp then lit 1 else STALE_CONFIDENCE_MULTIPLIER)) (lit (5 / 100)) (lit (95 / 100))) 3"
    "\<not> data_fresh inp \<Longrightarrow> row_risks row = StaleInput # risks (snd (discount (measured \<noteq> None) b))"
    "set (risks (snd (discount (measured \<noteq> None) b))) \<subseteq> set (row_risks row)"
proof -
  obtain weighted_exp measured mean_conf trend_pts flow_pts b where c:
    "count_factors np inp = Inr (weighted_exp, measured, mean_conf, trend_pts, flow_pts, b)"
    using assms by (auto simp: compute_signal_def bind_res_eq_Inr)
  obtain tech b' where d: "discount (measured \<noteq> None) b = (tech, b')" by fastforce
  have sc: "score (if \<not> data_fresh inp then b'\<lparr>risks := StaleInput # risks b'\<rparr>
      else if market_closed inp then add_risk LastSession b' else b') = score b'" by (simp add: board_ops)
  obtain r where r: "fround_int (score b') = Inr r"
    using assms by (auto simp: compute_signal_def c d sc Let_def map_res_eq_Inr simp del: not_None_eq)
  show thesis
    by (rule that [OF c, of r]) (use assms r in \<open>auto simp: compute_signal_def c d Let_def sc board_ops simp del: not_None_eq\<close>)
qed

lemma trend_factor_risks:
  "trend_factor np inp sma b = Inr (pts, b') \<Longrightarrow> set (risks b) \<subseteq> set (risks b')"
  by (auto simp: trend_factor_def Let_def map_res_eq_Inr board_ops split: if_splits)

lemma factor_risks:
  "set (risks b) \<subseteq> set (risks (agreement_factor np inp b))"
  "set (risks b) \<subseteq> set (risks (snd (sma_factor inp b)))"
  "set (risks b) \<subseteq> set (risks (rsi_factor inp b))"
  "set (risks b) \<subseteq> set (risks (momentum_factor np inp b))"
  "set (risks b) \<subseteq> set (risks (premium_factor inp b))"
  "set (risks b) \<subseteq> set (risks (regime_factor inp b))"
  "set (risks b) \<subseteq> set (risks (snd (flow_factor inp b)))"
  "set (risks b) \<subseteq> set (risks (snd (discount m b)))"
  by (auto simp: agreement_factor_def sma_factor_def rsi_factor_def momentum_factor_def premium_factor_def
      regime_factor_def flow_factor_def discount_def board_ops Let_def split: option.splits)

lemma count_factors_cases:
  assumes "count_factors np inp = Inr (weighted_exp, measured, mean_conf, trend_pts, flow_pts, b)"
  obtains b1 b2 sma b3 b4 where
    "forecast_factor np inp (start_board inp) = (weighted_exp, b1)"
    "confidence_factor np inp b1 = (measured, mean_conf, b2)"
    "sma_factor inp (agreement_factor np inp b2) = (sma, b3)"
    "trend_factor np inp sma b3 = Inr (trend_pts, b4)"
    "flow_factor inp (regime_factor inp (premium_factor inp (momentum_factor np inp (rsi_factor inp b4)))) = (flow_pts, b)"
  using assms
  by (auto simp: count_factors_def Let_def map_res_eq_Inr split: prod.splits)

lemma no_model_risk:
  assumes "count_factors np inp = Inr (weighted_exp, None, mean_conf, trend_pts, flow_pts, b)"
  shows "TechnicalOnly \<in> set (risks b) \<and> mean_conf = TECHNICAL_ONLY_CONFIDENCE"
  using assms
proof (cases rule: count_factors_cases)
  case (1 b1 b2 sma b3 b4)
  have r2: "TechnicalOnly \<in> set (risks b2)" "mean_conf = TECHNICAL_ONLY_CONFIDENCE"
    using 1(2) by (auto simp: confidence_factor_def board_ops Let_def split: if_splits)
  have "set (risks b2) \<subseteq> set (risks b3)" using factor_risks(1,2) 1(3) by (metis order_trans snd_conv)
  also have "\<dots> \<subseteq> set (risks b4)" using 1(4) by (rule trend_factor_risks)
  also have "\<dots> \<subseteq> set (risks b)" using factor_risks(3-7) 1(5) by (metis order_trans snd_conv)
  finally show ?thesis using r2 by auto
qed

context numpy
begin

lemma confidence_range:
  assumes "c = fround (np_clip np x (lit (5 / 100)) (lit (95 / 100))) 3" "x \<noteq> NaN"
  shows "fle (lit (5 / 100)) c \<and> fle c (lit (95 / 100))"
proof -
  have f: "fle (lit (5 / 100)) (lit (95 / 100))" by code_simp
  have e: "fround (lit (5 / 100)) 3 = lit (5 / 100)" "fround (lit (95 / 100)) 3 = lit (95 / 100)" by code_simp+
  show ?thesis
    using fround_mono [OF clip_range(1) [OF f assms(2)], of 3] fround_mono [OF clip_range(2) [OF f assms(2)], of 3]
    unfolding e assms(1) by simp
qed

lemma technical_only_at_most:
  assumes t: "technical_only inp" and w: "fle (trend_weight inp) (Fin 15)"
    and c: "count_factors np inp = Inr (weighted_exp, measured, mean_conf, trend_pts, flow_pts, b)"
  shows "measured = None \<and> at_most 99 (score b)"
  using c
proof (cases rule: count_factors_cases)
  case (1 b1 b2 sma b3 b4)
  note t = t [unfolded technical_only_def]
  have b1: "b1 = start_board inp" using 1(1) t by (simp add: forecast_factor_def)
  have m: "measured = None" and "score b2 = Fin 50"
    using 1(2) t b1 by (auto simp: confidence_factor_def board_ops start_board_def)
  then have "at_most 50 (score (agreement_factor np inp b2))" using t by (simp add: agreement_factor_def)
  from sma_factor_at_most [OF this, of inp] have "at_most 62 (score b3)" using 1(3) by simp
  from trend_factor_at_most [OF this w 1(4)] have "at_most 77 (score b4)" .
  then have "at_most 99 (score (regime_factor inp (premium_factor inp (momentum_factor np inp (rsi_factor inp b4)))))"
    by (intro regime_factor_at_most premium_factor_at_most momentum_factor_at_most rsi_factor_at_most)
  from flow_factor_at_most [OF this, of inp] show ?thesis using m 1(5) by simp
qed

lemma technical_only_score:
  assumes t: "technical_only inp" and w: "fle (trend_weight inp) (Fin 15)"
    and c: "compute_signal np inp now = Inr row"
  shows "final_score row \<le> 74"
  using c
proof (cases rule: compute_signal_row)
  case (1 weighted_exp measured mean_conf trend_pts flow_pts b r)
  have m: "measured = None" and b: "at_most 99 (score b)" using technical_only_at_most [OF t w 1(1)] by auto
  have "rnd (1 / 2) = Fin (1 / 2)" by code_simp
  then have h: "TECHNICAL_ONLY_WEIGHT = Fin (1 / 2)" by (simp add: TECHNICAL_ONLY_WEIGHT_def lit_def)
  have "r \<le> 74"
    using b
  proof (cases rule: at_most_cases)
    case (3 x)
    have e: "rnd (49 / 2) = Fin (49 / 2)" "rnd (149 / 2) = Fin (149 / 2)" by code_simp+
    have "fle (rnd (x - 50)) (Fin 49)" using rnd_le_int [of "x - 50" 49] 3 by simp
    then have "fle (fmul (rnd (x - 50)) (Fin (1 / 2))) (Fin (49 / 2))"
      using fmul_pos_mono [of "1/2" "rnd (x - 50)" "Fin 49"] e by simp
    then have "fle (fadd (Fin 50) (fmul (rnd (x - 50)) (Fin (1 / 2)))) (Fin (149 / 2))"
    proof (cases rule: Fin_fle_cases)
      case (2 y)
      then show ?thesis using rnd_fle [of "50 + y" "149 / 2"] e by simp
    qed (simp add: NInf_fle)
    then show ?thesis using 1(2) 3 m h
    proof (cases rule: Fin_fle_cases)
      case (2 y)
      have "round_even y \<le> 74" using round_even_less_half [of y 74] 2(2) by auto
      then show ?thesis using 1(2) 3 m h 2 by (simp add: discount_def fround_int_def lit_def)
    qed (simp add: discount_def fround_int_def lit_def)
  next
    case 1
    then show ?thesis using \<open>fround_int _ = Inr r\<close> m by (simp add: discount_def fround_int_def lit_def fsub_def Let_def)
  next
    case 2
    then have "fmul (fsub (score b) (lit 50)) TECHNICAL_ONLY_WEIGHT = NInf"
      unfolding h by (simp add: lit_def fsub_def signed_inf_def)
    then show ?thesis using \<open>fround_int _ = Inr r\<close> m by (simp add: discount_def fround_int_def lit_def Let_def)
  qed
  then show ?thesis using 1(8) clip_int_law by auto
qed

end

section \<open>With and without the alignment\<close>

definition without_trend :: "signal_inputs \<Rightarrow> signal_inputs" where
  "without_trend inp = inp\<lparr>trend_alignment := None\<rparr>"

text \<open>No factor that is counted after the alignment moves the score, nor the discount of a reading without a model.\<close>

definition quiet_after :: "signal_inputs \<Rightarrow> bool" where
  "quiet_after inp \<longleftrightarrow> (\<forall>r. rsi14 inp = Some r \<longrightarrow> \<not> fle r (lit 30) \<and> \<not> fle (lit 70) r) \<and>
     momentum_10_pct inp = None \<and> premium_z inp = None \<and> regime inp \<noteq> ''high_volatility'' \<and>
     (\<forall>z. fund_flow_z inp = Some z \<longrightarrow> \<not> flt (lit 1) z) \<and> present (confidence inp) \<noteq> []"

lemma without_trend_fields [simp]:
  "expected_change_pct (without_trend inp) = expected_change_pct inp" "confidence (without_trend inp) = confidence inp"
  "last_price (without_trend inp) = last_price inp" "sma20 (without_trend inp) = sma20 inp" "sma50 (without_trend inp) = sma50 inp"
  "round_trip_cost_pct (without_trend inp) = round_trip_cost_pct inp" "market_risk (without_trend inp) = market_risk inp"
  "data_fresh (without_trend inp) = data_fresh inp" "trend_alignment (without_trend inp) = None"
  "rsi14 (without_trend inp) = rsi14 inp" "momentum_10_pct (without_trend inp) = momentum_10_pct inp"
  "premium_z (without_trend inp) = premium_z inp" "regime (without_trend inp) = regime inp"
  "fund_flow_z (without_trend inp) = fund_flow_z inp"
  by (simp_all add: without_trend_def)

lemma without_trend_factors [simp]:
  "start_board (without_trend inp) = start_board inp"
  "forecast_factor np (without_trend inp) b = forecast_factor np inp b"
  "confidence_factor np (without_trend inp) b = confidence_factor np inp b"
  "agreement_factor np (without_trend inp) b = agreement_factor np inp b"
  "sma_factor (without_trend inp) b = sma_factor inp b"
  "quiet_after (without_trend inp) = quiet_after inp"
  by (simp_all only: start_board_def forecast_factor_def confidence_factor_def agreement_factor_def sma_factor_def
      quiet_after_def without_trend_fields)

lemma without_trend_factor: "trend_factor np (without_trend inp) sma b = Inr (Fin 0, b)"
  by (simp add: trend_factor_def)

lemma quiet_scores:
  assumes "quiet_after inp"
  shows "score (snd (flow_factor inp (regime_factor inp (premium_factor inp (momentum_factor np inp (rsi_factor inp b)))))) = score b"
  using assms
  by (auto simp: quiet_after_def flow_factor_def regime_factor_def premium_factor_def momentum_factor_def rsi_factor_def
      split: option.splits)

lemma score_doubles:
  "is_double (score (start_board inp))"
  "is_double (score b) \<Longrightarrow> is_double (score (snd (forecast_factor np inp b)))"
  "is_double (score b) \<Longrightarrow> is_double (score (snd (snd (confidence_factor np inp b))))"
  "is_double (score b) \<Longrightarrow> is_double (score (agreement_factor np inp b))"
  "is_double (score b) \<Longrightarrow> is_double (score (snd (sma_factor inp b)))"
  by (simp_all add: start_board_def forecast_factor_def confidence_factor_def agreement_factor_def sma_factor_def
      board_ops Let_def)

lemma rnd_within:
  assumes "\<bar>x\<bar> \<le> 18"
  obtains y where "rnd x = Fin y" "\<bar>y\<bar> \<le> 18"
proof -
  have "of_int (-18) \<le> x" "x \<le> of_int 18" using assms by auto
  from rnd_bounded_fin [OF this] obtain y where "rnd x = Fin y" "of_int (-18) \<le> y" "y \<le> of_int 18" by auto
  then show thesis using that by (simp add: abs_le_iff)
qed

lemma trend_points_bounded:
  assumes "0 < w" "w \<le> 18" and "d = Fin 1 \<or> d = Fin (-1)" and "k = lit (1 / 2) \<or> k = lit 1"
  shows "fle (fabs (fmul (fmul d (Fin w)) k)) (Fin 18)"
proof -
  obtain y where y: "fmul d (Fin w) = Fin y" "\<bar>y\<bar> \<le> 18"
  proof -
    obtain x where x: "fmul d (Fin w) = rnd x" "\<bar>x\<bar> \<le> 18" using assms(1-3) by (auto intro: that [of w] that [of "- w"])
    show thesis using rnd_within [OF x(2)] that x(1) by metis
  qed
  have "rnd (1 / 2) = Fin (1 / 2)" by code_simp
  then have "k = Fin (1 / 2) \<or> k = Fin 1" using assms(4) by (auto simp: lit_def)
  then obtain v where v: "k = Fin v" "0 \<le> v" "v \<le> 1" by (elim disjE) (rule that, assumption, simp, simp)+
  have "\<bar>y * v\<bar> \<le> 18" using mult_mono [of "\<bar>y\<bar>" 18 v 1] y(2) v by (simp only: abs_mult abs_of_nonneg) simp
  then obtain u where "rnd (y * v) = Fin u" "\<bar>u\<bar> \<le> 18" by (rule rnd_within)
  then show ?thesis using y(1) v(1) by simp
qed

lemma trend_factor_cases:
  assumes "trend_factor np inp sma b = Inr (pts, b')" and "fle (trend_weight inp) (Fin 18)"
  obtains (same) "score b' = score b"
    | (counted) c where "trend_proposal np (score b) c = Inr (score b')" "fle (fabs c) (Fin 18)"
proof (cases "(trend_alignment inp = Some ''full_bullish'' \<or> trend_alignment inp = Some ''full_bearish'')
    \<and> flt (Fin 0) (trend_weight inp)")
  case False
  then have "score b' = score b" using assms(1) unfolding trend_factor_def
    by (auto simp: board_ops Let_def split: if_splits)
  then show ?thesis by (rule same)
next
  case True
  then obtain w where w: "trend_weight inp = Fin w" "0 < w" "w \<le> 18"
    using assms(2) by (cases "trend_weight inp") (auto simp: fle_def feq_def)
  define c where "c = fmul (fmul (if trend_alignment inp = Some ''full_bullish'' then Fin 1 else Fin (-1)) (trend_weight inp))
    (if flt (Fin 0) (fmul sma (if trend_alignment inp = Some ''full_bullish'' then Fin 1 else Fin (-1))) then lit (1/2) else lit 1)"
  have "fle (fabs c) (Fin 18)" unfolding c_def w(1) by (rule trend_points_bounded [OF w(2,3)]) auto
  moreover have "trend_proposal np (score b) c = Inr (score b')"
    using assms(1) True by (auto simp: trend_factor_def Let_def map_res_eq_Inr board_ops c_def split: if_splits)
  ultimately show ?thesis using counted by blast
qed

text \<open>A quiet row is read off the score the alignment leaves.\<close>

lemma quiet_row:
  assumes "compute_signal np inp now = Inr row" and "quiet_after inp"
  obtains measured mean_conf weighted_exp b1 b2 sma b3 pts b4 where
    "forecast_factor np inp (start_board inp) = (weighted_exp, b1)"
    "confidence_factor np inp b1 = (measured, mean_conf, b2)"
    "sma_factor inp (agreement_factor np inp b2) = (sma, b3)"
    "trend_factor np inp sma b3 = Inr (pts, b4)" "is_double (score b3)"
    "\<exists>z. score b4 = Fin z \<and> signal row = (if \<not> data_fresh inp then ''hold''
       else score_to_signal (np_clip_int np (round_even z) 0 100))"
  using assms(1)
proof (cases rule: compute_signal_row)
  case row: (1 weighted_exp measured mean_conf trend_pts flow_pts b r)
  from row(1) show thesis
  proof (cases rule: count_factors_cases)
    case (1 b1 b2 sma b3 b4)
    have m: "measured \<noteq> None" using 1(2) assms(2) by (auto simp: confidence_factor_def quiet_after_def Let_def split: if_splits)
    then have "fround_int (score b) = Inr r" using row(2) by (simp add: discount_def)
    then obtain z where z: "score b = Fin z" "r = round_even z" using fround_int_Inr by blast
    have "score b = score b4" using quiet_scores [OF assms(2), of np b4] 1(5) by simp
    moreover have "is_double (score b3)"
      using score_doubles 1(1-3) by (metis snd_conv)
    moreover have "signal row = (if \<not> data_fresh inp then ''hold'' else score_to_signal (np_clip_int np (round_even z) 0 100))"
      using row(8,9) z(2) by (cases "data_fresh inp") simp_all
    ultimately show thesis using that [OF 1(1-4)] z(1) by metis
  qed
qed

section \<open>Properties\<close>

text \<open>A full set of inputs for the evaluations below: two forecasts above the hurdle, a stack
  of moving averages, a mild premium.\<close>

definition bullish_inputs :: signal_inputs where
  "bullish_inputs = (default_inputs ''IR_GOLD_18K'')\<lparr>
     expected_change_pct := [(''1d'', Some (Fin 4)), (''7d'', None)],
     confidence := [(''1d'', Some (Fin (3 / 4)))],
     round_trip_cost_pct := Fin 2,
     last_price := Some (Fin 110), sma20 := Some (Fin 105), sma50 := Some (Fin 100),
     rsi14 := Some (Fin 55), momentum_10_pct := Some (Fin 2), premium_z := Some (Fin 1),
     trend_alignment := Some ''full_bullish'', trend_weight := Fin 14\<rparr>"

definition technical_inputs :: signal_inputs where
  "technical_inputs = (default_inputs ''XAGUSD'')\<lparr>
     last_price := Some (Fin 110), sma20 := Some (Fin 105), sma50 := Some (Fin 100),
     rsi14 := Some (Fin 25), momentum_10_pct := Some (Fin 9)\<rparr>"

lemma exact_literals:
  "rnd (1 / 2) = Fin (1 / 2)" "rnd (1 / 4) = Fin (1 / 4)" "rnd (3 / 4) = Fin (3 / 4)" "rnd (15 / 2) = Fin (15 / 2)"
  "flt (rnd (3 / 5)) (Fin (3 / 4))" by code_simp+

lemma is_ok_map_res: "is_ok (map_res f m) = is_ok m"
  by (cases m) simp_all

lemmas scorer_eval = is_ok_map_res compute_signal_def count_factors_def forecast_factor_def confidence_factor_def
  agreement_factor_def sma_factor_def trend_factor_def trend_proposal_def hold_within_band_def rsi_factor_def
  momentum_factor_def premium_factor_def regime_factor_def flow_factor_def discount_def board_ops
  default_inputs_def present_def weighted_expectation_def forecast_contribution_def cost_edge_def
  reference_numpy_def plain_sum_def truthy_def start_board_def lit_def Let_def fround_int_def
  TECHNICAL_ONLY_WEIGHT_def FORECAST_WEIGHTS_def SIGNAL_BANDS_def score_to_signal_def fmin_def fmax_def
  fle_def feq_def exact_literals round_even_def

text \<open>C17: A published row is consistent with itself: the score lies in 0..100 and the verdict is the
  band of that score, the review is due six hours later, the confidence lies in 0.05..0.95 or is NaN, a
  reading over stale data is a hold at 50 whose first risk says so, and a reading without a
  measured model confidence carries the technical-only risk.\<close>

theorem signal_row_consistent:
  assumes "numpy np" and "compute_signal np inp now = Inr row"
  shows "0 \<le> final_score row \<and> final_score row \<le> 100 \<and>
    signal row = score_to_signal (final_score row) \<and>
    review_at row = now + REVIEW_AFTER \<and>
    (row_confidence row = NaN \<or>
       fle (lit (5 / 100)) (row_confidence row) \<and> fle (row_confidence row) (lit (95 / 100))) \<and>
    (data_fresh inp \<or> signal row = ''hold'' \<and> final_score row = 50 \<and>
       row_invalidation row = StaleOnly \<and> hd (row_risks row) = StaleInput) \<and>
    (model_backed row \<and> model_confidence row \<noteq> None \<or>
       \<not> model_backed row \<and> model_confidence row = None \<and> TechnicalOnly \<in> set (row_risks row))"
  using assms(2)
proof (cases rule: compute_signal_row)
  case (1 weighted_exp measured mean_conf trend_pts flow_pts b r)
  let ?k = "if data_fresh inp then lit 1 else STALE_CONFIDENCE_MULTIPLIER"
  have n: "0 \<le> final_score row" "final_score row \<le> 100"
    using 1(8) numpy.clip_int_law [OF assms(1)] by auto
  have s: "signal row = score_to_signal (final_score row)"
    using 1(8,9) by (auto simp: score_to_signal_def)
  have f: "fle (lit (5 / 100)) (lit (95 / 100))" by code_simp
  have c: "row_confidence row = NaN \<or>
      fle (lit (5 / 100)) (row_confidence row) \<and> fle (row_confidence row) (lit (95 / 100))"
  proof (cases "fmul mean_conf ?k = NaN")
    case True
    then have "np_clip np (fmul mean_conf ?k) (lit (5 / 100)) (lit (95 / 100)) = NaN"
      using numpy.clip_NaN [OF assms(1) f] by metis
    then show ?thesis using 1(13) by (simp add: fround_def)
  next
    case False
    then show ?thesis using numpy.confidence_range [OF assms(1) 1(13)] by blast
  qed
  have stale: "data_fresh inp \<or> signal row = ''hold'' \<and> final_score row = 50 \<and>
      row_invalidation row = StaleOnly \<and> hd (row_risks row) = StaleInput"
    using 1(8-10,14) by (auto simp: invalidation_of_def)
  have "model_backed row \<and> model_confidence row \<noteq> None \<or>
      \<not> model_backed row \<and> model_confidence row = None \<and> TechnicalOnly \<in> set (row_risks row)"
  proof (cases measured)
    case None
    then have "TechnicalOnly \<in> set (row_risks row)"
      using no_model_risk 1(1,15) factor_risks(8) by (metis subsetD)
    then show ?thesis using None 1(11,12) by simp
  qed (use 1(11,12) in simp)
  with n s c stale 1(6) show ?thesis by blast
qed

theorem signal_row_consistent_witness:
  "\<exists>row. compute_signal reference_numpy bullish_inputs 0 = Inr row \<and>
     signal row = score_to_signal (final_score row)"
proof -
  have "is_ok (compute_signal reference_numpy bullish_inputs 0)"
    by (simp add: bullish_inputs_def scorer_eval)
  then obtain row where "compute_signal reference_numpy bullish_inputs 0 = Inr row"
    by (auto simp: is_ok_def split: sum.splits)
  with signal_row_consistent [OF ref.numpy_axioms this] show ?thesis by blast
qed

text \<open>C18: Where no factor after it moves the score and a model reports its confidence, the multi-timeframe alignment talks the engine out of a call
  and never into one: the verdict of the row with it is no more committal than that of the row without it
  and never on the other side of hold, for every weight up to 18 (the configured default is 10).\<close>

theorem trend_never_into_call:
  assumes "numpy np" and "fle (trend_weight inp) (Fin 18)" and "quiet_after inp"
    and "compute_signal np inp now = Inr row" and "compute_signal np (without_trend inp) now = Inr row0"
  shows "milder (commitment (signal row)) (commitment (signal row0))"
  using assms(4,3)
proof (cases rule: quiet_row)
  case row: (1 measured mean_conf weighted_exp b1 b2 sma b3 pts b4)
  have "quiet_after (without_trend inp)" using assms(3) by simp
  with assms(5) show ?thesis
  proof (cases rule: quiet_row)
    case (1 measured' mean_conf' weighted_exp' b1' b2' sma' b3' pts' b4')
    have "b4' = b3" using 1(1-4) row(1-3) by (simp add: without_trend_factor)
    then obtain x z where x: "score b3 = Fin x" and z: "score b4 = Fin z"
      and s: "signal row0 = (if \<not> data_fresh inp then ''hold'' else score_to_signal (np_clip_int np (round_even x) 0 100))"
        "signal row = (if \<not> data_fresh inp then ''hold'' else score_to_signal (np_clip_int np (round_even z) 0 100))"
      using 1(6) row(6) by auto
    have "milder (reading z) (reading x)"
      using row(4) assms(2)
    proof (cases rule: trend_factor_cases)
      case same
      then show ?thesis using x z by (simp add: milder_def sgn_if)
    next
      case (counted c)
      have "rnd x = Fin x" using row(5) x by simp
      then show ?thesis using numpy.trend_proposal_milder [OF assms(1) _ _ counted(2)] counted(1) x z by simp
    qed
    then show ?thesis
    proof (cases "data_fresh inp")
      case True
      with \<open>milder (reading z) (reading x)\<close> show ?thesis by (simp add: s reading_def numpy.clip_int_law [OF assms(1)])
    next
      case False
      then show ?thesis by (simp add: s milder_def commitment_def)
    qed
  qed
qed

text \<open>A neutral board with a bullish alignment of weight 15: the score stops at 59 and the verdict stays hold.\<close>

definition aligned_inputs :: signal_inputs where
  "aligned_inputs = (default_inputs ''IR_GOLD_18K'')\<lparr>confidence := [(''1d'', Some (Fin (1 / 2)))],
     trend_alignment := Some ''full_bullish'', trend_weight := Fin 15\<rparr>"

definition final_score_of :: "numlib \<Rightarrow> signal_inputs \<Rightarrow> int res" where
  "final_score_of np inp = bind_res (count_factors np inp) (\<lambda>(weighted_exp, measured, mean_conf, trend_pts, flow_pts, b).
     map_res (\<lambda>r. if \<not> data_fresh inp then 50 else np_clip_int np r 0 100)
       (fround_int (score (snd (discount (measured \<noteq> None) b)))))"

lemma final_score_of:
  assumes "final_score_of np inp = Inr n" and "data_fresh inp"
  shows "\<exists>row. compute_signal np inp now = Inr row \<and> final_score row = n \<and> signal row = score_to_signal n"
proof -
  obtain weighted_exp measured mean_conf trend_pts flow_pts b where c:
    "count_factors np inp = Inr (weighted_exp, measured, mean_conf, trend_pts, flow_pts, b)"
    using assms(1) by (auto simp: final_score_of_def bind_res_eq_Inr)
  obtain tech b' where d: "discount (measured \<noteq> None) b = (tech, b')" by fastforce
  have sc: "score (if market_closed inp then add_risk LastSession b' else b') = score b'" by (simp add: board_ops)
  obtain r where "fround_int (score b') = Inr r" "n = np_clip_int np r 0 100"
    using assms by (auto simp: final_score_of_def c d map_res_eq_Inr simp del: not_None_eq)
  then show ?thesis using assms(2) by (auto simp: compute_signal_def c d Let_def sc simp del: not_None_eq)
qed

lemma aligned_scores:
  "final_score_of reference_numpy aligned_inputs = Inr 59"
  "final_score_of reference_numpy (without_trend aligned_inputs) = Inr 50"
  by (simp_all add: final_score_of_def aligned_inputs_def without_trend_def scorer_eval)

theorem trend_never_into_call_witness:
  "\<exists>row. compute_signal reference_numpy aligned_inputs 0 = Inr row \<and> final_score row = 59 \<and>
     commitment (signal row) = 0"
proof -
  have fresh: "data_fresh aligned_inputs" "data_fresh (without_trend aligned_inputs)"
    by code_simp+
  have hold: "commitment (score_to_signal 50) = 0" by code_simp
  obtain row where r: "compute_signal reference_numpy aligned_inputs 0 = Inr row" "final_score row = 59"
    using final_score_of [OF aligned_scores(1) fresh(1)] by blast
  obtain row0 where r0: "compute_signal reference_numpy (without_trend aligned_inputs) 0 = Inr row0"
    "signal row0 = score_to_signal 50" using final_score_of [OF aligned_scores(2) fresh(2)] by blast
  have q: "fle (trend_weight aligned_inputs) (Fin 18)" "quiet_after aligned_inputs"
    by (simp_all add: aligned_inputs_def default_inputs_def quiet_after_def present_def)
  from trend_never_into_call [OF ref.numpy_axioms q r(1) r0(1)] have "commitment (signal row) = 0"
    by (simp add: r0(2) hold milder_def)
  then show ?thesis using r by blast
qed

text \<open>A later factor undoes the cap: with the default weight of 10 and an oversold RSI, which alone leaves a
  hold at 58, a bullish alignment makes the row a buy at 67.\<close>

definition oversold_inputs :: signal_inputs where
  "oversold_inputs = aligned_inputs\<lparr>trend_weight := Fin 10, rsi14 := Some (Fin 25)\<rparr>"

lemma oversold_scores:
  "final_score_of reference_numpy oversold_inputs = Inr 67"
  "final_score_of reference_numpy (without_trend oversold_inputs) = Inr 58"
  by (simp_all add: final_score_of_def oversold_inputs_def aligned_inputs_def without_trend_def scorer_eval)

theorem alignment_into_call_by_later_factor:
  "(\<exists>row. compute_signal reference_numpy (without_trend oversold_inputs) now = Inr row \<and> signal row = ''hold'') \<and>
   (\<exists>row. compute_signal reference_numpy oversold_inputs now = Inr row \<and> signal row = ''buy'')"
proof -
  have fresh: "data_fresh oversold_inputs" "data_fresh (without_trend oversold_inputs)"
    by code_simp+
  have "score_to_signal 58 = ''hold''" "score_to_signal 67 = ''buy''" by code_simp+
  then show ?thesis
    using final_score_of [OF oversold_scores(1) fresh(1), of now] final_score_of [OF oversold_scores(2) fresh(2), of now] by metis
qed

text \<open>With a configured weight of 20 the alignment does turn a sell into a buy: 40 becomes 60,
  no further from 50 than before, so nothing caps it.\<close>

theorem trend_weight_20_inverts:
  "trend_proposal reference_numpy (Fin 40) (Fin 20) = Inr (Fin 60) \<and>
   score_to_signal 40 = ''sell'' \<and> score_to_signal 60 = ''buy''"
  by code_simp

text \<open>The cap is an integer edge and the score is not: a bullish alignment on 59.4 lowers it to 59.\<close>

theorem trend_cap_can_lower:
  "trend_proposal reference_numpy (lit (594 / 10)) (Fin 15) = Inr (Fin 59) \<and> flt (Fin 59) (lit (594 / 10))"
  by code_simp

text \<open>The forecast's contribution grows with the forecast, never exceeds 25 points either
  way, and is zero inside the cost band: a move that does not clear the round trip earns nothing.\<close>

theorem forecast_contribution_spec:
  assumes "numpy np" and "0 \<le> c" and "x \<le> y"
  shows "fle (forecast_contribution np (Fin x) (Fin c)) (forecast_contribution np (Fin y) (Fin c)) \<and>
    fle (Fin (-25)) (forecast_contribution np (Fin x) (Fin c)) \<and>
    fle (forecast_contribution np (Fin x) (Fin c)) (Fin 25) \<and>
    (c < \<bar>x\<bar> \<or> forecast_contribution np (Fin x) (Fin c) = Fin 0)"
  using numpy.forecast_contribution_mono [OF assms] numpy.forecast_contribution_range [OF assms(1), of x c]
    numpy.forecast_deadband [OF assms(1), of x c] by (cases "c < \<bar>x\<bar>") auto

theorem forecast_contribution_spec_witness:
  "fle (forecast_contribution reference_numpy (Fin 1) (Fin 2)) (forecast_contribution reference_numpy (Fin 3) (Fin 2)) \<and>
   forecast_contribution reference_numpy (Fin 1) (Fin 2) = Fin 0"
proof -
  have s: "2 < \<bar>1 :: rat\<bar> \<or> forecast_contribution reference_numpy (Fin 1) (Fin 2) = Fin 0"
    "fle (forecast_contribution reference_numpy (Fin 1) (Fin 2)) (forecast_contribution reference_numpy (Fin 3) (Fin 2))"
    using forecast_contribution_spec [OF ref.numpy_axioms, of 2 1 3] by (auto simp only: zero_le_numeral one_le_numeral)
  from s(1) have "forecast_contribution reference_numpy (Fin 1) (Fin 2) = Fin 0" by simp
  with s(2) show ?thesis by blast
qed

text \<open>A reading without any model output cannot be a strong buy: with the alignment weighted
  at most 15, every technical factor at its best leaves the discounted score at 74.\<close>

theorem technical_only_never_strong_buy:
  assumes "numpy np" and "technical_only inp" and "fle (trend_weight inp) (Fin 15)"
    and "compute_signal np inp now = Inr row"
  shows "final_score row \<le> 74 \<and> signal row \<noteq> ''strong_buy''"
  using assms(4)
proof (cases rule: compute_signal_row)
  case (1 weighted_exp measured mean_conf trend_pts flow_pts b r)
  have "final_score row \<le> 74" using assms by (rule numpy.technical_only_score)
  then show ?thesis using 1(9) by (auto simp: score_to_signal_def)
qed

theorem technical_only_never_strong_buy_witness:
  "\<exists>row. compute_signal reference_numpy technical_inputs 0 = Inr row \<and> signal row \<noteq> ''strong_buy''"
proof -
  have "is_ok (compute_signal reference_numpy technical_inputs 0)"
    by (simp add: technical_inputs_def scorer_eval)
  then obtain row where r: "compute_signal reference_numpy technical_inputs 0 = Inr row"
    by (auto simp: is_ok_def split: sum.splits)
  have "technical_only technical_inputs" "fle (trend_weight technical_inputs) (Fin 15)" by code_simp+
  from technical_only_never_strong_buy [OF ref.numpy_axioms this r] r show ?thesis by blast
qed

end
