(* ===== verification/Signal_Assembly.thy ===== *)
theory Signal_Assembly
  imports Signal_Engine
begin

text \<open>
  The database half of \<^verbatim>\<open>app/signals/engine.py\<close>: assembling one symbol's inputs from the stored
  tables, and publishing a row or withholding it.

  pandas and the feature frame are a parameter (the record \<open>series_lib\<close>): the daily closes of a
  symbol, the last row of the feature frame, the volatility regime and the statistics of a
  window. Tables are lists of the columns read.

  Shown: after assembly every factor of the engine is either scored or omitted with a reason,
  exactly once, and a scored factor has a value; a row is published exactly when the scored
  factors include a directional one and number at least three.
\<close>

section \<open>What is read\<close>

definition MARKET_RISK :: "(string \<times> string) list" where
  "MARKET_RISK =
    [(''IR_GOLD_18K'',
      ''Iranian gold prices are exposed to currency policy shocks and liquidity gaps.''),
     (''USD_IRT'',
      ''The free-market rate is exposed to currency policy, sanctions news and administrative intervention, and this series is a 24/7 USDT/toman proxy rather than a cash-dollar quote.''),
     (''IR_COIN_EMAMI'',
      ''The Emami coin trades at its own bazaar premium over its gold content, which moves on domestic demand independently of the metal.''),
     (''XAUUSD'',
      ''This is the COMEX front-month future used as a spot proxy: it carries roll and contango effects and its own settlement calendar, and it is quoted in USD rather than toman.''),
     (''XAGUSD'',
      ''Silver is materially more volatile than gold and carries a large industrial-demand component; this is the COMEX front-month future used as a spot proxy, quoted in USD rather than toman.''),
     (''IR_GOLD_FUND_AYAR'',
      ''Fund units trade only in the Tehran session and are subject to price limits and trading halts; the unit price can deviate from the gold the fund holds.''),
     (''IR_GOLD_FUND_TALA'',
      ''Fund units trade only in the Tehran session and are subject to price limits and trading halts; the unit price can deviate from the gold the fund holds.'')]"

record series_lib =
  daily_close :: "price_row list \<Rightarrow> string \<Rightarrow> pyfloat list"
  last_feature :: "pyfloat list \<Rightarrow> pyfloat list option \<Rightarrow> pyfloat list option \<Rightarrow> string \<Rightarrow> pyfloat option"
  detect_regime :: "pyfloat list \<Rightarrow> string"
  series_mean :: "pyfloat list \<Rightarrow> pyfloat"
  series_std :: "pyfloat list \<Rightarrow> pyfloat"
  json_repr :: "json \<Rightarrow> string"

record prediction_row =
  pr_symbol :: string
  pr_horizon :: string
  pr_change :: pyfloat
  pr_confidence :: pyfloat
  pr_predicted_at :: int

record alignment_state =
  as_symbol :: string
  as_alignment :: string
  as_timeframes :: json
  as_data_fresh :: bool
  as_calculated_at :: int

record alignment_event =
  ae_symbol :: string
  ae_alignment :: string
  ae_occurred_at :: int

record signal_settings =
  market_hours :: settings
  trend_alignment_enabled :: bool
  trend_alignment_signal_weight :: pyfloat
  trend_alignment_max_age_minutes :: int

record signal_db =
  db_prices :: "price_row list"
  db_raw :: "raw_row list option"
  db_predictions :: "prediction_row list"
  db_states :: "alignment_state list"
  db_events :: "alignment_event list"
  db_signals :: "signal_row list"

definition load_daily_closes ::
  "series_lib \<Rightarrow> price_row list \<Rightarrow> string list \<Rightarrow> price_row list \<times> (string \<times> pyfloat list) list" where
  "load_daily_closes lib table symbols =
     (let df = sort_key p_observed_at (filter (\<lambda>r. p_symbol r \<in> set symbols \<and> p_quality r = ''ok'' \<and>
                  p_source r \<notin> set SIGNAL_EXCLUDED_SOURCES) table)
      in (df, if df = [] then [] else map (\<lambda>sy. (sy, daily_close lib df sy)) symbols))"

text \<open>Latest prediction per horizon of the last 24 hours: later rows overwrite earlier ones.\<close>

definition load_latest_predictions :: "prediction_row list \<Rightarrow> int \<Rightarrow> string \<Rightarrow> (string \<times> pyfloat \<times> pyfloat) list" where
  "load_latest_predictions table now symb =
     fold (\<lambda>r latest. dict_set (pr_horizon r) (pr_change r, pr_confidence r) latest)
       (sort_key pr_predicted_at (filter (\<lambda>r. now - 24 * hour_us \<le> pr_predicted_at r \<and> pr_symbol r = symb) table)) []"

text \<open>Python truth of a JSON value.\<close>

fun json_truthy :: "json \<Rightarrow> bool" where
  "json_truthy JNull = False"
| "json_truthy (JBool b) = b"
| "json_truthy (JInt n) = (n \<noteq> 0)"
| "json_truthy (JFloat a) = (a \<noteq> Fin 0)"
| "json_truthy (JStr s) = (s \<noteq> [])"
| "json_truthy (JList xs) = (xs \<noteq> [])"
| "json_truthy (JObj xs) = (xs \<noteq> [])"

record trend_read =
  tr_alignment :: string
  tr_states :: "(string \<times> string) list"
  tr_age_days :: "pyfloat option"
  tr_weight :: pyfloat

text \<open>The trends of the stored timeframes; a value that is neither false nor a dictionary has no
  \<^verbatim>\<open>items\<close> and raises.\<close>

definition stored_states :: "series_lib \<Rightarrow> json \<Rightarrow> (string \<times> string) list res" where
  "stored_states lib timeframes =
     (if \<not> json_truthy timeframes then Inr []
      else case timeframes of
        JObj legs \<Rightarrow> Inr (concat (map (\<lambda>(tf, leg). case leg of
            JObj items \<Rightarrow> if json_truthy (json_get items ''trend'')
                          then [(tf, py_str (json_repr lib) (json_get items ''trend''))] else []
          | _ \<Rightarrow> []) legs))
      | _ \<Rightarrow> Inl TypeError)"

definition load_trend_alignment ::
  "series_lib \<Rightarrow> signal_settings \<Rightarrow> signal_db \<Rightarrow> string \<Rightarrow> int \<Rightarrow> trend_read option res" where
  "load_trend_alignment lib st db symb now =
     (if \<not> trend_alignment_enabled st \<or> fle (trend_alignment_signal_weight st) (Fin 0) then Inr None
      else case filter (\<lambda>r. as_symbol r = symb) (db_states db) of
        [] \<Rightarrow> Inr None
      | row # _ \<Rightarrow>
          if \<not> as_data_fresh row \<or> trend_alignment_max_age_minutes st * minute_us < now - as_calculated_at row
          then Inr None
          else map_res (\<lambda>states.
            let alignment = as_alignment row;
                entered = map ae_occurred_at (filter (\<lambda>e. ae_symbol e = symb \<and> ae_alignment e = alignment) (db_events db));
                age = (if (alignment = ''full_bullish'' \<or> alignment = ''full_bearish'') \<and> entered \<noteq> [] then
                         Some (fmax (Fin 0) (fquot (rnd (of_int (now - Max (set entered)) / 10 ^ 6)) (lit 86400)))
                       else None)
            in Some \<lparr>tr_alignment = alignment, tr_states = states, tr_age_days = age,
                 tr_weight = trend_alignment_signal_weight st\<rparr>)
            (stored_states lib (as_timeframes row)))"

section \<open>Freshness and fund flow\<close>

text \<open>Fresh, market closed, and why not fresh.\<close>

definition freshness ::
  "tz \<Rightarrow> settings \<Rightarrow> price_row list \<Rightarrow> string \<Rightarrow> int \<Rightarrow> bool \<times> bool \<times> stale_reason option" where
  "freshness z st df symb now =
     (let closed = \<not> is_market_open z symb (Naive now) st;
          rows = filter (\<lambda>r. p_symbol r = symb) df
      in if rows = [] then (False, closed, Some (NothingStored symb))
         else let last_obs = Max (set (map p_observed_at rows)) in
           if is_acceptably_fresh z symb (Some (Naive last_obs)) (Naive now) st None then (True, closed, None)
           else (False, closed, Some (TooOld symb (now - last_obs) last_obs (stale_minutes st) closed)))"

definition fund_flow_z_of ::
  "series_lib \<Rightarrow> tz \<Rightarrow> settings \<Rightarrow> price_row list \<Rightarrow> (string \<times> pyfloat list) list \<Rightarrow> int \<Rightarrow> pyfloat option res" where
  "fund_flow_z_of lib z st df closes now =
     (let (fresh, _, _) = freshness z st df FUND_FLOW_SYMBOL now in
      if \<not> fresh then Inr None
      else case map_of closes FUND_FLOW_SYMBOL of
        None \<Rightarrow> Inr None
      | Some series \<Rightarrow>
          if int (length series) < min_bars FACTOR_FUND_FLOW then Inr None
          else let recent = last_n (nat (window FACTOR_FUND_FLOW)) series;
                   std = series_std lib recent
            in if \<not> flt (Fin 0) std then Inr None
               else map_res Some (fdiv (fsub (last series) (series_mean lib recent)) std))"

section \<open>Assembly\<close>

record assembly =
  a_inputs :: signal_inputs
  a_scored :: "string list"
  a_omitted :: "(string \<times> omission_reason) list"

definition score_factor :: "factor_spec \<Rightarrow> assembly \<Rightarrow> assembly" where
  "score_factor spec a = a\<lparr>a_scored := a_scored a @ [key spec]\<rparr>"

definition omit_factor :: "factor_spec \<Rightarrow> omission_reason \<Rightarrow> assembly \<Rightarrow> assembly" where
  "omit_factor spec why a = a\<lparr>a_omitted := a_omitted a @ [(key spec, why)]\<rparr>"

definition set_inputs :: "(signal_inputs \<Rightarrow> signal_inputs) \<Rightarrow> assembly \<Rightarrow> assembly" where
  "set_inputs f a = a\<lparr>a_inputs := f (a_inputs a)\<rparr>"

text \<open>A factor with a value is scored, without one it is omitted.\<close>

definition decide :: "factor_spec \<Rightarrow> bool \<Rightarrow> omission_reason \<Rightarrow> assembly \<Rightarrow> assembly" where
  "decide spec have_it why a = (if have_it then score_factor spec a else omit_factor spec why a)"

definition forecast_step :: "string list \<Rightarrow> (string \<times> pyfloat \<times> pyfloat) list \<Rightarrow> assembly \<Rightarrow> assembly" where
  "forecast_step supported latest a =
     (if key FACTOR_FORECAST \<notin> set supported then a
      else if latest \<noteq> [] then
        score_factor FACTOR_FORECAST (set_inputs (\<lambda>inp. inp
          \<lparr>expected_change_pct := map (\<lambda>(h, c, _). (h, Some c)) latest,
           confidence := map (\<lambda>(h, _, c). (h, Some c)) latest\<rparr>) a)
      else omit_factor FACTOR_FORECAST NoRecentPrediction a)"

definition sma_step :: "series_lib \<Rightarrow> string list \<Rightarrow> pyfloat list \<Rightarrow> pyfloat option \<Rightarrow> assembly \<Rightarrow> assembly" where
  "sma_step lib supported series sma20' a =
     (if key FACTOR_TREND_SMA \<notin> set supported then a
      else let w = nat (window FACTOR_TREND_SMA);
               sma50' = (if w \<le> length series then Some (series_mean lib (last_n w series)) else None)
        in if sma20' \<noteq> None \<and> sma50' \<noteq> None
           then score_factor FACTOR_TREND_SMA (set_inputs (\<lambda>inp. inp\<lparr>sma20 := sma20', sma50 := sma50'\<rparr>) a)
           else omit_factor FACTOR_TREND_SMA SmaUndefined a)"

definition rsi_step :: "string list \<Rightarrow> pyfloat option \<Rightarrow> assembly \<Rightarrow> assembly" where
  "rsi_step supported r a =
     (if key FACTOR_RSI \<notin> set supported then a
      else decide FACTOR_RSI (r \<noteq> None) RsiUndefined (set_inputs (\<lambda>inp. inp\<lparr>rsi14 := r\<rparr>) a))"

definition momentum_step :: "string list \<Rightarrow> pyfloat option \<Rightarrow> assembly \<Rightarrow> assembly" where
  "momentum_step supported mom a =
     (if key FACTOR_MOMENTUM \<notin> set supported then a
      else let m = map_option (\<lambda>x. fmul x (lit 100)) mom in
        decide FACTOR_MOMENTUM (m \<noteq> None) MomentumUndefined (set_inputs (\<lambda>inp. inp\<lparr>momentum_10_pct := m\<rparr>) a))"

definition premium_step :: "string list \<Rightarrow> pyfloat option \<Rightarrow> assembly \<Rightarrow> assembly" where
  "premium_step supported z a =
     (if key FACTOR_PREMIUM \<notin> set supported then a
      else decide FACTOR_PREMIUM (z \<noteq> None) PremiumUndefined (set_inputs (\<lambda>inp. inp\<lparr>premium_z := z\<rparr>) a))"

definition volatility_step :: "string list \<Rightarrow> string \<Rightarrow> assembly \<Rightarrow> assembly" where
  "volatility_step supported r a =
     (if key FACTOR_VOLATILITY \<notin> set supported then a
      else decide FACTOR_VOLATILITY (r \<noteq> ''unknown'') RegimeUndetermined (set_inputs (\<lambda>inp. inp\<lparr>regime := r\<rparr>) a))"

definition price_steps ::
  "series_lib \<Rightarrow> string list \<Rightarrow> string list \<Rightarrow> pyfloat list \<Rightarrow> (string \<times> pyfloat list) list \<Rightarrow> assembly \<Rightarrow> assembly" where
  "price_steps lib app supported series closes a =
     (let parity = key FACTOR_PREMIUM \<in> set app;
          feature = last_feature lib series (if parity then map_of closes ''USD_IRT'' else None)
                      (if parity then map_of closes ''XAUUSD'' else None);
          a = set_inputs (\<lambda>inp. inp\<lparr>last_price := Some (last series)\<rparr>) a;
          a = sma_step lib supported series (feature ''roll_mean_20'') a;
          a = rsi_step supported (feature ''rsi_14'') a;
          a = momentum_step supported (feature ''momentum_10'') a;
          a = premium_step supported (feature ''premium_z_30'') a
      in volatility_step supported (detect_regime lib series) a)"

definition flow_step :: "string list \<Rightarrow> pyfloat option res \<Rightarrow> assembly \<Rightarrow> assembly res" where
  "flow_step supported flow a =
     (if key FACTOR_FUND_FLOW \<notin> set supported then Inr a
      else map_res (\<lambda>z. case z of
          None \<Rightarrow> omit_factor FACTOR_FUND_FLOW FlowUnavailable a
        | Some _ \<Rightarrow> score_factor FACTOR_FUND_FLOW (set_inputs (\<lambda>inp. inp\<lparr>fund_flow_z := z\<rparr>) a)) flow)"

text \<open>An exception while reading the alignment counts as no read.\<close>

definition alignment_step :: "string list \<Rightarrow> trend_read option res \<Rightarrow> assembly \<Rightarrow> assembly" where
  "alignment_step supported trend a =
     (if key FACTOR_MA_ALIGNMENT \<notin> set supported then a
      else case trend of
        Inr (Some t) \<Rightarrow> score_factor FACTOR_MA_ALIGNMENT (set_inputs (\<lambda>inp. inp
          \<lparr>trend_alignment := Some (tr_alignment t), trend_states := tr_states t,
           trend_alignment_age_days := tr_age_days t, trend_weight := tr_weight t\<rparr>) a)
      | _ \<Rightarrow> omit_factor FACTOR_MA_ALIGNMENT NoAlignmentRead a)"

definition wanted_symbols :: "string \<Rightarrow> string list \<Rightarrow> string list" where
  "wanted_symbols symb app =
     sort (remdups ([symb] @ (if key FACTOR_PREMIUM \<in> set app then [''USD_IRT'', ''XAUUSD''] else [])
       @ (if key FACTOR_FUND_FLOW \<in> set app then [FUND_FLOW_SYMBOL] else [])))"

definition assemble_inputs ::
  "series_lib \<Rightarrow> tz \<Rightarrow> signal_settings \<Rightarrow> signal_db \<Rightarrow> string \<Rightarrow> int \<Rightarrow> (signal_inputs \<times> string list \<times> int) res" where
  "assemble_inputs lib z st db symb now =
     bind_res (profile_for symb) (\<lambda>profile.
       let app = profile_keys profile;
           (df, closes) = load_daily_closes lib (db_prices db) (wanted_symbols symb app);
           series = dict_get [] closes symb;
           bars = int (length series);
           (supported, omitted) = history_omissions profile bars
       in bind_res (resolve_cost (db_raw db) now symb) (\<lambda>cost.
         let a = \<lparr>a_inputs = (default_inputs symb)
                    \<lparr>market_risk := dict_get [] MARKET_RISK symb,
                     round_trip_cost_pct := cost_pct cost, cost_resolved := Some cost\<rparr>,
                  a_scored = [], a_omitted = omitted @ inapplicable profile\<rparr>;
             a = forecast_step supported (load_latest_predictions (db_predictions db) now symb) a;
             a = (if bars \<noteq> 0 then price_steps lib app supported series closes a else a)
         in bind_res (flow_step supported (fund_flow_z_of lib z (market_hours st) df closes now) a) (\<lambda>a.
           let a = alignment_step supported (load_trend_alignment lib st db symb now) a;
               (fresh, closed, why) = freshness z (market_hours st) df symb now
           in Inr ((a_inputs a)\<lparr>data_fresh := fresh, market_closed := closed, stale_why := why,
                      omitted_factors := a_omitted a\<rparr>,
                   a_scored a, bars))))"

section \<open>Publishing\<close>

record signal_outcome =
  out_symbol :: string
  out_bars :: int
  out_payload :: "signal_row option"
  out_withheld :: "withholding option"
  out_omitted :: "(string \<times> omission_reason) list"

definition published :: "signal_outcome \<Rightarrow> bool" where
  "published outc \<longleftrightarrow> out_payload outc \<noteq> None"

definition generate_signal_for ::
  "numlib \<Rightarrow> series_lib \<Rightarrow> tz \<Rightarrow> signal_settings \<Rightarrow> signal_db \<Rightarrow> string \<Rightarrow> int \<Rightarrow> (signal_outcome \<times> signal_db) res" where
  "generate_signal_for np lib z st db symb now =
     bind_res (assemble_inputs lib z st db symb now) (\<lambda>(inp, scored, bars).
       case withholding_reason scored of
         Some refusal \<Rightarrow> Inr (\<lparr>out_symbol = symb, out_bars = bars, out_payload = None,
            out_withheld = Some refusal, out_omitted = omitted_factors inp\<rparr>, db)
       | None \<Rightarrow> map_res (\<lambda>row. (\<lparr>out_symbol = symb, out_bars = bars, out_payload = Some row,
            out_withheld = None, out_omitted = omitted_factors inp\<rparr>, db\<lparr>db_signals := db_signals db @ [row]\<rparr>))
            (compute_signal np inp now))"

text \<open>The compact report of a pass over one symbol.\<close>

datatype signal_report =
    ReportWithheld "withholding option" int "(string \<times> omission_reason) list"
  | ReportPublished string int pyfloat bool int "(string \<times> omission_reason) list"
      \<comment> \<open>signal, score, confidence, fresh, bars, omitted\<close>

definition summary :: "signal_outcome \<Rightarrow> signal_report" where
  "summary outc = (case out_payload outc of
       None \<Rightarrow> ReportWithheld (out_withheld outc) (out_bars outc) (out_omitted outc)
     | Some row \<Rightarrow> ReportPublished (signal row) (final_score row) (row_confidence row) (row_fresh row)
         (out_bars outc) (out_omitted outc))"

text \<open>The decision policy is returned even where storing it fails.\<close>

definition publish_decision_policy ::
  "(policy \<Rightarrow> json) \<Rightarrow> bool \<Rightarrow> raw_row list option \<Rightarrow> int \<Rightarrow> settings_table \<Rightarrow> (policy \<times> settings_table) res" where
  "publish_decision_policy to_json writable table now kv =
     map_res (\<lambda>pol. (pol, if writable then upsert_setting ''decision_policy'' (to_json pol) kv else kv))
       (decision_policy table now)"

section \<open>Every factor is settled once\<close>

text \<open>The factors settled so far are \<open>K\<close>, each of them once.\<close>

definition settled :: "string set \<Rightarrow> assembly \<Rightarrow> bool" where
  "settled K a \<longleftrightarrow> distinct (a_scored a @ map fst (a_omitted a)) \<and> set (a_scored a @ map fst (a_omitted a)) = K"

lemma settled_set [simp]: "settled K (set_inputs f a) = settled K a"
  by (simp add: settled_def set_inputs_def)

lemma settled_score: "settled K a \<Longrightarrow> key spec \<notin> K \<Longrightarrow> settled (insert (key spec) K) (score_factor spec a)"
  by (auto simp: settled_def score_factor_def)

lemma settled_omit: "settled K a \<Longrightarrow> key spec \<notin> K \<Longrightarrow> settled (insert (key spec) K) (omit_factor spec why a)"
  by (auto simp: settled_def omit_factor_def)

lemma settled_decide: "settled K a \<Longrightarrow> key spec \<notin> K \<Longrightarrow> settled (insert (key spec) K) (decide spec p why a)"
  by (simp add: decide_def settled_score settled_omit)

definition with_key :: "factor_spec \<Rightarrow> string list \<Rightarrow> string set \<Rightarrow> string set" where
  "with_key spec supp K = (if key spec \<in> set supp then insert (key spec) K else K)"

lemma with_key_mem: "k \<in> with_key spec supp K \<longleftrightarrow> k \<in> K \<or> k = key spec \<and> k \<in> set supp"
  by (auto simp: with_key_def)

lemmas step_defs = forecast_step_def sma_step_def rsi_step_def momentum_step_def premium_step_def
  volatility_step_def alignment_step_def with_key_def

lemma settled_steps:
  "settled K a \<Longrightarrow> (key FACTOR_FORECAST \<in> set supp \<Longrightarrow> key FACTOR_FORECAST \<notin> K) \<Longrightarrow>
    settled (with_key FACTOR_FORECAST supp K) (forecast_step supp latest a)"
  "settled K a \<Longrightarrow> (key FACTOR_TREND_SMA \<in> set supp \<Longrightarrow> key FACTOR_TREND_SMA \<notin> K) \<Longrightarrow>
    settled (with_key FACTOR_TREND_SMA supp K) (sma_step lib supp series f a)"
  "settled K a \<Longrightarrow> (key FACTOR_RSI \<in> set supp \<Longrightarrow> key FACTOR_RSI \<notin> K) \<Longrightarrow>
    settled (with_key FACTOR_RSI supp K) (rsi_step supp r a)"
  "settled K a \<Longrightarrow> (key FACTOR_MOMENTUM \<in> set supp \<Longrightarrow> key FACTOR_MOMENTUM \<notin> K) \<Longrightarrow>
    settled (with_key FACTOR_MOMENTUM supp K) (momentum_step supp r a)"
  "settled K a \<Longrightarrow> (key FACTOR_PREMIUM \<in> set supp \<Longrightarrow> key FACTOR_PREMIUM \<notin> K) \<Longrightarrow>
    settled (with_key FACTOR_PREMIUM supp K) (premium_step supp r a)"
  "settled K a \<Longrightarrow> (key FACTOR_VOLATILITY \<in> set supp \<Longrightarrow> key FACTOR_VOLATILITY \<notin> K) \<Longrightarrow>
    settled (with_key FACTOR_VOLATILITY supp K) (volatility_step supp rg a)"
  "settled K a \<Longrightarrow> (key FACTOR_MA_ALIGNMENT \<in> set supp \<Longrightarrow> key FACTOR_MA_ALIGNMENT \<notin> K) \<Longrightarrow>
    settled (with_key FACTOR_MA_ALIGNMENT supp K) (alignment_step supp tr a)"
  by (simp_all add: step_defs Let_def settled_score settled_omit settled_decide del: factor_defs split: sum.split option.split)

lemma settled_flow:
  assumes "settled K a" "key FACTOR_FUND_FLOW \<in> set supp \<Longrightarrow> key FACTOR_FUND_FLOW \<notin> K"
    and "flow_step supp flow a = Inr a'"
  shows "settled (with_key FACTOR_FUND_FLOW supp K) a'"
  using assms
  by (cases flow) (auto simp: flow_step_def with_key_def settled_score settled_omit simp del: factor_defs split: if_splits option.splits)

text \<open>A factor carries a value in the inputs.\<close>

definition carries :: "signal_inputs \<Rightarrow> string \<Rightarrow> bool" where
  "carries inp k \<longleftrightarrow>
     (if k = key FACTOR_FORECAST then expected_change_pct inp \<noteq> []
      else if k = key FACTOR_TREND_SMA then sma20 inp \<noteq> None \<and> sma50 inp \<noteq> None
      else if k = key FACTOR_RSI then rsi14 inp \<noteq> None
      else if k = key FACTOR_MOMENTUM then momentum_10_pct inp \<noteq> None
      else if k = key FACTOR_PREMIUM then premium_z inp \<noteq> None
      else if k = key FACTOR_VOLATILITY then regime inp \<noteq> ''unknown''
      else if k = key FACTOR_FUND_FLOW then fund_flow_z inp \<noteq> None
      else k = key FACTOR_MA_ALIGNMENT \<and> trend_alignment inp \<noteq> None)"

definition candid :: "assembly \<Rightarrow> bool" where
  "candid a \<longleftrightarrow> (\<forall>k \<in> set (map key ALL_FACTORS). k \<in> set (a_scored a) \<longleftrightarrow> carries (a_inputs a) k)"

lemma candid_iff:
  "candid a \<longleftrightarrow>
    (''trend_sma'' \<in> set (a_scored a) \<longleftrightarrow> sma20 (a_inputs a) \<noteq> None \<and> sma50 (a_inputs a) \<noteq> None) \<and>
    (''rsi14'' \<in> set (a_scored a) \<longleftrightarrow> rsi14 (a_inputs a) \<noteq> None) \<and>
    (''momentum_10'' \<in> set (a_scored a) \<longleftrightarrow> momentum_10_pct (a_inputs a) \<noteq> None) \<and>
    (''volatility_regime'' \<in> set (a_scored a) \<longleftrightarrow> regime (a_inputs a) \<noteq> ''unknown'') \<and>
    (''forecast_vs_cost'' \<in> set (a_scored a) \<longleftrightarrow> expected_change_pct (a_inputs a) \<noteq> []) \<and>
    (''local_premium_z'' \<in> set (a_scored a) \<longleftrightarrow> premium_z (a_inputs a) \<noteq> None) \<and>
    (''gold_fund_flow'' \<in> set (a_scored a) \<longleftrightarrow> fund_flow_z (a_inputs a) \<noteq> None) \<and>
    (''ma_alignment'' \<in> set (a_scored a) \<longleftrightarrow> trend_alignment (a_inputs a) \<noteq> None)"
  by (simp add: candid_def carries_def all_keys del: not_None_eq)

lemmas candid_defs = score_factor_def omit_factor_def set_inputs_def

lemma candid_forecast: "candid a \<Longrightarrow> candid (forecast_step supp latest a)"
  unfolding forecast_step_def Let_def decide_def
  by (split if_split | intro conjI impI)+
    (simp_all add: candid_defs candid_iff del: not_None_eq)
lemma candid_sma: "candid a \<Longrightarrow> candid (sma_step lib supp series f a)"
  unfolding sma_step_def Let_def decide_def
  by (split if_split | intro conjI impI)+
    (simp_all add: candid_defs candid_iff del: not_None_eq)
lemma candid_rsi: "candid a \<Longrightarrow>
    (key FACTOR_RSI \<in> set supp \<Longrightarrow> key FACTOR_RSI \<notin> set (a_scored a)) \<Longrightarrow> candid (rsi_step supp r a)"
  unfolding rsi_step_def Let_def decide_def
  by (split if_split | intro conjI impI)+
    (simp_all add: candid_defs candid_iff del: not_None_eq)
lemma candid_momentum: "candid a \<Longrightarrow>
    (key FACTOR_MOMENTUM \<in> set supp \<Longrightarrow> key FACTOR_MOMENTUM \<notin> set (a_scored a)) \<Longrightarrow> candid (momentum_step supp r a)"
  unfolding momentum_step_def Let_def decide_def
  by (split if_split | intro conjI impI)+
    (simp_all add: candid_defs candid_iff del: not_None_eq)
lemma candid_premium: "candid a \<Longrightarrow>
    (key FACTOR_PREMIUM \<in> set supp \<Longrightarrow> key FACTOR_PREMIUM \<notin> set (a_scored a)) \<Longrightarrow> candid (premium_step supp r a)"
  unfolding premium_step_def Let_def decide_def
  by (split if_split | intro conjI impI)+
    (simp_all add: candid_defs candid_iff del: not_None_eq)
lemma candid_volatility: "candid a \<Longrightarrow>
    (key FACTOR_VOLATILITY \<in> set supp \<Longrightarrow> key FACTOR_VOLATILITY \<notin> set (a_scored a)) \<Longrightarrow> candid (volatility_step supp r a)"
  unfolding volatility_step_def Let_def decide_def
  by (split if_split | intro conjI impI)+
    (simp_all add: candid_defs candid_iff del: not_None_eq)

lemma candid_flow:
  assumes "candid a" and "flow_step supp flow a = Inr a'"
  shows "candid a'"
proof -
  consider "a' = a" | why where "a' = omit_factor FACTOR_FUND_FLOW why a"
    | z where "a' = score_factor FACTOR_FUND_FLOW (set_inputs (\<lambda>inp. inp\<lparr>fund_flow_z := Some z\<rparr>) a)"
    using assms(2) unfolding flow_step_def
    by (cases flow) (auto simp del: factor_defs split: if_splits option.splits)
  then show ?thesis using assms(1) by cases (simp_all add: candid_defs candid_iff del: not_None_eq)
qed

lemma candid_alignment: "candid a \<Longrightarrow> candid (alignment_step supp tr a)"
  unfolding alignment_step_def
  by (split if_split | split sum.split | split option.split | intro conjI impI allI)+
    (simp_all add: candid_defs candid_iff del: not_None_eq)

lemma candid_inputs:
  "candid (set_inputs (\<lambda>inp. inp\<lparr>last_price := v\<rparr>) a) = candid a"
  by (simp add: candid_defs candid_iff del: not_None_eq)

definition price_keys :: "string list \<Rightarrow> string set \<Rightarrow> string set" where
  "price_keys supp K = with_key FACTOR_VOLATILITY supp (with_key FACTOR_PREMIUM supp
     (with_key FACTOR_MOMENTUM supp (with_key FACTOR_RSI supp (with_key FACTOR_TREND_SMA supp K))))"

text \<open>A settled and candid assembly stays so over the price-derived factors.\<close>

lemma settled_scored: "settled K a \<Longrightarrow> k \<notin> K \<Longrightarrow> k \<notin> set (a_scored a)"
  by (auto simp: settled_def)

definition sound :: "string list \<Rightarrow> string set \<Rightarrow> assembly \<Rightarrow> bool" where
  "sound supp K a \<longleftrightarrow> settled K a \<and> candid a"

lemma sound_steps:
  assumes "sound supp K a"
  shows "(key FACTOR_FORECAST \<in> set supp \<Longrightarrow> key FACTOR_FORECAST \<notin> K) \<Longrightarrow>
      sound supp (with_key FACTOR_FORECAST supp K) (forecast_step supp latest a)"
    and "(key FACTOR_TREND_SMA \<in> set supp \<Longrightarrow> key FACTOR_TREND_SMA \<notin> K) \<Longrightarrow>
      sound supp (with_key FACTOR_TREND_SMA supp K) (sma_step lib supp series f a)"
    and "(key FACTOR_RSI \<in> set supp \<Longrightarrow> key FACTOR_RSI \<notin> K) \<Longrightarrow>
      sound supp (with_key FACTOR_RSI supp K) (rsi_step supp r a)"
    and "(key FACTOR_MOMENTUM \<in> set supp \<Longrightarrow> key FACTOR_MOMENTUM \<notin> K) \<Longrightarrow>
      sound supp (with_key FACTOR_MOMENTUM supp K) (momentum_step supp r a)"
    and "(key FACTOR_PREMIUM \<in> set supp \<Longrightarrow> key FACTOR_PREMIUM \<notin> K) \<Longrightarrow>
      sound supp (with_key FACTOR_PREMIUM supp K) (premium_step supp r a)"
    and "(key FACTOR_VOLATILITY \<in> set supp \<Longrightarrow> key FACTOR_VOLATILITY \<notin> K) \<Longrightarrow>
      sound supp (with_key FACTOR_VOLATILITY supp K) (volatility_step supp rg a)"
    and "(key FACTOR_MA_ALIGNMENT \<in> set supp \<Longrightarrow> key FACTOR_MA_ALIGNMENT \<notin> K) \<Longrightarrow>
      sound supp (with_key FACTOR_MA_ALIGNMENT supp K) (alignment_step supp tr a)"
  using assms settled_scored [of K a]
  by (simp_all add: sound_def settled_steps candid_forecast candid_sma candid_rsi candid_momentum
    candid_premium candid_volatility candid_alignment del: factor_defs)

lemma sound_flow:
  assumes "sound supp K a" "key FACTOR_FUND_FLOW \<in> set supp \<Longrightarrow> key FACTOR_FUND_FLOW \<notin> K"
    and "flow_step supp flow a = Inr a'"
  shows "sound supp (with_key FACTOR_FUND_FLOW supp K) a'"
  using assms settled_flow candid_flow unfolding sound_def by blast

lemma sound_last_price:
  "sound supp K (set_inputs (\<lambda>inp. inp\<lparr>last_price := v\<rparr>) a) = sound supp K a"
  by (simp add: sound_def candid_inputs)

lemma sound_price_steps:
  assumes "sound supp K a" and fresh: "set supp \<inter> K \<subseteq> {key FACTOR_FORECAST}"
  shows "sound supp (price_keys supp K) (price_steps lib app supp series closes a)"
proof -
  have out: "k \<in> set supp \<Longrightarrow> k \<noteq> ''forecast_vs_cost'' \<Longrightarrow> k \<notin> K" for k using fresh by auto
  show ?thesis
    unfolding price_steps_def Let_def price_keys_def
    by (intro sound_steps sound_last_price [THEN iffD2] assms(1); simp add: with_key_mem out)
qed

text \<open>Without a bar only the forecast is supported.\<close>

lemma no_bars_supported:
  assumes "profile_for sy = Inr p" and "bars = 0"
  shows "set (fst (history_omissions p bars)) \<subseteq> {key FACTOR_FORECAST}"
  unfolding history_omissions_def profile_applicable [OF assms(1)]
  using assms(2) by (auto simp: UNIVERSAL_FACTORS_def min_bars_def)

lemma price_keys_none:
  assumes "set supp \<subseteq> {key FACTOR_FORECAST}"
  shows "price_keys supp K = K"
  using assms by (auto simp: price_keys_def with_key_def)

lemma all_keys_covered:
  "with_key FACTOR_MA_ALIGNMENT supp (with_key FACTOR_FUND_FLOW supp (price_keys supp
     (with_key FACTOR_FORECAST supp K))) = K \<union> (set supp \<inter> set (map key ALL_FACTORS))"
  by (auto simp: all_keys price_keys_def with_key_mem)


section \<open>The assembled inputs\<close>

lemma sound_start:
  assumes "profile_for sy = Inr p" and "history_omissions p bars = (supp, omitted)"
  shows "sound supp (set (map fst (omitted @ inapplicable p)))
      \<lparr>a_inputs = (default_inputs sy)\<lparr>market_risk := m, round_trip_cost_pct := c, cost_resolved := r\<rparr>,
       a_scored = [], a_omitted = omitted @ inapplicable p\<rparr>"
proof -
  have om: "map fst omitted = map key (filter (\<lambda>spec. \<not> min_bars spec \<le> bars) (applicable p))"
    using assms(2) by (auto simp: history_omissions_def)
  have "distinct (map key (applicable p) @ map fst (inapplicable p))"
    using profile_partition [OF assms(1)] by simp
  then have "distinct (map fst (omitted @ inapplicable p))"
    unfolding map_append om by (auto simp: distinct_map_filter)
  then show ?thesis
    by (simp add: sound_def settled_def candid_iff default_inputs_def)
qed

lemma split_sets:
  assumes "S \<union> A = B" "S \<inter> A = {}" "B \<inter> I = {}" "B \<union> I = W"
  shows "S \<inter> (A \<union> I) = {}" "(A \<union> I) \<union> (S \<inter> W) = W"
  using assms by blast+

lemma supported_split:
  assumes "profile_for sy = Inr p" and "history_omissions p bars = (supp, omitted)"
  shows "set supp \<inter> set (map fst (omitted @ inapplicable p)) = {}"
    and "set (map fst (omitted @ inapplicable p)) \<union> (set supp \<inter> set (map key ALL_FACTORS)) = set (map key ALL_FACTORS)"
proof -
  have parts: "set supp \<union> fst ` set omitted = set (map key (applicable p))"
      "set supp \<inter> fst ` set omitted = {}"
    using history_partition [of p bars] history_disjoint [OF profile_distinct_keys [OF assms(1)], of bars] assms(2)
    by simp_all
  have whole: "set (map key (applicable p)) \<inter> set (map fst (inapplicable p)) = {}"
      "set (map key (applicable p)) \<union> set (map fst (inapplicable p)) = set (map key ALL_FACTORS)"
    using profile_partition [OF assms(1)] by (simp_all del: set_map)
  show "set supp \<inter> set (map fst (omitted @ inapplicable p)) = {}"
    "set (map fst (omitted @ inapplicable p)) \<union> (set supp \<inter> set (map key ALL_FACTORS)) = set (map key ALL_FACTORS)"
    using split_sets [OF parts whole] by (simp_all only: map_append set_append set_map)
qed

lemma assemble_cases:
  assumes "assemble_inputs lib z st db sy now = Inr (inp, scored, bars)"
  obtains p supp omitted a b c latest series closes app flow tr ri cp cr m where
    "profile_for sy = Inr p" "history_omissions p bars = (supp, omitted)"
    "a = \<lparr>a_inputs = (default_inputs sy)\<lparr>market_risk := m, round_trip_cost_pct := cp, cost_resolved := cr\<rparr>,
       a_scored = [], a_omitted = omitted @ inapplicable p\<rparr>"
    "b = (if bars \<noteq> 0 then price_steps lib app supp series closes (forecast_step supp latest a)
          else forecast_step supp latest a)"
    "flow_step supp flow b = Inr c"
    "scored = a_scored (alignment_step supp tr c)"
    "inp = (a_inputs (alignment_step supp tr c))\<lparr>data_fresh := fst ri, market_closed := fst (snd ri),
        stale_why := snd (snd ri), omitted_factors := a_omitted (alignment_step supp tr c)\<rparr>"
proof -
  obtain p where p: "profile_for sy = Inr p"
    using assms unfolding assemble_inputs_def by (cases "profile_for sy") simp_all
  obtain df closes where l: "load_daily_closes lib (db_prices db) (wanted_symbols sy (profile_keys p)) = (df, closes)"
    by (cases "load_daily_closes lib (db_prices db) (wanted_symbols sy (profile_keys p))")
  obtain supp omitted where h: "history_omissions p (int (length (dict_get [] closes sy))) = (supp, omitted)"
    by (cases "history_omissions p (int (length (dict_get [] closes sy)))")
  obtain cost where cost: "resolve_cost (db_raw db) now sy = Inr cost"
    using assms unfolding assemble_inputs_def
    by (cases "resolve_cost (db_raw db) now sy") (simp_all add: p l h Let_def)
  obtain fresh closed why where fr: "freshness z (market_hours st) df sy now = (fresh, closed, why)"
    by (cases "freshness z (market_hours st) df sy now")
  let ?a = "\<lparr>a_inputs = (default_inputs sy)\<lparr>market_risk := dict_get [] MARKET_RISK sy,
      round_trip_cost_pct := cost_pct cost, cost_resolved := Some cost\<rparr>,
      a_scored = [], a_omitted = omitted @ inapplicable p\<rparr>"
  let ?latest = "load_latest_predictions (db_predictions db) now sy"
  let ?b = "if int (length (dict_get [] closes sy)) \<noteq> 0
    then price_steps lib (profile_keys p) supp (dict_get [] closes sy) closes (forecast_step supp ?latest ?a)
    else forecast_step supp ?latest ?a"
  let ?tr = "load_trend_alignment lib st db sy now"
  have run: "bind_res (flow_step supp (fund_flow_z_of lib z (market_hours st) df closes now) ?b) (\<lambda>c.
      Inr ((a_inputs (alignment_step supp ?tr c))\<lparr>data_fresh := fresh, market_closed := closed, stale_why := why,
          omitted_factors := a_omitted (alignment_step supp ?tr c)\<rparr>,
        a_scored (alignment_step supp ?tr c), int (length (dict_get [] closes sy)))) = Inr (inp, scored, bars)"
    using assms unfolding assemble_inputs_def p bind_res_simps l h cost fr Let_def prod.case .
  obtain c where c: "flow_step supp (fund_flow_z_of lib z (market_hours st) df closes now) ?b = Inr c"
    using run unfolding bind_res_eq_Inr by blast
  have res: "inp = (a_inputs (alignment_step supp ?tr c))\<lparr>data_fresh := fresh, market_closed := closed, stale_why := why,
          omitted_factors := a_omitted (alignment_step supp ?tr c)\<rparr>"
      "scored = a_scored (alignment_step supp ?tr c)" "bars = int (length (dict_get [] closes sy))"
    using run unfolding c bind_res_simps by simp_all
  show thesis
  proof (rule that [OF p _ refl refl])
    show "history_omissions p bars = (supp, omitted)" using h unfolding res .
    show "flow_step supp (fund_flow_z_of lib z (market_hours st) df closes now)
       (if bars \<noteq> 0 then price_steps lib (profile_keys p) supp (dict_get [] closes sy) closes (forecast_step supp ?latest ?a)
        else forecast_step supp ?latest ?a) = Inr c" using c unfolding res(3) .
    show "scored = a_scored (alignment_step supp ?tr c)" by (rule res)
    show "inp = (a_inputs (alignment_step supp ?tr c))\<lparr>data_fresh := fst (fresh, closed, why),
        market_closed := fst (snd (fresh, closed, why)), stale_why := snd (snd (fresh, closed, why)),
        omitted_factors := a_omitted (alignment_step supp ?tr c)\<rparr>"
      unfolding fst_conv snd_conv by (rule res)
  qed
qed

lemma assemble_sound:
  assumes "assemble_inputs lib z st db sy now = Inr (inp, scored, bars)"
  shows "distinct (scored @ map fst (omitted_factors inp))"
    and "set (scored @ map fst (omitted_factors inp)) = set (map key ALL_FACTORS)"
    and "\<forall>k \<in> set (map key ALL_FACTORS). k \<in> set scored \<longleftrightarrow> carries inp k"
proof -
  obtain p supp omitted a b c latest series closes app flow tr ri cp cr m where
    p: "profile_for sy = Inr p" and h: "history_omissions p bars = (supp, omitted)" and
    a: "a = \<lparr>a_inputs = (default_inputs sy)\<lparr>market_risk := m, round_trip_cost_pct := cp, cost_resolved := cr\<rparr>,
       a_scored = [], a_omitted = omitted @ inapplicable p\<rparr>" and
    b: "b = (if bars \<noteq> 0 then price_steps lib app supp series closes (forecast_step supp latest a)
          else forecast_step supp latest a)" and
    c: "flow_step supp flow b = Inr c" and
    res: "scored = a_scored (alignment_step supp tr c)"
    "inp = (a_inputs (alignment_step supp tr c))\<lparr>data_fresh := fst ri, market_closed := fst (snd ri),
        stale_why := snd (snd ri), omitted_factors := a_omitted (alignment_step supp tr c)\<rparr>"
    using assemble_cases [OF assms] by metis
  let ?K = "set (map fst (omitted @ inapplicable p))"
  note apart = supported_split(1) [OF p h]
  have out: "k \<in> set supp \<Longrightarrow> k \<notin> ?K" for k using apart by blast
  have 1: "sound supp (with_key FACTOR_FORECAST supp ?K) (forecast_step supp latest a)"
    unfolding a by (rule sound_steps(1) [OF sound_start [OF p h]]) (rule out)
  have 2: "sound supp (price_keys supp (with_key FACTOR_FORECAST supp ?K)) b"
  proof (cases "bars = 0")
    case True
    then have "set supp \<subseteq> {key FACTOR_FORECAST}"
      using no_bars_supported [OF p True] unfolding h fst_conv by blast
    then show ?thesis unfolding b using True 1 by (simp only: price_keys_none) simp
  next
    case False
    have "set supp \<inter> with_key FACTOR_FORECAST supp ?K \<subseteq> {key FACTOR_FORECAST}"
      using out by (auto simp only: with_key_mem)
    from sound_price_steps [OF 1 this] show ?thesis unfolding b using False by simp
  qed
  have 3: "sound supp (with_key FACTOR_FUND_FLOW supp (price_keys supp (with_key FACTOR_FORECAST supp ?K))) c"
    by (rule sound_flow [OF 2 _ c]) (use out in \<open>simp add: price_keys_def with_key_mem\<close>)
  have "sound supp (with_key FACTOR_MA_ALIGNMENT supp
      (with_key FACTOR_FUND_FLOW supp (price_keys supp (with_key FACTOR_FORECAST supp ?K))))
      (alignment_step supp tr c)"
    by (rule sound_steps(7) [OF 3]) (use out in \<open>simp add: price_keys_def with_key_mem\<close>)
  then have fin: "settled (set (map key ALL_FACTORS)) (alignment_step supp tr c)" "candid (alignment_step supp tr c)"
    unfolding all_keys_covered supported_split(2) [OF p h] by (simp_all only: sound_def)
  have same: "carries inp k \<longleftrightarrow> carries (a_inputs (alignment_step supp tr c)) k" for k
    unfolding res by (simp add: carries_def)
  have om: "omitted_factors inp = a_omitted (alignment_step supp tr c)" unfolding res(2) by simp
  show "distinct (scored @ map fst (omitted_factors inp))"
    "set (scored @ map fst (omitted_factors inp)) = set (map key ALL_FACTORS)"
    using fin(1) unfolding om res(1) settled_def by blast+
  show "\<forall>k \<in> set (map key ALL_FACTORS). k \<in> set scored \<longleftrightarrow> carries inp k"
    using fin(2) unfolding res(1) same candid_def .
qed

text \<open>A concrete series library and database for the examples.\<close>

definition reference_series :: series_lib where
  "reference_series = \<lparr>daily_close = (\<lambda>df sy. replicate 50 (Fin 100)),
     last_feature = (\<lambda>series usd xau column. if column = ''rsi_14'' then Some (Fin 20) else None),
     detect_regime = (\<lambda>series. ''calm''), series_mean = (\<lambda>xs. Fin 90), series_std = (\<lambda>xs. Fin 1),
     json_repr = (\<lambda>v. [])\<rparr>"

definition reference_settings :: signal_settings where
  "reference_settings = \<lparr>market_hours = default_settings, trend_alignment_enabled = False,
     trend_alignment_signal_weight = Fin 10, trend_alignment_max_age_minutes = 180\<rparr>"

definition one_price_db :: signal_db where
  "one_price_db = \<lparr>db_prices = [\<lparr>p_symbol = ''USD_IRT'', p_value = Fin 100, p_currency = ''IRT'', p_unit = ''1'',
      p_source = ''a'', p_observed_at = 0, p_collected_at = 0, p_quality = ''ok''\<rparr>],
    db_raw = None, db_predictions = [], db_states = [], db_events = [], db_signals = []\<rparr>"

definition assembled_keys :: "(signal_inputs \<times> string list \<times> int) res \<Rightarrow> string list" where
  "assembled_keys r = (case r of Inr (inp, scored, bars) \<Rightarrow> scored | Inl e \<Rightarrow> [])"

lemma one_price_keys:
  "assembled_keys (assemble_inputs reference_series tehran_zone reference_settings one_price_db ''USD_IRT'' 1) =
     [''rsi14'', ''volatility_regime'']"
  by code_simp

lemma assembled_keysE:
  assumes "assembled_keys r = k # ks"
  obtains inp bars where "r = Inr (inp, k # ks, bars)"
  using assms by (auto simp: assembled_keys_def split: sum.splits)

section \<open>Properties\<close>

text \<open>C20: Assembly settles every factor of the engine exactly once: the scored keys and the omitted
  ones are distinct, together they are all eight, and a factor is scored exactly when the inputs
  carry a value for it, so none is left silently at a neutral value.\<close>

theorem assembly_settles_every_factor:
  assumes "assemble_inputs lib z st db sy now = Inr (inp, scored, bars)"
  shows "distinct (scored @ map fst (omitted_factors inp)) \<and>
    set (scored @ map fst (omitted_factors inp)) = set (map key ALL_FACTORS) \<and>
    (\<forall>k \<in> set (map key ALL_FACTORS). k \<in> set scored \<longleftrightarrow> carries inp k)"
  using assemble_sound [OF assms] by blast

theorem assembly_settles_every_factor_witness:
  "\<exists>inp bars. assemble_inputs reference_series tehran_zone reference_settings one_price_db ''USD_IRT'' 1 =
      Inr (inp, [''rsi14'', ''volatility_regime''], bars) \<and>
    carries inp ''rsi14'' \<and> \<not> carries inp ''trend_sma''"
proof -
  obtain inp bars where run: "assemble_inputs reference_series tehran_zone reference_settings one_price_db ''USD_IRT'' 1 =
      Inr (inp, [''rsi14'', ''volatility_regime''], bars)"
    using one_price_keys by (rule assembled_keysE)
  from assembly_settles_every_factor [OF run] have
    "\<forall>k \<in> set (map key ALL_FACTORS). k \<in> set [''rsi14'', ''volatility_regime''] \<longleftrightarrow> carries inp k" by blast
  then have "carries inp ''rsi14''" "\<not> carries inp ''trend_sma''" unfolding all_keys by simp_all
  with run show ?thesis by blast
qed

lemma scored_count:
  assumes "assemble_inputs lib z st db sy now = Inr (inp, scored, bars)"
  shows "length scored + length (omitted_factors inp) = 8"
proof -
  have "length (scored @ map fst (omitted_factors inp)) = card (set (map key ALL_FACTORS))"
    using assemble_sound(1,2) [OF assms] distinct_card by metis
  also have "\<dots> = 8" unfolding all_keys by simp
  finally show ?thesis by simp
qed

lemma scored_complement:
  assumes "assemble_inputs lib z st db sy now = Inr (inp, scored, bars)" and "k \<in> set (map key ALL_FACTORS)"
  shows "k \<in> set scored \<longleftrightarrow> k \<notin> set (map fst (omitted_factors inp))"
  using assemble_sound(1,2) [OF assms(1)] assms(2) by (auto simp del: set_map simp: set_append)

lemma generate_cases:
  assumes "generate_signal_for np lib z st db sy now = Inr (outc, db')"
  obtains inp scored bars where "assemble_inputs lib z st db sy now = Inr (inp, scored, bars)"
    "out_omitted outc = omitted_factors inp" "out_bars outc = bars"
    "out_withheld outc = withholding_reason scored"
    "out_payload outc \<noteq> None \<longleftrightarrow> withholding_reason scored = None"
    "db' = db\<lparr>db_signals := db_signals db @ (case out_payload outc of None \<Rightarrow> [] | Some row \<Rightarrow> [row])\<rparr>"
    "case out_payload outc of None \<Rightarrow> True | Some row \<Rightarrow> compute_signal np inp now = Inr row"
proof -
  obtain inp scored bars where run: "assemble_inputs lib z st db sy now = Inr (inp, scored, bars)"
    using assms unfolding generate_signal_for_def by (cases "assemble_inputs lib z st db sy now") auto
  show thesis
    by (rule that [OF run]; use assms in \<open>cases "withholding_reason scored"\<close>)
      (auto simp: generate_signal_for_def run map_res_eq_Inr)
qed

text \<open>C19: A symbol's row is published exactly when at most five factors were omitted and one that
  carries a direction (forecast, trend, alignment) was not; publishing appends that one row, and
  withholding leaves the store as it was and states why.\<close>

theorem signal_published_iff:
  assumes "generate_signal_for np lib z st db sy now = Inr (outc, db')"
  shows "(published outc \<longleftrightarrow> length (out_omitted outc) \<le> 5 \<and>
      \<not> {''forecast_vs_cost'', ''trend_sma'', ''ma_alignment''} \<subseteq> set (map fst (out_omitted outc))) \<and>
    (out_withheld outc = None \<longleftrightarrow> published outc) \<and>
    db' = db\<lparr>db_signals := db_signals db @ (case out_payload outc of None \<Rightarrow> [] | Some row \<Rightarrow> [row])\<rparr>"
  using assms
proof (cases rule: generate_cases)
  case (1 inp scored bars)
  note count = scored_count [OF 1(1)] and compl = scored_complement [OF 1(1), unfolded all_keys]
  have "withholding_reason scored = None \<longleftrightarrow> 3 \<le> length scored \<and>
      (\<exists>k \<in> {''forecast_vs_cost'', ''trend_sma'', ''ma_alignment''}. k \<in> set scored)"
    by (auto simp: withholding_reason_def MIN_SCOREABLE_FACTORS_def)
  also have "\<dots> \<longleftrightarrow> length (omitted_factors inp) \<le> 5 \<and>
      (\<exists>k \<in> {''forecast_vs_cost'', ''trend_sma'', ''ma_alignment''}. k \<notin> set (map fst (omitted_factors inp)))"
    using count compl [of "''forecast_vs_cost''"] compl [of "''trend_sma''"] compl [of "''ma_alignment''"]
    by (simp del: set_map) linarith
  finally have iff: "withholding_reason scored = None \<longleftrightarrow> length (omitted_factors inp) \<le> 5 \<and>
      (\<exists>k \<in> {''forecast_vs_cost'', ''trend_sma'', ''ma_alignment''}. k \<notin> set (map fst (omitted_factors inp)))" .
  have "published outc \<longleftrightarrow> withholding_reason scored = None" unfolding published_def by (rule 1(5))
  then show ?thesis unfolding 1(2,4) iff by (intro conjI 1(6)) blast+
qed

theorem signal_published_iff_witness:
  "\<exists>outc. generate_signal_for reference_numpy reference_series tehran_zone reference_settings one_price_db ''USD_IRT'' 1 =
     Inr (outc, one_price_db) \<and> \<not> published outc"
proof -
  obtain inp bars where run: "assemble_inputs reference_series tehran_zone reference_settings one_price_db ''USD_IRT'' 1 =
      Inr (inp, [''rsi14'', ''volatility_regime''], bars)"
    using one_price_keys by (rule assembled_keysE)
  obtain outc db' where g: "generate_signal_for reference_numpy reference_series tehran_zone reference_settings
      one_price_db ''USD_IRT'' 1 = Inr (outc, db')"
    by (simp add: generate_signal_for_def run withholding_reason_def)
  have n: "out_withheld outc \<noteq> None" using g by (auto simp: generate_signal_for_def run withholding_reason_def)
  from signal_published_iff [OF g] n have p: "\<not> published outc" and
    "db' = one_price_db\<lparr>db_signals := db_signals one_price_db @ (case out_payload outc of None \<Rightarrow> [] | Some row \<Rightarrow> [row])\<rparr>"
    by blast+
  then have "db' = one_price_db" by (simp add: published_def)
  with g p show ?thesis by blast
qed

end
