(* ===== verification/Collect.thy ===== *)
theory Collect
  imports Tables Registry Validation Market_Hours
begin

text \<open>
  \<^verbatim>\<open>app/jobs/collect.py\<close>: one collection pass. For every requested job the providers are asked
  in priority order until the job's symbols are satisfied; every quote is classified against
  the stored series and stored, held as a suspect, promoted by a second quote or accepted
  because it outlasted the repetition thresholds; a second phase records the quotes the
  fallback skipped and summarises the disagreement.

  The state of a pass is a record: the four tables, the clock and the local variables of
  \<^verbatim>\<open>run_collect\<close>. A statement that can raise gives either the exception with the state it left
  behind or the next state (\<open>outcome\<close>). The network is a parameter: \<open>fetch\<close> takes the provider
  code and the clock and gives the quotes or an error text and the clock after the call.
  Hashing, ISO instants and the time zone are parameters too. The clock moves during
  network calls only. \<open>seen\<close> and \<open>fetches\<close> are not variables of the program: they record which
  quotes were judged and which providers were called, in order, for the statements below.
\<close>

section \<open>Configuration\<close>

definition JOB_SYMBOLS :: "(string \<times> string list) list" where
  "JOB_SYMBOLS =
     [(''iran_gold'', [''IR_GOLD_18K'', ''IR_COIN_EMAMI'']),
      (''fx'', [''USD_IRT'']),
      (''global'', [''XAUUSD'', ''XAGUSD'']),
      (''macro'', [''BRENT_OIL'', ''DXY'', ''US10Y'']),
      (''funds'', [''IR_GOLD_FUND_AYAR'', ''IR_GOLD_FUND_TALA'', ''IR_GOLD_FUND_FLOW''])]"

definition JOB_PROVIDER_CATEGORIES :: "(string \<times> string list) list" where
  "JOB_PROVIDER_CATEGORIES =
     [(''iran_gold'', [''iran_gold'']),
      (''fx'', [''fx'', ''iran_gold'']),
      (''global'', [''global_gold'', ''iran_gold'']),
      (''macro'', [''global_gold'', ''macro'']),
      (''funds'', [''iran_fund''])]"

definition RECENT_WINDOW :: nat where "RECENT_WINDOW = 30"
definition SUSPECT_HISTORY_LIMIT :: nat where "SUSPECT_HISTORY_LIMIT = 40"
definition FREEZE_ALERT_KEY :: string where "FREEZE_ALERT_KEY = ''suspect_freeze_alerts''"
definition FREEZE_ALERT_COOLDOWN_MINUTES :: pyfloat where "FREEZE_ALERT_COOLDOWN_MINUTES = lit 180"
definition PEER_DISPERSION_KEY :: string where "PEER_DISPERSION_KEY = ''peer_dispersion''"
definition FUNDS_JOB :: string where "FUNDS_JOB = ''funds''"
definition FUNDS_ATTEMPT_KEY :: string where "FUNDS_ATTEMPT_KEY = ''tse_funds_last_attempt''"

record collect_settings =
  market :: settings
  provider_keys :: provider_settings
  tsetmc_fetch_times :: string

text \<open>A quote: \<^verbatim>\<open>providers.base.Observation\<close>. Its instant is aware UTC.\<close>

record observation =
  provider_code :: string
  obs_symbol :: string
  raw_value :: pyfloat
  raw_unit :: string
  raw_currency :: string
  obs_value :: pyfloat
  obs_currency :: string
  obs_unit :: string
  observed_at :: int
  raw_payload :: json

record world =
  sha256 :: "string \<Rightarrow> string"
  isoformat :: "int \<Rightarrow> string"
  fromisoformat :: "string \<Rightarrow> pydatetime option"
  format10g :: "pyfloat \<Rightarrow> string"
  collate :: "string \<Rightarrow> string"
  zone :: tz
  fetch :: "string \<Rightarrow> int \<Rightarrow> (string + observation list) \<times> int"

section \<open>State and outcomes\<close>

datatype message =
    FetchFailed string string
  | Rejected string string "reason option"
  | HeldSuspect string string "reason option"
  | OnlyStale string string
  | NoGoodValue string string
  | PeerDispersion py_error

datatype notice =
    Frozen string string pyfloat streak "reason option"
  | NewLevel string pyfloat string streak "reason option"

record pass =
  raw_rows :: "raw_row list"
  price_rows :: "price_row list"
  provider_rows :: "provider_row list"
  app_settings :: settings_table
  clock :: int
  collected :: "(string \<times> int) list"
  errors :: "message list"
  fetch_cache :: "(string \<times> observation list) list"
  failed_providers :: "string list"
  attempted_symbols :: "string list"
  handled :: "(string \<times> string) list"
  cycle_values :: "(string \<times> (string \<times> pyfloat) list) list"
  winners :: "(string \<times> observation) list"
  symbols_needed :: "string list"
  stale_only :: "string list"
  suspects :: "(string \<times> observation list) list"
  notices :: "notice list"
  seen :: "observation list"
  fetches :: "string list"

type_synonym outcome = "(py_error \<times> pass) + pass"

definition andthen :: "outcome \<Rightarrow> (pass \<Rightarrow> outcome) \<Rightarrow> outcome" where
  "andthen m f = (case m of Inl es \<Rightarrow> Inl es | Inr s \<Rightarrow> f s)"

text \<open>Evaluate an expression that may raise, without effects of its own.\<close>

definition attempt :: "pass \<Rightarrow> 'a res \<Rightarrow> ('a \<Rightarrow> outcome) \<Rightarrow> outcome" where
  "attempt s r f = (case r of Inl e \<Rightarrow> Inl (e, s) | Inr x \<Rightarrow> f x)"

fun each :: "('a \<Rightarrow> pass \<Rightarrow> outcome) \<Rightarrow> 'a list \<Rightarrow> pass \<Rightarrow> outcome" where
  "each f [] s = Inr s"
| "each f (x # xs) s = andthen (f x s) (each f xs)"

definition add_error :: "message \<Rightarrow> pass \<Rightarrow> pass" where
  "add_error m s = s\<lparr>errors := errors s @ [m]\<rparr>"

definition notify :: "notice \<Rightarrow> pass \<Rightarrow> pass" where
  "notify n s = s\<lparr>notices := notices s @ [n]\<rparr>"

text \<open>\<^verbatim>\<open>setdefault(symbol, {})[c] = value\<close> on the cycle's values, \<^verbatim>\<open>winners.setdefault\<close>, and the
  counter.\<close>

definition record_value :: "string \<Rightarrow> string \<Rightarrow> pyfloat \<Rightarrow> pass \<Rightarrow> pass" where
  "record_value symbol c v s =
     s\<lparr>cycle_values := dict_set symbol (dict_set c v (dict_get [] (cycle_values s) symbol)) (cycle_values s)\<rparr>"

definition count_price :: "string \<Rightarrow> observation \<Rightarrow> pass \<Rightarrow> pass" where
  "count_price symbol obs s =
     s\<lparr>collected := dict_set symbol (dict_get 0 (collected s) symbol + 1) (collected s),
       winners := (if symbol \<in> set (map fst (winners s)) then winners s else dict_set symbol obs (winners s))\<rparr>"

section \<open>When the funds job is due\<close>

definition parse_fetch_time :: "string \<Rightarrow> int option" where
  "parse_fetch_time part =
     (case py_split CHR '':'' part of
        [hh, mm] \<Rightarrow> (case bind_res (py_int hh) (\<lambda>h. bind_res (py_int mm) (\<lambda>m. mk_time h m)) of
            Inr t \<Rightarrow> Some t | Inl _ \<Rightarrow> None)
      | _ \<Rightarrow> None)"

definition parse_fetch_times :: "string \<Rightarrow> int list" where
  "parse_fetch_times raw =
     (let parts = filter (\<lambda>p. p \<noteq> []) (map py_strip (py_split CHR '','' raw));
          out = sort (List.map_filter parse_fetch_time parts)
      in if out = [] then [12 * hour_us, 15 * hour_us, 18 * hour_us] else out)"

text \<open>The newest slot of the local day that has passed, as an instant.\<close>

definition passed_slot :: "tz \<Rightarrow> string \<Rightarrow> int \<Rightarrow> int option" where
  "passed_slot z slots at_utc =
     (let local = local_wall z at_utc in
      if wall_weekday local = 3 \<or> wall_weekday local = 4 then None
      else let passed = filter (\<lambda>t. t \<le> wall_time local) (parse_fetch_times slots) in
        if passed = [] then None
        else let w = combine (wall_ordinal local) (Max (set passed)) in Some (w - wall_offset z w))"

text \<open>What is known of the last round: the newest \<^verbatim>\<open>tse_funds\<close> row and the attempt marker.\<close>

definition funds_marks :: "world \<Rightarrow> raw_row list \<Rightarrow> settings_table \<Rightarrow> int list" where
  "funds_marks w rows sets =
     (let fetched = map r_collected_at (filter (\<lambda>r. r_provider r = ''tse_funds'') rows);
          stored = (case map_of sets FUNDS_ATTEMPT_KEY of
              Some (JObj items) \<Rightarrow> (case json_get items ''at'' of
                  JStr s \<Rightarrow> (if s = [] then [] else
                     case fromisoformat w s of None \<Rightarrow> [] | Some d \<Rightarrow> [ensure_utc d])
                | _ \<Rightarrow> [])
            | _ \<Rightarrow> [])
      in (if fetched = [] then [] else [Max (set fetched)]) @ stored)"

definition funds_job_due :: "world \<Rightarrow> string \<Rightarrow> raw_row list \<Rightarrow> settings_table \<Rightarrow> int \<Rightarrow> bool" where
  "funds_job_due w slots rows sets at_utc =
     (case passed_slot (zone w) slots at_utc of
        None \<Rightarrow> False
      | Some slot \<Rightarrow> let marks = funds_marks w rows sets in marks = [] \<or> Max (set marks) < slot)"

definition mark_funds_attempt :: "world \<Rightarrow> int \<Rightarrow> settings_table \<Rightarrow> settings_table" where
  "mark_funds_attempt w at_utc sets =
     upsert_setting FUNDS_ATTEMPT_KEY (JObj [(''at'', JStr (isoformat w at_utc))]) sets"

section \<open>Reading the series\<close>

text \<open>The newest-first window up to the most recent accepted level shift.\<close>

fun since_last_level_reset :: "pyfloat list \<Rightarrow> pyfloat list res" where
  "since_last_level_reset [] = Inr []"
| "since_last_level_reset [v] = Inr [v]"
| "since_last_level_reset (v # u # vs) =
     bind_res (jump_pct v u) (\<lambda>j. if flt MAX_JUMP_PCT j then Inr [v]
       else map_res (\<lambda>rest. v # rest) (since_last_level_reset (u # vs)))"

definition ok_prices :: "string \<Rightarrow> price_row list \<Rightarrow> price_row list" where
  "ok_prices symbol rows = filter (\<lambda>r. p_symbol r = symbol \<and> p_quality r = ''ok'') rows"

definition recent_values :: "price_row list \<Rightarrow> string \<Rightarrow> pyfloat list res" where
  "recent_values rows symbol =
     since_last_level_reset (map p_value
       (take RECENT_WINDOW (sort_key (\<lambda>r. - p_observed_at r) (ok_prices symbol rows))))"

definition last_price_at :: "price_row list \<Rightarrow> string \<Rightarrow> int option" where
  "last_price_at rows symbol =
     (let ats = map p_observed_at (ok_prices symbol rows) in if ats = [] then None else Some (Max (set ats)))"

definition provider_history :: "raw_row list \<Rightarrow> string \<Rightarrow> string \<Rightarrow> history_row list" where
  "provider_history rows symbol c =
     map (\<lambda>r. (Naive (r_observed_at r), r_value r, r_quality r))
       (take SUSPECT_HISTORY_LIMIT (sort_key (\<lambda>r. - r_observed_at r)
         (filter (\<lambda>r. r_symbol r = symbol \<and> r_provider r = c) rows)))"

definition suspect_state :: "raw_row list \<Rightarrow> price_row list \<Rightarrow> observation \<Rightarrow> (streak \<times> bool) res" where
  "suspect_state raws prices obs =
     map_res (\<lambda>stk. (stk, case last_price_at prices (obs_symbol obs) of
                         None \<Rightarrow> True | Some t \<Rightarrow> t < streak_since stk))
       (suspect_streak (raw_value obs) (Naive (observed_at obs))
         (provider_history raws (obs_symbol obs) (provider_code obs)) CONFIRM_TOLERANCE_PCT)"

definition warn_series_frozen ::
  "world \<Rightarrow> collect_settings \<Rightarrow> observation \<Rightarrow> streak \<Rightarrow> reason option \<Rightarrow> pass \<Rightarrow> pass" where
  "warn_series_frozen w cfg obs stk why s =
     (if \<not> is_market_open (zone w) (obs_symbol obs) (Naive (clock s)) (market cfg) then s
      else let state = (case map_of (app_settings s) FREEZE_ALERT_KEY of Some (JObj items) \<Rightarrow> items | _ \<Rightarrow> []);
               recent = (case json_get state (obs_symbol obs) of
                   JStr p \<Rightarrow> (p \<noteq> [] \<and> (case fromisoformat w p of None \<Rightarrow> False
                      | Some d \<Rightarrow> flt (rnd (of_int (clock s - ensure_utc d) / 10 ^ 6))
                                     (fmul FREEZE_ALERT_COOLDOWN_MINUTES (lit 60))))
                 | _ \<Rightarrow> False)
      in if recent then s
         else (notify (Frozen (obs_symbol obs) (provider_code obs) (obs_value obs) stk why) s)
           \<lparr>app_settings := upsert_setting FREEZE_ALERT_KEY
              (JObj (dict_set (obs_symbol obs) (JStr (isoformat w (clock s))) state)) (app_settings s)\<rparr>)"

section \<open>Writing\<close>

definition raw_row_of :: "world \<Rightarrow> observation \<Rightarrow> string \<Rightarrow> int \<Rightarrow> raw_row" where
  "raw_row_of w obs qual now = \<lparr>r_provider = provider_code obs, r_symbol = obs_symbol obs,
     r_value = raw_value obs, r_unit = raw_unit obs, r_currency = raw_currency obs,
     r_payload = raw_payload obs, r_observed_at = observed_at obs, r_collected_at = now,
     r_quality = qual,
     r_dedupe = build_dedupe_key (sha256 w) (isoformat w) (format10g w)
       (provider_code obs) (obs_symbol obs) (Naive (observed_at obs)) (raw_value obs)\<rparr>"

definition price_row_of :: "observation \<Rightarrow> int \<Rightarrow> price_row" where
  "price_row_of obs now = \<lparr>p_symbol = obs_symbol obs, p_value = obs_value obs,
     p_currency = obs_currency obs, p_unit = obs_unit obs, p_source = provider_code obs,
     p_observed_at = observed_at obs, p_collected_at = now, p_quality = ''ok''\<rparr>"

text \<open>One transaction: when the price violates the check, the raw row is rolled back with it.
  The continuation learns whether a price was inserted.\<close>

definition store :: "world \<Rightarrow> observation \<Rightarrow> string \<Rightarrow> bool \<Rightarrow> pass \<Rightarrow> (bool \<Rightarrow> pass \<Rightarrow> outcome) \<Rightarrow> outcome" where
  "store w obs qual canonical s k =
     (let raws = fst (insert_raw (raw_row_of w obs qual (clock s)) (raw_rows s)) in
      if qual = ''ok'' \<and> canonical then
        attempt s (insert_price (price_row_of obs (clock s)) (price_rows s)) (\<lambda>(prices, inserted).
          k inserted (s\<lparr>raw_rows := raws, price_rows := prices\<rparr>))
      else k False (s\<lparr>raw_rows := raws\<rparr>))"

section \<open>One quote\<close>

text \<open>\<^verbatim>\<open>any(values_agree(obs.value, other.value) for other in ...)\<close> stops at the first agreement.\<close>

fun any_agree :: "pyfloat \<Rightarrow> observation list \<Rightarrow> bool res" where
  "any_agree v [] = Inr False"
| "any_agree v (o' # os) = bind_res (values_agree v (obs_value o') CONFIRM_TOLERANCE_PCT)
     (\<lambda>b. if b then Inr True else any_agree v os)"

text \<open>Promote an earlier suspect that agrees with the quote.\<close>

definition promote :: "world \<Rightarrow> observation \<Rightarrow> observation \<Rightarrow> pass \<Rightarrow> outcome" where
  "promote w obs prior s =
     attempt s (values_agree (obs_value obs) (obs_value prior) CONFIRM_TOLERANCE_PCT) (\<lambda>agree.
       if agree then store w prior ''ok'' True s (\<lambda>promoted s.
         let s = record_value (obs_symbol obs) (provider_code prior) (obs_value prior) s
         in Inr (if promoted then count_price (obs_symbol obs) prior s else s))
       else Inr s)"

text \<open>The last statements of the loop body: the quote is good.\<close>

definition accept :: "world \<Rightarrow> collect_settings \<Rightarrow> string \<Rightarrow> observation \<Rightarrow> pass \<Rightarrow> outcome" where
  "accept w cfg code' obs s =
     store w obs ''ok'' True s (\<lambda>inserted s.
       let s = record_value (obs_symbol obs) code' (obs_value obs) s;
           s = (if inserted then count_price (obs_symbol obs) obs s else s)
       in Inr (if is_acceptably_fresh (zone w) (obs_symbol obs) (Some (Naive (observed_at obs)))
                    (Naive (clock s)) (market cfg) (Some (provider_code obs))
               then s\<lparr>symbols_needed := removeAll (obs_symbol obs) (symbols_needed s)\<rparr>
               else s\<lparr>stale_only := List.insert (obs_symbol obs) (stale_only s)\<rparr>))"

definition hold_suspect ::
  "world \<Rightarrow> collect_settings \<Rightarrow> string \<Rightarrow> observation \<Rightarrow> streak \<Rightarrow> bool \<Rightarrow> reason option \<Rightarrow> pass \<Rightarrow> outcome" where
  "hold_suspect w cfg code' obs stk frozen why s =
     (let s = s\<lparr>suspects := dict_set (obs_symbol obs) (dict_get [] (suspects s) (obs_symbol obs) @ [obs]) (suspects s)\<rparr>
      in store w obs ''suspect'' True s (\<lambda>_ s.
        let s = (if frozen \<and> SUSPECT_ALERT_AFTER \<le> streak_length stk
                 then warn_series_frozen w cfg obs stk why s else s)
        in Inr (add_error (HeldSuspect code' (obs_symbol obs) why) s)))"

definition judge_suspect ::
  "world \<Rightarrow> collect_settings \<Rightarrow> string \<Rightarrow> observation \<Rightarrow> reason option \<Rightarrow> pass \<Rightarrow> outcome" where
  "judge_suspect w cfg code' obs why s =
     attempt s (any_agree (obs_value obs) (dict_get [] (suspects s) (obs_symbol obs))) (\<lambda>confirmed.
       if confirmed then
         let priors = dict_get [] (suspects s) (obs_symbol obs);
             s = s\<lparr>suspects := filter (\<lambda>x. fst x \<noteq> obs_symbol obs) (suspects s)\<rparr>
         in andthen (each (promote w obs) priors s) (accept w cfg code' obs)
       else attempt s (suspect_state (raw_rows s) (price_rows s) obs) (\<lambda>(stk, frozen).
         if \<not> (frozen \<and> sustained_by_repetition stk SUSTAIN_MIN_OBSERVATIONS SUSTAIN_MIN_SPAN_MINUTES)
         then hold_suspect w cfg code' obs stk frozen why s
         else accept w cfg code' obs (notify (NewLevel (obs_symbol obs) (obs_value obs) code' stk why) s)))"

text \<open>The branches on the verdict, and the loop body. \<close>

definition settle ::
  "world \<Rightarrow> collect_settings \<Rightarrow> string \<Rightarrow> observation \<Rightarrow> quality \<times> reason option \<Rightarrow> pass \<Rightarrow> outcome" where
  "settle w cfg code' obs verdict s =
     (let (qual, why) = verdict in
      if qual = ''outlier'' then
        store w obs ''outlier'' True s (\<lambda>_ s. Inr (add_error (Rejected code' (obs_symbol obs) why) s))
      else if qual = ''suspect'' then judge_suspect w cfg code' obs why s
      else accept w cfg code' obs s)"

definition mark_handled :: "string \<Rightarrow> observation \<Rightarrow> pass \<Rightarrow> pass" where
  "mark_handled code' obs s =
     s\<lparr>handled := List.insert (code', obs_symbol obs) (handled s), seen := seen s @ [obs]\<rparr>"

definition process_quote :: "world \<Rightarrow> collect_settings \<Rightarrow> string \<Rightarrow> observation \<Rightarrow> pass \<Rightarrow> outcome" where
  "process_quote w cfg code' obs s =
     (if obs_symbol obs \<notin> set (symbols_needed s) then Inr s
      else attempt s (recent_values (price_rows s) (obs_symbol obs)) (\<lambda>recent.
        let last_good = (case recent of [] \<Rightarrow> None | v # _ \<Rightarrow> Some v) in
        attempt s (classify_observation (obs_symbol obs) (obs_value obs) recent last_good) (\<lambda>verdict.
          settle w cfg code' obs verdict (mark_handled code' obs s))))"

section \<open>One provider, one job\<close>

definition process_provider :: "world \<Rightarrow> collect_settings \<Rightarrow> provider_row \<Rightarrow> pass \<Rightarrow> outcome" where
  "process_provider w cfg row s =
     (let c = code row in
      if symbols_needed s = [] then Inr s
      else if c \<in> set (failed_providers s) then Inr s
      else case map_of (fetch_cache s) c of
        Some quotes \<Rightarrow> each (process_quote w cfg c) quotes s
      | None \<Rightarrow> (case build_provider c (provider_keys cfg) of
          None \<Rightarrow> Inr s
        | Some _ \<Rightarrow>
            let (got, t) = fetch w c (clock s);
                s = s\<lparr>clock := t, fetches := fetches s @ [c]\<rparr>
            in case got of
                Inl exc \<Rightarrow> Inr (add_error (FetchFailed c exc)
                    (s\<lparr>failed_providers := List.insert c (failed_providers s),
                       provider_rows := record_failure t c exc (provider_rows s)\<rparr>))
              | Inr quotes \<Rightarrow> each (process_quote w cfg c) quotes
                    (s\<lparr>fetch_cache := dict_set c quotes (fetch_cache s),
                       provider_rows := record_success t c (provider_rows s)\<rparr>)))"

definition report_missing :: "string \<Rightarrow> pass \<Rightarrow> pass" where
  "report_missing job s =
     s\<lparr>errors := errors s @ map (\<lambda>sy. if sy \<in> set (stale_only s) then OnlyStale job sy else NoGoodValue job sy)
         (sort (symbols_needed s))\<rparr>"

text \<open>The funds job spends its slot first; then the job's locals are set.\<close>

definition job_begin :: "world \<Rightarrow> string \<Rightarrow> pass \<Rightarrow> pass" where
  "job_begin w job s =
     (let s = (if job = FUNDS_JOB then s\<lparr>app_settings := mark_funds_attempt w (clock s) (app_settings s)\<rparr> else s)
      in s\<lparr>symbols_needed := dict_get [] JOB_SYMBOLS job, stale_only := [], suspects := []\<rparr>)"

definition job_rows :: "world \<Rightarrow> string \<Rightarrow> pass \<Rightarrow> provider_row list" where
  "job_rows w job s =
     load_provider_rows (collate w) (clock s) (Some (dict_get [] JOB_PROVIDER_CATEGORIES job)) (provider_rows s)"

definition run_job :: "world \<Rightarrow> collect_settings \<Rightarrow> string \<Rightarrow> pass \<Rightarrow> outcome" where
  "run_job w cfg job s =
     (if job = FUNDS_JOB \<and>
         \<not> funds_job_due w (tsetmc_fetch_times cfg) (raw_rows s) (app_settings s) (clock s) then Inr s
      else
        let s = job_begin w job s;
            rows = job_rows w job s;
            buildable = filter (\<lambda>row. build_provider (code row) (provider_keys cfg) \<noteq> None) rows
        in if rows \<noteq> [] \<and> buildable = [] then Inr s
           else let s = s\<lparr>attempted_symbols := List.union (symbols_needed s) (attempted_symbols s)\<rparr>
                in andthen (each (process_provider w cfg) rows s) (\<lambda>s. Inr (report_missing job s)))"

section \<open>Dispersion\<close>

definition float_or_none :: "pyfloat option \<Rightarrow> json" where
  "float_or_none x = (case x of None \<Rightarrow> JNull | Some v \<Rightarrow> JFloat v)"

definition dispersion_json :: "dispersion \<Rightarrow> json" where
  "dispersion_json d = JObj [(''n_sources'', JInt (n_sources d)), (''n_agreeing'', JInt (n_agreeing d)),
     (''values'', JObj (map (\<lambda>(src, v). (src, JFloat v)) (disp_values d))),
     (''median'', JFloat (disp_median d)), (''spread_abs'', JFloat (spread_abs d)),
     (''spread_pct'', float_or_none (spread_pct d)), (''pct'', float_or_none (pct d)),
     (''mad'', JFloat (disp_mad d)), (''mad_pct'', float_or_none (mad_pct d)),
     (''tolerance_pct'', JFloat (tolerance d))]"

definition annotate_dispersion :: "world \<Rightarrow> observation \<Rightarrow> dispersion \<Rightarrow> pass \<Rightarrow> pass" where
  "annotate_dispersion w winner summary s =
     (let items = (case raw_payload winner of JObj items \<Rightarrow> items | _ \<Rightarrow> []);
          payload = JObj (dict_set PEER_DISPERSION_KEY (dispersion_json summary) items);
          dedupe = r_dedupe (raw_row_of w winner ''ok'' (clock s))
      in s\<lparr>raw_rows := map (\<lambda>r. if r_dedupe r = dedupe then r\<lparr>r_payload := payload\<rparr> else r) (raw_rows s)\<rparr>)"

definition peer_quote :: "world \<Rightarrow> string \<Rightarrow> string \<Rightarrow> observation \<Rightarrow> pass \<Rightarrow> outcome" where
  "peer_quote w symbol code' obs s =
     (if obs_symbol obs \<noteq> symbol then Inr s
      else let sane = sanity_ok symbol (obs_value obs) in
        store w obs (if sane then ''ok'' else ''outlier'') False s (\<lambda>_ s.
          let s = s\<lparr>handled := List.insert (code', symbol) (handled s)\<rparr>
          in Inr (if sane then record_value symbol code' (obs_value obs) s else s)))"

definition measure_symbol :: "world \<Rightarrow> string \<Rightarrow> pass \<Rightarrow> outcome" where
  "measure_symbol w symbol s =
     andthen (each (\<lambda>c s. if (c, symbol) \<in> set (handled s) then Inr s
                         else each (peer_quote w symbol c) (dict_get [] (fetch_cache s) c) s)
                (sort (map fst (fetch_cache s))) s) (\<lambda>s.
       attempt s (dispersion_summary (dict_get [] (cycle_values s) symbol) CONFIRM_TOLERANCE_PCT) (\<lambda>summary.
         Inr (case (summary, map_of (winners s) symbol) of
                (Some d, Some winner) \<Rightarrow> annotate_dispersion w winner d s | _ \<Rightarrow> s)))"

definition measure_dispersion :: "world \<Rightarrow> pass \<Rightarrow> outcome" where
  "measure_dispersion w s = each (measure_symbol w) (sort (attempted_symbols s)) s"

section \<open>The pass\<close>

definition requested_jobs :: "string list option \<Rightarrow> string list" where
  "requested_jobs jobs =
     filter (\<lambda>j. j \<in> set (map fst JOB_SYMBOLS))
       (case jobs of None \<Rightarrow> map fst JOB_SYMBOLS | Some js \<Rightarrow> if js = [] then map fst JOB_SYMBOLS else js)"

definition run_collect :: "world \<Rightarrow> collect_settings \<Rightarrow> string list option \<Rightarrow> pass \<Rightarrow> outcome" where
  "run_collect w cfg jobs s =
     andthen (each (run_job w cfg) (requested_jobs jobs) s) (\<lambda>s.
       Inr (case measure_dispersion w s of
              Inl (e, s) \<Rightarrow> add_error (PeerDispersion e) s
            | Inr s \<Rightarrow> s))"

text \<open>The locals at the start of a pass over given tables.\<close>

definition start_pass ::
  "raw_row list \<Rightarrow> price_row list \<Rightarrow> provider_row list \<Rightarrow> settings_table \<Rightarrow> int \<Rightarrow> pass" where
  "start_pass raws prices provs sets t = \<lparr>raw_rows = raws, price_rows = prices, provider_rows = provs,
     app_settings = sets, clock = t, collected = [], errors = [], fetch_cache = [],
     failed_providers = [], attempted_symbols = [], handled = [], cycle_values = [], winners = [],
     symbols_needed = [], stale_only = [], suspects = [], notices = [], seen = [], fetches = []\<rparr>"

end
