(* ===== verification/Collect_Props.thy ===== *)
theory Collect_Props
  imports Collect "HOL-Library.Sublist"
begin

text \<open>
  What a collection pass guarantees, also when it raises half way. The locale
  \<open>pass_preorder\<close> lifts a reflexive and transitive relation between states through sequencing,
  fallible expressions and loops; every guarantee below is an interpretation of it.
\<close>

section \<open>Lifting a relation through a pass\<close>

definition state_of :: "outcome \<Rightarrow> pass" where
  "state_of m = (case m of Inl (e, s) \<Rightarrow> s | Inr s \<Rightarrow> s)"

lemma state_of_simps [simp]: "state_of (Inl (e, s)) = s" "state_of (Inr s) = s"
  by (simp_all add: state_of_def)

locale pass_preorder =
  fixes R :: "pass \<Rightarrow> pass \<Rightarrow> bool"
  assumes refl: "R s s"
    and trans: "R s t \<Longrightarrow> R t u \<Longrightarrow> R s u"
begin

lemma andthen:
  assumes "R s (state_of m)" "\<And>t. m = Inr t \<Longrightarrow> R t (state_of (f t))"
  shows "R s (state_of (andthen m f))"
proof (cases m)
  case (Inl es)
  then show ?thesis using assms(1) by (simp add: andthen_def)
next
  case (Inr t)
  then show ?thesis using assms(1) assms(2) [OF Inr] trans by (auto simp: andthen_def)
qed

lemma attempt:
  assumes "\<And>x. r = Inr x \<Longrightarrow> R s (state_of (f x))"
  shows "R s (state_of (attempt s r f))"
  using assms refl by (cases r) (auto simp: attempt_def)

lemma each:
  assumes "\<And>x s. x \<in> set xs \<Longrightarrow> R s (state_of (f x s))"
  shows "R s (state_of (each f xs s))"
  using assms
proof (induction xs arbitrary: s)
  case Nil
  then show ?case by (simp add: refl)
next
  case (Cons x xs)
  show ?case unfolding each.simps
    by (rule andthen) (use Cons in auto)
qed

end

text \<open>The two ways a write can go.\<close>

lemma store_cases:
  obtains (raised) "store w obs q c s k = Inl (IntegrityError, s)" "q = ''ok''" "c"
      "\<not> prices_positive (price_row_of obs (clock s))"
  | (stored) raws prices b where
      "store w obs q c s k = k b (s\<lparr>raw_rows := raws, price_rows := prices\<rparr>)"
      "raws = raw_rows s \<or> raws = raw_rows s @ [raw_row_of w obs q (clock s)]"
      "raws = fst (insert_raw (raw_row_of w obs q (clock s)) (raw_rows s))"
      "(b, prices) = (False, price_rows s) \<or> q = ''ok'' \<and> c \<and> prices_positive (price_row_of obs (clock s)) \<and>
         price_key (price_row_of obs (clock s)) \<notin> price_key ` set (price_rows s) \<and>
         (b, prices) = (True, price_rows s @ [price_row_of obs (clock s)])"
proof (cases "q = ''ok'' \<and> c")
  case True
  show ?thesis
  proof (cases "prices_positive (price_row_of obs (clock s))")
    case False
    then show ?thesis using True
      by (intro raised) (simp_all add: store_def attempt_def insert_price_def)
  next
    case pos: True
    show ?thesis
      by (rule stored [of "snd (insert_ignore price_key (price_row_of obs (clock s)) (price_rows s))"
            "fst (insert_ignore price_key (price_row_of obs (clock s)) (price_rows s))", OF _ _ HOL.refl])
        (use True pos in \<open>auto simp: store_def attempt_def insert_price_def insert_raw_def insert_ignore_def Let_def\<close>)
  qed
next
  case False
  show ?thesis
    by (rule stored [of False "price_rows s", OF _ _ HOL.refl])
      (use False in \<open>auto simp: store_def insert_raw_def insert_ignore_def Let_def\<close>)
qed

section \<open>Evidence for a price\<close>

text \<open>What the repetition test reads of the raw table does not include the payload.\<close>

definition bare :: "raw_row list \<Rightarrow> raw_row list" where
  "bare = map (\<lambda>r. r\<lparr>r_payload := JNull\<rparr>)"

lemma bare_append [simp]: "bare (xs @ ys) = bare xs @ bare ys"
  and bare_take: "bare (take n xs) = take n (bare xs)"
  by (simp_all add: bare_def take_map)

lemma sort_key_map: "sort_key f (map g xs) = map g (sort_key (f \<circ> g) xs)"
proof (induction xs)
  case (Cons x xs)
  have "insort_key f (g x) (map g ys) = map g (insort_key (f \<circ> g) x ys)" for ys
    by (induction ys) auto
  then show ?case using Cons by (simp add: sort_key_def comp_def)
qed simp

lemma provider_history_bare: "provider_history (bare rows) sy c = provider_history rows sy c"
  by (simp add: provider_history_def bare_def filter_map sort_key_map take_map comp_def)

lemma suspect_state_bare: "suspect_state (bare rows) prices obs = suspect_state rows prices obs"
  by (simp add: suspect_state_def provider_history_bare)

text \<open>Quote number \<open>k\<close> of the pass may become the price at index \<open>i\<close>: it is plausible, and it was
  classified good against exactly the prices stored before it, or another quote of the pass for the same
  symbol agrees with it, or its level outlasted the repetition thresholds while nothing had
  been accepted, judged by exactly the prices stored before it and a state of the raw table not older than its
  first \<open>m0\<close> rows.\<close>

definition classified_good :: "price_row list \<Rightarrow> observation \<Rightarrow> bool" where
  "classified_good prices o' \<longleftrightarrow> (\<exists>recent why. recent_values prices (obs_symbol o') = Inr recent \<and>
     classify_observation (obs_symbol o') (obs_value o') recent
       (case recent of [] \<Rightarrow> None | v # _ \<Rightarrow> Some v) = Inr (''ok'', why))"

definition agrees :: "observation \<Rightarrow> observation \<Rightarrow> bool" where
  "agrees a b \<longleftrightarrow> obs_symbol a = obs_symbol b \<and> values_agree (obs_value a) (obs_value b) CONFIRM_TOLERANCE_PCT = Inr True"

definition outlasted :: "raw_row list \<Rightarrow> price_row list \<Rightarrow> observation \<Rightarrow> bool" where
  "outlasted raws prices o' \<longleftrightarrow> (\<exists>stk. suspect_state raws prices o' = Inr (stk, True) \<and>
     sustained_by_repetition stk SUSTAIN_MIN_OBSERVATIONS SUSTAIN_MIN_SPAN_MINUTES)"

definition evidence :: "nat \<Rightarrow> price_row list \<Rightarrow> raw_row list \<Rightarrow> observation list \<Rightarrow> nat \<Rightarrow> nat \<Rightarrow> bool" where
  "evidence m0 prices raws os i k \<longleftrightarrow> k < length os \<and> sanity_ok (obs_symbol (os ! k)) (obs_value (os ! k)) \<and>
     (classified_good (take i prices) (os ! k) \<or>
      (\<exists>j < length os. j \<noteq> k \<and> (agrees (os ! j) (os ! k) \<or> agrees (os ! k) (os ! j))) \<or>
      (\<exists>m. m0 \<le> m \<and> m \<le> length raws \<and> outlasted (take m raws) (take i prices) (os ! k)))"

definition supported :: "nat \<Rightarrow> pass \<Rightarrow> nat \<Rightarrow> bool" where
  "supported m0 s i \<longleftrightarrow> (\<exists>k. evidence m0 (price_rows s) (raw_rows s) (seen s) i k \<and>
     price_rows s ! i = price_row_of (seen s ! k) (p_collected_at (price_rows s ! i)))"

definition extends :: "pass \<Rightarrow> pass \<Rightarrow> bool" where
  "extends s t \<longleftrightarrow> prefix (price_rows s) (price_rows t) \<and> prefix (bare (raw_rows s)) (bare (raw_rows t)) \<and>
     prefix (seen s) (seen t)"

lemma extends_refl [simp]: "extends s s"
  by (simp add: extends_def)

lemma extends_trans: "extends s t \<Longrightarrow> extends t u \<Longrightarrow> extends s u"
  by (auto simp: extends_def intro: prefix_order.trans)

lemma evidence_extends:
  assumes ev: "evidence m0 (price_rows s) (raw_rows s) (seen s) i k" and ex: "extends s t"
    and i: "i \<le> length (price_rows s)"
  shows "evidence m0 (price_rows t) (raw_rows t) (seen t) i k"
proof -
  obtain ps rs os where t: "price_rows t = price_rows s @ ps" "bare (raw_rows t) = bare (raw_rows s) @ rs"
    "seen t = seen s @ os" using ex by (auto simp: extends_def prefix_def)
  have k: "k < length (seen s)" using ev by (simp add: evidence_def)
  then have kt: "seen t ! k = seen s ! k" by (simp add: t nth_append)
  have tk: "take i (price_rows t) = take i (price_rows s)" using i by (simp add: t)
  have len: "length (raw_rows s) \<le> length (raw_rows t)"
    using arg_cong [OF t(2), of length] by (simp add: bare_def)
  have out: "outlasted (take m (raw_rows t)) p o' = outlasted (take m (raw_rows s)) p o'"
    if "m \<le> length (raw_rows s)" for m p o'
  proof -
    have "bare (take m (raw_rows t)) = bare (take m (raw_rows s))"
      using that by (simp add: bare_take t(2)) (simp add: bare_def)
    then show ?thesis unfolding outlasted_def by (metis suspect_state_bare)
  qed
  have j: "seen t ! j = seen s ! j" if "j < length (seen s)" for j using that by (simp add: t nth_append)
  have ks: "k < length (seen t)" "sanity_ok (obs_symbol (seen t ! k)) (obs_value (seen t ! k))"
    using ev kt t(3) by (auto simp: evidence_def)
  from ev consider
      (good) "classified_good (take i (price_rows s)) (seen s ! k)"
    | (peer) l where "l < length (seen s)" "l \<noteq> k" "agrees (seen s ! l) (seen s ! k) \<or> agrees (seen s ! k) (seen s ! l)"
    | (lasted) m where "m0 \<le> m" "m \<le> length (raw_rows s)" "outlasted (take m (raw_rows s)) (take i (price_rows s)) (seen s ! k)"
    by (auto simp: evidence_def)
  then show ?thesis
  proof cases
    case good
    then show ?thesis using ks tk kt unfolding evidence_def by metis
  next
    case peer
    then have "l < length (seen t)" using t(3) by simp
    then show ?thesis using ks peer j [of l] kt unfolding evidence_def by metis
  next
    case lasted
    then have "m \<le> length (raw_rows t)" using len by simp
    then show ?thesis using ks tk out [of m] lasted kt unfolding evidence_def by metis
  qed
qed

text \<open>The guarantee as a relation: the three records only grow, and every price added has
  evidence. It is reflexive and transitive.\<close>

definition grows :: "pass \<Rightarrow> pass \<Rightarrow> bool" where
  "grows s t \<longleftrightarrow> extends s t \<and> (\<forall>i. length (price_rows s) \<le> i \<and> i < length (price_rows t) \<longrightarrow> supported (length (raw_rows s)) t i)"

lemma supported_mono: "supported m s i \<Longrightarrow> m0 \<le> m \<Longrightarrow> supported m0 s i"
  unfolding supported_def evidence_def by (meson order_trans)

lemma extends_raws: "extends s t \<Longrightarrow> length (raw_rows s) \<le> length (raw_rows t)"
  unfolding extends_def using prefix_length_le [of "bare (raw_rows s)" "bare (raw_rows t)"] by (simp add: bare_def)

lemma supported_extends:
  assumes "supported m0 s i" "extends s t" "i < length (price_rows s)"
  shows "supported m0 t i"
proof -
  obtain k where k: "evidence m0 (price_rows s) (raw_rows s) (seen s) i k"
    "price_rows s ! i = price_row_of (seen s ! k) (p_collected_at (price_rows s ! i))"
    using assms(1) by (auto simp: supported_def)
  have "k < length (seen s)" using k(1) by (simp add: evidence_def)
  then have "seen t ! k = seen s ! k" "price_rows t ! i = price_rows s ! i"
    using assms(2,3) by (auto simp: extends_def prefix_def nth_append)
  then show ?thesis
    using k(2) evidence_extends [OF k(1) assms(2)] assms(3) by (auto simp: supported_def)
qed

interpretation grow: pass_preorder grows
proof unfold_locales
  show "grows s s" for s by (auto simp: grows_def)
  show "grows s u" if "grows s t" "grows t u" for s t u
    using that extends_trans supported_extends supported_mono extends_raws unfolding grows_def by (meson not_le)
qed

lemma grows_same:
  "price_rows t = price_rows s \<Longrightarrow> raw_rows t = raw_rows s \<Longrightarrow> prefix (seen s) (seen t) \<Longrightarrow> grows s t"
  by (auto simp: grows_def extends_def)

section \<open>Writes\<close>

text \<open>Relative to a fixed list of quotes: the pass grows with evidence and leaves the list and the
  suspects alone.\<close>

definition steady :: "observation list \<Rightarrow> pass \<Rightarrow> pass \<Rightarrow> bool" where
  "steady os s t \<longleftrightarrow> (seen s = os \<longrightarrow> grows s t \<and> seen t = os \<and> suspects t = suspects s)"

interpretation steady: pass_preorder "steady os"
  by unfold_locales (auto simp: steady_def intro: grow.refl grow.trans)

lemma steady_same:
  "price_rows t = price_rows s \<Longrightarrow> raw_rows t = raw_rows s \<Longrightarrow> seen t = seen s \<Longrightarrow> suspects t = suspects s
   \<Longrightarrow> steady os s t"
  by (auto simp: steady_def intro: grows_same)

lemmas local_updates = add_error_def notify_def record_value_def count_price_def Let_def

lemma store_steady:
  assumes ev: "q = ''ok'' \<Longrightarrow> c \<Longrightarrow> seen s = os \<Longrightarrow>
      \<exists>k. evidence (length (raw_rows s)) (price_rows s) (raw_rows s) os (length (price_rows s)) k \<and> os ! k = obs"
    and k: "\<And>b t. steady os t (state_of (k b t))"
  shows "steady os s (state_of (store w obs q c s k))"
proof (cases rule: store_cases [of w obs q c s k])
  case raised
  then show ?thesis by (simp add: steady.refl)
next
  case (stored raws prices b)
  let ?t = "s\<lparr>raw_rows := raws, price_rows := prices\<rparr>"
  have "steady os s ?t"
    unfolding steady_def
  proof
    assume os: "seen s = os"
    have ex: "extends s ?t" using stored(2,4) by (auto simp: extends_def)
    have "supported (length (raw_rows s)) ?t i" if i: "length (price_rows s) \<le> i" "i < length (price_rows ?t)" for i
    proof -
      from stored(4) i have new: "q = ''ok''" "c" "prices = price_rows s @ [price_row_of obs (clock s)]"
        "i = length (price_rows s)" by auto
      obtain k where k: "evidence (length (raw_rows s)) (price_rows s) (raw_rows s) os (length (price_rows s)) k" "os ! k = obs"
        using ev new(1,2) os by blast
      have "evidence (length (raw_rows s)) (price_rows ?t) (raw_rows ?t) (seen ?t) i k"
        using evidence_extends [of "length (raw_rows s)" s "length (price_rows s)" k ?t] k ex os new(4) by simp
      then show ?thesis using k(2) new os by (auto simp: supported_def price_row_of_def)
    qed
    then show "grows s ?t \<and> seen ?t = os \<and> suspects ?t = suspects s"
      using ex os by (simp add: grows_def)
  qed
  then show ?thesis using k [of ?t b] stored(1) steady.trans by metis
qed

lemma promote_steady:
  assumes "a < length os" "os ! a = obs" "b < length os" "os ! b = prior" "a \<noteq> b"
    "obs_symbol prior = obs_symbol obs" "sanity_ok (obs_symbol prior) (obs_value prior)"
  shows "steady os s (state_of (promote w obs prior s))"
  unfolding promote_def
proof (rule steady.attempt)
  fix agree assume v: "values_agree (obs_value obs) (obs_value prior) CONFIRM_TOLERANCE_PCT = Inr agree"
  show "steady os s (state_of (if agree then store w prior ''ok'' True s (\<lambda>promoted s.
         let s = record_value (obs_symbol obs) (provider_code prior) (obs_value prior) s
         in Inr (if promoted then count_price (obs_symbol obs) prior s else s)) else Inr s))"
  proof (cases agree)
    case True
    have "agrees obs prior" using v True assms(6) by (simp add: agrees_def)
    then have "evidence (length (raw_rows s)) (price_rows s) (raw_rows s) os (length (price_rows s)) b"
      using assms by (auto simp: evidence_def)
    then have "steady os s (state_of (store w prior ''ok'' True s (\<lambda>promoted s.
         let s = record_value (obs_symbol obs) (provider_code prior) (obs_value prior) s
         in Inr (if promoted then count_price (obs_symbol obs) prior s else s))))"
      by (intro store_steady) (use assms(4) in \<open>auto simp: local_updates intro!: steady_same\<close>)
    then show ?thesis using True by simp
  qed (simp add: steady.refl)
qed

lemma accept_steady:
  assumes "seen s = os \<Longrightarrow> \<exists>k. evidence (length (raw_rows s)) (price_rows s) (raw_rows s) os (length (price_rows s)) k \<and> os ! k = obs"
  shows "steady os s (state_of (accept w cfg c obs s))"
  unfolding accept_def
  by (intro store_steady) (use assms in \<open>auto simp: local_updates intro!: steady_same\<close>)

lemma warn_same: "price_rows (warn_series_frozen w cfg obs stk why s) = price_rows s"
  "raw_rows (warn_series_frozen w cfg obs stk why s) = raw_rows s"
  "seen (warn_series_frozen w cfg obs stk why s) = seen s"
  "suspects (warn_series_frozen w cfg obs stk why s) = suspects s"
  by (simp_all add: warn_series_frozen_def Let_def notify_def)

lemma any_agree_True:
  "any_agree v os = Inr True \<Longrightarrow> \<exists>x \<in> set os. values_agree v (obs_value x) CONFIRM_TOLERANCE_PCT = Inr True"
  by (induction os) (auto simp: bind_res_eq_Inr split: if_splits)

section \<open>The suspects of a job\<close>

text \<open>Every suspect awaiting confirmation is a plausible quote of its symbol among the first \<open>n\<close>.\<close>

definition pending :: "string \<Rightarrow> observation list \<Rightarrow> nat \<Rightarrow> observation \<Rightarrow> bool" where
  "pending sy os n p \<longleftrightarrow> obs_symbol p = sy \<and> sanity_ok sy (obs_value p) \<and> (\<exists>k < n. os ! k = p)"

definition suspects_ok :: "nat \<Rightarrow> pass \<Rightarrow> bool" where
  "suspects_ok n s \<longleftrightarrow> n \<le> length (seen s) \<and>
     (\<forall>x \<in> set (suspects s). \<forall>p \<in> set (snd x). pending (fst x) (seen s) n p)"

lemma pending_mono: "pending sy os n p \<Longrightarrow> prefix os os' \<Longrightarrow> n \<le> length os \<Longrightarrow> n \<le> m \<Longrightarrow> pending sy os' m p"
  unfolding pending_def prefix_def by (metis (no_types, lifting) nth_append order_less_le_trans)

lemma suspects_ok_get:
  assumes "suspects_ok n s" "p \<in> set (dict_get [] (suspects s) sy)"
  shows "pending sy (seen s) n p"
proof (cases "map_of (suspects s) sy")
  case None
  then show ?thesis using assms(2) by (simp add: dict_get_def)
next
  case (Some ps)
  then have "(sy, ps) \<in> set (suspects s)" "p \<in> set ps" using assms(2) by (auto simp: dict_get_def dest: map_of_SomeD)
  then show ?thesis using assms(1) by (fastforce simp: suspects_ok_def)
qed

lemma dict_set_mem: "x \<in> set (dict_set k v d) \<Longrightarrow> x \<in> set d \<or> x = (k, v)"
  by (auto simp: dict_set_def split: if_splits)

lemma suspects_ok_mono: "suspects_ok n s \<Longrightarrow> suspects t = suspects s \<Longrightarrow> prefix (seen s) (seen t) \<Longrightarrow>
    n \<le> m \<Longrightarrow> m \<le> length (seen t) \<Longrightarrow> suspects_ok m t"
  unfolding suspects_ok_def using pending_mono by metis

lemma hold_suspect_ok:
  assumes "suspects_ok (length (seen s)) s" "k < length (seen s)" "seen s ! k = obs"
    "sanity_ok (obs_symbol obs) (obs_value obs)"
  shows "grows s (state_of (hold_suspect w cfg c obs stk frozen why s)) \<and>
    suspects_ok (length (seen (state_of (hold_suspect w cfg c obs stk frozen why s))))
      (state_of (hold_suspect w cfg c obs stk frozen why s))"
proof -
  let ?s = "s\<lparr>suspects := dict_set (obs_symbol obs) (dict_get [] (suspects s) (obs_symbol obs) @ [obs]) (suspects s)\<rparr>"
  let ?t = "state_of (hold_suspect w cfg c obs stk frozen why s)"
  have "steady (seen s) ?s ?t"
    unfolding hold_suspect_def Let_def
    by (rule store_steady) (auto simp: add_error_def warn_same intro!: steady_same)
  then have t: "grows ?s ?t" "seen ?t = seen s" "suspects ?t = suspects ?s" by (simp_all add: steady_def)
  have "grows s ?s" by (rule grows_same) simp_all
  then have g: "grows s ?t" using t(1) grow.trans by blast
  have "suspects_ok (length (seen s)) ?s"
    unfolding suspects_ok_def
  proof (intro conjI ballI)
    have o': "pending (obs_symbol obs) (seen s) (length (seen s)) obs" using assms(2-4) by (auto simp: pending_def)
    fix x p assume x: "x \<in> set (suspects ?s)" "p \<in> set (snd x)"
    then consider "x \<in> set (suspects s)" | "x = (obs_symbol obs, dict_get [] (suspects s) (obs_symbol obs) @ [obs])"
      by (auto dest: dict_set_mem)
    then show "pending (fst x) (seen ?s) (length (seen s)) p"
    proof cases
      case 1
      then show ?thesis using x(2) assms(1) by (auto simp: suspects_ok_def)
    next
      case 2
      then show ?thesis using x(2) o' suspects_ok_get [OF assms(1)] by auto
    qed
  qed simp
  then have "suspects_ok (length (seen ?t)) ?t"
    using suspects_ok_mono [of "length (seen s)" ?s ?t "length (seen ?t)"] t(2,3) by simp
  with g show ?thesis by blast
qed

lemma judge_suspect_ok:
  assumes os: "seen s = os @ [obs]" and su: "suspects_ok (length os) s"
    and sane: "sanity_ok (obs_symbol obs) (obs_value obs)"
  shows "grows s (state_of (judge_suspect w cfg c obs why s)) \<and>
    suspects_ok (length (seen (state_of (judge_suspect w cfg c obs why s)))) (state_of (judge_suspect w cfg c obs why s))"
proof -
  let ?sy = "obs_symbol obs"
  let ?priors = "dict_get [] (suspects s) ?sy"
  have last: "length os < length (seen s)" "seen s ! length os = obs" using os by simp_all
  have all: "suspects_ok (length (seen s)) s" using su os by (auto intro: suspects_ok_mono)
  define Q where "Q t \<longleftrightarrow> grows s t \<and> suspects_ok (length (seen t)) t" for t
  have Q_same: "Q t" if "grows s t" "seen t = seen s" "set (suspects t) \<subseteq> set (suspects s)" for t
    using that all by (auto simp: Q_def suspects_ok_def)
  have Q_s: "Q s" using all by (simp add: Q_def grow.refl)
  consider (raised) e where "any_agree (obs_value obs) ?priors = Inl e"
    | (confirmed) "any_agree (obs_value obs) ?priors = Inr True"
    | (alone) "any_agree (obs_value obs) ?priors = Inr False"
    by (cases "any_agree (obs_value obs) ?priors") auto
  then have "Q (state_of (judge_suspect w cfg c obs why s))"
  proof cases
    case raised
    then show ?thesis using Q_s by (simp add: judge_suspect_def attempt_def)
  next
    case confirmed
    define s' where "s' = s\<lparr>suspects := filter (\<lambda>x. fst x \<noteq> ?sy) (suspects s)\<rparr>"
    have pr: "\<exists>b < length os. seen s ! b = p \<and> obs_symbol p = ?sy \<and> sanity_ok (obs_symbol p) (obs_value p)"
      if "p \<in> set ?priors" for p
      using suspects_ok_get [OF su that] by (auto simp: pending_def)
    obtain p where p: "p \<in> set ?priors" "values_agree (obs_value obs) (obs_value p) CONFIRM_TOLERANCE_PCT = Inr True"
      using any_agree_True [OF confirmed] by blast
    obtain b where b: "b < length os" "seen s ! b = p" "obs_symbol p = ?sy" using pr [OF p(1)] by blast
    have "agrees (seen s ! length os) (seen s ! b)" using p(2) b last by (simp add: agrees_def)
    then have ev: "evidence m0 prices raws (seen s) i (length os)" for m0 prices raws i
      using b last sane unfolding evidence_def by (metis less_trans less_irrefl)
    have "steady (seen s) s' (state_of (andthen (each (promote w obs) ?priors s') (accept w cfg c obs)))"
    proof (rule steady.andthen)
      show "steady (seen s) s' (state_of (each (promote w obs) ?priors s'))"
      proof (rule steady.each)
        fix q t assume "q \<in> set ?priors"
        then obtain d where "d < length os" "seen s ! d = q" "obs_symbol q = ?sy" "sanity_ok (obs_symbol q) (obs_value q)"
          using pr by blast
        then show "steady (seen s) t (state_of (promote w obs q t))"
          using last by (intro promote_steady [of "length os" _ _ d]) auto
      qed
      show "steady (seen s) t (state_of (accept w cfg c obs t))" for t
        by (rule accept_steady) (use ev last in blast)
    qed
    moreover have "seen s' = seen s" "grows s s'" by (auto simp: s'_def intro: grows_same)
    ultimately have "grows s (state_of (judge_suspect w cfg c obs why s))"
      "seen (state_of (judge_suspect w cfg c obs why s)) = seen s"
      "suspects (state_of (judge_suspect w cfg c obs why s)) = suspects s'"
      using confirmed grow.trans by (auto simp: judge_suspect_def attempt_def steady_def s'_def Let_def)
    then show ?thesis by (intro Q_same) (auto simp: s'_def)
  next
    case alone
    show ?thesis
    proof (cases "suspect_state (raw_rows s) (price_rows s) obs")
      case (Inl e)
      then show ?thesis using Q_s alone by (simp add: judge_suspect_def attempt_def)
    next
      case (Inr r)
      obtain stk frozen where r: "r = (stk, frozen)" by fastforce
      show ?thesis
      proof (cases "frozen \<and> sustained_by_repetition stk SUSTAIN_MIN_OBSERVATIONS SUSTAIN_MIN_SPAN_MINUTES")
        case False
        then show ?thesis
          using hold_suspect_ok [OF all last sane, of w cfg c stk frozen why] alone Inr r
          by (simp add: judge_suspect_def attempt_def Q_def)
      next
        case True
        define s' where "s' = notify (NewLevel ?sy (obs_value obs) c stk why) s"
        have same: "price_rows s' = price_rows s" "raw_rows s' = raw_rows s" "seen s' = seen s" "suspects s' = suspects s"
          by (simp_all add: s'_def notify_def)
        have "outlasted (take (length (raw_rows s)) (raw_rows s)) (take (length (price_rows s)) (price_rows s)) obs"
          using Inr r True by (auto simp: outlasted_def)
        then have "evidence (length (raw_rows s')) (price_rows s') (raw_rows s') (seen s) (length (price_rows s')) (length os)"
          using last sane same unfolding evidence_def by (metis order_refl)
        then have "steady (seen s) s' (state_of (accept w cfg c obs s'))"
          using last(2) by (intro accept_steady) (auto simp: same)
        then have "grows s' (state_of (accept w cfg c obs s'))" "seen (state_of (accept w cfg c obs s')) = seen s"
          "suspects (state_of (accept w cfg c obs s')) = suspects s" using same by (simp_all add: steady_def)
        moreover have "grows s s'" using same by (intro grows_same) simp_all
        ultimately have "Q (state_of (accept w cfg c obs s'))" by (intro Q_same) (auto intro: grow.trans)
        then show ?thesis using alone Inr r True by (simp add: judge_suspect_def attempt_def s'_def)
      qed
    qed
  qed
  then show ?thesis by (simp add: Q_def)
qed

section \<open>A whole pass\<close>

definition guarded :: "pass \<Rightarrow> pass \<Rightarrow> bool" where
  "guarded s t \<longleftrightarrow> (suspects_ok (length (seen s)) s \<longrightarrow> grows s t \<and> suspects_ok (length (seen t)) t)"

interpretation guard: pass_preorder guarded
  by unfold_locales (auto simp: guarded_def intro: grow.refl grow.trans)

lemma guarded_same:
  "price_rows t = price_rows s \<Longrightarrow> raw_rows t = raw_rows s \<Longrightarrow> seen t = seen s \<Longrightarrow>
   suspects t = suspects s \<or> suspects t = [] \<Longrightarrow> guarded s t"
  by (auto simp: guarded_def suspects_ok_def intro: grows_same)

lemma steady_guarded: "steady (seen s) s t \<Longrightarrow> guarded s t"
  by (auto simp: guarded_def steady_def intro: suspects_ok_mono)

lemma classify_cases:
  assumes "classify_observation sy v recent lg = Inr (q, why)"
  shows "q = ''outlier'' \<and> \<not> sanity_ok sy v \<or> (q = ''suspect'' \<or> q = ''ok'') \<and> sanity_ok sy v"
  using assms
  by (auto simp: classify_observation_def bind_res_eq_Inr map_res_eq_Inr split: if_splits option.splits)

lemma mark_handled_same: "price_rows (mark_handled c obs s) = price_rows s" "raw_rows (mark_handled c obs s) = raw_rows s"
  "seen (mark_handled c obs s) = seen s @ [obs]" "suspects (mark_handled c obs s) = suspects s"
  "fetches (mark_handled c obs s) = fetches s" "fetch_cache (mark_handled c obs s) = fetch_cache s"
  "failed_providers (mark_handled c obs s) = failed_providers s" "provider_rows (mark_handled c obs s) = provider_rows s"
  "clock (mark_handled c obs s) = clock s" "collected (mark_handled c obs s) = collected s"
  by (simp_all add: mark_handled_def)

lemma settle_guarded:
  assumes "recent_values (price_rows s) (obs_symbol obs) = Inr recent"
    and cl: "classify_observation (obs_symbol obs) (obs_value obs) recent
        (case recent of [] \<Rightarrow> None | v # _ \<Rightarrow> Some v) = Inr verdict"
  shows "guarded s (state_of (settle w cfg c obs verdict (mark_handled c obs s)))"
proof -
  let ?t = "mark_handled c obs s"
  obtain q why where x: "verdict = (q, why)" by fastforce
  have st: "guarded s ?t"
    by (auto simp: guarded_def mark_handled_same intro: grows_same suspects_ok_mono)
  note kinds = classify_cases [OF cl [unfolded x]]
  show ?thesis
  proof (cases "q = ''outlier''")
    case True
    have "guarded ?t (state_of (store w obs ''outlier'' True ?t (\<lambda>_ s. Inr (add_error (Rejected c (obs_symbol obs) why) s))))"
      by (rule steady_guarded, rule store_steady) (auto simp: add_error_def intro: steady_same)
    then show ?thesis using st guard.trans x True by (auto simp: settle_def)
  next
    case not_out: False
    then have sane: "sanity_ok (obs_symbol obs) (obs_value obs)" using kinds by auto
    show ?thesis
    proof (cases "q = ''suspect''")
      case True
      have "suspects_ok (length (seen s)) ?t" if "suspects_ok (length (seen s)) s"
        using that by (auto simp: mark_handled_same intro: suspects_ok_mono)
      then have "grows ?t (state_of (judge_suspect w cfg c obs why ?t)) \<and>
          suspects_ok (length (seen (state_of (judge_suspect w cfg c obs why ?t)))) (state_of (judge_suspect w cfg c obs why ?t))"
        if "suspects_ok (length (seen s)) s"
        using judge_suspect_ok [OF mark_handled_same(3) _ sane] that by blast
      then show ?thesis using st grow.trans x True unfolding guarded_def settle_def Let_def by auto
    next
      case False
      then have q: "q = ''ok''" using kinds not_out by auto
      have "classified_good (take (length (price_rows ?t)) (price_rows ?t)) obs"
        using assms x q by (auto simp: classified_good_def mark_handled_same)
      then have "evidence (length (raw_rows s)) (price_rows ?t) (raw_rows ?t) (seen ?t) (length (price_rows ?t)) (length (seen s))"
        using sane by (auto simp: evidence_def mark_handled_same)
      then have "steady (seen ?t) ?t (state_of (accept w cfg c obs ?t))"
        by (intro accept_steady) (auto simp: mark_handled_same)
      then show ?thesis using st guard.trans steady_guarded x q by (auto simp: settle_def)
    qed
  qed
qed

lemma process_quote_guarded: "guarded s (state_of (process_quote w cfg c obs s))"
proof (cases "obs_symbol obs \<in> set (symbols_needed s)")
  case False
  then show ?thesis by (simp add: process_quote_def guard.refl)
next
  case True
  then show ?thesis
    unfolding process_quote_def Let_def
    by (simp only: not_not simp_thms if_False) (intro guard.attempt, rule settle_guarded)
qed

text \<open>What a provider's turn can be: nothing to do, cached quotes, a failed call, fresh quotes.\<close>

lemma process_provider_cases:
  obtains (idle) "process_provider w cfg row s = Inr s"
  | (cached) quotes where "map_of (fetch_cache s) (code row) = Some quotes"
      "process_provider w cfg row s = each (process_quote w cfg (code row)) quotes s"
  | (failed) exc t where "map_of (fetch_cache s) (code row) = None" "code row \<notin> set (failed_providers s)"
      "build_provider (code row) (provider_keys cfg) \<noteq> None" "fetch w (code row) (clock s) = (Inl exc, t)"
      "process_provider w cfg row s = Inr (s\<lparr>clock := t, fetches := fetches s @ [code row],
         failed_providers := List.insert (code row) (failed_providers s),
         provider_rows := record_failure t (code row) exc (provider_rows s),
         errors := errors s @ [FetchFailed (code row) exc]\<rparr>)"
  | (fetched) quotes t where "map_of (fetch_cache s) (code row) = None" "code row \<notin> set (failed_providers s)"
      "build_provider (code row) (provider_keys cfg) \<noteq> None" "fetch w (code row) (clock s) = (Inr quotes, t)"
      "process_provider w cfg row s = each (process_quote w cfg (code row)) quotes
         (s\<lparr>clock := t, fetches := fetches s @ [code row], fetch_cache := dict_set (code row) quotes (fetch_cache s),
            provider_rows := record_success t (code row) (provider_rows s)\<rparr>)"
proof (cases "symbols_needed s = [] \<or> code row \<in> set (failed_providers s)")
  case True
  then show ?thesis by (intro idle) (auto simp: process_provider_def Let_def)
next
  case False
  show ?thesis
  proof (cases "map_of (fetch_cache s) (code row)")
    case (Some quotes)
    then show ?thesis using False by (intro cached) (auto simp: process_provider_def Let_def)
  next
    case cache: None
    show ?thesis
    proof (cases "build_provider (code row) (provider_keys cfg)")
      case None
      then show ?thesis using False cache by (intro idle) (auto simp: process_provider_def Let_def)
    next
      case (Some cls)
      obtain got t where f: "fetch w (code row) (clock s) = (got, t)" by fastforce
      show ?thesis
      proof (cases got)
        case (Inl exc)
        show ?thesis
          by (rule failed [of exc t]) (use False cache Some f Inl in \<open>simp_all add: process_provider_def Let_def add_error_def\<close>)
      next
        case (Inr quotes)
        show ?thesis
          by (rule fetched [of quotes t]) (use False cache Some f Inr in \<open>simp_all add: process_provider_def Let_def\<close>)
      qed
    qed
  qed
qed

lemma process_provider_guarded: "guarded s (state_of (process_provider w cfg row s))"
proof -
  have quotes: "guarded s (state_of (each (process_quote w cfg c) quotes t))"
    if "price_rows t = price_rows s" "raw_rows t = raw_rows s" "seen t = seen s" "suspects t = suspects s" for t c quotes
    using that guarded_same guard.each [of quotes "process_quote w cfg c" t] process_quote_guarded guard.trans by metis
  show ?thesis
  proof (cases rule: process_provider_cases [of w cfg row s])
    case idle
    then show ?thesis by (simp add: guard.refl)
  next
    case cached
    then show ?thesis using quotes [of s] by simp
  next
    case failed
    then show ?thesis by (auto intro: guarded_same)
  next
    case fetched
    then show ?thesis by (simp add: quotes)
  qed
qed

text \<open>What a job can be: not due, dormant, or run.\<close>

lemma run_job_cases:
  obtains (skipped) "run_job w cfg job s = Inr s" "job = FUNDS_JOB"
      "\<not> funds_job_due w (tsetmc_fetch_times cfg) (raw_rows s) (app_settings s) (clock s)"
  | (dormant) "run_job w cfg job s = Inr (job_begin w job s)"
  | (ran) t where "t = job_begin w job s"
      "run_job w cfg job s = andthen (each (process_provider w cfg) (job_rows w job t)
         (t\<lparr>attempted_symbols := List.union (symbols_needed t) (attempted_symbols t)\<rparr>)) (\<lambda>s. Inr (report_missing job s))"
proof (cases "job = FUNDS_JOB \<and> \<not> funds_job_due w (tsetmc_fetch_times cfg) (raw_rows s) (app_settings s) (clock s)")
  case True
  then show ?thesis by (intro skipped) (simp_all add: run_job_def)
next
  case False
  show ?thesis
  proof (cases "job_rows w job (job_begin w job s) \<noteq> [] \<and>
      filter (\<lambda>row. build_provider (code row) (provider_keys cfg) \<noteq> None) (job_rows w job (job_begin w job s)) = []")
    case True
    show ?thesis by (rule dormant) (simp only: run_job_def Let_def if_not_P [OF False] if_P [OF True])
  next
    case dorm: False
    show ?thesis
      by (rule ran [OF HOL.refl]) (simp only: run_job_def Let_def if_not_P [OF False] if_not_P [OF dorm])
  qed
qed

lemma job_begin_same: "price_rows (job_begin w job s) = price_rows s" "raw_rows (job_begin w job s) = raw_rows s"
  "seen (job_begin w job s) = seen s" "suspects (job_begin w job s) = []" "fetches (job_begin w job s) = fetches s"
  "fetch_cache (job_begin w job s) = fetch_cache s" "failed_providers (job_begin w job s) = failed_providers s"
  "collected (job_begin w job s) = collected s" "clock (job_begin w job s) = clock s"
  by (simp_all add: job_begin_def Let_def)

lemma run_job_guarded: "guarded s (state_of (run_job w cfg job s))"
proof (cases rule: run_job_cases [of w cfg job s])
  case skipped
  then show ?thesis by (simp add: guard.refl)
next
  case dormant
  then show ?thesis by (auto simp: job_begin_same intro: guarded_same)
next
  case (ran t)
  let ?t = "t\<lparr>attempted_symbols := List.union (symbols_needed t) (attempted_symbols t)\<rparr>"
  have "guarded s ?t" by (rule guarded_same) (simp_all add: ran(1) job_begin_same)
  moreover have "guarded ?t (state_of (andthen (each (process_provider w cfg) (job_rows w job t) ?t)
      (\<lambda>s. Inr (report_missing job s))))"
    by (rule guard.andthen, rule guard.each, rule process_provider_guarded)
      (auto simp: report_missing_def intro: guarded_same)
  ultimately show ?thesis unfolding ran(2) by (rule guard.trans)
qed

text \<open>The measuring phase adds no price.\<close>

definition measured :: "pass \<Rightarrow> pass \<Rightarrow> bool" where
  "measured s t \<longleftrightarrow> price_rows t = price_rows s \<and> provider_rows t = provider_rows s \<and> clock t = clock s \<and>
     fetches t = fetches s \<and> collected t = collected s \<and> app_settings t = app_settings s \<and>
     seen t = seen s \<and> suspects t = suspects s \<and> fetch_cache t = fetch_cache s \<and>
     prefix (bare (raw_rows s)) (bare (raw_rows t))"

interpretation measure: pass_preorder measured
  by unfold_locales (auto simp: measured_def intro: prefix_order.trans)

lemma annotate_measured: "measured s (annotate_dispersion w winner d s)"
proof -
  have "bare (map (\<lambda>r. if r_dedupe r = k then r\<lparr>r_payload := p\<rparr> else r) rows) = bare rows" for k p rows
    by (simp add: bare_def)
  then show ?thesis by (simp add: measured_def annotate_dispersion_def Let_def)
qed

lemma peer_quote_measured: "measured s (state_of (peer_quote w sy c obs s))"
proof (cases "obs_symbol obs = sy")
  case True
  have k: "measured s (state_of (store w obs q False s k))"
    if "\<And>b t. measured t (state_of (k b t))" for q k
    using measure.refl [of s]
  proof (cases rule: store_cases [of w obs q False s k])
    case (stored raws prices b)
    have "measured s (s\<lparr>raw_rows := raws, price_rows := prices\<rparr>)" using stored by (auto simp: measured_def)
    then show ?thesis using that stored(1) measure.trans by metis
  qed simp
  have "\<not> obs_symbol obs \<noteq> sy" using True by simp
  then show ?thesis
    unfolding peer_quote_def Let_def
    by (simp only: if_False simp_thms) (rule k, simp add: local_updates measured_def)
qed (simp add: peer_quote_def measure.refl)

lemma measure_dispersion_measured: "measured s (state_of (measure_dispersion w s))"
  unfolding measure_dispersion_def measure_symbol_def
  by (intro measure.each measure.andthen measure.attempt)
    (auto split: option.splits simp: measure.refl annotate_measured intro!: measure.each peer_quote_measured)

lemma measured_steady: "measured s t \<Longrightarrow> guarded s t"
  by (auto simp: measured_def guarded_def grows_def extends_def intro: suspects_ok_mono)

lemma run_collect_split:
  obtains m where "state_of (run_collect w cfg jobs s) = m" "\<exists>e. each (run_job w cfg) (requested_jobs jobs) s = Inl (e, m)"
  | t u where "each (run_job w cfg) (requested_jobs jobs) s = Inr t" "u = state_of (measure_dispersion w t)"
      "state_of (run_collect w cfg jobs s) = u \<or> (\<exists>e. state_of (run_collect w cfg jobs s) = add_error (PeerDispersion e) u)"
proof (cases "each (run_job w cfg) (requested_jobs jobs) s")
  case (Inl es)
  then show ?thesis by (cases es) (auto simp: run_collect_def andthen_def intro: that(1))
next
  case (Inr t)
  then show ?thesis
    by (cases "measure_dispersion w t") (auto simp: run_collect_def andthen_def intro!: that(2))
qed

lemma run_collect_guarded: "guarded s (state_of (run_collect w cfg jobs s))"
proof -
  have jobs: "guarded s (state_of (each (run_job w cfg) (requested_jobs jobs) s))"
    by (rule guard.each) (rule run_job_guarded)
  show ?thesis
  proof (rule run_collect_split [of w cfg jobs s])
    fix m assume "state_of (run_collect w cfg jobs s) = m" "\<exists>e. each (run_job w cfg) (requested_jobs jobs) s = Inl (e, m)"
    then show ?thesis using jobs by auto
  next
    fix t u assume t: "each (run_job w cfg) (requested_jobs jobs) s = Inr t" "u = state_of (measure_dispersion w t)"
      "state_of (run_collect w cfg jobs s) = u \<or> (\<exists>e. state_of (run_collect w cfg jobs s) = add_error (PeerDispersion e) u)"
    have "guarded s u" using jobs t(1,2) measured_steady [OF measure_dispersion_measured, of t w] guard.trans by auto
    moreover have "guarded u (add_error e u)" for e by (auto simp: add_error_def intro: guarded_same)
    ultimately show ?thesis using t(3) guard.trans by metis
  qed
qed

section \<open>Keys and calls\<close>

text \<open>The unique keys stay unique, and a provider is called at most once: its code is afterwards in
  the cache or among the failed ones, and only codes of configured providers are called.\<close>

definition keys_ok :: "pass \<Rightarrow> bool" where
  "keys_ok s \<longleftrightarrow> distinct (map r_dedupe (raw_rows s)) \<and> distinct (map price_key (price_rows s))"

definition calls_ok :: "collect_settings \<Rightarrow> pass \<Rightarrow> bool" where
  "calls_ok cfg s \<longleftrightarrow> distinct (fetches s) \<and>
     set (fetches s) = set (map fst (fetch_cache s)) \<union> set (failed_providers s) \<and>
     (\<forall>c \<in> set (fetches s). build_provider c (provider_keys cfg) \<noteq> None)"

definition aside :: "pass \<Rightarrow> pass \<Rightarrow> bool" where
  "aside s t \<longleftrightarrow> fetches t = fetches s \<and> fetch_cache t = fetch_cache s \<and>
     failed_providers t = failed_providers s \<and> provider_rows t = provider_rows s \<and> clock t = clock s \<and>
     (keys_ok s \<longrightarrow> keys_ok t)"

interpretation aside: pass_preorder aside
  by unfold_locales (auto simp: aside_def)

lemma aside_same: "fetches t = fetches s \<Longrightarrow> fetch_cache t = fetch_cache s \<Longrightarrow> failed_providers t = failed_providers s \<Longrightarrow>
    provider_rows t = provider_rows s \<Longrightarrow> clock t = clock s \<Longrightarrow> raw_rows t = raw_rows s \<Longrightarrow>
    price_rows t = price_rows s \<Longrightarrow> aside s t"
  by (auto simp: aside_def keys_ok_def)

lemma store_aside:
  assumes "\<And>b t. aside t (state_of (k b t))"
  shows "aside s (state_of (store w obs q c s k))"
  using aside.refl [of s]
proof (cases rule: store_cases [of w obs q c s k])
  case (stored raws prices b)
  have "distinct (map r_dedupe (raw_rows s)) \<Longrightarrow> distinct (map r_dedupe raws)"
    using stored(3) insert_ignore_distinct by (auto simp: insert_raw_def)
  then have "aside s (s\<lparr>raw_rows := raws, price_rows := prices\<rparr>)" using stored(4) by (auto simp: aside_def keys_ok_def)
  then show ?thesis using assms stored(1) aside.trans by metis
qed simp

lemma accept_aside: "aside s (state_of (accept w cfg c obs s))"
  unfolding accept_def by (rule store_aside) (auto simp: local_updates intro: aside_same)

lemma judge_suspect_aside: "aside s (state_of (judge_suspect w cfg c obs why s))"
proof -
  have promote: "aside s (state_of (promote w obs p s))" for p s
    unfolding promote_def
  proof (rule aside.attempt)
    show "aside s (state_of (if agree then store w p ''ok'' True s (\<lambda>promoted s.
         let s = record_value (obs_symbol obs) (provider_code p) (obs_value p) s
         in Inr (if promoted then count_price (obs_symbol obs) p s else s)) else Inr s))" for agree
      by (cases agree) (auto simp: local_updates aside.refl intro!: store_aside aside_same)
  qed
  have hold: "aside s (state_of (hold_suspect w cfg c obs stk frozen why s))" for stk frozen
  proof -
    let ?s = "s\<lparr>suspects := dict_set (obs_symbol obs) (dict_get [] (suspects s) (obs_symbol obs) @ [obs]) (suspects s)\<rparr>"
    have "aside s ?s" by (rule aside_same) simp_all
    moreover have "aside ?s (state_of (hold_suspect w cfg c obs stk frozen why s))"
      unfolding hold_suspect_def Let_def
      by (rule store_aside) (auto simp: add_error_def warn_series_frozen_def notify_def Let_def intro: aside_same)
    ultimately show ?thesis by (rule aside.trans)
  qed
  have level: "aside s (state_of (accept w cfg c obs (notify n s)))" for n
  proof (rule aside.trans [OF _ accept_aside])
    show "aside s (notify n s)" by (rule aside_same) (simp_all add: notify_def)
  qed
  show ?thesis
    unfolding judge_suspect_def
  proof (rule aside.attempt)
    fix confirmed
    let ?s = "s\<lparr>suspects := filter (\<lambda>x. fst x \<noteq> obs_symbol obs) (suspects s)\<rparr>"
    have "aside s ?s" by (rule aside_same) simp_all
    moreover have "aside ?s (state_of (andthen (each (promote w obs) ps ?s) (accept w cfg c obs)))" for ps
      by (rule aside.andthen, rule aside.each) (simp_all add: promote accept_aside)
    ultimately have a: "aside s (state_of (andthen (each (promote w obs) ps ?s) (accept w cfg c obs)))" for ps
      by (blast intro: aside.trans)
    have b: "aside s (state_of (attempt s (suspect_state (raw_rows s) (price_rows s) obs) (\<lambda>(stk, frozen).
         if \<not> (frozen \<and> sustained_by_repetition stk SUSTAIN_MIN_OBSERVATIONS SUSTAIN_MIN_SPAN_MINUTES)
         then hold_suspect w cfg c obs stk frozen why s
         else accept w cfg c obs (notify (NewLevel (obs_symbol obs) (obs_value obs) c stk why) s))))"
      by (rule aside.attempt) (auto simp: hold level)
    show "aside s (state_of (if confirmed then
         let priors = dict_get [] (suspects s) (obs_symbol obs);
             s = s\<lparr>suspects := filter (\<lambda>x. fst x \<noteq> obs_symbol obs) (suspects s)\<rparr>
         in andthen (each (promote w obs) priors s) (accept w cfg c obs)
       else attempt s (suspect_state (raw_rows s) (price_rows s) obs) (\<lambda>(stk, frozen).
         if \<not> (frozen \<and> sustained_by_repetition stk SUSTAIN_MIN_OBSERVATIONS SUSTAIN_MIN_SPAN_MINUTES)
         then hold_suspect w cfg c obs stk frozen why s
         else accept w cfg c obs (notify (NewLevel (obs_symbol obs) (obs_value obs) c stk why) s))))"
      by (cases confirmed) (simp_all only: a b Let_def if_True if_False)
  qed
qed

lemma settle_aside: "aside s (state_of (settle w cfg c obs verdict s))"
proof -
  obtain q why where x: "verdict = (q, why)" by fastforce
  have "aside s (state_of (store w obs ''outlier'' True s (\<lambda>_ s. Inr (add_error (Rejected c (obs_symbol obs) why) s))))"
    by (rule store_aside) (auto simp: add_error_def intro: aside_same)
  then show ?thesis by (simp add: settle_def x judge_suspect_aside accept_aside)
qed

lemma process_quote_aside: "aside s (state_of (process_quote w cfg c obs s))"
proof (cases "obs_symbol obs \<in> set (symbols_needed s)")
  case False
  then show ?thesis by (simp add: process_quote_def aside.refl)
next
  case True
  have st: "aside s (mark_handled c obs s)" by (rule aside_same) (simp_all add: mark_handled_same)
  from True show ?thesis
    unfolding process_quote_def Let_def
    by (simp only: not_not simp_thms if_False)
      (intro aside.attempt, rule aside.trans [OF st], rule settle_aside)
qed

definition sound :: "collect_settings \<Rightarrow> pass \<Rightarrow> pass \<Rightarrow> bool" where
  "sound cfg s t \<longleftrightarrow> (calls_ok cfg s \<and> keys_ok s \<longrightarrow> calls_ok cfg t \<and> keys_ok t)"

interpretation sound: pass_preorder "sound cfg"
  by unfold_locales (auto simp: sound_def)

lemma aside_sound: "aside s t \<Longrightarrow> sound cfg s t"
  by (auto simp: aside_def sound_def calls_ok_def)

lemma process_provider_sound: "sound cfg s (state_of (process_provider w cfg row s))"
proof -
  have quotes: "sound cfg t (state_of (each (process_quote w cfg c) qs t))" for t c qs
    by (rule aside_sound, rule aside.each) (rule process_quote_aside)
  show ?thesis
  proof (cases rule: process_provider_cases [of w cfg row s])
    case idle
    then show ?thesis by (simp add: sound.refl)
  next
    case cached
    then show ?thesis by (simp add: quotes)
  next
    case (failed exc t)
    then show ?thesis by (auto simp: sound_def calls_ok_def keys_ok_def map_of_eq_None_iff)
  next
    case (fetched qs t)
    let ?t = "s\<lparr>clock := t, fetches := fetches s @ [code row], fetch_cache := dict_set (code row) qs (fetch_cache s),
            provider_rows := record_success t (code row) (provider_rows s)\<rparr>"
    have new: "code row \<notin> set (map fst (fetch_cache s))" using fetched(1) by (simp add: map_of_eq_None_iff)
    have "calls_ok cfg ?t" if ok: "calls_ok cfg s"
    proof -
      have "code row \<notin> set (fetches s)" using ok new fetched(2) unfolding calls_ok_def by blast
      moreover have "set (map fst (fetch_cache ?t)) = insert (code row) (set (map fst (fetch_cache s)))"
        by (simp add: dict_set_keys del: set_map)
      ultimately show ?thesis using ok fetched(3) by (simp add: calls_ok_def del: set_map)
    qed
    then have "sound cfg s ?t" by (simp add: sound_def keys_ok_def)
    then show ?thesis unfolding fetched(5) by (rule sound.trans) (rule quotes)
  qed
qed

lemma run_job_sound: "sound cfg s (state_of (run_job w cfg job s))"
proof (cases rule: run_job_cases [of w cfg job s])
  case skipped
  then show ?thesis by (simp add: sound.refl)
next
  case dormant
  then show ?thesis by (simp add: sound_def calls_ok_def keys_ok_def job_begin_same)
next
  case (ran t)
  let ?t = "t\<lparr>attempted_symbols := List.union (symbols_needed t) (attempted_symbols t)\<rparr>"
  have "sound cfg s ?t" by (simp add: ran(1) sound_def calls_ok_def keys_ok_def job_begin_same)
  moreover have "sound cfg ?t (state_of (andthen (each (process_provider w cfg) (job_rows w job t) ?t)
      (\<lambda>s. Inr (report_missing job s))))"
    by (rule sound.andthen, rule sound.each, rule process_provider_sound)
      (auto simp: report_missing_def sound_def calls_ok_def keys_ok_def)
  ultimately show ?thesis unfolding ran(2) by (rule sound.trans)
qed

lemma measure_dispersion_sound: "sound cfg s (state_of (measure_dispersion w s))"
proof -
  have peer: "aside s (state_of (peer_quote w sy c obs s))" for sy c obs s
  proof (cases "obs_symbol obs = sy")
    case True
    then have "\<not> obs_symbol obs \<noteq> sy" by simp
    then show ?thesis
      unfolding peer_quote_def Let_def
      by (simp only: if_False simp_thms) (rule store_aside, auto simp: local_updates intro: aside_same)
  qed (simp add: peer_quote_def aside.refl)
  have note': "aside s (annotate_dispersion w winner d s)" for winner d s
  proof -
    have eq: "map r_dedupe (map (\<lambda>r. if r_dedupe r = k then r\<lparr>r_payload := p\<rparr> else r) rows) = map r_dedupe rows" for k p rows
      by (induction rows) auto
    show ?thesis
      unfolding aside_def keys_ok_def annotate_dispersion_def Let_def by (simp del: map_map add: eq)
  qed
  have "aside s (state_of (measure_dispersion w s))"
    unfolding measure_dispersion_def measure_symbol_def
    by (intro aside.each aside.andthen aside.attempt)
      (auto split: option.splits simp: aside.refl note' intro!: aside.each peer)
  then show ?thesis by (rule aside_sound)
qed

lemma run_collect_sound: "sound cfg s (state_of (run_collect w cfg jobs s))"
proof -
  have jobs: "sound cfg s (state_of (each (run_job w cfg) (requested_jobs jobs) s))"
    by (rule sound.each) (rule run_job_sound)
  show ?thesis
  proof (rule run_collect_split [of w cfg jobs s])
    fix m assume "state_of (run_collect w cfg jobs s) = m" "\<exists>e. each (run_job w cfg) (requested_jobs jobs) s = Inl (e, m)"
    then show ?thesis using jobs by auto
  next
    fix t u assume t: "each (run_job w cfg) (requested_jobs jobs) s = Inr t" "u = state_of (measure_dispersion w t)"
      "state_of (run_collect w cfg jobs s) = u \<or> (\<exists>e. state_of (run_collect w cfg jobs s) = add_error (PeerDispersion e) u)"
    have "sound cfg s u" using jobs t(1,2) measure_dispersion_sound [of cfg t w] sound.trans by auto
    moreover have "sound cfg u (add_error e u)" for e by (auto simp: add_error_def sound_def calls_ok_def keys_ok_def)
    ultimately show ?thesis using t(3) sound.trans by metis
  qed
qed

section \<open>The window after a level shift\<close>

definition level_shift :: "pyfloat \<Rightarrow> pyfloat \<Rightarrow> bool" where
  "level_shift newer older \<longleftrightarrow> (\<exists>j. jump_pct newer older = Inr j \<and> flt MAX_JUMP_PCT j)"

lemma since_reset:
  "\<exists>n. since_last_level_reset vs = Inr (take n vs) \<and> n \<le> length vs \<and>
     (\<forall>i. Suc i < n \<longrightarrow> \<not> level_shift (vs ! i) (vs ! Suc i)) \<and>
     (n = length vs \<or> 0 < n \<and> level_shift (vs ! (n - 1)) (vs ! n))"
proof (induction vs rule: since_last_level_reset.induct)
  case (3 v u vs)
  obtain j where j: "jump_pct v u = Inr j" using jump_pct_total by blast
  show ?case
  proof (cases "flt MAX_JUMP_PCT j")
    case True
    then show ?thesis using j by (intro exI [of _ 1]) (simp add: level_shift_def)
  next
    case False
    then obtain n where n: "since_last_level_reset (u # vs) = Inr (take n (u # vs))" "n \<le> length (u # vs)"
      "\<forall>i. Suc i < n \<longrightarrow> \<not> level_shift ((u # vs) ! i) ((u # vs) ! Suc i)"
      "n = length (u # vs) \<or> 0 < n \<and> level_shift ((u # vs) ! (n - 1)) ((u # vs) ! n)"
      using 3 [OF False] by blast
    have ok: "\<not> level_shift v u" using j False by (simp add: level_shift_def)
    have "\<not> level_shift ((v # u # vs) ! i) ((v # u # vs) ! Suc i)" if "Suc i < Suc n" for i
      using that n(3) ok by (cases i) auto
    moreover have "Suc n = length (v # u # vs) \<or> 0 < Suc n \<and> level_shift ((v # u # vs) ! (Suc n - 1)) ((v # u # vs) ! Suc n)"
      using n(4) by (cases n) auto
    ultimately show ?thesis
      using n(1,2) j False by (intro exI [of _ "Suc n"]) auto
  qed
qed (auto intro: exI [of _ 0] exI [of _ 1])

section \<open>The funds slots\<close>

lemma combine_le:
  assumes "x \<le> wall_time l"
  shows "combine (wall_ordinal l) x \<le> l"
proof -
  have "combine (wall_ordinal l) x = l div day_us * day_us + x" by (simp add: combine_def wall_ordinal_def)
  moreover have "l div day_us * day_us + l mod day_us = l" by (rule div_mult_mod_eq)
  ultimately show ?thesis using assms unfolding wall_time_def by linarith
qed

context civil_zone
begin

lemma passed_slot_not_later: "passed_slot z raw t = Some slot \<Longrightarrow> slot \<le> t"
proof -
  let ?l = "local_wall z t" and ?p = "filter (\<lambda>x. x \<le> wall_time (local_wall z t)) (parse_fetch_times raw)"
  assume a: "passed_slot z raw t = Some slot"
  then have p: "?p \<noteq> []" and s: "slot = combine (wall_ordinal ?l) (Max (set ?p)) - wall_offset z (combine (wall_ordinal ?l) (Max (set ?p)))"
    by (auto simp: passed_slot_def Let_def split: if_splits)
  have "set ?p \<noteq> {}" using p by (simp only: set_empty) simp
  then have "Max (set ?p) \<in> set ?p" by (intro Max_in) simp_all
  then have "Max (set ?p) \<le> wall_time ?l" by auto
  then have "combine (wall_ordinal ?l) (Max (set ?p)) \<le> ?l"
    by (rule combine_le)
  then show ?thesis using s instant_le_iff by simp
qed

end

text \<open>The ticks at which a round fires, over instants in order. Each round leaves its attempt
  marker; the raw rows may be anything at any time.\<close>

fun funds_rounds :: "world \<Rightarrow> string \<Rightarrow> (int \<Rightarrow> raw_row list) \<Rightarrow> settings_table \<Rightarrow> int list \<Rightarrow> int list" where
  "funds_rounds w raw rows sets [] = []"
| "funds_rounds w raw rows sets (t # ts) =
     (if funds_job_due w raw (rows t) sets t
      then t # funds_rounds w raw rows (mark_funds_attempt w t sets) ts
      else funds_rounds w raw rows sets ts)"

lemma due_after_mark:
  assumes iso: "isoformat w m \<noteq> [] \<and> fromisoformat w (isoformat w m) = Some d \<and> ensure_utc d = m"
    and mark: "map_of sets FUNDS_ATTEMPT_KEY = Some (JObj [(''at'', JStr (isoformat w m))])"
    and due: "funds_job_due w raw rows sets t"
  shows "\<exists>slot. passed_slot (zone w) raw t = Some slot \<and> m < slot"
proof -
  obtain slot where slot: "passed_slot (zone w) raw t = Some slot"
    and marks: "funds_marks w rows sets = [] \<or> Max (set (funds_marks w rows sets)) < slot"
    using due by (auto simp: funds_job_due_def Let_def split: option.splits)
  have "m \<in> set (funds_marks w rows sets)"
    using iso mark by (auto simp: funds_marks_def Let_def json_get_def)
  then have "m \<le> Max (set (funds_marks w rows sets))" "funds_marks w rows sets \<noteq> []" by auto
  then have "m < slot" using marks by linarith
  then show ?thesis using slot by blast
qed

lemma rounds_slots:
  assumes z: "civil_zone (zone w)"
    and iso: "\<And>t. isoformat w t \<noteq> [] \<and> (\<exists>d. fromisoformat w (isoformat w t) = Some d \<and> ensure_utc d = t)"
  shows "(\<forall>t \<in> set (funds_rounds w raw rows sets ts). passed_slot (zone w) raw t \<noteq> None) \<and>
    (map_of sets FUNDS_ATTEMPT_KEY = Some (JObj [(''at'', JStr (isoformat w m))]) \<longrightarrow>
       (\<forall>t \<in> set (funds_rounds w raw rows sets ts). m < the (passed_slot (zone w) raw t))) \<and>
    distinct (map (\<lambda>t. the (passed_slot (zone w) raw t)) (funds_rounds w raw rows sets ts))"
proof (induction ts arbitrary: sets m)
  case (Cons t ts)
  show ?case
  proof (cases "funds_job_due w raw (rows t) sets t")
    case True
    obtain slot where s: "passed_slot (zone w) raw t = Some slot"
      using True by (auto simp: funds_job_due_def split: option.splits)
    have st: "slot \<le> t" using civil_zone.passed_slot_not_later [OF z s] .
    let ?sets = "mark_funds_attempt w t sets"
    have mk: "map_of ?sets FUNDS_ATTEMPT_KEY = Some (JObj [(''at'', JStr (isoformat w t))])"
      by (simp add: mark_funds_attempt_def upsert_setting_def dict_set_get)
    note ih = Cons.IH [of ?sets t]
    have later: "\<forall>u \<in> set (funds_rounds w raw rows ?sets ts). t < the (passed_slot (zone w) raw u)" using ih mk by blast
    have first: "m < slot" if "map_of sets FUNDS_ATTEMPT_KEY = Some (JObj [(''at'', JStr (isoformat w m))])"
      using due_after_mark [OF _ that True] iso [of m] s by auto
    have "m < the (passed_slot (zone w) raw u)"
      if "map_of sets FUNDS_ATTEMPT_KEY = Some (JObj [(''at'', JStr (isoformat w m))])"
        "u \<in> set (funds_rounds w raw rows ?sets ts)" for u
      using first [OF that(1)] later that(2) st by force
    moreover have "slot \<notin> (\<lambda>t. the (passed_slot (zone w) raw t)) ` set (funds_rounds w raw rows ?sets ts)"
      using later st by force
    ultimately show ?thesis using True ih s first by auto
  next
    case False
    then show ?thesis using Cons.IH [of sets m] by simp
  qed
qed simp

section \<open>A small world\<close>

text \<open>One provider that quotes the dollar once; instants are written as a sign and a tally.\<close>

definition tally :: "int \<Rightarrow> string" where
  "tally t = (if t < 0 then CHR ''-'' # replicate (nat (- t)) CHR ''1'' else CHR ''+'' # replicate (nat t) CHR ''1'')"

definition untally :: "string \<Rightarrow> pydatetime option" where
  "untally s = (case s of [] \<Rightarrow> None
     | c # cs \<Rightarrow> Some (Naive (if c = CHR ''-'' then - int (length cs) else int (length cs))))"

lemma untally_tally: "tally t \<noteq> [] \<and> untally (tally t) = Some (Naive t)"
  by (simp add: tally_def untally_def)

definition demo_quote_of :: "string \<Rightarrow> pyfloat \<Rightarrow> int \<Rightarrow> observation" where
  "demo_quote_of sy v t = \<lparr>provider_code = ''bitmax'', obs_symbol = sy, raw_value = v, raw_unit = ''IRT/USDT'',
     raw_currency = ''IRT'', obs_value = v, obs_currency = ''IRT'', obs_unit = ''IRT/USD'', observed_at = t, raw_payload = JNull\<rparr>"

definition demo_world :: world where
  "demo_world = \<lparr>sha256 = id, isoformat = tally, fromisoformat = untally, format10g = (\<lambda>_. ''v''), collate = id,
     zone = tehran_zone, fetch = (\<lambda>c t. (Inr [demo_quote_of ''USD_IRT'' (Fin 600000) t], t + 1))\<rparr>"

definition demo_settings :: collect_settings where
  "demo_settings = \<lparr>market = default_settings, provider_keys = \<lparr>brsapi_api_key = [], navasan_api_key = [], metals_dev_api_key = []\<rparr>,
     tsetmc_fetch_times = ''12:00,15:00,18:00''\<rparr>"

definition demo_row :: provider_row where
  "demo_row = \<lparr>code = ''bitmax'', provider_name = ''Bitmax'', category = ''fx'', priority = 10, enabled = True,
     last_success_at = None, last_error_at = None, last_error = None, consecutive_failures = 0, updated_at = None\<rparr>"

definition demo_pass :: pass where
  "demo_pass = state_of (run_collect demo_world demo_settings (Some [''fx'']) (start_pass [] [] [demo_row] [] 0))"

lemma demo_pass_prices: "map p_value (price_rows demo_pass) = [Fin 600000] \<and> fetches demo_pass = [''bitmax'']"
  by code_simp

section \<open>Properties\<close>

text \<open>C3: No price without evidence. Whatever the providers answer and wherever the pass stops, the
  price table and the raw table only grow, and every price the pass added is one of its
  quotes: plausible for its symbol, and classified good against exactly the prices stored before it,
  or agreeing within the tolerance with a different quote of the same symbol, or held long
  enough by its own provider while nothing was accepted, which is judged by exactly the prices stored before it
  and a state of the raw table that holds at least the rows from before the pass.\<close>

theorem prices_need_evidence:
  "let final = state_of (run_collect w cfg jobs (start_pass raws prices provs sets t)) in
     prefix prices (price_rows final) \<and> prefix (bare raws) (bare (raw_rows final)) \<and>
     {length prices..<length (price_rows final)} \<subseteq> {i. supported (length raws) final i}"
proof -
  let ?s = "start_pass raws prices provs sets t"
  have s: "suspects_ok (length (seen ?s)) ?s" "price_rows ?s = prices" "raw_rows ?s = raws"
    by (simp_all add: start_pass_def suspects_ok_def)
  from run_collect_guarded [of ?s w cfg jobs] s(1)
  have "grows ?s (state_of (run_collect w cfg jobs ?s))" by (simp add: guarded_def)
  then show ?thesis using s by (auto simp: grows_def extends_def Let_def)
qed

text \<open>The witness: the price of the demonstration has its evidence, and evidence is more than plausibility: over a
  history at another level the same quote would be plausible and still have none.\<close>

definition demo_history_rows :: "price_row list" where
  "demo_history_rows = map (\<lambda>t. (price_row_of (demo_quote_of ''USD_IRT'' (Fin 300000) t) t)) [-3, -2, -1]"

lemma evidence_refuses:
  "sanity_ok ''USD_IRT'' (Fin 600000) \<and> \<not> evidence 0 demo_history_rows [] [demo_quote_of ''USD_IRT'' (Fin 600000) 0] 3 0"
proof -
  let ?q = "demo_quote_of ''USD_IRT'' (Fin 600000) 0"
  have "sanity_ok ''USD_IRT'' (Fin 600000)" by code_simp
  moreover have "recent_values (take 3 demo_history_rows) ''USD_IRT'' = Inr [Fin 300000, Fin 300000, Fin 300000]" by code_simp
  moreover have "map_res fst (classify_observation ''USD_IRT'' (Fin 600000) [Fin 300000, Fin 300000, Fin 300000] (Some (Fin 300000))) = Inr ''suspect''"
    by code_simp
  moreover have "map_res (\<lambda>(stk, frozen). sustained_by_repetition stk SUSTAIN_MIN_OBSERVATIONS SUSTAIN_MIN_SPAN_MINUTES)
      (suspect_state [] (take 3 demo_history_rows) ?q) = Inr False" by code_simp
  ultimately show ?thesis
    by (auto simp: evidence_def classified_good_def outlasted_def map_res_eq_Inr demo_quote_of_def)
qed

theorem prices_need_evidence_witness:
  "length (price_rows demo_pass) = 1 \<and> supported 0 demo_pass 0"
  using prices_need_evidence [of demo_world demo_settings "Some [''fx'']" "[]" "[]" "[demo_row]" "[]" 0] demo_pass_prices
  by (auto simp: demo_pass_def Let_def dest: arg_cong [of _ _ length])

text \<open>A pass calls a provider at most once, only providers that are configured, and the unique
  keys of both tables stay unique, also when the pass raises.\<close>

theorem pass_calls_and_keys:
  assumes "distinct (map r_dedupe raws)" and "distinct (map price_key prices)"
    and "final = state_of (run_collect w cfg jobs (start_pass raws prices provs sets t))"
  shows "distinct (fetches final) \<and>
    set (fetches final) \<subseteq> {c. build_provider c (provider_keys cfg) \<noteq> None} \<and>
    distinct (map r_dedupe (raw_rows final)) \<and> distinct (map price_key (price_rows final))"
proof -
  let ?s = "start_pass raws prices provs sets t"
  have "calls_ok cfg ?s \<and> keys_ok ?s" using assms(1,2) by (simp add: start_pass_def calls_ok_def keys_ok_def)
  with run_collect_sound [of cfg ?s w jobs] have "calls_ok cfg final \<and> keys_ok final"
    unfolding assms(3) sound_def by blast
  then show ?thesis unfolding calls_ok_def keys_ok_def by blast
qed

theorem pass_calls_and_keys_witness:
  "distinct (fetches demo_pass) \<and> fetches demo_pass = [''bitmax''] \<and> distinct (map price_key (price_rows demo_pass))"
  using pass_calls_and_keys [OF _ _ demo_pass_def] demo_pass_prices by simp

text \<open>Measuring disagreement costs nothing and serves nothing: it makes no call, touches no
  price, no provider health and no setting, and the raw table only grows (payloads aside).\<close>

theorem dispersion_serves_no_price:
  "let t = state_of (measure_dispersion w s) in
     price_rows t = price_rows s \<and> fetches t = fetches s \<and> clock t = clock s \<and>
     provider_rows t = provider_rows s \<and> app_settings t = app_settings s \<and> collected t = collected s \<and>
     prefix (bare (raw_rows s)) (bare (raw_rows t))"
  using measure_dispersion_measured [of s w] by (simp add: measured_def Let_def)

text \<open>The robust window is the longest newest-first run without an accepted level shift: it
  is always defined, no step inside it exceeds the jump threshold, and it ends at the end of
  the series or at a step that does.\<close>

theorem since_last_level_reset_spec:
  "\<exists>n \<le> length vs. since_last_level_reset vs = Inr (take n vs) \<and>
     {i. Suc i < n \<and> level_shift (vs ! i) (vs ! Suc i)} = {} \<and>
     (n = length vs \<or> 0 < n \<and> level_shift (vs ! (n - 1)) (vs ! n))"
  using since_reset [of vs] by blast

text \<open>The request budget of the exchange funds: over any sequence of ticks, whatever has been
  stored meanwhile, no two rounds fire for the same slot, and a round fires only on a trading
  day at or after a slot.\<close>

theorem funds_slot_spent_once:
  assumes "civil_zone (zone w)"
    and "\<And>t. isoformat w t \<noteq> [] \<and> (\<exists>d. fromisoformat w (isoformat w t) = Some d \<and> ensure_utc d = t)"
  shows "distinct (map (\<lambda>t. passed_slot (zone w) raw t) (funds_rounds w raw rows sets ts)) \<and>
    None \<notin> set (map (\<lambda>t. passed_slot (zone w) raw t) (funds_rounds w raw rows sets ts))"
proof -
  note r = rounds_slots [OF assms, of raw rows sets ts]
  have "distinct (map the (map (\<lambda>t. passed_slot (zone w) raw t) (funds_rounds w raw rows sets ts)))"
    using r by (simp add: comp_def)
  then have "distinct (map (\<lambda>t. passed_slot (zone w) raw t) (funds_rounds w raw rows sets ts))"
    by (simp only: distinct_map)
  then show ?thesis using r by force
qed

theorem funds_slot_spent_once_witness:
  "distinct (map (\<lambda>t. passed_slot tehran_zone ''12:00,15:00'' t)
     (funds_rounds demo_world ''12:00,15:00'' (\<lambda>_. []) [] [30600000000, 30600000001, 41400000000]))"
proof -
  have "zone demo_world = tehran_zone" by (simp add: demo_world_def)
  moreover have "isoformat demo_world t \<noteq> [] \<and> (\<exists>d. fromisoformat demo_world (isoformat demo_world t) = Some d \<and> ensure_utc d = t)" for t
    using untally_tally [of t] by (simp add: demo_world_def)
  ultimately show ?thesis
    using funds_slot_spent_once [of demo_world "''12:00,15:00''" "\<lambda>_. []" "[]" "[30600000000, 30600000001, 41400000000]"]
      civil_zone_tehran by simp
qed

end
