(* ===== verification/Trend_Alignment.thy ===== *)
theory Trend_Alignment
  imports Tables Calendar
begin

text \<open>
  \<^verbatim>\<open>app/models/trend_alignment.py\<close>: three moving averages on the daily, four-hour and hourly
  candles of a symbol, the strict stack test of each timeframe and their unanimity. Instants
  are microseconds of UTC. The reason sentences are constructors with the numbers they print.

  Shown: the result is a function of the closed candles alone; a full alignment has three
  fresh, sufficiently long series with a strict stack each; resampling gives one bar per
  occupied bucket, in order, with the open of the earliest, the close of the latest and the
  extremes of all its candles.
\<close>

section \<open>Data\<close>

datatype trend = Bullish | Bearish | Neutral | Unavailable
datatype alignment = FullBullish | FullBearish | NotAligned

definition TIMEFRAME_SECONDS :: "(string \<times> int) list" where
  "TIMEFRAME_SECONDS = [(''1h'', 3600), (''4h'', 4 * 3600), (''1d'', 86400)]"

definition TIMEFRAMES :: "string list" where "TIMEFRAMES = [''1d'', ''4h'', ''1h'']"

definition WARMUP_FACTOR :: pyfloat where "WARMUP_FACTOR = lit (13 / 10)"

record candle =
  c_start :: int
  c_open :: pyfloat
  c_high :: pyfloat
  c_low :: pyfloat
  c_close :: pyfloat

datatype trend_reason =
    NoRemark
  | NoCompletedCandles
  | LastCandleOld pyfloat          \<comment> \<open>age in buckets\<close>
  | TooFewCandles nat int          \<comment> \<open>completed, required\<close>
  | SlowWarmingUp nat int          \<comment> \<open>completed, wanted\<close>

record timeframe_result =
  tf_name :: string
  tf_trend :: trend
  tf_price :: "pyfloat option"
  tf_ma26 :: "pyfloat option"
  tf_ma48 :: "pyfloat option"
  tf_ma220 :: "pyfloat option"
  tf_open_time :: "int option"
  tf_close_time :: "int option"
  tf_confirmed :: bool
  tf_fresh :: bool
  tf_ma_type :: string
  tf_points :: nat
  tf_reason :: trend_reason

section \<open>Moving averages\<close>

definition sma :: "pyfloat list \<Rightarrow> int \<Rightarrow> pyfloat option" where
  "sma values period =
     (if period \<le> 0 \<or> int (length values) < period then None
      else Some (fquot (fsum (last_n (nat period) values)) (rnd (of_int period))))"

definition ema_step :: "pyfloat \<Rightarrow> pyfloat \<Rightarrow> pyfloat \<Rightarrow> pyfloat" where
  "ema_step k x current = fadd (fmul (fsub x current) k) current"

definition ema :: "pyfloat list \<Rightarrow> int \<Rightarrow> pyfloat option" where
  "ema values period =
     (if period \<le> 0 \<or> int (length values) < period then None
      else let k = fquot (Fin 2) (fadd (rnd (of_int period)) (Fin 1));
               seed = fquot (fsum (take (nat period) values)) (rnd (of_int period))
        in Some (fold (ema_step k) (drop (nat period) values) seed))"

definition moving_average :: "pyfloat list \<Rightarrow> int \<Rightarrow> string \<Rightarrow> pyfloat option" where
  "moving_average values period ma_type =
     (if ma_type = ''sma'' then sma values period else ema values period)"

section \<open>The rules\<close>

text \<open>The strict stack test; comparisons with a NaN are false.\<close>

definition trend_state ::
  "pyfloat option \<Rightarrow> pyfloat option \<Rightarrow> pyfloat option \<Rightarrow> pyfloat option \<Rightarrow> trend" where
  "trend_state price ma26 ma48 ma220 =
     (case (price, ma26, ma48, ma220) of
        (Some p, Some a, Some b, Some c) \<Rightarrow>
          if flt a p \<and> flt b a \<and> flt c b then Bullish
          else if flt p a \<and> flt a b \<and> flt b c then Bearish
          else Neutral
      | _ \<Rightarrow> Unavailable)"

definition alignment_of :: "trend \<Rightarrow> trend \<Rightarrow> trend \<Rightarrow> alignment" where
  "alignment_of one_day four_hour one_hour =
     (let states = [one_day, four_hour, one_hour] in
      if \<exists>s \<in> set states. s = Unavailable then NotAligned
      else if \<forall>s \<in> set states. s = Bullish then FullBullish
      else if \<forall>s \<in> set states. s = Bearish then FullBearish
      else NotAligned)"

section \<open>Candle construction\<close>

text \<open>\<^verbatim>\<open>int(at.timestamp())\<close>: the float of the seconds, truncated toward zero.\<close>

definition epoch_seconds :: "int \<Rightarrow> int" where
  "epoch_seconds at_us = (case rnd (of_int at_us / 10 ^ 6) of
     Fin x \<Rightarrow> if 0 \<le> x then \<lfloor>x\<rfloor> else \<lceil>x\<rceil> | _ \<Rightarrow> 0)"

definition bucket_start :: "int \<Rightarrow> int \<Rightarrow> int" where
  "bucket_start at_us seconds =
     (let epoch = epoch_seconds at_us in (epoch - epoch mod seconds) * 10 ^ 6)"

text \<open>The dictionary of the buckets, each with its candles in the order they came.\<close>

definition add_candle :: "int \<Rightarrow> candle \<Rightarrow> (int \<times> candle list) list \<Rightarrow> (int \<times> candle list) list" where
  "add_candle seconds c b =
     (let k = bucket_start (c_start c) seconds in dict_set k (dict_get [] b k @ [c]) b)"

definition buckets :: "candle list \<Rightarrow> int \<Rightarrow> (int \<times> candle list) list" where
  "buckets candles seconds = fold (add_candle seconds) candles []"

definition merge_bucket :: "int \<Rightarrow> candle list \<Rightarrow> candle" where
  "merge_bucket start members =
     (let group = sort_key c_start members in
      \<lparr>c_start = start,
       c_open = c_open (hd group),
       c_high = fold (\<lambda>c m. fmax m (c_high c)) (tl group) (c_high (hd group)),
       c_low = fold (\<lambda>c m. fmin m (c_low c)) (tl group) (c_low (hd group)),
       c_close = c_close (last group)\<rparr>)"

definition bucket_bar :: "(int \<times> candle list) list \<Rightarrow> int \<Rightarrow> candle" where
  "bucket_bar bs start = merge_bucket start (dict_get [] bs start)"

definition resample :: "candle list \<Rightarrow> int \<Rightarrow> candle list" where
  "resample candles seconds =
     (let bs = buckets candles seconds in
      map (bucket_bar bs) (sort (map fst bs)))"

definition completed :: "candle list \<Rightarrow> int \<Rightarrow> int \<Rightarrow> candle list" where
  "completed candles seconds now = filter (\<lambda>c. c_start c + seconds * 10 ^ 6 \<le> now) candles"

section \<open>Evaluation\<close>

record trend_config =
  tc_enabled :: bool
  tc_ma_type :: string
  tc_fast :: int
  tc_mid :: int
  tc_slow :: int
  tc_stale_buckets :: pyfloat

definition default_trend_config :: trend_config where
  "default_trend_config = \<lparr>tc_enabled = True, tc_ma_type = ''ema'', tc_fast = 26, tc_mid = 48, tc_slow = 220,
     tc_stale_buckets = Fin 3\<rparr>"

definition validate_config :: "trend_config \<Rightarrow> unit res" where
  "validate_config cfg =
     (if \<not> (0 < tc_fast cfg \<and> tc_fast cfg < tc_mid cfg \<and> tc_mid cfg < tc_slow cfg) then Inl ValueError
      else if tc_ma_type cfg \<notin> {''ema'', ''sma''} then Inl ValueError
      else Inr ())"

text \<open>\<^verbatim>\<open>int(slow * WARMUP_FACTOR)\<close>.\<close>

definition warmup_candles :: "trend_config \<Rightarrow> int res" where
  "warmup_candles cfg = bind_res (float_of_int (tc_slow cfg)) (\<lambda>f. ftrunc_int (fmul f WARMUP_FACTOR))"

definition blank_result :: "string \<Rightarrow> trend_config \<Rightarrow> nat \<Rightarrow> timeframe_result" where
  "blank_result tf cfg n = \<lparr>tf_name = tf, tf_trend = Unavailable, tf_price = None, tf_ma26 = None, tf_ma48 = None,
     tf_ma220 = None, tf_open_time = None, tf_close_time = None, tf_confirmed = False, tf_fresh = False,
     tf_ma_type = tc_ma_type cfg, tf_points = n, tf_reason = NoRemark\<rparr>"

definition evaluate_done ::
  "string \<Rightarrow> int \<Rightarrow> candle list \<Rightarrow> int \<Rightarrow> trend_config \<Rightarrow> timeframe_result res" where
  "evaluate_done tf seconds done now cfg =
     (let res = blank_result tf cfg (length done) in
      if done = [] then Inr (res\<lparr>tf_reason := NoCompletedCandles\<rparr>)
      else let lst = last done;
               close_time = c_start lst + seconds * 10 ^ 6;
               age = rnd (of_int (now - close_time) / 10 ^ 6);
               fresh = fle age (fmul (tc_stale_buckets cfg) (rnd (of_int seconds)));
               res = res\<lparr>tf_open_time := Some (c_start lst), tf_close_time := Some close_time,
                 tf_confirmed := True, tf_price := Some (c_close lst), tf_fresh := fresh\<rparr>
        in if \<not> fresh then Inr (res\<lparr>tf_reason := LastCandleOld (fquot age (rnd (of_int seconds)))\<rparr>)
           else bind_res (warmup_candles cfg) (\<lambda>needed.
             if int (length done) < tc_slow cfg
             then Inr (res\<lparr>tf_reason := TooFewCandles (length done) (tc_slow cfg)\<rparr>)
             else let closes = map c_close done;
                      a = moving_average closes (tc_fast cfg) (tc_ma_type cfg);
                      b = moving_average closes (tc_mid cfg) (tc_ma_type cfg);
                      c = moving_average closes (tc_slow cfg) (tc_ma_type cfg)
               in Inr (res\<lparr>tf_ma26 := a, tf_ma48 := b, tf_ma220 := c,
                 tf_trend := trend_state (Some (c_close lst)) a b c,
                 tf_reason := (if int (length done) < needed then SlowWarmingUp (length done) needed else NoRemark)\<rparr>)))"

definition evaluate_timeframe ::
  "string \<Rightarrow> candle list \<Rightarrow> int \<Rightarrow> trend_config \<Rightarrow> timeframe_result res" where
  "evaluate_timeframe tf candles now cfg =
     (case map_of TIMEFRAME_SECONDS tf of
        None \<Rightarrow> Inl KeyError
      | Some seconds \<Rightarrow> evaluate_done tf seconds (completed candles seconds now) now cfg)"

record alignment_result =
  ar_symbol :: string
  ar_alignment :: alignment
  ar_timeframes :: "(string \<times> timeframe_result) list"
  ar_calculated_at :: int
  ar_fresh :: bool

text \<open>The close times of the closed candles, per timeframe.\<close>

definition candle_identity :: "alignment_result \<Rightarrow> (string \<times> int option) list" where
  "candle_identity r = map (\<lambda>tf. (tf, Option.bind (map_of (ar_timeframes r) tf) tf_close_time)) TIMEFRAMES"

definition evaluate ::
  "string \<Rightarrow> candle list \<Rightarrow> candle list \<Rightarrow> int \<Rightarrow> trend_config option \<Rightarrow> alignment_result res" where
  "evaluate sy hourly daily now config =
     (let cfg = (case config of None \<Rightarrow> default_trend_config | Some c \<Rightarrow> c) in
      bind_res (validate_config cfg) (\<lambda>_.
      bind_res (evaluate_timeframe ''1d'' daily now cfg) (\<lambda>d.
      bind_res (evaluate_timeframe ''4h'' (resample hourly (4 * 3600)) now cfg) (\<lambda>f.
      bind_res (evaluate_timeframe ''1h'' hourly now cfg) (\<lambda>h.
        Inr \<lparr>ar_symbol = sy, ar_alignment = alignment_of (tf_trend d) (tf_trend f) (tf_trend h),
          ar_timeframes = [(''1d'', d), (''4h'', f), (''1h'', h)], ar_calculated_at = now,
          ar_fresh = (tf_fresh d \<and> tf_fresh f \<and> tf_fresh h)\<rparr>)))))"

section \<open>Buckets\<close>

lemma buckets_gen:
  "dict_get [] (fold (add_candle s) cs b0) k =
     dict_get [] b0 k @ filter (\<lambda>c. bucket_start (c_start c) s = k) cs"
  by (induction cs arbitrary: b0) (auto simp: add_candle_def dict_get_set Let_def)

lemma buckets_get: "dict_get [] (buckets cs s) k = filter (\<lambda>c. bucket_start (c_start c) s = k) cs"
  unfolding buckets_def buckets_gen by (simp add: dict_get_def)

lemma buckets_keys_gen:
  "set (map fst (fold (add_candle s) cs b0)) = set (map fst b0) \<union> (\<lambda>c. bucket_start (c_start c) s) ` set cs"
  "distinct (map fst b0) \<Longrightarrow> distinct (map fst (fold (add_candle s) cs b0))"
  by (induction cs arbitrary: b0) (auto simp: add_candle_def Let_def dict_set_keys dict_set_distinct simp del: set_map)

lemma buckets_keys: "set (map fst (buckets cs s)) = (\<lambda>c. bucket_start (c_start c) s) ` set cs" "distinct (map fst (buckets cs s))"
  unfolding buckets_def buckets_keys_gen by (simp_all add: buckets_keys_gen del: set_map)

lemma resample_alt:
  "resample cs s = map (\<lambda>st. merge_bucket st (filter (\<lambda>c. bucket_start (c_start c) s = st) cs))
     (sorted_list_of_set ((\<lambda>c. bucket_start (c_start c) s) ` set cs))"
proof -
  have "sort (map fst (buckets cs s)) = sorted_list_of_set ((\<lambda>c. bucket_start (c_start c) s) ` set cs)"
    unfolding buckets_keys(1) [symmetric]
    using buckets_keys(2) by (simp only: sorted_list_of_set_sort_remdups distinct_remdups_id)
  then show ?thesis unfolding resample_def Let_def bucket_bar_def buckets_get by simp
qed

lemma filter_sorted_list_of_set:
  "finite A \<Longrightarrow> filter P (sorted_list_of_set A) = sorted_list_of_set {a \<in> A. P a}"
  by (rule sorted_distinct_set_unique) (auto simp: sorted_wrt_filter)

section \<open>Closed candles\<close>

text \<open>An hourly candle begins on the hour, at an instant whose second a float holds exactly.\<close>

definition hour_aligned :: "candle \<Rightarrow> bool" where
  "hour_aligned c \<longleftrightarrow> c_start c mod (3600 * 10 ^ 6) = 0 \<and> \<bar>c_start c\<bar> \<le> 2 ^ 53 * 10 ^ 6"

lemma epoch_seconds_exact: "\<bar>n\<bar> \<le> 2 ^ 53 \<Longrightarrow> epoch_seconds (n * 10 ^ 6) = n"
  using rnd_of_int [of n] by (simp add: epoch_seconds_def)

lemma hour_alignedE:
  assumes "hour_aligned c"
  obtains n where "c_start c = n * 3600 * 10 ^ 6" "\<bar>n * 3600\<bar> \<le> 2 ^ 53"
proof -
  have "(3600 * 10 ^ 6) dvd c_start c" using assms by (simp add: hour_aligned_def mod_eq_0_iff_dvd)
  then obtain n where n: "c_start c = (3600 * 10 ^ 6) * n" by (rule dvdE)
  have "\<bar>n * 3600\<bar> * 10 ^ 6 \<le> 2 ^ 53 * 10 ^ 6"
    using assms unfolding hour_aligned_def n by (simp add: abs_mult)
  then have "\<bar>n * 3600\<bar> \<le> 2 ^ 53" by simp
  with n show thesis by (intro that [of n]) (simp_all add: mult_ac)
qed

lemma bucket_end_after:
  assumes "hour_aligned c" and "0 < m"
  shows "c_start c + 3600 * 10 ^ 6 \<le> bucket_start (c_start c) (m * 3600) + m * 3600 * 10 ^ 6"
proof -
  obtain n where n: "c_start c = n * 3600 * 10 ^ 6" "\<bar>n * 3600\<bar> \<le> 2 ^ 53"
    using assms(1) by (rule hour_alignedE)
  have e: "epoch_seconds (c_start c) = n * 3600" unfolding n(1) by (rule epoch_seconds_exact [OF n(2)])
  have md: "(n * 3600) mod (m * 3600) = (n mod m) * 3600" by (simp add: mult_mod_left)
  have "n mod m \<le> m - 1" using pos_mod_bound [OF assms(2), of n] by linarith
  then have "(n mod m) * 3600 * 10 ^ 6 \<le> (m - 1) * 3600 * 10 ^ 6" by simp
  moreover have "bucket_start (c_start c) (m * 3600) = n * 3600 * 10 ^ 6 - (n mod m) * 3600 * 10 ^ 6"
    unfolding bucket_start_def Let_def e md by (simp add: left_diff_distrib)
  ultimately show ?thesis unfolding n(1) by (simp add: left_diff_distrib)
qed

lemma completed_idem: "completed (completed cs s now) s now = completed cs s now"
  by (simp add: completed_def)

lemma merge_start: "c_start (merge_bucket st g) = st"
  by (simp add: merge_bucket_def Let_def)

lemma completed_resample:
  "completed (resample cs s) s now =
     map (\<lambda>st. merge_bucket st (filter (\<lambda>c. bucket_start (c_start c) s = st) cs))
       (sorted_list_of_set {st \<in> (\<lambda>c. bucket_start (c_start c) s) ` set cs. st + s * 10 ^ 6 \<le> now})"
  unfolding completed_def resample_alt by (simp add: filter_map o_def merge_start filter_sorted_list_of_set)

lemma resample_closed:
  assumes "\<And>c. c \<in> set cs \<Longrightarrow> hour_aligned c" and "0 < m"
  shows "completed (resample (completed cs 3600 now) (m * 3600)) (m * 3600) now =
    completed (resample cs (m * 3600)) (m * 3600) now"
proof -
  let ?b = "\<lambda>c. bucket_start (c_start c) (m * 3600)"
  let ?S = "\<lambda>cs. {st \<in> ?b ` set cs. st + m * 3600 * 10 ^ 6 \<le> now}"
  have closed: "c_start c + 3600 * 10 ^ 6 \<le> now" if "c \<in> set cs" "?b c + m * 3600 * 10 ^ 6 \<le> now" for c
    using bucket_end_after [OF assms(1) [OF that(1)] assms(2)] that(2) by linarith
  have S: "?S (completed cs 3600 now) = ?S cs" using closed by (auto simp: completed_def)
  have G: "filter (\<lambda>c. ?b c = st) (completed cs 3600 now) = filter (\<lambda>c. ?b c = st) cs"
    if "st \<in> ?S cs" for st
    unfolding completed_def filter_filter using closed that by (intro filter_cong) auto
  have "finite (?S cs)" by simp
  then show ?thesis unfolding completed_resample S using G by (intro map_cong) auto
qed

lemma evaluate_timeframe_cong:
  assumes "map_of TIMEFRAME_SECONDS tf = Some s" and "completed cs s now = completed cs' s now"
  shows "evaluate_timeframe tf cs now cfg = evaluate_timeframe tf cs' now cfg"
  using assms by (simp add: evaluate_timeframe_def)

lemma timeframe_seconds:
  "map_of TIMEFRAME_SECONDS ''1h'' = Some 3600" "map_of TIMEFRAME_SECONDS ''4h'' = Some (4 * 3600)"
  "map_of TIMEFRAME_SECONDS ''1d'' = Some 86400"
  by (simp_all add: TIMEFRAME_SECONDS_def)

lemma resample_four_hours:
  assumes "\<And>c. c \<in> set cs \<Longrightarrow> hour_aligned c" "\<And>c. c \<in> set cs' \<Longrightarrow> hour_aligned c"
    and "completed cs 3600 now = completed cs' 3600 now"
  shows "completed (resample cs (4 * 3600)) (4 * 3600) now = completed (resample cs' (4 * 3600)) (4 * 3600) now"
  using resample_closed [of cs 4 now] resample_closed [of cs' 4 now] assms by (simp only:)

section \<open>The result of a timeframe\<close>

text \<open>What a timeframe must have for a directional state: \<open>stacked\<close> reads the price and the three
  averages off its closed candles, compared by \<open>R\<close> (the greater first).\<close>

definition stacked :: "(pyfloat \<Rightarrow> pyfloat \<Rightarrow> bool) \<Rightarrow> candle list \<Rightarrow> trend_config \<Rightarrow> bool" where
  "stacked R done cfg \<longleftrightarrow>
     (let ma = (\<lambda>period. moving_average (map c_close done) period (tc_ma_type cfg)) in
      \<exists>a b c. ma (tc_fast cfg) = Some a \<and> ma (tc_mid cfg) = Some b \<and> ma (tc_slow cfg) = Some c \<and>
        R (c_close (last done)) a \<and> R a b \<and> R b c)"

definition live :: "int \<Rightarrow> candle list \<Rightarrow> int \<Rightarrow> trend_config \<Rightarrow> bool" where
  "live seconds done now cfg \<longleftrightarrow> done \<noteq> [] \<and> tc_slow cfg \<le> int (length done) \<and>
     fle (rnd (of_int (now - (c_start (last done) + seconds * 10 ^ 6)) / 10 ^ 6))
       (fmul (tc_stale_buckets cfg) (rnd (of_int seconds)))"

lemma flt_asym: "flt a b \<Longrightarrow> \<not> flt b a"
  by (cases a; cases b) auto

lemma trend_state_Bullish:
  "trend_state (Some p) a b c = Bullish \<longleftrightarrow>
    (\<exists>x y z. a = Some x \<and> b = Some y \<and> c = Some z \<and> flt x p \<and> flt y x \<and> flt z y)"
  by (cases a; cases b; cases c) (auto simp: trend_state_def)

lemma trend_state_Bearish:
  "trend_state (Some p) a b c = Bearish \<longleftrightarrow>
    (\<exists>x y z. a = Some x \<and> b = Some y \<and> c = Some z \<and> flt p x \<and> flt x y \<and> flt y z)"
  by (cases a; cases b; cases c) (auto simp: trend_state_def dest: flt_asym)

lemma evaluate_done_fields:
  assumes "evaluate_done tf s done now cfg = Inr r"
  shows "tf_trend r = Bullish \<longleftrightarrow> live s done now cfg \<and> stacked (\<lambda>x y. flt y x) done cfg"
    and "tf_trend r = Bearish \<longleftrightarrow> live s done now cfg \<and> stacked flt done cfg"
    and "tf_trend r \<noteq> Unavailable \<Longrightarrow> tf_fresh r"
    and "done \<noteq> [] \<Longrightarrow> tf_close_time r = Some (c_start (last done) + s * 10 ^ 6)"
    and "done = [] \<Longrightarrow> tf_close_time r = None"
  using assms
  by (auto simp: evaluate_done_def Let_def blank_result_def live_def stacked_def trend_state_Bullish
      trend_state_Bearish bind_res_eq_Inr split: if_splits)

section \<open>The whole evaluation\<close>

lemma evaluate_cases:
  assumes "evaluate sy hourly daily now (Some cfg) = Inr r"
  obtains d f h where
    "evaluate_done ''1d'' 86400 (completed daily 86400 now) now cfg = Inr d"
    "evaluate_done ''4h'' (4 * 3600) (completed (resample hourly (4 * 3600)) (4 * 3600) now) now cfg = Inr f"
    "evaluate_done ''1h'' 3600 (completed hourly 3600 now) now cfg = Inr h"
    "ar_alignment r = alignment_of (tf_trend d) (tf_trend f) (tf_trend h)"
    "ar_timeframes r = [(''1d'', d), (''4h'', f), (''1h'', h)]"
    "ar_fresh r = (tf_fresh d \<and> tf_fresh f \<and> tf_fresh h)" "ar_symbol r = sy" "ar_calculated_at r = now"
  using assms
  by (auto simp: evaluate_def bind_res_eq_Inr evaluate_timeframe_def timeframe_seconds simp del: mult_numeral_left_semiring_numeral)

lemma alignment_of_full:
  "alignment_of d f h = FullBullish \<longleftrightarrow> d = Bullish \<and> f = Bullish \<and> h = Bullish"
  "alignment_of d f h = FullBearish \<longleftrightarrow> d = Bearish \<and> f = Bearish \<and> h = Bearish"
  by (cases d; cases f; cases h; simp add: alignment_of_def)+

lemma completed_last: "completed cs s now \<noteq> [] \<Longrightarrow> c_start (last (completed cs s now)) + s * 10 ^ 6 \<le> now"
  using last_in_set [of "completed cs s now"] by (simp add: completed_def)

lemma directional_close:
  assumes "evaluate_done tf s (completed cs s now) now cfg = Inr r" and "tf_trend r \<in> {Bullish, Bearish}"
  shows "\<exists>t \<le> now. tf_close_time r = Some t" and "tf_fresh r"
proof -
  have "live s (completed cs s now) now cfg" using evaluate_done_fields(1,2) [OF assms(1)] assms(2) by auto
  then have ne: "completed cs s now \<noteq> []" by (simp add: live_def)
  show "\<exists>t \<le> now. tf_close_time r = Some t"
    using evaluate_done_fields(4) [OF assms(1) ne] completed_last [OF ne] by blast
  show "tf_fresh r" using evaluate_done_fields(3) [OF assms(1)] assms(2) by auto
qed

text \<open>The series the three timeframes read.\<close>

definition timeframe_series :: "candle list \<Rightarrow> candle list \<Rightarrow> (int \<times> candle list) set" where
  "timeframe_series hourly daily =
     {(86400, daily), (4 * 3600, resample hourly (4 * 3600)), (3600, hourly)}"

section \<open>One bar per bucket\<close>

lemma fold_fmax:
  "fold (\<lambda>c m. fmax m (g c)) cs m0 \<in> insert m0 (g ` set cs)"
  "m0 \<noteq> NaN \<Longrightarrow> \<forall>c \<in> set cs. g c \<noteq> NaN \<Longrightarrow> fle m0 (fold (\<lambda>c m. fmax m (g c)) cs m0)"
  "m0 \<noteq> NaN \<Longrightarrow> \<forall>c \<in> set cs. g c \<noteq> NaN \<Longrightarrow> c \<in> set cs \<Longrightarrow> fle (g c) (fold (\<lambda>c m. fmax m (g c)) cs m0)"
proof -
  show "fold (\<lambda>c m. fmax m (g c)) cs m0 \<in> insert m0 (g ` set cs)"
    by (induction cs arbitrary: m0) (auto simp: fmax_def)
  have up: "m0 \<noteq> NaN \<Longrightarrow> \<forall>c \<in> set cs. g c \<noteq> NaN \<Longrightarrow> fle m0 (fold (\<lambda>c m. fmax m (g c)) cs m0)" for cs m0
  proof (induction cs arbitrary: m0)
    case (Cons a cs)
    have "fmax m0 (g a) \<noteq> NaN" "fle m0 (fmax m0 (g a))" using Cons.prems fmax_ge [of m0 "g a"] by (auto simp: fmax_def)
    then show ?case using Cons.IH [of "fmax m0 (g a)"] Cons.prems fle_trans by fastforce
  qed simp
  then show "m0 \<noteq> NaN \<Longrightarrow> \<forall>c \<in> set cs. g c \<noteq> NaN \<Longrightarrow> fle m0 (fold (\<lambda>c m. fmax m (g c)) cs m0)" .
  show "m0 \<noteq> NaN \<Longrightarrow> \<forall>c \<in> set cs. g c \<noteq> NaN \<Longrightarrow> c \<in> set cs \<Longrightarrow> fle (g c) (fold (\<lambda>c m. fmax m (g c)) cs m0)"
  proof (induction cs arbitrary: m0)
    case (Cons a cs)
    have n: "fmax m0 (g a) \<noteq> NaN" "fle (g a) (fmax m0 (g a))" using Cons.prems fmax_ge [of m0 "g a"] by (auto simp: fmax_def)
    show ?case
    proof (cases "c \<in> set cs")
      case True
      then show ?thesis using Cons.IH [OF n(1)] Cons.prems(2) by simp
    next
      case False
      then have "c = a" using Cons.prems(3) by simp
      then show ?thesis using up [OF n(1), of cs] n(2) Cons.prems(2) fle_trans by fastforce
    qed
  qed simp
qed

lemma fmin_fmax: "fmin a b = fneg (fmax (fneg a) (fneg b))"
  by (cases a; cases b) (auto simp: fmin_def fmax_def)

lemma fold_fmin: "fold (\<lambda>c m. fmin m (g c)) cs m0 = fneg (fold (\<lambda>c m. fmax m (fneg (g c))) cs (fneg m0))"
  by (induction cs arbitrary: m0) (auto simp: fmin_fmax)

lemma fneg_NaN: "fneg a = NaN \<longleftrightarrow> a = NaN"
  by (cases a) auto

lemma fle_fneg: "fle (fneg a) b \<Longrightarrow> fle (fneg b) a"
  by (cases a; cases b) (auto simp: fle_def feq_def)

lemma sort_key_ends:
  assumes "g \<noteq> []"
  shows "hd (sort_key f g) \<in> set g" "last (sort_key f g) \<in> set g"
    and "x \<in> set g \<Longrightarrow> f (hd (sort_key f g)) \<le> f x" "x \<in> set g \<Longrightarrow> f x \<le> f (last (sort_key f g))"
proof -
  have ne: "sort_key f g \<noteq> []" using assms by (metis length_0_conv length_sort)
  show "hd (sort_key f g) \<in> set g" "last (sort_key f g) \<in> set g"
    using hd_in_set [OF ne] last_in_set [OF ne] by simp_all
  have s: "sorted (map f (sort_key f g))" by simp
  show "f (hd (sort_key f g)) \<le> f x" if "x \<in> set g"
    using s ne that unfolding set_sort [of f g, symmetric] by (cases "sort_key f g") auto
  show "f x \<le> f (last (sort_key f g))" if "x \<in> set g"
  proof -
    have "sort_key f g = butlast (sort_key f g) @ [last (sort_key f g)]" using ne by simp
    then have "sorted (map f (butlast (sort_key f g)) @ [f (last (sort_key f g))])" using s by (metis list.simps(8,9) map_append)
    moreover have "x \<in> set (butlast (sort_key f g) @ [last (sort_key f g)])" using that ne by simp
    ultimately show ?thesis by (auto simp: sorted_append)
  qed
qed

lemma merge_bucket_spec:
  assumes "g \<noteq> []"
  shows "(\<exists>c \<in> set g. c_open (merge_bucket st g) = c_open c \<and> (\<forall>d \<in> set g. c_start c \<le> c_start d)) \<and>
     (\<exists>c \<in> set g. c_close (merge_bucket st g) = c_close c \<and> (\<forall>d \<in> set g. c_start d \<le> c_start c)) \<and>
     c_high (merge_bucket st g) \<in> c_high ` set g \<and> c_low (merge_bucket st g) \<in> c_low ` set g \<and>
     ((\<forall>d \<in> set g. c_high d \<noteq> NaN \<and> c_low d \<noteq> NaN) \<longrightarrow>
       (\<forall>d \<in> set g. fle (c_high d) (c_high (merge_bucket st g)) \<and> fle (c_low (merge_bucket st g)) (c_low d)))"
proof -
  let ?s = "sort_key c_start g"
  have ne: "?s \<noteq> []" using assms by (metis length_0_conv length_sort)
  then obtain x xs where x: "?s = x # xs" by (cases ?s) auto
  have S: "set g = insert x (set xs)" using set_sort [of c_start g] unfolding x by simp
  have hi: "c_high (merge_bucket st g) = fold (\<lambda>c m. fmax m (c_high c)) xs (c_high x)"
    and lo: "c_low (merge_bucket st g) = fneg (fold (\<lambda>c m. fmax m (fneg (c_low c))) xs (fneg (c_low x)))"
    by (simp_all add: merge_bucket_def Let_def x fold_fmin)
  have mem: "c_high (merge_bucket st g) \<in> c_high ` set g" "c_low (merge_bucket st g) \<in> c_low ` set g"
    using fold_fmax(1) [of c_high xs "c_high x"] fold_fmax(1) [of "\<lambda>c. fneg (c_low c)" xs "fneg (c_low x)"]
    unfolding hi lo S by auto
  have ext: "fle (c_high d) (c_high (merge_bucket st g)) \<and> fle (c_low (merge_bucket st g)) (c_low d)"
    if nn: "\<forall>d \<in> set g. c_high d \<noteq> NaN \<and> c_low d \<noteq> NaN" and d: "d \<in> set g" for d
  proof -
    have n2: "fneg (c_low x) \<noteq> NaN" "\<forall>c \<in> set xs. fneg (c_low c) \<noteq> NaN" using nn unfolding S by (auto simp: fneg_NaN)
    have n1: "c_high x \<noteq> NaN" "\<forall>c \<in> set xs. c_high c \<noteq> NaN" using nn unfolding S by auto
    show ?thesis
      using fold_fmax(2,3) [OF n1] fold_fmax(2,3) [OF n2] d unfolding hi lo S by (auto intro: fle_fneg)
  qed
  have ends: "c_open (merge_bucket st g) = c_open (hd ?s)" "c_close (merge_bucket st g) = c_close (last ?s)"
    by (simp_all add: merge_bucket_def Let_def)
  show ?thesis unfolding ends using sort_key_ends [OF assms, where f = c_start] mem ext by blast
qed

section \<open>Properties\<close>

text \<open>Only closed candles decide: two hourly series and two daily series that agree on the candles
  closed by now give the same result, whatever the candles still forming hold. The four-hour
  leg, resampled from all hourly candles before it is filtered, is no exception.\<close>

theorem closed_candles_decide:
  assumes "\<forall>c \<in> set hourly \<union> set hourly'. hour_aligned c"
    and "completed hourly 3600 now = completed hourly' 3600 now"
    and "completed daily 86400 now = completed daily' 86400 now"
  shows "evaluate sy hourly daily now config = evaluate sy hourly' daily' now config"
proof -
  have "completed (resample hourly (4 * 3600)) (4 * 3600) now = completed (resample hourly' (4 * 3600)) (4 * 3600) now"
    by (rule resample_four_hours) (use assms in auto)
  note same = evaluate_timeframe_cong [OF timeframe_seconds(1) assms(2)]
    evaluate_timeframe_cong [OF timeframe_seconds(2) this] evaluate_timeframe_cong [OF timeframe_seconds(3) assms(3)]
  show ?thesis unfolding evaluate_def Let_def same ..
qed

text \<open>An alignment is full exactly when all three timeframes have a fresh last closed candle, at
  least as many closed candles as the slow average's period and a strict stack in its
  direction; it then counts as fresh and every timeframe names a candle closed by now.\<close>

theorem full_alignment_iff:
  assumes "evaluate sy hourly daily now (Some cfg) = Inr r"
  shows "(ar_alignment r = FullBullish \<longleftrightarrow> (\<forall>(s, cs) \<in> timeframe_series hourly daily.
      live s (completed cs s now) now cfg \<and> stacked (\<lambda>x y. flt y x) (completed cs s now) cfg)) \<and>
    (ar_alignment r = FullBearish \<longleftrightarrow> (\<forall>(s, cs) \<in> timeframe_series hourly daily.
      live s (completed cs s now) now cfg \<and> stacked flt (completed cs s now) cfg)) \<and>
    (ar_alignment r \<noteq> NotAligned \<longrightarrow> ar_fresh r \<and>
      (\<forall>tf \<in> set TIMEFRAMES. \<exists>t \<le> now. map_of (candle_identity r) tf = Some (Some t)))"
  using assms
proof (cases rule: evaluate_cases)
  case (1 d f h)
  note full = alignment_of_full [of "tf_trend d" "tf_trend f" "tf_trend h"]
  have "ar_fresh r \<and> (\<forall>tf \<in> set TIMEFRAMES. \<exists>t \<le> now. map_of (candle_identity r) tf = Some (Some t))"
    if "ar_alignment r \<noteq> NotAligned"
  proof -
    have "tf_trend d \<in> {Bullish, Bearish}" "tf_trend f \<in> {Bullish, Bearish}" "tf_trend h \<in> {Bullish, Bearish}"
      using that full 1(4) by (cases "ar_alignment r"; simp)+
    note c = directional_close [OF 1(1) this(1)] directional_close [OF 1(2) this(2)] directional_close [OF 1(3) this(3)]
    show ?thesis using c unfolding 1(6) by (auto simp: candle_identity_def TIMEFRAMES_def 1(5))
  qed
  then show ?thesis
    unfolding 1(4) full timeframe_series_def
      evaluate_done_fields(1,2) [OF 1(1)] evaluate_done_fields(1,2) [OF 1(2)] evaluate_done_fields(1,2) [OF 1(3)]
    by (auto simp del: mult_numeral_left_semiring_numeral)
qed

text \<open>Resampling gives one bar for every occupied bucket and no other, in order of time; a bar
  opens with its earliest candle's open, closes with its latest one's close, and its high and
  low are extremes that candles of the bucket reach and none exceeds.\<close>

theorem resample_spec:
  "sorted_wrt (<) (map c_start (resample cs s)) \<and>
   c_start ` set (resample cs s) = (\<lambda>c. bucket_start (c_start c) s) ` set cs \<and>
   (\<forall>b \<in> set (resample cs s). let g = {c \<in> set cs. bucket_start (c_start c) s = c_start b} in
     (\<exists>c \<in> g. c_open b = c_open c \<and> (\<forall>d \<in> g. c_start c \<le> c_start d)) \<and>
     (\<exists>c \<in> g. c_close b = c_close c \<and> (\<forall>d \<in> g. c_start d \<le> c_start c)) \<and>
     c_high b \<in> c_high ` g \<and> c_low b \<in> c_low ` g \<and>
     ((\<forall>d \<in> g. c_high d \<noteq> NaN \<and> c_low d \<noteq> NaN) \<longrightarrow>
       (\<forall>d \<in> g. fle (c_high d) (c_high b) \<and> fle (c_low b) (c_low d))))"
proof (intro conjI ballI)
  let ?b = "\<lambda>c. bucket_start (c_start c) s"
  show "sorted_wrt (<) (map c_start (resample cs s))"
    unfolding resample_alt by (simp add: o_def merge_start)
  show "c_start ` set (resample cs s) = ?b ` set cs"
    unfolding resample_alt by (simp add: image_image merge_start)
  fix b assume "b \<in> set (resample cs s)"
  then obtain st where st: "st \<in> ?b ` set cs" "b = merge_bucket st (filter (\<lambda>c. ?b c = st) cs)"
    unfolding resample_alt by auto
  have g: "{c \<in> set cs. ?b c = c_start b} = set (filter (\<lambda>c. ?b c = st) cs)"
    unfolding st(2) merge_start by simp
  have "filter (\<lambda>c. ?b c = st) cs \<noteq> []" using st(1) by (auto simp: filter_empty_conv)
  from merge_bucket_spec [OF this, of st]
  show "let g = {c \<in> set cs. bucket_start (c_start c) s = c_start b} in
     (\<exists>c \<in> g. c_open b = c_open c \<and> (\<forall>d \<in> g. c_start c \<le> c_start d)) \<and>
     (\<exists>c \<in> g. c_close b = c_close c \<and> (\<forall>d \<in> g. c_start d \<le> c_start c)) \<and>
     c_high b \<in> c_high ` g \<and> c_low b \<in> c_low ` g \<and>
     ((\<forall>d \<in> g. c_high d \<noteq> NaN \<and> c_low d \<noteq> NaN) \<longrightarrow>
       (\<forall>d \<in> g. fle (c_high d) (c_high b) \<and> fle (c_low b) (c_low d)))"
    unfolding g Let_def st(2) [symmetric] .
qed

section \<open>Examples\<close>

text \<open>A rising daily series and its hourly counterpart, with periods small enough to evaluate.\<close>

definition small_config :: trend_config where
  "small_config = default_trend_config\<lparr>tc_ma_type := ''sma'', tc_fast := 2, tc_mid := 3, tc_slow := 4\<rparr>"

definition flat_candle :: "int \<Rightarrow> int \<Rightarrow> candle" where
  "flat_candle start price = \<lparr>c_start = start, c_open = Fin (of_int price), c_high = Fin (of_int price),
     c_low = Fin (of_int price), c_close = Fin (of_int price)\<rparr>"

definition example_hours :: "candle list" where
  "example_hours = map (\<lambda>i. flat_candle ((int i * 4 + 3) * 3600 * 10 ^ 6) (100 + 4 * int i)) [0..<4]"

definition example_days :: "candle list" where
  "example_days = map (\<lambda>i. flat_candle ((int i - 4) * 86400 * 10 ^ 6) (100 + 4 * int i)) [0..<4]"

definition example_now :: int where "example_now = 16 * 3600 * 10 ^ 6"

theorem closed_candles_decide_witness:
  "evaluate ''XAUUSD'' (example_hours @ [flat_candle example_now 1]) example_days example_now (Some small_config) =
   evaluate ''XAUUSD'' example_hours example_days example_now (Some small_config)"
  by (rule closed_candles_decide) code_simp+

lemma evaluate_by_legs:
  assumes "validate_config cfg = Inr ()"
    and "map_res tf_trend (evaluate_timeframe ''1d'' daily now cfg) = Inr d"
    and "map_res tf_trend (evaluate_timeframe ''4h'' (resample hourly (4 * 3600)) now cfg) = Inr f"
    and "map_res tf_trend (evaluate_timeframe ''1h'' hourly now cfg) = Inr h"
  shows "map_res ar_alignment (evaluate sy hourly daily now (Some cfg)) = Inr (alignment_of d f h)"
  using assms by (auto simp: evaluate_def map_res_eq_Inr simp del: mult_numeral_left_semiring_numeral)

lemma example_lists:
  "example_hours = [flat_candle 10800000000 100, flat_candle 25200000000 104, flat_candle 39600000000 108,
     flat_candle 54000000000 112]"
  "example_days = [flat_candle (- 345600000000) 100, flat_candle (- 259200000000) 104,
     flat_candle (- 172800000000) 108, flat_candle (- 86400000000) 112]"
  by (simp_all add: example_hours_def example_days_def upt_rec)

lemma example_buckets:
  "buckets example_hours (4 * 3600) = [(0, [flat_candle 10800000000 100]), (14400000000, [flat_candle 25200000000 104]),
     (28800000000, [flat_candle 39600000000 108]), (43200000000, [flat_candle 54000000000 112])]"
  unfolding example_lists
  by (simp add: buckets_def add_candle_def bucket_start_def epoch_seconds_def flat_candle_def dict_set_def dict_get_def)

lemma example_resampled:
  "resample example_hours (4 * 3600) = [flat_candle 0 100, flat_candle 14400000000 104,
     flat_candle 28800000000 108, flat_candle 43200000000 112]"
  unfolding resample_def example_buckets
  by (simp add: bucket_bar_def merge_bucket_def flat_candle_def dict_get_def)

lemma small_warmup: "warmup_candles small_config = Inr 5"
  by code_simp

lemmas leg_eval = evaluate_timeframe_def timeframe_seconds completed_def evaluate_done_def blank_result_def
  flat_candle_def example_now_def small_warmup [unfolded small_config_def default_trend_config_def, simplified] small_config_def default_trend_config_def moving_average_def sma_def
  last_n_def fsum_def trend_state_def

lemma example_legs:
  "map_res tf_trend (evaluate_timeframe ''1d'' example_days example_now small_config) = Inr Bullish"
  "map_res tf_trend (evaluate_timeframe ''4h'' (resample example_hours (4 * 3600)) example_now small_config) = Inr Bullish"
  "map_res tf_trend (evaluate_timeframe ''1h'' example_hours example_now small_config) = Inr Bullish"
  unfolding example_resampled unfolding example_lists
  by (simp_all add: leg_eval)

lemma example_full:
  "map_res ar_alignment (evaluate ''XAUUSD'' example_hours example_days example_now (Some small_config)) = Inr FullBullish"
  using evaluate_by_legs [OF _ example_legs, of "''XAUUSD''"]
  by (simp add: alignment_of_full validate_config_def small_config_def default_trend_config_def)

theorem full_alignment_iff_witness:
  "\<exists>r. evaluate ''XAUUSD'' example_hours example_days example_now (Some small_config) = Inr r \<and> ar_fresh r \<and>
    stacked (\<lambda>x y. flt y x) (completed example_days 86400 example_now) small_config"
proof -
  obtain r where r: "evaluate ''XAUUSD'' example_hours example_days example_now (Some small_config) = Inr r"
    "ar_alignment r = FullBullish"
    using example_full by (auto simp: map_res_eq_Inr)
  with full_alignment_iff [OF r(1)] show ?thesis by (auto simp: timeframe_series_def)
qed

theorem resample_spec_witness:
  "c_start ` set (resample example_hours (4 * 3600)) = (\<lambda>c. bucket_start (c_start c) (4 * 3600)) ` set example_hours \<and>
   (\<exists>c \<in> set example_hours. c_high (hd (resample example_hours (4 * 3600))) = c_high c)"
proof -
  have ne: "hd (resample example_hours (4 * 3600)) \<in> set (resample example_hours (4 * 3600))"
    unfolding example_resampled by simp
  show ?thesis
    using resample_spec [of example_hours "4 * 3600"] ne unfolding Let_def by (blast intro: sym)
qed

end
