(* ===== verification/Trend_Backtest.thy ===== *)
theory Trend_Backtest
  imports Trend_Alignment
begin

text \<open>
  \<^verbatim>\<open>app/models/trend_backtest.py\<close>: the measured track record of the alignment. Every window picks
  the basis its data supports, replays the live evaluation at each bar close and reduces the
  bars to counts and means. The sentences of reason and note are constructors with the numbers
  they print.

  Shown: candles that close after an instant cannot change a state replayed up to it, and the
  reported counts add up.
\<close>

section \<open>Data\<close>

datatype basis = FullMtf | DailyOnly
datatype bar_state = BullishBar | BearishBar | UnalignedBar

definition WINDOW_DAYS :: "int list" where "WINDOW_DAYS = [90, 60, 30, 14]"
definition FORWARD_HORIZON_SECONDS :: int where "FORWARD_HORIZON_SECONDS = 86400"
definition INTRADAY_MIN_BUCKETS_PER_DAY :: nat where "INTRADAY_MIN_BUCKETS_PER_DAY = 4"

fun alignment_state_of :: "alignment \<Rightarrow> bar_state" where
  "alignment_state_of FullBullish = BullishBar"
| "alignment_state_of FullBearish = BearishBar"
| "alignment_state_of NotAligned = UnalignedBar"

fun trend_state_of :: "trend \<Rightarrow> bar_state" where
  "trend_state_of Bullish = BullishBar"
| "trend_state_of Bearish = BearishBar"
| "trend_state_of Neutral = UnalignedBar"
| "trend_state_of Unavailable = UnalignedBar"

section \<open>What the data supports\<close>

definition count_day :: "int \<Rightarrow> candle \<Rightarrow> (int \<times> nat) list \<Rightarrow> (int \<times> nat) list" where
  "count_day today c per_day =
     (let day = bucket_start (c_start c) 86400 in
      if today \<le> day then per_day else dict_set day (dict_get 0 per_day day + 1) per_day)"

fun newest_run :: "int option \<Rightarrow> (int \<times> nat) list \<Rightarrow> int option" where
  "newest_run start [] = start"
| "newest_run start ((day, n) # rest) =
     (if n < INTRADAY_MIN_BUCKETS_PER_DAY then start else newest_run (Some day) rest)"

definition intraday_since :: "candle list \<Rightarrow> int \<Rightarrow> int option" where
  "intraday_since hourly now =
     (let today = bucket_start now 86400;
          per_day = fold (count_day today) (completed hourly 3600 now) []
      in newest_run None (sort_key (\<lambda>e. - fst e) per_day))"

datatype basis_reason =
    NoIntradayHistory
  | IntradayBeginsInside int int             \<comment> \<open>first intraday day, window in days\<close>
  | LegsTooShort "(string \<times> nat \<times> int) list"  \<comment> \<open>leg, candles, wanted\<close>
  | WindowCovered int int                    \<comment> \<open>first intraday day, window in days\<close>

record basis_choice =
  bc_basis :: basis
  bc_reason :: basis_reason
  bc_intraday_from :: "int option"

definition choose_basis ::
  "int \<Rightarrow> int \<Rightarrow> int option \<Rightarrow> candle list \<Rightarrow> candle list \<Rightarrow> trend_config \<Rightarrow> basis_choice res" where
  "choose_basis window_days window_start intraday_from hourly daily cfg =
     bind_res (warmup_candles cfg) (\<lambda>warm.
       case intraday_from of
         None \<Rightarrow> Inr \<lparr>bc_basis = DailyOnly, bc_reason = NoIntradayHistory, bc_intraday_from = None\<rparr>
       | Some since \<Rightarrow>
           if window_start < since then
             Inr \<lparr>bc_basis = DailyOnly, bc_reason = IntradayBeginsInside since window_days, bc_intraday_from = Some since\<rparr>
           else let usable_hourly = filter (\<lambda>c. since \<le> c_start c) hourly;
                    hourly_ready = length (completed usable_hourly 3600 window_start);
                    four_hour_ready = length (completed (resample usable_hourly (4 * 3600)) (4 * 3600) window_start);
                    daily_ready = length (completed daily 86400 window_start);
                    short = map (\<lambda>(leg, have_n). (leg, have_n, warm)) (filter (\<lambda>(leg, have_n). int have_n < warm)
                      [(''4H'', four_hour_ready), (''1H'', hourly_ready), (''1D'', daily_ready)])
             in if short \<noteq> [] then
                  Inr \<lparr>bc_basis = DailyOnly, bc_reason = LegsTooShort short, bc_intraday_from = Some since\<rparr>
                else Inr \<lparr>bc_basis = FullMtf, bc_reason = WindowCovered since window_days, bc_intraday_from = Some since\<rparr>)"

section \<open>The replay\<close>

record replay_bar =
  rb_close_time :: int
  rb_price :: pyfloat
  rb_state :: bar_state
  rb_forward :: "pyfloat option"

text \<open>A dictionary built from pairs: a later pair of the same key wins.\<close>

definition close_by_close_time :: "candle list \<Rightarrow> int \<Rightarrow> int \<Rightarrow> pyfloat option" where
  "close_by_close_time candles seconds =
     map_of (rev (map (\<lambda>c. (c_start c + seconds * 10 ^ 6, c_close c)) candles))"

definition bar_state_at ::
  "string \<Rightarrow> basis \<Rightarrow> candle list \<Rightarrow> candle list \<Rightarrow> int \<Rightarrow> trend_config \<Rightarrow> bar_state res" where
  "bar_state_at sy b hourly daily close_time cfg =
     (if b = FullMtf then map_res (\<lambda>r. alignment_state_of (ar_alignment r)) (evaluate sy hourly daily close_time (Some cfg))
      else map_res (\<lambda>r. trend_state_of (tf_trend r)) (evaluate_timeframe ''1d'' daily close_time cfg))"

definition forward_change :: "pyfloat option \<Rightarrow> pyfloat \<Rightarrow> pyfloat option" where
  "forward_change future close =
     (case future of
        Some f \<Rightarrow> if flt (Fin 0) close then Some (fmul (fsub (fquot f close) (Fin 1)) (Fin 100)) else None
      | None \<Rightarrow> None)"

definition replay ::
  "string \<Rightarrow> basis \<Rightarrow> candle list \<Rightarrow> candle list \<Rightarrow> int \<Rightarrow> int \<Rightarrow> trend_config \<Rightarrow> replay_bar list res" where
  "replay sy b hourly daily window_start now cfg =
     (let seconds = (if b = FullMtf then 3600 else 86400);
          series = completed (if b = FullMtf then hourly else daily) seconds now;
          forward = close_by_close_time series seconds
      in mapM (\<lambda>c. let close_time = c_start c + seconds * 10 ^ 6 in
           map_res (\<lambda>state. \<lparr>rb_close_time = close_time, rb_price = c_close c, rb_state = state,
               rb_forward = forward_change (forward (close_time + FORWARD_HORIZON_SECONDS * 10 ^ 6)) (c_close c)\<rparr>)
             (bar_state_at sy b hourly daily close_time cfg))
         (filter (\<lambda>c. window_start < c_start c + seconds * 10 ^ 6) series))"

section \<open>Statistics\<close>

definition mean_of :: "pyfloat list \<Rightarrow> pyfloat option" where
  "mean_of values = (if values = [] then None else Some (fquot (fsum values) (rnd (of_nat (length values)))))"

definition hit_rate :: "pyfloat list \<Rightarrow> bool \<Rightarrow> pyfloat option" where
  "hit_rate values bullish =
     (if values = [] then None
      else let hits = length (filter (\<lambda>v. if bullish then flt (Fin 0) v else flt v (Fin 0)) values)
        in Some (rnd (of_nat hits / of_nat (length values))))"

fun count_entries :: "bar_state option \<Rightarrow> bar_state list \<Rightarrow> bar_state \<Rightarrow> nat" where
  "count_entries previous [] target = 0"
| "count_entries previous (state # states) target =
     (if state = target \<and> previous \<noteq> Some target then 1 else 0) + count_entries (Some state) states target"

definition episodes :: "bar_state list \<Rightarrow> bar_state \<Rightarrow> nat" where
  "episodes states target = count_entries None states target"

datatype note_part =
    BasisNote basis basis_reason
  | DailyWarmupShort nat int
  | NothingReplayed
  | ForwardMeasured nat nat
  | TooNewToScore nat
  | DroppedOnHole nat
  | OverlappingSamples
  | CountsNotTrades

definition note_of :: "basis_choice \<Rightarrow> int \<Rightarrow> replay_bar list \<Rightarrow> nat \<Rightarrow> nat \<Rightarrow> note_part list" where
  "note_of choice warm bars samples daily_warmup =
     [BasisNote (bc_basis choice) (bc_reason choice)]
     @ (if int daily_warmup < warm then [DailyWarmupShort daily_warmup warm] else [])
     @ (if bars = [] then [NothingReplayed]
        else let data_end = rb_close_time (last bars);
                 unmeasured = filter (\<lambda>b. rb_forward b = None) bars;
                 past_end = length (filter (\<lambda>b. data_end < rb_close_time b + FORWARD_HORIZON_SECONDS * 10 ^ 6) unmeasured);
                 gaps = length unmeasured - past_end
          in [ForwardMeasured samples (length bars)]
             @ (if past_end \<noteq> 0 then [TooNewToScore past_end] else [])
             @ (if gaps \<noteq> 0 then [DroppedOnHole gaps] else [])
             @ (if bc_basis choice = FullMtf then [OverlappingSamples] else [])
             @ [CountsNotTrades])"

record window_performance =
  wp_symbol :: string
  wp_window_days :: int
  wp_basis :: basis
  wp_evaluated_from :: "int option"
  wp_evaluated_to :: "int option"
  wp_samples :: nat
  wp_bullish_episodes :: nat
  wp_bearish_episodes :: nat
  wp_bullish_bars :: nat
  wp_bearish_bars :: nat
  wp_unaligned_bars :: nat
  wp_fwd_bullish :: "pyfloat option"
  wp_fwd_bearish :: "pyfloat option"
  wp_fwd_baseline :: "pyfloat option"
  wp_hit_bullish :: "pyfloat option"
  wp_hit_bearish :: "pyfloat option"
  wp_note :: "note_part list"
  wp_replayed_bars :: nat

definition returns_in :: "replay_bar list \<Rightarrow> bar_state \<Rightarrow> pyfloat list" where
  "returns_in measured state = map (\<lambda>b. the (rb_forward b)) (filter (\<lambda>b. rb_state b = state) measured)"

definition measure_window ::
  "string \<Rightarrow> int \<Rightarrow> candle list \<Rightarrow> candle list \<Rightarrow> int \<Rightarrow> trend_config \<Rightarrow> window_performance res" where
  "measure_window sy window_days hourly daily now cfg =
     (let window_start = now - window_days * day_us in
      bind_res (choose_basis window_days window_start (intraday_since hourly now) hourly daily cfg) (\<lambda>choice.
      bind_res (replay sy (bc_basis choice)
          (if bc_basis choice = FullMtf
           then filter (\<lambda>c. case bc_intraday_from choice of None \<Rightarrow> True | Some since \<Rightarrow> since \<le> c_start c) hourly
           else hourly) daily window_start now cfg) (\<lambda>bars.
      bind_res (warmup_candles cfg) (\<lambda>warm.
        let measured = filter (\<lambda>b. rb_forward b \<noteq> None) bars;
            states = map rb_state bars;
            up = returns_in measured BullishBar;
            down = returns_in measured BearishBar
        in Inr \<lparr>wp_symbol = sy, wp_window_days = window_days, wp_basis = bc_basis choice,
             wp_evaluated_from = (if bars \<noteq> [] then Some (rb_close_time (hd bars)) else None),
             wp_evaluated_to = (if bars \<noteq> [] then Some (rb_close_time (last bars)) else None),
             wp_samples = length measured,
             wp_bullish_episodes = episodes states BullishBar, wp_bearish_episodes = episodes states BearishBar,
             wp_bullish_bars = length up, wp_bearish_bars = length down,
             wp_unaligned_bars = length (returns_in measured UnalignedBar),
             wp_fwd_bullish = mean_of up, wp_fwd_bearish = mean_of down,
             wp_fwd_baseline = mean_of (map (\<lambda>b. the (rb_forward b)) measured),
             wp_hit_bullish = hit_rate up True, wp_hit_bearish = hit_rate down False,
             wp_note = note_of choice warm bars (length measured) (length (completed daily 86400 window_start)),
             wp_replayed_bars = length bars\<rparr>))))"

definition backtest ::
  "string \<Rightarrow> candle list \<Rightarrow> candle list \<Rightarrow> int \<Rightarrow> trend_config option \<Rightarrow> int list \<Rightarrow> window_performance list res" where
  "backtest sy hourly daily now config windows =
     (let cfg = (case config of None \<Rightarrow> default_trend_config | Some c \<Rightarrow> c) in
      bind_res (validate_config cfg) (\<lambda>_.
        mapM (\<lambda>days. measure_window sy days hourly daily now cfg) (rev (sort (remdups windows)))))"

section \<open>No look-ahead\<close>

lemma completed_earlier: "t \<le> T \<Longrightarrow> completed (completed cs s T) s t = completed cs s t"
  by (simp add: completed_def) (rule filter_cong; auto)

lemma agree_earlier:
  "completed cs s T = completed cs' s T \<Longrightarrow> t \<le> T \<Longrightarrow> completed cs s t = completed cs' s t"
  using completed_earlier by metis

lemma bar_state_agree:
  assumes "\<forall>c \<in> set hourly \<union> set hourly'. hour_aligned c"
    and "completed hourly 3600 t = completed hourly' 3600 t" "completed daily 86400 t = completed daily' 86400 t"
  shows "bar_state_at sy b hourly daily t cfg = bar_state_at sy b hourly' daily' t cfg"
proof -
  have "completed (resample hourly (4 * 3600)) (4 * 3600) t = completed (resample hourly' (4 * 3600)) (4 * 3600) t"
    by (rule resample_four_hours) (use assms in auto)
  note same = evaluate_timeframe_cong [OF timeframe_seconds(1) assms(2)]
    evaluate_timeframe_cong [OF timeframe_seconds(2) this] evaluate_timeframe_cong [OF timeframe_seconds(3) assms(3)]
  show ?thesis unfolding bar_state_at_def evaluate_def Let_def same ..
qed

text \<open>What a replayed bar says, apart from the forward return it is scored by.\<close>

definition said :: "replay_bar \<Rightarrow> int \<times> pyfloat \<times> bar_state res" where
  "said b = (rb_close_time b, rb_price b, Inr (rb_state b))"

lemma replay_said:
  assumes "replay sy b hourly daily window_start now cfg = Inr bars"
    and "s = (if b = FullMtf then 3600 else 86400)" "cs = (if b = FullMtf then hourly else daily)"
  shows "map said bars =
    map (\<lambda>c. (c_start c + s * 10 ^ 6, c_close c, bar_state_at sy b hourly daily (c_start c + s * 10 ^ 6) cfg))
      (filter (\<lambda>c. window_start < c_start c + s * 10 ^ 6) (completed cs s now))"
proof -
  have "list_all2 (\<lambda>c bar. said bar =
      (c_start c + s * 10 ^ 6, c_close c, bar_state_at sy b hourly daily (c_start c + s * 10 ^ 6) cfg))
    (filter (\<lambda>c. window_start < c_start c + s * 10 ^ 6) (completed cs s now)) bars"
    using assms(1) unfolding replay_def Let_def mapM_eq_Inr assms(2,3)
    by (rule list_all2_mono) (auto simp: map_res_eq_Inr said_def)
  then show ?thesis by (induction rule: list_all2_induct) simp_all
qed

lemma filter_said: "filter (\<lambda>x. fst x \<le> T) (map said bars) = map said (filter (\<lambda>b. rb_close_time b \<le> T) bars)"
  by (simp add: filter_map o_def said_def)

lemma said_parts:
  "map rb_state xs = map (\<lambda>x. projr (snd (snd x))) (map said xs)" "map rb_close_time xs = map fst (map said xs)"
  by (simp_all add: said_def)

lemma said_inj:
  assumes "map said xs = map said ys"
  shows "map rb_state xs = map rb_state ys \<and> map rb_close_time xs = map rb_close_time ys"
  unfolding said_parts [of xs] said_parts [of ys] assms by simp

lemma completed_upto:
  assumes "T \<le> now"
  shows "filter (\<lambda>c. c_start c + s * 10 ^ 6 \<le> T) (filter P (completed cs s now)) = filter P (completed cs s T)"
  unfolding completed_def filter_filter using assms by (intro filter_cong) auto

lemma replay_upto:
  assumes "replay sy b hourly daily window_start now cfg = Inr bars" and "T \<le> now"
    and "s = (if b = FullMtf then 3600 else 86400)" "cs = (if b = FullMtf then hourly else daily)"
  shows "map said (filter (\<lambda>b. rb_close_time b \<le> T) bars) =
    map (\<lambda>c. (c_start c + s * 10 ^ 6, c_close c, bar_state_at sy b hourly daily (c_start c + s * 10 ^ 6) cfg))
      (filter (\<lambda>c. window_start < c_start c + s * 10 ^ 6) (completed cs s T))"
  unfolding filter_said [symmetric] replay_said [OF assms(1,3,4)]
  by (simp only: filter_map o_def fst_conv completed_upto [OF assms(2)])

section \<open>Counting\<close>

lemma three_states:
  "length (filter (\<lambda>b. rb_state b = BullishBar) bs) + length (filter (\<lambda>b. rb_state b = BearishBar) bs)
     + length (filter (\<lambda>b. rb_state b = UnalignedBar) bs) = length bs"
proof (induction bs)
  case (Cons a bs)
  then show ?case by (cases "rb_state a") auto
qed simp

lemma count_entries_le: "count_entries p states t \<le> length (filter (\<lambda>s. s = t) states)"
  by (induction p states t rule: count_entries.induct) auto

lemma two_targets: "t \<noteq> u \<Longrightarrow> length (filter (\<lambda>s. s = t) ss) + length (filter (\<lambda>s. s = u) ss) \<le> length ss"
  by (induction ss) auto

lemma hit_rate_unit:
  assumes "hit_rate vs up = Some r"
  shows "fle (Fin 0) r \<and> fle r (Fin 1)"
proof -
  let ?h = "length (filter (\<lambda>v. if up then flt (Fin 0) v else flt v (Fin 0)) vs)"
  have ne: "vs \<noteq> []" using assms by (auto simp: hit_rate_def)
  have "Some (rnd (of_nat ?h / of_nat (length vs))) = Some r"
    using assms unfolding hit_rate_def Let_def if_not_P [OF ne] .
  then have r: "r = rnd (of_nat ?h / of_nat (length vs))" "vs \<noteq> []" using ne by (simp_all only: option.inject simp_thms)
  have "?h \<le> length vs" by simp
  then have "(of_nat ?h :: rat) \<le> of_nat (length vs)" by (simp only: of_nat_le_iff)
  then have "(of_nat ?h / of_nat (length vs) :: rat) \<le> of_int 1" using r(2) by (simp add: divide_le_eq)
  from rnd_le_int [OF this] show ?thesis unfolding r(1) by (simp add: rnd_nonneg)
qed

text \<open>An entry is a bar in the state whose predecessor is not.\<close>

lemma count_entries_spec:
  "count_entries p states t = card {i. i < length states \<and> states ! i = t \<and>
     (if i = 0 then p \<noteq> Some t else states ! (i - 1) \<noteq> t)}"
proof (induction p states t rule: count_entries.induct)
  case (2 p s ss t)
  let ?A = "{i. i < length ss \<and> ss ! i = t \<and> (if i = 0 then Some s \<noteq> Some t else ss ! (i - 1) \<noteq> t)}"
  let ?B = "{i. i < length (s # ss) \<and> (s # ss) ! i = t \<and> (if i = 0 then p \<noteq> Some t else (s # ss) ! (i - 1) \<noteq> t)}"
  have B: "?B = (if s = t \<and> p \<noteq> Some t then {0} else {}) \<union> Suc ` ?A"
  proof (rule set_eqI)
    fix i show "i \<in> ?B \<longleftrightarrow> i \<in> (if s = t \<and> p \<noteq> Some t then {0} else {}) \<union> Suc ` ?A"
      by (cases i) (auto simp: nth_Cons' image_iff split: if_splits)
  qed
  have "card (Suc ` ?A) = card ?A" by (rule card_image) simp
  then show ?case unfolding B count_entries.simps 2 by (subst card_Un_disjoint) auto
qed simp

section \<open>Nothing raises but the configuration\<close>

lemma is_ok_bind: "is_ok (bind_res m f) \<longleftrightarrow> is_ok m \<and> (\<forall>x. m = Inr x \<longrightarrow> is_ok (f x))"
  by (cases m) auto

lemma is_ok_map: "is_ok (map_res f m) = is_ok m"
  by (cases m) auto

lemma is_ok_mapM: "(\<And>x. x \<in> set xs \<Longrightarrow> is_ok (f x)) \<Longrightarrow> is_ok (mapM f xs)"
  by (induction xs) (auto simp: is_ok_bind is_ok_map)

lemma evaluate_done_total: "is_ok (warmup_candles cfg) \<Longrightarrow> is_ok (evaluate_done tf s done now cfg)"
  by (simp add: evaluate_done_def Let_def is_ok_bind)

lemma evaluate_timeframe_total:
  "is_ok (warmup_candles cfg) \<Longrightarrow> map_of TIMEFRAME_SECONDS tf = Some s \<Longrightarrow> is_ok (evaluate_timeframe tf cs now cfg)"
  by (simp add: evaluate_timeframe_def evaluate_done_total)

lemma evaluate_total:
  "validate_config cfg = Inr () \<Longrightarrow> is_ok (warmup_candles cfg) \<Longrightarrow> is_ok (evaluate sy hourly daily now (Some cfg))"
  by (simp add: evaluate_def is_ok_bind evaluate_timeframe_total [OF _ timeframe_seconds(1)]
    evaluate_timeframe_total [OF _ timeframe_seconds(2)] evaluate_timeframe_total [OF _ timeframe_seconds(3)])

lemma bar_state_total:
  "validate_config cfg = Inr () \<Longrightarrow> is_ok (warmup_candles cfg) \<Longrightarrow> is_ok (bar_state_at sy b hourly daily t cfg)"
  by (simp add: bar_state_at_def is_ok_map evaluate_total evaluate_timeframe_total [OF _ timeframe_seconds(3)])

lemma replay_total:
  "validate_config cfg = Inr () \<Longrightarrow> is_ok (warmup_candles cfg) \<Longrightarrow> is_ok (replay sy b hourly daily ws now cfg)"
  unfolding replay_def Let_def by (rule is_ok_mapM) (simp add: is_ok_map bar_state_total)

lemma choose_basis_total: "is_ok (warmup_candles cfg) \<Longrightarrow> is_ok (choose_basis n ws since hourly daily cfg)"
  by (simp add: choose_basis_def is_ok_bind Let_def split: option.split)

lemma measure_window_total:
  "validate_config cfg = Inr () \<Longrightarrow> is_ok (warmup_candles cfg) \<Longrightarrow> is_ok (measure_window sy n hourly daily now cfg)"
  unfolding measure_window_def Let_def is_ok_bind by (simp add: choose_basis_total replay_total)

section \<open>Properties\<close>

text \<open>C13: The replay does not look ahead: two candle histories that agree on what had closed by T
  replay to the same bars, with the same state at each, up to T, whatever came after and whenever
  each replay was run.\<close>

theorem replay_no_lookahead:
  assumes "\<forall>c \<in> set hourly \<union> set hourly'. hour_aligned c"
    and "completed hourly 3600 T = completed hourly' 3600 T" "completed daily 86400 T = completed daily' 86400 T"
    and "T \<le> now" "T \<le> now'"
    and "replay sy b hourly daily window_start now cfg = Inr bars"
    and "replay sy b hourly' daily' window_start now' cfg = Inr bars'"
  shows "map rb_close_time (filter (\<lambda>x. rb_close_time x \<le> T) bars) =
      map rb_close_time (filter (\<lambda>x. rb_close_time x \<le> T) bars') \<and>
    map rb_state (filter (\<lambda>x. rb_close_time x \<le> T) bars) = map rb_state (filter (\<lambda>x. rb_close_time x \<le> T) bars')"
proof -
  let ?s = "if b = FullMtf then 3600 else 86400 :: int"
  have cs: "completed (if b = FullMtf then hourly else daily) ?s T = completed (if b = FullMtf then hourly' else daily') ?s T"
    using assms(2,3) by simp
  have state: "bar_state_at sy b hourly daily t cfg = bar_state_at sy b hourly' daily' t cfg" if "t \<le> T" for t
    by (rule bar_state_agree [OF assms(1) agree_earlier [OF assms(2) that] agree_earlier [OF assms(3) that]])
  have "map said (filter (\<lambda>x. rb_close_time x \<le> T) bars) = map said (filter (\<lambda>x. rb_close_time x \<le> T) bars')"
    unfolding replay_upto [OF assms(6,4) refl refl] replay_upto [OF assms(7,5) refl refl] cs
  proof (rule map_cong [OF refl])
    fix c assume "c \<in> set (filter (\<lambda>c. window_start < c_start c + ?s * 10 ^ 6)
        (completed (if b = FullMtf then hourly' else daily') ?s T))"
    then have "c_start c + ?s * 10 ^ 6 \<le> T" unfolding completed_def set_filter by blast
    from state [OF this] show "(c_start c + ?s * 10 ^ 6, c_close c, bar_state_at sy b hourly daily (c_start c + ?s * 10 ^ 6) cfg) =
        (c_start c + ?s * 10 ^ 6, c_close c, bar_state_at sy b hourly' daily' (c_start c + ?s * 10 ^ 6) cfg)"
      by (simp only:)
  qed
  then show ?thesis using said_inj by blast
qed

text \<open>The figures of a window add up: the bars of the three states are the scored bars, of which
  there are at most as many as replayed; the episodes of both directions are at most the bars
  replayed; a hit rate lies in 0..1 and is absent exactly when its state has no scored bar.\<close>

theorem window_counts_add_up:
  assumes "measure_window sy days hourly daily now cfg = Inr w"
  shows "wp_bullish_bars w + wp_bearish_bars w + wp_unaligned_bars w = wp_samples w \<and>
    wp_samples w \<le> wp_replayed_bars w \<and>
    wp_bullish_episodes w + wp_bearish_episodes w \<le> wp_replayed_bars w \<and>
    (wp_hit_bullish w = None \<longleftrightarrow> wp_bullish_bars w = 0) \<and> (wp_hit_bearish w = None \<longleftrightarrow> wp_bearish_bars w = 0) \<and>
    (\<forall>r. wp_hit_bullish w = Some r \<or> wp_hit_bearish w = Some r \<longrightarrow> fle (Fin 0) r \<and> fle r (Fin 1))"
proof -
  obtain bars :: "replay_bar list" and measured up down where
    m: "measured = filter (\<lambda>b. rb_forward b \<noteq> None) bars" and
    ud: "up = returns_in measured BullishBar" "down = returns_in measured BearishBar" and
    w: "wp_samples w = length measured" "wp_replayed_bars w = length bars"
      "wp_bullish_bars w = length up" "wp_bearish_bars w = length down"
      "wp_unaligned_bars w = length (returns_in measured UnalignedBar)"
      "wp_bullish_episodes w = episodes (map rb_state bars) BullishBar"
      "wp_bearish_episodes w = episodes (map rb_state bars) BearishBar"
      "wp_hit_bullish w = hit_rate up True" "wp_hit_bearish w = hit_rate down False"
    using assms unfolding measure_window_def Let_def by (auto simp: bind_res_eq_Inr)
  have "wp_bullish_bars w + wp_bearish_bars w + wp_unaligned_bars w = wp_samples w"
    unfolding w ud returns_in_def length_map by (rule three_states)
  moreover have "wp_samples w \<le> wp_replayed_bars w" unfolding w m by simp
  moreover have "wp_bullish_episodes w + wp_bearish_episodes w \<le> wp_replayed_bars w"
    using count_entries_le [of None "map rb_state bars" BullishBar] count_entries_le [of None "map rb_state bars" BearishBar]
      two_targets [of BullishBar BearishBar "map rb_state bars"]
    unfolding w episodes_def by simp
  moreover have "wp_hit_bullish w = None \<longleftrightarrow> wp_bullish_bars w = 0" "wp_hit_bearish w = None \<longleftrightarrow> wp_bearish_bars w = 0"
    unfolding w by (simp_all add: hit_rate_def Let_def)
  ultimately show ?thesis using hit_rate_unit unfolding w by blast
qed

section \<open>Examples\<close>

lemma example_aligned: "\<forall>c \<in> set example_hours. hour_aligned c"
  by code_simp

lemma small_valid: "validate_config small_config = Inr ()" "is_ok (warmup_candles small_config)"
  by (simp_all add: small_warmup) (simp add: validate_config_def small_config_def default_trend_config_def)

lemma replay_example:
  "is_ok (replay ''XAUUSD'' DailyOnly example_hours example_days (- 86400 * 10 ^ 6) example_now small_config)"
  "is_ok (replay ''XAUUSD'' DailyOnly example_hours (example_days @ [flat_candle 0 50]) (- 86400 * 10 ^ 6) (86400 * 10 ^ 6) small_config)"
  by (rule replay_total [OF small_valid])+

theorem replay_no_lookahead_witness:
  "\<exists>bars bars'. replay ''XAUUSD'' DailyOnly example_hours example_days (- 86400 * 10 ^ 6) example_now small_config = Inr bars \<and>
    replay ''XAUUSD'' DailyOnly example_hours (example_days @ [flat_candle 0 50]) (- 86400 * 10 ^ 6) (86400 * 10 ^ 6) small_config = Inr bars' \<and>
    map rb_state (filter (\<lambda>x. rb_close_time x \<le> example_now) bars) =
    map rb_state (filter (\<lambda>x. rb_close_time x \<le> example_now) bars')"
proof -
  obtain bars bars' where r:
    "replay ''XAUUSD'' DailyOnly example_hours example_days (- 86400 * 10 ^ 6) example_now small_config = Inr bars"
    "replay ''XAUUSD'' DailyOnly example_hours (example_days @ [flat_candle 0 50]) (- 86400 * 10 ^ 6) (86400 * 10 ^ 6) small_config = Inr bars'"
    using replay_example by (auto simp: is_ok_def split: sum.splits)
  have h: "\<forall>c \<in> set example_hours \<union> set example_hours. hour_aligned c" using example_aligned by blast
  have d: "completed example_days 86400 example_now = completed (example_days @ [flat_candle 0 50]) 86400 example_now"
    by code_simp
  have t: "example_now \<le> 86400 * 10 ^ 6" by code_simp
  from replay_no_lookahead [OF h refl d order.refl t r] r show ?thesis by blast
qed

lemma window_example:
  "is_ok (measure_window ''XAUUSD'' 14 example_hours example_days example_now small_config)"
  by (rule measure_window_total [OF small_valid])

theorem window_counts_add_up_witness:
  "\<exists>w. measure_window ''XAUUSD'' 14 example_hours example_days example_now small_config = Inr w \<and>
    wp_bullish_bars w + wp_bearish_bars w + wp_unaligned_bars w = wp_samples w"
proof -
  obtain w where "measure_window ''XAUUSD'' 14 example_hours example_days example_now small_config = Inr w"
    using window_example by (auto simp: is_ok_def split: sum.splits)
  with window_counts_add_up [OF this] show ?thesis by blast
qed

end
