(* ===== verification/Trend_Job.thy ===== *)
theory Trend_Job
  imports Trend_Backtest Universe
begin

text \<open>
  \<^verbatim>\<open>app/jobs/trend_alignment.py\<close>: the scheduled pass over the supported symbols. Candles are
  aggregated from the stored prices, the alignment is evaluated, an entry into a full alignment
  becomes an event row and a row per subscriber, the state row is upserted, and the track record
  is refreshed on the side. A table is the list of its rows in the order of their ids.

  Shown: over every run of passes, price writes and subscription changes the events keep their
  unique identity, are full alignments on candles closed when they occurred, and every alert
  belongs to one event and one subscription; a repeated evaluation is silent.
\<close>

section \<open>Candles from prices\<close>

definition BUCKET_SLACK :: int where "BUCKET_SLACK = 4"
definition HOURLY_PER_4H :: int where "HOURLY_PER_4H = 4"
definition SCAN_SLACK :: int where "SCAN_SLACK = 3"
definition TREND_ALERT_TYPE :: string where "TREND_ALERT_TYPE = ''trend_alignment''"

text \<open>\<^verbatim>\<open>date_trunc\<close> in a UTC session.\<close>

definition date_trunc :: "int \<Rightarrow> int \<Rightarrow> int" where
  "date_trunc seconds t = t - t mod (seconds * 10 ^ 6)"

definition tick_bar :: "int \<Rightarrow> price_row list \<Rightarrow> int \<Rightarrow> candle" where
  "tick_bar seconds ticks bucket =
     (let group = sort_key p_observed_at (filter (\<lambda>r. date_trunc seconds (p_observed_at r) = bucket) ticks) in
      \<lparr>c_start = bucket, c_open = p_value (hd group),
       c_high = fold (\<lambda>r m. fmax m (p_value r)) (tl group) (p_value (hd group)),
       c_low = fold (\<lambda>r m. fmin m (p_value r)) (tl group) (p_value (hd group)),
       c_close = p_value (last group)\<rparr>)"

definition load_candles :: "price_row list \<Rightarrow> string \<Rightarrow> int \<Rightarrow> int \<Rightarrow> int \<Rightarrow> candle list" where
  "load_candles table sy seconds limit now =
     (let since = now - seconds * limit * SCAN_SLACK * 10 ^ 6;
          ticks = filter (\<lambda>r. p_symbol r = sy \<and> p_quality r = ''ok'' \<and> since \<le> p_observed_at r \<and> p_observed_at r \<le> now) table
      in map (tick_bar seconds ticks)
           (last_n (nat limit) (sort (remdups (map (\<lambda>r. date_trunc seconds (p_observed_at r)) ticks)))))"

definition bucket_limits :: "trend_config \<Rightarrow> (int \<times> int) res" where
  "bucket_limits cfg = map_res (\<lambda>w. let warm = w + BUCKET_SLACK in (warm * HOURLY_PER_4H, warm)) (warmup_candles cfg)"

definition backtest_bucket_limits :: "trend_config \<Rightarrow> (int \<times> int) res" where
  "backtest_bucket_limits cfg = map_res (\<lambda>w. let warm = w + BUCKET_SLACK; longest = Max (set WINDOW_DAYS) in
     (warm * HOURLY_PER_4H + longest * 24, warm + longest)) (warmup_candles cfg)"

section \<open>Rows\<close>

record state_row =
  st_symbol :: string
  st_alignment :: alignment
  st_previous :: "alignment option"
  st_timeframes :: "(string \<times> timeframe_result) list"
  st_ma_type :: string
  st_periods :: "int \<times> int \<times> int"
  st_fresh :: bool
  st_closes :: "int option \<times> int option \<times> int option"   \<comment> \<open>1d, 4h, 1h\<close>
  st_last_bullish :: "int option"
  st_last_bearish :: "int option"
  st_version :: int
  st_calculated_at :: int
  st_updated_at :: int

record event_row =
  ev_id :: int
  ev_symbol :: string
  ev_alignment :: alignment
  ev_previous :: "alignment option"
  ev_occurred_at :: int
  ev_closes :: "int \<times> int \<times> int"
  ev_timeframes :: "(string \<times> timeframe_result) list"
  ev_ma_type :: string
  ev_alert_event :: "int option"

record subscription =
  sub_id :: int
  sub_user :: int
  sub_type :: string
  sub_enabled :: bool
  sub_last_triggered :: "int option"

record alert_row =
  al_id :: int
  al_alert :: int
  al_user :: int
  al_at :: int
  al_result :: alignment_result
  al_event :: int

record trend_db =
  td_prices :: "price_row list"
  td_states :: "state_row list"
  td_events :: "event_row list"
  td_subs :: "subscription list"
  td_alert_events :: "alert_row list"
  td_performance :: "((string \<times> int) \<times> window_performance) list"
  td_next_event :: int
  td_next_alert :: int

section \<open>Persistence\<close>

definition stored_state :: "trend_db \<Rightarrow> string \<Rightarrow> state_row option" where
  "stored_state db sy = List.find (\<lambda>r. st_symbol r = sy) (td_states db)"

definition result_closes :: "alignment_result \<Rightarrow> int option \<times> int option \<times> int option" where
  "result_closes r = (let close = (\<lambda>tf. Option.bind (map_of (ar_timeframes r) tf) tf_close_time) in
     (close ''1d'', close ''4h'', close ''1h''))"

definition next_state ::
  "alignment_result \<Rightarrow> trend_config \<Rightarrow> state_row option \<Rightarrow> int option \<Rightarrow> int \<Rightarrow> state_row" where
  "next_state r cfg stored alerted_at wall =
     (let changed = (case stored of None \<Rightarrow> True | Some s \<Rightarrow> st_alignment s \<noteq> ar_alignment r);
          previous = (case stored of None \<Rightarrow> None
            | Some s \<Rightarrow> if changed then Some (st_alignment s) else st_previous s);
          version = max 1 ((case stored of None \<Rightarrow> 0 | Some s \<Rightarrow> st_version s) + (if changed then 1 else 0))
      in \<lparr>st_symbol = ar_symbol r, st_alignment = ar_alignment r, st_previous = previous,
          st_timeframes = ar_timeframes r, st_ma_type = tc_ma_type cfg,
          st_periods = (tc_fast cfg, tc_mid cfg, tc_slow cfg), st_fresh = ar_fresh r, st_closes = result_closes r,
          st_last_bullish = (if alerted_at \<noteq> None \<and> ar_alignment r = FullBullish then alerted_at
             else Option.bind stored st_last_bullish),
          st_last_bearish = (if alerted_at \<noteq> None \<and> ar_alignment r \<noteq> FullBullish then alerted_at
             else Option.bind stored st_last_bearish),
          st_version = version, st_calculated_at = ar_calculated_at r, st_updated_at = wall\<rparr>)"

definition put_state :: "state_row \<Rightarrow> state_row list \<Rightarrow> state_row list" where
  "put_state row table =
     (if \<exists>r \<in> set table. st_symbol r = st_symbol row
      then map (\<lambda>r. if st_symbol r = st_symbol row then row else r) table else table @ [row])"

definition upsert_state ::
  "alignment_result \<Rightarrow> trend_config \<Rightarrow> state_row option \<Rightarrow> int option \<Rightarrow> int \<Rightarrow> trend_db \<Rightarrow> trend_db" where
  "upsert_state r cfg stored alerted_at wall db =
     db\<lparr>td_states := put_state (next_state r cfg stored alerted_at wall) (td_states db)\<rparr>"

text \<open>The unique index \<^verbatim>\<open>uq_trend_alignment_event_identity\<close>.\<close>

definition event_identity :: "event_row \<Rightarrow> string \<times> alignment \<times> int \<times> int \<times> int" where
  "event_identity e = (ev_symbol e, ev_alignment e, ev_closes e)"

definition event_of ::
  "alignment_result \<Rightarrow> trend_config \<Rightarrow> alignment option \<Rightarrow> int \<times> int \<times> int \<Rightarrow> int \<Rightarrow> event_row" where
  "event_of r cfg previous closes new_id =
     \<lparr>ev_id = new_id, ev_symbol = ar_symbol r, ev_alignment = ar_alignment r,
      ev_previous = previous, ev_occurred_at = ar_calculated_at r, ev_closes = closes,
      ev_timeframes = ar_timeframes r, ev_ma_type = tc_ma_type cfg, ev_alert_event = None\<rparr>"

definition insert_event ::
  "alignment_result \<Rightarrow> trend_config \<Rightarrow> alignment option \<Rightarrow> int \<times> int \<times> int \<Rightarrow> trend_db \<Rightarrow> int option \<times> trend_db" where
  "insert_event r cfg previous closes db =
     (let row = event_of r cfg previous closes (td_next_event db)
      in if event_identity row \<in> event_identity ` set (td_events db) then (None, db)
         else (Some (td_next_event db),
           db\<lparr>td_events := td_events db @ [row], td_next_event := td_next_event db + 1\<rparr>))"

definition subscribers :: "trend_db \<Rightarrow> subscription list" where
  "subscribers db = sort_key sub_id (filter (\<lambda>s. sub_enabled s \<and> sub_type s = TREND_ALERT_TYPE) (td_subs db))"

text \<open>One alert row per subscriber, and the subscription's last trigger.\<close>

definition notify :: "alignment_result \<Rightarrow> int \<Rightarrow> int \<Rightarrow> subscription \<Rightarrow> int option \<times> trend_db \<Rightarrow> int option \<times> trend_db" where
  "notify r event_id now s acc =
     (case acc of (first_id, db) \<Rightarrow>
       (if first_id = None then Some (td_next_alert db) else first_id,
        db\<lparr>td_alert_events := td_alert_events db @ [\<lparr>al_id = td_next_alert db, al_alert = sub_id s, al_user = sub_user s,
              al_at = now, al_result = r, al_event = event_id\<rparr>],
           td_next_alert := td_next_alert db + 1,
           td_subs := map (\<lambda>x. if sub_id x = sub_id s then x\<lparr>sub_last_triggered := Some now\<rparr> else x) (td_subs db)\<rparr>))"

definition write_alert_events :: "alignment_result \<Rightarrow> int \<Rightarrow> int \<Rightarrow> trend_db \<Rightarrow> int option \<times> trend_db" where
  "write_alert_events r event_id now db = fold (notify r event_id now) (subscribers db) (None, db)"

definition link_event :: "int \<Rightarrow> int \<Rightarrow> trend_db \<Rightarrow> trend_db" where
  "link_event event_id alert_id db =
     db\<lparr>td_events := map (\<lambda>e. if ev_id e = event_id then e\<lparr>ev_alert_event := Some alert_id\<rparr> else e) (td_events db)\<rparr>"

section \<open>The track record\<close>

definition upsert_performance :: "window_performance list \<Rightarrow> trend_db \<Rightarrow> trend_db" where
  "upsert_performance rows db =
     db\<lparr>td_performance := fold (\<lambda>w. dict_set (wp_symbol w, wp_window_days w) w) rows (td_performance db)\<rparr>"

definition refresh_performance ::
  "string \<Rightarrow> trend_config \<Rightarrow> int \<Rightarrow> trend_db \<Rightarrow> (window_performance list \<times> trend_db) res" where
  "refresh_performance sy cfg now db =
     bind_res (backtest_bucket_limits cfg) (\<lambda>(hourly_limit, daily_limit).
       map_res (\<lambda>rows. (rows, upsert_performance rows db))
         (backtest sy (load_candles (td_prices db) sy 3600 hourly_limit now)
           (load_candles (td_prices db) sy 86400 daily_limit now) now (Some cfg) WINDOW_DAYS))"

section \<open>One symbol\<close>

record symbol_outcome =
  so_symbol :: string
  so_alignment :: alignment
  so_fresh :: bool
  so_hourly_candles :: nat
  so_daily_candles :: nat
  so_identity :: "(string \<times> int option) list"
  so_previous :: "alignment option"
  so_event :: "int option"
  so_alert :: "int option"
  so_performance :: "window_performance list"
  so_performance_error :: "py_error option"

text \<open>Alerts for a new event. \<open>alerts_work\<close> is false when writing them raises: the savepoint is rolled
  back and the event stays.\<close>

fun announce :: "alignment_result \<Rightarrow> int \<Rightarrow> bool \<Rightarrow> int option \<times> trend_db \<Rightarrow> int option \<times> int option \<times> trend_db" where
  "announce r now alerts_work (None, db) = (None, None, db)"
| "announce r now alerts_work (Some eid, db) =
     (let (alert_id, db2) = (if alerts_work then write_alert_events r eid now db else (None, db)) in
      (Some eid, alert_id, case alert_id of None \<Rightarrow> db2 | Some aid \<Rightarrow> link_event eid aid db2))"

text \<open>The transition: an entry into a full alignment with three closed candles.\<close>

definition record_transition ::
  "alignment_result \<Rightarrow> trend_config \<Rightarrow> int \<Rightarrow> bool \<Rightarrow> trend_db \<Rightarrow> int option \<times> int option \<times> trend_db" where
  "record_transition r cfg now alerts_work db =
     (let previous = map_option st_alignment (stored_state db (ar_symbol r)) in
      announce r now alerts_work
        (if ar_alignment r \<in> {FullBullish, FullBearish} \<and> previous \<noteq> Some (ar_alignment r) then
           (case result_closes r of
              (Some d, Some f, Some h) \<Rightarrow> insert_event r cfg previous (d, f, h) db
            | _ \<Rightarrow> (None, db))
         else (None, db)))"

definition evaluate_symbol ::
  "trend_config \<Rightarrow> int \<Rightarrow> int \<Rightarrow> bool \<Rightarrow> string \<Rightarrow> trend_db \<Rightarrow> (symbol_outcome \<times> trend_db) res" where
  "evaluate_symbol cfg now wall alerts_work sy db =
     bind_res (bucket_limits cfg) (\<lambda>(hourly_limit, daily_limit).
       let hourly = load_candles (td_prices db) sy 3600 hourly_limit now;
           daily = load_candles (td_prices db) sy 86400 daily_limit now
       in map_res (\<lambda>r.
         let stored = stored_state db sy;
             (event_id, alert_id, db1) = record_transition r cfg now alerts_work db;
             db2 = upsert_state r cfg stored (if alert_id \<noteq> None then Some now else None) wall db1;
             (rows, err, db3) = (case refresh_performance sy cfg now db2 of
                 Inr (rows, db') \<Rightarrow> (rows, None, db') | Inl e \<Rightarrow> ([], Some e, db2))
         in (\<lparr>so_symbol = sy, so_alignment = ar_alignment r, so_fresh = ar_fresh r,
               so_hourly_candles = length hourly, so_daily_candles = length daily,
               so_identity = candle_identity r, so_previous = map_option st_alignment stored,
               so_event = event_id, so_alert = alert_id, so_performance = rows, so_performance_error = err\<rparr>, db3))
         (evaluate sy hourly daily now (Some cfg)))"

section \<open>The pass\<close>

datatype symbol_status = Skipped | Evaluated symbol_outcome | Failed py_error

record pass_counts =
  pc_enabled :: bool
  pc_symbols :: "(string \<times> symbol_status) list"
  pc_evaluated :: nat
  pc_skipped :: nat
  pc_failed :: nat
  pc_events :: nat
  pc_alerts :: nat
  pc_windows :: nat
  pc_errors :: "(string \<times> py_error) list"

definition zero_counts :: "bool \<Rightarrow> pass_counts" where
  "zero_counts b = \<lparr>pc_enabled = b, pc_symbols = [], pc_evaluated = 0, pc_skipped = 0, pc_failed = 0,
     pc_events = 0, pc_alerts = 0, pc_windows = 0, pc_errors = []\<rparr>"

definition pass_symbol ::
  "trend_config \<Rightarrow> int \<Rightarrow> int \<Rightarrow> bool \<Rightarrow> string \<Rightarrow> pass_counts \<times> trend_db \<Rightarrow> pass_counts \<times> trend_db" where
  "pass_symbol cfg now wall alerts_work sy acc =
     (case acc of (n, db) \<Rightarrow>
       if sy \<notin> set SUPPORTED_SYMBOLS then
         (n\<lparr>pc_symbols := dict_set sy Skipped (pc_symbols n), pc_skipped := pc_skipped n + 1\<rparr>, db)
       else case evaluate_symbol cfg now wall alerts_work sy db of
         Inl e \<Rightarrow> (n\<lparr>pc_symbols := dict_set sy (Failed e) (pc_symbols n), pc_failed := pc_failed n + 1,
             pc_errors := pc_errors n @ [(sy, e)]\<rparr>, db)
       | Inr (outc, db') \<Rightarrow>
           (n\<lparr>pc_symbols := dict_set sy (Evaluated outc) (pc_symbols n), pc_evaluated := pc_evaluated n + 1,
              pc_events := pc_events n + (if so_event outc \<noteq> None then 1 else 0),
              pc_alerts := pc_alerts n + (if so_alert outc \<noteq> None then 1 else 0),
              pc_windows := pc_windows n + length (so_performance outc),
              pc_errors := pc_errors n @ (case so_performance_error outc of None \<Rightarrow> [] | Some e \<Rightarrow> [(sy, e)])\<rparr>, db'))"

definition run_trend_alignment ::
  "trend_config \<Rightarrow> string list option \<Rightarrow> int \<Rightarrow> int \<Rightarrow> bool \<Rightarrow> trend_db \<Rightarrow> (pass_counts \<times> trend_db) res" where
  "run_trend_alignment cfg symbols now wall alerts_work db =
     (if \<not> tc_enabled cfg then Inr (zero_counts False, db)
      else map_res (\<lambda>_.
        let requested = (case symbols of None \<Rightarrow> SUPPORTED_SYMBOLS | Some xs \<Rightarrow> if xs = [] then SUPPORTED_SYMBOLS else xs)
        in fold (pass_symbol cfg now wall alerts_work) requested (zero_counts True, db)) (validate_config cfg))"

section \<open>The invariant of the tables\<close>

definition events_ok :: "event_row list \<Rightarrow> int \<Rightarrow> bool" where
  "events_ok es next \<longleftrightarrow> distinct (map event_identity es) \<and> distinct (map ev_id es) \<and>
     (\<forall>e \<in> set es. ev_id e < next \<and> ev_alignment e \<in> {FullBullish, FullBearish} \<and>
       (case ev_closes e of (d, f, h) \<Rightarrow> d \<le> ev_occurred_at e \<and> f \<le> ev_occurred_at e \<and> h \<le> ev_occurred_at e))"

definition alert_key :: "alert_row \<Rightarrow> int \<times> int" where
  "alert_key a = (al_event a, al_alert a)"

definition alerts_ok :: "trend_db \<Rightarrow> bool" where
  "alerts_ok db \<longleftrightarrow> distinct (map alert_key (td_alert_events db)) \<and> distinct (map al_id (td_alert_events db)) \<and>
     (\<forall>a \<in> set (td_alert_events db). al_id a < td_next_alert db \<and> al_event a \<in> ev_id ` set (td_events db))"

definition states_ok :: "state_row list \<Rightarrow> bool" where
  "states_ok rs \<longleftrightarrow> distinct (map st_symbol rs) \<and> (\<forall>r \<in> set rs. 1 \<le> st_version r)"

definition trend_inv :: "trend_db \<Rightarrow> bool" where
  "trend_inv db \<longleftrightarrow> events_ok (td_events db) (td_next_event db) \<and> alerts_ok db \<and> states_ok (td_states db) \<and>
     distinct (map sub_id (td_subs db))"

lemmas trend_inv_defs = trend_inv_def events_ok_def alerts_ok_def states_ok_def

lemma event_of_fields [simp]:
  "event_identity (event_of r cfg previous closes n) = (ar_symbol r, ar_alignment r, closes)"
  "ev_id (event_of r cfg previous closes n) = n" "ev_alignment (event_of r cfg previous closes n) = ar_alignment r"
  "ev_closes (event_of r cfg previous closes n) = closes" "ev_occurred_at (event_of r cfg previous closes n) = ar_calculated_at r"
  by (simp_all add: event_of_def event_identity_def)

lemma insert_event_cases:
  assumes "insert_event r cfg previous closes db = (eid, db')"
  obtains "eid = None" "db' = db" "(ar_symbol r, ar_alignment r, closes) \<in> event_identity ` set (td_events db)"
  | "eid = Some (td_next_event db)" "(ar_symbol r, ar_alignment r, closes) \<notin> event_identity ` set (td_events db)"
      "db' = db\<lparr>td_events := td_events db @ [event_of r cfg previous closes (td_next_event db)],
         td_next_event := td_next_event db + 1\<rparr>"
  using assms by (auto simp: insert_event_def Let_def split: if_splits)

lemma events_ok_append:
  assumes "events_ok es n" and "event_identity row \<notin> event_identity ` set es" "ev_id row = n"
    and "ev_alignment row \<in> {FullBullish, FullBearish}" "ev_closes row = (d, f, h)"
    and "d \<le> ev_occurred_at row" "f \<le> ev_occurred_at row" "h \<le> ev_occurred_at row"
  shows "events_ok (es @ [row]) (n + 1)"
proof -
  have ids: "\<forall>e \<in> set es. ev_id e < n" using assms(1) by (simp add: events_ok_def)
  then have "n \<notin> ev_id ` set es" by force
  moreover have "\<forall>e \<in> set es. ev_id e < n + 1" using ids by force
  ultimately show ?thesis using assms unfolding events_ok_def by simp
qed

lemma insert_event_inv:
  assumes inv: "trend_inv db" and full: "ar_alignment r \<in> {FullBullish, FullBearish}"
    and past: "d \<le> ar_calculated_at r" "f \<le> ar_calculated_at r" "h \<le> ar_calculated_at r"
    and ins: "insert_event r cfg previous (d, f, h) db = (eid, db')"
  shows "trend_inv db' \<and> td_states db' = td_states db \<and>
    (\<forall>x. eid = Some x \<longrightarrow> x \<in> ev_id ` set (td_events db') \<and> x \<notin> al_event ` set (td_alert_events db'))"
  using ins
proof (cases rule: insert_event_cases)
  case 1
  then show ?thesis using inv by simp
next
  case 2
  have ev: "events_ok (td_events db) (td_next_event db)" and al: "alerts_ok db" using inv by (simp_all add: trend_inv_def)
  have "events_ok (td_events db @ [event_of r cfg previous (d, f, h) (td_next_event db)]) (td_next_event db + 1)"
    using 2(2) full past by (intro events_ok_append [OF ev, where d = d and f = f and h = h]) simp_all
  moreover have "alerts_ok db'" using al unfolding 2(3) alerts_ok_def by auto
  moreover have "td_next_event db \<notin> al_event ` set (td_alert_events db)"
    using al ev unfolding alerts_ok_def events_ok_def by force
  ultimately show ?thesis using inv 2(1) unfolding trend_inv_def 2(3) by simp
qed

text \<open>What notifying a list of subscribers does to the tables.\<close>

definition notified :: "int \<Rightarrow> subscription list \<Rightarrow> trend_db \<Rightarrow> trend_db \<Rightarrow> bool" where
  "notified eid ss db db' \<longleftrightarrow>
     map alert_key (td_alert_events db') = map alert_key (td_alert_events db) @ map (\<lambda>s. (eid, sub_id s)) ss \<and>
     map al_id (td_alert_events db') = map al_id (td_alert_events db) @ [td_next_alert db..td_next_alert db + int (length ss) - 1] \<and>
     td_next_alert db' = td_next_alert db + int (length ss) \<and>
     map sub_id (td_subs db') = map sub_id (td_subs db) \<and>
     td_events db' = td_events db \<and> td_next_event db' = td_next_event db \<and> td_states db' = td_states db \<and>
     td_prices db' = td_prices db \<and> td_performance db' = td_performance db"

lemma notified_step:
  assumes "notify r eid now s (first_id, db) = (fid, db1)"
  shows "notified eid [s] db db1"
  using assms by (auto simp: notify_def notified_def alert_key_def)

lemma notified_trans:
  assumes "notified eid [s] db db1" and "notified eid ss db1 db2"
  shows "notified eid (s # ss) db db2"
proof -
  have up: "[td_next_alert db..td_next_alert db + int (length (s # ss)) - 1] =
      td_next_alert db # [td_next_alert db + 1..td_next_alert db + 1 + int (length ss) - 1]"
    by (subst upto_rec1) (simp_all add: ac_simps)
  show ?thesis using assms unfolding notified_def up by simp
qed

lemma notify_fold: "fold (notify r eid now) ss (first_id, db) = (aid, db') \<Longrightarrow> notified eid ss db db'"
proof (induction ss arbitrary: first_id db)
  case Nil
  then show ?case by (simp add: notified_def)
next
  case (Cons s ss)
  obtain fid db1 where n: "notify r eid now s (first_id, db) = (fid, db1)" by (cases "notify r eid now s (first_id, db)")
  have "fold (notify r eid now) ss (fid, db1) = (aid, db')" using Cons.prems n by simp
  from Cons.IH [OF this] show ?case by (rule notified_trans [OF notified_step [OF n]])
qed

lemma subscribers_distinct: "distinct (map sub_id (td_subs db)) \<Longrightarrow> distinct (map sub_id (subscribers db))"
proof -
  assume "distinct (map sub_id (td_subs db))"
  then have "inj_on sub_id (set (td_subs db))" "distinct (td_subs db)" by (simp_all add: distinct_map)
  then show ?thesis unfolding subscribers_def
    by (simp add: distinct_map distinct_sort) (rule inj_on_subset; auto)
qed

lemma write_alerts_inv:
  assumes inv: "trend_inv db" and "eid \<in> ev_id ` set (td_events db)" "eid \<notin> al_event ` set (td_alert_events db)"
    and run: "write_alert_events r eid now db = (aid, db')"
  shows "trend_inv db' \<and> td_states db' = td_states db"
proof -
  have n: "notified eid (subscribers db) db db'" using run unfolding write_alert_events_def by (rule notify_fold)
  let ?new = "map (\<lambda>s. (eid, sub_id s)) (subscribers db)"
  have keys: "map alert_key (td_alert_events db') = map alert_key (td_alert_events db) @ ?new"
    and ids: "map al_id (td_alert_events db') = map al_id (td_alert_events db) @
      [td_next_alert db..td_next_alert db + int (length (subscribers db)) - 1]"
    and rest: "td_next_alert db' = td_next_alert db + int (length (subscribers db))"
      "map sub_id (td_subs db') = map sub_id (td_subs db)" "td_events db' = td_events db"
      "td_next_event db' = td_next_event db" "td_states db' = td_states db"
    using n unfolding notified_def by blast+
  have al: "alerts_ok db" and subs: "distinct (map sub_id (td_subs db))" using inv by (simp_all add: trend_inv_def)
  have "distinct ?new" using subscribers_distinct [OF subs] by (simp add: distinct_map inj_on_def)
  moreover have "set ?new \<inter> set (map alert_key (td_alert_events db)) = {}"
    using assms(3) by (auto simp: alert_key_def)
  ultimately have "distinct (map alert_key (td_alert_events db'))"
    using al unfolding keys alerts_ok_def by (auto simp del: set_map)
  moreover have "distinct (map al_id (td_alert_events db'))"
    using al unfolding ids alerts_ok_def by fastforce
  moreover have "al_id a < td_next_alert db' \<and> al_event a \<in> ev_id ` set (td_events db')" if "a \<in> set (td_alert_events db')" for a
  proof
    have "al_id a \<in> set (map al_id (td_alert_events db'))" using that by simp
    then show "al_id a < td_next_alert db'" using al unfolding ids rest alerts_ok_def by auto
    have "alert_key a \<in> set (map alert_key (td_alert_events db'))" using that by simp
    then show "al_event a \<in> ev_id ` set (td_events db')"
      using al assms(2) unfolding keys rest alerts_ok_def by (auto simp: alert_key_def)
  qed
  ultimately have "alerts_ok db'" unfolding alerts_ok_def by blast
  then show ?thesis using inv rest unfolding trend_inv_def by simp
qed

lemma link_event_inv:
  assumes "trend_inv db"
  shows "trend_inv (link_event eid aid db) \<and> td_states (link_event eid aid db) = td_states db"
proof -
  let ?u = "\<lambda>e. if ev_id e = eid then e\<lparr>ev_alert_event := Some aid\<rparr> else e"
  have same: "event_identity \<circ> ?u = event_identity" "ev_id \<circ> ?u = ev_id" by (auto simp: event_identity_def)
  have fields: "ev_id (?u e) = ev_id e" "ev_alignment (?u e) = ev_alignment e" "ev_closes (?u e) = ev_closes e"
    "ev_occurred_at (?u e) = ev_occurred_at e" for e by simp_all
  have "events_ok (map ?u (td_events db)) (td_next_event db)"
    using assms unfolding trend_inv_def events_ok_def map_map same ball_simps(9) set_map fields by (elim conjE) (intro conjI; assumption)
  moreover have "ev_id ` set (map ?u (td_events db)) = ev_id ` set (td_events db)"
    unfolding set_map image_comp same ..
  ultimately show ?thesis using assms by (simp add: trend_inv_def link_event_def alerts_ok_def)
qed

lemma put_state_ok:
  assumes "states_ok rs" and "1 \<le> st_version row"
  shows "states_ok (put_state row rs)"
proof -
  let ?u = "\<lambda>r. if st_symbol r = st_symbol row then row else r"
  have "st_symbol \<circ> ?u = st_symbol" by auto
  then have "distinct (map st_symbol (map ?u rs))" using assms(1) by (simp add: states_ok_def)
  then show ?thesis using assms unfolding put_state_def states_ok_def by auto
qed

lemma next_state_version: "1 \<le> st_version (next_state r cfg stored alerted wall)"
  by (simp add: next_state_def Let_def)

lemma upsert_state_inv: "trend_inv db \<Longrightarrow> trend_inv (upsert_state r cfg stored alerted wall db)"
  by (simp add: trend_inv_def upsert_state_def put_state_ok next_state_version alerts_ok_def)

lemma refresh_inv: "trend_inv db \<Longrightarrow> refresh_performance sy cfg now db = Inr (rows, db') \<Longrightarrow> trend_inv db'"
  by (auto simp: refresh_performance_def bind_res_eq_Inr map_res_eq_Inr upsert_performance_def trend_inv_def alerts_ok_def)

text \<open>The candle triple of a full alignment is complete and closed by the evaluation's instant.\<close>

lemma full_closes:
  assumes "evaluate sy hourly daily now (Some cfg) = Inr r" and "ar_alignment r \<in> {FullBullish, FullBearish}"
  shows "\<exists>d f h. result_closes r = (Some d, Some f, Some h) \<and> d \<le> now \<and> f \<le> now \<and> h \<le> now"
  using assms(1)
proof (cases rule: evaluate_cases)
  case (1 d f h)
  have "tf_trend d \<in> {Bullish, Bearish}" "tf_trend f \<in> {Bullish, Bearish}" "tf_trend h \<in> {Bullish, Bearish}"
    using assms(2) alignment_of_full [of "tf_trend d" "tf_trend f" "tf_trend h"] 1(4) by auto
  note c = directional_close(1) [OF 1(1) this(1)] directional_close(1) [OF 1(2) this(2)] directional_close(1) [OF 1(3) this(3)]
  then show ?thesis by (auto simp: result_closes_def 1(5))
qed

lemma evaluate_labels: "evaluate sy hourly daily now (Some cfg) = Inr r \<Longrightarrow> ar_symbol r = sy \<and> ar_calculated_at r = now"
  by (auto elim: evaluate_cases)

lemma record_transition_inv:
  assumes inv: "trend_inv db" and ev: "evaluate sy hourly daily now (Some cfg) = Inr r"
    and run: "record_transition r cfg now ok db = (eid, aid, db')"
  shows "trend_inv db' \<and> td_states db' = td_states db"
proof (cases "ar_alignment r \<in> {FullBullish, FullBearish} \<and> map_option st_alignment (stored_state db (ar_symbol r)) \<noteq> Some (ar_alignment r)")
  case False
  then show ?thesis using run inv by (auto simp: record_transition_def Let_def)
next
  case True
  then obtain d f h where c: "result_closes r = (Some d, Some f, Some h)" "d \<le> now" "f \<le> now" "h \<le> now"
    using full_closes [OF ev] by blast
  let ?p = "map_option st_alignment (stored_state db (ar_symbol r))"
  obtain eid' db1 where i: "insert_event r cfg ?p (d, f, h) db = (eid', db1)"
    by (cases "insert_event r cfg ?p (d, f, h) db")
  have 1: "trend_inv db1 \<and> td_states db1 = td_states db \<and>
      (\<forall>x. eid' = Some x \<longrightarrow> x \<in> ev_id ` set (td_events db1) \<and> x \<notin> al_event ` set (td_alert_events db1))"
    by (rule insert_event_inv [OF inv _ _ _ _ i]) (use True c evaluate_labels [OF ev] in auto)
  have run': "announce r now ok (eid', db1) = (eid, aid, db')"
    using run unfolding record_transition_def Let_def if_P [OF True] c prod.case option.case i .
  show ?thesis
  proof (cases eid')
    case None
    then show ?thesis using run' 1 by simp
  next
    case (Some e)
    obtain a db2 where w: "(if ok then write_alert_events r e now db1 else (None, db1)) = (a, db2)" by fastforce
    have 2: "trend_inv db2 \<and> td_states db2 = td_states db1"
      using w 1 write_alerts_inv [of db1 e r now a db2] Some by (auto split: if_splits)
    have "db' = (case a of None \<Rightarrow> db2 | Some x \<Rightarrow> link_event e x db2)" using run' unfolding Some by (auto simp: w)
    then show ?thesis using 1 2 link_event_inv [of db2 e] by (cases a) auto
  qed
qed

lemma evaluate_symbol_cases:
  assumes "evaluate_symbol cfg now wall ok sy db = Inr (outc, db')"
  obtains hl dl r eid aid db1 where
    "evaluate sy (load_candles (td_prices db) sy 3600 hl now) (load_candles (td_prices db) sy 86400 dl now) now (Some cfg) = Inr r"
    "record_transition r cfg now ok db = (eid, aid, db1)"
    "db' = upsert_state r cfg (stored_state db sy) (if aid \<noteq> None then Some now else None) wall db1 \<or>
     (\<exists>rows. refresh_performance sy cfg now
        (upsert_state r cfg (stored_state db sy) (if aid \<noteq> None then Some now else None) wall db1) = Inr (rows, db'))"
    "so_event outc = eid" "so_alert outc = aid" "so_alignment outc = ar_alignment r" "bucket_limits cfg = Inr (hl, dl)"
proof -
  obtain hl dl where l: "bucket_limits cfg = Inr (hl, dl)"
    using assms unfolding evaluate_symbol_def by (cases "bucket_limits cfg") auto
  let ?h = "load_candles (td_prices db) sy 3600 hl now" and ?d = "load_candles (td_prices db) sy 86400 dl now"
  obtain r where r: "evaluate sy ?h ?d now (Some cfg) = Inr r"
    using assms unfolding evaluate_symbol_def by (auto simp: l bind_res_eq_Inr map_res_eq_Inr Let_def)
  obtain eid aid db1 where t: "record_transition r cfg now ok db = (eid, aid, db1)"
    by (cases "record_transition r cfg now ok db") auto
  let ?db2 = "upsert_state r cfg (stored_state db sy) (if aid \<noteq> None then Some now else None) wall db1"
  show thesis
    by (rule that [OF r t _ _ _ _ l]; use assms in \<open>cases "refresh_performance sy cfg now ?db2"\<close>)
      (auto simp: evaluate_symbol_def l r t Let_def)
qed

lemma evaluate_symbol_inv:
  assumes "trend_inv db" and "evaluate_symbol cfg now wall ok sy db = Inr (outc, db')"
  shows "trend_inv db'"
  using assms(2)
proof (cases rule: evaluate_symbol_cases)
  case (1 hl dl r eid aid db1)
  have "trend_inv db1" using record_transition_inv [OF assms(1) 1(1,2)] by blast
  then have "trend_inv (upsert_state r cfg (stored_state db sy) (if aid \<noteq> None then Some now else None) wall db1)"
    by (rule upsert_state_inv)
  with 1(3) refresh_inv show ?thesis by blast
qed

lemma pass_inv: "trend_inv (snd acc) \<Longrightarrow> trend_inv (snd (pass_symbol cfg now wall ok sy acc))"
  by (auto simp: pass_symbol_def dest: evaluate_symbol_inv split: prod.splits sum.splits)

lemma run_inv:
  assumes "trend_inv db" and "run_trend_alignment cfg symbols now wall ok db = Inr (counts, db')"
  shows "trend_inv db'"
proof -
  have "trend_inv (snd acc) \<Longrightarrow> trend_inv (snd (fold (pass_symbol cfg now wall ok) xs acc))" for xs acc
    by (induction xs arbitrary: acc) (simp_all add: pass_inv)
  from this [of "(zero_counts True, db)"] show ?thesis
    using assms by (auto simp: run_trend_alignment_def map_res_eq_Inr Let_def split: if_splits option.splits) (metis snd_conv)+
qed

section \<open>Runs\<close>

text \<open>A run of the service: passes, and between them anything may happen to the prices and the
  subscriptions, whose ids stay distinct.\<close>

inductive trend_step :: "trend_db \<Rightarrow> trend_db \<Rightarrow> bool" where
  prices_change: "trend_step db (db\<lparr>td_prices := ps\<rparr>)"
| subscriptions_change: "distinct (map sub_id ss) \<Longrightarrow> trend_step db (db\<lparr>td_subs := ss\<rparr>)"
| trend_pass: "run_trend_alignment cfg symbols now wall alerts_work db = Inr (counts, db') \<Longrightarrow> trend_step db db'"

definition empty_trend_db :: trend_db where
  "empty_trend_db = \<lparr>td_prices = [], td_states = [], td_events = [], td_subs = [], td_alert_events = [],
     td_performance = [], td_next_event = 1, td_next_alert = 1\<rparr>"

lemma trend_step_inv: "trend_step db db' \<Longrightarrow> trend_inv db \<Longrightarrow> trend_inv db'"
  by (induction rule: trend_step.induct) (auto simp: run_inv, simp_all add: trend_inv_def alerts_ok_def)

lemma trend_reachable_inv: "trend_step\<^sup>*\<^sup>* empty_trend_db db \<Longrightarrow> trend_inv db"
proof (induction rule: rtranclp_induct)
  case base
  show ?case by (simp add: trend_inv_defs empty_trend_db_def)
next
  case (step y z)
  then show ?case using trend_step_inv by blast
qed

lemma find_put_state: "st_symbol row = sy \<Longrightarrow> List.find (\<lambda>r. st_symbol r = sy) (put_state row rs) = Some row"
proof -
  assume sy: "st_symbol row = sy"
  have "\<exists>r \<in> set rs. st_symbol r = sy \<Longrightarrow>
      List.find (\<lambda>r. st_symbol r = sy) (map (\<lambda>r. if st_symbol r = sy then row else r) rs) = Some row"
    using sy by (induction rs) auto
  moreover have "\<not> (\<exists>r \<in> set rs. st_symbol r = sy) \<Longrightarrow> List.find (\<lambda>r. st_symbol r = sy) (rs @ [row]) = Some row"
    using sy by (induction rs) auto
  ultimately show ?thesis unfolding put_state_def sy by (cases "\<exists>r \<in> set rs. st_symbol r = sy") auto
qed

lemma refresh_states: "refresh_performance sy cfg now db = Inr (rows, db') \<Longrightarrow>
    td_states db' = td_states db \<and> td_events db' = td_events db \<and> td_alert_events db' = td_alert_events db"
  by (auto simp: refresh_performance_def bind_res_eq_Inr map_res_eq_Inr upsert_performance_def)

lemma evaluate_symbol_state:
  assumes "evaluate_symbol cfg now wall ok sy db = Inr (outc, db')"
  shows "\<exists>row. stored_state db' sy = Some row \<and> st_alignment row = so_alignment outc"
  using assms
proof (cases rule: evaluate_symbol_cases)
  case (1 hl dl r eid aid db1)
  let ?row = "next_state r cfg (stored_state db sy) (if aid \<noteq> None then Some now else None) wall"
  have st: "td_states db' = put_state ?row (td_states db1)"
    using 1(3) refresh_states by (auto simp: upsert_state_def)
  have "st_symbol ?row = sy" using evaluate_labels [OF 1(1)] by (simp add: next_state_def Let_def)
  from find_put_state [OF this] have "stored_state db' sy = Some ?row" unfolding stored_state_def st .
  moreover have "st_alignment ?row = so_alignment outc" unfolding 1(6) by (simp add: next_state_def Let_def)
  ultimately show ?thesis by blast
qed

lemma confirmed_transition:
  assumes "stored_state db (ar_symbol r) = Some row" and "st_alignment row = ar_alignment r"
  shows "record_transition r cfg now ok db = (None, None, db)"
  using assms by (simp add: record_transition_def)

lemma confirmed_evaluation:
  assumes "stored_state db sy = Some row" and "st_alignment row = so_alignment outc"
    and "evaluate_symbol cfg now wall ok sy db = Inr (outc, db')"
  shows "so_event outc = None \<and> so_alert outc = None \<and> td_events db' = td_events db \<and>
    td_alert_events db' = td_alert_events db \<and>
    (\<exists>row'. stored_state db' sy = Some row' \<and> st_previous row' = st_previous row \<and> st_version row' = max 1 (st_version row) \<and>
      st_last_bullish row' = st_last_bullish row \<and> st_last_bearish row' = st_last_bearish row)"
  using assms(3)
proof (cases rule: evaluate_symbol_cases)
  case (1 hl dl r eid aid db1)
  have sy: "ar_symbol r = sy" using evaluate_labels [OF 1(1)] by simp
  have "(eid, aid, db1) = (None, None, db)"
    using confirmed_transition [of db r row cfg now ok] assms(1,2) 1(2,6) unfolding sy by simp
  then have n: "eid = None" "aid = None" "db1 = db" by simp_all
  let ?row = "next_state r cfg (stored_state db sy) None wall"
  have db': "td_states db' = put_state ?row (td_states db)" "td_events db' = td_events db"
      "td_alert_events db' = td_alert_events db"
    using 1(3) refresh_states unfolding n by (auto simp: upsert_state_def)
  have "st_symbol ?row = sy" using sy by (simp add: next_state_def Let_def)
  from find_put_state [OF this] have "stored_state db' sy = Some ?row" unfolding stored_state_def db' .
  moreover have "st_previous ?row = st_previous row \<and> st_version ?row = max 1 (st_version row) \<and>
      st_last_bullish ?row = st_last_bullish row \<and> st_last_bearish ?row = st_last_bearish row"
    using assms(1,2) 1(6) by (simp add: next_state_def Let_def)
  ultimately show ?thesis using db' 1(4,5) n by blast
qed

section \<open>Properties\<close>

text \<open>C6: In every run of passes, price writes and subscription changes, an entry into a full alignment is
  recorded once per symbol, direction and triple of closed candles, all of them closed when it
  occurred; no subscription is notified twice of the same entry, every notification refers to a
  recorded entry, and each symbol has one state row.\<close>

theorem trend_entries_unique:
  assumes "trend_step\<^sup>*\<^sup>* empty_trend_db db"
  shows "distinct (map event_identity (td_events db)) \<and>
    (\<forall>e \<in> set (td_events db). ev_alignment e \<in> {FullBullish, FullBearish} \<and>
      (case ev_closes e of (d, f, h) \<Rightarrow> max d (max f h) \<le> ev_occurred_at e)) \<and>
    distinct (map (\<lambda>a. (al_event a, al_alert a)) (td_alert_events db)) \<and>
    (\<forall>a \<in> set (td_alert_events db). \<exists>e \<in> set (td_events db). ev_id e = al_event a) \<and>
    distinct (map st_symbol (td_states db))"
proof -
  have inv: "trend_inv db" using assms by (rule trend_reachable_inv)
  have "map alert_key (td_alert_events db) = map (\<lambda>a. (al_event a, al_alert a)) (td_alert_events db)"
    by (simp add: alert_key_def)
  with inv show ?thesis unfolding trend_inv_defs by (auto simp del: map_eq_conv split: prod.splits) force+
qed

text \<open>Being aligned is not an event: an evaluation that finds the alignment the last one stored, whatever
  the prices, subscriptions, configuration and clock have become, records no entry, notifies
  nobody and leaves the previous alignment, the version and the alert times of the state row.\<close>

theorem confirmation_is_silent:
  assumes "evaluate_symbol cfg now wall ok sy db = Inr (outc, db1)"
    and "evaluate_symbol cfg' now' wall' ok' sy (db1\<lparr>td_prices := ps, td_subs := ss\<rparr>) = Inr (outc', db2)"
    and "so_alignment outc' = so_alignment outc"
  shows "so_event outc' = None \<and> so_alert outc' = None \<and> td_events db2 = td_events db1 \<and>
    td_alert_events db2 = td_alert_events db1 \<and>
    (\<exists>row row'. stored_state db1 sy = Some row \<and> stored_state db2 sy = Some row' \<and>
      st_previous row' = st_previous row \<and> st_version row' = max 1 (st_version row) \<and>
      st_last_bullish row' = st_last_bullish row \<and> st_last_bearish row' = st_last_bearish row)"
proof -
  obtain row where row: "stored_state db1 sy = Some row" "st_alignment row = so_alignment outc"
    using evaluate_symbol_state [OF assms(1)] by blast
  have "stored_state (db1\<lparr>td_prices := ps, td_subs := ss\<rparr>) sy = Some row" using row(1) by (simp add: stored_state_def)
  from confirmed_evaluation [OF this _ assms(2)] row assms(3) show ?thesis by simp
qed

section \<open>Examples\<close>

lemma evaluate_symbol_total:
  assumes "validate_config cfg = Inr ()" "is_ok (warmup_candles cfg)"
  shows "is_ok (evaluate_symbol cfg now wall ok sy db)"
  using assms evaluate_total [OF assms]
  by (auto simp: evaluate_symbol_def is_ok_bind is_ok_map bucket_limits_def Let_def split: prod.split)

theorem confirmation_is_silent_witness:
  "\<exists>outc db1 outc' db2. evaluate_symbol small_config 0 0 True ''XAUUSD'' empty_trend_db = Inr (outc, db1) \<and>
    evaluate_symbol small_config 1 1 True ''XAUUSD'' (db1\<lparr>td_prices := [], td_subs := []\<rparr>) = Inr (outc', db2) \<and>
    td_events db2 = td_events db1"
proof -
  obtain outc db1 where 1: "evaluate_symbol small_config 0 0 True ''XAUUSD'' empty_trend_db = Inr (outc, db1)"
    using evaluate_symbol_total [OF small_valid, of 0 0 True "''XAUUSD''" empty_trend_db] by (auto simp: is_ok_def split: sum.splits)
  obtain outc' db2 where 2: "evaluate_symbol small_config 1 1 True ''XAUUSD'' (db1\<lparr>td_prices := [], td_subs := []\<rparr>) = Inr (outc', db2)"
    using evaluate_symbol_total [OF small_valid, of 1 1 True "''XAUUSD''" "db1\<lparr>td_prices := [], td_subs := []\<rparr>"]
    by (auto simp: is_ok_def split: sum.splits)
  have none: "so_alignment o1 = NotAligned"
    if "evaluate_symbol small_config n w True ''XAUUSD'' d = Inr (o1, d1)" "td_prices d = []" for n w d o1 d1
    using that
    by (auto simp: evaluate_symbol_def bucket_limits_def small_warmup load_candles_def last_n_def evaluate_def small_valid
        evaluate_timeframe_def timeframe_seconds evaluate_done_def blank_result_def completed_def resample_def buckets_def
        alignment_of_def Let_def map_res_eq_Inr split: prod.splits)
  have "so_alignment outc' = so_alignment outc"
    using none [OF 1] none [OF 2] by (simp add: empty_trend_db_def)
  from confirmation_is_silent [OF 1 2 this] 1 2 show ?thesis by blast
qed

definition tick :: "int \<Rightarrow> int \<Rightarrow> price_row" where
  "tick t v = \<lparr>p_symbol = ''XAUUSD'', p_value = Fin (of_int v), p_currency = ''USD'', p_unit = ''oz'',
     p_source = ''a'', p_observed_at = t, p_collected_at = t, p_quality = ''ok''\<rparr>"

definition example_prices :: "price_row list" where
  "example_prices = [tick (- 345600000000) 84, tick (- 259200000000) 88, tick (- 172800000000) 92,
     tick (- 86400000000) 96, tick 10800000000 100, tick 25200000000 104, tick 39600000000 108, tick 54000000000 112]"

lemma loaded_hours:
  "load_candles example_prices ''XAUUSD'' 3600 36 example_now =
    [flat_candle (- 259200000000) 88, flat_candle (- 172800000000) 92,
     flat_candle (- 86400000000) 96, flat_candle 10800000000 100, flat_candle 25200000000 104,
     flat_candle 39600000000 108, flat_candle 54000000000 112]"
  by (simp add: load_candles_def example_prices_def tick_def date_trunc_def tick_bar_def flat_candle_def
    last_n_def example_now_def SCAN_SLACK_def)

lemma loaded_days:
  "load_candles example_prices ''XAUUSD'' 86400 9 example_now =
    [flat_candle (- 345600000000) 84, flat_candle (- 259200000000) 88, flat_candle (- 172800000000) 92,
     flat_candle (- 86400000000) 96, \<lparr>c_start = 0, c_open = Fin 100, c_high = Fin 112, c_low = Fin 100, c_close = Fin 112\<rparr>]"
  by (simp add: load_candles_def example_prices_def tick_def date_trunc_def tick_bar_def flat_candle_def
    last_n_def example_now_def SCAN_SLACK_def fmax_def fmin_def)

lemma loaded_buckets:
  "buckets [flat_candle (- 259200000000) 88, flat_candle (- 172800000000) 92,
     flat_candle (- 86400000000) 96, flat_candle 10800000000 100, flat_candle 25200000000 104,
     flat_candle 39600000000 108, flat_candle 54000000000 112] (4 * 3600) =
   [(- 259200000000, [flat_candle (- 259200000000) 88]), (- 172800000000, [flat_candle (- 172800000000) 92]),
    (- 86400000000, [flat_candle (- 86400000000) 96]), (0, [flat_candle 10800000000 100]),
    (14400000000, [flat_candle 25200000000 104]), (28800000000, [flat_candle 39600000000 108]),
    (43200000000, [flat_candle 54000000000 112])]"
  by (simp add: buckets_def add_candle_def bucket_start_def epoch_seconds_def flat_candle_def dict_set_def dict_get_def)

lemma loaded_resampled:
  "resample [flat_candle (- 259200000000) 88, flat_candle (- 172800000000) 92,
     flat_candle (- 86400000000) 96, flat_candle 10800000000 100, flat_candle 25200000000 104,
     flat_candle 39600000000 108, flat_candle 54000000000 112] (4 * 3600) =
   [flat_candle (- 259200000000) 88, flat_candle (- 172800000000) 92, flat_candle (- 86400000000) 96,
    flat_candle 0 100, flat_candle 14400000000 104, flat_candle 28800000000 108, flat_candle 43200000000 112]"
  unfolding resample_def loaded_buckets
  by (simp add: bucket_bar_def merge_bucket_def flat_candle_def dict_get_def)

lemma loaded_legs:
  "map_res tf_trend (evaluate_timeframe ''1d'' (load_candles example_prices ''XAUUSD'' 86400 9 example_now)
     example_now small_config) = Inr Bullish"
  "map_res tf_trend (evaluate_timeframe ''4h'' (resample (load_candles example_prices ''XAUUSD'' 3600 36 example_now) (4 * 3600))
     example_now small_config) = Inr Bullish"
  "map_res tf_trend (evaluate_timeframe ''1h'' (load_candles example_prices ''XAUUSD'' 3600 36 example_now)
     example_now small_config) = Inr Bullish"
  unfolding loaded_hours loaded_days loaded_resampled by (simp_all add: leg_eval)

lemma loaded_full:
  "map_res ar_alignment (evaluate ''XAUUSD'' (load_candles example_prices ''XAUUSD'' 3600 36 example_now)
     (load_candles example_prices ''XAUUSD'' 86400 9 example_now) example_now (Some small_config)) = Inr FullBullish"
  using evaluate_by_legs [OF small_valid(1) loaded_legs, of "''XAUUSD''"] by (simp add: alignment_of_full)

definition example_db :: trend_db where
  "example_db = empty_trend_db\<lparr>td_prices := example_prices\<rparr>"

lemma announce_events: "announce r now ok (Some e, db) = (eid, aid, db') \<Longrightarrow> td_events db \<noteq> [] \<Longrightarrow> td_events db' \<noteq> []"
proof -
  assume run: "announce r now ok (Some e, db) = (eid, aid, db')" and ne: "td_events db \<noteq> []"
  obtain a db2 where w: "(if ok then write_alert_events r e now db else (None, db)) = (a, db2)" by fastforce
  have "td_events db2 = td_events db"
    using w notify_fold [of r e now "subscribers db" None db a db2]
    by (auto simp: write_alert_events_def notified_def split: if_splits)
  then show "td_events db' \<noteq> []" using run ne by (auto simp: w link_event_def split: option.splits)
qed

lemma example_pass:
  "\<exists>counts db. run_trend_alignment small_config (Some [''XAUUSD'']) example_now example_now True example_db = Inr (counts, db) \<and>
    td_events db \<noteq> []"
proof -
  obtain outc db where e: "evaluate_symbol small_config example_now example_now True ''XAUUSD'' example_db = Inr (outc, db)"
    using evaluate_symbol_total [OF small_valid, of example_now example_now True "''XAUUSD''" example_db]
    by (auto simp: is_ok_def split: sum.splits)
  have lim: "bucket_limits small_config = Inr (36, 9)"
    by (simp add: bucket_limits_def small_warmup BUCKET_SLACK_def HOURLY_PER_4H_def Let_def)
  have full: "so_alignment outc = FullBullish"
    using e
  proof (cases rule: evaluate_symbol_cases)
    case (1 hl dl r eid aid db1)
    then show ?thesis using loaded_full lim by (simp add: example_db_def)
  qed
  have "td_events db \<noteq> []"
    using e
  proof (cases rule: evaluate_symbol_cases)
    case (1 hl dl r eid aid db1)
    have al: "ar_alignment r = FullBullish" using full 1(6) by simp
    then obtain d f h where c: "result_closes r = (Some d, Some f, Some h)" using full_closes [OF 1(1)] by auto
    have st: "stored_state example_db x = None" for x
      by (simp add: stored_state_def example_db_def empty_trend_db_def)
    obtain eid' db2 where i: "insert_event r small_config None (d, f, h) example_db = (eid', db2)"
      by (cases "insert_event r small_config None (d, f, h) example_db")
    have ne: "eid' = Some (td_next_event example_db)" "td_events db2 \<noteq> []"
      using i by (auto simp: insert_event_def Let_def example_db_def empty_trend_db_def)
    have "announce r example_now True (eid', db2) = (eid, aid, db1)"
      using 1(2) by (simp add: record_transition_def st al c i)
    then have "td_events db1 \<noteq> []" using announce_events ne by metis
    then show ?thesis using 1(3) refresh_states by (fastforce simp: upsert_state_def)
  qed
  moreover have "''XAUUSD'' \<in> set SUPPORTED_SYMBOLS" by (simp add: SUPPORTED_SYMBOLS_def)
  moreover have "tc_enabled small_config" by (simp add: small_config_def default_trend_config_def)
  ultimately show ?thesis using e by (auto simp: run_trend_alignment_def small_valid pass_symbol_def Let_def)
qed

theorem trend_entries_unique_witness:
  "\<exists>db. trend_step\<^sup>*\<^sup>* empty_trend_db db \<and> td_events db \<noteq> [] \<and> distinct (map event_identity (td_events db))"
proof -
  obtain counts db where p: "run_trend_alignment small_config (Some [''XAUUSD'']) example_now example_now True example_db = Inr (counts, db)"
    "td_events db \<noteq> []"
    using example_pass by blast
  have "trend_step empty_trend_db example_db" unfolding example_db_def by (rule prices_change)
  then have "trend_step\<^sup>*\<^sup>* empty_trend_db db"
    using trend_pass [OF p(1)] by (meson converse_rtranclp_into_rtranclp r_into_rtranclp)
  with trend_entries_unique [OF this] p(2) show ?thesis by blast
qed

end
