(* ===== verification/Retention.thy ===== *)
theory Retention
  imports Prelude Calendar
begin

text \<open>
  \<^verbatim>\<open>app/core/retention.py\<close>: bounded deletion of old rows, with the windows of the self-learning
  loops protected. A table is the list of its rows in the order of their ids; a \<^verbatim>\<open>WHERE\<close> clause is a
  predicate on the table and a row, since two of them select from the table they delete from.
  Which statements raise is a parameter. The configured day counts are those a \<^verbatim>\<open>timedelta\<close> holds, and
  the count of runs to keep is not negative (drivers differ on a negative \<^verbatim>\<open>LIMIT\<close>). Rows of equal \<^verbatim>\<open>target_time\<close> are cut by a \<^verbatim>\<open>LIMIT\<close> in
  the order of their ids.

  Shown: the batches delete what one unbounded statement would, oldest ids first, up to the cap;
  whatever raises, the protected rows of every table survive; a dry run changes nothing.
\<close>

section \<open>Constants\<close>

definition BATCH_ROWS :: nat where "BATCH_ROWS = 5000"
definition MAX_BATCHES :: nat where "MAX_BATCHES = 200"
definition META_GATE_SAMPLES :: nat where "META_GATE_SAMPLES = 500"
definition RETAINED_CAL_WINDOW :: nat where "RETAINED_CAL_WINDOW = 60"
definition ENSEMBLE_WINDOW_DAYS :: int where "ENSEMBLE_WINDOW_DAYS = 120"
definition MIN_AUDIT_RETENTION_DAYS :: int where "MIN_AUDIT_RETENTION_DAYS = 365"

datatype floor_reason = NoFloor | SelfLearningWindows | NothingEligible | NeverBelowMinimum

record table_result =
  tr_table :: string
  tr_deleted :: nat
  tr_batches :: nat
  tr_floor :: floor_reason
  tr_error :: bool

section \<open>Batched deletion\<close>

type_synonym 'r clause = "'r list \<Rightarrow> 'r \<Rightarrow> bool"

text \<open>The rows one statement deletes: the first ids that match.\<close>

definition victims :: "nat \<Rightarrow> 'r clause \<Rightarrow> 'r list \<Rightarrow> 'r list" where
  "victims n holds table = take n (filter (holds table) table)"

definition delete_batch :: "('r \<Rightarrow> int) \<Rightarrow> nat \<Rightarrow> 'r clause \<Rightarrow> 'r list \<Rightarrow> nat \<times> 'r list" where
  "delete_batch pk n holds table =
     (let gone = map pk (victims n holds table) in
      (length (filter (\<lambda>r. pk r \<in> set gone) table), filter (\<lambda>r. pk r \<notin> set gone) table))"

text \<open>\<open>fails i\<close>: the \<open>i\<close>-th statement on the table raises, the count being number 0.\<close>

function delete_loop ::
  "(nat \<Rightarrow> bool) \<Rightarrow> ('r \<Rightarrow> int) \<Rightarrow> 'r clause \<Rightarrow> table_result \<Rightarrow> 'r list \<Rightarrow> table_result \<times> 'r list" where
  "delete_loop fails pk holds res table =
     (if tr_batches res < MAX_BATCHES then
        if fails (Suc (tr_batches res)) then (res\<lparr>tr_error := True\<rparr>, table)
        else let (removed, table') = delete_batch pk BATCH_ROWS holds table;
                 res' = res\<lparr>tr_batches := tr_batches res + 1, tr_deleted := tr_deleted res + removed\<rparr>
          in if removed < BATCH_ROWS then (res', table') else delete_loop fails pk holds res' table'
      else (res, table))"
  by pat_completeness auto
termination
  by (relation "measure (\<lambda>(_, _, _, res, _). MAX_BATCHES - tr_batches res)") auto

declare delete_loop.simps [simp del]

definition delete_batched ::
  "(nat \<Rightarrow> bool) \<Rightarrow> string \<Rightarrow> ('r \<Rightarrow> int) \<Rightarrow> 'r clause \<Rightarrow> bool \<Rightarrow> 'r list \<Rightarrow> table_result \<times> 'r list" where
  "delete_batched fails name pk holds dry_run table =
     (let res = \<lparr>tr_table = name, tr_deleted = 0, tr_batches = 0, tr_floor = NoFloor, tr_error = False\<rparr> in
      if fails 0 then (res\<lparr>tr_error := True\<rparr>, table)
      else if dry_run then (res\<lparr>tr_deleted := length (filter (holds table) table)\<rparr>, table)
      else delete_loop fails pk holds res table)"

section \<open>The tables and their clauses\<close>

record prediction =
  q_id :: int
  q_symbol :: string
  q_horizon :: string
  q_predicted_at :: int
  q_target_time :: int
  q_actual :: bool      \<comment> \<open>\<^verbatim>\<open>actual_value IS NOT NULL\<close>\<close>

record timed_row =
  t_id :: int
  t_at :: int

record model_version =
  v_id :: int
  v_active :: bool
  v_trained_at :: int

text \<open>The newest matured rows by target time.\<close>

definition newest_matured :: "nat \<Rightarrow> prediction list \<Rightarrow> prediction list" where
  "newest_matured n table = take n (sort_key (\<lambda>p. - q_target_time p) (filter q_actual table))"

definition newer_in_series :: "prediction list \<Rightarrow> prediction \<Rightarrow> nat" where
  "newer_in_series table p =
     length (filter (\<lambda>q. q_symbol q = q_symbol p \<and> q_horizon q = q_horizon p \<and> q_actual q \<and>
        q_target_time p < q_target_time q) table)"

definition protected_prediction :: "int \<Rightarrow> prediction clause" where
  "protected_prediction ens_floor table p \<longleftrightarrow>
     q_id p \<in> q_id ` set (newest_matured META_GATE_SAMPLES table) \<or>
     (q_id p \<in> q_id ` {x \<in> set table. q_actual x \<and> newer_in_series table x < RETAINED_CAL_WINDOW}) \<or>
     ens_floor \<le> q_target_time p"

definition old_prediction :: "int \<Rightarrow> int \<Rightarrow> prediction clause" where
  "old_prediction cutoff ens_floor table p \<longleftrightarrow>
     q_predicted_at p < cutoff \<and> \<not> protected_prediction ens_floor table p"

definition before_cutoff :: "int \<Rightarrow> timed_row clause" where
  "before_cutoff cutoff table r \<longleftrightarrow> t_at r < cutoff"

text \<open>\<^verbatim>\<open>id < (SELECT coalesce(min(id), 0) FROM the newest keep ids)\<close>.\<close>

definition surplus_run :: "nat \<Rightarrow> int clause" where
  "surplus_run keep table i =
     (let newest = take keep (rev (sort table)) in i < (if newest = [] then 0 else Min (set newest)))"

definition retired_version :: "int \<Rightarrow> model_version clause" where
  "retired_version cutoff table v \<longleftrightarrow> \<not> v_active v \<and> v_trained_at v < cutoff"

text \<open>The oldest instant a live loop needs, and why; the ensemble's floor is never absent.\<close>

definition series_floor :: "prediction list \<Rightarrow> string \<times> string \<Rightarrow> int option" where
  "series_floor table s =
     (let window = newest_matured RETAINED_CAL_WINDOW (filter (\<lambda>p. (q_symbol p, q_horizon p) = s) table) in
      if window = [] then None else Some (Min (q_target_time ` set window)))"

definition protected_prediction_cutoff :: "prediction list \<Rightarrow> int \<Rightarrow> int option \<times> floor_reason" where
  "protected_prediction_cutoff table now =
     (let gate = newest_matured META_GATE_SAMPLES table;
          gate_floors = (if gate = [] then [] else [Min (q_target_time ` set gate)]);
          cals = List.map_filter (series_floor table) (remdups (map (\<lambda>p. (q_symbol p, q_horizon p)) table));
          cal_floors = (if cals = [] then [] else [Min (set cals)]);
          floors = gate_floors @ cal_floors @ [now - ENSEMBLE_WINDOW_DAYS * day_us]
      in if floors = [] then (None, NothingEligible) else (Some (Min (set floors)), SelfLearningWindows))"

section \<open>The run\<close>

record retention_db =
  rd_predictions :: "prediction list"
  rd_signals :: "timed_row list"
  rd_training_runs :: "int list"
  rd_model_versions :: "model_version list"
  rd_alert_events :: "timed_row list"
  rd_audit_logs :: "timed_row list"

record retention_settings =
  prediction_retention_days :: "int option"
  signal_retention_days :: "int option"
  training_run_keep :: "int option"
  model_version_retention_days :: "int option"
  alert_event_retention_days :: "int option"
  audit_retention_days :: "int option"

text \<open>\<^verbatim>\<open>int(getattr(settings, attr, default) or default)\<close>.\<close>

definition days_of :: "int option \<Rightarrow> int \<Rightarrow> int" where
  "days_of attr default_days = (case attr of None \<Rightarrow> default_days | Some n \<Rightarrow> if n = 0 then default_days else n)"

definition run_retention ::
  "(string \<Rightarrow> nat \<Rightarrow> bool) \<Rightarrow> retention_settings \<Rightarrow> int \<Rightarrow> bool \<Rightarrow> retention_db \<Rightarrow> table_result list \<times> retention_db" where
  "run_retention fails st now dry_run db =
     (let (_, reason) = protected_prediction_cutoff (rd_predictions db) now;
          (r1, t1) = delete_batched (fails ''predictions'') ''predictions'' q_id
            (old_prediction (now - days_of (prediction_retention_days st) 730 * day_us)
               (now - ENSEMBLE_WINDOW_DAYS * day_us)) dry_run (rd_predictions db);
          (r2, t2) = delete_batched (fails ''signals'') ''signals'' t_id
            (before_cutoff (now - days_of (signal_retention_days st) 365 * day_us)) dry_run (rd_signals db);
          (r3, t3) = delete_batched (fails ''training_runs'') ''training_runs'' id
            (surplus_run (nat (days_of (training_run_keep st) 200))) dry_run (rd_training_runs db);
          (r4, t4) = delete_batched (fails ''model_versions'') ''model_versions'' v_id
            (retired_version (now - days_of (model_version_retention_days st) 180 * day_us)) dry_run (rd_model_versions db);
          (r5, t5) = delete_batched (fails ''alert_events'') ''alert_events'' t_id
            (before_cutoff (now - days_of (alert_event_retention_days st) 180 * day_us)) dry_run (rd_alert_events db);
          audit_days = max (days_of (audit_retention_days st) 730) MIN_AUDIT_RETENTION_DAYS;
          (r6, t6) = delete_batched (fails ''audit_logs'') ''audit_logs'' t_id
            (before_cutoff (now - audit_days * day_us)) dry_run (rd_audit_logs db)
      in ([r1\<lparr>tr_floor := reason\<rparr>, r2, r3, r4, r5, r6\<lparr>tr_floor := NeverBelowMinimum\<rparr>],
          \<lparr>rd_predictions = t1, rd_signals = t2, rd_training_runs = t3, rd_model_versions = t4,
           rd_alert_events = t5, rd_audit_logs = t6\<rparr>))"

definition total_deleted :: "table_result list \<Rightarrow> nat" where
  "total_deleted rs = sum_list (map tr_deleted rs)"

section \<open>Clauses that survive their own deletions\<close>

text \<open>A clause may read the table it deletes from. It is stable when deleting rows it matches does
  not change its verdict on the rows that stay; then a batch sees the rows the first one saw.\<close>

locale stable_clause =
  fixes pk :: "'r \<Rightarrow> int" and holds :: "'r clause"
  assumes stable: "distinct (map pk table) \<Longrightarrow> (\<And>x. x \<in> set table \<Longrightarrow> gone x \<Longrightarrow> holds table x) \<Longrightarrow>
    r \<in> set table \<Longrightarrow> \<not> gone r \<Longrightarrow> holds (filter (\<lambda>x. \<not> gone x) table) r = holds table r"

definition prune :: "nat \<Rightarrow> 'r clause \<Rightarrow> 'r list \<Rightarrow> 'r list" where
  "prune n holds table = filter (\<lambda>r. r \<notin> set (victims n holds table)) table"

lemma victims_hold: "r \<in> set (victims n holds table) \<Longrightarrow> r \<in> set table \<and> holds table r"
  by (auto simp: victims_def dest: in_set_takeD)

lemma distinct_prune: "distinct (map pk table) \<Longrightarrow> distinct (map pk (prune n holds table))"
  by (simp add: prune_def distinct_map_filter)

lemma filter_not_take:
  assumes "distinct xs"
  shows "filter (\<lambda>x. x \<notin> set (take n xs)) xs = drop n xs"
proof -
  have "set (take n xs) \<inter> set (drop n xs) = {}" using assms by (simp add: set_take_disj_set_drop_if_distinct)
  then have "filter (\<lambda>x. x \<notin> set (take n xs)) (drop n xs) = drop n xs" by (intro filter_True) blast
  moreover have "filter (\<lambda>x. x \<notin> set (take n xs)) (take n xs) = []" by (intro filter_False) blast
  moreover have "filter (\<lambda>x. x \<notin> set (take n xs)) xs =
      filter (\<lambda>x. x \<notin> set (take n xs)) (take n xs) @ filter (\<lambda>x. x \<notin> set (take n xs)) (drop n xs)"
    unfolding filter_append [symmetric] append_take_drop_id ..
  ultimately show ?thesis by simp
qed

lemma delete_batch_prune:
  assumes "distinct (map pk table)"
  shows "delete_batch pk n holds table = (length (victims n holds table), prune n holds table)"
proof -
  let ?v = "victims n holds table"
  have d: "distinct table" using assms by (simp add: distinct_map)
  have inj: "inj_on pk (set table)" using assms by (simp add: distinct_map)
  have sub: "set ?v \<subseteq> set table" using victims_hold [of _ n holds table] by blast
  have mem: "pk r \<in> set (map pk ?v) \<longleftrightarrow> r \<in> set ?v" if "r \<in> set table" for r
    unfolding set_map by (rule inj_on_image_mem_iff [OF inj that sub])
  have keep: "filter (\<lambda>r. pk r \<notin> set (map pk ?v)) table = prune n holds table"
    unfolding prune_def using mem by (intro filter_cong) auto
  have hit: "filter (\<lambda>r. pk r \<in> set (map pk ?v)) table = filter (\<lambda>r. r \<in> set ?v) table"
    using mem by (intro filter_cong) auto
  have dv: "distinct ?v" using d by (simp add: victims_def)
  have "set (filter (\<lambda>r. r \<in> set ?v) table) = set ?v" using sub by auto
  moreover have "length (filter (\<lambda>r. r \<in> set ?v) table) = card (set (filter (\<lambda>r. r \<in> set ?v) table))"
    by (rule distinct_card [symmetric]) (simp add: d)
  ultimately have "length (filter (\<lambda>r. r \<in> set ?v) table) = length ?v"
    using distinct_card [OF dv] by simp
  then show ?thesis unfolding delete_batch_def Let_def keep hit by simp
qed

context stable_clause
begin

lemma prune_holds:
  assumes "distinct (map pk table)" and "r \<in> set (prune n holds table)"
  shows "holds (prune n holds table) r = holds table r"
  using stable [of table "\<lambda>x. x \<in> set (victims n holds table)" r] assms victims_hold [of _ n holds table]
  by (auto simp: prune_def)

lemma matches_prune:
  assumes "distinct (map pk table)"
  shows "filter (holds (prune n holds table)) (prune n holds table) = drop n (filter (holds table) table)"
proof -
  let ?m = "filter (holds table) table"
  have d: "distinct ?m" using assms by (simp add: distinct_map)
  have "filter (holds (prune n holds table)) (prune n holds table) = filter (holds table) (prune n holds table)"
    using prune_holds [OF assms] by (intro filter_cong) auto
  also have "\<dots> = filter (\<lambda>x. x \<notin> set (take n ?m)) ?m"
    unfolding prune_def victims_def filter_filter by (rule filter_cong) auto
  finally show ?thesis unfolding filter_not_take [OF d] .
qed

lemma prune_prune:
  assumes "distinct (map pk table)"
  shows "prune m holds (prune n holds table) = prune (n + m) holds table"
proof -
  have v: "set (victims (n + m) holds table) = set (victims n holds table) \<union> set (victims m holds (prune n holds table))"
    unfolding victims_def matches_prune [OF assms] by (simp add: take_add)
  show ?thesis unfolding prune_def [of m] prune_def [of "n + m"] v
    unfolding prune_def filter_filter by (rule filter_cong) auto
qed

lemma prune_all:
  assumes "length (filter (holds table) table) \<le> n" "n \<le> m"
  shows "prune m holds table = prune n holds table"
  using assms by (simp add: prune_def victims_def)

lemma victims_length: "length (victims n holds table) = min n (length (filter (holds table) table))"
  by (simp add: victims_def min_def)

text \<open>Whatever raises, the loop has deleted a first part of the matching rows; without a raise,
  all that the cap allows.\<close>

lemma delete_loop_spec:
  assumes "distinct (map pk table)" and "delete_loop fails pk holds res table = (res', table')"
  shows "\<exists>n \<le> BATCH_ROWS * (MAX_BATCHES - tr_batches res).
      table' = prune n holds table \<and>
      tr_deleted res' = tr_deleted res + min n (length (filter (holds table) table)) \<and>
      ((\<forall>i. \<not> fails i) \<longrightarrow> tr_error res' = tr_error res \<and> n = BATCH_ROWS * (MAX_BATCHES - tr_batches res))"
  using assms
proof (induction "MAX_BATCHES - tr_batches res" arbitrary: res table)
  case 0
  then have "\<not> tr_batches res < MAX_BATCHES" by simp
  with 0 have "res' = res" "table' = table" by (simp_all add: delete_loop.simps)
  then show ?case using 0 by (intro exI [of _ 0]) (simp add: prune_def victims_def)
next
  case (Suc k)
  then have more: "tr_batches res < MAX_BATCHES" by simp
  show ?case
  proof (cases "fails (Suc (tr_batches res))")
    case True
    then have "res' = res\<lparr>tr_error := True\<rparr>" "table' = table" using Suc.prems more by (simp_all add: delete_loop.simps)
    then show ?thesis using True by (intro exI [of _ 0]) (auto simp: prune_def victims_def)
  next
    case False
    let ?M = "length (filter (holds table) table)"
    let ?res = "res\<lparr>tr_batches := tr_batches res + 1, tr_deleted := tr_deleted res + min BATCH_ROWS ?M\<rparr>"
    let ?t = "prune BATCH_ROWS holds table"
    have b: "delete_batch pk BATCH_ROWS holds table = (min BATCH_ROWS ?M, ?t)"
      using delete_batch_prune [OF Suc.prems(1)] victims_length by simp
    let ?N = "BATCH_ROWS * (MAX_BATCHES - tr_batches res)"
    have N: "?N = BATCH_ROWS + BATCH_ROWS * (MAX_BATCHES - tr_batches ?res)"
    proof -
      have "MAX_BATCHES - tr_batches res = Suc (MAX_BATCHES - tr_batches ?res)" using more by simp
      then show ?thesis by (simp only: mult_Suc_right)
    qed
    show ?thesis
    proof (cases "min BATCH_ROWS ?M < BATCH_ROWS")
      case True
      then have "?M < BATCH_ROWS" by simp
      then have r: "res' = ?res" "table' = ?t" using Suc.prems(2) more False b by (simp_all add: delete_loop.simps Let_def)
      have M: "?M \<le> BATCH_ROWS" using True by simp
      have "BATCH_ROWS \<le> ?N" unfolding N by simp
      then have p: "prune ?N holds table = ?t" by (rule prune_all [OF M])
      have m: "min ?N ?M = min BATCH_ROWS ?M" using M \<open>BATCH_ROWS \<le> ?N\<close> by linarith
      have "table' = prune ?N holds table" unfolding p by (rule r(2))
      moreover have "tr_deleted res' = tr_deleted res + min ?N ?M" unfolding r(1) m by simp
      moreover have "tr_error res' = tr_error res" unfolding r(1) by simp
      ultimately show ?thesis by blast
    next
      case wide: False
      then have run: "delete_loop fails pk holds ?res ?t = (res', table')"
        using Suc.prems(2) more False b by (subst (asm) delete_loop.simps) (simp add: Let_def)
      have k: "k = MAX_BATCHES - tr_batches ?res" using Suc.hyps(2) by simp
      obtain n where n: "n \<le> BATCH_ROWS * (MAX_BATCHES - tr_batches ?res)" "table' = prune n holds ?t"
        "tr_deleted res' = tr_deleted ?res + min n (length (filter (holds ?t) ?t))"
        "(\<forall>i. \<not> fails i) \<longrightarrow> tr_error res' = tr_error ?res \<and> n = BATCH_ROWS * (MAX_BATCHES - tr_batches ?res)"
        using Suc.hyps(1) [OF k distinct_prune [OF Suc.prems(1)] run] by blast
      have "table' = prune (BATCH_ROWS + n) holds table" unfolding n(2) by (rule prune_prune [OF Suc.prems(1)])
      moreover have "tr_deleted res' = tr_deleted res + min (BATCH_ROWS + n) ?M"
        using n(3) wide unfolding matches_prune [OF Suc.prems(1)] by auto
      moreover have "BATCH_ROWS + n \<le> ?N" unfolding N using n(1) by simp
      moreover have "(\<forall>i. \<not> fails i) \<longrightarrow> tr_error res' = tr_error res \<and> BATCH_ROWS + n = ?N"
        unfolding N using n(4) by simp
      ultimately show ?thesis by blast
    qed
  qed
qed

end

section \<open>The clauses of the code are stable\<close>

lemma take_filter_kept:
  assumes "\<And>x. x \<in> set (take n xs) \<Longrightarrow> P x"
  shows "take n (filter P xs) = take n xs"
proof -
  have "filter P xs = take n xs @ filter P (drop n xs)"
    using assms filter_True [of "take n xs" P] by (metis append_take_drop_id filter_append)
  moreover have "length (take n xs) = n \<or> drop n xs = []" by auto
  ultimately show ?thesis by auto
qed

lemma before_cutoff_stable: "stable_clause t_id (before_cutoff cutoff)"
  by standard (simp add: before_cutoff_def)

lemma retired_version_stable: "stable_clause v_id (retired_version cutoff)"
  by standard (simp add: retired_version_def)

lemma rev_sort_filter: "rev (sort (filter P xs)) = filter P (rev (sort xs))"
  for xs :: "int list"
  by (simp only: filter_sort [symmetric] rev_filter)

lemma surplus_run_stable: "stable_clause id (surplus_run keep)"
proof
  fix table :: "int list" and gone r
  assume held: "\<And>x. x \<in> set table \<Longrightarrow> gone x \<Longrightarrow> surplus_run keep table x"
  let ?new = "take keep (rev (sort table))"
  have "\<not> gone x" if "x \<in> set ?new" for x
  proof
    assume g: "gone x"
    have "x \<in> set table" using in_set_takeD [OF that] by simp
    have ne: "?new \<noteq> []" using that by force
    have "x < Min (set ?new)" using held [OF \<open>x \<in> set table\<close> g] unfolding surplus_run_def Let_def if_not_P [OF ne] .
    moreover have "Min (set ?new) \<le> x" using that by simp
    ultimately show False by simp
  qed
  then have "take keep (rev (sort (filter (\<lambda>x. \<not> gone x) table))) = ?new"
    unfolding rev_sort_filter by (rule take_filter_kept)
  then show "surplus_run keep (filter (\<lambda>x. \<not> gone x) table) r = surplus_run keep table r"
    by (simp add: surplus_run_def)
qed

text \<open>In a list sorted by descending key, fewer elements have a greater key than the position.\<close>

lemma newer_than_nth:
  fixes k :: "'a \<Rightarrow> int"
  assumes "sorted (map (\<lambda>x. - k x) xs)" and "i < length xs"
  shows "length (filter (\<lambda>x. k (xs ! i) < k x) xs) \<le> i"
proof -
  have "\<not> k (xs ! i) < k x" if "x \<in> set (drop i xs)" for x
  proof -
    from that obtain j where d: "j < length (drop i xs)" "drop i xs ! j = x" by (metis in_set_conv_nth)
    have j: "x = xs ! (i + j)" "i + j < length xs" using d(1) assms(2) unfolding d(2) [symmetric] by simp_all
    have "map (\<lambda>x. - k x) xs ! i \<le> map (\<lambda>x. - k x) xs ! (i + j)"
      using assms(1) j(2) by (intro sorted_nth_mono) auto
    then show ?thesis using j assms(2) by simp
  qed
  then have "filter (\<lambda>x. k (xs ! i) < k x) (drop i xs) = []" by (auto simp: filter_empty_conv)
  then have "filter (\<lambda>x. k (xs ! i) < k x) xs = filter (\<lambda>x. k (xs ! i) < k x) (take i xs)"
    by (metis append_Nil2 append_take_drop_id filter_append)
  then show ?thesis using length_filter_le [of "\<lambda>x. k (xs ! i) < k x" "take i xs"] by simp
qed

definition newer_rows :: "prediction list \<Rightarrow> prediction \<Rightarrow> prediction list" where
  "newer_rows table p = filter (\<lambda>q. q_symbol q = q_symbol p \<and> q_horizon q = q_horizon p \<and> q_actual q \<and>
     q_target_time p < q_target_time q) table"

lemma newer_in_series_rows: "newer_in_series table p = length (newer_rows table p)"
  by (simp add: newer_in_series_def newer_rows_def)

lemma newest_of_newer:
  assumes "y \<in> set (take RETAINED_CAL_WINDOW (sort_key (\<lambda>q. - q_target_time q) (newer_rows table p)))"
  shows "newer_in_series table y < RETAINED_CAL_WINDOW" and "y \<in> set table" and "q_actual y"
proof -
  let ?s = "sort_key (\<lambda>q. - q_target_time q) (newer_rows table p)"
  obtain i where i: "i < RETAINED_CAL_WINDOW" "i < length ?s" "y = ?s ! i"
    using assms by (auto simp: in_set_conv_nth)
  have y: "y \<in> set (newer_rows table p)" using in_set_takeD [OF assms] by simp
  then show "y \<in> set table" "q_actual y" by (simp_all add: newer_rows_def)
  have "newer_rows table y = filter (\<lambda>q. q_target_time y < q_target_time q) (newer_rows table p)"
    using y unfolding newer_rows_def filter_filter by (intro filter_cong) auto
  then have "newer_in_series table y = length (filter (\<lambda>q. q_target_time y < q_target_time q) ?s)"
    unfolding newer_in_series_rows by (simp add: filter_sort)
  also have "\<dots> \<le> i" unfolding i(3) by (rule newer_than_nth [OF _ i(2)]) simp
  finally show "newer_in_series table y < RETAINED_CAL_WINDOW" using i(1) by simp
qed

lemma protected_row:
  assumes "distinct (map q_id table)" and "p \<in> set table"
  shows "protected_prediction ens table p \<longleftrightarrow> p \<in> set (newest_matured META_GATE_SAMPLES table) \<or>
     (q_actual p \<and> newer_in_series table p < RETAINED_CAL_WINDOW) \<or> ens \<le> q_target_time p"
proof -
  have inj: "x = p" if "x \<in> set table" "q_id x = q_id p" for x
    using assms that by (simp add: distinct_map inj_on_def)
  have "q_id p \<in> q_id ` set (newest_matured META_GATE_SAMPLES table) \<longleftrightarrow> p \<in> set (newest_matured META_GATE_SAMPLES table)"
    by (rule inj_on_image_mem_iff [of q_id "set table"])
      (use assms in \<open>auto simp: distinct_map newest_matured_def dest: in_set_takeD\<close>)
  moreover have "q_id p \<in> q_id ` {x \<in> set table. q_actual x \<and> newer_in_series table x < RETAINED_CAL_WINDOW} \<longleftrightarrow>
      q_actual p \<and> newer_in_series table p < RETAINED_CAL_WINDOW"
    using inj assms(2) by force
  ultimately show ?thesis unfolding protected_prediction_def by blast
qed

lemma old_prediction_stable: "stable_clause q_id (old_prediction cutoff ens)"
proof
  fix table gone r
  assume d: "distinct (map q_id table)" and r: "r \<in> set table" "\<not> gone r"
    and held: "\<And>x. x \<in> set table \<Longrightarrow> gone x \<Longrightarrow> old_prediction cutoff ens table x"
  let ?t = "filter (\<lambda>x. \<not> gone x) table"
  have kept: "\<not> gone x" if "x \<in> set table" "protected_prediction ens table x" for x
    using held that by (auto simp: old_prediction_def)
  have "\<not> gone x" if "x \<in> set (newest_matured META_GATE_SAMPLES table)" for x
  proof (rule kept)
    show t: "x \<in> set table" using that by (auto simp: newest_matured_def dest: in_set_takeD)
    show "protected_prediction ens table x" unfolding protected_row [OF d t] using that by blast
  qed
  then have gate: "newest_matured META_GATE_SAMPLES ?t = newest_matured META_GATE_SAMPLES table"
    unfolding newest_matured_def
    by (subst filter_filter, subst conj_commute, subst filter_filter [symmetric], subst filter_sort [symmetric])
      (rule take_filter_kept)
  have series: "newer_in_series ?t x < RETAINED_CAL_WINDOW \<longleftrightarrow> newer_in_series table x < RETAINED_CAL_WINDOW" for x
  proof
    have sub: "newer_rows ?t x = filter (\<lambda>x. \<not> gone x) (newer_rows table x)"
      unfolding newer_rows_def filter_filter by (rule filter_cong) auto
    show "newer_in_series table x < RETAINED_CAL_WINDOW \<Longrightarrow> newer_in_series ?t x < RETAINED_CAL_WINDOW"
      unfolding newer_in_series_rows sub by (rule le_less_trans [OF length_filter_le])
    let ?s = "sort_key (\<lambda>q. - q_target_time q) (newer_rows table x)"
    have "\<not> gone y" if "y \<in> set (take RETAINED_CAL_WINDOW ?s)" for y
    proof (rule kept)
      note n = newest_of_newer [OF that]
      show "y \<in> set table" by (rule n)
      show "protected_prediction ens table y" unfolding protected_row [OF d n(2)] using n by blast
    qed
    then have "take RETAINED_CAL_WINDOW (filter (\<lambda>x. \<not> gone x) ?s) = take RETAINED_CAL_WINDOW ?s"
      by (rule take_filter_kept)
    then have "length (take RETAINED_CAL_WINDOW (filter (\<lambda>x. \<not> gone x) ?s)) = length (take RETAINED_CAL_WINDOW ?s)" by simp
    moreover have "length (filter (\<lambda>x. \<not> gone x) ?s) = length (newer_rows ?t x)"
      unfolding sub filter_sort by simp
    ultimately show "newer_in_series ?t x < RETAINED_CAL_WINDOW \<Longrightarrow> newer_in_series table x < RETAINED_CAL_WINDOW"
      unfolding newer_in_series_rows by simp
  qed
  have dt: "distinct (map q_id ?t)" using d by (simp add: distinct_map_filter)
  have rt: "r \<in> set ?t" using r by simp
  show "old_prediction cutoff ens ?t r = old_prediction cutoff ens table r"
    unfolding old_prediction_def protected_row [OF dt rt] protected_row [OF d r(1)] gate series ..
qed

interpretation old_predictions: stable_clause q_id "old_prediction cutoff ens" for cutoff ens
  by (rule old_prediction_stable)
interpretation old_rows: stable_clause t_id "before_cutoff cutoff" for cutoff
  by (rule before_cutoff_stable)
interpretation old_runs: stable_clause id "surplus_run keep" for keep
  by (rule surplus_run_stable)
interpretation old_versions: stable_clause v_id "retired_version cutoff" for cutoff
  by (rule retired_version_stable)

section \<open>One table\<close>

context stable_clause
begin

lemma delete_batched_prunes:
  assumes "distinct (map pk table)" and "delete_batched fails name pk holds dry_run table = (res, table')"
  shows "\<exists>n. table' = prune n holds table"
proof (cases "fails 0 \<or> dry_run")
  case True
  then have "table' = prune 0 holds table" using assms(2)
    by (auto simp: delete_batched_def Let_def prune_def victims_def split: if_splits)
  then show ?thesis by blast
next
  case False
  let ?r = "\<lparr>tr_table = name, tr_deleted = 0, tr_batches = 0, tr_floor = NoFloor, tr_error = False\<rparr>"
  have "delete_loop fails pk holds ?r table = (res, table')"
    using assms(2) False by (simp add: delete_batched_def)
  from delete_loop_spec [OF assms(1) this] show ?thesis by blast
qed

lemma unmatched_survives:
  assumes "distinct (map pk table)" and "delete_batched fails name pk holds dry_run table = (res, table')"
    and "r \<in> set table" and "\<not> holds table r"
  shows "r \<in> set table'"
  using delete_batched_prunes [OF assms(1,2)] assms(3,4) victims_hold [of r _ holds table]
  by (auto simp: prune_def)

lemma nothing_added:
  assumes "distinct (map pk table)" and "delete_batched fails name pk holds dry_run table = (res, table')"
  shows "set table' \<subseteq> set table"
  using delete_batched_prunes [OF assms] by (auto simp: prune_def)

lemma undisturbed_run:
  assumes "distinct (map pk table)" and "\<And>i. \<not> fails i"
  shows "delete_batched fails name pk holds True table =
      (\<lparr>tr_table = name, tr_deleted = length (filter (holds table) table), tr_batches = 0,
        tr_floor = NoFloor, tr_error = False\<rparr>, table)"
    and "\<exists>res. delete_batched fails name pk holds False table = (res, prune (BATCH_ROWS * MAX_BATCHES) holds table) \<and>
      tr_deleted res = min (BATCH_ROWS * MAX_BATCHES) (length (filter (holds table) table)) \<and> \<not> tr_error res"
proof -
  show "delete_batched fails name pk holds True table =
      (\<lparr>tr_table = name, tr_deleted = length (filter (holds table) table), tr_batches = 0,
        tr_floor = NoFloor, tr_error = False\<rparr>, table)"
    using assms(2) by (simp add: delete_batched_def)
  let ?r = "\<lparr>tr_table = name, tr_deleted = 0, tr_batches = 0, tr_floor = NoFloor, tr_error = False\<rparr>"
  obtain res table' where run: "delete_loop fails pk holds ?r table = (res, table')" by fastforce
  from delete_loop_spec [OF assms(1) run] assms(2)
  show "\<exists>res. delete_batched fails name pk holds False table = (res, prune (BATCH_ROWS * MAX_BATCHES) holds table) \<and>
      tr_deleted res = min (BATCH_ROWS * MAX_BATCHES) (length (filter (holds table) table)) \<and> \<not> tr_error res"
    using run by (auto simp: delete_batched_def)
qed

end

text \<open>C35: Deleting old predictions in batches of 5,000 refines one statement bounded by 1,000,000
  rows: although every batch re-evaluates a clause that reads the shrinking table itself, together
  they remove exactly the first million matching rows of the table as it was, and the count is the
  one a dry run announced, cut at a million; the dry run itself leaves the table alone.\<close>

theorem batches_refine_one_statement:
  assumes "distinct (map q_id table)" and "\<And>i. \<not> fails i"
  shows "\<exists>dry real. delete_batched fails name q_id (old_prediction cutoff ens) True table = (dry, table) \<and>
    delete_batched fails name q_id (old_prediction cutoff ens) False table =
      (real, filter (\<lambda>p. p \<notin> set (take 1000000 (filter (old_prediction cutoff ens table) table))) table) \<and>
    tr_deleted real = min 1000000 (tr_deleted dry) \<and> \<not> tr_error real"
proof -
  have cap: "BATCH_ROWS * MAX_BATCHES = 1000000" by (simp add: BATCH_ROWS_def MAX_BATCHES_def)
  show ?thesis
    using old_predictions.undisturbed_run [of table fails name cutoff ens, OF assms]
    unfolding cap prune_def victims_def by fastforce
qed

definition stale_prediction :: prediction where
  "stale_prediction = \<lparr>q_id = 1, q_symbol = ''A'', q_horizon = ''1h'', q_predicted_at = 5,
     q_target_time = 9, q_actual = False\<rparr>"

theorem batches_refine_one_statement_witness:
  "\<exists>real. delete_batched (\<lambda>i. False) ''predictions'' q_id (old_prediction 50 100) False [stale_prediction] = (real, [])"
proof -
  have "old_prediction 50 100 [stale_prediction] stale_prediction"
    by (auto simp: old_prediction_def protected_prediction_def newest_matured_def stale_prediction_def)
  then show ?thesis
    using batches_refine_one_statement [of "[stale_prediction]" "\<lambda>i. False" "''predictions''" 50 100] by simp blast
qed

section \<open>The whole run\<close>

text \<open>The rows the policy promises to keep.\<close>

definition kept_runs :: "nat \<Rightarrow> int list \<Rightarrow> int list" where
  "kept_runs keep table = take keep (rev (sort table))"

lemma surplus_run_kept: "i \<in> set (kept_runs keep table) \<Longrightarrow> \<not> surplus_run keep table i"
proof -
  assume i: "i \<in> set (kept_runs keep table)"
  then have ne: "kept_runs keep table \<noteq> []" by force
  show ?thesis using ne i unfolding surplus_run_def kept_runs_def [symmetric] Let_def by auto
qed

text \<open>Ids are unique, as the primary keys make them.\<close>

definition keys_unique :: "retention_db \<Rightarrow> bool" where
  "keys_unique db \<longleftrightarrow> distinct (map q_id (rd_predictions db)) \<and> distinct (map t_id (rd_signals db)) \<and>
     distinct (rd_training_runs db) \<and> distinct (map v_id (rd_model_versions db)) \<and>
     distinct (map t_id (rd_alert_events db)) \<and> distinct (map t_id (rd_audit_logs db))"

lemma run_retention_cases:
  assumes "run_retention fails st now dry_run db = (rs, db')"
  obtains r1 r3 r4 r6 where
    "delete_batched (fails ''predictions'') ''predictions'' q_id
       (old_prediction (now - days_of (prediction_retention_days st) 730 * day_us)
          (now - ENSEMBLE_WINDOW_DAYS * day_us)) dry_run (rd_predictions db) = (r1, rd_predictions db')"
    "delete_batched (fails ''training_runs'') ''training_runs'' id
       (surplus_run (nat (days_of (training_run_keep st) 200))) dry_run (rd_training_runs db) = (r3, rd_training_runs db')"
    "delete_batched (fails ''model_versions'') ''model_versions'' v_id
       (retired_version (now - days_of (model_version_retention_days st) 180 * day_us)) dry_run
       (rd_model_versions db) = (r4, rd_model_versions db')"
    "delete_batched (fails ''audit_logs'') ''audit_logs'' t_id
       (before_cutoff (now - max (days_of (audit_retention_days st) 730) MIN_AUDIT_RETENTION_DAYS * day_us)) dry_run
       (rd_audit_logs db) = (r6, rd_audit_logs db')"
  using assms unfolding run_retention_def Let_def by (auto split: prod.splits)

text \<open>C10: Whichever statements raise, and whatever windows are configured, a retention run adds no
  prediction and never deletes a prediction that a self-learning loop still needs (the 500 newest
  matured, the 60 newest of its series, the last 120 days), one newer than the configured age, an
  active model version, one of the newest training runs, or an audit row younger than a year.\<close>

theorem retention_keeps_protected:
  assumes "keys_unique db" and "run_retention fails st now dry_run db = (rs, db')"
  shows "set (rd_predictions db') \<subseteq> set (rd_predictions db) \<and>
    (\<forall>p \<in> set (rd_predictions db).
       protected_prediction (now - 120 * day_us) (rd_predictions db) p \<or>
       now - days_of (prediction_retention_days st) 730 * day_us \<le> q_predicted_at p \<longrightarrow> p \<in> set (rd_predictions db')) \<and>
    (\<forall>v \<in> set (rd_model_versions db). v_active v \<longrightarrow> v \<in> set (rd_model_versions db')) \<and>
    set (kept_runs (nat (days_of (training_run_keep st) 200)) (rd_training_runs db)) \<subseteq> set (rd_training_runs db') \<and>
    (\<forall>r \<in> set (rd_audit_logs db). now - 365 * day_us \<le> t_at r \<longrightarrow> r \<in> set (rd_audit_logs db'))"
proof -
  obtain r1 r3 r4 r6 where run:
    "delete_batched (fails ''predictions'') ''predictions'' q_id
       (old_prediction (now - days_of (prediction_retention_days st) 730 * day_us)
          (now - ENSEMBLE_WINDOW_DAYS * day_us)) dry_run (rd_predictions db) = (r1, rd_predictions db')"
    "delete_batched (fails ''training_runs'') ''training_runs'' id
       (surplus_run (nat (days_of (training_run_keep st) 200))) dry_run (rd_training_runs db) = (r3, rd_training_runs db')"
    "delete_batched (fails ''model_versions'') ''model_versions'' v_id
       (retired_version (now - days_of (model_version_retention_days st) 180 * day_us)) dry_run
       (rd_model_versions db) = (r4, rd_model_versions db')"
    "delete_batched (fails ''audit_logs'') ''audit_logs'' t_id
       (before_cutoff (now - max (days_of (audit_retention_days st) 730) MIN_AUDIT_RETENTION_DAYS * day_us)) dry_run
       (rd_audit_logs db) = (r6, rd_audit_logs db')"
    by (rule run_retention_cases [OF assms(2)])
  have d: "distinct (map q_id (rd_predictions db))" "distinct (map id (rd_training_runs db))"
    "distinct (map v_id (rd_model_versions db))" "distinct (map t_id (rd_audit_logs db))"
    using assms(1) by (simp_all add: keys_unique_def)
  have days: "now - max n MIN_AUDIT_RETENTION_DAYS * day_us \<le> now - 365 * day_us" for n
  proof -
    have "365 \<le> max n MIN_AUDIT_RETENTION_DAYS" by (simp add: MIN_AUDIT_RETENTION_DAYS_def)
    moreover have "0 \<le> day_us" by simp
    ultimately have "365 * day_us \<le> max n MIN_AUDIT_RETENTION_DAYS * day_us" by (rule mult_right_mono)
    then show ?thesis by linarith
  qed
  have p: "p \<in> set (rd_predictions db')" if "p \<in> set (rd_predictions db)"
    "protected_prediction (now - 120 * day_us) (rd_predictions db) p \<or>
     now - days_of (prediction_retention_days st) 730 * day_us \<le> q_predicted_at p" for p
    by (rule old_predictions.unmatched_survives [OF d(1) run(1) that(1)])
      (use that(2) in \<open>auto simp: old_prediction_def ENSEMBLE_WINDOW_DAYS_def\<close>)
  have v: "v \<in> set (rd_model_versions db')" if "v \<in> set (rd_model_versions db)" "v_active v" for v
    by (rule old_versions.unmatched_survives [OF d(3) run(3) that(1)]) (simp add: retired_version_def that(2))
  have t: "i \<in> set (rd_training_runs db')" if "i \<in> set (kept_runs (nat (days_of (training_run_keep st) 200)) (rd_training_runs db))" for i
    by (rule old_runs.unmatched_survives [OF d(2) run(2) _ surplus_run_kept [OF that]])
      (use that in \<open>auto simp: kept_runs_def dest: in_set_takeD\<close>)
  have a: "r \<in> set (rd_audit_logs db')" if "r \<in> set (rd_audit_logs db)" "now - 365 * day_us \<le> t_at r" for r
    by (rule old_rows.unmatched_survives [OF d(4) run(4) that(1)])
      (use days that(2) in \<open>unfold before_cutoff_def not_less, rule order_trans\<close>)
  show ?thesis using old_predictions.nothing_added [OF d(1) run(1)] p v t a by blast
qed

theorem retention_keeps_protected_witness:
  "stale_prediction \<in> set (rd_predictions (snd (run_retention (\<lambda>_ _. False)
     \<lparr>prediction_retention_days = None, signal_retention_days = None, training_run_keep = None,
      model_version_retention_days = None, alert_event_retention_days = None, audit_retention_days = None\<rparr> 0 False
     \<lparr>rd_predictions = [stale_prediction], rd_signals = [], rd_training_runs = [], rd_model_versions = [],
      rd_alert_events = [], rd_audit_logs = []\<rparr>)))"
proof -
  let ?db = "\<lparr>rd_predictions = [stale_prediction], rd_signals = [], rd_training_runs = [], rd_model_versions = [],
      rd_alert_events = [], rd_audit_logs = []\<rparr>"
  let ?st = "\<lparr>prediction_retention_days = None, signal_retention_days = None, training_run_keep = None,
      model_version_retention_days = None, alert_event_retention_days = None, audit_retention_days = None\<rparr>"
  obtain rs db' where run: "run_retention (\<lambda>_ _. False) ?st 0 False ?db = (rs, db')" by fastforce
  have k: "keys_unique ?db" by (simp add: keys_unique_def)
  have "protected_prediction (0 - 120 * day_us) [stale_prediction] stale_prediction"
    by (simp add: protected_prediction_def stale_prediction_def)
  then show ?thesis using retention_keeps_protected [OF k run] unfolding run snd_conv by simp
qed

section \<open>The reported floor\<close>

lemma newest_matured_ge:
  assumes "p \<in> set table" "q_actual p" "n > 0"
    and "length (filter (\<lambda>q. q_actual q \<and> q_target_time p < q_target_time q) table) < n"
  shows "\<exists>q \<in> set (newest_matured n table). q_target_time q \<le> q_target_time p"
proof (rule ccontr)
  assume none: "\<not> ?thesis"
  let ?s = "sort_key (\<lambda>p. - q_target_time p) (filter q_actual table)"
  have "p \<in> set ?s" using assms(1,2) by simp
  have "n \<le> length ?s"
  proof (rule ccontr)
    assume "\<not> n \<le> length ?s"
    then have "newest_matured n table = ?s" by (simp add: newest_matured_def)
    then show False using none \<open>p \<in> set ?s\<close> by auto
  qed
  then have "n = length (newest_matured n table)" by (simp add: newest_matured_def)
  also have "newest_matured n table = filter (\<lambda>q. q_target_time p < q_target_time q) (take n ?s)"
    using none unfolding newest_matured_def by (intro filter_True [symmetric]) auto
  also have "length \<dots> \<le> length (filter (\<lambda>q. q_target_time p < q_target_time q) ?s)"
    by (metis append_take_drop_id filter_append le_add1 length_append)
  also have "\<dots> = length (filter (\<lambda>q. q_actual q \<and> q_target_time p < q_target_time q) table)"
    by (simp add: filter_sort conj_commute)
  finally show False using assms(4) by simp
qed

text \<open>The floor reported with the predictions is never absent, so the documented case of a floor
  that protects everything does not arise, and no protected prediction lies before it.\<close>

theorem floor_is_below_protected:
  assumes "p \<in> set table" and "distinct (map q_id table)"
    and "protected_prediction (now - ENSEMBLE_WINDOW_DAYS * day_us) table p"
  shows "\<exists>f. protected_prediction_cutoff table now = (Some f, SelfLearningWindows) \<and> f \<le> q_target_time p"
proof -
  let ?ens = "now - ENSEMBLE_WINDOW_DAYS * day_us"
  let ?gate = "newest_matured META_GATE_SAMPLES table"
  let ?gf = "if ?gate = [] then [] else [Min (q_target_time ` set ?gate)]"
  let ?cals = "List.map_filter (series_floor table) (remdups (map (\<lambda>p. (q_symbol p, q_horizon p)) table))"
  let ?cf = "if ?cals = [] then [] else [Min (set ?cals)]"
  let ?F = "set (?gf @ ?cf @ [?ens])"
  have eq: "protected_prediction_cutoff table now = (Some (Min ?F), SelfLearningWindows)"
    by (simp add: protected_prediction_cutoff_def Let_def)
  have fin: "finite ?F" by blast
  have below: "Min ?F \<le> f" if "f \<in> ?F" for f using that fin by (rule Min_le [rotated])
  from assms(3) consider (gate) "p \<in> set ?gate" | (cal) "q_actual p" "newer_in_series table p < RETAINED_CAL_WINDOW"
    | (ens) "?ens \<le> q_target_time p" unfolding protected_row [OF assms(2,1)] by blast
  then have "Min ?F \<le> q_target_time p"
  proof cases
    case gate
    then have ne: "?gate \<noteq> []" by force
    then have "Min (q_target_time ` set ?gate) \<in> ?F" by simp
    moreover have "Min (q_target_time ` set ?gate) \<le> q_target_time p" using gate by simp
    ultimately show ?thesis by (blast intro: order_trans below)
  next
    case cal
    let ?sy = "(q_symbol p, q_horizon p)"
    let ?own = "filter (\<lambda>x. (q_symbol x, q_horizon x) = ?sy) table"
    have "filter (\<lambda>q. q_actual q \<and> q_target_time p < q_target_time q) ?own = newer_rows table p"
      unfolding newer_rows_def filter_filter by (rule filter_cong) auto
    then have "length (filter (\<lambda>q. q_actual q \<and> q_target_time p < q_target_time q) ?own) < RETAINED_CAL_WINDOW"
      using cal(2) by (simp add: newer_in_series_rows)
    then obtain q where q: "q \<in> set (newest_matured RETAINED_CAL_WINDOW ?own)" "q_target_time q \<le> q_target_time p"
      using newest_matured_ge [of p ?own RETAINED_CAL_WINDOW] assms(1) cal(1) by (auto simp: RETAINED_CAL_WINDOW_def)
    let ?m = "Min (q_target_time ` set (newest_matured RETAINED_CAL_WINDOW ?own))"
    have ne: "newest_matured RETAINED_CAL_WINDOW ?own \<noteq> []" using q(1) by force
    have "series_floor table ?sy = Some ?m" unfolding series_floor_def Let_def if_not_P [OF ne] ..
    then have m: "?m \<in> set ?cals" using assms(1) by (force simp: List.map_filter_def)
    then have "?cals \<noteq> []" by force
    then have "Min (set ?cals) \<in> ?F" by simp
    moreover have "Min (set ?cals) \<le> ?m" using m by simp
    moreover have "?m \<le> q_target_time q" using q(1) by simp
    ultimately show ?thesis using q(2) below by (meson order_trans)
  next
    case ens
    moreover have "?ens \<in> ?F" by simp
    ultimately show ?thesis by (blast intro: order_trans below)
  qed
  then show ?thesis unfolding eq by blast
qed

theorem floor_is_below_protected_witness:
  "\<exists>f. protected_prediction_cutoff [stale_prediction] 0 = (Some f, SelfLearningWindows) \<and> f \<le> 9"
proof -
  have "protected_prediction (0 - ENSEMBLE_WINDOW_DAYS * day_us) [stale_prediction] stale_prediction"
    by (simp add: protected_prediction_def stale_prediction_def ENSEMBLE_WINDOW_DAYS_def)
  then show ?thesis
    using floor_is_below_protected [of stale_prediction "[stale_prediction]" 0] by (simp add: stale_prediction_def)
qed

end
