(* ===== verification/Net_Address.thy ===== *)
theory Net_Address
  imports PyJson "HOL-Library.Word"
begin

text \<open>
  Network addresses as Python's \<^verbatim>\<open>ipaddress\<close> (3.12) reads and classifies them, and the address
  check of \<^verbatim>\<open>app/news/safefetch.py\<close> on top of it. An IPv4 address is a 32-bit word and an IPv6
  address a 128-bit word; a network is a base address with a prefix length. The zone of a scoped
  IPv6 address takes no part in the classification and is dropped after parsing.

  Shown: an accepted IPv4 address lies outside every non-public range, an IPv4-mapped IPv6 address is
  judged as the IPv4 address it hides, and a dotted quad is read as the address it spells.
\<close>

section \<open>Strings\<close>

text \<open>\<^verbatim>\<open>s.partition(c)\<close>: the part before the first \<open>c\<close>, whether there was one, and the rest.\<close>

fun partition_at :: "char \<Rightarrow> string \<Rightarrow> string \<times> bool \<times> string" where
  "partition_at c [] = ([], False, [])"
| "partition_at c (x # xs) =
     (if x = c then ([], True, xs) else let (a, found, b) = partition_at c xs in (x # a, found, b))"

text \<open>\<^verbatim>\<open>s.rpartition(c)\<close>: split at the last \<open>c\<close>; everything is after it when there is none.\<close>

definition rpartition_at :: "char \<Rightarrow> string \<Rightarrow> string \<times> bool \<times> string" where
  "rpartition_at c s = (let (b, found, a) = partition_at c (rev s) in
     if found then (rev a, True, rev b) else ([], False, s))"

text \<open>\<^verbatim>\<open>s.lower()\<close> on code points below 256.\<close>

definition lower_char :: "char \<Rightarrow> char" where
  "lower_char c = (let n = of_char c :: int in
     if (65 \<le> n \<and> n \<le> 90) \<or> (192 \<le> n \<and> n \<le> 222 \<and> n \<noteq> 215) then char_of (n + 32) else c)"

definition lower :: "string \<Rightarrow> string" where
  "lower s = map lower_char s"

definition hex_value :: "char \<Rightarrow> int option" where
  "hex_value c = (let n = of_char c :: int in
     if 48 \<le> n \<and> n \<le> 57 then Some (n - 48)
     else if 97 \<le> n \<and> n \<le> 102 then Some (n - 87)
     else if 65 \<le> n \<and> n \<le> 70 then Some (n - 55) else None)"

section \<open>Parsing\<close>

datatype ip_address = V4 "32 word" | V6 "128 word"

definition parse_octet :: "string \<Rightarrow> int option" where
  "parse_octet s =
     (if s = [] \<or> \<not> list_all (\<lambda>c. digit_value c \<noteq> None) s then None
      else if 3 < length s then None
      else if s \<noteq> ''0'' \<and> hd s = CHR ''0'' then None
      else case digits_value 0 s of None \<Rightarrow> None | Some n \<Rightarrow> if 255 < n then None else Some n)"

definition quad :: "int \<Rightarrow> int \<Rightarrow> int \<Rightarrow> int \<Rightarrow> 32 word" where
  "quad a b c d = word_of_int (((a * 256 + b) * 256 + c) * 256 + d)"

definition parse_ipv4 :: "string \<Rightarrow> (32 word) option" where
  "parse_ipv4 s = (case map parse_octet (py_split (CHR ''.'') s) of
       [Some a, Some b, Some c, Some d] \<Rightarrow> Some (quad a b c d)
     | _ \<Rightarrow> None)"

text \<open>Up to four hexadecimal digits; the empty text is not a number.\<close>

definition parse_hextet :: "string \<Rightarrow> int option" where
  "parse_hextet s =
     (if s = [] \<or> 4 < length s then None
      else fold (\<lambda>c acc. case acc of None \<Rightarrow> None | Some n \<Rightarrow> map_option (\<lambda>d. 16 * n + d) (hex_value c)) s (Some 0))"

definition hextets :: "int list \<Rightarrow> 128 word" where
  "hextets hs = word_of_int (fold (\<lambda>h n. n * 65536 + h) hs 0)"

fun all_some :: "'a option list \<Rightarrow> 'a list option" where
  "all_some [] = Some []"
| "all_some (None # xs) = None"
| "all_some (Some x # xs) = map_option (Cons x) (all_some xs)"

text \<open>A dotted IPv4 tail stands for two hextets.\<close>

datatype part = Text string | Number int

definition part_value :: "part \<Rightarrow> int option" where
  "part_value p = (case p of Text s \<Rightarrow> parse_hextet s | Number n \<Rightarrow> Some n)"

definition expand_tail :: "string list \<Rightarrow> part list option" where
  "expand_tail parts =
     (if CHR ''.'' \<in> set (last parts) then
        (case parse_ipv4 (last parts) of None \<Rightarrow> None
         | Some w \<Rightarrow> Some (map Text (butlast parts) @ [Number (uint w div 65536), Number (uint w mod 65536)]))
      else Some (map Text parts))"

text \<open>The positions of the empty parts strictly inside.\<close>

definition gaps :: "part list \<Rightarrow> nat list" where
  "gaps ps = filter (\<lambda>i. ps ! i = Text []) [1..<length ps - 1]"

definition ipv6_of_parts :: "part list \<Rightarrow> (128 word) option" where
  "ipv6_of_parts ps =
     (case gaps ps of
        [] \<Rightarrow> if length ps \<noteq> 8 \<or> hd ps = Text [] \<or> last ps = Text [] then None
              else map_option hextets (all_some (map part_value ps))
      | [skip] \<Rightarrow>
          let hi = (if hd ps = Text [] then skip - 1 else skip);
              lo = (if last ps = Text [] then length ps - skip - 2 else length ps - skip - 1)
          in if hd ps = Text [] \<and> hi \<noteq> 0 then None
             else if last ps = Text [] \<and> lo \<noteq> 0 then None
             else if 8 < hi + lo + 1 then None
             else (case (all_some (map part_value (take hi ps)), all_some (map part_value (drop (length ps - lo) ps))) of
                     (Some a, Some b) \<Rightarrow> Some (hextets (a @ replicate (8 - (hi + lo)) 0 @ b))
                   | _ \<Rightarrow> None)
      | _ \<Rightarrow> None)"

definition parse_ipv6 :: "string \<Rightarrow> (128 word) option" where
  "parse_ipv6 raw =
     (let (s, scoped, zone) = partition_at (CHR ''%'') raw in
      if CHR ''/'' \<in> set raw then None
      else if scoped \<and> (zone = [] \<or> CHR ''%'' \<in> set zone) then None
      else let parts = py_split (CHR '':'') s in
        if length parts < 3 then None
        else case expand_tail parts of None \<Rightarrow> None
             | Some ps \<Rightarrow> if 9 < length ps then None else ipv6_of_parts ps)"

text \<open>\<^verbatim>\<open>ipaddress.ip_address(raw)\<close>; None where it raises.\<close>

definition ip_address_of :: "string \<Rightarrow> ip_address option" where
  "ip_address_of raw = (case parse_ipv4 raw of Some a \<Rightarrow> Some (V4 a) | None \<Rightarrow> map_option V6 (parse_ipv6 raw))"

section \<open>Networks\<close>

definition in_net :: "'a::len word \<Rightarrow> 'a word \<times> nat \<Rightarrow> bool" where
  "in_net a net = (let host = LENGTH('a) - snd net in drop_bit host a = drop_bit host (fst net))"

definition PRIVATE_V4 :: "(32 word \<times> nat) list" where
  "PRIVATE_V4 = [(quad 0 0 0 0, 8), (quad 10 0 0 0, 8), (quad 127 0 0 0, 8), (quad 169 254 0 0, 16),
     (quad 172 16 0 0, 12), (quad 192 0 0 0, 24), (quad 192 0 0 170, 31), (quad 192 0 2 0, 24),
     (quad 192 168 0 0, 16), (quad 198 18 0 0, 15), (quad 198 51 100 0, 24), (quad 203 0 113 0, 24),
     (quad 240 0 0 0, 4), (quad 255 255 255 255, 32)]"

definition PRIVATE_EXCEPTIONS_V4 :: "(32 word \<times> nat) list" where
  "PRIVATE_EXCEPTIONS_V4 = [(quad 192 0 0 9, 32), (quad 192 0 0 10, 32)]"

text \<open>The hextets of a base address, padded with zeros.\<close>

definition base6 :: "int list \<Rightarrow> 128 word" where
  "base6 hs = hextets (hs @ replicate (8 - length hs) 0)"

definition PRIVATE_V6 :: "(128 word \<times> nat) list" where
  "PRIVATE_V6 = [(1, 128), (0, 128), (hextets [0, 0, 0, 0, 0, 0xFFFF, 0, 0], 96), (base6 [0x64, 0xFF9B, 1], 48),
     (base6 [0x100], 64), (base6 [0x2001], 23), (base6 [0x2001, 0xDB8], 32), (base6 [0x2002], 16),
     (base6 [0xFC00], 7), (base6 [0xFE80], 10)]"

definition PRIVATE_EXCEPTIONS_V6 :: "(128 word \<times> nat) list" where
  "PRIVATE_EXCEPTIONS_V6 = [(hextets [0x2001, 1, 0, 0, 0, 0, 0, 1], 128), (hextets [0x2001, 1, 0, 0, 0, 0, 0, 2], 128),
     (base6 [0x2001, 3], 32), (base6 [0x2001, 4, 0x112], 48), (base6 [0x2001, 0x20], 28), (base6 [0x2001, 0x30], 28)]"

definition RESERVED_V6 :: "(128 word \<times> nat) list" where
  "RESERVED_V6 = [(0, 8), (base6 [0x100], 8), (base6 [0x200], 7), (base6 [0x400], 6), (base6 [0x800], 5),
     (base6 [0x1000], 4), (base6 [0x4000], 3), (base6 [0x6000], 3), (base6 [0x8000], 3), (base6 [0xA000], 3),
     (base6 [0xC000], 3), (base6 [0xE000], 4), (base6 [0xF000], 5), (base6 [0xF800], 6), (base6 [0xFE00], 9)]"

definition ipv4_mapped :: "128 word \<Rightarrow> (32 word) option" where
  "ipv4_mapped a = (if drop_bit 32 a = 0xFFFF then Some (ucast a) else None)"

definition private4 :: "32 word \<Rightarrow> bool" where
  "private4 a \<longleftrightarrow> list_ex (in_net a) PRIVATE_V4 \<and> \<not> list_ex (in_net a) PRIVATE_EXCEPTIONS_V4"

definition private6 :: "128 word \<Rightarrow> bool" where
  "private6 a = (case ipv4_mapped a of Some b \<Rightarrow> private4 b
     | None \<Rightarrow> list_ex (in_net a) PRIVATE_V6 \<and> \<not> list_ex (in_net a) PRIVATE_EXCEPTIONS_V6)"

section \<open>The address check\<close>

datatype address_class =
    NotAnAddress | Unspecified | Loopback | LinkLocal | Multicast | Private | Reserved | NonGlobal

definition classify_v4 :: "32 word \<Rightarrow> address_class option" where
  "classify_v4 a =
     (if a = 0 then Some Unspecified
      else if in_net a (quad 127 0 0 0, 8) then Some Loopback
      else if in_net a (quad 169 254 0 0, 16) then Some LinkLocal
      else if in_net a (quad 224 0 0 0, 4) then Some Multicast
      else if private4 a then Some Private
      else if in_net a (quad 240 0 0 0, 4) then Some Reserved
      else if in_net a (quad 100 64 0 0, 10) \<or> private4 a then Some NonGlobal
      else None)"

definition classify_v6 :: "128 word \<Rightarrow> address_class option" where
  "classify_v6 a =
     (if a = 0 then Some Unspecified
      else if a = 1 then Some Loopback
      else if in_net a (base6 [0xFE80], 10) then Some LinkLocal
      else if in_net a (base6 [0xFF00], 8) then Some Multicast
      else if private6 a then Some Private
      else if list_ex (in_net a) RESERVED_V6 then Some Reserved
      else if private6 a then Some NonGlobal
      else None)"

definition classify_ip :: "ip_address \<Rightarrow> address_class option" where
  "classify_ip ip = (case ip of V4 a \<Rightarrow> classify_v4 a
     | V6 a \<Rightarrow> (case ipv4_mapped a of Some b \<Rightarrow> classify_v4 b | None \<Rightarrow> classify_v6 a))"

definition classify_address :: "string \<Rightarrow> address_class option" where
  "classify_address raw = (case ip_address_of raw of None \<Rightarrow> Some NotAnAddress | Some ip \<Rightarrow> classify_ip ip)"

section \<open>Reading a dotted quad\<close>

definition dotted :: "int \<Rightarrow> int \<Rightarrow> int \<Rightarrow> int \<Rightarrow> string" where
  "dotted a b c d = int_str a @ CHR ''.'' # int_str b @ CHR ''.'' # int_str c @ CHR ''.'' # int_str d"

lemma digit_char [simp]: "0 \<le> k \<Longrightarrow> k < 10 \<Longrightarrow> digit_value (char_of (48 + k)) = Some k"
  by (simp add: digit_value_def Let_def)

lemma octet_digits:
  assumes "0 \<le> n" "n \<le> 255"
  shows "int_str n = (if n < 10 then [char_of (48 + n)]
     else if n < 100 then [char_of (48 + n div 10), char_of (48 + n mod 10)]
     else [char_of (48 + n div 100), char_of (48 + n div 10 mod 10), char_of (48 + n mod 10)])"
proof -
  have one: "nat_digits k = [char_of (48 + k)]" if "k < 10" for k
    using that by (simp add: nat_digits.simps)
  have two: "nat_digits k = [char_of (48 + k div 10), char_of (48 + k mod 10)]" if "10 \<le> k" "k < 100" for k
  proof -
    have "k div 10 < 10" using that by linarith
    then show ?thesis using that one [of "k div 10"] by (subst nat_digits.simps) simp
  qed
  have three: "nat_digits k = [char_of (48 + k div 100), char_of (48 + k div 10 mod 10), char_of (48 + k mod 10)]"
    if "100 \<le> k" "k < 256" for k
  proof -
    have "10 \<le> k div 10" "k div 10 < 100" using that by linarith+
    moreover have "k div 10 div 10 = k div 100" using zdiv_zmult2_eq [of 10 k 10] by simp
    ultimately show ?thesis using that two [of "k div 10"] by (subst nat_digits.simps) simp
  qed
  show ?thesis unfolding int_str_def using assms one [of n] two [of n] three [of n] by auto
qed

lemma digit_char_eq:
  assumes "0 \<le> k" "k < 10" "0 \<le> j" "j < 10"
  shows "char_of (48 + k :: int) = (char_of (48 + j) :: char) \<longleftrightarrow> k = j"
proof
  assume "char_of (48 + k) = (char_of (48 + j) :: char)"
  then have "digit_value (char_of (48 + k)) = digit_value (char_of (48 + j))" by (rule arg_cong)
  then show "k = j" using digit_char [OF assms(1,2)] digit_char [OF assms(3,4)] by simp
qed simp

lemma zero_char: "CHR ''0'' = char_of (48 + 0 :: int)"
  by (simp add: char_of_def)

lemma leading_digit: "0 < k \<Longrightarrow> k < 10 \<Longrightarrow> char_of (48 + k :: int) \<noteq> CHR ''0''"
  unfolding zero_char using digit_char_eq [of k 0] by simp

lemma parse_octet_digits:
  assumes "0 \<le> z" "z < 10"
  shows "parse_octet [char_of (48 + z)] = Some z"
    and "0 < y \<Longrightarrow> y < 10 \<Longrightarrow> parse_octet [char_of (48 + y), char_of (48 + z)] = Some (10 * y + z)"
    and "0 < x \<Longrightarrow> x < 10 \<Longrightarrow> 0 \<le> y \<Longrightarrow> y < 10 \<Longrightarrow> 10 * (10 * x + y) + z \<le> 255 \<Longrightarrow>
      parse_octet [char_of (48 + x), char_of (48 + y), char_of (48 + z)] = Some (10 * (10 * x + y) + z)"
  using assms unfolding parse_octet_def
  by (simp_all add: digit_char leading_digit del: char_of_eq_iff)

lemma parse_octet_str:
  assumes "0 \<le> n" "n \<le> 255"
  shows "parse_octet (int_str n) = Some n"
proof -
  have z: "0 \<le> n mod 10" "n mod 10 < 10" by simp_all
  have d10: "10 * (n div 10) + n mod 10 = n" by simp
  have d100: "10 * (10 * (n div 100) + n div 10 mod 10) + n mod 10 = n"
    using zdiv_zmult2_eq [of 10 n 10] by simp
  consider "n < 10" | "10 \<le> n" "n < 100" | "100 \<le> n" by linarith
  then show ?thesis
  proof cases
    case 1
    then show ?thesis unfolding octet_digits [OF assms] using parse_octet_digits(1) [of n] assms by simp
  next
    case 2
    then have "0 < n div 10" "n div 10 < 10" by linarith+
    then show ?thesis unfolding octet_digits [OF assms] using parse_octet_digits(2) [OF z] d10 2 by simp
  next
    case 3
    have "0 < n div 100" "n div 100 < 10" using 3 assms by linarith+
    moreover have "0 \<le> n div 10 mod 10" "n div 10 mod 10 < 10" by simp_all
    ultimately have "parse_octet [char_of (48 + n div 100), char_of (48 + n div 10 mod 10), char_of (48 + n mod 10)]
        = Some (10 * (10 * (n div 100) + n div 10 mod 10) + n mod 10)"
      by (rule parse_octet_digits(3) [OF z]) (use d100 assms in linarith)
    then show ?thesis unfolding octet_digits [OF assms] d100 using 3 by simp
  qed
qed

lemma char_of_digit_less: "0 \<le> k \<Longrightarrow> k < 10 \<Longrightarrow> (of_char (char_of (48 + k :: int) :: char) :: int) < 58"
  by simp

lemma digits_clear:
  assumes "0 \<le> n" "n \<le> 255" "c \<in> {CHR ''.'', CHR '':'', CHR ''/'', CHR ''%''}"
  shows "c \<notin> set (int_str n)"
proof
  assume "c \<in> set (int_str n)"
  moreover have "parse_octet (int_str n) \<noteq> None" using parse_octet_str [OF assms(1,2)] by simp
  ultimately have "digit_value c \<noteq> None" by (auto simp: parse_octet_def list_all_iff split: if_splits)
  then show False using assms(3) by (auto simp: digit_value_def Let_def)
qed

lemma py_split_skip: "sep \<notin> set w \<Longrightarrow> py_split sep (w @ sep # s) = w # py_split sep s"
  by (induction w) auto

lemma py_split_none: "sep \<notin> set w \<Longrightarrow> py_split sep w = [w]"
  by (induction w) auto

definition octets :: "int \<Rightarrow> int \<Rightarrow> int \<Rightarrow> int \<Rightarrow> bool" where
  "octets a b c d \<longleftrightarrow> 0 \<le> a \<and> a \<le> 255 \<and> 0 \<le> b \<and> b \<le> 255 \<and> 0 \<le> c \<and> c \<le> 255 \<and> 0 \<le> d \<and> d \<le> 255"

lemma parse_dotted:
  assumes "octets a b c d"
  shows "parse_ipv4 (dotted a b c d) = Some (quad a b c d)"
  using assms unfolding parse_ipv4_def dotted_def octets_def
  by (simp add: py_split_skip py_split_none digits_clear parse_octet_str)

section \<open>The ranges in terms of octets\<close>

definition quad_int :: "int \<Rightarrow> int \<Rightarrow> int \<Rightarrow> int \<Rightarrow> int" where
  "quad_int a b c d = ((a * 256 + b) * 256 + c) * 256 + d"

lemma uint_quad:
  assumes "octets a b c d"
  shows "uint (quad a b c d) = quad_int a b c d"
proof -
  have "0 \<le> quad_int a b c d" "quad_int a b c d < 2 ^ 32"
    using assms unfolding octets_def quad_int_def by simp_all
  then show ?thesis unfolding quad_def quad_int_def [symmetric] by (simp add: uint_word_of_int take_bit_int_eq_self)
qed

lemma uint_shifted: "uint (drop_bit n w) = uint w div 2 ^ n" for w :: "'a::len word"
  unfolding unsigned_drop_bit_eq by (simp add: drop_bit_eq_div take_bit_int_eq_self)

lemma in_net_uint:
  "in_net a net \<longleftrightarrow> uint a div 2 ^ (LENGTH('a) - snd net) = uint (fst net) div 2 ^ (LENGTH('a) - snd net)"
  for a :: "'a::len word"
  unfolding in_net_def Let_def word_uint_eq_iff uint_shifted ..

lemma quad_int_div:
  assumes "octets a b c d"
  shows "quad_int a b c d div 2 ^ 28 = a div 16"
    and "quad_int a b c d div 2 ^ 24 = a"
    and "quad_int a b c d div 2 ^ 22 = a * 4 + b div 64"
    and "quad_int a b c d div 2 ^ 20 = a * 16 + b div 16"
    and "quad_int a b c d div 2 ^ 17 = a * 128 + b div 2"
    and "quad_int a b c d div 2 ^ 16 = a * 256 + b"
    and "quad_int a b c d div 2 ^ 8 = (a * 256 + b) * 256 + c"
    and "quad_int a b c d div 2 ^ 1 = (((a * 256 + b) * 256 + c) * 128) + d div 2"
proof -
  have o: "0 \<le> a" "a \<le> 255" "0 \<le> b" "b \<le> 255" "0 \<le> c" "c \<le> 255" "0 \<le> d" "d \<le> 255"
    using assms by (simp_all add: octets_def)
  note q = quad_int_def
  show "quad_int a b c d div 2 ^ 28 = a div 16" using o unfolding q by simp
  show "quad_int a b c d div 2 ^ 24 = a" using o unfolding q by simp
  show "quad_int a b c d div 2 ^ 22 = a * 4 + b div 64" using o unfolding q by simp
  show "quad_int a b c d div 2 ^ 20 = a * 16 + b div 16" using o unfolding q by simp
  show "quad_int a b c d div 2 ^ 17 = a * 128 + b div 2" using o unfolding q by simp
  show "quad_int a b c d div 2 ^ 16 = a * 256 + b" using o unfolding q by simp
  show "quad_int a b c d div 2 ^ 8 = (a * 256 + b) * 256 + c" using o unfolding q by simp
  show "quad_int a b c d div 2 ^ 1 = (((a * 256 + b) * 256 + c) * 128) + d div 2" using o unfolding q by simp
qed

lemma radix_eq:
  fixes n m x y k :: int
  assumes "0 \<le> x" "x < k" "0 \<le> y" "y < k"
  shows "n * k + x = m * k + y \<longleftrightarrow> n = m \<and> x = y"
proof
  assume e: "n * k + x = m * k + y"
  have "n = (n * k + x) div k" "m = (m * k + y) div k" using assms by simp_all
  then have "n = m" unfolding e by simp
  then show "n = m \<and> x = y" using e by simp
qed simp

lemma in_net_quad:
  assumes "octets a b c d" and "octets A B C D"
  shows "in_net (quad a b c d) (quad A B C D, 4) \<longleftrightarrow> a div 16 = A div 16"
    and "in_net (quad a b c d) (quad A B C D, 8) \<longleftrightarrow> a = A"
    and "in_net (quad a b c d) (quad A B C D, 10) \<longleftrightarrow> a = A \<and> b div 64 = B div 64"
    and "in_net (quad a b c d) (quad A B C D, 12) \<longleftrightarrow> a = A \<and> b div 16 = B div 16"
    and "in_net (quad a b c d) (quad A B C D, 15) \<longleftrightarrow> a = A \<and> b div 2 = B div 2"
    and "in_net (quad a b c d) (quad A B C D, 16) \<longleftrightarrow> a = A \<and> b = B"
    and "in_net (quad a b c d) (quad A B C D, 24) \<longleftrightarrow> a = A \<and> b = B \<and> c = C"
    and "in_net (quad a b c d) (quad A B C D, 31) \<longleftrightarrow> a = A \<and> b = B \<and> c = C \<and> d div 2 = D div 2"
    and "in_net (quad a b c d) (quad A B C D, 32) \<longleftrightarrow> a = A \<and> b = B \<and> c = C \<and> d = D"
proof -
  have o: "0 \<le> a" "a \<le> 255" "0 \<le> b" "b \<le> 255" "0 \<le> c" "c \<le> 255" "0 \<le> d" "d \<le> 255"
    "0 \<le> A" "A \<le> 255" "0 \<le> B" "B \<le> 255" "0 \<le> C" "C \<le> 255" "0 \<le> D" "D \<le> 255"
    using assms by (simp_all add: octets_def)
  note u = in_net_uint fst_conv snd_conv uint_quad [OF assms(1)] uint_quad [OF assms(2)]
  have len: "LENGTH(32) - 4 = 28" "LENGTH(32) - 8 = 24" "LENGTH(32) - 10 = 22" "LENGTH(32) - 12 = 20"
    "LENGTH(32) - 15 = 17" "LENGTH(32) - 16 = 16" "LENGTH(32) - 24 = 8" "LENGTH(32) - 31 = 1" "LENGTH(32) - 32 = 0"
    by simp_all
  note q = u len quad_int_div [OF assms(1)] quad_int_div [OF assms(2)]
  show "in_net (quad a b c d) (quad A B C D, 4) \<longleftrightarrow> a div 16 = A div 16" unfolding q ..
  show "in_net (quad a b c d) (quad A B C D, 8) \<longleftrightarrow> a = A" unfolding q ..
  show "in_net (quad a b c d) (quad A B C D, 10) \<longleftrightarrow> a = A \<and> b div 64 = B div 64"
    unfolding q by (rule radix_eq) (use o in linarith)+
  show "in_net (quad a b c d) (quad A B C D, 12) \<longleftrightarrow> a = A \<and> b div 16 = B div 16"
    unfolding q by (rule radix_eq) (use o in linarith)+
  show "in_net (quad a b c d) (quad A B C D, 15) \<longleftrightarrow> a = A \<and> b div 2 = B div 2"
    unfolding q by (rule radix_eq) (use o in linarith)+
  show "in_net (quad a b c d) (quad A B C D, 16) \<longleftrightarrow> a = A \<and> b = B" unfolding q by (rule radix_eq) (use o in linarith)+
  have ab: "a * 256 + b = A * 256 + B \<longleftrightarrow> a = A \<and> b = B" by (rule radix_eq) (use o in linarith)+
  have abc: "(a * 256 + b) * 256 + c = (A * 256 + B) * 256 + C \<longleftrightarrow> a = A \<and> b = B \<and> c = C"
    using radix_eq [of c 256 C "a * 256 + b" "A * 256 + B"] o ab by simp
  show "in_net (quad a b c d) (quad A B C D, 24) \<longleftrightarrow> a = A \<and> b = B \<and> c = C" unfolding q by (rule abc)
  show "in_net (quad a b c d) (quad A B C D, 31) \<longleftrightarrow> a = A \<and> b = B \<and> c = C \<and> d div 2 = D div 2"
    using radix_eq [of "d div 2" 128 "D div 2" "(a * 256 + b) * 256 + c" "(A * 256 + B) * 256 + C"] o abc
    unfolding q by simp
  show "in_net (quad a b c d) (quad A B C D, 32) \<longleftrightarrow> a = A \<and> b = B \<and> c = C \<and> d = D"
    using radix_eq [of d 256 D "(a * 256 + b) * 256 + c" "(A * 256 + B) * 256 + C"] o abc
    unfolding q power_0 div_by_1 quad_int_def by simp
qed

text \<open>The addresses that are not public, in octets.\<close>

definition not_public :: "int \<Rightarrow> int \<Rightarrow> int \<Rightarrow> int \<Rightarrow> bool" where
  "not_public a b c d \<longleftrightarrow> a = 0 \<or> a = 10 \<or> a = 127 \<or> 224 \<le> a \<or> (a = 100 \<and> 64 \<le> b \<and> b \<le> 127) \<or>
     (a = 169 \<and> b = 254) \<or> (a = 172 \<and> 16 \<le> b \<and> b \<le> 31) \<or>
     (a = 192 \<and> (b = 168 \<or> (b = 0 \<and> (c = 2 \<or> (c = 0 \<and> d \<noteq> 9 \<and> d \<noteq> 10))))) \<or>
     (a = 198 \<and> (b = 18 \<or> b = 19 \<or> (b = 51 \<and> c = 100))) \<or> (a = 203 \<and> b = 0 \<and> c = 113)"

lemma octets_nets:
  "octets 0 0 0 0" "octets 10 0 0 0" "octets 127 0 0 0" "octets 169 254 0 0" "octets 172 16 0 0"
  "octets 192 0 0 0" "octets 192 0 0 170" "octets 192 0 2 0" "octets 192 168 0 0" "octets 198 18 0 0"
  "octets 198 51 100 0" "octets 203 0 113 0" "octets 240 0 0 0" "octets 255 255 255 255" "octets 192 0 0 9"
  "octets 192 0 0 10" "octets 224 0 0 0" "octets 100 64 0 0"
  by (simp_all add: octets_def)

lemma quad_eq_0:
  assumes "octets a b c d"
  shows "quad a b c d = 0 \<longleftrightarrow> a = 0 \<and> b = 0 \<and> c = 0 \<and> d = 0"
proof -
  have "in_net (quad a b c d) (quad 0 0 0 0, 32) \<longleftrightarrow> quad a b c d = 0" by (simp add: in_net_def quad_def)
  then show ?thesis unfolding in_net_quad(9) [OF assms octets_nets(1)] by simp
qed

lemma private4_quad:
  assumes "octets a b c d"
  shows "private4 (quad a b c d) \<longleftrightarrow> a = 0 \<or> a = 10 \<or> a = 127 \<or> 240 \<le> a \<or> (a = 169 \<and> b = 254) \<or>
    (a = 172 \<and> 16 \<le> b \<and> b \<le> 31) \<or> (a = 192 \<and> (b = 168 \<or> (b = 0 \<and> (c = 2 \<or> (c = 0 \<and> d \<noteq> 9 \<and> d \<noteq> 10))))) \<or>
    (a = 198 \<and> (b = 18 \<or> b = 19 \<or> (b = 51 \<and> c = 100))) \<or> (a = 203 \<and> b = 0 \<and> c = 113)"
proof -
  have o: "0 \<le> a" "a \<le> 255" "0 \<le> b" "b \<le> 255" "0 \<le> d" "d \<le> 255" using assms by (simp_all add: octets_def)
  have d: "a div 16 = 240 div 16 \<longleftrightarrow> 240 \<le> a" "b div 16 = 16 div 16 \<longleftrightarrow> 16 \<le> b \<and> b \<le> 31"
    "b div 2 = 18 div 2 \<longleftrightarrow> b = 18 \<or> b = 19" using o by auto
  have p: "list_ex (in_net (quad a b c d)) PRIVATE_V4 \<longleftrightarrow> a = 0 \<or> a = 10 \<or> a = 127 \<or> a = 169 \<and> b = 254 \<or>
    a = 172 \<and> 16 \<le> b \<and> b \<le> 31 \<or> a = 192 \<and> b = 0 \<and> c = 0 \<or> a = 192 \<and> b = 0 \<and> c = 0 \<and> d div 2 = 170 div 2 \<or>
    a = 192 \<and> b = 0 \<and> c = 2 \<or> a = 192 \<and> b = 168 \<or> a = 198 \<and> (b = 18 \<or> b = 19) \<or>
    a = 198 \<and> b = 51 \<and> c = 100 \<or> a = 203 \<and> b = 0 \<and> c = 113 \<or> 240 \<le> a \<or> a = 255 \<and> b = 255 \<and> c = 255 \<and> d = 255"
    unfolding PRIVATE_V4_def list_ex_Nil_iff list_ex_Cons_iff
      in_net_quad [OF assms octets_nets(1)] in_net_quad [OF assms octets_nets(2)] in_net_quad [OF assms octets_nets(3)] in_net_quad [OF assms octets_nets(4)] in_net_quad [OF assms octets_nets(5)] in_net_quad [OF assms octets_nets(6)] in_net_quad [OF assms octets_nets(7)] in_net_quad [OF assms octets_nets(8)] in_net_quad [OF assms octets_nets(9)] in_net_quad [OF assms octets_nets(10)] in_net_quad [OF assms octets_nets(11)] in_net_quad [OF assms octets_nets(12)] in_net_quad [OF assms octets_nets(13)] in_net_quad [OF assms octets_nets(14)]
      d by (simp only: simp_thms)
  have e: "list_ex (in_net (quad a b c d)) PRIVATE_EXCEPTIONS_V4 \<longleftrightarrow> a = 192 \<and> b = 0 \<and> c = 0 \<and> (d = 9 \<or> d = 10)"
    unfolding PRIVATE_EXCEPTIONS_V4_def list_ex_Nil_iff list_ex_Cons_iff
      in_net_quad [OF assms octets_nets(15)] in_net_quad [OF assms octets_nets(16)] by blast
  show ?thesis unfolding private4_def p e by (cases "a = 192"; cases "a = 255") auto
qed

lemma classify_quad:
  assumes "octets a b c d"
  shows "classify_v4 (quad a b c d) = None \<longleftrightarrow> \<not> not_public a b c d"
proof -
  have o: "0 \<le> a" "a \<le> 255" "0 \<le> b" "b \<le> 255" using assms by (simp_all add: octets_def)
  have d: "a div 16 = 224 div 16 \<longleftrightarrow> 224 \<le> a \<and> a < 240" "a div 16 = 240 div 16 \<longleftrightarrow> 240 \<le> a"
    "b div 64 = 64 div 64 \<longleftrightarrow> 64 \<le> b \<and> b \<le> 127" using o by auto
  show ?thesis
    unfolding classify_v4_def quad_eq_0 [OF assms] private4_quad [OF assms] in_net_quad [OF assms octets_nets(3)]
      in_net_quad [OF assms octets_nets(4)] in_net_quad [OF assms octets_nets(17)] in_net_quad [OF assms octets_nets(13)]
      in_net_quad [OF assms octets_nets(18)] d not_public_def
    using o by auto
qed

section \<open>Mapped addresses\<close>

lemma dotted_clear: "octets a b c d \<Longrightarrow> ch \<in> {CHR '':'', CHR ''/'', CHR ''%''} \<Longrightarrow> ch \<notin> set (dotted a b c d)"
  unfolding dotted_def octets_def by (auto dest: digits_clear [THEN notE, rotated -1])

lemma partition_none: "c \<notin> set s \<Longrightarrow> partition_at c s = (s, False, [])"
  by (induction s) auto

lemma mapped_word:
  assumes "octets a b c d"
  shows "ipv4_mapped (hextets [0, 0, 0, 0, 0, 65535, quad_int a b c d div 65536, quad_int a b c d mod 65536])
    = Some (quad a b c d)"
proof -
  let ?n = "quad_int a b c d" and ?m = "65535 * 2 ^ 32 + quad_int a b c d"
  let ?w = "hextets [0, 0, 0, 0, 0, 65535, ?n div 65536, ?n mod 65536]"
  have n: "0 \<le> ?n" "?n < 2 ^ 32" using assms unfolding octets_def quad_int_def by simp_all
  have "(65535 * 65536 + ?n div 65536) * 65536 + ?n mod 65536 = ?m" by simp
  then have "fold (\<lambda>h n. n * 65536 + h) [0, 0, 0, 0, 0, 65535, ?n div 65536, ?n mod 65536] 0 = ?m" by simp
  then have w: "?w = word_of_int ?m" unfolding hextets_def by (rule arg_cong)
  have "take_bit LENGTH(128) ?m = ?m" using n by (intro take_bit_int_eq_self) simp_all
  then have u: "uint ?w = ?m" unfolding w uint_word_of_int_eq .
  have "uint (drop_bit 32 ?w) = uint ?w div 2 ^ 32" by (rule uint_shifted)
  then have "uint (drop_bit 32 ?w) = ?m div 2 ^ 32" unfolding u .
  then have "uint (drop_bit 32 ?w) = 65535" using n by simp
  then have hi: "drop_bit 32 ?w = 0xFFFF" by (simp add: word_uint_eq_iff)
  have "uint (ucast ?w :: 32 word) = take_bit 32 ?m"
    unfolding u [symmetric] by (simp add: unsigned_ucast_eq)
  also have "\<dots> = ?m mod 2 ^ 32" by (rule take_bit_eq_mod)
  also have "?m mod 2 ^ 32 = ?n mod 2 ^ 32" by (rule mod_mult_self3)
  also have "\<dots> = ?n" using n by (rule mod_pos_pos_trivial)
  finally have "(ucast ?w :: 32 word) = quad a b c d" unfolding word_uint_eq_iff uint_quad [OF assms] .
  then show ?thesis unfolding ipv4_mapped_def by (simp only: hi simp_thms if_True)
qed

lemma mapped_text:
  assumes "octets a b c d"
  shows "ip_address_of (''::ffff:'' @ dotted a b c d) =
    Some (V6 (hextets [0, 0, 0, 0, 0, 65535, quad_int a b c d div 65536, quad_int a b c d mod 65536]))"
proof -
  let ?t = "dotted a b c d" and ?n = "quad_int a b c d"
  have clear: "CHR '':'' \<notin> set ?t" "CHR ''/'' \<notin> set ?t" "CHR ''%'' \<notin> set ?t"
    using dotted_clear [OF assms] by blast+
  have dot: "CHR ''.'' \<in> set ?t" by (simp add: dotted_def)
  have v4: "parse_ipv4 (''::ffff:'' @ ?t) = None"
  proof -
    have "int_str a \<noteq> [] \<and> CHR ''.'' \<notin> set (''::ffff:'' @ int_str a)"
      using assms digits_clear [of a "CHR ''.''"] parse_octet_str [of a] by (auto simp: octets_def parse_octet_def)
    then have "py_split (CHR ''.'') ((''::ffff:'' @ int_str a) @ CHR ''.'' # int_str b @ CHR ''.'' # int_str c @ CHR ''.'' # int_str d)
      = (''::ffff:'' @ int_str a) # py_split (CHR ''.'') (int_str b @ CHR ''.'' # int_str c @ CHR ''.'' # int_str d)"
      by (intro py_split_skip) blast
    then show ?thesis by (simp add: parse_ipv4_def dotted_def parse_octet_def digit_value_def)
  qed
  have split: "py_split (CHR '':'') (''::ffff:'' @ ?t) = [[], [], ''ffff'', ?t]"
    using py_split_none [OF clear(1)] by simp
  have hex: "parse_hextet ''ffff'' = Some 65535" by (simp add: parse_hextet_def hex_value_def)
  have tail: "expand_tail [[], [], ''ffff'', ?t] =
      Some [Text [], Text [], Text ''ffff'', Number (?n div 65536), Number (?n mod 65536)]"
    using dot by (simp add: expand_tail_def parse_dotted [OF assms] uint_quad [OF assms])
  have v6: "ipv6_of_parts [Text [], Text [], Text ''ffff'', Number (?n div 65536), Number (?n mod 65536)] =
      Some (hextets [0, 0, 0, 0, 0, 65535, ?n div 65536, ?n mod 65536])"
    using hex by (simp add: ipv6_of_parts_def gaps_def part_value_def upt_rec numeral_eq_Suc)
  have "parse_ipv6 (''::ffff:'' @ ?t) = Some (hextets [0, 0, 0, 0, 0, 65535, ?n div 65536, ?n mod 65536])"
    unfolding parse_ipv6_def using clear split tail v6
    by (simp add: partition_none Let_def)
  then show ?thesis unfolding ip_address_of_def v4 by simp
qed

text \<open>An address in dotted-quad notation passes the check exactly when it lies in none of the
  non-public IPv4 ranges (this network, RFC 1918, loopback, link-local and cloud metadata, CGNAT,
  protocol assignments but the two anycast addresses, documentation, benchmarking, multicast and
  reserved), and hiding it behind an IPv4-mapped IPv6 address changes nothing.\<close>

theorem ipv4_check_exact:
  assumes "octets a b c d"
  shows "(classify_address (dotted a b c d) = None \<longleftrightarrow> \<not> not_public a b c d) \<and>
    classify_address (''::ffff:'' @ dotted a b c d) = classify_address (dotted a b c d)"
proof -
  have v4: "ip_address_of (dotted a b c d) = Some (V4 (quad a b c d))"
    by (simp add: ip_address_of_def parse_dotted [OF assms])
  show ?thesis unfolding classify_address_def v4 mapped_text [OF assms] option.case classify_ip_def ip_address.case
      mapped_word [OF assms] classify_quad [OF assms] by simp
qed

theorem ipv4_check_exact_witness:
  "classify_address ''::ffff:169.254.169.254'' \<noteq> None"
proof -
  have d: "dotted 169 254 169 254 = ''169.254.169.254''" by code_simp
  have "octets 169 254 169 254" "not_public 169 254 169 254" by (simp_all add: octets_def not_public_def)
  then show ?thesis using ipv4_check_exact [of 169 254 169 254] unfolding d by simp
qed

text \<open>The deprecated site-local block fec0::/10 is not refused: no named class covers it and the
  library counts it as global.\<close>

theorem site_local_passes: "classify_address ''fec0::1'' = None"
  by code_simp

end
