(* ===== verification/Py_Url.thy ===== *)
theory Py_Url
  imports Net_Address
begin

text \<open>
  \<^verbatim>\<open>urllib.parse.urlsplit\<close> (Python 3.12) and the attributes of its result that the code reads, on
  text with code points below 256 (none of which turns into a delimiter under the NFKC check the
  library makes). Splitting raises ValueError on an unbalanced or malformed bracketed host, and
  reading the port raises it on anything but a number up to 65535.
\<close>

section \<open>Text\<close>

fun find_char :: "char \<Rightarrow> string \<Rightarrow> nat option" where
  "find_char c [] = None"
| "find_char c (x # xs) = (if x = c then Some 0 else map_option Suc (find_char c xs))"

definition ascii_letter :: "char \<Rightarrow> bool" where
  "ascii_letter c \<longleftrightarrow> (let n = of_char c :: int in (65 \<le> n \<and> n \<le> 90) \<or> (97 \<le> n \<and> n \<le> 122))"

definition scheme_char :: "char \<Rightarrow> bool" where
  "scheme_char c \<longleftrightarrow> ascii_letter c \<or> digit_value c \<noteq> None \<or> c \<in> {CHR ''+'', CHR ''-'', CHR ''.''}"

section \<open>Splitting\<close>

record url_parts =
  u_scheme :: string
  u_netloc :: string
  u_path :: string
  u_query :: string
  u_fragment :: string

text \<open>Leading control characters and spaces go, and tabs and line breaks anywhere.\<close>

definition clean_url :: "string \<Rightarrow> string" where
  "clean_url url = filter (\<lambda>c. (of_char c :: int) \<notin> {9, 10, 13}) (dropWhile (\<lambda>c. (of_char c :: int) \<le> 32) url)"

definition split_scheme :: "string \<Rightarrow> string \<times> string" where
  "split_scheme url = (case find_char (CHR '':'') url of None \<Rightarrow> ([], url)
     | Some i \<Rightarrow> if 0 < i \<and> ascii_letter (hd url) \<and> list_all scheme_char (take i url)
         then (lower (take i url), drop (Suc i) url) else ([], url))"

definition is_hex :: "char \<Rightarrow> bool" where
  "is_hex c \<longleftrightarrow> hex_value c \<noteq> None"

text \<open>A host in brackets: an IPv6 address, or the future form \<^verbatim>\<open>v<hex>.<any>\<close>.\<close>

definition bracketed_ok :: "string \<Rightarrow> bool" where
  "bracketed_ok host =
     (case host of
        CHR ''v'' # rest \<Rightarrow> (let (version, dotted, tail) = partition_at (CHR ''.'') rest in
          version \<noteq> [] \<and> list_all is_hex version \<and> dotted \<and> tail \<noteq> [] \<and> CHR 0x0A \<notin> set tail)
      | _ \<Rightarrow> (case ip_address_of host of Some (V6 _) \<Rightarrow> True | _ \<Rightarrow> False))"

definition netloc_ok :: "string \<Rightarrow> bool" where
  "netloc_ok netloc =
     (let op = CHR ''['' \<in> set netloc; cl = CHR '']'' \<in> set netloc in
      if op \<noteq> cl then False
      else if op then bracketed_ok (fst (partition_at (CHR '']'') (snd (snd (partition_at (CHR ''['') netloc)))))
      else True)"

definition urlsplit :: "string \<Rightarrow> url_parts res" where
  "urlsplit url =
     (let (scheme, rest) = split_scheme (clean_url url);
          hier = (take 2 rest = ''//'');
          body = (if hier then drop 2 rest else rest);
          delim = (\<lambda>c. c \<in> {CHR ''/'', CHR ''?'', CHR ''#''});
          netloc = (if hier then takeWhile (\<lambda>c. \<not> delim c) body else []);
          rest = (if hier then dropWhile (\<lambda>c. \<not> delim c) body else body)
      in if \<not> netloc_ok netloc then Inl ValueError
         else let (rest, _, fragment) = partition_at (CHR ''#'') rest;
                  (path, _, query) = partition_at (CHR ''?'') rest
              in Inr \<lparr>u_scheme = scheme, u_netloc = netloc, u_path = path, u_query = query, u_fragment = fragment\<rparr>)"

section \<open>Attributes\<close>

definition userinfo :: "url_parts \<Rightarrow> string option \<times> string option" where
  "userinfo u =
     (let (info, have_info, _) = rpartition_at (CHR ''@'') (u_netloc u) in
      if have_info then (let (user, have_pw, pw) = partition_at (CHR '':'') info in
        (Some user, if have_pw then Some pw else None))
      else (None, None))"

definition hostinfo :: "url_parts \<Rightarrow> string \<times> string option" where
  "hostinfo u =
     (let (_, _, info) = rpartition_at (CHR ''@'') (u_netloc u);
          (_, bracket, inside) = partition_at (CHR ''['') info;
          (host, port) =
            (if bracket then (let (h, _, after) = partition_at (CHR '']'') inside in (h, snd (snd (partition_at (CHR '':'') after))))
             else (let (h, _, p) = partition_at (CHR '':'') info in (h, p)))
      in (host, if port = [] then None else Some port))"

text \<open>\<^verbatim>\<open>parts.hostname or ""\<close>: lowercased but for the zone.\<close>

definition hostname :: "url_parts \<Rightarrow> string" where
  "hostname u = (let (h, percent, zone) = partition_at (CHR ''%'') (fst (hostinfo u)) in
     lower h @ (if percent then CHR ''%'' # zone else []))"

definition port :: "url_parts \<Rightarrow> int option res" where
  "port u = (case snd (hostinfo u) of None \<Rightarrow> Inr None
     | Some p \<Rightarrow> if list_all (\<lambda>c. digit_value c \<noteq> None) p then
         (case digits_value 0 p of None \<Rightarrow> Inl ValueError
          | Some n \<Rightarrow> if n \<le> 65535 then Inr (Some n) else Inl ValueError)
       else Inl ValueError)"

text \<open>\<^verbatim>\<open>parts.username or parts.password\<close>.\<close>

definition carries_credentials :: "url_parts \<Rightarrow> bool" where
  "carries_credentials u = (let (user, pw) = userinfo u in
     (case user of None \<Rightarrow> False | Some s \<Rightarrow> s \<noteq> []) \<or> (case pw of None \<Rightarrow> False | Some s \<Rightarrow> s \<noteq> []))"

end
