(* ===== verification/Safe_Fetch.thy ===== *)
theory Safe_Fetch
  imports Py_Url
begin

text \<open>
  \<^verbatim>\<open>app/news/safefetch.py\<close>: one hardened GET. What lies outside is a parameter, the record
  \<open>internet\<close>: the name resolver and the HTTP peer answer as they please, depending on everything
  asked so far; reference resolution (\<^verbatim>\<open>urljoin\<close>), the IDNA codec and the charset codecs are
  functions. Bytes are characters below 256, decoded text is a list of code points. The state is what
  has gone out: the requests with their headers, the names looked up, the pauses. Messages (and their
  redaction) and clocks are left out; an error is its class, with the reason as a constructor.

  Shown: whatever the peer and the resolver answer, every request goes to an https URL of an
  allowlisted host whose addresses were all public when looked up, credentials stay with the first
  host, the number of requests is bounded, a decisive answer ends the fetch, and a returned body is
  within the caps.
\<close>

section \<open>Policy, answers and errors\<close>

type_synonym headers = "(string \<times> string) list"
type_synonym code_points = "int list"

definition DEFAULT_CONTENT_TYPES :: "string list" where
  "DEFAULT_CONTENT_TYPES = [''application/atom+xml'', ''application/json'', ''application/rss+xml'',
     ''application/xhtml+xml'', ''application/xml'', ''text/html'', ''text/json'', ''text/plain'', ''text/xml'']"

definition REDIRECT_STATUSES :: "int list" where "REDIRECT_STATUSES = [301, 302, 303, 307, 308]"
definition NEVER_RETRY_STATUSES :: "int list" where "NEVER_RETRY_STATUSES = [401, 403, 407, 451]"

record fetch_policy =
  max_bytes :: int
  max_decompressed_bytes :: int
  max_compression_ratio :: pyfloat
  compression_ratio_floor_bytes :: int
  max_redirects :: int
  max_attempts :: int
  courtesy_delay :: pyfloat
  backoff_base :: pyfloat
  allowed_ports :: "int list"
  allowed_content_types :: "string list"
  user_agent :: string
  accept_types :: string
  allow_ip_literals :: bool
  chunk_size :: int

definition DEFAULT_POLICY :: fetch_policy where
  "DEFAULT_POLICY = \<lparr>max_bytes = 4 * 1024 * 1024, max_decompressed_bytes = 16 * 1024 * 1024,
     max_compression_ratio = lit 100, compression_ratio_floor_bytes = 1024 * 1024, max_redirects = 3,
     max_attempts = 3, courtesy_delay = lit 1, backoff_base = lit (3 / 4), allowed_ports = [443],
     allowed_content_types = DEFAULT_CONTENT_TYPES, user_agent = ''IranGoldPredictor/1.0 (+self-hosted analytics)'',
     accept_types = ''application/rss+xml, application/atom+xml, application/xml;q=0.9, application/json;q=0.9, text/xml;q=0.8, */*;q=0.1'',
     allow_ip_literals = False, chunk_size = 64 * 1024\<rparr>"

datatype block_reason =
    SchemeNotHttps | UrlCredentials | NoHost | HostNotAllowed | InvalidPort | PortNotAllowed
  | IpLiteral | CannotResolve | NoAddresses | BadAddress address_class
  | NoContentType | ContentTypeNotAllowed | UnknownCharset | Undecodable
  | TooManyRedirects | NoAllowedHosts

datatype cap = DeclaredLength | WireBytes | DecodedBytes | CompressionRatio

datatype raised =
    FetchBlocked block_reason
  | FetchTooLarge cap
  | FetchTimeout
  | FetchHTTPError "int option" bool
  | HttpxTimeout
  | HttpxError
  | Uncaught py_error   \<comment> \<open>not a \<^verbatim>\<open>FetchError\<close>\<close>
  | Foreign string      \<comment> \<open>an exception of the HTTP library or the resolver that no handler names, by its class\<close>

datatype stream_end = Complete | StreamTimeout | StreamBroken | StreamRaises string

text \<open>A streamed response: each chunk with the wire bytes downloaded once it is delivered.\<close>

record response =
  rs_status :: int
  rs_location :: string
  rs_length :: "string option"
  rs_type :: string
  rs_body :: "int \<Rightarrow> (string \<times> int) list"
  rs_end :: stream_end
  rs_wire :: int

text \<open>Apart from timeouts and the other \<^verbatim>\<open>httpx.HTTPError\<close>s the library may raise what it likes, such as
  \<^verbatim>\<open>httpx.InvalidURL\<close>; and a resolver may raise something else than an \<^verbatim>\<open>OSError\<close>.\<close>

datatype answer = Answer response | ConnectTimeout | TransportError | PeerRaises string

datatype resolution = Resolved "string list" | Unresolvable | ResolverRaises string

datatype decoded = Decoded code_points | NoSuchCodec | BadBytes | CodecRaises py_error

record internet =
  peer :: "(string \<times> headers) list \<Rightarrow> answer"
  resolver :: "string list \<Rightarrow> resolution"
  idna :: "string \<Rightarrow> string option"
  urljoin :: "string \<Rightarrow> string \<Rightarrow> string res"
  codec :: "string \<Rightarrow> string \<Rightarrow> decoded"

record traffic =
  sent :: "(string \<times> headers) list"
  looked_up :: "string list"
  pauses :: "pyfloat list"

record fetch_result =
  fr_url :: string
  fr_requested_url :: string
  fr_status :: int
  fr_content :: string
  fr_text :: code_points
  fr_content_type :: string
  fr_charset :: string
  fr_bytes_received :: int
  fr_redirect_chain :: "string list"
  fr_resolved_ips :: "string list"

section \<open>Target validation\<close>

definition rstrip_dots :: "string \<Rightarrow> string" where
  "rstrip_dots s = rev (dropWhile (\<lambda>c. c = CHR ''.'') (rev s))"

definition ascii :: "string \<Rightarrow> bool" where
  "ascii s \<longleftrightarrow> list_all (\<lambda>c. (of_char c :: int) < 128) s"

definition normalize_host :: "internet \<Rightarrow> string \<Rightarrow> string" where
  "normalize_host net host =
     (let h = lower (rstrip_dots (py_strip host)) in
      if ascii h then h else case idna net h of Some e \<Rightarrow> e | None \<Rightarrow> h)"

definition ends_with :: "string \<Rightarrow> string \<Rightarrow> bool" where
  "ends_with s e \<longleftrightarrow> length e \<le> length s \<and> drop (length s - length e) s = e"

definition entry_allows :: "internet \<Rightarrow> string \<Rightarrow> string \<Rightarrow> bool" where
  "entry_allows net host entry =
     (case normalize_host net entry of
        [] \<Rightarrow> False
      | c # rest \<Rightarrow> if c = CHR ''.'' then host = rest \<or> ends_with host (c # rest) else host = c # rest)"

definition host_allowed :: "internet \<Rightarrow> string \<Rightarrow> string list \<Rightarrow> bool" where
  "host_allowed net host allowed = list_ex (entry_allows net host) allowed"

definition lookup :: "internet \<Rightarrow> string \<Rightarrow> traffic \<Rightarrow> resolution \<times> traffic" where
  "lookup net host t = (let names = looked_up t @ [host] in (resolver net names, t\<lparr>looked_up := names\<rparr>))"

definition first_bad :: "string list \<Rightarrow> address_class option" where
  "first_bad ips = (case List.map_filter classify_address ips of [] \<Rightarrow> None | c # _ \<Rightarrow> Some c)"

text \<open>The verdict on the text of a target, before any lookup: its host and whether it is a literal.\<close>

definition screen_target :: "internet \<Rightarrow> fetch_policy \<Rightarrow> string list \<Rightarrow> string \<Rightarrow> raised + (string \<times> bool)" where
  "screen_target net pol allowed url =
     (case urlsplit (py_strip url) of
        Inl e \<Rightarrow> Inl (Uncaught e)
      | Inr parts \<Rightarrow>
          let host = normalize_host net (hostname parts) in
          if lower (u_scheme parts) \<noteq> ''https'' then Inl (FetchBlocked SchemeNotHttps)
          else if carries_credentials parts then Inl (FetchBlocked UrlCredentials)
          else if host = [] then Inl (FetchBlocked NoHost)
          else if \<not> host_allowed net host allowed then Inl (FetchBlocked HostNotAllowed)
          else (case port parts of
             Inl _ \<Rightarrow> Inl (FetchBlocked InvalidPort)
           | Inr p \<Rightarrow>
               let literal = (classify_address host \<noteq> Some NotAnAddress) in
               if (case p of None \<Rightarrow> False | Some n \<Rightarrow> n \<notin> set (allowed_ports pol)) then Inl (FetchBlocked PortNotAllowed)
               else if literal \<and> \<not> allow_ip_literals pol then Inl (FetchBlocked IpLiteral)
               else Inr (host, literal)))"

definition judge_addresses :: "string \<Rightarrow> string list \<Rightarrow> raised + (string \<times> string list)" where
  "judge_addresses host ips =
     (if ips = [] then Inl (FetchBlocked NoAddresses)
      else case first_bad ips of Some c \<Rightarrow> Inl (FetchBlocked (BadAddress c)) | None \<Rightarrow> Inr (host, ips))"

definition validate_target ::
  "internet \<Rightarrow> fetch_policy \<Rightarrow> string list \<Rightarrow> string \<Rightarrow> traffic \<Rightarrow> (raised + (string \<times> string list)) \<times> traffic" where
  "validate_target net pol allowed url t =
     (case screen_target net pol allowed url of
        Inl e \<Rightarrow> (Inl e, t)
      | Inr (host, literal) \<Rightarrow>
          if literal then (judge_addresses host [host], t)
          else (case lookup net host t of
             (Unresolvable, t) \<Rightarrow> (Inl (FetchBlocked CannotResolve), t)
           | (ResolverRaises name, t) \<Rightarrow> (Inl (Foreign name), t)
           | (Resolved ips, t) \<Rightarrow> (judge_addresses host ips, t)))"

section \<open>Response validation\<close>

definition strip_quotes :: "string \<Rightarrow> string" where
  "strip_quotes s = rev (dropWhile (\<lambda>c. c = CHR 0x22) (rev (dropWhile (\<lambda>c. c = CHR 0x22) s)))"

definition charset_param :: "string \<Rightarrow> string \<Rightarrow> string" where
  "charset_param param charset =
     (let (name, _, v) = partition_at (CHR ''='') param in
      if lower (py_strip name) = ''charset'' then lower (strip_quotes (py_strip v)) else charset)"

definition split_content_type :: "string \<Rightarrow> string \<times> string" where
  "split_content_type raw =
     (let (main, _, params) = partition_at (CHR '';'') raw in
      (lower (py_strip main), fold charset_param (py_split (CHR '';'') params) []))"

definition starts_with :: "string \<Rightarrow> string \<Rightarrow> bool" where
  "starts_with s p \<longleftrightarrow> take (length p) s = p"

definition check_content_type :: "string \<Rightarrow> fetch_policy \<Rightarrow> block_reason option" where
  "check_content_type media pol =
     (if media = [] then Some NoContentType
      else if media \<in> set (allowed_content_types pol) then None
      else if (starts_with media ''application/'' \<or> starts_with media ''text/'') \<and>
          (ends_with media ''+json'' \<or> ends_with media ''+xml'') then None
      else Some ContentTypeNotAllowed)"

text \<open>The encoding named by an XML declaration: what precedes the name, the name, what follows.\<close>

definition byte_space :: "char \<Rightarrow> bool" where
  "byte_space c \<longleftrightarrow> (of_char c :: int) \<in> {9, 10, 11, 12, 13, 32}"

definition quote_char :: "char \<Rightarrow> bool" where
  "quote_char c \<longleftrightarrow> (of_char c :: int) \<in> {34, 39}"

definition name_char :: "char \<Rightarrow> bool" where
  "name_char c \<longleftrightarrow> ascii_letter c \<or> digit_value c \<noteq> None \<or> c \<in> {CHR ''.'', CHR ''_'', CHR ''-''}"

definition encoding_at :: "string \<Rightarrow> (string \<times> string \<times> string) option" where
  "encoding_at s =
     (if take 8 s \<noteq> ''encoding'' then None
      else let s1 = dropWhile byte_space (drop 8 s) in
        if s1 = [] \<or> hd s1 \<noteq> CHR ''='' then None
        else let s2 = dropWhile byte_space (tl s1) in
          if s2 = [] \<or> \<not> quote_char (hd s2) then None
          else let name = takeWhile name_char (tl s2); after = dropWhile name_char (tl s2) in
            if name = [] \<or> after = [] \<or> \<not> quote_char (hd after) then None
            else Some (take (length s - length (tl s2)) s, name, after))"

fun encoding_in_tag :: "string \<Rightarrow> (string \<times> string \<times> string) option" where
  "encoding_in_tag [] = None"
| "encoding_in_tag (c # cs) =
     (case encoding_at (c # cs) of Some r \<Rightarrow> Some r
      | None \<Rightarrow> if c = CHR ''>'' then None
          else map_option (\<lambda>(a, n, b). (c # a, n, b)) (encoding_in_tag cs))"

fun xml_decl_encoding :: "string \<Rightarrow> (string \<times> string \<times> string) option" where
  "xml_decl_encoding [] = None"
| "xml_decl_encoding (c # cs) =
     (case (if take 5 (c # cs) = ''<?xml'' then encoding_in_tag (drop 5 (c # cs)) else None) of
        Some (a, n, b) \<Rightarrow> Some (''<?xml'' @ a, n, b)
      | None \<Rightarrow> map_option (\<lambda>(a, n, b). (c # a, n, b)) (xml_decl_encoding cs))"

definition declared_charset :: "string \<Rightarrow> string \<Rightarrow> string" where
  "declared_charset content header_charset =
     (if header_charset \<noteq> [] then header_charset
      else case xml_decl_encoding (take 200 content) of Some (_, n, _) \<Rightarrow> lower n | None \<Rightarrow> ''utf-8'')"

definition decode_strictly :: "internet \<Rightarrow> string \<Rightarrow> string \<Rightarrow> raised + code_points" where
  "decode_strictly net content charset =
     (if content = [] then Inr []
      else case codec net charset content of
        Decoded cs \<Rightarrow> Inr cs
      | NoSuchCodec \<Rightarrow> Inl (FetchBlocked UnknownCharset)
      | CodecRaises e \<Rightarrow> Inl (Uncaught e)
      | BadBytes \<Rightarrow>
          if map (\<lambda>c. if c = CHR ''_'' then CHR ''-'' else c) charset \<noteq> ''utf-8'' then
            (case codec net ''utf-8'' content of Decoded cs \<Rightarrow> Inr cs | _ \<Rightarrow> Inl (FetchBlocked Undecodable))
          else Inl (FetchBlocked Undecodable))"

text \<open>\<^verbatim>\<open>str.isdigit\<close> also holds of the superscripts, and \<^verbatim>\<open>int\<close> refuses those and texts of more than
  4300 digits.\<close>

definition is_digit_text :: "string \<Rightarrow> bool" where
  "is_digit_text s \<longleftrightarrow> s \<noteq> [] \<and> list_all (\<lambda>c. digit_value c \<noteq> None \<or> (of_char c :: int) \<in> {178, 179, 185}) s"

definition declared_length :: "string option \<Rightarrow> raised + int option" where
  "declared_length h =
     (case h of None \<Rightarrow> Inr None
      | Some s \<Rightarrow> if \<not> is_digit_text s then Inr None
          else if 4300 < length s then Inl (Uncaught ValueError)
          else case py_int s of Inl e \<Rightarrow> Inl (Uncaught e) | Inr n \<Rightarrow> Inr (Some n))"

definition over_cap :: "fetch_policy \<Rightarrow> int \<Rightarrow> int \<Rightarrow> cap option" where
  "over_cap pol amount wire =
     (if max_bytes pol < wire then Some WireBytes
      else if max_decompressed_bytes pol < amount then Some DecodedBytes
      else if compression_ratio_floor_bytes pol < amount \<and> 0 < wire \<and>
          flt (max_compression_ratio pol) (rnd (of_int amount / of_int wire)) then Some CompressionRatio
      else None)"

fun read_chunks :: "fetch_policy \<Rightarrow> stream_end \<Rightarrow> string \<Rightarrow> (string \<times> int) list \<Rightarrow> raised + string" where
  "read_chunks pol ending acc [] =
     (case ending of Complete \<Rightarrow> Inr acc | StreamTimeout \<Rightarrow> Inl HttpxTimeout | StreamBroken \<Rightarrow> Inl HttpxError
      | StreamRaises name \<Rightarrow> Inl (Foreign name))"
| "read_chunks pol ending acc ((chunk, wire) # rest) =
     (let acc = acc @ chunk in
      case over_cap pol (int (length acc)) wire of
        Some c \<Rightarrow> Inl (FetchTooLarge c)
      | None \<Rightarrow> read_chunks pol ending acc rest)"

definition read_capped :: "fetch_policy \<Rightarrow> response \<Rightarrow> raised + string" where
  "read_capped pol r =
     (case declared_length (rs_length r) of
        Inl e \<Rightarrow> Inl e
      | Inr d \<Rightarrow>
          if (case d of None \<Rightarrow> False | Some n \<Rightarrow> max_bytes pol < n) then Inl (FetchTooLarge DeclaredLength)
          else read_chunks pol (rs_end r) [] (rs_body r (max 1 (min (chunk_size pol) (max_bytes pol)))))"

section \<open>One attempt\<close>

definition CREDENTIAL_HEADERS :: "string list" where
  "CREDENTIAL_HEADERS = [''authorization'', ''cookie'', ''proxy-authorization'']"

definition strip_credential_headers :: "headers \<Rightarrow> headers" where
  "strip_credential_headers hs = filter (\<lambda>(name, _). lower name \<notin> set CREDENTIAL_HEADERS) hs"

record hop =
  h_current :: string
  h_headers :: headers
  h_origin :: string
  h_resolved :: "string list"
  h_chain :: "string list"

definition send :: "internet \<Rightarrow> string \<Rightarrow> headers \<Rightarrow> traffic \<Rightarrow> answer \<times> traffic" where
  "send net url hs t = (let asked = sent t @ [(url, hs)] in (peer net asked, t\<lparr>sent := asked\<rparr>))"

text \<open>The error of a status that is neither a redirect nor a success.\<close>

definition status_error :: "int \<Rightarrow> raised option" where
  "status_error status =
     (if status \<in> set NEVER_RETRY_STATUSES then Some (FetchHTTPError (Some status) False)
      else if status = 429 \<or> 500 \<le> status then Some (FetchHTTPError (Some status) True)
      else if 400 \<le> status then Some (FetchHTTPError (Some status) False)
      else None)"

text \<open>A final answer: media type, header charset, content and wire bytes.\<close>

definition receive :: "fetch_policy \<Rightarrow> response \<Rightarrow> raised + (string \<times> string \<times> string \<times> int)" where
  "receive pol r =
     (if rs_status r = 304 then Inr ([], [], [], rs_wire r)
      else let (media, charset) = split_content_type (rs_type r) in
        case check_content_type media pol of
          Some why \<Rightarrow> Inl (FetchBlocked why)
        | None \<Rightarrow> (case read_capped pol r of Inl e \<Rightarrow> Inl e
            | Inr content \<Rightarrow> Inr (media, charset, content,
                if rs_wire r \<noteq> 0 then rs_wire r else int (length content))))"

definition accept_answer :: "internet \<Rightarrow> fetch_policy \<Rightarrow> string \<Rightarrow> hop \<Rightarrow> response \<Rightarrow> raised + fetch_result" where
  "accept_answer net pol url h r =
     (case status_error (rs_status r) of Some e \<Rightarrow> Inl e
      | None \<Rightarrow> (case receive pol r of Inl e \<Rightarrow> Inl e
          | Inr (media, header_charset, content, wire) \<Rightarrow>
              let charset = declared_charset content header_charset in
              (case decode_strictly net content charset of Inl e \<Rightarrow> Inl e
               | Inr cs \<Rightarrow> Inr \<lparr>fr_url = h_current h, fr_requested_url = url, fr_status = rs_status r,
                   fr_content = content, fr_text = cs, fr_content_type = media, fr_charset = charset,
                   fr_bytes_received = wire, fr_redirect_chain = h_chain h, fr_resolved_ips = h_resolved h\<rparr>)))"

definition next_hop :: "hop \<Rightarrow> string \<Rightarrow> string \<Rightarrow> string list \<Rightarrow> hop" where
  "next_hop h target host ips =
     \<lparr>h_current = target,
      h_headers = (if host \<noteq> h_origin h then strip_credential_headers (h_headers h) else h_headers h),
      h_origin = (if host \<noteq> h_origin h then host else h_origin h),
      h_resolved = ips, h_chain = h_chain h @ [target]\<rparr>"

text \<open>A redirect answer: the next hop, or the refusal to follow it.\<close>

definition follow ::
  "internet \<Rightarrow> fetch_policy \<Rightarrow> string list \<Rightarrow> hop \<Rightarrow> response \<Rightarrow> traffic \<Rightarrow> (raised + hop) \<times> traffic" where
  "follow net pol allowed h r t =
     (if rs_location r = [] then (Inl (FetchHTTPError (Some (rs_status r)) False), t)
      else case urljoin net (h_current h) (rs_location r) of
        Inl e \<Rightarrow> (Inl (Uncaught e), t)
      | Inr target \<Rightarrow>
          if max_redirects pol < int (length (h_chain h)) then (Inl (FetchBlocked TooManyRedirects), t)
          else (case validate_target net pol allowed target t of
              (Inl e, t) \<Rightarrow> (Inl e, t)
            | (Inr (host, ips), t) \<Rightarrow> (Inr (next_hop h target host ips), t)))"

fun hops ::
  "internet \<Rightarrow> fetch_policy \<Rightarrow> string list \<Rightarrow> string \<Rightarrow> nat \<Rightarrow> hop \<Rightarrow> traffic \<Rightarrow> (raised + fetch_result) \<times> traffic" where
  "hops net pol allowed url 0 h t = (Inl (FetchBlocked TooManyRedirects), t)"
| "hops net pol allowed url (Suc n) h t =
     (case send net (h_current h) (h_headers h) t of
        (ConnectTimeout, t) \<Rightarrow> (Inl HttpxTimeout, t)
      | (TransportError, t) \<Rightarrow> (Inl HttpxError, t)
      | (PeerRaises name, t) \<Rightarrow> (Inl (Foreign name), t)
      | (Answer r, t) \<Rightarrow>
          if rs_status r \<in> set REDIRECT_STATUSES then
            (case follow net pol allowed h r t of
               (Inl e, t) \<Rightarrow> (Inl e, t)
             | (Inr h, t) \<Rightarrow> hops net pol allowed url n h t)
          else (accept_answer net pol url h r, t))"

definition attempt_once ::
  "internet \<Rightarrow> fetch_policy \<Rightarrow> string list \<Rightarrow> string \<Rightarrow> headers \<Rightarrow> traffic \<Rightarrow> (raised + fetch_result) \<times> traffic" where
  "attempt_once net pol allowed url hs t =
     (case validate_target net pol allowed url t of
        (Inl e, t) \<Rightarrow> (Inl e, t)
      | (Inr (host, ips), t) \<Rightarrow> hops net pol allowed url (nat (max_redirects pol + 1))
          \<lparr>h_current = url, h_headers = hs, h_origin = host, h_resolved = ips, h_chain = [url]\<rparr> t)"

section \<open>Retries\<close>

text \<open>What the retry loop makes of an exception: the error to remember, or None to let it through.\<close>

definition remembered :: "raised \<Rightarrow> raised option" where
  "remembered e = (case e of HttpxTimeout \<Rightarrow> Some FetchTimeout
     | HttpxError \<Rightarrow> Some (FetchHTTPError None True)
     | FetchHTTPError status retryable \<Rightarrow> if retryable then Some e else None
     | _ \<Rightarrow> None)"

definition pause :: "pyfloat \<Rightarrow> traffic \<Rightarrow> traffic" where
  "pause d t = (if flt (Fin 0) d then t\<lparr>pauses := pauses t @ [d]\<rparr> else t)"

definition back_off :: "fetch_policy \<Rightarrow> nat \<Rightarrow> traffic \<Rightarrow> traffic res" where
  "back_off pol i t =
     (if int i < max_attempts pol - 1 \<and> flt (Fin 0) (backoff_base pol)
      then map_res (\<lambda>f. t\<lparr>pauses := pauses t @ [fmul (backoff_base pol) f]\<rparr>) (float_of_int (2 ^ i))
      else Inr t)"

text \<open>\<open>n\<close> attempts are left after attempt \<open>i\<close>.\<close>

fun attempts ::
  "internet \<Rightarrow> fetch_policy \<Rightarrow> string list \<Rightarrow> string \<Rightarrow> headers \<Rightarrow> nat \<Rightarrow> nat \<Rightarrow> traffic \<Rightarrow> (raised + fetch_result) \<times> traffic" where
  "attempts net pol allowed url hs n i t =
     (case attempt_once net pol allowed url hs (pause (courtesy_delay pol) t) of
        (Inr r, t) \<Rightarrow> (Inr r, t)
      | (Inl e, t) \<Rightarrow> (case remembered e of
          None \<Rightarrow> (Inl e, t)
        | Some e' \<Rightarrow> (case back_off pol i t of
            Inl x \<Rightarrow> (Inl (Uncaught x), t)
          | Inr t \<Rightarrow> (case n of 0 \<Rightarrow> (Inl e', t) | Suc m \<Rightarrow> attempts net pol allowed url hs m (Suc i) t))))"

fun put_header :: "string \<Rightarrow> string \<Rightarrow> headers \<Rightarrow> headers" where
  "put_header k v [] = [(k, v)]"
| "put_header k v ((k', v') # hs) = (if k = k' then (k, v) # hs else (k', v') # put_header k v hs)"

definition request_headers :: "fetch_policy \<Rightarrow> headers \<Rightarrow> headers" where
  "request_headers pol extra = fold (\<lambda>(k, v). put_header k v) extra
     [(''User-Agent'', user_agent pol), (''Accept'', accept_types pol), (''Accept-Encoding'', ''gzip, deflate'')]"

definition fetch ::
  "internet \<Rightarrow> fetch_policy \<Rightarrow> string list \<Rightarrow> headers \<Rightarrow> string \<Rightarrow> (raised + fetch_result) \<times> traffic" where
  "fetch net pol allowed extra url =
     (let t = \<lparr>sent = [], looked_up = [], pauses = []\<rparr> in
      if allowed = [] then (Inl (FetchBlocked NoAllowedHosts), t)
      else attempts net pol allowed url (request_headers pol extra) (nat (max 1 (max_attempts pol)) - 1) 0 t)"

end
