(* ===== verification/Safe_Fetch_Props.thy ===== *)
theory Safe_Fetch_Props
  imports Safe_Fetch
begin

text \<open>
  The theorems on \<^verbatim>\<open>app/news/safefetch.py\<close>. A relation between two states of the traffic says what was
  added in between; every function of the fetch keeps it, and the relation composes, so that the
  properties of a whole fetch follow from those of one request.
\<close>

section \<open>Targets\<close>

definition host_of :: "internet \<Rightarrow> string \<Rightarrow> string" where
  "host_of net u = (case urlsplit (py_strip u) of Inl _ \<Rightarrow> [] | Inr p \<Rightarrow> normalize_host net (hostname p))"

definition public :: "string \<Rightarrow> bool" where
  "public ip \<longleftrightarrow> classify_address ip = None"

text \<open>The resolver gave public addresses only for the host, at some lookup among \<open>names\<close>.\<close>

definition vetted :: "internet \<Rightarrow> string list \<Rightarrow> string \<Rightarrow> bool" where
  "vetted net names host \<longleftrightarrow> (\<exists>k ips. 0 < k \<and> k \<le> length names \<and> names ! (k - 1) = host \<and>
     resolver net (take k names) = Resolved ips \<and> ips \<noteq> [] \<and> list_all public ips)"

definition safe_target :: "internet \<Rightarrow> fetch_policy \<Rightarrow> string list \<Rightarrow> string list \<Rightarrow> string \<Rightarrow> bool" where
  "safe_target net pol allowed names u \<longleftrightarrow>
     (\<exists>parts. urlsplit (py_strip u) = Inr parts \<and> lower (u_scheme parts) = ''https'' \<and> \<not> carries_credentials parts \<and>
        (port parts = Inr None \<or> (\<exists>n \<in> set (allowed_ports pol). port parts = Inr (Some n)))) \<and>
     host_allowed net (host_of net u) allowed \<and>
     (vetted net names (host_of net u) \<or> allow_ip_literals pol \<and> public (host_of net u))"

lemma vetted_more: "vetted net names host \<Longrightarrow> vetted net (names @ extra) host"
  unfolding vetted_def by (elim exE, rule exI, rule exI) (auto simp: nth_append)

lemma safe_target_more: "safe_target net pol allowed names u \<Longrightarrow> safe_target net pol allowed (names @ extra) u"
  unfolding safe_target_def using vetted_more by blast

lemma first_bad_None: "first_bad ips = None \<longleftrightarrow> list_all public ips"
proof -
  have "first_bad ips = None \<longleftrightarrow> List.map_filter classify_address ips = []"
    by (simp add: first_bad_def split: list.splits)
  also have "\<dots> \<longleftrightarrow> (\<forall>ip \<in> set ips. classify_address ip = None)"
    by (induction ips) (auto simp: List.map_filter_def)
  finally show ?thesis by (simp add: list_all_iff public_def)
qed

lemma judge_addresses_ok: "judge_addresses host ips = Inr r \<longleftrightarrow> r = (host, ips) \<and> ips \<noteq> [] \<and> list_all public ips"
  using first_bad_None [of ips] by (auto simp: judge_addresses_def split: option.splits)

lemma screen_target_ok:
  assumes "screen_target net pol allowed u = Inr (host, literal)"
  shows "host = host_of net u" and "host_allowed net host allowed"
    and "literal \<Longrightarrow> allow_ip_literals pol"
    and "\<exists>parts. urlsplit (py_strip u) = Inr parts \<and> lower (u_scheme parts) = ''https'' \<and> \<not> carries_credentials parts \<and>
        (port parts = Inr None \<or> (\<exists>n \<in> set (allowed_ports pol). port parts = Inr (Some n)))"
  using assms unfolding screen_target_def host_of_def
  by (auto simp: Let_def split: sum.splits if_splits option.splits)

lemma validate_target_ok:
  assumes "validate_target net pol allowed u t = (Inr (host, ips), t')"
  shows "host = host_of net u" and "ips \<noteq> []" and "list_all public ips" and "safe_target net pol allowed (looked_up t') u"
proof -
  obtain literal where s: "screen_target net pol allowed u = Inr (host, literal)"
    and r: "(if literal then (judge_addresses host [host], t)
      else (case lookup net host t of (Unresolvable, t) \<Rightarrow> (Inl (FetchBlocked CannotResolve), t)
           | (ResolverRaises name, t) \<Rightarrow> (Inl (Foreign name), t)
           | (Resolved ips, t) \<Rightarrow> (judge_addresses host ips, t))) = (Inr (host, ips), t')"
    using assms unfolding validate_target_def
    by (auto simp: judge_addresses_ok split: sum.splits if_splits prod.splits option.splits resolution.splits)
  note screened = screen_target_ok [OF s]
  show h: "host = host_of net u" by (rule screened)
  show ips: "ips \<noteq> []" "list_all public ips"
    using r by (auto simp: judge_addresses_ok split: if_splits prod.splits option.splits resolution.splits)
  have "vetted net (looked_up t') host \<or> allow_ip_literals pol \<and> public host"
  proof (cases literal)
    case True
    then have "public host" using r by (simp add: judge_addresses_ok)
    then show ?thesis using screened(3) [OF True] by blast
  next
    case False
    then have "resolver net (looked_up t @ [host]) = Resolved ips" "looked_up t' = looked_up t @ [host]"
      using r by (auto simp: lookup_def judge_addresses_ok Let_def split: option.splits resolution.splits)
    then have "vetted net (looked_up t') host"
      unfolding vetted_def using ips by (intro exI [of _ "Suc (length (looked_up t))"] exI [of _ ips]) simp
    then show ?thesis ..
  qed
  then show "safe_target net pol allowed (looked_up t') u"
    unfolding safe_target_def using screened(2,4) unfolding h by blast
qed

lemma validate_target_frame:
  "validate_target net pol allowed u t = (r, t') \<Longrightarrow> sent t' = sent t \<and> (\<exists>ns. looked_up t' = looked_up t @ ns)"
  unfolding validate_target_def
  by (auto simp: lookup_def Let_def split: sum.splits if_splits prod.splits option.splits resolution.splits)

section \<open>What a fetch adds to the traffic\<close>

definition clean_headers :: "headers \<Rightarrow> bool" where
  "clean_headers hs \<longleftrightarrow> (\<forall>(name, v) \<in> set hs. lower name \<notin> set CREDENTIAL_HEADERS)"

lemma clean_stripped: "clean_headers (strip_credential_headers hs)"
  by (auto simp: clean_headers_def strip_credential_headers_def)

text \<open>At most \<open>n\<close> requests, each to a safe target, with credentials for the host \<open>home\<close> only.\<close>

definition decent :: "internet \<Rightarrow> fetch_policy \<Rightarrow> string list \<Rightarrow> string \<Rightarrow> nat \<Rightarrow> traffic \<Rightarrow> traffic \<Rightarrow> bool" where
  "decent net pol allowed home n t t' \<longleftrightarrow>
     (\<exists>new names. sent t' = sent t @ new \<and> length new \<le> n \<and> looked_up t' = looked_up t @ names \<and>
        (\<forall>(u, hs) \<in> set new. safe_target net pol allowed (looked_up t') u \<and> (host_of net u \<noteq> home \<longrightarrow> clean_headers hs)))"

lemma decent_trans:
  assumes "decent net pol allowed home n t1 t2" and "decent net pol allowed home m t2 t3"
  shows "decent net pol allowed home (n + m) t1 t3"
proof -
  obtain a x where 1: "sent t2 = sent t1 @ a" "length a \<le> n" "looked_up t2 = looked_up t1 @ x"
    "\<forall>(u, hs) \<in> set a. safe_target net pol allowed (looked_up t2) u \<and> (host_of net u \<noteq> home \<longrightarrow> clean_headers hs)"
    using assms(1) unfolding decent_def by blast
  obtain b y where 2: "sent t3 = sent t2 @ b" "length b \<le> m" "looked_up t3 = looked_up t2 @ y"
    "\<forall>(u, hs) \<in> set b. safe_target net pol allowed (looked_up t3) u \<and> (host_of net u \<noteq> home \<longrightarrow> clean_headers hs)"
    using assms(2) unfolding decent_def by blast
  have "\<forall>(u, hs) \<in> set (a @ b). safe_target net pol allowed (looked_up t3) u \<and> (host_of net u \<noteq> home \<longrightarrow> clean_headers hs)"
    using 1(4) 2(4) safe_target_more [of net pol allowed "looked_up t2" _ y] unfolding 2(3) [symmetric] by fastforce
  then show ?thesis unfolding decent_def using 1 2 by (intro exI [of _ "a @ b"] exI [of _ "x @ y"]) simp
qed

lemma decent_quiet: "sent t' = sent t \<Longrightarrow> looked_up t' = looked_up t @ names \<Longrightarrow> decent net pol allowed home 0 t t'"
  unfolding decent_def by auto

lemma decent_mono: "decent net pol allowed home n t t' \<Longrightarrow> n \<le> m \<Longrightarrow> decent net pol allowed home m t t'"
  unfolding decent_def by (meson le_trans)

lemma validate_decent: "validate_target net pol allowed u t = (r, t') \<Longrightarrow> decent net pol allowed home 0 t t'"
  using validate_target_frame [of net pol allowed u t r t'] decent_quiet by blast

text \<open>The state between two requests: where the next one goes was checked, and credentials are only
  still there while every host so far was the first one.\<close>

definition hop_ok :: "internet \<Rightarrow> fetch_policy \<Rightarrow> string list \<Rightarrow> string \<Rightarrow> hop \<Rightarrow> traffic \<Rightarrow> bool" where
  "hop_ok net pol allowed url h t \<longleftrightarrow>
     safe_target net pol allowed (looked_up t) (h_current h) \<and> h_origin h = host_of net (h_current h) \<and>
     (h_origin h = host_of net url \<or> clean_headers (h_headers h)) \<and>
     h_resolved h \<noteq> [] \<and> list_all public (h_resolved h) \<and>
     h_chain h \<noteq> [] \<and> hd (h_chain h) = url \<and> last (h_chain h) = h_current h"

lemma send_decent:
  assumes "hop_ok net pol allowed url h t" and "send net (h_current h) (h_headers h) t = (a, t')"
  shows "decent net pol allowed (host_of net url) 1 t t'" and "hop_ok net pol allowed url h t'"
proof -
  have t': "t' = t\<lparr>sent := sent t @ [(h_current h, h_headers h)]\<rparr>" using assms(2) by (simp add: send_def Let_def)
  show "hop_ok net pol allowed url h t'" using assms(1) unfolding hop_ok_def t' by auto
  show "decent net pol allowed (host_of net url) 1 t t'" unfolding decent_def t'
    by (intro exI [of _ "[(h_current h, h_headers h)]"] exI [of _ "[]"]) (use assms(1) in \<open>auto simp: hop_ok_def\<close>)
qed

lemma follow_cases:
  assumes "follow net pol allowed h r t = (out, t')"
  obtains (quiet) e where "out = Inl e" "decent net pol allowed home 0 t t'"
  | (onward) target host ips where "out = Inr (next_hop h target host ips)"
      "validate_target net pol allowed target t = (Inr (host, ips), t')" "decent net pol allowed home 0 t t'"
  using assms validate_decent [of net pol allowed] decent_quiet [of t t "[]"] unfolding follow_def
  by (auto split: if_splits sum.splits prod.splits)

lemma next_hop_ok:
  assumes "hop_ok net pol allowed url h t" and "validate_target net pol allowed target t = (Inr (host, ips), t')"
  shows "hop_ok net pol allowed url (next_hop h target host ips) t'"
  using assms validate_target_ok [OF assms(2)] clean_stripped
  unfolding hop_ok_def next_hop_def by auto

lemma accept_answer_ok:
  assumes "accept_answer net pol url h r = Inr res"
  shows "fr_url res = h_current h" "fr_requested_url res = url" "fr_redirect_chain res = h_chain h"
    "fr_resolved_ips res = h_resolved h" "fr_status res < 400" "fr_status res = rs_status r"
    "\<exists>media cs wire. receive pol r = Inr (media, cs, fr_content res, wire) \<and> fr_content_type res = media"
  using assms unfolding accept_answer_def status_error_def
  by (auto simp: Let_def split: option.splits sum.splits prod.splits if_splits)

lemma over_cap_None: "over_cap pol n wire = None \<Longrightarrow> n \<le> max_decompressed_bytes pol \<and> wire \<le> max_bytes pol"
  by (auto simp: over_cap_def split: if_splits)

lemma read_chunks_capped:
  "read_chunks pol ending acc chunks = Inr content \<Longrightarrow>
    content = acc \<or> int (length content) \<le> max_decompressed_bytes pol"
  by (induction pol ending acc chunks rule: read_chunks.induct)
    (auto simp: Let_def dest: over_cap_None split: option.splits stream_end.splits)

lemma receive_capped:
  assumes "receive pol r = Inr (media, cs, content, wire)"
  shows "content = [] \<or> (int (length content) \<le> max_decompressed_bytes pol \<and> check_content_type media pol = None)"
  using assms read_chunks_capped unfolding receive_def read_capped_def
  by (fastforce split: if_splits prod.splits option.splits sum.splits)

section \<open>Whole fetches\<close>

definition sound_result :: "internet \<Rightarrow> fetch_policy \<Rightarrow> string \<Rightarrow> nat \<Rightarrow> fetch_result \<Rightarrow> bool" where
  "sound_result net pol url n res \<longleftrightarrow>
     fr_requested_url res = url \<and> fr_redirect_chain res \<noteq> [] \<and> hd (fr_redirect_chain res) = url \<and>
     last (fr_redirect_chain res) = fr_url res \<and> length (fr_redirect_chain res) \<le> n \<and>
     fr_resolved_ips res \<noteq> [] \<and> list_all public (fr_resolved_ips res) \<and>
     fr_status res < 400 \<and> fr_status res \<notin> set REDIRECT_STATUSES \<and>
     (fr_content res = [] \<or> int (length (fr_content res)) \<le> max_decompressed_bytes pol \<and>
        check_content_type (fr_content_type res) pol = None)"

lemma accept_answer_sound:
  assumes "hop_ok net pol allowed url h t" and "accept_answer net pol url h r = Inr res"
    and "rs_status r \<notin> set REDIRECT_STATUSES" and "length (h_chain h) \<le> n"
  shows "sound_result net pol url n res"
  using assms(1,3,4) accept_answer_ok [OF assms(2)] receive_capped unfolding sound_result_def hop_ok_def by fastforce

lemma hops_decent:
  "hop_ok net pol allowed url h t \<Longrightarrow> hops net pol allowed url n h t = (out, t') \<Longrightarrow>
    decent net pol allowed (host_of net url) n t t' \<and>
    (\<forall>res. out = Inr res \<longrightarrow> sound_result net pol url (length (h_chain h) + n - 1) res)"
proof (induction n arbitrary: h t)
  case 0
  then show ?case using decent_quiet [of t t "[]"] by auto
next
  case (Suc n)
  obtain a t1 where s: "send net (h_current h) (h_headers h) t = (a, t1)" by fastforce
  note d1 = send_decent [OF Suc.prems(1) s]
  have ended: ?case if "t' = t1" "\<And>res. out = Inr res \<Longrightarrow> sound_result net pol url (length (h_chain h)) res"
    using that d1(1) decent_mono [of net pol allowed "host_of net url" 1 t t1 "Suc n"]
    by (auto simp: sound_result_def)
  show ?case
  proof (cases a)
    case (Answer r)
    show ?thesis
    proof (cases "rs_status r \<in> set REDIRECT_STATUSES")
      case False
      then have o: "out = accept_answer net pol url h r" "t' = t1" using Suc.prems(2) s Answer by simp_all
      show ?thesis by (rule ended [OF o(2)]) (use accept_answer_sound [OF d1(2) _ False] o(1) in simp)
    next
      case True
      obtain f t2 where f: "follow net pol allowed h r t1 = (f, t2)" by fastforce
      have o: "(case f of Inl e \<Rightarrow> (Inl e, t2) | Inr h \<Rightarrow> hops net pol allowed url n h t2) = (out, t')"
        using Suc.prems(2) s Answer True f by (simp split: sum.splits)
      from f show ?thesis
      proof (cases rule: follow_cases [where home = "host_of net url"])
        case (quiet e)
        then have "decent net pol allowed (host_of net url) 1 t t2" using decent_trans [OF d1(1)] by fastforce
        then show ?thesis using o quiet decent_mono [of net pol allowed "host_of net url" 1 t t2 "Suc n"] by auto
      next
        case (onward target host ips)
        note ok = next_hop_ok [OF d1(2) onward(2)]
        have run: "hops net pol allowed url n (next_hop h target host ips) t2 = (out, t')" using o onward(1) by simp
        have "decent net pol allowed (host_of net url) (1 + 0 + n) t t'"
          using decent_trans [OF decent_trans [OF d1(1) onward(3)]] Suc.IH [OF ok run] by blast
        moreover have "length (h_chain (next_hop h target host ips)) = Suc (length (h_chain h))" by (simp add: next_hop_def)
        ultimately show ?thesis using Suc.IH [OF ok run] by auto
      qed
    qed
  qed (use Suc.prems(2) s ended in auto)
qed

lemma attempt_decent:
  assumes "attempt_once net pol allowed url hs t = (out, t')"
  shows "decent net pol allowed (host_of net url) (nat (max_redirects pol + 1)) t t' \<and>
    (\<forall>res. out = Inr res \<longrightarrow> sound_result net pol url (nat (max_redirects pol + 1)) res)"
proof -
  let ?n = "nat (max_redirects pol + 1)"
  obtain v t1 where v: "validate_target net pol allowed url t = (v, t1)" by fastforce
  show ?thesis
  proof (cases v)
    case (Inl e)
    then show ?thesis using assms v validate_decent [OF v] decent_mono [of net pol allowed "host_of net url" 0 t t1 ?n]
      by (auto simp: attempt_once_def)
  next
    case (Inr r)
    obtain host ips where r: "r = (host, ips)" by fastforce
    let ?h = "\<lparr>h_current = url, h_headers = hs, h_origin = host, h_resolved = ips, h_chain = [url]\<rparr>"
    have run: "hops net pol allowed url ?n ?h t1 = (out, t')" using assms v Inr r by (simp add: attempt_once_def)
    have ok: "hop_ok net pol allowed url ?h t1" using validate_target_ok v Inr r unfolding hop_ok_def by fastforce
    have "decent net pol allowed (host_of net url) (0 + ?n) t t'"
      using decent_trans [OF validate_decent [OF v]] hops_decent [OF ok run] by blast
    then show ?thesis using hops_decent [OF ok run] by simp
  qed
qed

lemma pause_frame [simp]: "sent (pause d t) = sent t" "looked_up (pause d t) = looked_up t"
  by (simp_all add: pause_def)

lemma back_off_frame: "back_off pol i t = Inr t' \<Longrightarrow> sent t' = sent t \<and> looked_up t' = looked_up t"
  by (auto simp: back_off_def map_res_eq_Inr split: if_splits)

lemma attempts_decent:
  "attempts net pol allowed url hs n i t = (out, t') \<Longrightarrow>
    decent net pol allowed (host_of net url) (Suc n * nat (max_redirects pol + 1)) t t' \<and>
    (\<forall>res. out = Inr res \<longrightarrow> sound_result net pol url (nat (max_redirects pol + 1)) res)"
proof (induction n arbitrary: i t)
  let ?N = "nat (max_redirects pol + 1)" and ?d = "decent net pol allowed (host_of net url)"
  have same: "?d n (pause c t) t1 \<Longrightarrow> ?d n t t1" for n c t t1 by (simp add: decent_def)
  have after: "?d n t1 t2 \<Longrightarrow> back_off pol i t2 = Inr t3 \<Longrightarrow> ?d n t1 t3" for n t1 t2 t3 i
    using decent_trans [of net pol allowed "host_of net url" n t1 t2 0 t3] decent_quiet [of t3 t2 "[]"] back_off_frame by fastforce
  {
    case 0
    obtain r t1 where a: "attempt_once net pol allowed url hs (pause (courtesy_delay pol) t) = (r, t1)" by fastforce
    note d = same [OF conjunct1 [OF attempt_decent [OF a]]]
    show ?case using 0 a d after [OF d] attempt_decent [OF a]
      by (auto simp del: attempts.simps simp: attempts.simps [of _ _ _ _ _ 0] split: sum.splits option.splits)
  next
    case (Suc n)
    obtain r t1 where a: "attempt_once net pol allowed url hs (pause (courtesy_delay pol) t) = (r, t1)" by fastforce
    note d = same [OF conjunct1 [OF attempt_decent [OF a]]]
    have wide: "?d ?N t t2 \<Longrightarrow> ?d (Suc (Suc n) * ?N) t t2" for t2 by (erule decent_mono) simp
    show ?case
    proof (cases "\<exists>e e' t2. r = Inl e \<and> remembered e = Some e' \<and> back_off pol i t1 = Inr t2")
      case False
      then show ?thesis using Suc.prems a wide [OF d] attempt_decent [OF a]
        by (auto simp del: attempts.simps simp: attempts.simps [of _ _ _ _ _ "Suc n"] split: sum.splits option.splits)
    next
      case True
      then obtain e e' t2 where r: "r = Inl e" "remembered e = Some e'" "back_off pol i t1 = Inr t2" by blast
      then have run: "attempts net pol allowed url hs n (Suc i) t2 = (out, t')"
        using Suc.prems a by (simp del: attempts.simps add: attempts.simps [of _ _ _ _ _ "Suc n"])
      have "?d (?N + Suc n * ?N) t t'"
        using decent_trans [OF after [OF d r(3)]] Suc.IH [OF run] by blast
      then show ?thesis using Suc.IH [OF run] by simp
    qed
  }
qed

text \<open>C1: Whatever the peer and the resolver answer, over every redirect and retry of a fetch: each
  request goes to an https URL without credentials, on an allowed port, whose host is in the source's
  allowlist and either had only public addresses in an answer of the resolver during this fetch or is
  itself a public literal the policy allows; a request to another host than the first carries no
  credential header; and there are at most attempts times redirects plus one requests.\<close>

theorem fetch_stays_inside:
  assumes "fetch net pol allowed extra url = (out, t)"
  shows "int (length (sent t)) \<le> max 1 (max_attempts pol) * max 0 (max_redirects pol + 1) \<and>
    (\<forall>(u, hs) \<in> set (sent t). safe_target net pol allowed (looked_up t) u \<and>
       (host_of net u \<noteq> host_of net url \<longrightarrow> clean_headers hs))"
proof (cases "allowed = []")
  case True
  then show ?thesis using assms by (auto simp: fetch_def Let_def)
next
  case False
  let ?n = "nat (max 1 (max_attempts pol)) - 1" and ?N = "nat (max_redirects pol + 1)"
  let ?t = "\<lparr>sent = [], looked_up = [], pauses = []\<rparr>"
  have run: "attempts net pol allowed url (request_headers pol extra) ?n 0 ?t = (out, t)"
    using assms False by (simp add: fetch_def Let_def)
  have "decent net pol allowed (host_of net url) (Suc ?n * ?N) ?t t" using attempts_decent [OF run] by blast
  then have len: "length (sent t) \<le> Suc ?n * ?N"
    and all: "\<forall>(u, hs) \<in> set (sent t). safe_target net pol allowed (looked_up t) u \<and>
       (host_of net u \<noteq> host_of net url \<longrightarrow> clean_headers hs)"
    unfolding decent_def by auto
  have "int (Suc ?n) = max 1 (max_attempts pol)" by simp
  moreover have "int ?N = max 0 (max_redirects pol + 1)" by simp
  moreover have "int (length (sent t)) \<le> int (Suc ?n) * int ?N" using len unfolding of_nat_mult [symmetric] by (rule of_nat_mono)
  ultimately have "int (length (sent t)) \<le> max 1 (max_attempts pol) * max 0 (max_redirects pol + 1)" by (simp only:)
  then show ?thesis using all by (rule conjI)
qed

text \<open>C21: A fetch that returns has followed its own chain from the requested URL to the final one, of
  at most redirects plus one URLs, the final host having resolved to public addresses only; the status
  is below 400 and no redirect, and the body, when there is one, is within the decompressed cap and of
  an accepted content type.\<close>

theorem fetch_result_sound:
  assumes "fetch net pol allowed extra url = (Inr res, t)"
  shows "sound_result net pol url (nat (max_redirects pol + 1)) res"
  using assms attempts_decent unfolding fetch_def by (fastforce simp: Let_def split: if_splits)

section \<open>Decisive answers\<close>

text \<open>An answer that settles the matter: no redirect, not transient, and an error or a whole body.\<close>

definition conclusive :: "answer \<Rightarrow> bool" where
  "conclusive a = (case a of Answer r \<Rightarrow>
       rs_status r \<notin> set REDIRECT_STATUSES \<and> rs_status r \<noteq> 429 \<and> rs_status r < 500 \<and>
       (400 \<le> rs_status r \<or> rs_status r = 304 \<or> rs_end r = Complete)
     | _ \<Rightarrow> False)"

text \<open>None of the added requests was answered conclusively, except the last one where \<open>b\<close>.\<close>

definition lasting :: "internet \<Rightarrow> bool \<Rightarrow> traffic \<Rightarrow> traffic \<Rightarrow> bool" where
  "lasting net b t t' \<longleftrightarrow> (\<exists>new. sent t' = sent t @ new \<and>
     (\<forall>k < length new. conclusive (peer net (sent t @ take (Suc k) new)) \<longrightarrow> b \<and> Suc k = length new))"

lemma lasting_trans:
  assumes "lasting net False t1 t2" and "lasting net b t2 t3"
  shows "lasting net b t1 t3"
proof -
  obtain x where x: "sent t2 = sent t1 @ x" "\<forall>k < length x. \<not> conclusive (peer net (sent t1 @ take (Suc k) x))"
    using assms(1) unfolding lasting_def by blast
  obtain y where y: "sent t3 = sent t2 @ y"
    "\<forall>k < length y. conclusive (peer net (sent t2 @ take (Suc k) y)) \<longrightarrow> b \<and> Suc k = length y"
    using assms(2) unfolding lasting_def by blast
  have "b \<and> Suc k = length (x @ y)"
    if k: "k < length (x @ y)" and c: "conclusive (peer net (sent t1 @ take (Suc k) (x @ y)))" for k
  proof (cases "k < length x")
    case True
    then show ?thesis using x(2) c by simp
  next
    case False
    then have "take (Suc k) (x @ y) = x @ take (Suc (k - length x)) y" by (simp add: Suc_diff_le)
    then show ?thesis using y(2) [rule_format, of "k - length x"] c k False unfolding x(1) by simp
  qed
  then show ?thesis unfolding lasting_def using x(1) y(1) by (intro exI [of _ "x @ y"]) simp
qed

lemma lasting_weaken: "lasting net False t t' \<Longrightarrow> lasting net b t t'"
  unfolding lasting_def by blast

lemma lasting_quiet: "sent t' = sent t \<Longrightarrow> lasting net b t t'"
  unfolding lasting_def by simp

lemma send_lasting:
  "send net u hs t = (a, t') \<Longrightarrow> (conclusive a \<Longrightarrow> b) \<Longrightarrow> lasting net b t t'"
  unfolding lasting_def send_def by (intro exI [of _ "[(u, hs)]"]) (auto simp: Let_def)

definition settled_outcome :: "raised + fetch_result \<Rightarrow> bool" where
  "settled_outcome out = (case out of Inr _ \<Rightarrow> True | Inl e \<Rightarrow> remembered e = None)"

lemma read_chunks_settled:
  "read_chunks pol Complete acc chunks = Inl e \<Longrightarrow> remembered e = None"
  by (induction pol Complete acc chunks rule: read_chunks.induct)
    (auto simp: Let_def remembered_def split: option.splits)

lemma declared_length_settled: "declared_length h = Inl e \<Longrightarrow> remembered e = None"
  by (auto simp: declared_length_def remembered_def split: option.splits if_splits sum.splits)

lemma receive_settled:
  assumes "rs_status r = 304 \<or> rs_end r = Complete" and "receive pol r = Inl e"
  shows "remembered e = None"
proof (cases "check_content_type (fst (split_content_type (rs_type r))) pol")
  case None
  then have "read_capped pol r = Inl e" "rs_end r = Complete"
    using assms by (auto simp: receive_def split: if_splits prod.splits sum.splits)
  then show ?thesis using read_chunks_settled declared_length_settled
    by (auto simp: read_capped_def remembered_def split: sum.splits if_splits option.splits)
next
  case (Some why)
  then show ?thesis using assms by (auto simp: receive_def remembered_def split: if_splits prod.splits)
qed

lemma decode_settled: "decode_strictly net content charset = Inl e \<Longrightarrow> remembered e = None"
  by (auto simp: decode_strictly_def remembered_def split: if_splits decoded.splits)

lemma accept_answer_settled:
  assumes "conclusive (Answer r)"
  shows "settled_outcome (accept_answer net pol url h r)"
proof -
  have *: "remembered e = None" if "accept_answer net pol url h r = Inl e" for e
  proof (cases "status_error (rs_status r)")
    case (Some e')
    then show ?thesis using that assms
      by (auto simp: accept_answer_def status_error_def conclusive_def remembered_def split: if_splits)
  next
    case None
    then have "rs_status r < 400" by (auto simp: status_error_def split: if_splits)
    then have "rs_status r = 304 \<or> rs_end r = Complete" using assms by (auto simp: conclusive_def)
    then show ?thesis using that None receive_settled decode_settled
      by (auto simp: accept_answer_def Let_def split: sum.splits prod.splits)
  qed
  then show ?thesis by (auto simp: settled_outcome_def split: sum.splits)
qed

lemma follow_quiet: "follow net pol allowed h r t = (out, t') \<Longrightarrow> sent t' = sent t"
  unfolding follow_def using validate_target_frame [of net pol allowed]
  by (auto split: if_splits sum.splits prod.splits)

lemma hops_lasting: "hops net pol allowed url n h t = (out, t') \<Longrightarrow> lasting net (settled_outcome out) t t'"
proof (induction n arbitrary: h t)
  case 0
  then show ?case by (auto intro: lasting_quiet)
next
  case (Suc n)
  obtain a t1 where s: "send net (h_current h) (h_headers h) t = (a, t1)" by fastforce
  show ?case
  proof (cases a)
    case (Answer r)
    show ?thesis
    proof (cases "rs_status r \<in> set REDIRECT_STATUSES")
      case False
      then have "out = accept_answer net pol url h r" "t' = t1" using Suc.prems s Answer by simp_all
      then show ?thesis using send_lasting [OF s] accept_answer_settled Answer by simp
    next
      case True
      obtain f t2 where f: "follow net pol allowed h r t1 = (f, t2)" by fastforce
      have "lasting net False t t1" using True Answer by (intro send_lasting [OF s]) (simp add: conclusive_def)
      then have l: "lasting net False t t2"
        using lasting_trans [OF _ lasting_quiet [OF follow_quiet [OF f]]] by blast
      show ?thesis
      proof (cases f)
        case (Inl e)
        then show ?thesis using Suc.prems s Answer True f lasting_weaken [OF l] by simp
      next
        case (Inr h')
        then have "hops net pol allowed url n h' t2 = (out, t')" using Suc.prems s Answer True f by simp
        then show ?thesis using lasting_trans [OF l Suc.IH] by blast
      qed
    qed
  qed (use Suc.prems s send_lasting [OF s] in \<open>simp_all add: conclusive_def\<close>)
qed

lemma attempt_lasting:
  assumes "attempt_once net pol allowed url hs t = (out, t')"
  shows "lasting net (settled_outcome out) t t'"
proof -
  obtain v t1 where v: "validate_target net pol allowed url t = (v, t1)" by fastforce
  have q: "lasting net False t t1" using lasting_quiet validate_target_frame [OF v] by blast
  show ?thesis
  proof (cases v)
    case (Inl e)
    then show ?thesis using assms v lasting_weaken [OF q] by (simp add: attempt_once_def)
  next
    case (Inr r)
    then obtain host ips where "v = Inr (host, ips)" by (cases r) simp
    then have "hops net pol allowed url (nat (max_redirects pol + 1))
        \<lparr>h_current = url, h_headers = hs, h_origin = host, h_resolved = ips, h_chain = [url]\<rparr> t1 = (out, t')"
      using assms v by (simp add: attempt_once_def)
    from lasting_trans [OF q hops_lasting [OF this]] show ?thesis .
  qed
qed

lemma attempts_lasting: "attempts net pol allowed url hs n i t = (out, t') \<Longrightarrow> lasting net True t t'"
proof (induction n arbitrary: i t)
  have start: "lasting net b (pause c t) t1 \<Longrightarrow> lasting net b t t1" for b c t t1 by (simp add: lasting_def)
  have held: "lasting net b t t1 \<Longrightarrow> back_off pol i t1 = Inr t2 \<Longrightarrow> lasting net b t t2" for b i t t1 t2
    using back_off_frame [of pol i t1 t2] by (simp add: lasting_def)
  have up: "lasting net b t t1 \<Longrightarrow> lasting net True t t1" for b t t1 unfolding lasting_def by blast
  {
    case 0
    obtain r t1 where a: "attempt_once net pol allowed url hs (pause (courtesy_delay pol) t) = (r, t1)" by fastforce
    note l = up [OF start [OF attempt_lasting [OF a]]]
    show ?case using 0 a l held [OF l]
      by (auto simp del: attempts.simps simp: attempts.simps [of _ _ _ _ _ 0] split: sum.splits option.splits)
  next
    case (Suc n)
    obtain r t1 where a: "attempt_once net pol allowed url hs (pause (courtesy_delay pol) t) = (r, t1)" by fastforce
    note l = start [OF attempt_lasting [OF a]]
    show ?case
    proof (cases "\<exists>e e' t2. r = Inl e \<and> remembered e = Some e' \<and> back_off pol i t1 = Inr t2")
      case False
      then show ?thesis using Suc.prems a up [OF l]
        by (auto simp del: attempts.simps simp: attempts.simps [of _ _ _ _ _ "Suc n"] split: sum.splits option.splits)
    next
      case True
      then obtain e e' t2 where r: "r = Inl e" "remembered e = Some e'" "back_off pol i t1 = Inr t2" by blast
      then have run: "attempts net pol allowed url hs n (Suc i) t2 = (out, t')"
        using Suc.prems a by (simp del: attempts.simps add: attempts.simps [of _ _ _ _ _ "Suc n"])
      have "lasting net False t t2" using held [OF _ r(3)] l r(1,2) by (simp add: settled_outcome_def)
      from lasting_trans [OF this Suc.IH [OF run]] show ?thesis .
    qed
  }
qed

text \<open>A conclusive answer (a refusal such as 401, 403, 404 or 451, an unchanged 304, a success whose
  body arrives whole) is the last thing a fetch hears: nothing is sent after it, so no auth wall and no
  permanent error is ever retried.\<close>

theorem conclusive_answer_ends_fetch:
  assumes "fetch net pol allowed extra url = (out, t)" and "k < length (sent t)"
    and "conclusive (peer net (take (Suc k) (sent t)))"
  shows "Suc k = length (sent t)"
proof -
  let ?t = "\<lparr>sent = [], looked_up = [], pauses = []\<rparr>"
  have "lasting net True ?t t"
    using assms(1) attempts_lasting lasting_quiet unfolding fetch_def by (fastforce simp: Let_def split: if_splits)
  then show ?thesis using assms(2,3) by (auto simp: lasting_def)
qed

section \<open>Errors\<close>




























text \<open>A peer that never answers, a resolver with one public address, ASCII as the only codec.\<close>

definition quiet_net :: internet where
  "quiet_net = \<lparr>peer = (\<lambda>_. ConnectTimeout), resolver = (\<lambda>_. Resolved [''8.8.8.8'']), idna = (\<lambda>_. None),
     urljoin = (\<lambda>_ u. Inr u), codec = (\<lambda>_ s. if ascii s then Decoded (map of_char s) else BadBytes)\<rparr>"


section \<open>A fetch with a retry and a redirect\<close>

definition demo_peer :: "(string \<times> headers) list \<Rightarrow> answer" where
  "demo_peer asked =
     (case length asked of
        Suc 0 \<Rightarrow> Answer \<lparr>rs_status = 503, rs_location = [], rs_length = None, rs_type = [], rs_body = (\<lambda>_. []), rs_end = Complete, rs_wire = 0\<rparr>
      | Suc (Suc 0) \<Rightarrow> Answer \<lparr>rs_status = 301, rs_location = ''https://www.example.org/feed'', rs_length = None, rs_type = [],
          rs_body = (\<lambda>_. []), rs_end = Complete, rs_wire = 0\<rparr>
      | _ \<Rightarrow> Answer \<lparr>rs_status = 200, rs_location = [], rs_length = Some ''4'', rs_type = ''text/xml; charset=utf-8'',
          rs_body = (\<lambda>_. [(''<a/>'', 4)]), rs_end = Complete, rs_wire = 4\<rparr>)"

definition demo_net :: internet where
  "demo_net = quiet_net\<lparr>peer := demo_peer\<rparr>"

definition demo_fetch :: "(raised + fetch_result) \<times> traffic" where
  "demo_fetch = fetch demo_net DEFAULT_POLICY [''.example.org''] [(''Authorization'', ''x'')] ''https://example.org/feed''"

lemma demo_fetch_evaluates:
  "case demo_fetch of (Inr r, t) \<Rightarrow> fr_content r = ''<a/>'' \<and> length (sent t) = 3 \<and>
      map (\<lambda>k. case peer demo_net (take (Suc k) (sent t)) of Answer r \<Rightarrow> rs_status r | _ \<Rightarrow> 0) [0, 1, 2] = [503, 301, 200] \<and>
      conclusive (peer demo_net (take (Suc 2) (sent t)))
    | _ \<Rightarrow> False"
  by code_simp

lemma demo_fetch_cases:
  obtains r t where "fetch demo_net DEFAULT_POLICY [''.example.org''] [(''Authorization'', ''x'')] ''https://example.org/feed'' = (Inr r, t)"
    "fr_content r = ''<a/>''" "length (sent t) = 3" "conclusive (peer demo_net (take (Suc 2) (sent t)))"
  using demo_fetch_evaluates unfolding demo_fetch_def by (auto split: prod.splits sum.splits)

theorem fetch_stays_inside_witness:
  "\<exists>r t. fetch demo_net DEFAULT_POLICY [''.example.org''] [(''Authorization'', ''x'')] ''https://example.org/feed'' = (Inr r, t) \<and>
    length (sent t) = 3 \<and> (\<forall>(u, hs) \<in> set (sent t). safe_target demo_net DEFAULT_POLICY [''.example.org''] (looked_up t) u)"
proof -
  obtain r t where f: "fetch demo_net DEFAULT_POLICY [''.example.org''] [(''Authorization'', ''x'')] ''https://example.org/feed'' = (Inr r, t)"
    and n: "length (sent t) = 3" by (rule demo_fetch_cases)
  show ?thesis using fetch_stays_inside [OF f] n f by fast
qed

theorem fetch_result_sound_witness:
  "\<exists>r t. fetch demo_net DEFAULT_POLICY [''.example.org''] [(''Authorization'', ''x'')] ''https://example.org/feed'' = (Inr r, t) \<and>
    fr_content r = ''<a/>'' \<and> sound_result demo_net DEFAULT_POLICY ''https://example.org/feed'' (nat (max_redirects DEFAULT_POLICY + 1)) r"
proof -
  obtain r t where f: "fetch demo_net DEFAULT_POLICY [''.example.org''] [(''Authorization'', ''x'')] ''https://example.org/feed'' = (Inr r, t)"
    and c: "fr_content r = ''<a/>''" by (rule demo_fetch_cases)
  show ?thesis using fetch_result_sound [OF f] c f by fast
qed

theorem conclusive_answer_ends_fetch_witness:
  "\<exists>r t. fetch demo_net DEFAULT_POLICY [''.example.org''] [(''Authorization'', ''x'')] ''https://example.org/feed'' = (Inr r, t) \<and>
    Suc 2 = length (sent t)"
proof -
  obtain r t where f: "fetch demo_net DEFAULT_POLICY [''.example.org''] [(''Authorization'', ''x'')] ''https://example.org/feed'' = (Inr r, t)"
    and n: "length (sent t) = 3" and c: "conclusive (peer demo_net (take (Suc 2) (sent t)))" by (rule demo_fetch_cases)
  have k: "2 < length (sent t)" using n by simp
  show ?thesis using conclusive_answer_ends_fetch [OF f k c] f by fast
qed




end
