(* ===== verification/Safe_Parse.thy ===== *)
theory Safe_Parse
  imports Safe_Fetch
begin

text \<open>
  The guarded parsers of \<^verbatim>\<open>app/news/safefetch.py\<close>: the prolog check in front of the XML parser and the
  nesting check in front of the JSON decoder. The two parsers and UTF-8 are parameters; text is
  represented up to code point 255.

  Shown: the nesting check measures the nesting of a document; a document type declaration is refused
  exactly when no tag opening precedes it, and a comment can hide one from the check.
\<close>

section \<open>XML\<close>

definition tag_start :: "string \<Rightarrow> bool" where
  "tag_start s = (case s of a # b # _ \<Rightarrow> a = CHR ''<'' \<and> (ascii_letter b \<or> b = CHR ''_'') | _ \<Rightarrow> False)"

text \<open>The text before the first tag opening, all of it when there is none.\<close>

fun prolog_of :: "string \<Rightarrow> string" where
  "prolog_of [] = []"
| "prolog_of (c # cs) = (if tag_start (c # cs) then [] else c # prolog_of cs)"

text \<open>\<^verbatim>\<open><!\s*WORD\<close> at the head of the text, ignoring case.\<close>

definition markup_at :: "string \<Rightarrow> string \<Rightarrow> bool" where
  "markup_at word s \<longleftrightarrow> take 2 s = ''<!'' \<and> lower (take (length word) (dropWhile py_space (drop 2 s))) = lower word"

fun somewhere :: "(string \<Rightarrow> bool) \<Rightarrow> string \<Rightarrow> bool" where
  "somewhere P [] = P []"
| "somewhere P (c # cs) = (P (c # cs) \<or> somewhere P cs)"

definition declares_dtd :: "string \<Rightarrow> bool" where
  "declares_dtd s \<longleftrightarrow> somewhere (markup_at ''DOCTYPE'') s \<or> somewhere (markup_at ''ENTITY'') s"

datatype parse_error = DtdRefused | PayloadTooLarge | TooDeep | NonStandardConstant | ParseFailed | Raised py_error

definition reject_doctype :: "string \<Rightarrow> parse_error option" where
  "reject_doctype s = (if declares_dtd (prolog_of s) then Some DtdRefused else None)"

datatype payload = Bytes string | Str string

definition payload_length :: "payload \<Rightarrow> int" where
  "payload_length p = (case p of Bytes b \<Rightarrow> int (length b) | Str s \<Rightarrow> int (length s))"

record text_lib =
  utf8_encode :: "string \<Rightarrow> string"
  utf8_strict :: "string \<Rightarrow> string option"
  utf8_replace :: "string \<Rightarrow> string"

text \<open>A declaration of another encoding is rewritten, since the text has been decoded already.\<close>

definition prepare_xml_bytes :: "text_lib \<Rightarrow> payload \<Rightarrow> string \<times> string" where
  "prepare_xml_bytes lib p =
     (case p of
        Bytes b \<Rightarrow> (b, utf8_replace lib b)
      | Str s \<Rightarrow>
          let encoded = utf8_encode lib s in
          (case xml_decl_encoding (take 200 encoded) of
             None \<Rightarrow> (encoded, s)
           | Some (before, name, after) \<Rightarrow>
               if lower name \<in> {''utf-8'', ''utf8''} then (encoded, s)
               else (before @ ''utf-8'' @ drop (length before + length name) encoded, s)))"

definition parse_xml_safely ::
  "text_lib \<Rightarrow> (string \<Rightarrow> 'x option) \<Rightarrow> int \<Rightarrow> payload \<Rightarrow> parse_error + 'x" where
  "parse_xml_safely lib parser limit p =
     (if limit < payload_length p then Inl PayloadTooLarge
      else let (payload, doc) = prepare_xml_bytes lib p in
        case reject_doctype doc of Some e \<Rightarrow> Inl e
        | None \<Rightarrow> (case parser payload of None \<Rightarrow> Inl ParseFailed | Some x \<Rightarrow> Inr x))"

section \<open>JSON\<close>

record scan =
  sc_depth :: int
  sc_in_string :: bool
  sc_escaped :: bool

fun depth_scan :: "int \<Rightarrow> scan \<Rightarrow> string \<Rightarrow> bool" where
  "depth_scan limit s [] = True"
| "depth_scan limit s (c # cs) =
     (if sc_in_string s then
        (if sc_escaped s then depth_scan limit (s\<lparr>sc_escaped := False\<rparr>) cs
         else if c = CHR 0x5C then depth_scan limit (s\<lparr>sc_escaped := True\<rparr>) cs
         else if c = CHR 0x22 then depth_scan limit (s\<lparr>sc_in_string := False\<rparr>) cs
         else depth_scan limit s cs)
      else if c = CHR 0x22 then depth_scan limit (s\<lparr>sc_in_string := True\<rparr>) cs
      else if c \<in> {CHR ''['', CHR ''{''} then
        (if limit < sc_depth s + 1 then False else depth_scan limit (s\<lparr>sc_depth := sc_depth s + 1\<rparr>) cs)
      else if c \<in> {CHR '']'', CHR ''}''} then depth_scan limit (s\<lparr>sc_depth := sc_depth s - 1\<rparr>) cs
      else depth_scan limit s cs)"

definition json_depth_ok :: "string \<Rightarrow> int \<Rightarrow> bool" where
  "json_depth_ok s limit = depth_scan limit \<lparr>sc_depth = 0, sc_in_string = False, sc_escaped = False\<rparr> s"

text \<open>What \<^verbatim>\<open>json.loads\<close> does: a value, a ValueError, or a non-standard constant handed to the hook.\<close>

datatype 'j loaded = Loaded 'j | LoadFails | Constant

definition parse_json_safely ::
  "text_lib \<Rightarrow> (string \<Rightarrow> 'j loaded) \<Rightarrow> int \<Rightarrow> int \<Rightarrow> payload \<Rightarrow> parse_error + 'j" where
  "parse_json_safely lib loads limit depth p =
     (if limit < payload_length p then Inl PayloadTooLarge
      else case (case p of Bytes b \<Rightarrow> utf8_strict lib b | Str s \<Rightarrow> Some s) of
        None \<Rightarrow> Inl (Raised ValueError)
      | Some doc \<Rightarrow>
          if \<not> json_depth_ok doc depth then Inl TooDeep
          else (case loads doc of Loaded v \<Rightarrow> Inr v | LoadFails \<Rightarrow> Inl ParseFailed | Constant \<Rightarrow> Inl NonStandardConstant))"

section \<open>The nesting check against documents\<close>

text \<open>A JSON value: atoms (literals and numbers) without structure characters, strings, arrays and objects.\<close>

datatype document =
    Atom string
  | Quoted string
  | Arr "document list"
  | Obj "(string \<times> document) list"

text \<open>The inside of a string literal: a quote or a backslash only after a backslash.\<close>

fun string_body :: "string \<Rightarrow> bool" where
  "string_body [] = True"
| "string_body (c # cs) = (if c = CHR 0x5C then (case cs of [] \<Rightarrow> False | _ # rest \<Rightarrow> string_body rest)
     else c \<noteq> CHR 0x22 \<and> string_body cs)"

definition atom_text :: "string \<Rightarrow> bool" where
  "atom_text s \<longleftrightarrow> set s \<inter> {CHR 0x22, CHR ''['', CHR '']'', CHR ''{'', CHR ''}''} = {}"

definition blank :: "string \<Rightarrow> bool" where
  "blank w \<longleftrightarrow> set w \<subseteq> {CHR '' '', CHR 0x09, CHR 0x0A, CHR 0x0D}"

fun nesting :: "document \<Rightarrow> int" where
  "nesting (Atom s) = 0"
| "nesting (Quoted s) = 0"
| "nesting (Arr ds) = 1 + fold max (map nesting ds) 0"
| "nesting (Obj ps) = 1 + fold max (map (\<lambda>(k, d). nesting d) ps) 0"

definition quoted :: "string \<Rightarrow> string" where
  "quoted s = CHR 0x22 # s @ [CHR 0x22]"

text \<open>The texts of a value after the grammar of RFC 8259: white space may stand around every value, every
  key and inside an empty array or object.\<close>

inductive spells :: "document \<Rightarrow> string \<Rightarrow> bool"
  and spells_elements :: "document list \<Rightarrow> string \<Rightarrow> bool"
  and spells_members :: "(string \<times> document) list \<Rightarrow> string \<Rightarrow> bool"
where
  atom: "atom_text s \<Longrightarrow> spells (Atom s) s"
| quotes: "string_body s \<Longrightarrow> spells (Quoted s) (quoted s)"
| padded: "spells d s \<Longrightarrow> blank a \<Longrightarrow> blank b \<Longrightarrow> spells d (a @ s @ b)"
| no_elements: "blank w \<Longrightarrow> spells (Arr []) (CHR ''['' # w @ '']'')"
| elements: "spells_elements ds s \<Longrightarrow> spells (Arr ds) (CHR ''['' # s @ '']'')"
| no_members: "blank w \<Longrightarrow> spells (Obj []) (CHR ''{'' # w @ ''}'')"
| members: "spells_members ps s \<Longrightarrow> spells (Obj ps) (CHR ''{'' # s @ ''}'')"
| last_element: "spells d s \<Longrightarrow> spells_elements [d] s"
| next_element: "spells d s \<Longrightarrow> spells_elements ds t \<Longrightarrow> spells_elements (d # ds) (s @ CHR '','' # t)"
| last_member: "blank a \<Longrightarrow> string_body k \<Longrightarrow> blank b \<Longrightarrow> spells d s \<Longrightarrow>
    spells_members [(k, d)] (a @ quoted k @ b @ CHR '':'' # s)"
| next_member: "blank a \<Longrightarrow> string_body k \<Longrightarrow> blank b \<Longrightarrow> spells d s \<Longrightarrow> spells_members ps t \<Longrightarrow>
    spells_members ((k, d) # ps) ((a @ quoted k @ b @ CHR '':'' # s) @ CHR '','' # t)"

abbreviation outside :: "int \<Rightarrow> scan" where
  "outside k \<equiv> \<lparr>sc_depth = k, sc_in_string = False, sc_escaped = False\<rparr>"

lemma scan_atom: "atom_text s \<Longrightarrow> depth_scan limit (outside k) (s @ rest) = depth_scan limit (outside k) rest"
  by (induction s) (auto simp: atom_text_def)

lemma scan_body:
  "string_body s \<Longrightarrow> depth_scan limit \<lparr>sc_depth = k, sc_in_string = True, sc_escaped = False\<rparr> (s @ CHR 0x22 # rest)
    = depth_scan limit (outside k) rest"
  by (induction s rule: string_body.induct) (auto split: list.splits if_splits)

lemma scan_quoted: "string_body s \<Longrightarrow> depth_scan limit (outside k) (quoted s @ rest) = depth_scan limit (outside k) rest"
  using scan_body [of s limit k rest] by (simp add: quoted_def)

text \<open>A piece of text that balances its brackets raises the depth by at most \<open>n\<close> and restores it.\<close>

definition weighs :: "int \<Rightarrow> string \<Rightarrow> int \<Rightarrow> bool" where
  "weighs limit s n \<longleftrightarrow> (\<forall>k rest. k \<le> limit \<longrightarrow>
     (depth_scan limit (outside k) (s @ rest) \<longleftrightarrow> k + n \<le> limit \<and> depth_scan limit (outside k) rest))"

lemma weighs_plain: "(\<And>k rest. depth_scan limit (outside k) (s @ rest) = depth_scan limit (outside k) rest) \<Longrightarrow> weighs limit s 0"
  by (simp add: weighs_def)

lemma weighs_append:
  "weighs limit a n \<Longrightarrow> weighs limit b m \<Longrightarrow> weighs limit (a @ b) (max n m)"
  unfolding weighs_def append_assoc by auto

lemma weighs_bracket:
  assumes "weighs limit s n" and "op \<in> {CHR ''['', CHR ''{''}" and "cl \<in> {CHR '']'', CHR ''}''}" and "0 \<le> n"
  shows "weighs limit (op # s @ [cl]) (1 + n)"
  unfolding weighs_def
proof (intro allI impI)
  fix k rest assume k: "k \<le> limit"
  have "depth_scan limit (outside k) ((op # s @ [cl]) @ rest) \<longleftrightarrow>
      k + 1 \<le> limit \<and> depth_scan limit (outside (k + 1)) (s @ cl # rest)"
    using assms(2) by auto
  also have "\<dots> \<longleftrightarrow> k + 1 \<le> limit \<and> k + 1 + n \<le> limit \<and> depth_scan limit (outside k) rest"
    using assms(1) [unfolded weighs_def, rule_format, of "k + 1" "cl # rest"] assms(3) by auto
  finally show "depth_scan limit (outside k) ((op # s @ [cl]) @ rest) \<longleftrightarrow> k + (1 + n) \<le> limit \<and> depth_scan limit (outside k) rest"
    using assms(4) by auto
qed

lemma weighs_comma: "weighs limit b m \<Longrightarrow> weighs limit (CHR '','' # b) m"
  unfolding weighs_def by simp

definition deepest :: "int list \<Rightarrow> int" where
  "deepest ns = fold max ns 0"

lemma deepest_Cons: "0 \<le> n \<Longrightarrow> deepest (n # ns) = max n (deepest ns)"
proof -
  have "fold max ns (max a b) = max a (fold max ns b)" for a b :: int
    by (induction ns arbitrary: b) (simp, metis fold_simps(2) max.left_commute)
  from this [of n 0] show "0 \<le> n \<Longrightarrow> ?thesis" by (simp add: deepest_def max.commute)
qed

lemma deepest_nonneg: "\<forall>n \<in> set ns. 0 \<le> n \<Longrightarrow> 0 \<le> deepest ns"
  by (induction ns) (simp_all add: deepest_Cons, simp add: deepest_def)

lemma nesting_nonneg: "0 \<le> nesting d"
proof (induction d)
  case (Arr ds)
  then have "0 \<le> deepest (map nesting ds)" by (intro deepest_nonneg) simp
  then show ?case by (simp add: deepest_def)
next
  case (Obj ps)
  then have "0 \<le> deepest (map (\<lambda>(k, d). nesting d) ps)" by (intro deepest_nonneg) fastforce
  then show ?case by (simp add: deepest_def)
qed simp_all

lemma deepest_nesting: "0 \<le> deepest (map nesting ds)" "0 \<le> deepest (map (\<lambda>(k, d). nesting d) ps)"
  by (auto intro!: deepest_nonneg simp: nesting_nonneg)

lemma scan_blank: "blank w \<Longrightarrow> depth_scan limit (outside k) (w @ rest) = depth_scan limit (outside k) rest"
  by (rule scan_atom) (auto simp: atom_text_def blank_def)

lemma weighs_blank: "blank w \<Longrightarrow> weighs limit w 0"
  by (rule weighs_plain) (rule scan_blank)

lemma weighs_member:
  assumes "weighs limit s n" and "blank a" "string_body k" "blank b" and "0 \<le> n"
  shows "weighs limit (a @ quoted k @ b @ CHR '':'' # s) n"
proof -
  have "weighs limit (a @ quoted k @ b @ '':'') 0"
    using assms by (intro weighs_plain) (simp add: scan_blank scan_quoted)
  from weighs_append [OF this assms(1)] show ?thesis using assms(5) by simp
qed

lemma weighs_next: "weighs limit a n \<Longrightarrow> weighs limit b m \<Longrightarrow> weighs limit (a @ CHR '','' # b) (max n m)"
  by (intro weighs_append weighs_comma)

lemma spelled_weight:
  "spells d s \<Longrightarrow> weighs limit s (nesting d)"
  "spells_elements ds s \<Longrightarrow> weighs limit s (deepest (map nesting ds))"
  "spells_members ps s \<Longrightarrow> weighs limit s (deepest (map (\<lambda>(k, d). nesting d) ps))"
proof (induction rule: spells_spells_elements_spells_members.inducts)
  case (atom s)
  then show ?case by (auto intro: weighs_plain simp: scan_atom)
next
  case (quotes s)
  then show ?case by (auto intro: weighs_plain simp: scan_quoted)
next
  case (padded d s a b)
  then have "weighs limit (a @ s @ b) (max 0 (max (nesting d) 0))" by (intro weighs_append weighs_blank)
  then show ?case using nesting_nonneg [of d] by simp
next
  case (no_elements w)
  then show ?case using weighs_bracket [OF weighs_blank [OF no_elements.hyps], of "CHR ''[''" "CHR '']''"] by simp
next
  case (elements ds s)
  then show ?case using weighs_bracket [OF elements.IH, of "CHR ''[''" "CHR '']''"] deepest_nesting(1) [of ds] by (simp add: deepest_def)
next
  case (no_members w)
  then show ?case using weighs_bracket [OF weighs_blank [OF no_members.hyps], of "CHR ''{''" "CHR ''}''"] by simp
next
  case (members ps s)
  then show ?case using weighs_bracket [OF members.IH, of "CHR ''{''" "CHR ''}''"] deepest_nesting(2) [of ps] by (simp add: deepest_def)
next
  case (last_element d s)
  then show ?case using nesting_nonneg [of d] by (simp add: deepest_def max.absorb1)
next
  case (next_element d s ds t)
  then show ?case using weighs_next [OF next_element.IH] nesting_nonneg [of d] by (simp add: deepest_Cons)
next
  case (last_member a k b d s)
  then show ?case using weighs_member [OF last_member.IH, of a k b] nesting_nonneg [of d] by (simp add: deepest_def max.absorb1)
next
  case (next_member a k b d s ps t)
  have "weighs limit (a @ quoted k @ b @ CHR '':'' # s) (nesting d)"
    using next_member by (intro weighs_member) (auto simp: nesting_nonneg)
  from weighs_next [OF this next_member.IH(2)] show ?case using nesting_nonneg [of d] by (simp add: deepest_Cons)
qed

text \<open>C16: On every text of a JSON value, with any white space the grammar allows and whatever its strings
  contain, the nesting check passes exactly when the value's nesting is within the limit; so the guarded
  parser refuses such a text as too deep exactly when it is, before the decoder sees it.\<close>

theorem json_depth_exact:
  assumes "spells d s" and "0 \<le> depth"
  shows "(json_depth_ok s depth \<longleftrightarrow> nesting d \<le> depth) \<and>
    (parse_json_safely lib loads limit depth (Str s) = Inl TooDeep \<longleftrightarrow> int (length s) \<le> limit \<and> depth < nesting d)"
proof -
  have ok: "json_depth_ok s depth \<longleftrightarrow> nesting d \<le> depth"
    using spelled_weight(1) [OF assms(1), of depth, unfolded weighs_def, rule_format, of 0 "[]"] assms(2)
    by (simp add: json_depth_ok_def)
  moreover have "parse_json_safely lib loads limit depth (Str s) = Inl TooDeep \<longleftrightarrow> int (length s) \<le> limit \<and> \<not> json_depth_ok s depth"
    by (auto simp: parse_json_safely_def payload_length_def split: loaded.splits)
  ultimately show ?thesis by auto
qed

text \<open>\<^verbatim>\<open>{"[[[": [ 1 ]}\<close> has nesting two: it passes a limit of two and is refused under a limit of one.\<close>

theorem json_depth_exact_witness:
  "let s = CHR ''{'' # quoted ''[[['' @ '': [ 1 ]}'' in json_depth_ok s 2 \<and> \<not> json_depth_ok s 1"
proof -
  have one: "spells (Atom '' 1 '') '' 1 ''" by (rule atom) (simp add: atom_text_def)
  have "spells (Arr [Atom '' 1 '']) ('' '' @ ''[ 1 ]'' @ [])"
    using padded [OF elements [OF last_element [OF one]], of "'' ''" "[]"] by (simp add: blank_def)
  from members [OF last_member [OF _ _ _ this, of "[]" "''[[[''" "[]"]]
  have "spells (Obj [(''[[['', Arr [Atom '' 1 ''])]) (CHR ''{'' # quoted ''[[['' @ '': [ 1 ]}'')"
    by (simp add: blank_def)
  from json_depth_exact [OF this, of 1, THEN conjunct1] json_depth_exact [OF this, of 2, THEN conjunct1]
  show ?thesis unfolding Let_def by simp
qed

section \<open>The prolog check against documents\<close>

lemma prolog_stops: "somewhere tag_start pre \<Longrightarrow> prolog_of (pre @ s) = prolog_of pre"
proof (induction pre)
  case (Cons c pre)
  have "pre \<noteq> [] \<or> tag_start (c # pre)" using Cons.prems by (auto simp: tag_start_def)
  then have "tag_start (c # pre @ s) \<longleftrightarrow> tag_start (c # pre)"
    by (cases pre) (auto simp: tag_start_def)
  then show ?case using Cons by auto
qed (simp add: tag_start_def)

lemma prolog_continues: "\<not> somewhere tag_start pre \<Longrightarrow> prolog_of (pre @ CHR ''<'' # s) = pre @ prolog_of (CHR ''<'' # s)"
proof (induction pre)
  case (Cons c pre)
  have "\<not> tag_start (c # pre @ CHR ''<'' # s)"
    using Cons.prems by (cases pre) (auto simp: tag_start_def ascii_letter_def Let_def)
  then show ?case using Cons by simp
qed simp

lemma prolog_prefix: "\<exists>rest. s = prolog_of s @ rest"
  by (induction s) auto

lemma somewhere_right: "somewhere P s \<Longrightarrow> somewhere P (pre @ s)"
  by (induction pre) auto

lemma somewhere_left:
  assumes "\<And>x. P x \<Longrightarrow> P (x @ t)" and "\<not> P []"
  shows "somewhere P s \<Longrightarrow> somewhere P (s @ t)"
proof (induction s)
  case (Cons c s)
  then show ?case using assms(1) [of "c # s"] by auto
qed (use assms(2) in simp)

lemma markup_at_append:
  assumes "word \<noteq> []" and "markup_at word x"
  shows "markup_at word (x @ t)"
proof -
  let ?z = "dropWhile py_space (drop 2 x)"
  have m: "take 2 x = ''<!''" "lower (take (length word) ?z) = lower word" using assms(2) by (simp_all add: markup_at_def)
  have "length (lower (take (length word) ?z)) = length (lower word)" using m(2) by simp
  then have len: "length word \<le> length ?z" by (simp add: lower_def)
  have l2: "2 \<le> length x" using arg_cong [OF m(1), of length] by simp
  have "0 < length ?z" by (rule less_le_trans [OF _ len]) (use assms(1) in blast)
  then have "?z \<noteq> []" by (rule length_greater_0_conv [THEN iffD1])
  then obtain c where "c \<in> set (drop 2 x)" "\<not> py_space c" unfolding dropWhile_eq_Nil_conv by blast
  then have "dropWhile py_space (drop 2 x @ t) = ?z @ t" by (rule dropWhile_append1)
  then show ?thesis using m len l2 by (simp add: markup_at_def)
qed

lemma not_markup_Nil: "\<not> markup_at word []"
  by (simp add: markup_at_def)

lemma declares_append: "declares_dtd s \<Longrightarrow> declares_dtd (s @ t)"
proof -
  have "somewhere (markup_at word) (s @ t)" if "somewhere (markup_at word) s" "word \<noteq> []" for word
    by (rule somewhere_left [OF _ not_markup_Nil that(1)]) (rule markup_at_append [OF that(2)])
  then show "declares_dtd s \<Longrightarrow> declares_dtd (s @ t)" by (auto simp: declares_dtd_def)
qed

text \<open>A document type declaration that is the first of its document is refused exactly when no
  \<^verbatim>\<open><\<close> followed by a letter or underscore occurs before it; so a prolog without one is safe, but a
  comment such as \<^verbatim>\<open><!-- <a -->\<close> in front of the declaration hides it from the check.\<close>

theorem doctype_guard_exact:
  assumes "\<not> declares_dtd pre"
  shows "(reject_doctype (pre @ ''<!DOCTYPE'' @ rest) = Some DtdRefused \<longleftrightarrow> \<not> somewhere tag_start pre) \<and>
    reject_doctype (''<!-- <a --><!DOCTYPE'' @ rest) = None"
proof
  have out: "reject_doctype (pre @ ''<!DOCTYPE'' @ rest) = None" if "somewhere tag_start pre" "\<not> declares_dtd pre" for pre
  proof -
    obtain more where "pre = prolog_of pre @ more" using prolog_prefix by blast
    then have "\<not> declares_dtd (prolog_of pre)" using declares_append that(2) by metis
    then show ?thesis using prolog_stops [OF that(1)] by (simp add: reject_doctype_def)
  qed
  show "reject_doctype (pre @ ''<!DOCTYPE'' @ rest) = Some DtdRefused \<longleftrightarrow> \<not> somewhere tag_start pre"
  proof
    show "\<not> somewhere tag_start pre" if "reject_doctype (pre @ ''<!DOCTYPE'' @ rest) = Some DtdRefused"
      using out [OF _ assms] that by fastforce
    assume "\<not> somewhere tag_start pre"
    then have "prolog_of (pre @ ''<!DOCTYPE'' @ rest) = pre @ prolog_of (''<!DOCTYPE'' @ rest)"
      using prolog_continues by simp
    also have "prolog_of (''<!DOCTYPE'' @ rest) = ''<!DOCTYPE'' @ prolog_of rest"
      by (cases rest) (simp_all add: tag_start_def ascii_letter_def)
    finally have p: "prolog_of (pre @ ''<!DOCTYPE'' @ rest) = pre @ ''<!DOCTYPE'' @ prolog_of rest" .
    have "markup_at ''DOCTYPE'' (''<!DOCTYPE'' @ prolog_of rest)" by (simp add: markup_at_def py_space_def)
    then have "somewhere (markup_at ''DOCTYPE'') (''<!DOCTYPE'' @ prolog_of rest)" by simp
    then have "declares_dtd (pre @ ''<!DOCTYPE'' @ prolog_of rest)"
      unfolding declares_dtd_def using somewhere_right by blast
    then show "reject_doctype (pre @ ''<!DOCTYPE'' @ rest) = Some DtdRefused" unfolding reject_doctype_def p by (rule if_P)
  qed
  have "somewhere tag_start ''<!-- <a -->''" "\<not> declares_dtd ''<!-- <a -->''" by code_simp+
  from out [OF this] show "reject_doctype (''<!-- <a --><!DOCTYPE'' @ rest) = None" by simp
qed

theorem doctype_guard_exact_witness:
  "reject_doctype ''<?xml version='1.0'?> <!DOCTYPE a>'' = Some DtdRefused"
proof -
  have "\<not> declares_dtd ''<?xml version='1.0'?> ''" "\<not> somewhere tag_start ''<?xml version='1.0'?> ''" by code_simp+
  then show ?thesis using doctype_guard_exact [of "''<?xml version='1.0'?> ''" "'' a>''"] by simp
qed

end
