(* ===== verification/Provider_Request.thy ===== *)
theory Provider_Request
  imports PyFloat
begin

text \<open>
  \<^verbatim>\<open>app/providers/base.py\<close>: the GET with courtesy delay and bounded retries that every provider uses.
  Parameters are the peer (its answer to the n-th request), what \<^verbatim>\<open>httpx\<close>'s \<^verbatim>\<open>raise_for_status\<close> thinks of
  a status, and the decoding of a body. The state counts the requests and records the pauses.

  Shown: the first decisive answer within the budget decides the call and is the last one asked for;
  without one the budget is used up and the call fails. A 404 is not decisive.
\<close>

definition MAX_ATTEMPTS :: int where "MAX_ATTEMPTS = 3"

datatype http_answer =
    Status int string
  | NetworkFailure          \<comment> \<open>an \<^verbatim>\<open>httpx.HTTPError\<close> or an OSError\<close>
  | OtherFailure py_error

datatype request_failure = AccessDenied int | RetriesExhausted | NotJson | Escaped py_error

record provider_config =
  pc_courtesy_delay :: pyfloat
  pc_backoff_base :: pyfloat
  pc_max_attempts :: int

definition default_provider_config :: provider_config where
  "default_provider_config =
     \<lparr>pc_courtesy_delay = lit 1, pc_backoff_base = lit (3 / 4), pc_max_attempts = MAX_ATTEMPTS\<rparr>"

record request_log =
  gets :: nat
  waits :: "pyfloat list"

text \<open>What one answer means: a value, a final failure, or None for a failure that is retried.\<close>

definition answer_verdict :: "(int \<Rightarrow> bool) \<Rightarrow> http_answer \<Rightarrow> (request_failure + string) option" where
  "answer_verdict raises a =
     (case a of
        NetworkFailure \<Rightarrow> None
      | OtherFailure e \<Rightarrow> Some (Inl (Escaped e))
      | Status code body \<Rightarrow>
          if code \<in> {401, 403} then Some (Inl (AccessDenied code))
          else if code = 429 \<or> 500 \<le> code then None
          else if raises code then None
          else Some (Inr body))"

definition wait :: "pyfloat \<Rightarrow> request_log \<Rightarrow> request_log" where
  "wait d s = (if flt (Fin 0) d then s\<lparr>waits := waits s @ [d]\<rparr> else s)"

definition wait_after :: "provider_config \<Rightarrow> nat \<Rightarrow> request_log \<Rightarrow> request_log res" where
  "wait_after cfg i s =
     (if int i < pc_max_attempts cfg - 1 \<and> flt (Fin 0) (pc_backoff_base cfg)
      then map_res (\<lambda>f. s\<lparr>waits := waits s @ [fmul (pc_backoff_base cfg) f]\<rparr>) (float_of_int (2 ^ i))
      else Inr s)"

text \<open>\<open>n\<close> attempts are left, the next one being number \<open>i\<close>.\<close>

fun request_loop ::
  "(int \<Rightarrow> bool) \<Rightarrow> (nat \<Rightarrow> http_answer) \<Rightarrow> provider_config \<Rightarrow> nat \<Rightarrow> nat \<Rightarrow> request_log \<Rightarrow>
    (request_failure + string) \<times> request_log" where
  "request_loop raises peer cfg 0 i s = (Inl RetriesExhausted, s)"
| "request_loop raises peer cfg (Suc n) i s =
     (let s = wait (pc_courtesy_delay cfg) s;
          answer = peer (gets s);
          s = s\<lparr>gets := gets s + 1\<rparr>
      in case answer_verdict raises answer of
           Some r \<Rightarrow> (r, s)
         | None \<Rightarrow> (case wait_after cfg i s of
             Inl e \<Rightarrow> (Inl (Escaped e), s)
           | Inr s \<Rightarrow> request_loop raises peer cfg n (Suc i) s))"

definition request ::
  "(int \<Rightarrow> bool) \<Rightarrow> (nat \<Rightarrow> http_answer) \<Rightarrow> provider_config \<Rightarrow> (request_failure + string) \<times> request_log" where
  "request raises peer cfg = request_loop raises peer cfg (nat (pc_max_attempts cfg)) 0 \<lparr>gets = 0, waits = []\<rparr>"

definition get_json ::
  "(string \<Rightarrow> 'j option) \<Rightarrow> (int \<Rightarrow> bool) \<Rightarrow> (nat \<Rightarrow> http_answer) \<Rightarrow> provider_config \<Rightarrow> (request_failure + 'j) \<times> request_log" where
  "get_json decode raises peer cfg =
     (case request raises peer cfg of
        (Inl e, s) \<Rightarrow> (Inl e, s)
      | (Inr body, s) \<Rightarrow> (case decode body of None \<Rightarrow> (Inl NotJson, s) | Some j \<Rightarrow> (Inr j, s)))"

section \<open>Facts\<close>

lemma wait_gets [simp]: "gets (wait d s) = gets s"
  by (simp add: wait_def)

lemma wait_after_ok:
  assumes "pc_max_attempts cfg \<le> 54"
  shows "\<exists>s'. wait_after cfg i s = Inr s' \<and> gets s' = gets s"
proof (cases "int i < pc_max_attempts cfg - 1 \<and> flt (Fin 0) (pc_backoff_base cfg)")
  case True
  then have "i \<le> 53" using assms by linarith
  then have "\<bar>2 ^ i :: int\<bar> \<le> 2 ^ 53" by (simp only: abs_power2 abs_of_nonneg zero_le_power zero_le_numeral power_increasing one_le_numeral)
  then have "rnd (of_int (2 ^ i)) = Fin (of_int (2 ^ i))" by (rule rnd_of_int)
  then show ?thesis using True by (simp add: wait_after_def float_of_int_def)
next
  case False
  then show ?thesis by (auto simp: wait_after_def)
qed

text \<open>The reference: the first decisive one among the answers of the budget.\<close>

definition decisive :: "(int \<Rightarrow> bool) \<Rightarrow> (nat \<Rightarrow> http_answer) \<Rightarrow> nat list \<Rightarrow> nat list" where
  "decisive raises peer ks = filter (\<lambda>k. answer_verdict raises (peer k) \<noteq> None) ks"

lemma request_loop_spec:
  assumes "pc_max_attempts cfg \<le> 54"
  shows "gets s = i \<Longrightarrow> (case decisive raises peer [i..<i + n] of
      [] \<Rightarrow> \<exists>s'. request_loop raises peer cfg n i s = (Inl RetriesExhausted, s') \<and> gets s' = i + n
    | k # _ \<Rightarrow> \<exists>s'. request_loop raises peer cfg n i s = (the (answer_verdict raises (peer k)), s') \<and> gets s' = Suc k)"
proof (induction n arbitrary: i s)
  case 0
  then show ?case by (simp add: decisive_def)
next
  case (Suc n)
  have ks: "[i..<i + Suc n] = i # [Suc i..<Suc i + n]" by (simp add: upt_rec)
  show ?case
  proof (cases "answer_verdict raises (peer i)")
    case None
    let ?s = "(wait (pc_courtesy_delay cfg) s)\<lparr>gets := Suc i\<rparr>"
    obtain s1 where s1: "wait_after cfg i ?s = Inr s1" "gets s1 = Suc i"
      using wait_after_ok [OF assms, of i ?s] by auto
    have run: "request_loop raises peer cfg (Suc n) i s = request_loop raises peer cfg n (Suc i) s1"
      using None Suc.prems s1(1) by (simp add: Let_def)
    have d: "decisive raises peer (i # xs) = decisive raises peer xs" for xs using None by (simp add: decisive_def)
    have e: "i + Suc n = Suc i + n" by simp
    show ?thesis using Suc.IH [OF s1(2)] unfolding ks d run unfolding e .
  next
    case (Some r)
    have d: "decisive raises peer (i # xs) = i # decisive raises peer xs" for xs using Some by (simp add: decisive_def)
    show ?thesis using Suc.prems Some unfolding ks d by (simp add: Let_def)
  qed
qed

text \<open>A request ends with the first decisive answer within its budget, which is also the last one it
  asks for, and fails after exactly the budgeted number of requests when there is none. Authentication
  refusals are decisive; network failures, 429 and server errors are not, and neither is any other
  client error such as 404, although only transient errors are meant to be retried.\<close>

theorem request_first_decisive:
  assumes "0 \<le> pc_max_attempts cfg" and "pc_max_attempts cfg \<le> 54"
    and "\<And>code. 400 \<le> code \<Longrightarrow> code < 600 \<Longrightarrow> raises code"
  shows "(case decisive raises peer [0..<nat (pc_max_attempts cfg)] of
      [] \<Rightarrow> fst (request raises peer cfg) = Inl RetriesExhausted \<and> int (gets (snd (request raises peer cfg))) = pc_max_attempts cfg
    | k # _ \<Rightarrow> Some (fst (request raises peer cfg)) = answer_verdict raises (peer k) \<and> gets (snd (request raises peer cfg)) = Suc k) \<and>
    answer_verdict raises (Status 401 b) \<noteq> None \<and> answer_verdict raises (Status 403 b) \<noteq> None \<and>
    answer_verdict raises NetworkFailure = None \<and> answer_verdict raises (Status 503 b) = None \<and> answer_verdict raises (Status 404 b) = None"
proof -
  have "raises 404" by (rule assms(3)) simp_all
  moreover have "(case decisive raises peer [0..<nat (pc_max_attempts cfg)] of
      [] \<Rightarrow> fst (request raises peer cfg) = Inl RetriesExhausted \<and> int (gets (snd (request raises peer cfg))) = pc_max_attempts cfg
    | k # _ \<Rightarrow> Some (fst (request raises peer cfg)) = answer_verdict raises (peer k) \<and> gets (snd (request raises peer cfg)) = Suc k)"
  proof (cases "decisive raises peer [0..<nat (pc_max_attempts cfg)]")
    case Nil
    then show ?thesis using request_loop_spec [OF assms(2), of "\<lparr>gets = 0, waits = []\<rparr>" 0 raises peer "nat (pc_max_attempts cfg)"] assms(1)
      by (auto simp: request_def)
  next
    case (Cons k ks)
    then have "k \<in> set (decisive raises peer [0..<nat (pc_max_attempts cfg)])" by simp
    then have "answer_verdict raises (peer k) \<noteq> None" by (simp add: decisive_def)
    then show ?thesis using Cons request_loop_spec [OF assms(2), of "\<lparr>gets = 0, waits = []\<rparr>" 0 raises peer "nat (pc_max_attempts cfg)"]
      by (auto simp: request_def)
  qed
  ultimately show ?thesis by (simp add: answer_verdict_def)
qed

theorem request_first_decisive_witness:
  "fst (request (\<lambda>code. 400 \<le> code) (\<lambda>_. Status 404 ''gone'') default_provider_config) = Inl RetriesExhausted \<and>
   gets (snd (request (\<lambda>code. 400 \<le> code) (\<lambda>_. Status 404 ''gone'') default_provider_config)) = 3"
proof -
  have c: "pc_max_attempts default_provider_config = 3" by (simp add: default_provider_config_def MAX_ATTEMPTS_def)
  have d: "decisive (\<lambda>code. 400 \<le> code) (\<lambda>_. Status 404 ''gone'') [0..<nat (pc_max_attempts default_provider_config)] = []"
    by (simp add: decisive_def answer_verdict_def)
  show ?thesis
    using request_first_decisive [of default_provider_config "\<lambda>code. 400 \<le> code" "\<lambda>_. Status 404 ''gone''"] unfolding d by (simp add: c)
qed

end
