(* ===== verification/Backup_Manifest.thy ===== *)
theory Backup_Manifest
  imports PyJson
begin

text \<open>
  \<^verbatim>\<open>app/core/backup_manifest.py\<close>: the manifest of a backup bundle is built from the staged files and
  checked against a directory. The file system is a map from paths to contents; the sha256 of a
  content, the text \<^verbatim>\<open>repr\<close> gives of a float, list or object and the clock are parameters. A manifest is
  a decoded JSON object; a problem is a constructor with what its message names.

  Shown: a manifest built from a directory verifies against it; an intact verdict means that every file
  the manifest names is there, inside the bundle, with the bytes it was built from.
\<close>

section \<open>Paths and secrets\<close>

type_synonym files = "string \<Rightarrow> string option"
type_synonym jobject = "(string \<times> json) list"

definition SCHEMA_VERSION :: int where "SCHEMA_VERSION = 1"
definition DB_DUMP_NAME :: string where "DB_DUMP_NAME = ''db.dump''"
definition ARTIFACTS_DIRNAME :: string where "ARTIFACTS_DIRNAME = ''artifacts''"

definition REQUIRED_TOP_LEVEL :: "string list" where
  "REQUIRED_TOP_LEVEL = [''schema_version'', ''created_at'', ''app_git_commit'', ''api_build_commit'',
     ''prediction_build_commit'', ''db_migration_version'', ''db'', ''artifacts'', ''restore_instructions'']"

definition REQUIRED_ARTIFACT_FIELDS :: "string list" where
  "REQUIRED_ARTIFACT_FIELDS = [''symbol'', ''horizon'', ''model_name'', ''version'', ''source_path'',
     ''stored_name'', ''size_bytes'', ''sha256'']"

definition RESTORE_INSTRUCTIONS :: string where
  "RESTORE_INSTRUCTIONS = ''Verify: sh scripts/backup.sh verify <bundle>. Preview: sh scripts/restore.sh --dry-run <bundle>. Apply: sh scripts/restore.sh --confirm <bundle> (pg_restore --clean --if-exists --no-owner of db.dump, then every artifacts/<stored_name> back to its source_path). See docs/backup-restore.md.''"

text \<open>\<^verbatim>\<open>os.path.join\<close> and \<^verbatim>\<open>os.path.basename\<close>.\<close>

definition path_join :: "string \<Rightarrow> string \<Rightarrow> string" where
  "path_join a b = (if b \<noteq> [] \<and> hd b = CHR ''/'' then b
     else if a = [] \<or> last a = CHR ''/'' then a @ b else a @ CHR ''/'' # b)"

definition basename :: "string \<Rightarrow> string" where
  "basename p = rev (takeWhile (\<lambda>c. c \<noteq> CHR ''/'') (rev p))"

definition safe_stored_name :: "string \<Rightarrow> bool" where
  "safe_stored_name name \<longleftrightarrow> name \<noteq> [] \<and> name = basename name \<and> hd name \<noteq> CHR ''.''"

definition artifact_stored_name :: "string \<Rightarrow> string" where
  "artifact_stored_name sha = sha @ ''.joblib''"

definition ascii_lower :: "char \<Rightarrow> char" where
  "ascii_lower c = (let n = of_char c :: int in if 65 \<le> n \<and> n \<le> 90 then char_of (n + 32) else c)"

text \<open>Word characters below code point 256.\<close>

definition word_char :: "char \<Rightarrow> bool" where
  "word_char c \<longleftrightarrow> (let n = of_char c :: int in (48 \<le> n \<and> n \<le> 57) \<or> (65 \<le> n \<and> n \<le> 90) \<or> n = 95 \<or>
     (97 \<le> n \<and> n \<le> 122) \<or> n \<in> {170, 178, 179, 181, 185, 186, 188, 189, 190} \<or> (192 \<le> n \<and> n \<noteq> 215 \<and> n \<noteq> 247))"

definition SECRET_WORDS :: "string list" where
  "SECRET_WORDS = [''password'', ''passwd'', ''secret'', ''token'', ''apikey'', ''api_key'', ''api-key'',
     ''credential'', ''database_url'', ''privatekey'', ''private_key'', ''private-key'']"

definition begins :: "string \<Rightarrow> string \<Rightarrow> bool" where
  "begins w s \<longleftrightarrow> map ascii_lower (take (length w) s) = w"

definition dsn_here :: "char option \<Rightarrow> string \<Rightarrow> bool" where
  "dsn_here before s \<longleftrightarrow> begins ''dsn'' s \<and> (case before of None \<Rightarrow> True | Some c \<Rightarrow> \<not> word_char c) \<and>
     (case drop 3 s of [] \<Rightarrow> True | c # _ \<Rightarrow> \<not> word_char c)"

fun secret_key_from :: "char option \<Rightarrow> string \<Rightarrow> bool" where
  "secret_key_from before [] = False"
| "secret_key_from before (c # cs) =
     (list_ex (\<lambda>w. begins w (c # cs)) SECRET_WORDS \<or> dsn_here before (c # cs) \<or> secret_key_from (Some c) cs)"

definition secret_key :: "string \<Rightarrow> bool" where
  "secret_key s = secret_key_from None s"

definition ascii_alpha :: "char \<Rightarrow> bool" where
  "ascii_alpha c \<longleftrightarrow> (let n = of_char c :: int in (65 \<le> n \<and> n \<le> 90) \<or> (97 \<le> n \<and> n \<le> 122))"

definition credentials_at :: "string \<Rightarrow> bool" where
  "credentials_at s =
     (if s = [] \<or> \<not> ascii_alpha (hd s) then False
      else let rest = dropWhile (\<lambda>c. ascii_alpha c \<or> digit_value c \<noteq> None \<or> c \<in> {CHR ''+'', CHR ''.'', CHR ''-''}) (tl s) in
        if take 3 rest \<noteq> ''://'' then False
        else let rest = drop 3 rest;
                 user = takeWhile (\<lambda>c. \<not> py_space c \<and> c \<notin> {CHR ''/'', CHR '':'', CHR ''@''}) rest;
                 rest = drop (length user) rest
          in if user = [] \<or> rest = [] \<or> hd rest \<noteq> CHR '':'' then False
             else let pw = takeWhile (\<lambda>c. \<not> py_space c \<and> c \<notin> {CHR ''/'', CHR ''@''}) (tl rest);
                      rest = drop (length pw) (tl rest)
               in pw \<noteq> [] \<and> rest \<noteq> [] \<and> hd rest = CHR ''@'')"

fun secret_value :: "string \<Rightarrow> bool" where
  "secret_value [] = False"
| "secret_value (c # cs) = (credentials_at (c # cs) \<or> secret_value cs)"

section \<open>Building\<close>

definition falsy :: "json \<Rightarrow> bool" where
  "falsy v = (case v of JNull \<Rightarrow> True | JBool b \<Rightarrow> \<not> b | JInt n \<Rightarrow> n = 0 | JFloat a \<Rightarrow> feq a (Fin 0)
     | JStr s \<Rightarrow> s = [] | JList l \<Rightarrow> l = [] | JObj ps \<Rightarrow> ps = [])"

definition measure_file :: "(string \<Rightarrow> string) \<Rightarrow> files \<Rightarrow> string \<Rightarrow> (int \<times> string) res" where
  "measure_file sha fs path = (case fs path of None \<Rightarrow> Inl ValueError
     | Some content \<Rightarrow> if content = [] then Inl ValueError else Inr (int (length content), sha content))"

definition SPEC_FIELDS :: "string list" where
  "SPEC_FIELDS = [''symbol'', ''horizon'', ''model_name'', ''version'', ''source_path'', ''stored_name'']"

definition build_entry ::
  "(string \<Rightarrow> string) \<Rightarrow> (json \<Rightarrow> string) \<Rightarrow> files \<Rightarrow> string \<Rightarrow> jobject \<Rightarrow> json res" where
  "build_entry sha repr fs dir spec =
     (if list_ex (\<lambda>f. falsy (json_get spec f)) SPEC_FIELDS then Inl ValueError
      else let field = (\<lambda>f. py_str repr (json_get spec f)); stored = field ''stored_name'' in
        if \<not> safe_stored_name stored then Inl ValueError
        else map_res (\<lambda>(nbytes, digest). JObj [(''symbol'', JStr (field ''symbol'')), (''horizon'', JStr (field ''horizon'')),
            (''model_name'', JStr (field ''model_name'')), (''version'', JStr (field ''version'')),
            (''source_path'', JStr (field ''source_path'')), (''stored_name'', JStr stored),
            (''size_bytes'', JInt nbytes), (''sha256'', JStr digest)])
          (measure_file sha fs (path_join (path_join dir ARTIFACTS_DIRNAME) stored)))"

record manifest_info =
  mi_created_at :: string
  mi_app_git_commit :: string
  mi_api_build_commit :: string
  mi_prediction_build_commit :: string
  mi_db_migration_version :: string
  mi_db_dump_name :: string

text \<open>\<^verbatim>\<open>created_at or utc_now_iso()\<close>: an empty stamp is replaced by the clock's.\<close>

definition build_manifest ::
  "(string \<Rightarrow> string) \<Rightarrow> (json \<Rightarrow> string) \<Rightarrow> files \<Rightarrow> string \<Rightarrow> manifest_info \<Rightarrow> string \<Rightarrow> jobject list \<Rightarrow> jobject res" where
  "build_manifest sha repr fs now info dir artifacts =
     bind_res (measure_file sha fs (path_join dir (mi_db_dump_name info))) (\<lambda>(db_size, db_sha).
       map_res (\<lambda>entries.
         [(''schema_version'', JInt SCHEMA_VERSION),
          (''created_at'', JStr (if mi_created_at info = [] then now else mi_created_at info)),
          (''app_git_commit'', JStr (mi_app_git_commit info)),
          (''api_build_commit'', JStr (mi_api_build_commit info)),
          (''prediction_build_commit'', JStr (mi_prediction_build_commit info)),
          (''db_migration_version'', JStr (mi_db_migration_version info)),
          (''db'', JObj [(''file'', JStr (mi_db_dump_name info)), (''size_bytes'', JInt db_size), (''sha256'', JStr db_sha)]),
          (''artifacts'', JList entries),
          (''restore_instructions'', JStr RESTORE_INSTRUCTIONS)])
       (mapM (build_entry sha repr fs dir) artifacts))"

section \<open>Checking\<close>

datatype label = DbDump | Artifact nat

datatype problem =
    WrongSchema
  | MissingField string
  | SecretKey string
  | SecretValue string
  | DbMalformed
  | UnsafeName label
  | FileMissing label
  | FileEmpty label
  | SizeMismatch label
  | NoSha label
  | ShaMismatch label
  | ArtifactsMalformed
  | NotAnObject nat
  | FieldMissing nat string

fun secret_like :: "string \<Rightarrow> json \<Rightarrow> problem list"
  and secret_items :: "string \<Rightarrow> (string \<times> json) list \<Rightarrow> problem list"
  and secret_elements :: "string \<Rightarrow> nat \<Rightarrow> json list \<Rightarrow> problem list" where
  "secret_like path (JObj ps) = secret_items path ps"
| "secret_like path (JList vs) = secret_elements path 0 vs"
| "secret_like path (JStr s) = (if secret_value s then [SecretValue path] else [])"
| "secret_like path _ = []"
| "secret_items path [] = []"
| "secret_items path ((k, v) # ps) =
     (let here = path @ CHR ''.'' # k in
      (if secret_key k then [SecretKey here] else []) @ secret_like here v @ secret_items path ps)"
| "secret_elements path i [] = []"
| "secret_elements path i (v # vs) =
     secret_like (path @ CHR ''['' # int_str (int i) @ '']'') v @ secret_elements path (Suc i) vs"

definition json_is_int :: "json \<Rightarrow> int \<Rightarrow> bool" where
  "json_is_int v n = (case v of JInt m \<Rightarrow> m = n | JBool b \<Rightarrow> (if b then 1 else 0) = n
     | JFloat a \<Rightarrow> feq a (Fin (of_int n)) | _ \<Rightarrow> False)"

definition check_content :: "(string \<Rightarrow> string) \<Rightarrow> string \<Rightarrow> jobject \<Rightarrow> label \<Rightarrow> problem list" where
  "check_content sha content meta l =
     (if content = [] then [FileEmpty l] else []) @
     (case json_get meta ''size_bytes'' of
        JInt n \<Rightarrow> if n \<noteq> int (length content) then [SizeMismatch l] else []
      | JBool b \<Rightarrow> if (if b then 1 else 0) \<noteq> length content then [SizeMismatch l] else []
      | _ \<Rightarrow> []) @
     (case json_get meta ''sha256'' of
        JStr s \<Rightarrow> if s = [] then [NoSha l] else if sha content \<noteq> s then [ShaMismatch l] else []
      | _ \<Rightarrow> [NoSha l])"

definition check_file :: "(string \<Rightarrow> string) \<Rightarrow> files \<Rightarrow> string \<Rightarrow> string \<Rightarrow> jobject \<Rightarrow> label \<Rightarrow> problem list" where
  "check_file sha fs dir name meta l =
     (case fs (path_join dir name) of None \<Rightarrow> [FileMissing l] | Some content \<Rightarrow> check_content sha content meta l)"

definition stored_of :: "(json \<Rightarrow> string) \<Rightarrow> json \<Rightarrow> string" where
  "stored_of repr v = (if falsy v then [] else py_str repr v)"

definition check_entry ::
  "(string \<Rightarrow> string) \<Rightarrow> (json \<Rightarrow> string) \<Rightarrow> files \<Rightarrow> string \<Rightarrow> nat \<Rightarrow> json \<Rightarrow> problem list" where
  "check_entry sha repr fs dir i entry =
     (case entry of
        JObj e \<Rightarrow>
          map (FieldMissing i) (filter (\<lambda>f. json_get e f = JNull \<or> json_get e f = JStr []) REQUIRED_ARTIFACT_FIELDS) @
          (let stored = stored_of repr (json_get e ''stored_name'') in
           if \<not> safe_stored_name stored then [UnsafeName (Artifact i)]
           else check_file sha fs (path_join dir ARTIFACTS_DIRNAME) stored e (Artifact i))
      | _ \<Rightarrow> [NotAnObject i])"

fun check_entries ::
  "(string \<Rightarrow> string) \<Rightarrow> (json \<Rightarrow> string) \<Rightarrow> files \<Rightarrow> string \<Rightarrow> nat \<Rightarrow> json list \<Rightarrow> problem list" where
  "check_entries sha repr fs dir i [] = []"
| "check_entries sha repr fs dir i (e # es) = check_entry sha repr fs dir i e @ check_entries sha repr fs dir (Suc i) es"

definition check_db :: "(string \<Rightarrow> string) \<Rightarrow> (json \<Rightarrow> string) \<Rightarrow> files \<Rightarrow> string \<Rightarrow> json \<Rightarrow> problem list" where
  "check_db sha repr fs dir db =
     (case db of
        JObj d \<Rightarrow>
          let name = (if falsy (json_get d ''file'') then DB_DUMP_NAME else py_str repr (json_get d ''file'')) in
          if \<not> safe_stored_name name then [UnsafeName DbDump] else check_file sha fs dir name d DbDump
      | _ \<Rightarrow> [DbMalformed])"

definition verify_manifest ::
  "(string \<Rightarrow> string) \<Rightarrow> (json \<Rightarrow> string) \<Rightarrow> files \<Rightarrow> jobject \<Rightarrow> string \<Rightarrow> problem list" where
  "verify_manifest sha repr fs m dir =
     (if json_is_int (json_get m ''schema_version'') SCHEMA_VERSION then [] else [WrongSchema]) @
     map MissingField (filter (\<lambda>f. f \<notin> fst ` set m) REQUIRED_TOP_LEVEL) @
     secret_items ''manifest'' m @
     check_db sha repr fs dir (json_get m ''db'') @
     (case json_get m ''artifacts'' of JList es \<Rightarrow> check_entries sha repr fs dir 0 es | _ \<Rightarrow> [ArtifactsMalformed])"

section \<open>Round trip\<close>

lemma measure_file_ok:
  "measure_file sha fs path = Inr (nbytes, digest) \<longleftrightarrow>
    (\<exists>content. fs path = Some content \<and> content \<noteq> [] \<and> nbytes = int (length content) \<and> digest = sha content)"
  by (auto simp: measure_file_def split: option.splits)

lemma int_str_nonempty [simp]: "int_str n \<noteq> []"
  by (simp add: int_str_def nat_digits.simps)

lemma py_str_truthy: "(\<And>v. repr v \<noteq> []) \<Longrightarrow> \<not> falsy v \<Longrightarrow> py_str repr v \<noteq> []"
  by (cases v) (auto simp: falsy_def)

lemma build_entry_checks:
  assumes "build_entry sha repr fs dir spec = Inr e" and "\<And>v. repr v \<noteq> []" and "\<And>c. sha c \<noteq> []"
  shows "check_entry sha repr fs dir i e = []"
proof -
  let ?f = "\<lambda>f. py_str repr (json_get spec f)"
  have ok: "\<not> list_ex (\<lambda>f. falsy (json_get spec f)) SPEC_FIELDS" "safe_stored_name (?f ''stored_name'')"
    using assms(1) by (auto simp: build_entry_def Let_def split: if_splits)
  obtain nbytes digest where m: "measure_file sha fs (path_join (path_join dir ARTIFACTS_DIRNAME) (?f ''stored_name'')) = Inr (nbytes, digest)"
    and e: "e = JObj [(''symbol'', JStr (?f ''symbol'')), (''horizon'', JStr (?f ''horizon'')),
            (''model_name'', JStr (?f ''model_name'')), (''version'', JStr (?f ''version'')),
            (''source_path'', JStr (?f ''source_path'')), (''stored_name'', JStr (?f ''stored_name'')),
            (''size_bytes'', JInt nbytes), (''sha256'', JStr digest)]"
    using assms(1) ok by (auto simp: build_entry_def Let_def map_res_eq_Inr)
  obtain content where c: "fs (path_join (path_join dir ARTIFACTS_DIRNAME) (?f ''stored_name'')) = Some content"
    "content \<noteq> []" "nbytes = int (length content)" "digest = sha content" using m unfolding measure_file_ok by blast
  have ne: "?f ''symbol'' \<noteq> []" "?f ''horizon'' \<noteq> []" "?f ''model_name'' \<noteq> []" "?f ''version'' \<noteq> []"
    "?f ''source_path'' \<noteq> []" "?f ''stored_name'' \<noteq> []"
    using ok(1) py_str_truthy [OF assms(2)] by (auto simp: SPEC_FIELDS_def)
  show ?thesis unfolding e using ne c ok(2) assms(3)
    by (simp add: check_entry_def json_get_def REQUIRED_ARTIFACT_FIELDS_def stored_of_def falsy_def check_file_def check_content_def)
qed

lemma build_entries_check:
  assumes "\<And>v. repr v \<noteq> []" and "\<And>c. sha c \<noteq> []"
  shows "mapM (build_entry sha repr fs dir) specs = Inr es \<Longrightarrow> check_entries sha repr fs dir i es = []"
proof (induction specs arbitrary: es i)
  case (Cons spec specs)
  then obtain e es' where "es = e # es'" "build_entry sha repr fs dir spec = Inr e" "mapM (build_entry sha repr fs dir) specs = Inr es'"
    by (auto simp: bind_res_eq_Inr map_res_eq_Inr)
  then show ?case using Cons.IH build_entry_checks assms by simp
qed simp

lemma built_verifies:
  assumes "build_manifest sha repr fs now info dir artifacts = Inr m"
    and "\<And>v. repr v \<noteq> []" and "\<And>c. sha c \<noteq> []"
    and "secret_items ''manifest'' m = []" and "safe_stored_name (mi_db_dump_name info)"
  shows "verify_manifest sha repr fs m dir = []"
proof -
  obtain nbytes digest entries where db: "measure_file sha fs (path_join dir (mi_db_dump_name info)) = Inr (nbytes, digest)"
    and es: "mapM (build_entry sha repr fs dir) artifacts = Inr entries"
    and m: "m = [(''schema_version'', JInt SCHEMA_VERSION),
          (''created_at'', JStr (if mi_created_at info = [] then now else mi_created_at info)),
          (''app_git_commit'', JStr (mi_app_git_commit info)),
          (''api_build_commit'', JStr (mi_api_build_commit info)),
          (''prediction_build_commit'', JStr (mi_prediction_build_commit info)),
          (''db_migration_version'', JStr (mi_db_migration_version info)),
          (''db'', JObj [(''file'', JStr (mi_db_dump_name info)), (''size_bytes'', JInt nbytes), (''sha256'', JStr digest)]),
          (''artifacts'', JList entries),
          (''restore_instructions'', JStr RESTORE_INSTRUCTIONS)]"
    using assms(1) unfolding build_manifest_def by (fastforce simp: bind_res_eq_Inr map_res_eq_Inr)
  obtain content where c: "fs (path_join dir (mi_db_dump_name info)) = Some content"
    "content \<noteq> []" "nbytes = int (length content)" "digest = sha content" using db unfolding measure_file_ok by blast
  have "mi_db_dump_name info \<noteq> []" using assms(5) by (simp add: safe_stored_name_def)
  then have d: "check_db sha repr fs dir (json_get m ''db'') = []"
    using c assms(3,5) unfolding m by (simp add: check_db_def json_get_def falsy_def check_file_def check_content_def)
  have s: "json_get m ''schema_version'' = JInt SCHEMA_VERSION" and a: "json_get m ''artifacts'' = JList entries"
    unfolding m by (simp_all add: json_get_def)
  have f: "filter (\<lambda>f. f \<notin> fst ` set m) REQUIRED_TOP_LEVEL = []" unfolding m by (simp add: REQUIRED_TOP_LEVEL_def)
  show ?thesis unfolding verify_manifest_def d s a f assms(4)
    using build_entries_check [OF assms(2,3) es] by (simp add: json_is_int_def)
qed

text \<open>A manifest built from a staged bundle verifies against that bundle without a problem, provided
  the texts it was given embed no secret and the dump has a plain file name (which building does not
  check, but verifying does).\<close>

theorem built_manifest_verifies:
  assumes "build_manifest sha repr fs now info dir artifacts = Inr m"
    and "\<And>v. repr v \<noteq> []" and "\<And>c. sha c \<noteq> []"
    and "secret_items ''manifest'' m = []" and "safe_stored_name (mi_db_dump_name info)"
  shows "verify_manifest sha repr fs m dir = []"
  using assms by (rule built_verifies)

definition demo_files :: files where
  "demo_files p = (if p = ''/b/db.dump'' then Some ''dump'' else if p = ''/b/artifacts/a.joblib'' then Some ''model'' else None)"

definition demo_info :: manifest_info where
  "demo_info = \<lparr>mi_created_at = [], mi_app_git_commit = ''c0ffee'', mi_api_build_commit = ''unknown'',
     mi_prediction_build_commit = ''unknown'', mi_db_migration_version = ''0042'', mi_db_dump_name = DB_DUMP_NAME\<rparr>"

definition demo_spec :: jobject where
  "demo_spec = [(''symbol'', JStr ''IR_GOLD_18K''), (''horizon'', JStr ''1d''), (''model_name'', JStr ''ridge''),
     (''version'', JInt 3), (''source_path'', JStr ''/models/a.joblib''), (''stored_name'', JStr ''a.joblib'')]"

definition demo_sha :: "string \<Rightarrow> string" where "demo_sha c = CHR ''h'' # c"
definition demo_repr :: "json \<Rightarrow> string" where "demo_repr v = ''?''"

lemma demo_build:
  "case build_manifest demo_sha demo_repr demo_files ''2026-01-01T00:00:00Z'' demo_info ''/b'' [demo_spec] of
     Inl _ \<Rightarrow> False | Inr m \<Rightarrow> secret_items ''manifest'' m = []"
  by code_simp

lemma demo_built:
  "\<exists>m. build_manifest demo_sha demo_repr demo_files ''2026-01-01T00:00:00Z'' demo_info ''/b'' [demo_spec] = Inr m \<and>
    secret_items ''manifest'' m = [] \<and> safe_stored_name (mi_db_dump_name demo_info) \<and>
    verify_manifest demo_sha demo_repr demo_files m ''/b'' = []"
proof -
  obtain m where m: "build_manifest demo_sha demo_repr demo_files ''2026-01-01T00:00:00Z'' demo_info ''/b'' [demo_spec] = Inr m"
    and s: "secret_items ''manifest'' m = []" using demo_build by (auto split: sum.splits)
  have "safe_stored_name (mi_db_dump_name demo_info)" by code_simp
  then show ?thesis using built_verifies [OF m _ _ s] m s by (auto simp: demo_repr_def demo_sha_def)
qed

theorem built_manifest_verifies_witness:
  "\<exists>m. build_manifest demo_sha demo_repr demo_files ''2026-01-01T00:00:00Z'' demo_info ''/b'' [demo_spec] = Inr m \<and>
    verify_manifest demo_sha demo_repr demo_files m ''/b'' = []"
proof -
  obtain m where m: "build_manifest demo_sha demo_repr demo_files ''2026-01-01T00:00:00Z'' demo_info ''/b'' [demo_spec] = Inr m"
    and s: "secret_items ''manifest'' m = []" "safe_stored_name (mi_db_dump_name demo_info)" using demo_built by blast
  then show ?thesis using built_manifest_verifies [OF m _ _ s] m by (auto simp: demo_repr_def demo_sha_def)
qed

section \<open>What an intact verdict means\<close>

text \<open>A file as the manifest describes it: there, not empty, with the recorded digest and size.\<close>

definition recorded :: "(string \<Rightarrow> string) \<Rightarrow> files \<Rightarrow> string \<Rightarrow> jobject \<Rightarrow> bool" where
  "recorded sha fs path meta \<longleftrightarrow> (\<exists>content. fs path = Some content \<and> content \<noteq> [] \<and> json_get meta ''sha256'' = JStr (sha content) \<and>
     (\<forall>n. json_get meta ''size_bytes'' = JInt n \<longrightarrow> n = int (length content)))"

lemma check_file_ok: "check_file sha fs dir name meta l = [] \<Longrightarrow> recorded sha fs (path_join dir name) meta"
  unfolding check_file_def check_content_def recorded_def
  by (auto split: option.splits if_splits json.splits)

text \<open>The values inside a JSON value.\<close>

inductive occurs :: "json \<Rightarrow> json \<Rightarrow> bool" where
  here: "occurs v v"
| item: "(k, w) \<in> set ps \<Longrightarrow> occurs v w \<Longrightarrow> occurs v (JObj ps)"
| element: "w \<in> set vs \<Longrightarrow> occurs v w \<Longrightarrow> occurs v (JList vs)"

inductive_simps occurs_simps: "occurs v (JObj ps)" "occurs v (JList vs)" "occurs v (JStr s)" "occurs v JNull" "occurs v (JBool b)"
  "occurs v (JInt n)" "occurs v (JFloat a)"

definition secret_free :: "json \<Rightarrow> bool" where
  "secret_free j \<longleftrightarrow> (\<forall>s. occurs (JStr s) j \<longrightarrow> \<not> secret_value s) \<and>
     (\<forall>ps. occurs (JObj ps) j \<longrightarrow> (\<forall>k \<in> fst ` set ps. \<not> secret_key k))"

lemma secret_free_items:
  "(\<And>k v. (k, v) \<in> set ps \<Longrightarrow> \<not> secret_key k \<and> secret_free v) \<Longrightarrow> secret_free (JObj ps)"
  unfolding secret_free_def by (fastforce simp: occurs_simps)

lemma secret_free_elements: "(\<And>v. v \<in> set vs \<Longrightarrow> secret_free v) \<Longrightarrow> secret_free (JList vs)"
  unfolding secret_free_def by (fastforce simp: occurs_simps)

lemma secret_free_leaf [simp]:
  "secret_free (JStr s) \<longleftrightarrow> \<not> secret_value s" "secret_free JNull" "secret_free (JBool b)" "secret_free (JInt n)" "secret_free (JFloat a)"
  by (auto simp: secret_free_def occurs_simps)

lemma nothing_secret:
  "secret_like path j = [] \<Longrightarrow> secret_free j"
  "secret_items path ps = [] \<Longrightarrow> (k, v) \<in> set ps \<Longrightarrow> \<not> secret_key k \<and> secret_free v"
  "secret_elements path i vs = [] \<Longrightarrow> w \<in> set vs \<Longrightarrow> secret_free w"
proof (induction path j and path ps and path i vs arbitrary: and k v and w rule: secret_like_secret_items_secret_elements.induct)
  case (1 path ps)
  then show ?case by (intro secret_free_items) simp
next
  case (2 path vs)
  then show ?case by (intro secret_free_elements) simp
qed (auto simp: Let_def split: if_splits)

lemma safe_name_plain: "safe_stored_name name \<Longrightarrow> CHR ''/'' \<notin> set name"
proof -
  assume "safe_stored_name name"
  then have "name = rev (takeWhile (\<lambda>c. c \<noteq> CHR ''/'') (rev name))" by (simp add: safe_stored_name_def basename_def)
  then have "set name = set (takeWhile (\<lambda>c. c \<noteq> CHR ''/'') (rev name))" by (metis set_rev)
  then show ?thesis by (auto dest: set_takeWhileD)
qed

lemma check_entries_nth: "check_entries sha repr fs dir i es = [] \<Longrightarrow> j < length es \<Longrightarrow> check_entry sha repr fs dir (i + j) (es ! j) = []"
proof (induction es arbitrary: i j)
  case (Cons e es)
  then show ?case using Cons.IH [of "Suc i" "j - 1"] by (cases j) auto
qed simp

lemma check_entry_ok:
  assumes "check_entry sha repr fs dir i entry = []"
  shows "\<exists>e stored. entry = JObj e \<and> stored = stored_of repr (json_get e ''stored_name'') \<and>
    stored \<noteq> [] \<and> CHR ''/'' \<notin> set stored \<and>
    recorded sha fs (path_join (path_join dir ARTIFACTS_DIRNAME) stored) e \<and>
    (\<forall>f \<in> set REQUIRED_ARTIFACT_FIELDS. json_get e f \<noteq> JNull \<and> json_get e f \<noteq> JStr [])"
proof (cases entry)
  case (JObj e)
  let ?s = "stored_of repr (json_get e ''stored_name'')"
  have safe: "safe_stored_name ?s" and there: "check_file sha fs (path_join dir ARTIFACTS_DIRNAME) ?s e (Artifact i) = []"
    and fields: "\<forall>f \<in> set REQUIRED_ARTIFACT_FIELDS. json_get e f \<noteq> JNull \<and> json_get e f \<noteq> JStr []"
    using assms JObj by (auto simp: check_entry_def Let_def filter_empty_conv split: if_splits)
  then show ?thesis using JObj safe_name_plain [OF safe] check_file_ok [OF there] by (simp add: safe_stored_name_def)
qed (use assms in \<open>simp_all add: check_entry_def\<close>)

text \<open>C15: When a manifest verifies against a directory, the dump it names (or \<^verbatim>\<open>db.dump\<close> where it names none)
  and each of its artifacts is there under the recorded name, a plain name inside the bundle, not empty, with exactly the
  digest the manifest records and with the size it records as a number, and every field a restore needs of an artifact is filled; no key
  anywhere inside the manifest names a secret and no text anywhere inside it embeds one.\<close>

theorem intact_bundle_restorable:
  assumes "verify_manifest sha repr fs m dir = []"
  shows "(\<exists>d name. json_get m ''db'' = JObj d \<and>
      name = (if falsy (json_get d ''file'') then ''db.dump'' else py_str repr (json_get d ''file'')) \<and>
      name \<noteq> [] \<and> CHR ''/'' \<notin> set name \<and> recorded sha fs (path_join dir name) d) \<and>
    (\<exists>es. json_get m ''artifacts'' = JList es \<and>
      (\<forall>i < length es. \<exists>e stored. es ! i = JObj e \<and> stored = stored_of repr (json_get e ''stored_name'') \<and>
        stored \<noteq> [] \<and> CHR ''/'' \<notin> set stored \<and>
        recorded sha fs (path_join (path_join dir ARTIFACTS_DIRNAME) stored) e \<and>
        (\<forall>f \<in> set REQUIRED_ARTIFACT_FIELDS. json_get e f \<noteq> JNull \<and> json_get e f \<noteq> JStr []))) \<and>
    set REQUIRED_TOP_LEVEL \<subseteq> fst ` set m \<and> secret_free (JObj m)"
proof -
  have db: "check_db sha repr fs dir (json_get m ''db'') = []" and s: "secret_items ''manifest'' m = []"
    and top: "set REQUIRED_TOP_LEVEL \<subseteq> fst ` set m"
    using assms by (auto simp: verify_manifest_def filter_empty_conv)
  obtain es where es: "json_get m ''artifacts'' = JList es" "check_entries sha repr fs dir 0 es = []"
    using assms by (auto simp: verify_manifest_def split: json.splits)
  have "\<exists>d name. json_get m ''db'' = JObj d \<and>
      name = (if falsy (json_get d ''file'') then ''db.dump'' else py_str repr (json_get d ''file'')) \<and>
      name \<noteq> [] \<and> CHR ''/'' \<notin> set name \<and> recorded sha fs (path_join dir name) d"
  proof (cases "json_get m ''db''")
    case (JObj d)
    let ?n = "if falsy (json_get d ''file'') then DB_DUMP_NAME else py_str repr (json_get d ''file'')"
    have safe: "safe_stored_name ?n" and there: "check_file sha fs dir ?n d DbDump = []"
      using db JObj by (auto simp: check_db_def Let_def split: if_splits)
    show ?thesis using check_file_ok [OF there] safe_name_plain [OF safe] safe JObj
      by (intro exI [of _ d] exI [of _ ?n]) (auto simp: DB_DUMP_NAME_def safe_stored_name_def)
  qed (use db in \<open>simp_all add: check_db_def\<close>)
  moreover have "secret_free (JObj m)" using nothing_secret(2) [OF s] by (intro secret_free_items) blast
  moreover have "\<exists>e stored. es ! i = JObj e \<and> stored = stored_of repr (json_get e ''stored_name'') \<and>
        stored \<noteq> [] \<and> CHR ''/'' \<notin> set stored \<and>
        recorded sha fs (path_join (path_join dir ARTIFACTS_DIRNAME) stored) e \<and>
        (\<forall>f \<in> set REQUIRED_ARTIFACT_FIELDS. json_get e f \<noteq> JNull \<and> json_get e f \<noteq> JStr [])" if "i < length es" for i
    using check_entry_ok check_entries_nth [OF es(2) that] by blast
  ultimately show ?thesis using es(1) top by blast
qed

lemma demo_dump:
  "case build_manifest demo_sha demo_repr demo_files ''2026-01-01T00:00:00Z'' demo_info ''/b'' [demo_spec] of
     Inl _ \<Rightarrow> False | Inr m \<Rightarrow> (case json_get m ''db'' of JObj d \<Rightarrow> json_get d ''file'' = JStr ''db.dump'' | _ \<Rightarrow> False)"
  by code_simp

theorem intact_bundle_restorable_witness:
  "\<exists>m d es. build_manifest demo_sha demo_repr demo_files ''2026-01-01T00:00:00Z'' demo_info ''/b'' [demo_spec] = Inr m \<and>
    json_get m ''db'' = JObj d \<and> recorded demo_sha demo_files ''/b/db.dump'' d \<and>
    json_get m ''artifacts'' = JList es \<and> secret_free (JObj m)"
proof -
  obtain m where b: "build_manifest demo_sha demo_repr demo_files ''2026-01-01T00:00:00Z'' demo_info ''/b'' [demo_spec] = Inr m"
    and v: "verify_manifest demo_sha demo_repr demo_files m ''/b'' = []" using demo_built by blast
  then obtain d where d: "json_get m ''db'' = JObj d" "json_get d ''file'' = JStr ''db.dump''"
    using demo_dump by (auto split: json.splits)
  have "path_join ''/b'' ''db.dump'' = ''/b/db.dump''" by code_simp
  then have "recorded demo_sha demo_files ''/b/db.dump'' d"
    using intact_bundle_restorable [OF v] d by (auto simp: falsy_def)
  then show ?thesis using intact_bundle_restorable [OF v] b d by blast
qed

end
