(* ===== verification/Economic_Store.thy ===== *)
theory Economic_Store
  imports Tables "HOL-Library.Product_Lexorder"
begin

text \<open>
  \<^verbatim>\<open>app/economic/store.py\<close>: the append-only, bitemporal store of economic observations. A table is the
  list of its rows in insertion order; a date is its ordinal, an instant the microseconds of UTC.
  A value is handed over as a float, an integer or an exact decimal. Foreign keys are not modelled.

  A write is three statements: read the current row, read the bounds of the period, insert unless
  the vintage exists. Under the database's default isolation each statement sees what other passes
  inserted meanwhile; so they are three steps of a transition system, next to the undisturbed write.
\<close>

section \<open>Values and rows\<close>

datatype quantity = FloatVal pyfloat | IntVal int | DecimalVal rat | DecimalNonFinite

definition VALUE_REL_TOLERANCE :: pyfloat where "VALUE_REL_TOLERANCE = lit (1 / 10 ^ 15)"
definition VALUE_ABS_TOLERANCE :: pyfloat where "VALUE_ABS_TOLERANCE = lit (1 / 10 ^ 15)"

text \<open>\<^verbatim>\<open>math.isclose\<close>.\<close>

definition isclose :: "pyfloat \<Rightarrow> pyfloat \<Rightarrow> pyfloat \<Rightarrow> pyfloat \<Rightarrow> bool" where
  "isclose rel_tol abs_tol a b =
     (if feq a b then True
      else if a \<in> {PInf, NInf} \<or> b \<in> {PInf, NInf} then False
      else let diff = fabs (fsub b a) in
        fle diff (fabs (fmul rel_tol b)) \<or> fle diff (fabs (fmul rel_tol a)) \<or> fle diff abs_tol)"

definition values_equal :: "pyfloat \<Rightarrow> pyfloat \<Rightarrow> bool" where
  "values_equal left right = isclose VALUE_REL_TOLERANCE VALUE_ABS_TOLERANCE left right"

text \<open>What is stored, and \<^verbatim>\<open>float\<close> of it.\<close>

definition stored_value :: "quantity \<Rightarrow> quantity res" where
  "stored_value v = (case v of
       DecimalNonFinite \<Rightarrow> Inl ValueError
     | DecimalVal q \<Rightarrow> Inr (DecimalVal q)
     | IntVal n \<Rightarrow> map_res FloatVal (float_of_int n)
     | FloatVal a \<Rightarrow> Inr (FloatVal a))"

fun quantity_float :: "quantity \<Rightarrow> pyfloat" where
  "quantity_float (FloatVal a) = a"
| "quantity_float (IntVal n) = rnd (of_int n)"
| "quantity_float (DecimalVal q) = rnd q"
| "quantity_float DecimalNonFinite = NaN"

record observation_row =
  ob_series :: int
  ob_start :: int
  ob_end :: int
  ob_label :: string
  ob_value :: quantity
  ob_published :: "int option"
  ob_available :: int
  ob_vintage :: int
  ob_nowcast :: bool
  ob_projection :: bool
  ob_document :: "int option"
  ob_collected :: int
  ob_method :: "string option"
  ob_approx :: bool

type_synonym observation_table = "observation_row list"

definition ob_period :: "observation_row \<Rightarrow> int \<times> int" where
  "ob_period r = (ob_series r, ob_start r)"

definition ob_key :: "observation_row \<Rightarrow> int \<times> int \<times> int" where
  "ob_key r = (ob_series r, ob_start r, ob_vintage r)"

text \<open>The check constraints of the table.\<close>

definition observation_admitted :: "observation_row \<Rightarrow> bool" where
  "observation_admitted r \<longleftrightarrow> 1 \<le> ob_vintage r \<and> ob_start r \<le> ob_end r \<and>
     ob_method r \<in> {None, Some ''old'', Some ''revised''}"

section \<open>Writing\<close>

datatype write_status = Inserted | Unchanged | Revised | Raced

record observation_write =
  ow_status :: write_status
  ow_vintage :: int
  ow_previous_value :: "pyfloat option"
  ow_previous_vintage :: "int option"
  ow_previous_method :: "string option"

record write_request =
  wr_series :: int
  wr_start :: int
  wr_end :: int
  wr_value :: "quantity option"
  wr_available :: "int option"
  wr_label :: string
  wr_published :: "int option"
  wr_nowcast :: bool
  wr_projection :: bool
  wr_document :: "int option"
  wr_collected :: "int option"
  wr_method :: "string option"
  wr_approx :: bool

definition period_rows :: "int \<times> int \<Rightarrow> observation_table \<Rightarrow> observation_table" where
  "period_rows p t = filter (\<lambda>r. ob_period r = p) t"

definition wr_period :: "write_request \<Rightarrow> int \<times> int" where
  "wr_period w = (wr_series w, wr_start w)"

text \<open>The reader's order: newest availability first, then newest vintage.\<close>

definition newest_first :: "observation_table \<Rightarrow> observation_table" where
  "newest_first rows = sort_key (\<lambda>r. (- ob_available r, - ob_vintage r)) rows"

definition first_row :: "'a list \<Rightarrow> 'a option" where
  "first_row xs = (case xs of [] \<Rightarrow> None | x # _ \<Rightarrow> Some x)"

definition current_row :: "int \<times> int \<Rightarrow> observation_table \<Rightarrow> observation_row option" where
  "current_row p t = first_row (newest_first (period_rows p t))"

definition max_vintage :: "int \<times> int \<Rightarrow> observation_table \<Rightarrow> int" where
  "max_vintage p t = (let vs = map ob_vintage (period_rows p t) in if vs = [] then 0 else Max (set vs))"

definition newest_available :: "int \<times> int \<Rightarrow> observation_table \<Rightarrow> int option" where
  "newest_available p t = (let as = map ob_available (period_rows p t) in if as = [] then None else Some (Max (set as)))"

text \<open>The checks of the arguments: the value to store and the availability.\<close>

definition check_request :: "write_request \<Rightarrow> (quantity \<times> int) res" where
  "check_request w =
     (case wr_value w of None \<Rightarrow> Inl ValueError
      | Some v \<Rightarrow> if wr_end w < wr_start w then Inl ValueError
          else (case wr_available w of None \<Rightarrow> Inl ValueError
            | Some a \<Rightarrow> map_res (\<lambda>x. (x, a)) (stored_value v)))"

definition write_row :: "write_request \<Rightarrow> int \<Rightarrow> quantity \<Rightarrow> int \<Rightarrow> int \<Rightarrow> observation_row" where
  "write_row w now v available vintage =
     \<lparr>ob_series = wr_series w, ob_start = wr_start w, ob_end = wr_end w, ob_label = wr_label w, ob_value = v,
      ob_published = wr_published w, ob_available = available, ob_vintage = vintage, ob_nowcast = wr_nowcast w,
      ob_projection = wr_projection w, ob_document = wr_document w,
      ob_collected = (case wr_collected w of None \<Rightarrow> now | Some c \<Rightarrow> c),
      ob_method = wr_method w, ob_approx = wr_approx w\<rparr>"

text \<open>The current row already says this.\<close>

definition restates :: "observation_row \<Rightarrow> quantity \<Rightarrow> string option \<Rightarrow> bool" where
  "restates r v method \<longleftrightarrow> values_equal (quantity_float (ob_value r)) (quantity_float v) \<and> ob_method r = method"

definition write_report :: "write_status \<Rightarrow> int \<Rightarrow> observation_row option \<Rightarrow> observation_write" where
  "write_report status vintage cur =
     \<lparr>ow_status = status, ow_vintage = vintage,
      ow_previous_value = map_option (\<lambda>r. quantity_float (ob_value r)) cur,
      ow_previous_vintage = map_option ob_vintage cur,
      ow_previous_method = (case cur of None \<Rightarrow> None | Some r \<Rightarrow> ob_method r)\<rparr>"

datatype write_plan = Done observation_write | Ready write_status observation_row "observation_row option"

text \<open>The decision, from the current row and from the table in which the bounds are read.\<close>

definition plan_write :: "write_request \<Rightarrow> int \<Rightarrow> observation_row option \<Rightarrow> observation_table \<Rightarrow> write_plan res" where
  "plan_write w now cur t =
     bind_res (check_request w) (\<lambda>(v, available).
       case cur of
         Some r \<Rightarrow>
           if restates r v (wr_method w) then Inr (Done (write_report Unchanged (ob_vintage r) cur))
           else if (case newest_available (wr_period w) t of None \<Rightarrow> False | Some a \<Rightarrow> available < a) then Inl ValueError
           else Inr (Ready Revised (write_row w now v available (max_vintage (wr_period w) t + 1)) cur)
       | None \<Rightarrow>
           if (case newest_available (wr_period w) t of None \<Rightarrow> False | Some a \<Rightarrow> available < a) then Inl ValueError
           else Inr (Ready Inserted (write_row w now v available 1) cur))"

definition insert_observation :: "observation_row \<Rightarrow> observation_table \<Rightarrow> (observation_table \<times> bool) res" where
  "insert_observation r t = (if observation_admitted r then Inr (insert_ignore ob_key r t) else Inl IntegrityError)"

definition finish_write :: "write_plan \<Rightarrow> observation_table \<Rightarrow> (observation_write \<times> observation_table) res" where
  "finish_write plan t =
     (case plan of
        Done report \<Rightarrow> Inr (report, t)
      | Ready status r cur \<Rightarrow>
          map_res (\<lambda>(t', inserted). (write_report (if inserted then status else Raced) (ob_vintage r) cur, t'))
            (insert_observation r t))"

text \<open>A write that no other pass disturbs.\<close>

definition record_observation :: "write_request \<Rightarrow> int \<Rightarrow> observation_table \<Rightarrow> (observation_write \<times> observation_table) res" where
  "record_observation w now t =
     bind_res (plan_write w now (current_row (wr_period w) t) t) (\<lambda>plan. finish_write plan t)"

section \<open>Reading\<close>

record series_row =
  sr_id :: int
  sr_code :: string

definition series_id_for_code :: "series_row list \<Rightarrow> string \<Rightarrow> int res" where
  "series_id_for_code series code =
     (case filter (\<lambda>s. sr_code s = code) series of [] \<Rightarrow> Inl ValueError | s # _ \<Rightarrow> Inr (sr_id s))"

text \<open>The rows a read may consider.\<close>

definition knowable :: "int \<Rightarrow> int \<Rightarrow> int option \<Rightarrow> int option \<Rightarrow> bool \<Rightarrow> observation_row \<Rightarrow> bool" where
  "knowable sid cutoff from_date to_date projections r \<longleftrightarrow>
     ob_series r = sid \<and> ob_available r \<le> cutoff \<and> (projections \<or> \<not> ob_projection r) \<and>
     (case from_date of None \<Rightarrow> True | Some d \<Rightarrow> d \<le> ob_start r) \<and>
     (case to_date of None \<Rightarrow> True | Some d \<Rightarrow> ob_start r \<le> d)"

text \<open>PostgreSQL: the first row of each period in the descending order, put in ascending order.\<close>

function distinct_on :: "('r \<Rightarrow> 'k) \<Rightarrow> 'r list \<Rightarrow> 'r list" where
  "distinct_on f [] = []"
| "distinct_on f (r # rs) = r # distinct_on f (dropWhile (\<lambda>x. f x = f r) rs)"
  by pat_completeness auto
termination
  by (relation "measure (length \<circ> snd)") (auto simp: le_imp_less_Suc length_dropWhile_le)

definition pit_postgresql :: "observation_table \<Rightarrow> observation_table" where
  "pit_postgresql rows =
     sort_key ob_start (distinct_on ob_start (sort_key (\<lambda>r. (- ob_start r, - ob_available r, - ob_vintage r)) rows))"

text \<open>SQLite: the row of rank 1 within its period (a vintage occurs once, so no two rows tie).\<close>

definition row_rank :: "observation_table \<Rightarrow> observation_row \<Rightarrow> nat" where
  "row_rank rows r = Suc (length (filter (\<lambda>x. ob_start x = ob_start r \<and>
     (- ob_available x, - ob_vintage x) < (- ob_available r, - ob_vintage r)) rows))"

definition pit_sqlite :: "observation_table \<Rightarrow> observation_table" where
  "pit_sqlite rows = sort_key ob_start (filter (\<lambda>r. row_rank rows r = 1) rows)"

datatype dialect = PostgreSQL | SQLite

definition pit_statement :: "dialect \<Rightarrow> observation_table \<Rightarrow> observation_table" where
  "pit_statement d rows = (case d of PostgreSQL \<Rightarrow> pit_postgresql rows | SQLite \<Rightarrow> pit_sqlite rows)"

definition point_in_time ::
  "dialect \<Rightarrow> series_row list \<Rightarrow> observation_table \<Rightarrow> string \<Rightarrow> int \<Rightarrow> int option \<Rightarrow> int option \<Rightarrow> int option \<Rightarrow> bool \<Rightarrow>
    observation_table res" where
  "point_in_time d series t code now as_of from_date to_date projections =
     (if (case (from_date, to_date) of (Some a, Some b) \<Rightarrow> b < a | _ \<Rightarrow> False) then Inl ValueError
      else let cutoff = (case as_of of None \<Rightarrow> now | Some c \<Rightarrow> c) in
        map_res (\<lambda>sid. pit_statement d (filter (knowable sid cutoff from_date to_date projections) t))
          (series_id_for_code series code))"

text \<open>The vintages an answer draws on, and whether any is a revision.\<close>

definition answer_vintages :: "observation_table \<Rightarrow> int set" where
  "answer_vintages rows = ob_vintage ` set rows"

definition is_revised :: "observation_table \<Rightarrow> bool" where
  "is_revised rows \<longleftrightarrow> (\<exists>v \<in> answer_vintages rows. 1 < v)"

definition vintages_for_period :: "series_row list \<Rightarrow> observation_table \<Rightarrow> string \<Rightarrow> int \<Rightarrow> observation_table res" where
  "vintages_for_period series t code start =
     map_res (\<lambda>sid. sort_key ob_vintage (period_rows (sid, start) t)) (series_id_for_code series code)"

section \<open>Concurrent passes\<close>

datatype writer =
    Looked write_request int "observation_row option"
  | Planned write_plan

inductive store_step :: "observation_table \<times> writer list \<Rightarrow> observation_table \<times> writer list \<Rightarrow> bool" where
  look: "store_step (t, ws) (t, ws @ [Looked w now (current_row (wr_period w) t)])"
| plan: "plan_write w now cur t = Inr p \<Longrightarrow> store_step (t, a @ Looked w now cur # b) (t, a @ Planned p # b)"
| refuse: "plan_write w now cur t = Inl e \<Longrightarrow> store_step (t, a @ Looked w now cur # b) (t, a @ b)"
| finish: "finish_write p t = Inr (report, t') \<Longrightarrow> store_step (t, a @ Planned p # b) (t', a @ b)"
| failing: "finish_write p t = Inl e \<Longrightarrow> store_step (t, a @ Planned p # b) (t, a @ b)"

end
