(* ===== verification/Economic_Store_Props.thy ===== *)
theory Economic_Store_Props
  imports Economic_Store
begin

text \<open>
  The theorems on \<^verbatim>\<open>app/economic/store.py\<close>: the invariant of the table under any interleaving of
  passes, the refinement of the abstract store (a history per period, to which a changed value is
  appended and of which a read takes the last entry knowable at the cutoff), and the agreement of the
  two spellings of the point-in-time statement.
\<close>

section \<open>The invariant\<close>

definition store_ok :: "observation_table \<Rightarrow> bool" where
  "store_ok t \<longleftrightarrow> distinct (map ob_key t) \<and>
     (\<forall>r \<in> set t. 1 \<le> ob_vintage r) \<and>
     (\<forall>r \<in> set t. \<forall>v. 1 \<le> v \<and> v < ob_vintage r \<longrightarrow> (\<exists>x \<in> set t. ob_period x = ob_period r \<and> ob_vintage x = v)) \<and>
     (\<forall>r \<in> set t. \<forall>x \<in> set t. ob_period x = ob_period r \<and> ob_vintage x < ob_vintage r \<longrightarrow> ob_available x \<le> ob_available r)"

lemma period_rows_set: "r \<in> set (period_rows p t) \<longleftrightarrow> r \<in> set t \<and> ob_period r = p"
  by (auto simp: period_rows_def)

lemma max_vintage_ge: "r \<in> set t \<Longrightarrow> ob_vintage r \<le> max_vintage (ob_period r) t"
proof -
  assume r: "r \<in> set t"
  then have "r \<in> set (period_rows (ob_period r) t)" by (simp add: period_rows_set)
  then show ?thesis by (auto simp: max_vintage_def Let_def)
qed

lemma max_vintage_attained:
  assumes "max_vintage p t \<noteq> 0"
  shows "\<exists>r \<in> set t. ob_period r = p \<and> ob_vintage r = max_vintage p t"
proof -
  let ?vs = "map ob_vintage (period_rows p t)"
  have ne: "?vs \<noteq> []" using assms by (auto simp: max_vintage_def)
  then have "max_vintage p t \<in> set ?vs" by (simp add: max_vintage_def Max_in del: set_map)
  then show ?thesis by (auto simp: period_rows_set)
qed

lemma max_vintage_nonneg: "store_ok t \<Longrightarrow> 0 \<le> max_vintage p t"
proof (rule ccontr)
  assume ok: "store_ok t" and n: "\<not> 0 \<le> max_vintage p t"
  then obtain r where "r \<in> set t" "ob_vintage r = max_vintage p t" using max_vintage_attained [of p t] by fastforce
  then show False using ok n unfolding store_ok_def by fastforce
qed

lemma vintage_present:
  assumes "store_ok t" and "1 \<le> v" and "v \<le> max_vintage p t"
  shows "\<exists>r \<in> set t. ob_period r = p \<and> ob_vintage r = v"
proof -
  obtain r where r: "r \<in> set t" "ob_period r = p" "ob_vintage r = max_vintage p t"
    using max_vintage_attained [of p t] assms(2,3) by fastforce
  show ?thesis
  proof (cases "v = max_vintage p t")
    case True
    then show ?thesis using r by blast
  next
    case False
    then show ?thesis using assms r unfolding store_ok_def by (metis order_le_less)
  qed
qed

lemma newest_available_ge: "r \<in> set t \<Longrightarrow> \<exists>a. newest_available (ob_period r) t = Some a \<and> ob_available r \<le> a"
proof -
  assume "r \<in> set t"
  then have "r \<in> set (period_rows (ob_period r) t)" by (simp add: period_rows_set)
  then show ?thesis by (auto simp: newest_available_def Let_def)
qed

text \<open>A row that is about to be inserted: at most the next vintage, and then not knowable earlier.\<close>

definition insertable :: "observation_table \<Rightarrow> observation_row \<Rightarrow> bool" where
  "insertable t r \<longleftrightarrow> 1 \<le> ob_vintage r \<and> ob_vintage r \<le> max_vintage (ob_period r) t + 1 \<and>
     (ob_vintage r = max_vintage (ob_period r) t + 1 \<longrightarrow>
        (\<forall>x \<in> set t. ob_period x = ob_period r \<longrightarrow> ob_available x \<le> ob_available r))"

lemma ob_key_period: "ob_key r = ob_key x \<longleftrightarrow> ob_period r = ob_period x \<and> ob_vintage r = ob_vintage x"
  by (auto simp: ob_key_def ob_period_def)

lemma key_injective: "store_ok t \<Longrightarrow> x \<in> set t \<Longrightarrow> y \<in> set t \<Longrightarrow> ob_key x = ob_key y \<Longrightarrow> x = y"
  unfolding store_ok_def distinct_map by (blast dest: inj_onD)

lemma insert_cases:
  assumes "store_ok t" and "insertable t r"
  obtains (present) "insert_ignore ob_key r t = (t, False)" "ob_vintage r \<le> max_vintage (ob_period r) t"
  | (fresh) "insert_ignore ob_key r t = (t @ [r], True)" "ob_vintage r = max_vintage (ob_period r) t + 1"
proof (cases "ob_vintage r \<le> max_vintage (ob_period r) t")
  case True
  then obtain x where x: "x \<in> set t" "ob_key x = ob_key r"
    using vintage_present [OF assms(1)] assms(2) unfolding insertable_def ob_key_period by metis
  have "ob_key r \<in> ob_key ` set t" using x by (metis imageI)
  then show ?thesis using present True by (simp add: insert_ignore_def)
next
  case False
  then have v: "ob_vintage r = max_vintage (ob_period r) t + 1" using assms(2) unfolding insertable_def by linarith
  have "ob_key r \<notin> ob_key ` set t"
  proof
    assume "ob_key r \<in> ob_key ` set t"
    then obtain x where "x \<in> set t" "ob_period x = ob_period r" "ob_vintage x = ob_vintage r"
      unfolding image_iff ob_key_period by metis
    then show False using max_vintage_ge [of x t] v by simp
  qed
  then show ?thesis using fresh v by (simp add: insert_ignore_def)
qed

lemma store_ok_append:
  assumes "store_ok t" and "insertable t r" and v: "ob_vintage r = max_vintage (ob_period r) t + 1"
  shows "store_ok (t @ [r])"
proof -
  have below: "ob_vintage x < ob_vintage r" if "x \<in> set t" "ob_period x = ob_period r" for x
    using max_vintage_ge [OF that(1)] v that(2) by simp
  have keys: "ob_key r \<notin> ob_key ` set t"
  proof
    assume "ob_key r \<in> ob_key ` set t"
    then obtain x where x: "x \<in> set t" "ob_key r = ob_key x" by blast
    show False using below [OF x(1)] x(2) unfolding ob_key_period by simp
  qed
  have gaps: "\<exists>x \<in> set t. ob_period x = ob_period r \<and> ob_vintage x = w" if "1 \<le> w" "w < ob_vintage r" for w
    using vintage_present [OF assms(1) that(1)] that(2) v by simp
  have later: "ob_available x \<le> ob_available r" if "x \<in> set t" "ob_period x = ob_period r" for x
    using assms(2) v that unfolding insertable_def by blast
  note ok = assms(1) [unfolded store_ok_def]
  show ?thesis unfolding store_ok_def
  proof (intro conjI ballI allI impI)
    show "distinct (map ob_key (t @ [r]))" using ok keys by simp
    show "1 \<le> ob_vintage x" if "x \<in> set (t @ [r])" for x using that ok assms(2) by (auto simp: insertable_def)
    show "\<exists>y \<in> set (t @ [r]). ob_period y = ob_period x \<and> ob_vintage y = w"
      if "x \<in> set (t @ [r])" "1 \<le> w \<and> w < ob_vintage x" for x w
    proof (cases "x \<in> set t")
      case True
      then show ?thesis using ok that(2) by (metis Un_iff set_append)
    next
      case False
      then show ?thesis using that gaps [of w] by auto
    qed
    show "ob_available y \<le> ob_available x"
      if "x \<in> set (t @ [r])" "y \<in> set (t @ [r])" "ob_period y = ob_period x \<and> ob_vintage y < ob_vintage x" for x y
    proof (cases "x \<in> set t")
      case True
      show ?thesis
      proof (cases "y \<in> set t")
        case True
        then show ?thesis using ok that(3) \<open>x \<in> set t\<close> by blast
      next
        case False
        then have "y = r" using that(2) by simp
        then show ?thesis using below [OF True] that(3) by simp
      qed
    next
      case False
      then have "x = r" using that(1) by simp
      then show ?thesis using later [of y] that(2,3) by auto
    qed
  qed
qed

lemma max_vintage_append:
  "store_ok t \<Longrightarrow> ob_vintage r = max_vintage (ob_period r) t + 1 \<Longrightarrow> max_vintage (ob_period r) (t @ [r]) = ob_vintage r"
proof -
  assume ok: "store_ok t" and v: "ob_vintage r = max_vintage (ob_period r) t + 1"
  let ?rows = "period_rows (ob_period r) t"
  have rows: "period_rows (ob_period r) (t @ [r]) = ?rows @ [r]" by (simp add: period_rows_def)
  have "\<forall>x \<in> set ?rows. ob_vintage x \<le> ob_vintage r"
    using max_vintage_ge v by (fastforce simp: period_rows_set)
  then have "Max (set (map ob_vintage (?rows @ [r]))) = ob_vintage r" by (intro Max_eqI) auto
  then show ?thesis by (simp add: max_vintage_def rows del: set_append map_append)
qed

lemma max_vintage_other: "ob_period r \<noteq> p \<Longrightarrow> max_vintage p (t @ [r]) = max_vintage p t"
  by (simp add: max_vintage_def period_rows_def)

lemma insertable_grows:
  assumes "store_ok t" and "insertable t r" and "insertable t x" and "ob_vintage x = max_vintage (ob_period x) t + 1"
  shows "insertable (t @ [x]) r"
proof (cases "ob_period x = ob_period r")
  case True
  then show ?thesis using assms(2) max_vintage_append [OF assms(1,4)] assms(4) unfolding insertable_def by auto
next
  case False
  then show ?thesis using assms(2) max_vintage_other [OF False, of t] unfolding insertable_def by auto
qed

lemma plan_insertable:
  assumes "store_ok t" and "plan_write w now cur t = Inr (Ready status r c)"
  shows "insertable t r"
proof -
  obtain v a where chk: "check_request w = Inr (v, a)"
    using assms(2) by (auto simp: plan_write_def bind_res_eq_Inr)
  have fresh: "\<not> (case newest_available (wr_period w) t of None \<Rightarrow> False | Some b \<Rightarrow> a < b)"
    and r: "r = write_row w now v a (if cur = None then 1 else max_vintage (wr_period w) t + 1)"
    using assms(2) chk by (auto simp: plan_write_def split: option.splits if_splits)
  have p: "ob_period r = wr_period w" "ob_available r = a" unfolding r by (simp_all add: write_row_def ob_period_def wr_period_def)
  have later: "ob_available x \<le> ob_available r" if "x \<in> set t" "ob_period x = ob_period r" for x
    using newest_available_ge [OF that(1)] fresh that(2) unfolding p by auto
  show ?thesis
  proof (cases cur)
    case None
    then have "ob_vintage r = 1" unfolding r by (simp add: write_row_def)
    then show ?thesis using later max_vintage_nonneg [OF assms(1), of "ob_period r"] unfolding insertable_def by auto
  next
    case (Some c)
    then have "ob_vintage r = max_vintage (ob_period r) t + 1" unfolding p unfolding r by (simp add: write_row_def)
    then show ?thesis using later max_vintage_nonneg [OF assms(1), of "ob_period r"] unfolding insertable_def by auto
  qed
qed

definition passes_ok :: "observation_table \<times> writer list \<Rightarrow> bool" where
  "passes_ok s \<longleftrightarrow> store_ok (fst s) \<and> (\<forall>status r cur. Planned (Ready status r cur) \<in> set (snd s) \<longrightarrow> insertable (fst s) r)"

lemma finish_passes:
  assumes "passes_ok (t, ws)" and "Planned p \<in> set ws" and "finish_write p t = Inr (report, t')" and "set ws' \<subseteq> set ws"
  shows "passes_ok (t', ws')"
proof (cases p)
  case (Done d)
  then show ?thesis using assms by (auto simp: finish_write_def passes_ok_def)
next
  case (Ready status r cur)
  have ok: "store_ok t" "insertable t r" using assms(1,2) Ready by (auto simp: passes_ok_def)
  have t': "t' = fst (insert_ignore ob_key r t)"
    using assms(3) Ready by (auto simp: finish_write_def insert_observation_def map_res_eq_Inr split: if_splits prod.splits)
  show ?thesis
  proof (cases rule: insert_cases [OF ok])
    case 1
    then show ?thesis using assms(1,4) unfolding t' passes_ok_def by auto
  next
    case 2
    then have grown: "t' = t @ [r]" unfolding t' by simp
    show ?thesis unfolding passes_ok_def grown fst_conv snd_conv
    proof (intro conjI allI impI)
      show "store_ok (t @ [r])" by (rule store_ok_append [OF ok 2(2)])
      fix status q cur
      assume "Planned (Ready status q cur) \<in> set ws'"
      then have "insertable t q" using assms(1,4) unfolding passes_ok_def by auto
      then show "insertable (t @ [r]) q" by (rule insertable_grows [OF ok(1) _ ok(2) 2(2)])
    qed
  qed
qed

lemma store_step_ok: "store_step s s' \<Longrightarrow> passes_ok s \<Longrightarrow> passes_ok s'"
proof (induction rule: store_step.induct)
  case (look t ws w now)
  then show ?case by (auto simp: passes_ok_def)
next
  case (plan w now cur t p a b)
  then show ?case using plan_insertable [of t w now cur] by (auto simp: passes_ok_def)
next
  case (refuse w now cur t e a b)
  then show ?case by (auto simp: passes_ok_def)
next
  case (finish p t report t' a b)
  then show ?case using finish_passes [of t "a @ Planned p # b" p report t' "a @ b"] by auto
next
  case (failing p t e a b)
  then show ?case by (auto simp: passes_ok_def)
qed

lemma reachable_store:
  assumes "store_step\<^sup>*\<^sup>* ([], []) (t, ws)"
  shows "store_ok t"
proof -
  have "passes_ok (t, ws)" using assms
  proof (induction rule: rtranclp_induct)
    case base
    then show ?case by (simp add: passes_ok_def store_ok_def)
  next
    case (step s s')
    then show ?case using store_step_ok by blast
  qed
  then show ?thesis by (simp add: passes_ok_def)
qed

text \<open>C11: Under any interleaving of any number of passes, each reading the current row, the bounds and
  inserting at moments of its own, the table keeps one row per series, period and vintage, the vintages
  of a period are 1, 2, ... without a gap, and a later vintage is never knowable earlier.\<close>

theorem store_invariant:
  assumes "store_step\<^sup>*\<^sup>* ([], []) (t, ws)"
  shows "distinct (map ob_key t) \<and>
    (\<forall>r \<in> set t. {ob_vintage x | x. x \<in> set t \<and> ob_period x = ob_period r} = {1 .. max_vintage (ob_period r) t}) \<and>
    (\<forall>r \<in> set t. \<forall>x \<in> set t. ob_period x = ob_period r \<and> ob_vintage x < ob_vintage r \<longrightarrow> ob_available x \<le> ob_available r)"
proof -
  note ok = reachable_store [OF assms]
  have "{ob_vintage x | x. x \<in> set t \<and> ob_period x = p} = {1 .. max_vintage p t}" for p
  proof
    show "{ob_vintage x | x. x \<in> set t \<and> ob_period x = p} \<subseteq> {1 .. max_vintage p t}"
      using max_vintage_ge ok unfolding store_ok_def by fastforce
    show "{1 .. max_vintage p t} \<subseteq> {ob_vintage x | x. x \<in> set t \<and> ob_period x = p}"
      using vintage_present [OF ok] by fastforce
  qed
  then show ?thesis using ok unfolding store_ok_def by blast
qed

section \<open>The two spellings of the point-in-time statement\<close>

abbreviation rank_key :: "observation_row \<Rightarrow> int \<times> int" where
  "rank_key r \<equiv> (- ob_available r, - ob_vintage r)"

text \<open>The winner of a period among the rows: newest availability, then newest vintage.\<close>

definition winner :: "observation_table \<Rightarrow> observation_row \<Rightarrow> bool" where
  "winner rows r \<longleftrightarrow> r \<in> set rows \<and> (\<forall>x \<in> set rows. ob_start x = ob_start r \<longrightarrow> rank_key r \<le> rank_key x)"

lemma dropWhile_run:
  fixes g :: "'r \<Rightarrow> 'k :: linorder"
  assumes "sorted (map g (r # rs))"
  shows "dropWhile (\<lambda>x. g x = g r) rs = filter (\<lambda>x. g x \<noteq> g r) rs"
  using assms
proof (induction rs)
  case Nil
  then show ?case by simp
next
  case (Cons y ys)
  show ?case
  proof (cases "g y = g r")
    case True
    then show ?thesis using Cons by simp
  next
    case False
    then have "g r < g y" using Cons.prems by auto
    then have "\<forall>x \<in> set ys. g x \<noteq> g r" using Cons.prems by fastforce
    then have "filter (\<lambda>x. g x \<noteq> g r) ys = ys" by (simp add: filter_id_conv)
    then show ?thesis using False by simp
  qed
qed

lemma distinct_on_winners:
  assumes "sorted (map (\<lambda>r. (- ob_start r, rank_key r)) rows)"
    and "inj_on (\<lambda>r. (ob_start r, rank_key r)) (set rows)"
  shows "distinct (map ob_start (distinct_on ob_start rows)) \<and>
    set (distinct_on ob_start rows) = {r. winner rows r}"
  using assms
proof (induction "ob_start :: observation_row \<Rightarrow> int" rows rule: distinct_on.induct)
  case 1
  then show ?case by (simp add: winner_def)
next
  case (2 r rs)
  let ?rest = "filter (\<lambda>x. ob_start x \<noteq> ob_start r) rs"
  have starts: "sorted (map (\<lambda>x. - ob_start x) (r # rs))"
    using 2(2) by (auto simp: sorted_wrt_map less_eq_prod_def elim!: sorted_wrt_mono_rel [rotated])
  have rest: "dropWhile (\<lambda>x. ob_start x = ob_start r) rs = ?rest"
    using dropWhile_run [OF starts] by simp
  have ih: "distinct (map ob_start (distinct_on ob_start ?rest))" "set (distinct_on ob_start ?rest) = {r. winner ?rest r}"
  proof -
    have "sorted (map (\<lambda>r. (- ob_start r, rank_key r)) ?rest)" using 2(2) by (intro sorted_filter) simp
    moreover have "inj_on (\<lambda>r. (ob_start r, rank_key r)) (set ?rest)" using 2(3) by (auto intro: inj_on_subset)
    ultimately show "distinct (map ob_start (distinct_on ob_start ?rest))"
      "set (distinct_on ob_start ?rest) = {r. winner ?rest r}"
      using 2(1) unfolding rest by blast+
  qed
  have head: "winner (r # rs) r" using 2(2) unfolding winner_def by (auto simp: less_eq_prod_def)
  have only: "x = r" if "winner (r # rs) x" "ob_start x = ob_start r" for x
  proof -
    have "rank_key x = rank_key r" using that head unfolding winner_def by (intro order_antisym) auto
    then have "(ob_start x, rank_key x) = (ob_start r, rank_key r)" using that(2) by simp
    moreover have "x \<in> set (r # rs)" "r \<in> set (r # rs)" using that(1) by (simp_all add: winner_def)
    ultimately show ?thesis using inj_onD [OF 2(3)] by blast
  qed
  have others: "winner (r # rs) x \<longleftrightarrow> winner ?rest x" if "ob_start x \<noteq> ob_start r" for x
    using that unfolding winner_def by auto
  have none: "ob_start x \<noteq> ob_start r" if "winner ?rest x" for x using that unfolding winner_def by auto
  have "winner (r # rs) x \<longleftrightarrow> x = r \<or> winner ?rest x" for x
  proof (cases "ob_start x = ob_start r")
    case True
    show ?thesis using head only [OF _ True] none [of x] True by blast
  next
    case False
    then have "x \<noteq> r" by blast
    then show ?thesis using others [OF False] by blast
  qed
  then have all: "{x. winner (r # rs) x} = insert r {x. winner ?rest x}" by (simp add: set_eq_iff)
  have step: "distinct_on ob_start (r # rs) = r # distinct_on ob_start ?rest" by (subst distinct_on.simps(2)) (subst rest, rule refl)
  have "ob_start r \<notin> set (map ob_start (distinct_on ob_start ?rest))"
    unfolding set_map ih(2) using none by (metis (mono_tags) imageE mem_Collect_eq)
  then have "distinct (map ob_start (r # distinct_on ob_start ?rest))" using ih(1) by simp
  moreover have "set (r # distinct_on ob_start ?rest) = {x. winner (r # rs) x}" unfolding all ih(2) [symmetric] by simp
  ultimately show ?case unfolding step by (rule conjI)
qed

lemma row_rank_winner:
  assumes "r \<in> set rows"
  shows "row_rank rows r = 1 \<longleftrightarrow> winner rows r"
proof -
  have "row_rank rows r = 1 \<longleftrightarrow> filter (\<lambda>x. ob_start x = ob_start r \<and> rank_key x < rank_key r) rows = []"
    by (simp add: row_rank_def)
  also have "\<dots> \<longleftrightarrow> winner rows r"
    using assms by (auto simp: filter_empty_conv winner_def not_less simp del: less_prod_simp less_eq_prod_simp)
  finally show ?thesis .
qed

lemma sorted_key_unique:
  assumes "sorted (map f xs)" "distinct (map f xs)" "sorted (map f ys)" "distinct (map f ys)" "set xs = set ys"
  shows "xs = ys"
proof -
  have "map f xs = map f ys" using assms by (intro sorted_distinct_set_unique) auto
  moreover have "inj_on f (set xs \<union> set ys)" using assms(2,5) by (simp add: distinct_map)
  ultimately show ?thesis using inj_on_map_eq_map by blast
qed

lemma pit_postgresql_winners:
  assumes "inj_on (\<lambda>r. (ob_start r, rank_key r)) (set rows)"
  shows "sorted (map ob_start (pit_postgresql rows)) \<and> distinct (map ob_start (pit_postgresql rows)) \<and>
    set (pit_postgresql rows) = {r. winner rows r}"
proof -
  let ?s = "sort_key (\<lambda>r. (- ob_start r, rank_key r)) rows"
  have w: "winner ?s = winner rows" by (simp add: winner_def fun_eq_iff)
  have "sorted (map (\<lambda>r. (- ob_start r, rank_key r)) ?s)" by (rule sorted_sort_key)
  then have d: "distinct (map ob_start (distinct_on ob_start ?s))" "set (distinct_on ob_start ?s) = {r. winner rows r}"
    using distinct_on_winners [of ?s] assms unfolding w by simp_all
  have "distinct (map ob_start (pit_postgresql rows))" using d(1) unfolding pit_postgresql_def by (simp add: distinct_map)
  then show ?thesis using d(2) by (simp add: pit_postgresql_def)
qed

lemma pit_sqlite_winners:
  assumes "inj_on (\<lambda>r. (ob_start r, rank_key r)) (set rows)" and "distinct rows"
  shows "sorted (map ob_start (pit_sqlite rows)) \<and> distinct (map ob_start (pit_sqlite rows)) \<and>
    set (pit_sqlite rows) = {r. winner rows r}"
proof -
  have set: "set (pit_sqlite rows) = {r. winner rows r}"
    using row_rank_winner by (auto simp: pit_sqlite_def winner_def)
  have "inj_on ob_start {r. winner rows r}"
  proof (rule inj_onI)
    fix x y assume "x \<in> {r. winner rows r}" "y \<in> {r. winner rows r}" and same: "ob_start x = ob_start y"
    then have w: "winner rows x" "winner rows y" by auto
    then have "rank_key x = rank_key y" using same unfolding winner_def by (intro order_antisym) auto
    then show "x = y" using w same unfolding winner_def by (intro inj_onD [OF assms(1)]) auto
  qed
  then show ?thesis using set assms(2) by (simp add: pit_sqlite_def distinct_map)
qed

lemma store_rows_ranked:
  assumes "store_ok t"
  shows "inj_on (\<lambda>r. (ob_start r, rank_key r)) (set (filter (knowable sid c a b p) t)) \<and> distinct (filter (knowable sid c a b p) t)"
proof -
  have keys: "inj_on ob_key (set t)" "distinct t" using assms unfolding store_ok_def by (simp_all add: distinct_map)
  have "inj_on (\<lambda>r. (ob_start r, rank_key r)) (set (filter (knowable sid c a b p) t))"
  proof (rule inj_onI)
    fix x y assume "x \<in> set (filter (knowable sid c a b p) t)" "y \<in> set (filter (knowable sid c a b p) t)"
      and "(ob_start x, rank_key x) = (ob_start y, rank_key y)"
    then have "x \<in> set t" "y \<in> set t" "ob_key x = ob_key y" by (auto simp: knowable_def ob_key_def)
    then show "x = y" using keys(1) by (auto dest: inj_onD)
  qed
  then show ?thesis using keys(2) by simp
qed

text \<open>On every table the passes can produce the SQLite spelling of the point-in-time read (rank 1 of a
  window function) and the PostgreSQL one (DISTINCT ON in a descending order, turned round) give the same
  answer, errors included.\<close>

theorem dialects_agree:
  assumes "store_step\<^sup>*\<^sup>* ([], []) (t, ws)"
  shows "point_in_time PostgreSQL series t code now as_of from_date to_date projections =
    point_in_time SQLite series t code now as_of from_date to_date projections"
proof -
  have "pit_postgresql (filter (knowable sid c from_date to_date projections) t) =
      pit_sqlite (filter (knowable sid c from_date to_date projections) t)" for sid c
    using store_rows_ranked [OF reachable_store [OF assms], of sid c from_date to_date projections]
      pit_postgresql_winners pit_sqlite_winners by (intro sorted_key_unique) blast+
  then show ?thesis by (simp add: point_in_time_def pit_statement_def Let_def)
qed


section \<open>The abstract store\<close>

text \<open>A period's history, the oldest vintage first; an abstract write appends to it or leaves it.\<close>

definition history :: "int \<times> int \<Rightarrow> observation_table \<Rightarrow> observation_row list" where
  "history p t = sort_key ob_vintage (period_rows p t)"

definition history_write :: "write_request \<Rightarrow> int \<Rightarrow> observation_row list \<Rightarrow> observation_row list res" where
  "history_write w now h = bind_res (check_request w) (\<lambda>(v, available).
     if h \<noteq> [] \<and> restates (last h) v (wr_method w) then Inr h
     else if h \<noteq> [] \<and> available < ob_available (last h) then Inl ValueError
     else let r = write_row w now v available (int (length h) + 1) in
       if observation_admitted r then Inr (h @ [r]) else Inl IntegrityError)"

lemma history_set: "set (history p t) = {r \<in> set t. ob_period r = p}"
  by (auto simp: history_def period_rows_set)

lemma sorted_ints: "sorted (map int [m ..< n])"
  by (simp add: sorted_wrt_map)

lemma distinct_ints: "distinct (map int [m ..< n])"
  by (simp add: distinct_map)

lemma history_vintages:
  assumes "store_ok t"
  shows "map ob_vintage (history p t) = map int [1 ..< Suc (length (history p t))]"
proof -
  let ?vs = "map ob_vintage (history p t)"
  have inj: "inj_on ob_vintage (set (period_rows p t))"
  proof (rule inj_onI)
    fix x y assume "x \<in> set (period_rows p t)" "y \<in> set (period_rows p t)" "ob_vintage x = ob_vintage y"
    then have "x \<in> set t" "y \<in> set t" "ob_key x = ob_key y" by (auto simp: period_rows_set ob_key_period)
    then show "x = y" by (rule key_injective [OF assms])
  qed
  have "distinct t" using assms unfolding store_ok_def by (simp add: distinct_map)
  then have d: "distinct ?vs" using inj by (simp add: history_def distinct_map period_rows_def)
  have s: "sorted ?vs" by (simp add: history_def)
  have set: "set ?vs = {1 .. max_vintage p t}"
  proof
    show "set ?vs \<subseteq> {1 .. max_vintage p t}"
      using max_vintage_ge assms unfolding store_ok_def by (fastforce simp: history_set)
    show "{1 .. max_vintage p t} \<subseteq> set ?vs" using vintage_present [OF assms] by (fastforce simp: history_set)
  qed
  have "length ?vs = card (set ?vs)" using d by (simp only: distinct_card)
  then have len: "int (length (history p t)) = max_vintage p t" using max_vintage_nonneg [OF assms] unfolding set by simp
  have "set (map int [1 ..< Suc (length (history p t))]) = {1 .. max_vintage p t}"
  proof -
    have "set (map int [1 ..< Suc (length (history p t))]) = int ` {1 .. length (history p t)}" by auto
    also have "\<dots> = {1 .. max_vintage p t}" unfolding len [symmetric] by (metis image_int_atLeastAtMost of_nat_1)
    finally show ?thesis .
  qed
  then show ?thesis using s d set
    by (intro sorted_distinct_set_unique) (simp_all only: sorted_ints distinct_ints)
qed

lemma history_empty: "history p t = [] \<longleftrightarrow> period_rows p t = []"
  by (metis history_def length_0_conv length_sort)

lemma history_length: "store_ok t \<Longrightarrow> int (length (history p t)) = max_vintage p t"
proof -
  assume ok: "store_ok t"
  let ?n = "length (history p t)"
  show ?thesis
  proof (cases "history p t = []")
    case True
    then have "period_rows p t = []" by (simp only: history_empty)
    then show ?thesis by (simp add: max_vintage_def True)
  next
    case False
    have "set (map ob_vintage (history p t)) = {1 .. int ?n}"
    proof -
      have "set (map ob_vintage (history p t)) = int ` {1 .. ?n}" unfolding history_vintages [OF ok] by auto
      then show ?thesis by (metis image_int_atLeastAtMost of_nat_1)
    qed
    moreover have "max_vintage p t = Max (set (map ob_vintage (history p t)))"
      using False by (auto simp: max_vintage_def history_def)
    moreover have "Max {1 .. int ?n} = int ?n" using False by (intro Max_eqI) (auto simp: Suc_le_eq)
    ultimately show ?thesis by simp
  qed
qed

text \<open>The newest vintage is last in the history, and it is the current row.\<close>

lemma history_last:
  assumes "store_ok t" and "history p t \<noteq> []"
  shows "last (history p t) \<in> set t" and "ob_period (last (history p t)) = p"
    and "ob_vintage (last (history p t)) = max_vintage p t"
    and "x \<in> set t \<Longrightarrow> ob_period x = p \<Longrightarrow> ob_available x \<le> ob_available (last (history p t))"
proof -
  show mem: "last (history p t) \<in> set t" and per: "ob_period (last (history p t)) = p"
    using last_in_set [OF assms(2)] by (simp_all add: history_set)
  have "ob_vintage (last (history p t)) = last (map ob_vintage (history p t))" using assms(2) by (simp add: last_map)
  also have "\<dots> = int (length (history p t))" unfolding history_vintages [OF assms(1)]
    using assms(2) by (simp add: last_map del: upt_Suc)
  finally show v: "ob_vintage (last (history p t)) = max_vintage p t" using history_length [OF assms(1)] by simp
  assume x: "x \<in> set t" "ob_period x = p"
  show "ob_available x \<le> ob_available (last (history p t))"
  proof (cases "ob_vintage x = max_vintage p t")
    case True
    then have "ob_key x = ob_key (last (history p t))" using x(2) per v by (simp add: ob_key_period)
    then have "x = last (history p t)" by (rule key_injective [OF assms(1) x(1) mem])
    then show ?thesis by simp
  next
    case False
    then have "ob_vintage x < ob_vintage (last (history p t))" using max_vintage_ge [OF x(1)] x(2) v by simp
    moreover have "ob_period x = ob_period (last (history p t))" using x(2) per by simp
    ultimately show ?thesis using assms(1) mem x(1) unfolding store_ok_def by blast
  qed
qed

lemma current_is_last:
  assumes "store_ok t"
  shows "current_row p t = (if history p t = [] then None else Some (last (history p t)))"
proof (cases "history p t = []")
  case True
  then show ?thesis by (simp add: history_empty current_row_def newest_first_def first_row_def)
next
  case False
  then obtain r rs where e: "newest_first (period_rows p t) = r # rs"
    unfolding history_empty newest_first_def by (metis length_0_conv length_sort neq_Nil_conv)
  have set: "set (r # rs) = set (period_rows p t)" unfolding e [symmetric] by (simp add: newest_first_def)
  have sorted: "sorted (map rank_key (r # rs))" unfolding e [symmetric] by (simp add: newest_first_def)
  have r: "r \<in> set t" "ob_period r = p" using set period_rows_set [of r p t] by auto
  have first: "rank_key r \<le> rank_key x" if "x \<in> set t" "ob_period x = p" for x
    using that set sorted period_rows_set [of x p t] by auto
  have "ob_vintage r = max_vintage p t"
  proof -
    note l = history_last [OF assms False]
    have "rank_key r \<le> rank_key (last (history p t))" using first l(1,2) by blast
    then have "- ob_vintage r \<le> - max_vintage p t" using l(3) l(4) [OF r] by (auto simp: less_eq_prod_def)
    then show ?thesis using max_vintage_ge [OF r(1)] r(2) by simp
  qed
  then have "ob_key r = ob_key (last (history p t))" using r history_last [OF assms False] by (simp add: ob_key_period)
  then have "r = last (history p t)" by (rule key_injective [OF assms r(1) history_last(1) [OF assms False]])
  then show ?thesis using False e by (simp add: current_row_def first_row_def)
qed

lemma newest_is_last:
  assumes "store_ok t"
  shows "newest_available p t = (if history p t = [] then None else Some (ob_available (last (history p t))))"
proof (cases "history p t = []")
  case True
  then show ?thesis by (simp add: history_empty newest_available_def)
next
  case False
  note l = history_last [OF assms False]
  have "Max (set (map ob_available (period_rows p t))) = ob_available (last (history p t))"
    using l(1,2,4) by (intro Max_eqI) (auto simp: period_rows_set)
  then show ?thesis using False by (simp add: newest_available_def history_empty)
qed

lemma insort_snoc: "f x \<le> f r \<Longrightarrow> insort_key f x (zs @ [r]) = insort_key f x zs @ [r]"
  by (induction zs) auto

lemma sort_key_snoc: "\<forall>x \<in> set xs. f x \<le> f r \<Longrightarrow> sort_key f (xs @ [r]) = sort_key f xs @ [r]"
  by (induction xs) (auto simp: insort_snoc)

lemma history_append:
  assumes "store_ok t" and "ob_vintage r = max_vintage (ob_period r) t + 1"
  shows "history p (t @ [r]) = (if ob_period r = p then history p t @ [r] else history p t)"
proof (cases "ob_period r = p")
  case True
  have "\<forall>x \<in> set (period_rows p t). ob_vintage x \<le> ob_vintage r"
    using max_vintage_ge assms(2) True by (fastforce simp: period_rows_set)
  then have "sort_key ob_vintage (period_rows p t @ [r]) = sort_key ob_vintage (period_rows p t) @ [r]"
    by (rule sort_key_snoc)
  then show ?thesis using True by (simp add: history_def period_rows_def)
next
  case False
  then show ?thesis by (simp add: history_def period_rows_def)
qed


text \<open>What a write leaves of every period's history.\<close>

lemma record_history:
  assumes "store_ok t"
  shows "map_res (\<lambda>(report, t'). history (wr_period w) t') (record_observation w now t) =
    history_write w now (history (wr_period w) t)"
proof (cases "check_request w")
  case (Inl e)
  then show ?thesis by (simp add: record_observation_def plan_write_def history_write_def)
next
  case (Inr va)
  obtain v a where va: "va = (v, a)" by (cases va)
  let ?h = "history (wr_period w) t"
  let ?r = "write_row w now v a (int (length ?h) + 1)"
  have len: "int (length ?h) = max_vintage (wr_period w) t" by (rule history_length [OF assms])
  have per: "ob_period ?r = wr_period w" by (simp add: write_row_def ob_period_def wr_period_def)
  have vint: "ob_vintage ?r = max_vintage (ob_period ?r) t + 1" unfolding per by (simp add: write_row_def len)
  have fresh: "ob_key ?r \<notin> ob_key ` set t"
  proof
    assume "ob_key ?r \<in> ob_key ` set t"
    then obtain x where "x \<in> set t" "ob_period x = ob_period ?r" "ob_vintage x = ob_vintage ?r"
      unfolding image_iff ob_key_period by metis
    then show False using max_vintage_ge [of x t] vint by simp
  qed
  have ins: "insert_observation ?r t = (if observation_admitted ?r then Inr (t @ [?r], True) else Inl IntegrityError)"
    using fresh by (simp add: insert_observation_def insert_ignore_def)
  have app: "history (wr_period w) (t @ [?r]) = ?h @ [?r]" using history_append [OF assms vint] per by simp
  show ?thesis
  proof (cases "?h = []")
    case True
    then have "record_observation w now t = map_res (\<lambda>(t', inserted).
        (write_report (if inserted then Inserted else Raced) 1 None, t')) (insert_observation ?r t)"
      by (simp add: record_observation_def plan_write_def Inr va current_is_last [OF assms] newest_is_last [OF assms]
        finish_write_def write_row_def)
    then show ?thesis using app ins True by (simp add: history_write_def Inr va Let_def)
  next
    case False
    then have "record_observation w now t =
       (if restates (last ?h) v (wr_method w) then Inr (write_report Unchanged (ob_vintage (last ?h)) (Some (last ?h)), t)
        else if a < ob_available (last ?h) then Inl ValueError
        else map_res (\<lambda>(t', inserted). (write_report (if inserted then Revised else Raced) (ob_vintage ?r) (Some (last ?h)), t'))
          (insert_observation ?r t))"
      by (simp add: record_observation_def plan_write_def Inr va current_is_last [OF assms] newest_is_last [OF assms]
        finish_write_def len)
    then show ?thesis using app False by (simp add: history_write_def Inr va ins)
  qed
qed

text \<open>What a read finds of a period.\<close>

lemma winner_is_last:
  assumes "store_ok t" and "ob_series r = sid" and "\<And>x. P x \<Longrightarrow> ob_series x = sid"
  shows "winner (filter P t) r \<longleftrightarrow>
    filter P (history (ob_period r) t) \<noteq> [] \<and> r = last (filter P (history (ob_period r) t))"
proof -
  let ?h = "filter P (history (ob_period r) t)"
  have mem: "x \<in> set ?h \<longleftrightarrow> x \<in> set t \<and> P x \<and> ob_start x = ob_start r" for x
    using assms(2,3) by (auto simp: history_set ob_period_def)
  have last: "rank_key (last ?h) \<le> rank_key x" if x: "x \<in> set ?h" for x
  proof -
    have ne: "?h \<noteq> []" using x by (metis empty_iff list.set(1))
    have sorted: "sorted (map ob_vintage ?h)" by (intro sorted_filter) (simp add: history_def)
    have v: "ob_vintage x \<le> ob_vintage (last ?h)"
    proof -
      have "?h = butlast ?h @ [last ?h]" using ne by simp
      then have "sorted (map ob_vintage (butlast ?h @ [last ?h]))" "x \<in> set (butlast ?h @ [last ?h])"
        using sorted x by simp_all
      then show ?thesis by (auto simp: sorted_append)
    qed
    have l: "last ?h \<in> set ?h" using last_in_set [OF ne] .
    show ?thesis
    proof (cases "ob_vintage x = ob_vintage (last ?h)")
      case True
      have "ob_key x = ob_key (last ?h)" using True x l by (simp add: history_set ob_key_period)
      then have "x = last ?h" using x l by (intro key_injective [OF assms(1)]) (simp_all add: history_set)
      then show ?thesis by simp
    next
      case False
      then have "ob_available x \<le> ob_available (last ?h)"
        using x l v assms(1) unfolding store_ok_def by (auto simp: history_set)
      then show ?thesis using v by (auto simp: less_eq_prod_def)
    qed
  qed
  show ?thesis
  proof
    assume w: "winner (filter P t) r"
    then have r: "r \<in> set ?h" unfolding mem by (simp add: winner_def)
    then have ne: "?h \<noteq> []" by (metis empty_iff list.set(1))
    have l: "last ?h \<in> set ?h" by (rule last_in_set [OF ne])
    have "rank_key r \<le> rank_key (last ?h)" using w l unfolding mem winner_def by simp
    then have "rank_key r = rank_key (last ?h)" using last [OF r] by (intro order_antisym)
    then have "ob_key r = ob_key (last ?h)" using r l by (simp add: history_set ob_key_period)
    then have "r = last ?h" using r l by (intro key_injective [OF assms(1)]) (simp_all add: history_set)
    then show "?h \<noteq> [] \<and> r = last ?h" using ne by simp
  next
    assume h: "?h \<noteq> [] \<and> r = last ?h"
    then have r: "r \<in> set ?h" by (metis last_in_set)
    have "rank_key r \<le> rank_key x" if "x \<in> set (filter P t)" "ob_start x = ob_start r" for x
    proof -
      have "x \<in> set ?h" using that unfolding mem by simp
      then show ?thesis using last h by metis
    qed
    moreover have "r \<in> set (filter P t)" using r unfolding mem by simp
    ultimately show "winner (filter P t) r" unfolding winner_def by blast
  qed
qed


text \<open>What a write does to the table: nothing, or one more row, of its own period, vintage and availability.\<close>

lemma record_table:
  assumes "store_ok t" and "record_observation w now t = Inr (report, t')"
  obtains (same) "t' = t"
  | (grown) r where "t' = t @ [r]" "ob_period r = wr_period w" "wr_available w = Some (ob_available r)"
      "ob_vintage r = max_vintage (ob_period r) t + 1" "observation_admitted r"
proof -
  obtain plan where plan: "plan_write w now (current_row (wr_period w) t) t = Inr plan" and
    fin: "finish_write plan t = Inr (report, t')"
    using assms(2) unfolding record_observation_def bind_res_eq_Inr by blast
  show ?thesis
  proof (cases plan)
    case (Done d)
    then show ?thesis using same fin by (simp add: finish_write_def)
  next
    case (Ready status r c)
    have adm: "observation_admitted r" and t': "t' = fst (insert_ignore ob_key r t)"
      using fin unfolding Ready by (auto simp: finish_write_def insert_observation_def map_res_eq_Inr split: if_splits prod.splits)
    obtain v a where chk: "check_request w = Inr (v, a)" using plan by (auto simp: plan_write_def bind_res_eq_Inr)
    then have av: "wr_available w = Some a" by (auto simp: check_request_def map_res_eq_Inr split: option.splits if_splits)
    have "\<exists>n. r = write_row w now v a n"
      using plan chk unfolding Ready by (auto simp: plan_write_def split: option.splits if_splits)
    then have r: "ob_period r = wr_period w" "ob_available r = a"
      by (auto simp: write_row_def ob_period_def wr_period_def)
    show ?thesis
      using insert_cases [OF assms(1) plan_insertable [OF assms(1) plan [unfolded Ready]]]
    proof cases
      case 1
      then show ?thesis using same t' by simp
    next
      case 2
      then show ?thesis using grown [of r] t' r av adm by simp
    qed
  qed
qed

lemma record_keeps_ok:
  assumes "store_ok t" and "record_observation w now t = Inr (report, t')"
  shows "store_ok t'"
proof -
  obtain plan where plan: "plan_write w now (current_row (wr_period w) t) t = Inr plan" and
    fin: "finish_write plan t = Inr (report, t')"
    using assms(2) unfolding record_observation_def bind_res_eq_Inr by blast
  have "passes_ok (t, [Planned plan])" using assms(1) plan_insertable [OF assms(1)] plan by (auto simp: passes_ok_def)
  from finish_passes [OF this _ fin, of "[]"] show ?thesis by (simp add: passes_ok_def)
qed

text \<open>C2: On every table the passes can produce, a write does to the history of its period exactly what
  the abstract store does (append the changed value with the next vintage, leave a restated one, refuse
  one that claims to have been known before the last), with the same errors, and leaves every other
  period's history alone.\<close>

theorem write_refines_history:
  assumes "store_step\<^sup>*\<^sup>* ([], []) (t, ws)"
  shows "map_res (\<lambda>(report, t'). \<lambda>p. history p t') (record_observation w now t) =
    map_res (\<lambda>h. (\<lambda>p. history p t) (wr_period w := h)) (history_write w now (history (wr_period w) t))"
proof (cases "record_observation w now t")
  case (Inl e)
  then show ?thesis using record_history [OF reachable_store [OF assms], of w now]
    by (cases "history_write w now (history (wr_period w) t)") simp_all
next
  case (Inr x)
  obtain report t' where x: "x = (report, t')" by (cases x)
  have own: "history_write w now (history (wr_period w) t) = Inr (history (wr_period w) t')"
    using record_history [OF reachable_store [OF assms], of w now] Inr x by simp
  have other: "history p t' = history p t" if "p \<noteq> wr_period w" for p
    using record_table [OF reachable_store [OF assms] Inr [unfolded x]]
  proof cases
    case 1
    then show ?thesis by simp
  next
    case (2 r)
    then show ?thesis using history_append [OF reachable_store [OF assms] 2(4), of p] that by simp
  qed
  have "(\<lambda>p. history p t') = (\<lambda>p. history p t) (wr_period w := history (wr_period w) t')"
    using other by (auto simp: fun_eq_iff)
  then show ?thesis using Inr x own by simp
qed

lemma pit_winners:
  assumes "store_ok t" and "rows = pit_statement d (filter (knowable sid c a b p) t)"
  shows "sorted (map ob_start rows) \<and> distinct (map ob_start rows) \<and> set rows = {r. winner (filter (knowable sid c a b p) t) r}"
  using assms(2) store_rows_ranked [OF assms(1)] pit_postgresql_winners pit_sqlite_winners
  by (cases d) (simp_all only: pit_statement_def dialect.case)

text \<open>C12: A point-in-time read of a registered series answers, in either dialect, with one row for each
  period that has a row knowable at the cutoff, in the order of the periods; the row is the newest
  vintage in the period's history among those available by the cutoff that are no projection (unless
  projections were asked for).\<close>

theorem read_refines_history:
  assumes "store_step\<^sup>*\<^sup>* ([], []) (t, ws)" and "series_id_for_code series code = Inr sid"
    and "point_in_time d series t code now (Some cutoff) None None projections = Inr rows"
  shows "sorted (map ob_start rows) \<and> distinct (map ob_start rows) \<and>
    set rows = {last h | h start. h = filter (\<lambda>r. ob_available r \<le> cutoff \<and> (projections \<or> \<not> ob_projection r)) (history (sid, start) t) \<and> h \<noteq> []}"
proof -
  let ?P = "knowable sid cutoff None None projections"
  let ?Q = "\<lambda>r. ob_available r \<le> cutoff \<and> (projections \<or> \<not> ob_projection r)"
  note ok = reachable_store [OF assms(1)]
  have "rows = pit_statement d (filter ?P t)" using assms(2,3) by (simp add: point_in_time_def)
  note pit = pit_winners [OF ok this]
  have same: "filter ?P (history (sid, start) t) = filter ?Q (history (sid, start) t)" for start
    by (rule filter_cong) (auto simp: history_set knowable_def ob_period_def)
  have "winner (filter ?P t) r \<longleftrightarrow> (\<exists>h start. r = last h \<and> h = filter ?Q (history (sid, start) t) \<and> h \<noteq> [])" for r
  proof
    assume w: "winner (filter ?P t) r"
    then have "ob_series r = sid" by (simp add: winner_def knowable_def)
    then have "filter ?P (history (ob_period r) t) \<noteq> [] \<and> r = last (filter ?P (history (ob_period r) t))"
      using winner_is_last [OF ok, of r sid ?P] w by (simp add: knowable_def)
    moreover have "ob_period r = (sid, ob_start r)" using \<open>ob_series r = sid\<close> by (simp add: ob_period_def)
    ultimately show "\<exists>h start. r = last h \<and> h = filter ?Q (history (sid, start) t) \<and> h \<noteq> []" using same by metis
  next
    assume "\<exists>h start. r = last h \<and> h = filter ?Q (history (sid, start) t) \<and> h \<noteq> []"
    then obtain start where ne: "filter ?Q (history (sid, start) t) \<noteq> []"
      and r: "r = last (filter ?Q (history (sid, start) t))" by blast
    have "r \<in> set (filter ?Q (history (sid, start) t))" unfolding r by (rule last_in_set [OF ne])
    then have per: "ob_period r = (sid, start)" by (simp add: history_set)
    then have "ob_series r = sid" by (simp add: ob_period_def)
    then show "winner (filter ?P t) r"
      using winner_is_last [OF ok, of r sid ?P] ne r per same by (simp add: knowable_def)
  qed
  then have "{r. winner (filter ?P t) r} = {last h | h start. h = filter ?Q (history (sid, start) t) \<and> h \<noteq> []}"
    by (simp only: set_eq_iff mem_Collect_eq) blast
  then show ?thesis using pit by simp
qed

text \<open>No look-ahead and no rewriting of the past: a write whose value became knowable after a cutoff
  changes no point-in-time answer at that cutoff, in either dialect.\<close>

theorem past_answers_frozen:
  assumes "store_step\<^sup>*\<^sup>* ([], []) (t, ws)" and "record_observation w now t = Inr (report, t')"
    and "wr_available w = Some available" and "cutoff < available"
  shows "point_in_time d series t' code clock (Some cutoff) from_date to_date projections =
    point_in_time d series t code clock (Some cutoff) from_date to_date projections"
  using record_table [OF reachable_store [OF assms(1)] assms(2)]
proof cases
  case 1
  then show ?thesis by simp
next
  case (2 r)
  then have "cutoff < ob_available r" using assms(3,4) by simp
  then have "filter (knowable sid cutoff from_date to_date projections) t' =
      filter (knowable sid cutoff from_date to_date projections) t" for sid
    using 2(1) by (simp add: knowable_def)
  then show ?thesis by (simp add: point_in_time_def)
qed


section \<open>Witnesses and the overlapping passes\<close>

definition base_money :: "quantity \<Rightarrow> int \<Rightarrow> write_request" where
  "base_money v available =
     \<lparr>wr_series = 1, wr_start = 100, wr_end = 130, wr_value = Some v, wr_available = Some available,
      wr_label = ''1404-01'', wr_published = None, wr_nowcast = False, wr_projection = False, wr_document = None,
      wr_collected = None, wr_method = None, wr_approx = False\<rparr>"

definition base_money_row :: "quantity \<Rightarrow> int \<Rightarrow> int \<Rightarrow> observation_row" where
  "base_money_row v available vintage = write_row (base_money v available) 0 v available vintage"

text \<open>The first print.\<close>

definition first_print :: observation_table where "first_print = [base_money_row (DecimalVal 10) 0 1]"

lemma first_print_reached: "store_step\<^sup>*\<^sup>* ([], []) (first_print, [])"
proof -
  let ?w = "base_money (DecimalVal 10) 0"
  have 1: "store_step ([], []) ([], [Looked ?w 0 None])" using store_step.look [of "[]" "[]" ?w 0]
    by (simp add: current_row_def period_rows_def newest_first_def first_row_def)
  have "plan_write ?w 0 None [] = Inr (Ready Inserted (base_money_row (DecimalVal 10) 0 1) None)"
    by (simp add: plan_write_def check_request_def base_money_def stored_value_def newest_available_def period_rows_def base_money_row_def)
  from store_step.plan [OF this, of "[]" "[]"]
  have 2: "store_step ([], [Looked ?w 0 None]) ([], [Planned (Ready Inserted (base_money_row (DecimalVal 10) 0 1) None)])" by simp
  have "finish_write (Ready Inserted (base_money_row (DecimalVal 10) 0 1) None) [] = Inr (write_report Inserted 1 None, first_print)"
    by (simp add: finish_write_def insert_observation_def observation_admitted_def insert_ignore_def first_print_def
      base_money_row_def write_row_def base_money_def)
  from store_step.finish [OF this, of "[]" "[]"]
  have 3: "store_step ([], [Planned (Ready Inserted (base_money_row (DecimalVal 10) 0 1) None)]) (first_print, [])" by simp
  show ?thesis using 1 2 3 by (meson converse_rtranclp_into_rtranclp rtranclp.rtrancl_refl)
qed

text \<open>A pass that restates the value as 12 under the revised method, availability 5, while another does the
  same with availability 7.\<close>

definition restated_money :: "int \<Rightarrow> write_request" where
  "restated_money available = base_money (DecimalVal 12) available\<lparr>wr_method := Some ''revised''\<rparr>"

definition restated_row :: "int \<Rightarrow> int \<Rightarrow> observation_row" where
  "restated_row available vintage = write_row (restated_money available) 0 (DecimalVal 12) available vintage"

definition second_print :: observation_table where
  "second_print = first_print @ [restated_row 5 2]"

definition third_print :: observation_table where
  "third_print = second_print @ [restated_row 7 3]"

lemma revised_plan:
  assumes "t = first_print \<and> n = 2 \<or> t = second_print \<and> n = 3" and "a = 5 \<or> a = 7"
  shows "plan_write (restated_money a) 0 (Some (base_money_row (DecimalVal 10) 0 1)) t =
    Inr (Ready Revised (restated_row a n) (Some (base_money_row (DecimalVal 10) 0 1)))"
proof -
  have "\<not> restates (base_money_row (DecimalVal 10) 0 1) (DecimalVal 12) (Some ''revised'')"
    by (simp add: restates_def base_money_row_def write_row_def base_money_def)
  moreover have "newest_available (1, 100) first_print = Some 0" "newest_available (1, 100) second_print = Some 5"
    "max_vintage (1, 100) first_print = 1" "max_vintage (1, 100) second_print = 2" by code_simp+
  ultimately show ?thesis using assms
    by (auto simp: plan_write_def check_request_def stored_value_def restated_money_def base_money_def wr_period_def restated_row_def)
qed

lemma first_print_current: "current_row (wr_period (restated_money a)) first_print = Some (base_money_row (DecimalVal 10) 0 1)"
proof -
  have "wr_period (restated_money a) = (1, 100)" by (simp add: wr_period_def restated_money_def base_money_def)
  moreover have "current_row (1, 100) first_print = Some (base_money_row (DecimalVal 10) 0 1)" by code_simp
  ultimately show ?thesis by simp
qed

lemma second_print_finished:
  "\<exists>report. finish_write (Ready Revised (restated_row 5 2) (Some (base_money_row (DecimalVal 10) 0 1))) first_print =
    Inr (report, second_print)"
  by (simp add: finish_write_def insert_observation_def observation_admitted_def insert_ignore_def second_print_def first_print_def
    base_money_row_def write_row_def base_money_def restated_row_def restated_money_def ob_key_def)

text \<open>C34: Two overlapping passes with the same changed value can both store it. The pass that read the
  current row before the other's insertion and the largest vintage after it stores the value again as
  a further vintage, so a reader is shown a revision that the source never made; the conflict clause
  drops the second insertion only when both passes read the same largest vintage.\<close>

theorem overlapping_passes_repeat_value:
  "\<exists>t. store_step\<^sup>*\<^sup>* ([], []) (t, []) \<and>
    (\<exists>x \<in> set t. \<exists>r \<in> set t. ob_period x = ob_period r \<and> ob_vintage r = ob_vintage x + 1 \<and> 1 < ob_vintage x \<and>
      ob_value x = ob_value r \<and> restates x (ob_value r) (ob_method r))"
proof -
  let ?c = "Some (base_money_row (DecimalVal 10) 0 1)"
  let ?a = "restated_money 7" and ?b = "restated_money 5"
  let ?pa = "Planned (Ready Revised (restated_row 7 3) ?c)"
  let ?pb = "Planned (Ready Revised (restated_row 5 2) ?c)"
  note cur = first_print_current [of 7] first_print_current [of 5]
  have s1: "store_step (first_print, []) (first_print, [Looked ?a 0 ?c])"
    using store_step.look [of first_print "[]" ?a 0] cur by simp
  have s2: "store_step (first_print, [Looked ?a 0 ?c]) (first_print, [Looked ?a 0 ?c, Looked ?b 0 ?c])"
    using store_step.look [of first_print "[Looked ?a 0 ?c]" ?b 0] cur by simp
  have s3: "store_step (first_print, [Looked ?a 0 ?c, Looked ?b 0 ?c]) (first_print, [Looked ?a 0 ?c, ?pb])"
    using store_step.plan [OF revised_plan [of first_print 2 5], of "[Looked ?a 0 ?c]" "[]"] by simp
  note second_print_finished
  then have s4: "store_step (first_print, [Looked ?a 0 ?c, ?pb]) (second_print, [Looked ?a 0 ?c])"
    using store_step.finish [of _ first_print _ second_print "[Looked ?a 0 ?c]" "[]"] by auto
  have s5: "store_step (second_print, [Looked ?a 0 ?c]) (second_print, [?pa])"
    using store_step.plan [OF revised_plan [of second_print 3 7], of "[]" "[]"] by simp
  have "\<exists>report. finish_write (Ready Revised (restated_row 7 3) ?c) second_print = Inr (report, third_print)"
    by (simp add: finish_write_def insert_observation_def observation_admitted_def insert_ignore_def third_print_def second_print_def
      first_print_def base_money_row_def write_row_def base_money_def restated_row_def restated_money_def ob_key_def)
  then have s6: "store_step (second_print, [?pa]) (third_print, [])"
    using store_step.finish [of _ second_print _ third_print "[]" "[]"] by auto
  have "store_step\<^sup>*\<^sup>* ([], []) (third_print, [])"
    using first_print_reached s1 s2 s3 s4 s5 s6 by (meson rtranclp.rtrancl_into_rtrancl)
  moreover have "\<exists>x \<in> set third_print. \<exists>r \<in> set third_print. ob_period x = ob_period r \<and>
      ob_vintage r = ob_vintage x + 1 \<and> 1 < ob_vintage x \<and> ob_value x = ob_value r \<and> restates x (ob_value r) (ob_method r)"
    by code_simp
  ultimately show ?thesis by blast
qed

theorem store_invariant_witness: "distinct (map ob_key first_print)"
  using store_invariant [OF first_print_reached] by blast

theorem dialects_agree_witness:
  "point_in_time PostgreSQL [\<lparr>sr_id = 1, sr_code = ''B''\<rparr>] first_print ''B'' 9 None None None False =
   point_in_time SQLite [\<lparr>sr_id = 1, sr_code = ''B''\<rparr>] first_print ''B'' 9 None None None False"
  by (rule dialects_agree [OF first_print_reached])

theorem write_refines_history_witness:
  "map_res (\<lambda>(report, t'). \<lambda>p. history p t') (record_observation (restated_money 5) 0 first_print) =
    map_res (\<lambda>h. (\<lambda>p. history p first_print) (wr_period (restated_money 5) := h))
      (history_write (restated_money 5) 0 (history (wr_period (restated_money 5)) first_print))"
  by (rule write_refines_history [OF first_print_reached])

theorem read_refines_history_witness:
  "\<exists>rows. point_in_time SQLite [\<lparr>sr_id = 1, sr_code = ''B''\<rparr>] first_print ''B'' 9 (Some 5) None None False = Inr rows \<and>
    sorted (map ob_start rows)"
proof -
  have sid: "series_id_for_code [\<lparr>sr_id = 1, sr_code = ''B''\<rparr>] ''B'' = Inr 1" by code_simp
  then obtain rows where "point_in_time SQLite [\<lparr>sr_id = 1, sr_code = ''B''\<rparr>] first_print ''B'' 9 (Some 5) None None False = Inr rows"
    by (simp add: point_in_time_def)
  then show ?thesis using read_refines_history [OF first_print_reached sid] by blast
qed

theorem past_answers_frozen_witness:
  "\<exists>t'. t' \<noteq> first_print \<and> point_in_time PostgreSQL [\<lparr>sr_id = 1, sr_code = ''B''\<rparr>] t' ''B'' 9 (Some 4) None None False =
    point_in_time PostgreSQL [\<lparr>sr_id = 1, sr_code = ''B''\<rparr>] first_print ''B'' 9 (Some 4) None None False"
proof -
  obtain report where r: "record_observation (restated_money 5) 0 first_print = Inr (report, second_print)"
    using second_print_finished revised_plan [of first_print 2 5] by (auto simp: record_observation_def first_print_current)
  have a: "wr_available (restated_money 5) = Some 5" by (simp add: restated_money_def base_money_def)
  have "second_print \<noteq> first_print" by (simp add: second_print_def)
  moreover have "point_in_time PostgreSQL [\<lparr>sr_id = 1, sr_code = ''B''\<rparr>] second_print ''B'' 9 (Some 4) None None False =
    point_in_time PostgreSQL [\<lparr>sr_id = 1, sr_code = ''B''\<rparr>] first_print ''B'' 9 (Some 4) None None False"
    by (rule past_answers_frozen [OF first_print_reached r a]) simp
  ultimately show ?thesis by (intro exI conjI)
qed

end
