(* ===== verification/Economic_Catalog.thy ===== *)
theory Economic_Catalog
  imports Tables
begin

text \<open>
  The catalog side of \<^verbatim>\<open>app/economic/store.py\<close>: \<^verbatim>\<open>ensure_series\<close>, which re-asserts a declared series
  (\<^verbatim>\<open>SeriesSpec\<close> of \<^verbatim>\<open>app/economic/catalog.py\<close>) in the tables \<^verbatim>\<open>instruments\<close> and
  \<^verbatim>\<open>economic_series\<close>, and \<^verbatim>\<open>record_source_document\<close>. The columns the catalog manages are a record
  of their own in each row; a new id, which the database draws, is an argument. Foreign keys are not
  modelled.
\<close>

section \<open>Upserts\<close>

text \<open>\<^verbatim>\<open>ON CONFLICT (code) DO UPDATE SET managed = excluded, updated_at = now WHERE managed differs\<close>.\<close>

definition upsert_managed ::
  "('r \<Rightarrow> string) \<Rightarrow> ('r \<Rightarrow> 'm) \<Rightarrow> ('m \<Rightarrow> 'r \<Rightarrow> 'r) \<Rightarrow> 'r \<Rightarrow> 'r list \<Rightarrow> 'r list" where
  "upsert_managed code managed set_managed new t =
     (if code new \<in> code ` set t
      then map (\<lambda>r. if code r = code new \<and> managed r \<noteq> managed new then set_managed (managed new) r else r) t
      else t @ [new])"

section \<open>Rows\<close>

text \<open>A Persian name is the list of its code points.\<close>

record series_spec =
  sp_code :: string
  sp_kind :: string
  sp_name_en :: string
  sp_name_fa :: "int list"
  sp_domain :: string
  sp_provider_code :: string
  sp_provider_series_id :: string
  sp_country :: string
  sp_indicator :: string
  sp_frequency :: string
  sp_calendar :: string
  sp_measure :: string
  sp_seasonal_adjustment :: string
  sp_base_period :: string
  sp_quality_tier :: string
  sp_quote_currency :: string
  sp_unit :: string
  sp_decimals :: int
  sp_revisable :: bool
  sp_splice_policy :: string
  sp_notes :: string
  sp_publication_lag_days :: "int option"
  sp_enabled :: bool
  sp_calendar_class :: string

record instrument_managed =
  im_kind :: string
  im_name_en :: string
  im_name_fa :: "int list"
  im_domain :: string
  im_quote_currency :: string
  im_unit :: string
  im_decimals :: int
  im_calendar_class :: string
  im_quality_tier :: string
  im_notes :: string

record instrument_row =
  in_code :: string
  in_managed :: instrument_managed
  in_is_proxy :: bool
  in_is_derived :: bool
  in_enabled :: bool
  in_created :: int
  in_updated :: int
  in_derived_from :: "string option"

record series_managed =
  sm_frequency :: string
  sm_calendar :: string
  sm_measure :: string
  sm_seasonal_adjustment :: string
  sm_base_period :: string
  sm_provider_code :: string
  sm_provider_series_id :: string
  sm_publication_lag_days :: "int option"
  sm_revisable :: bool
  sm_splice_policy :: string

record catalog_row =
  es_id :: int
  es_code :: string
  es_managed :: series_managed
  es_enabled :: bool
  es_created :: int
  es_updated :: int

definition KIND_ECONOMIC_SERIES :: string where "KIND_ECONOMIC_SERIES = ''economic_series''"

text \<open>The check constraints of the two tables.\<close>

definition instrument_admitted :: "instrument_row \<Rightarrow> bool" where
  "instrument_admitted r \<longleftrightarrow>
     (case in_derived_from r of None \<Rightarrow> True | Some c \<Rightarrow> c \<noteq> in_code r) \<and>
     im_kind (in_managed r) \<in> {''market_price'', ''economic_series'', ''equity'', ''index'', ''basket'', ''fx''} \<and>
     im_calendar_class (in_managed r) \<in> {''always_open'', ''tehran_bazaar'', ''tse_session'', ''global'', ''none''} \<and>
     im_quality_tier (in_managed r) \<in> {''official'', ''official_mirror'', ''commercial'', ''proxy'', ''estimate'', ''experimental''}"

definition catalog_row_admitted :: "catalog_row \<Rightarrow> bool" where
  "catalog_row_admitted r \<longleftrightarrow>
     sm_frequency (es_managed r) \<in> {''D'', ''W'', ''M'', ''Q'', ''A''} \<and>
     sm_calendar (es_managed r) \<in> {''gregorian'', ''jalali''} \<and>
     sm_measure (es_managed r) \<in> {''index'', ''level'', ''yoy_pct'', ''mom_pct'', ''ratio'', ''rate''} \<and>
     sm_seasonal_adjustment (es_managed r) \<in> {''nsa'', ''sa'', ''unknown''} \<and>
     sm_splice_policy (es_managed r) \<in> {''none'', ''chain_growth''}"

definition instrument_values :: "series_spec \<Rightarrow> int \<Rightarrow> instrument_row" where
  "instrument_values e now =
     \<lparr>in_code = sp_code e,
      in_managed = \<lparr>im_kind = sp_kind e, im_name_en = sp_name_en e, im_name_fa = sp_name_fa e, im_domain = sp_domain e,
        im_quote_currency = sp_quote_currency e, im_unit = sp_unit e, im_decimals = sp_decimals e,
        im_calendar_class = sp_calendar_class e, im_quality_tier = sp_quality_tier e, im_notes = sp_notes e\<rparr>,
      in_is_proxy = False, in_is_derived = False, in_enabled = sp_enabled e, in_created = now, in_updated = now,
      in_derived_from = None\<rparr>"

definition series_values :: "series_spec \<Rightarrow> int \<Rightarrow> int \<Rightarrow> catalog_row" where
  "series_values e new_id now =
     \<lparr>es_id = new_id, es_code = sp_code e,
      es_managed = \<lparr>sm_frequency = sp_frequency e, sm_calendar = sp_calendar e, sm_measure = sp_measure e,
        sm_seasonal_adjustment = sp_seasonal_adjustment e, sm_base_period = sp_base_period e,
        sm_provider_code = sp_provider_code e, sm_provider_series_id = sp_provider_series_id e,
        sm_publication_lag_days = sp_publication_lag_days e, sm_revisable = sp_revisable e,
        sm_splice_policy = sp_splice_policy e\<rparr>,
      es_enabled = sp_enabled e, es_created = now, es_updated = now\<rparr>"

section \<open>\<^verbatim>\<open>ensure_series\<close>\<close>

text \<open>The refusal of the function, a violated constraint, and \<^verbatim>\<open>scalar_one\<close> on other than one row.\<close>

datatype catalog_error = RefusedKind | ConstraintViolated | NotOneRow

type_synonym catalog_tables = "instrument_row list \<times> catalog_row list"

definition set_instrument :: "int \<Rightarrow> instrument_managed \<Rightarrow> instrument_row \<Rightarrow> instrument_row" where
  "set_instrument now m r = r\<lparr>in_managed := m, in_updated := now\<rparr>"

definition set_catalog :: "int \<Rightarrow> series_managed \<Rightarrow> catalog_row \<Rightarrow> catalog_row" where
  "set_catalog now m r = r\<lparr>es_managed := m, es_updated := now\<rparr>"

text \<open>The kind under which an instrument of this code exists.\<close>

definition existing_kind :: "string \<Rightarrow> instrument_row list \<Rightarrow> string option" where
  "existing_kind code t = (case filter (\<lambda>r. in_code r = code) t of [] \<Rightarrow> None | r # _ \<Rightarrow> Some (im_kind (in_managed r)))"

definition ensure_series :: "series_spec \<Rightarrow> int \<Rightarrow> int \<Rightarrow> catalog_tables \<Rightarrow> catalog_error + (int \<times> catalog_tables)" where
  "ensure_series e now new_id db =
     (let instruments = fst db; series = snd db; i = instrument_values e now; s = series_values e new_id now in
      if existing_kind (sp_code e) instruments \<notin> {None, Some KIND_ECONOMIC_SERIES} then Inl RefusedKind
      else if \<not> instrument_admitted i \<or> \<not> catalog_row_admitted s then Inl ConstraintViolated
      else let instruments' = upsert_managed in_code in_managed (set_instrument now) i instruments;
               series' = upsert_managed es_code es_managed (set_catalog now) s series in
        (case filter (\<lambda>r. es_code r = sp_code e) series' of
           [r] \<Rightarrow> Inr (es_id r, instruments', series')
         | _ \<Rightarrow> Inl NotOneRow))"

section \<open>\<^verbatim>\<open>record_source_document\<close>\<close>

record document_row =
  dc_id :: int
  dc_provider :: string
  dc_url :: string
  dc_title :: string
  dc_media_type :: string
  dc_byte_size :: int
  dc_sha256 :: string
  dc_storage_path :: string
  dc_fetched :: int
  dc_edition :: string
  dc_saved :: "int option"

definition document_key :: "document_row \<Rightarrow> string \<times> string" where
  "document_key d = (dc_provider d, dc_sha256 d)"

definition record_source_document ::
  "document_row \<Rightarrow> document_row list \<Rightarrow> catalog_error + (int \<times> bool \<times> document_row list)" where
  "record_source_document d t =
     (let (t', inserted) = insert_ignore document_key (d\<lparr>dc_storage_path := []\<rparr>) t in
      case filter (\<lambda>x. document_key x = document_key d) t' of
        [x] \<Rightarrow> Inr (dc_id x, inserted, t')
      | _ \<Rightarrow> Inl NotOneRow)"

section \<open>Theorems\<close>

lemma filter_none: "k \<notin> f ` set t \<Longrightarrow> filter (\<lambda>x. f x = k) t = []"
  by (induction t) auto

lemma upsert_twice:
  assumes "managed new = managed new'" and "code new = code new'"
    and "\<And>m r. code (set_m m r) = code r" and "\<And>m r. managed (set_m m r) = m"
  shows "upsert_managed code managed set_m' new' (upsert_managed code managed set_m new t) = upsert_managed code managed set_m new t"
proof -
  let ?t = "upsert_managed code managed set_m new t"
  have "map code ?t = (if code new \<in> code ` set t then map code t else map code t @ [code new])"
    using assms(3) by (simp add: upsert_managed_def)
  then have "code new \<in> set (map code ?t)" by (simp del: map_map)
  then have mem: "code new' \<in> code ` set ?t" using assms(2) by simp
  have all: "managed r = managed new'" if "r \<in> set ?t" "code r = code new'" for r
  proof (cases "code new \<in> code ` set t")
    case True
    then show ?thesis using that assms by (auto simp: upsert_managed_def split: if_splits)
  next
    case False
    then have "r \<in> set t \<or> r = new" using that(1) by (auto simp: upsert_managed_def)
    then show ?thesis using False that(2) assms(1,2) by (metis imageI)
  qed
  have "map (\<lambda>r. if code r = code new' \<and> managed r \<noteq> managed new' then set_m' (managed new') r else r) ?t = ?t"
    using all by (intro map_idI) auto
  then show ?thesis using mem by (subst upsert_managed_def) simp
qed

lemma upsert_others:
  assumes "\<And>m r. code (set_m m r) = code r"
  shows "filter (\<lambda>r. code r \<noteq> code new) (upsert_managed code managed set_m new t) = filter (\<lambda>r. code r \<noteq> code new) t"
proof -
  have "filter (\<lambda>r. code r \<noteq> code new)
      (map (\<lambda>r. if code r = code new \<and> managed r \<noteq> managed new then set_m (managed new) r else r) t) =
    filter (\<lambda>r. code r \<noteq> code new) t"
    using assms by (induction t) auto
  then show ?thesis by (simp add: upsert_managed_def)
qed

lemma upsert_keeps:
  assumes "r \<in> set t" and "\<And>m r. code (set_m m r) = code r" and "\<And>m r. f (set_m m r) = f r"
  shows "\<exists>x \<in> set (upsert_managed code managed set_m new t). code x = code r \<and> f x = f r"
proof (cases "code new \<in> code ` set t")
  case True
  let ?f = "\<lambda>r. if code r = code new \<and> managed r \<noteq> managed new then set_m (managed new) r else r"
  have "?f r \<in> set (upsert_managed code managed set_m new t)" using True assms(1) by (simp add: upsert_managed_def)
  then show ?thesis using assms(2,3) by (intro bexI [of _ "?f r"]) simp_all
next
  case False
  then show ?thesis using assms(1) by (auto simp: upsert_managed_def)
qed

lemma existing_kind_upsert:
  assumes "im_kind (in_managed i) = k" and "existing_kind (in_code i) t \<in> {None, Some k}"
  shows "existing_kind (in_code i) (upsert_managed in_code in_managed (set_instrument now) i t) = Some k"
proof (cases "in_code i \<in> in_code ` set t")
  case True
  then have "filter (\<lambda>r. in_code r = in_code i) t \<noteq> []" by (auto simp: filter_empty_conv)
  then obtain r rs where f: "filter (\<lambda>r. in_code r = in_code i) t = r # rs" by (cases "filter (\<lambda>r. in_code r = in_code i) t") auto
  let ?f = "\<lambda>r. if in_code r = in_code i \<and> in_managed r \<noteq> in_managed i then set_instrument now (in_managed i) r else r"
  have m: "filter (\<lambda>r. in_code r = in_code i) (map ?f t) = map ?f (filter (\<lambda>r. in_code r = in_code i) t)"
    by (induction t) (auto simp: set_instrument_def)
  have "im_kind (in_managed r) = k" using assms(2) f by (simp add: existing_kind_def)
  then have "im_kind (in_managed (?f r)) = k" using assms(1) by (simp add: set_instrument_def)
  then show ?thesis using True m f by (simp add: existing_kind_def upsert_managed_def)
next
  case False
  then have "filter (\<lambda>r. in_code r = in_code i) t = []" by (rule filter_none)
  then show ?thesis using False assms(1) by (simp add: existing_kind_def upsert_managed_def)
qed

text \<open>An ensured series: what the call checked and wrote.\<close>

lemma ensure_series_ok:
  assumes "ensure_series e now new_id (instruments, series) = Inr (sid, instruments', series')"
  shows "existing_kind (sp_code e) instruments \<in> {None, Some KIND_ECONOMIC_SERIES}"
    and "instrument_admitted (instrument_values e now)" and "catalog_row_admitted (series_values e new_id now)"
    and "instruments' = upsert_managed in_code in_managed (set_instrument now) (instrument_values e now) instruments"
    and "series' = upsert_managed es_code es_managed (set_catalog now) (series_values e new_id now) series"
    and "\<exists>r. filter (\<lambda>r. es_code r = sp_code e) series' = [r] \<and> es_id r = sid"
  using assms by (auto simp: ensure_series_def Let_def split: if_splits list.splits)

text \<open>A declared series is re-asserted idempotently: the same entry ensured again, at any later time and
  whatever id the database would draw, answers the same id and changes nothing, the stamps of the last
  update included.\<close>

theorem ensure_series_idempotent:
  assumes "ensure_series e now new_id (instruments, series) = Inr (sid, instruments', series')"
    and "sp_kind e = KIND_ECONOMIC_SERIES"
  shows "ensure_series e later other_id (instruments', series') = Inr (sid, instruments', series')"
proof -
  note ok = ensure_series_ok [OF assms(1)]
  have "existing_kind (sp_code e) instruments' = Some KIND_ECONOMIC_SERIES"
    using existing_kind_upsert [of "instrument_values e now" KIND_ECONOMIC_SERIES instruments now] ok(1,4) assms(2)
    by (simp add: instrument_values_def)
  moreover have "instrument_admitted (instrument_values e later)" "catalog_row_admitted (series_values e other_id later)"
    using ok(2,3) by (simp_all add: instrument_admitted_def catalog_row_admitted_def instrument_values_def series_values_def)
  moreover have "upsert_managed in_code in_managed (set_instrument later) (instrument_values e later) instruments' = instruments'"
    unfolding ok(4) by (rule upsert_twice) (simp_all add: instrument_values_def set_instrument_def)
  moreover have "upsert_managed es_code es_managed (set_catalog later) (series_values e other_id later) series' = series'"
    unfolding ok(5) by (rule upsert_twice) (simp_all add: series_values_def set_catalog_def)
  ultimately show ?thesis using ok(6) by (auto simp: ensure_series_def Let_def)
qed

text \<open>An ingest neither switches a series on or off nor touches another one, and it does not redefine an
  instrument of another kind: after \<open>ensure_series\<close> every instrument and series that was there has the
  same \<open>enabled\<close> flag, a series keeps its id, the rows of other codes are the same, and an existing
  instrument of the code was an economic series already.\<close>

theorem ensure_series_frame:
  assumes "ensure_series e now new_id (instruments, series) = Inr (sid, instruments', series')"
  shows "filter (\<lambda>r. in_code r \<noteq> sp_code e) instruments' = filter (\<lambda>r. in_code r \<noteq> sp_code e) instruments \<and>
    filter (\<lambda>r. es_code r \<noteq> sp_code e) series' = filter (\<lambda>r. es_code r \<noteq> sp_code e) series \<and>
    (\<forall>r \<in> set instruments. \<exists>x \<in> set instruments'. in_code x = in_code r \<and> in_enabled x = in_enabled r) \<and>
    (\<forall>r \<in> set series. \<exists>x \<in> set series'. es_code x = es_code r \<and> es_id x = es_id r \<and> es_enabled x = es_enabled r) \<and>
    existing_kind (sp_code e) instruments \<in> {None, Some KIND_ECONOMIC_SERIES}"
proof (intro conjI ballI)
  note ok = ensure_series_ok [OF assms]
  have codes: "in_code (instrument_values e now) = sp_code e" "es_code (series_values e new_id now) = sp_code e"
    by (simp_all add: instrument_values_def series_values_def)
  show "filter (\<lambda>r. in_code r \<noteq> sp_code e) instruments' = filter (\<lambda>r. in_code r \<noteq> sp_code e) instruments"
    unfolding ok(4) codes(1) [symmetric] by (rule upsert_others) (simp add: set_instrument_def)
  show "filter (\<lambda>r. es_code r \<noteq> sp_code e) series' = filter (\<lambda>r. es_code r \<noteq> sp_code e) series"
    unfolding ok(5) codes(2) [symmetric] by (rule upsert_others) (simp add: set_catalog_def)
  show "\<exists>x \<in> set instruments'. in_code x = in_code r \<and> in_enabled x = in_enabled r" if "r \<in> set instruments" for r
    unfolding ok(4) using that by (rule upsert_keeps) (simp_all add: set_instrument_def)
  show "\<exists>x \<in> set series'. es_code x = es_code r \<and> es_id x = es_id r \<and> es_enabled x = es_enabled r" if "r \<in> set series" for r
    using upsert_keeps [OF that, of es_code "set_catalog now" "\<lambda>r. (es_id r, es_enabled r)" es_managed "series_values e new_id now"]
    unfolding ok(5) by (simp add: set_catalog_def)
  show "existing_kind (sp_code e) instruments \<in> {None, Some KIND_ECONOMIC_SERIES}" by (rule ok(1))
qed

text \<open>The same bytes of the same provider are archived once: on a table with unique keys the call
  answers with the id of the one row of that provider and digest, a new row appears exactly when there
  was none, and rows that exist (the first fetch stamp among them) are never changed.\<close>

theorem source_document_once:
  assumes "distinct (map document_key t)"
  shows "\<exists>i inserted t'. record_source_document d t = Inr (i, inserted, t') \<and> distinct (map document_key t') \<and>
    (inserted \<longleftrightarrow> document_key d \<notin> document_key ` set t) \<and> (\<exists>new. t' = t @ new) \<and>
    (\<exists>x \<in> set t'. document_key x = document_key d \<and> dc_id x = i)"
proof -
  have key: "document_key (d\<lparr>dc_storage_path := []\<rparr>) = document_key d" by (simp add: document_key_def)
  show ?thesis
  proof (cases "document_key d \<in> document_key ` set t")
    case True
    then obtain x where x: "x \<in> set t" "document_key x = document_key d" by (metis imageE)
    have "filter (\<lambda>y. document_key y = document_key d) t = [x]"
    proof -
      obtain a b where t: "t = a @ x # b" using split_list [OF x(1)] by blast
      have "document_key d \<notin> document_key ` set a" "document_key d \<notin> document_key ` set b" using assms x(2) unfolding t by auto
      then show ?thesis unfolding t using x(2) filter_none [of "document_key d" document_key] by simp
    qed
    then have "record_source_document d t = Inr (dc_id x, False, t)"
      using True key by (simp add: record_source_document_def insert_ignore_def)
    then show ?thesis using True x assms by (intro exI [of _ "dc_id x"] exI [of _ False] exI [of _ t]) auto
  next
    case False
    then have "filter (\<lambda>y. document_key y = document_key d) t = []" by (rule filter_none)
    then have "record_source_document d t = Inr (dc_id d, True, t @ [d\<lparr>dc_storage_path := []\<rparr>])"
      using False key by (simp add: record_source_document_def insert_ignore_def)
    moreover have "distinct (map document_key (t @ [d\<lparr>dc_storage_path := []\<rparr>]))" using False assms key by simp
    ultimately show ?thesis using False key
      by (intro exI [of _ "dc_id d"] exI [of _ True] exI [of _ "t @ [d\<lparr>dc_storage_path := []\<rparr>]"]) simp
  qed
qed

definition cpi_spec :: series_spec where
  "cpi_spec = \<lparr>sp_code = ''IR_CPI'', sp_kind = ''economic_series'', sp_name_en = ''Iran CPI'', sp_name_fa = [], sp_domain = ''macro'',
     sp_provider_code = ''worldbank'', sp_provider_series_id = ''IRN'', sp_country = ''IRN'', sp_indicator = ''FP.CPI.TOTL'',
     sp_frequency = ''A'', sp_calendar = ''gregorian'', sp_measure = ''index'', sp_seasonal_adjustment = ''unknown'',
     sp_base_period = ''2010=100'', sp_quality_tier = ''official_mirror'', sp_quote_currency = ''INDEX'', sp_unit = ''index'',
     sp_decimals = 2, sp_revisable = True, sp_splice_policy = ''none'', sp_notes = [], sp_publication_lag_days = None,
     sp_enabled = True, sp_calendar_class = ''none''\<rparr>"

lemma cpi_ensured:
  "ensure_series cpi_spec 5 7 ([], []) = Inr (7, [instrument_values cpi_spec 5], [series_values cpi_spec 7 5])"
proof -
  have "instrument_admitted (instrument_values cpi_spec 5)" "catalog_row_admitted (series_values cpi_spec 7 5)" by code_simp+
  then show ?thesis by (simp add: ensure_series_def existing_kind_def upsert_managed_def) (simp add: series_values_def)
qed

theorem ensure_series_idempotent_witness:
  "ensure_series cpi_spec 9 8 ([instrument_values cpi_spec 5], [series_values cpi_spec 7 5]) =
    Inr (7, [instrument_values cpi_spec 5], [series_values cpi_spec 7 5])"
  by (rule ensure_series_idempotent [OF cpi_ensured]) (simp add: cpi_spec_def KIND_ECONOMIC_SERIES_def)

theorem ensure_series_frame_witness:
  "existing_kind (sp_code cpi_spec) [] \<in> {None, Some KIND_ECONOMIC_SERIES}"
  using ensure_series_frame [OF cpi_ensured] by blast

theorem source_document_once_witness:
  "\<exists>i inserted t'. record_source_document \<lparr>dc_id = 1, dc_provider = ''cbi'', dc_url = [], dc_title = [], dc_media_type = [],
    dc_byte_size = 3, dc_sha256 = ''ab'', dc_storage_path = [], dc_fetched = 1, dc_edition = [], dc_saved = None\<rparr> [] = Inr (i, inserted, t')"
proof -
  have "distinct (map document_key [])" by simp
  from source_document_once [OF this] show ?thesis by blast
qed

end
