(* ===== verification/Economic_Job.thy ===== *)
theory Economic_Job
  imports Economic_Catalog Economic_Store_Props Registry PyJson
begin

text \<open>
  \<^verbatim>\<open>app/jobs/economic.py\<close>: the scheduled pass over the economic catalog. Each selected series is fetched,
  then written in a transaction of its own; a failure costs that series only; the health of a provider
  is recorded once, at the end; a pass in which every attempted series failed is a failed job. The
  declared catalog is an argument. Outside, the record \<open>source_world\<close>: the adapter's answer, the id the
  database draws for a new series, the text of an exception. The clock moves during fetches only. Logging
  and metrics are left out.

  Shown: the report accounts for every selected series and every stored row; what one series does, the
  other ones do not see; a second pass over unchanged sources is silent; each attempted provider gets one
  verdict.
\<close>

section \<open>Data\<close>

record series_point =
  pt_start :: int
  pt_end :: int
  pt_label :: string
  pt_value :: pyfloat
  pt_projection :: bool
  pt_nowcast :: bool
  pt_published :: "int option"

record series_fetch =
  sf_points :: "series_point list"
  sf_skipped_null :: int
  sf_meta :: json

text \<open>What makes one series fail; an exception of the adapter has its class and its text.\<close>

datatype ingest_error =
    NoProvider string
  | NotASeriesProvider string provider_class
  | FetchRaised string string
  | CatalogRaised catalog_error
  | StoreRaised py_error

record source_world =
  ew_fetch :: "provider_class \<Rightarrow> series_spec \<Rightarrow> int \<Rightarrow> (ingest_error + series_fetch) \<times> int"
  ew_new_id :: "int \<Rightarrow> catalog_row list \<Rightarrow> int"
  ew_text :: "ingest_error \<Rightarrow> string"
  ew_decimal :: "int \<Rightarrow> string"

record economic_db =
  ed_catalog :: catalog_tables
  ed_observations :: observation_table
  ed_providers :: "provider_row list"
  ed_clock :: int

record ingest_counts =
  ic_inserted :: int
  ic_unchanged :: int
  ic_revised :: int
  ic_raced :: int
  ic_skipped_null :: int
  ic_projections :: int
  ic_fetched :: int

definition empty_counts :: ingest_counts where
  "empty_counts = \<lparr>ic_inserted = 0, ic_unchanged = 0, ic_revised = 0, ic_raced = 0, ic_skipped_null = 0,
     ic_projections = 0, ic_fetched = 0\<rparr>"

text \<open>A series' entry in the report; the first three carry \<open>empty_counts\<close>.\<close>

datatype series_report =
    Disabled
  | DocumentIngest string
  | SeriesFailed ingest_error
  | SeriesIngested ingest_counts int int json

section \<open>The selection\<close>

definition DOCUMENT_INGEST_PROVIDERS :: "string set" where
  "DOCUMENT_INGEST_PROVIDERS = {''sci'', ''cbi''}"

definition by_code :: "series_spec list \<Rightarrow> string \<Rightarrow> series_spec option" where
  "by_code catalog c = find (\<lambda>s. sp_code s = c) (rev catalog)"

text \<open>The named entries, each once, in the order of the first mention.\<close>

fun named_specs :: "series_spec list \<Rightarrow> string list \<Rightarrow> string list \<Rightarrow> series_spec list" where
  "named_specs catalog seen [] = []"
| "named_specs catalog seen (c # cs) =
     (if c \<in> set seen then named_specs catalog seen cs
      else case by_code catalog c of
        None \<Rightarrow> named_specs catalog (c # seen) cs
      | Some s \<Rightarrow> s # named_specs catalog (c # seen) cs)"

definition enabled_specs :: "series_spec list \<Rightarrow> string list \<Rightarrow> string list + series_spec list" where
  "enabled_specs catalog codes =
     (if codes = [] then Inr (filter sp_enabled catalog)
      else let unknown = filter (\<lambda>c. by_code catalog c = None) codes in
        if unknown \<noteq> [] then Inl (sort unknown) else Inr (named_specs catalog [] codes))"

section \<open>One series\<close>

definition serves_series :: "provider_class \<Rightarrow> bool" where
  "serves_series p \<longleftrightarrow> p \<in> {WorldBankProvider, IMFWeoProvider}"

definition point_request :: "int \<Rightarrow> int \<Rightarrow> series_point \<Rightarrow> write_request" where
  "point_request sid available p =
     \<lparr>wr_series = sid, wr_start = pt_start p, wr_end = pt_end p, wr_value = Some (FloatVal (pt_value p)),
      wr_available = Some available, wr_label = pt_label p, wr_published = pt_published p,
      wr_nowcast = pt_nowcast p, wr_projection = pt_projection p, wr_document = None,
      wr_collected = Some available, wr_method = None, wr_approx = False\<rparr>"

definition count_write :: "write_status \<Rightarrow> ingest_counts \<Rightarrow> ingest_counts" where
  "count_write s c =
     (case s of
        Inserted \<Rightarrow> c\<lparr>ic_inserted := ic_inserted c + 1\<rparr>
      | Revised \<Rightarrow> c\<lparr>ic_revised := ic_revised c + 1\<rparr>
      | Unchanged \<Rightarrow> c\<lparr>ic_unchanged := ic_unchanged c + 1\<rparr>
      | Raced \<Rightarrow> c\<lparr>ic_raced := ic_raced c + 1\<rparr>)"

fun write_points :: "int \<Rightarrow> int \<Rightarrow> series_point list \<Rightarrow> ingest_counts \<times> observation_table \<Rightarrow> (ingest_counts \<times> observation_table) res" where
  "write_points sid available [] s = Inr s"
| "write_points sid available (p # ps) (c, t) =
     bind_res (record_observation (point_request sid available p) available t) (\<lambda>(written, t').
       write_points sid available ps (count_write (ow_status written) c, t'))"

definition fetch_counts :: "series_fetch \<Rightarrow> ingest_counts" where
  "fetch_counts f = empty_counts\<lparr>ic_fetched := int (length (sf_points f)), ic_skipped_null := sf_skipped_null f,
     ic_projections := int (length (filter pt_projection (sf_points f)))\<rparr>"

text \<open>The transaction: all of the series' rows, or none of them.\<close>

definition write_series ::
  "source_world \<Rightarrow> series_spec \<Rightarrow> int \<Rightarrow> series_fetch \<Rightarrow> catalog_tables \<times> observation_table \<Rightarrow>
    ingest_error + (ingest_counts \<times> int \<times> catalog_tables \<times> observation_table)" where
  "write_series w spec available f s =
     (case ensure_series spec available (ew_new_id w available (snd (fst s))) (fst s) of
        Inl e \<Rightarrow> Inl (CatalogRaised e)
      | Inr (sid, catalog) \<Rightarrow>
          (case write_points sid available (sf_points f) (fetch_counts f, snd s) of
             Inl e \<Rightarrow> Inl (StoreRaised e)
           | Inr (counts, obs) \<Rightarrow> Inr (counts, sid, catalog, obs)))"

definition ingest_one :: "source_world \<Rightarrow> provider_settings \<Rightarrow> series_spec \<Rightarrow> economic_db \<Rightarrow> series_report \<times> economic_db" where
  "ingest_one w cfg spec db =
     (case build_provider (sp_provider_code spec) cfg of
        None \<Rightarrow> (SeriesFailed (NoProvider (sp_provider_code spec)), db)
      | Some p \<Rightarrow>
          if \<not> serves_series p then (SeriesFailed (NotASeriesProvider (sp_provider_code spec) p), db)
          else (case ew_fetch w p spec (ed_clock db) of
             (Inl e, clock) \<Rightarrow> (SeriesFailed e, db\<lparr>ed_clock := clock\<rparr>)
           | (Inr f, clock) \<Rightarrow>
               (case write_series w spec clock f (ed_catalog db, ed_observations db) of
                  Inl e \<Rightarrow> (SeriesFailed e, db\<lparr>ed_clock := clock\<rparr>)
                | Inr (counts, sid, catalog, obs) \<Rightarrow>
                    (SeriesIngested counts sid clock (sf_meta f),
                     db\<lparr>ed_catalog := catalog, ed_observations := obs, ed_clock := clock\<rparr>))))"

section \<open>The pass\<close>

record economic_pass =
  ep_db :: economic_db
  ep_series :: "(string \<times> series_report) list"
  ep_errors :: "(string \<times> ingest_error) list"
  ep_ingested :: int
  ep_failed :: int
  ep_attempted :: "(string \<times> int) list"
  ep_failures :: "(string \<times> (string \<times> ingest_error) list) list"

definition fail_spec :: "series_spec \<Rightarrow> ingest_error \<Rightarrow> economic_pass \<Rightarrow> economic_pass" where
  "fail_spec spec e s = s\<lparr>
     ep_failures := dict_set (sp_provider_code spec)
       (dict_get [] (ep_failures s) (sp_provider_code spec) @ [(sp_code spec, e)]) (ep_failures s),
     ep_series := dict_set (sp_code spec) (SeriesFailed e) (ep_series s),
     ep_errors := ep_errors s @ [(sp_code spec, e)], ep_failed := ep_failed s + 1\<rparr>"

definition count_attempt :: "series_spec \<Rightarrow> economic_pass \<Rightarrow> economic_pass" where
  "count_attempt spec s = s\<lparr>ep_attempted := dict_set (sp_provider_code spec)
     (dict_get 0 (ep_attempted s) (sp_provider_code spec) + 1) (ep_attempted s)\<rparr>"

definition ingest_spec :: "source_world \<Rightarrow> provider_settings \<Rightarrow> series_spec \<Rightarrow> economic_pass \<Rightarrow> economic_pass" where
  "ingest_spec w cfg spec s =
     (if \<not> sp_enabled spec then s\<lparr>ep_series := dict_set (sp_code spec) Disabled (ep_series s)\<rparr>
      else if sp_provider_code spec \<in> DOCUMENT_INGEST_PROVIDERS
      then s\<lparr>ep_series := dict_set (sp_code spec) (DocumentIngest (sp_provider_code spec)) (ep_series s)\<rparr>
      else let s = count_attempt spec s in
        case ingest_one w cfg spec (ep_db s) of (report, db) \<Rightarrow>
          let s = s\<lparr>ep_db := db\<rparr> in
          (case report of
             SeriesFailed e \<Rightarrow> fail_spec spec e s
           | _ \<Rightarrow> s\<lparr>ep_series := dict_set (sp_code spec) report (ep_series s), ep_ingested := ep_ingested s + 1\<rparr>))"

text \<open>The health of the providers, one verdict each: attempted, failed.\<close>

definition failure_text :: "source_world \<Rightarrow> int \<Rightarrow> (string \<times> ingest_error) list \<Rightarrow> string" where
  "failure_text w tried failed =
     ew_decimal w (int (length failed)) @ '' of '' @ ew_decimal w tried @ '' series failed: '' @
     concat (map (\<lambda>(i, c, e). (if i = 0 then [] else ''; '') @ c @ '': '' @ ew_text w e) (enumerate 0 failed))"

definition record_health ::
  "source_world \<Rightarrow> (string \<times> int) list \<Rightarrow> (string \<times> (string \<times> ingest_error) list) list \<Rightarrow> int \<Rightarrow> provider_row list \<Rightarrow>
    provider_row list" where
  "record_health w attempted failures clock table =
     foldl (\<lambda>t (c, tried). case dict_get [] failures c of
         [] \<Rightarrow> record_success clock c t
       | failed \<Rightarrow> record_failure clock c (failure_text w tried failed) t) table attempted"

record economic_result =
  er_series :: "(string \<times> series_report) list"
  er_errors :: "(string \<times> ingest_error) list"
  er_ingested :: int
  er_failed :: int
  er_providers :: "(string \<times> int \<times> int) list"

datatype economic_failure = UnknownSeries "string list" | AllSeriesFailed economic_result

definition pass_result :: "economic_pass \<Rightarrow> economic_result" where
  "pass_result s =
     \<lparr>er_series = ep_series s, er_errors = ep_errors s, er_ingested = ep_ingested s, er_failed = ep_failed s,
      er_providers = map (\<lambda>(c, tried). (c, tried, int (length (dict_get [] (ep_failures s) c)))) (ep_attempted s)\<rparr>"

definition start_economic_pass :: "economic_db \<Rightarrow> economic_pass" where
  "start_economic_pass db = \<lparr>ep_db = db, ep_series = [], ep_errors = [], ep_ingested = 0, ep_failed = 0, ep_attempted = [], ep_failures = []\<rparr>"

definition finish_economic_pass :: "source_world \<Rightarrow> economic_pass \<Rightarrow> economic_db" where
  "finish_economic_pass w s = (ep_db s)\<lparr>ed_providers :=
     record_health w (ep_attempted s) (ep_failures s) (ed_clock (ep_db s)) (ed_providers (ep_db s))\<rparr>"

definition ingest_economic ::
  "source_world \<Rightarrow> provider_settings \<Rightarrow> series_spec list \<Rightarrow> string list \<Rightarrow> economic_db \<Rightarrow>
    (economic_failure + economic_result) \<times> economic_db" where
  "ingest_economic w cfg catalog codes db =
     (case enabled_specs catalog codes of
        Inl unknown \<Rightarrow> (Inl (UnknownSeries unknown), db)
      | Inr specs \<Rightarrow>
          let s = foldl (\<lambda>s spec. ingest_spec w cfg spec s) (start_economic_pass db) specs; r = pass_result s in
          (if 0 < er_failed r \<and> er_ingested r = 0 then Inl (AllSeriesFailed r) else Inr r, finish_economic_pass w s))"

end
