(* ===== verification/Economic_Job_Props.thy ===== *)
theory Economic_Job_Props
  imports Economic_Job
begin

text \<open>
  The theorems on \<^verbatim>\<open>app/jobs/economic.py\<close>. What the job relies on of the store is the locale
  \<open>observation_log\<close>, interpreted on \<open>record_observation\<close>; that a second pass is silent follows from its
  laws, the frame of \<open>ensure_series\<close> and an induction over the selected series.
\<close>

section \<open>The store as the job sees it\<close>

text \<open>A request and a claim: the value and the method that the current row of the period states.\<close>

definition writable :: "write_request \<Rightarrow> bool" where
  "writable w \<longleftrightarrow> (\<exists>v a. check_request w = Inr (v, a) \<and> quantity_float v \<noteq> NaN)"

definition says :: "write_request \<Rightarrow> observation_table \<Rightarrow> bool" where
  "says w t \<longleftrightarrow> (\<exists>v a r. check_request w = Inr (v, a) \<and> current_row (wr_period w) t = Some r \<and> restates r v (wr_method w))"

locale observation_log =
  fixes ok :: "'t \<Rightarrow> bool" and claims :: "write_request \<Rightarrow> 't \<Rightarrow> bool" and fit :: "write_request \<Rightarrow> bool"
    and put :: "write_request \<Rightarrow> int \<Rightarrow> 't \<Rightarrow> (observation_write \<times> 't) res"
  assumes put_ok: "ok t \<Longrightarrow> put w now t = Inr (r, t') \<Longrightarrow> ok t'"
    and put_claims: "ok t \<Longrightarrow> fit w \<Longrightarrow> put w now t = Inr (r, t') \<Longrightarrow> claims w t'"
    and put_frame: "ok t \<Longrightarrow> put w now t = Inr (r, t') \<Longrightarrow> wr_period v \<noteq> wr_period w \<Longrightarrow> claims v t \<Longrightarrow> claims v t'"
    and put_silent: "ok t \<Longrightarrow> claims w t \<Longrightarrow> \<exists>r. put w now t = Inr (r, t) \<and> ow_status r = Unchanged"
begin

fun put_all :: "(write_request \<times> int) list \<Rightarrow> 't \<Rightarrow> (write_status list \<times> 't) res" where
  "put_all [] t = Inr ([], t)"
| "put_all ((w, now) # ws) t =
     bind_res (put w now t) (\<lambda>(r, t'). map_res (\<lambda>(ss, t''). (ow_status r # ss, t'')) (put_all ws t'))"

lemma put_all_frame:
  "ok t \<Longrightarrow> put_all ws t = Inr (ss, t') \<Longrightarrow> \<forall>(w, n) \<in> set ws. wr_period v \<noteq> wr_period w \<Longrightarrow>
    ok t' \<and> (claims v t \<longrightarrow> claims v t')"
proof (induction ws arbitrary: t ss)
  case Nil
  then show ?case by simp
next
  case (Cons x ws)
  obtain w now where x: "x = (w, now)" by (cases x)
  obtain r t1 ss1 where w: "put w now t = Inr (r, t1)" and ws: "put_all ws t1 = Inr (ss1, t')"
    using Cons.prems(2) x by (auto simp: bind_res_eq_Inr map_res_eq_Inr)
  have v: "wr_period v \<noteq> wr_period w" "\<forall>(w, n) \<in> set ws. wr_period v \<noteq> wr_period w" using Cons.prems(3) x by simp_all
  have "ok t1" by (rule put_ok [OF Cons.prems(1) w])
  then have "ok t' \<and> (claims v t1 \<longrightarrow> claims v t')" by (rule Cons.IH [OF _ ws v(2)])
  then show ?case using put_frame [OF Cons.prems(1) w v(1)] by blast
qed

lemma put_all_claims:
  "ok t \<Longrightarrow> put_all ws t = Inr (ss, t') \<Longrightarrow> distinct (map (wr_period \<circ> fst) ws) \<Longrightarrow> \<forall>(w, n) \<in> set ws. fit w \<Longrightarrow>
    \<forall>(w, n) \<in> set ws. claims w t'"
proof (induction ws arbitrary: t ss)
  case Nil
  then show ?case by simp
next
  case (Cons x ws)
  obtain w now where x: "x = (w, now)" by (cases x)
  obtain r t1 ss1 where w: "put w now t = Inr (r, t1)" and ws: "put_all ws t1 = Inr (ss1, t')"
    using Cons.prems(2) x by (auto simp: bind_res_eq_Inr map_res_eq_Inr)
  have ok: "ok t1" by (rule put_ok [OF Cons.prems(1) w])
  have "claims w t1" using put_claims [OF Cons.prems(1) _ w] Cons.prems(4) x by simp
  moreover have "\<forall>(v, n) \<in> set ws. wr_period w \<noteq> wr_period v" using Cons.prems(3) x by (force simp: image_iff)
  ultimately have "claims w t'" using put_all_frame [OF ok ws] by blast
  moreover have "\<forall>(w, n) \<in> set ws. claims w t'" using Cons.IH [OF ok ws] Cons.prems(3,4) x by simp
  ultimately show ?case using x by simp
qed

lemma put_all_silent:
  "ok t \<Longrightarrow> \<forall>(w, n) \<in> set ws. claims w t \<Longrightarrow> put_all ws t = Inr (replicate (length ws) Unchanged, t)"
proof (induction ws)
  case (Cons x ws)
  obtain w n where x: "x = (w, n)" by (cases x)
  obtain r where "put w n t = Inr (r, t)" "ow_status r = Unchanged" using put_silent [of t w n] Cons.prems x by auto
  then show ?case using Cons x by simp
qed simp

end

lemma check_number: "check_request w = Inr (v, a) \<Longrightarrow> v \<noteq> DecimalNonFinite"
  by (auto simp: check_request_def stored_value_def map_res_eq_Inr split: option.splits if_splits quantity.splits)

lemma values_equal_self: "x \<noteq> NaN \<Longrightarrow> values_equal x x"
  by (cases x) (simp_all add: values_equal_def isclose_def feq_def)

lemma says_history:
  assumes "store_ok t"
  shows "says w t \<longleftrightarrow> (\<exists>v a. check_request w = Inr (v, a) \<and> history (wr_period w) t \<noteq> [] \<and>
    restates (last (history (wr_period w) t)) v (wr_method w))"
  by (auto simp: says_def current_is_last [OF assms])

interpretation olog: observation_log store_ok says writable record_observation
proof
  fix t w now r t'
  assume ok: "store_ok t" and put: "record_observation w now t = Inr (r, t')"
  show ok': "store_ok t'" by (rule record_keeps_ok [OF ok put])
  have own: "history_write w now (history (wr_period w) t) = Inr (history (wr_period w) t')"
    using record_history [OF ok, of w now] put by simp
  show "says w t'" if fit: "writable w"
  proof -
    obtain v a where chk: "check_request w = Inr (v, a)" and num: "quantity_float v \<noteq> NaN" using fit unfolding writable_def by blast
    let ?h = "history (wr_period w) t" and ?h' = "history (wr_period w) t'"
    have "?h' \<noteq> [] \<and> restates (last ?h') v (wr_method w)"
    proof (cases "?h \<noteq> [] \<and> restates (last ?h) v (wr_method w)")
      case True
      then show ?thesis using own by (simp add: history_write_def chk)
    next
      case False
      then have "?h' = ?h @ [write_row w now v a (int (length ?h) + 1)]"
        using own by (auto simp: history_write_def chk Let_def split: if_splits)
      then show ?thesis using values_equal_self [OF num] by (simp add: restates_def write_row_def)
    qed
    then show ?thesis unfolding says_history [OF ok'] using chk by blast
  qed
  show "says v t'" if "wr_period v \<noteq> wr_period w" "says v t" for v
    using record_table [OF ok put]
  proof cases
    case 1
    then show ?thesis using that by simp
  next
    case (2 r)
    then have "history (wr_period v) t' = history (wr_period v) t"
      using history_append [OF ok, of r "wr_period v"] that(1) by simp
    then show ?thesis using that(2) unfolding says_history [OF ok] says_history [OF ok'] by simp
  qed
next
  fix t w now
  assume "store_ok t" and "says w t"
  then obtain v a x where "check_request w = Inr (v, a)" "current_row (wr_period w) t = Some x" "restates x v (wr_method w)"
    unfolding says_def by blast
  then show "\<exists>r. record_observation w now t = Inr (r, t) \<and> ow_status r = Unchanged"
    by (simp add: record_observation_def plan_write_def finish_write_def write_report_def)
qed


section \<open>One series\<close>

lemma record_status:
  assumes "store_ok t" and "record_observation w now t = Inr (r, t')"
  shows "ow_status r \<noteq> Raced \<and> length t' = length t + (if ow_status r \<in> {Inserted, Revised} then 1 else 0)"
proof -
  obtain plan where plan: "plan_write w now (current_row (wr_period w) t) t = Inr plan" and
    fin: "finish_write plan t = Inr (r, t')"
    using assms(2) unfolding record_observation_def bind_res_eq_Inr by blast
  obtain v a where chk: "check_request w = Inr (v, a)" using plan by (auto simp: plan_write_def bind_res_eq_Inr)
  show ?thesis
  proof (cases plan)
    case (Done d)
    then have "ow_status d = Unchanged" using plan chk by (auto simp: plan_write_def write_report_def split: option.splits if_splits)
    then show ?thesis using fin Done by (simp add: finish_write_def)
  next
    case (Ready status row c)
    have st: "status \<in> {Inserted, Revised}" and v: "ob_vintage row = max_vintage (ob_period row) t + 1"
    proof -
      have "ob_period row = wr_period w"
        using plan chk Ready by (auto simp: plan_write_def write_row_def ob_period_def wr_period_def split: option.splits if_splits)
      moreover have "current_row (wr_period w) t = None \<Longrightarrow> max_vintage (wr_period w) t = 0"
        using history_length [OF assms(1), of "wr_period w"] by (simp add: current_is_last [OF assms(1)] split: if_splits)
      ultimately show "status \<in> {Inserted, Revised}" "ob_vintage row = max_vintage (ob_period row) t + 1"
        using plan chk Ready by (auto simp: plan_write_def write_row_def split: option.splits if_splits)
    qed
    have "insert_ignore ob_key row t = (t @ [row], True)"
      using insert_cases [OF assms(1) plan_insertable [OF assms(1) plan [unfolded Ready]]] v by (metis not_less zle_add1_eq_le less_add_one)
    then show ?thesis using fin st unfolding Ready
      by (auto simp: finish_write_def insert_observation_def write_report_def split: if_splits)
  qed
qed

text \<open>The counts of a series add up, and so do the rows.\<close>

definition counted :: "ingest_counts \<Rightarrow> int" where
  "counted c = ic_inserted c + ic_unchanged c + ic_revised c + ic_raced c"

definition added :: "ingest_counts \<Rightarrow> int" where
  "added c = ic_inserted c + ic_revised c"

lemma write_points_counts:
  assumes "store_ok t" and "write_points sid a ps (c, t) = Inr (c', t')"
  shows "store_ok t' \<and> counted c' = counted c + int (length ps) \<and> ic_raced c' = ic_raced c \<and>
    int (length t') = int (length t) + added c' - added c \<and> ic_fetched c' = ic_fetched c"
  using assms
proof (induction ps arbitrary: c t)
  case Nil
  then show ?case by simp
next
  case (Cons p ps)
  obtain r t1 where r: "record_observation (point_request sid a p) a t = Inr (r, t1)"
    and ps: "write_points sid a ps (count_write (ow_status r) c, t1) = Inr (c', t')"
    using Cons.prems(2) by (auto simp: bind_res_eq_Inr)
  have ok: "store_ok t1" by (rule record_keeps_ok [OF Cons.prems(1) r])
  note ih = Cons.IH [OF ok ps]
  show ?case using ih record_status [OF Cons.prems(1) r]
    by (cases "ow_status r") (simp_all add: count_write_def counted_def added_def)
qed

lemma write_series_ok:
  assumes "write_series w spec a f s = Inr (k, sid, cat, obs)" and "store_ok (snd s)"
  shows "store_ok obs" and "counted k = ic_fetched k" and "ic_raced k = 0"
    and "int (length obs) = int (length (snd s)) + added k"
proof -
  have "write_points sid a (sf_points f) (fetch_counts f, snd s) = Inr (k, obs)"
    using assms(1) by (auto simp: write_series_def split: sum.splits)
  note c = write_points_counts [OF assms(2) this]
  have z: "counted (fetch_counts f) = 0" "added (fetch_counts f) = 0" "ic_raced (fetch_counts f) = 0"
    "ic_fetched (fetch_counts f) = int (length (sf_points f))"
    by (simp_all add: fetch_counts_def empty_counts_def counted_def added_def)
  show "store_ok obs" "counted k = ic_fetched k" "ic_raced k = 0" "int (length obs) = int (length (snd s)) + added k"
    using c z by simp_all
qed

lemma ingest_one_cases:
  assumes "ingest_one w cfg spec db = (report, db')"
  obtains (failed) e clock where "report = SeriesFailed e" "db' = db\<lparr>ed_clock := clock\<rparr>"
  | (ingested) p f clock k sid cat obs where "build_provider (sp_provider_code spec) cfg = Some p" "serves_series p"
      "ew_fetch w p spec (ed_clock db) = (Inr f, clock)"
      "write_series w spec clock f (ed_catalog db, ed_observations db) = Inr (k, sid, cat, obs)"
      "report = SeriesIngested k sid clock (sf_meta f)"
      "db' = db\<lparr>ed_catalog := cat, ed_observations := obs, ed_clock := clock\<rparr>"
proof -
  have early: thesis if "ingest_one w cfg spec db = (SeriesFailed e, db)" for e
    using that assms failed [of e "ed_clock db"] by simp
  show thesis
  proof (cases "build_provider (sp_provider_code spec) cfg")
    case None
    then show thesis using early by (simp add: ingest_one_def)
  next
    case (Some p)
    show thesis
    proof (cases "serves_series p")
      case False
      then show thesis using Some early by (simp add: ingest_one_def)
    next
      case True
      obtain answer clock where fetch: "ew_fetch w p spec (ed_clock db) = (answer, clock)" by fastforce
      show thesis
      proof (cases answer)
        case (Inl e)
        then show thesis using assms Some True fetch failed by (auto simp: ingest_one_def)
      next
        case (Inr f)
        show thesis
        proof (cases "write_series w spec clock f (ed_catalog db, ed_observations db)")
          case (Inl e)
          then show thesis using assms Some True fetch Inr failed by (auto simp: ingest_one_def)
        next
          case (Inr x)
          obtain k sid cat obs where x: "x = (k, sid, cat, obs)" by (metis prod_cases4)
          show thesis
            by (rule ingested [OF Some True fetch [unfolded \<open>answer = Inr f\<close>] Inr [unfolded x]])
              (use assms Some True fetch \<open>answer = Inr f\<close> Inr x in \<open>auto simp: ingest_one_def\<close>)
        qed
      qed
    qed
  qed
qed

section \<open>The pass\<close>

definition attempted :: "series_spec \<Rightarrow> bool" where
  "attempted spec \<longleftrightarrow> sp_enabled spec \<and> sp_provider_code spec \<notin> DOCUMENT_INGEST_PROVIDERS"

definition is_failed :: "series_report \<Rightarrow> bool" where
  "is_failed r \<longleftrightarrow> (\<exists>e. r = SeriesFailed e)"

definition is_ingested :: "series_report \<Rightarrow> bool" where
  "is_ingested r \<longleftrightarrow> (\<exists>k sid a m. r = SeriesIngested k sid a m)"

fun rows_of :: "series_report \<Rightarrow> int" where
  "rows_of (SeriesIngested k _ _ _) = added k"
| "rows_of _ = 0"

fun counts_ok :: "series_report \<Rightarrow> bool" where
  "counts_ok (SeriesIngested k _ _ _) \<longleftrightarrow> counted k = ic_fetched k \<and> ic_raced k = 0"
| "counts_ok _ \<longleftrightarrow> True"

text \<open>One turn of the loop: what it appends to the report and does to the tables.\<close>

lemma ingest_spec_cases:
  obtains (skipped) report where "\<not> attempted spec" "\<not> is_failed report" "\<not> is_ingested report"
      "ingest_spec w cfg spec s = s\<lparr>ep_series := dict_set (sp_code spec) report (ep_series s)\<rparr>"
  | (failed) e clock where "attempted spec"
      "ingest_spec w cfg spec s = fail_spec spec e ((count_attempt spec s)\<lparr>ep_db := (ep_db s)\<lparr>ed_clock := clock\<rparr>\<rparr>)"
  | (ingested) p f clock k sid cat obs where "attempted spec"
      "build_provider (sp_provider_code spec) cfg = Some p" "serves_series p"
      "ew_fetch w p spec (ed_clock (ep_db s)) = (Inr f, clock)"
      "write_series w spec clock f (ed_catalog (ep_db s), ed_observations (ep_db s)) = Inr (k, sid, cat, obs)"
      "ingest_spec w cfg spec s = (count_attempt spec s)\<lparr>
         ep_db := (ep_db s)\<lparr>ed_catalog := cat, ed_observations := obs, ed_clock := clock\<rparr>,
         ep_series := dict_set (sp_code spec) (SeriesIngested k sid clock (sf_meta f)) (ep_series s),
         ep_ingested := ep_ingested s + 1\<rparr>"
proof (cases "attempted spec")
  case False
  show thesis
  proof (cases "sp_enabled spec")
    case True
    then have "sp_provider_code spec \<in> DOCUMENT_INGEST_PROVIDERS" using False by (simp add: attempted_def)
    then show thesis using skipped [of "DocumentIngest (sp_provider_code spec)"] False True
      by (simp add: ingest_spec_def is_failed_def is_ingested_def)
  next
    case off: False
    then show thesis using skipped [of Disabled] False by (simp add: ingest_spec_def is_failed_def is_ingested_def)
  qed
next
  case True
  obtain report db where one: "ingest_one w cfg spec (ep_db s) = (report, db)" by fastforce
  have unfold: "ingest_spec w cfg spec s = (case report of
      SeriesFailed e \<Rightarrow> fail_spec spec e ((count_attempt spec s)\<lparr>ep_db := db\<rparr>)
    | _ \<Rightarrow> (count_attempt spec s)\<lparr>ep_db := db, ep_series := dict_set (sp_code spec) report (ep_series s),
        ep_ingested := ep_ingested s + 1\<rparr>)"
    using True one by (simp add: ingest_spec_def attempted_def count_attempt_def Let_def split: series_report.splits)
  show thesis
  proof (cases rule: ingest_one_cases [OF one])
    case (1 e clock)
    then show thesis using failed [OF True] unfold by simp
  next
    case (2 p f clock k sid cat obs)
    then show thesis using ingested [OF True 2(1-4)] unfold by simp
  qed
qed

definition accounts :: "economic_db \<Rightarrow> series_spec list \<Rightarrow> economic_pass \<Rightarrow> bool" where
  "accounts db done' s \<longleftrightarrow>
     map fst (ep_series s) = map sp_code done' \<and> store_ok (ed_observations (ep_db s)) \<and>
     list_all2 (\<lambda>spec x. attempted spec \<longleftrightarrow> is_failed (snd x) \<or> is_ingested (snd x)) done' (ep_series s) \<and>
     ep_failed s = int (length (filter (is_failed \<circ> snd) (ep_series s))) \<and>
     ep_ingested s = int (length (filter (is_ingested \<circ> snd) (ep_series s))) \<and>
     (\<forall>x \<in> set (ep_series s). counts_ok (snd x)) \<and>
     int (length (ed_observations (ep_db s))) = int (length (ed_observations db)) + sum_list (map (rows_of \<circ> snd) (ep_series s))"

lemma accounts_step:
  assumes "accounts db before s" and "sp_code spec \<notin> set (map sp_code before)"
  shows "accounts db (before @ [spec]) (ingest_spec w cfg spec s)"
proof -
  have new: "dict_set (sp_code spec) r (ep_series s) = ep_series s @ [(sp_code spec, r)]" for r
    using assms by (auto simp: accounts_def dict_set_def)
  note a = assms(1) [unfolded accounts_def]
  show ?thesis
  proof (cases rule: ingest_spec_cases [of spec w cfg s])
    case (skipped report)
    have "rows_of report = 0" "counts_ok report" using skipped(2,3) by (cases report; simp add: is_ingested_def)+
    then show ?thesis using a skipped by (simp add: accounts_def new list_all2_appendI)
  next
    case (failed e clock)
    then show ?thesis using a
      by (simp add: accounts_def new fail_spec_def count_attempt_def list_all2_appendI is_failed_def is_ingested_def)
  next
    case (ingested p f clock k sid cat obs)
    have "store_ok (snd (ed_catalog (ep_db s), ed_observations (ep_db s)))" using a by simp
    note w = write_series_ok [OF ingested(5) this]
    show ?thesis using a w ingested(1)
      by (simp add: accounts_def new ingested(6) count_attempt_def list_all2_appendI is_failed_def is_ingested_def)
  qed
qed

lemma accounts_pass:
  assumes "accounts db before s" and "distinct (map sp_code (before @ specs))"
  shows "accounts db (before @ specs) (foldl (\<lambda>s spec. ingest_spec w cfg spec s) s specs)"
  using assms
proof (induction specs arbitrary: before s)
  case (Cons spec specs)
  have "accounts db (before @ [spec]) (ingest_spec w cfg spec s)"
    using accounts_step [OF Cons.prems(1)] Cons.prems(2) by simp
  from Cons.IH [OF this] Cons.prems(2) show ?case by simp
qed simp

lemma accounts_start: "store_ok (ed_observations db) \<Longrightarrow> accounts db [] (start_economic_pass db)"
  by (simp add: accounts_def start_economic_pass_def)

lemma named_specs_codes:
  "set (map sp_code (named_specs catalog seen cs)) \<inter> set seen = {} \<and> distinct (map sp_code (named_specs catalog seen cs))"
proof (induction catalog seen cs rule: named_specs.induct)
  case (2 catalog seen c cs)
  show ?case
  proof (cases "c \<in> set seen")
    case False
    show ?thesis
    proof (cases "by_code catalog c")
      case (Some s)
      then have "sp_code s = c" by (auto simp: by_code_def find_Some_iff)
      then show ?thesis using 2(3) [OF False Some] False Some by auto
    qed (use 2(2) False in auto)
  qed (use 2(1) in auto)
qed simp

lemma enabled_specs_codes:
  assumes "enabled_specs catalog codes = Inr specs" and "distinct (map sp_code catalog)"
  shows "distinct (map sp_code specs)"
proof (cases "codes = []")
  case True
  then have "specs = filter sp_enabled catalog" using assms(1) by (simp add: enabled_specs_def)
  then show ?thesis using assms(2) by (simp add: distinct_map_filter)
next
  case False
  then have "specs = named_specs catalog [] codes" using assms(1) by (auto simp: enabled_specs_def Let_def split: if_splits)
  then show ?thesis using named_specs_codes by blast
qed

definition result_of :: "economic_failure + economic_result \<Rightarrow> economic_result option" where
  "result_of answer = (case answer of Inr r \<Rightarrow> Some r | Inl (AllSeriesFailed r) \<Rightarrow> Some r | Inl (UnknownSeries _) \<Rightarrow> None)"

lemma ingest_economic_runs:
  assumes "ingest_economic w cfg catalog codes db = (answer, db')" and "result_of answer = Some r"
  obtains specs where "enabled_specs catalog codes = Inr specs"
    "r = pass_result (foldl (\<lambda>s spec. ingest_spec w cfg spec s) (start_economic_pass db) specs)"
    "db' = finish_economic_pass w (foldl (\<lambda>s spec. ingest_spec w cfg spec s) (start_economic_pass db) specs)"
    "answer = (if 0 < er_failed r \<and> er_ingested r = 0 then Inl (AllSeriesFailed r) else Inr r)"
proof (cases "enabled_specs catalog codes")
  case (Inl u)
  then show thesis using assms by (auto simp: ingest_economic_def result_of_def)
next
  case (Inr specs)
  show thesis by (rule that [OF Inr]) (use assms Inr in \<open>auto simp: ingest_economic_def result_of_def Let_def split: if_splits\<close>)
qed

text \<open>C25: The report of a pass accounts for everything: it has one entry per selected series, in order; a
  series that was attempted is reported either failed or ingested, and the two counters count those; the
  counts of an ingested series add up to what was fetched, none raced; the observations that were added
  are exactly the reported insertions and revisions; and the job fails exactly when a series failed and
  none was ingested.\<close>

theorem pass_accounts:
  assumes "ingest_economic w cfg catalog codes db = (answer, db')" and "result_of answer = Some r"
    and "enabled_specs catalog codes = Inr specs" and "distinct (map sp_code catalog)" and "store_ok (ed_observations db)"
  shows "map fst (er_series r) = map sp_code specs \<and>
    list_all2 (\<lambda>spec x. attempted spec \<longleftrightarrow> is_failed (snd x) \<or> is_ingested (snd x)) specs (er_series r) \<and>
    er_failed r = int (length (filter (is_failed \<circ> snd) (er_series r))) \<and>
    er_ingested r = int (length (filter (is_ingested \<circ> snd) (er_series r))) \<and>
    (\<forall>x \<in> set (er_series r). counts_ok (snd x)) \<and>
    int (length (ed_observations db')) = int (length (ed_observations db)) + sum_list (map (rows_of \<circ> snd) (er_series r)) \<and>
    store_ok (ed_observations db') \<and>
    (answer = Inl (AllSeriesFailed r) \<longleftrightarrow> 0 < er_failed r \<and> er_ingested r = 0)"
proof -
  obtain specs' where run: "enabled_specs catalog codes = Inr specs'"
    "r = pass_result (foldl (\<lambda>s spec. ingest_spec w cfg spec s) (start_economic_pass db) specs')"
    "db' = finish_economic_pass w (foldl (\<lambda>s spec. ingest_spec w cfg spec s) (start_economic_pass db) specs')"
    "answer = (if 0 < er_failed r \<and> er_ingested r = 0 then Inl (AllSeriesFailed r) else Inr r)"
    by (rule ingest_economic_runs [OF assms(1,2)])
  have s: "specs' = specs" using run(1) assms(3) by simp
  have "accounts db ([] @ specs) (foldl (\<lambda>s spec. ingest_spec w cfg spec s) (start_economic_pass db) specs)"
    using accounts_pass [OF accounts_start [OF assms(5)], of specs] enabled_specs_codes [OF assms(3,4)] by simp
  then show ?thesis unfolding run(2,3) s using run(4) [unfolded run(2) s]
    by (simp add: accounts_def pass_result_def finish_economic_pass_def)
qed


section \<open>A pass is a sequence of whole transactions\<close>

fun run_transactions ::
  "source_world \<Rightarrow> (series_spec \<times> int \<times> series_fetch) list \<Rightarrow> catalog_tables \<times> observation_table \<Rightarrow>
    ingest_error + (catalog_tables \<times> observation_table)" where
  "run_transactions w [] s = Inr s"
| "run_transactions w ((spec, a, f) # ts) s =
     (case write_series w spec a f s of Inl e \<Rightarrow> Inl e | Inr (k, sid, s') \<Rightarrow> run_transactions w ts s')"

lemma run_transactions_snoc:
  "run_transactions w ts s = Inr s' \<Longrightarrow> write_series w spec a f s' = Inr (k, sid, s'') \<Longrightarrow>
    run_transactions w (ts @ [(spec, a, f)]) s = Inr s''"
proof (induction ts arbitrary: s)
  case (Cons t ts)
  obtain spec' a' f' where "t = (spec', a', f')" by (metis prod_cases3)
  then show ?case using Cons by (auto split: sum.splits)
qed simp

definition tables_of :: "economic_db \<Rightarrow> catalog_tables \<times> observation_table" where
  "tables_of db = (ed_catalog db, ed_observations db)"

definition transacted :: "source_world \<Rightarrow> provider_settings \<Rightarrow> economic_db \<Rightarrow> economic_pass \<Rightarrow> bool" where
  "transacted w cfg db s \<longleftrightarrow> (\<exists>ts. run_transactions w ts (tables_of db) = Inr (tables_of (ep_db s)) \<and>
     map (sp_code \<circ> fst) ts = map fst (filter (is_ingested \<circ> snd) (ep_series s)) \<and>
     (\<forall>(spec, a, f) \<in> set ts. \<exists>p c. build_provider (sp_provider_code spec) cfg = Some p \<and> ew_fetch w p spec c = (Inr f, a)))"

lemma transacted_step:
  assumes "transacted w cfg db s" and "sp_code spec \<notin> set (map fst (ep_series s))"
  shows "transacted w cfg db (ingest_spec w cfg spec s)"
proof -
  have new: "dict_set (sp_code spec) r (ep_series s) = ep_series s @ [(sp_code spec, r)]" for r
    using assms(2) by (simp add: dict_set_def)
  obtain ts where ts: "run_transactions w ts (tables_of db) = Inr (tables_of (ep_db s))"
    "map (sp_code \<circ> fst) ts = map fst (filter (is_ingested \<circ> snd) (ep_series s))"
    "\<forall>(spec, a, f) \<in> set ts. \<exists>p c. build_provider (sp_provider_code spec) cfg = Some p \<and> ew_fetch w p spec c = (Inr f, a)"
    using assms(1) unfolding transacted_def by blast
  show ?thesis
  proof (cases rule: ingest_spec_cases [of spec w cfg s])
    case (skipped report)
    then show ?thesis using ts unfolding transacted_def by (intro exI [of _ ts]) (simp add: new)
  next
    case (failed e clock)
    then show ?thesis using ts unfolding transacted_def
      by (intro exI [of _ ts]) (simp add: new fail_spec_def count_attempt_def tables_of_def is_ingested_def)
  next
    case (ingested p f clock k sid cat obs)
    have "run_transactions w (ts @ [(spec, clock, f)]) (tables_of db) = Inr (cat, obs)"
      using run_transactions_snoc [OF ts(1)] ingested(5) by (simp add: tables_of_def)
    then show ?thesis using ts(2,3) ingested(2,4) unfolding transacted_def
      by (intro exI [of _ "ts @ [(spec, clock, f)]"])
        (auto simp: new ingested(6) count_attempt_def tables_of_def is_ingested_def)
  qed
qed

lemma transacted_pass:
  assumes "transacted w cfg db s" and "distinct (map fst (ep_series s) @ map sp_code specs)"
  shows "transacted w cfg db (foldl (\<lambda>s spec. ingest_spec w cfg spec s) s specs)"
  using assms
proof (induction specs arbitrary: s)
  case (Cons spec specs)
  have keys: "map fst (ep_series (ingest_spec w cfg spec s)) = map fst (ep_series s) @ [sp_code spec]"
  proof -
    have "sp_code spec \<notin> set (map fst (ep_series s))" using Cons.prems(2) by auto
    then have "map fst (dict_set (sp_code spec) r (ep_series s)) = map fst (ep_series s) @ [sp_code spec]" for r
      by (simp add: map_fst_dict_set)
    then show ?thesis
      by (cases rule: ingest_spec_cases [of spec w cfg s]) (simp_all add: fail_spec_def count_attempt_def)
  qed
  have "transacted w cfg db (ingest_spec w cfg spec s)" using transacted_step [OF Cons.prems(1)] Cons.prems(2) by auto
  from Cons.IH [OF this] Cons.prems(2) show ?case unfolding keys by simp
qed simp

text \<open>C7: Whatever the adapters answer, the tables after a pass are those after the whole transactions of
  exactly the series reported as ingested, in the order of the report, each with an answer its own
  adapter gave; a series that failed, at whichever point, leaves no trace in them.\<close>

theorem pass_is_transactions:
  assumes "ingest_economic w cfg catalog codes db = (answer, db')" and "result_of answer = Some r"
    and "distinct (map sp_code catalog)"
  shows "\<exists>ts. run_transactions w ts (tables_of db) = Inr (tables_of db') \<and>
    map (sp_code \<circ> fst) ts = map fst (filter (is_ingested \<circ> snd) (er_series r)) \<and>
    (\<forall>(spec, a, f) \<in> set ts. \<exists>p c. build_provider (sp_provider_code spec) cfg = Some p \<and> ew_fetch w p spec c = (Inr f, a))"
proof -
  obtain specs where run: "enabled_specs catalog codes = Inr specs"
    "r = pass_result (foldl (\<lambda>s spec. ingest_spec w cfg spec s) (start_economic_pass db) specs)"
    "db' = finish_economic_pass w (foldl (\<lambda>s spec. ingest_spec w cfg spec s) (start_economic_pass db) specs)"
    by (rule ingest_economic_runs [OF assms(1,2)])
  have "transacted w cfg db (start_economic_pass db)"
    unfolding transacted_def by (intro exI [of _ "[]"]) (simp add: start_economic_pass_def)
  then have "transacted w cfg db (foldl (\<lambda>s spec. ingest_spec w cfg spec s) (start_economic_pass db) specs)"
    using transacted_pass enabled_specs_codes [OF run(1) assms(3)] by (simp add: start_economic_pass_def)
  then show ?thesis unfolding run(2,3) transacted_def by (simp add: pass_result_def finish_economic_pass_def tables_of_def)
qed

section \<open>The health of the providers\<close>

text \<open>The verdict of a pass on one row.\<close>

definition verdict_row :: "source_world \<Rightarrow> int \<Rightarrow> (string \<times> (string \<times> ingest_error) list) list \<Rightarrow> string \<times> int \<Rightarrow> provider_row \<Rightarrow> provider_row" where
  "verdict_row w clock failures x r =
     (if code r = fst x then
        (case dict_get [] failures (fst x) of
           [] \<Rightarrow> r\<lparr>last_success_at := Some (Naive clock), consecutive_failures := 0, last_error := None, updated_at := Some (Naive clock)\<rparr>
         | failed \<Rightarrow> r\<lparr>last_error_at := Some (Naive clock), last_error := Some (take 2000 (failure_text w (snd x) failed)),
             consecutive_failures := consecutive_failures r + 1, updated_at := Some (Naive clock)\<rparr>)
      else r)"

lemma record_health_map:
  "record_health w attempts failures clock table = map (\<lambda>r. foldl (\<lambda>r x. verdict_row w clock failures x r) r attempts) table"
proof (induction attempts arbitrary: table)
  case (Cons x attempts)
  obtain c n where x: "x = (c, n)" by (cases x)
  have "(case dict_get [] failures c of [] \<Rightarrow> record_success clock c table
      | failed \<Rightarrow> record_failure clock c (failure_text w n failed) table) = map (verdict_row w clock failures x) table"
    by (cases "dict_get [] failures c") (simp_all add: x verdict_row_def record_success_def record_failure_def)
  then show ?case using Cons [of "map (verdict_row w clock failures x) table"]
    by (simp add: record_health_def x)
qed (simp add: record_health_def)

lemma verdict_row_code: "code (verdict_row w clock failures x r) = code r"
  by (simp add: verdict_row_def split: list.splits)

lemma verdict_once:
  assumes "distinct (map fst attempts)"
  shows "consecutive_failures (foldl (\<lambda>r x. verdict_row w clock failures x r) r attempts) =
    (if code r \<notin> set (map fst attempts) then consecutive_failures r
     else if dict_get [] failures (code r) = [] then 0 else consecutive_failures r + 1)"
  using assms
proof (induction attempts arbitrary: r)
  case (Cons x attempts)
  let ?r = "verdict_row w clock failures x r"
  show ?case
  proof (cases "code r = fst x")
    case True
    then have "code ?r \<notin> set (map fst attempts)" using Cons.prems by (simp add: verdict_row_code)
    then show ?thesis using Cons.IH [of ?r] Cons.prems True
      by (simp add: verdict_row_def split: list.splits)
  next
    case False
    then have "?r = r" by (simp add: verdict_row_def)
    then show ?thesis using Cons.IH [of r] Cons.prems False by simp
  qed
qed simp

text \<open>What the two dictionaries of the loop hold.\<close>

definition tallied :: "series_spec list \<Rightarrow> economic_pass \<Rightarrow> bool" where
  "tallied done' s \<longleftrightarrow> distinct (map fst (ep_attempted s)) \<and>
     set (map fst (ep_attempted s)) = sp_provider_code ` {spec \<in> set done'. attempted spec} \<and>
     (\<forall>c. dict_get [] (ep_failures s) c = [] \<longleftrightarrow>
        (\<forall>spec \<in> set done'. sp_provider_code spec = c \<longrightarrow> (\<forall>e. (sp_code spec, SeriesFailed e) \<notin> set (ep_series s))))"

lemma tallied_step:
  assumes "tallied before s" and "map fst (ep_series s) = map sp_code before" and "sp_code spec \<notin> set (map sp_code before)"
  shows "tallied (before @ [spec]) (ingest_spec w cfg spec s)"
proof -
  have new: "dict_set (sp_code spec) r (ep_series s) = ep_series s @ [(sp_code spec, r)]" for r
    using assms(2,3) by (auto simp: dict_set_def)
  have old: "(sp_code spec, r) \<notin> set (ep_series s)" for r
    using assms(2,3) by (metis fst_conv image_eqI image_set)
  have other: "sp_code x \<noteq> sp_code spec" if "x \<in> set before" for x using that assms(3) by (metis imageI set_map)
  note t = assms(1) [unfolded tallied_def]
  have keys: "distinct (map fst (ep_attempted (count_attempt spec s)))"
    "set (map fst (ep_attempted (count_attempt spec s))) = insert (sp_provider_code spec) (set (map fst (ep_attempted s)))"
    using t by (simp_all add: count_attempt_def dict_set_distinct dict_set_keys del: set_map)
  show ?thesis
  proof (cases rule: ingest_spec_cases [of spec w cfg s])
    case (skipped report)
    then show ?thesis using t old by (auto simp: tallied_def new is_failed_def)
  next
    case (failed e clock)
    show ?thesis unfolding tallied_def
    proof (intro conjI allI)
      show "distinct (map fst (ep_attempted (ingest_spec w cfg spec s)))" using keys(1) by (simp add: failed(2) fail_spec_def)
      show "set (map fst (ep_attempted (ingest_spec w cfg spec s))) = sp_provider_code ` {x \<in> set (before @ [spec]). attempted x}"
        using keys(2) t failed(1) by (auto simp: failed(2) fail_spec_def)
      fix c
      have "dict_get [] (ep_failures (ingest_spec w cfg spec s)) c = [] \<longleftrightarrow>
          c \<noteq> sp_provider_code spec \<and> dict_get [] (ep_failures s) c = []"
        by (simp add: failed(2) fail_spec_def count_attempt_def dict_get_set)
      also have "\<dots> \<longleftrightarrow> (\<forall>x \<in> set (before @ [spec]). sp_provider_code x = c \<longrightarrow>
          (\<forall>e. (sp_code x, SeriesFailed e) \<notin> set (ep_series (ingest_spec w cfg spec s))))"
        using t other old by (auto simp: failed(2) fail_spec_def count_attempt_def new)
      finally show "dict_get [] (ep_failures (ingest_spec w cfg spec s)) c = [] \<longleftrightarrow> (\<forall>x \<in> set (before @ [spec]).
          sp_provider_code x = c \<longrightarrow> (\<forall>e. (sp_code x, SeriesFailed e) \<notin> set (ep_series (ingest_spec w cfg spec s))))" .
    qed
  next
    case (ingested p f clock k sid cat obs)
    have series: "ep_series (ingest_spec w cfg spec s) = ep_series s @ [(sp_code spec, SeriesIngested k sid clock (sf_meta f))]"
      and fails: "ep_failures (ingest_spec w cfg spec s) = ep_failures s"
      and att: "ep_attempted (ingest_spec w cfg spec s) = ep_attempted (count_attempt spec s)"
      by (simp_all add: ingested(6) count_attempt_def new)
    show ?thesis unfolding tallied_def series fails att using keys t old ingested(1) by auto
  qed
qed

lemma tallied_pass:
  assumes "accounts db before s" and "tallied before s" and "distinct (map sp_code (before @ specs))"
  shows "tallied (before @ specs) (foldl (\<lambda>s spec. ingest_spec w cfg spec s) s specs)"
  using assms
proof (induction specs arbitrary: before s)
  case (Cons spec specs)
  have n: "sp_code spec \<notin> set (map sp_code before)" using Cons.prems(3) by auto
  have a: "accounts db (before @ [spec]) (ingest_spec w cfg spec s)" by (rule accounts_step [OF Cons.prems(1) n])
  have "tallied (before @ [spec]) (ingest_spec w cfg spec s)"
    using tallied_step [OF Cons.prems(2) _ n] Cons.prems(1) by (simp add: accounts_def)
  from Cons.IH [OF a this] Cons.prems(3) show ?case by simp
qed simp

text \<open>C26: Health is a statement about the provider: after a pass the failure counter of a provider that was
  not attempted is as before; it is zero if none of the provider's series failed, and one more than
  before if some did, however many failed or succeeded and in whichever order.\<close>

theorem one_verdict_per_provider:
  assumes "ingest_economic w cfg catalog codes db = (answer, db')" and "result_of answer = Some r"
    and "enabled_specs catalog codes = Inr specs" and "distinct (map sp_code catalog)" and "store_ok (ed_observations db)"
  shows "map consecutive_failures (ed_providers db') = map (\<lambda>row.
     if \<nexists>spec. spec \<in> set specs \<and> attempted spec \<and> sp_provider_code spec = code row then consecutive_failures row
     else if \<exists>spec e. spec \<in> set specs \<and> sp_provider_code spec = code row \<and> (sp_code spec, SeriesFailed e) \<in> set (er_series r)
     then consecutive_failures row + 1 else 0) (ed_providers db)"
proof -
  let ?s = "foldl (\<lambda>s spec. ingest_spec w cfg spec s) (start_economic_pass db) specs"
  obtain specs' where run: "enabled_specs catalog codes = Inr specs'"
    "r = pass_result (foldl (\<lambda>s spec. ingest_spec w cfg spec s) (start_economic_pass db) specs')"
    "db' = finish_economic_pass w (foldl (\<lambda>s spec. ingest_spec w cfg spec s) (start_economic_pass db) specs')"
    by (rule ingest_economic_runs [OF assms(1,2)])
  have s: "specs' = specs" using run(1) assms(3) by simp
  have "tallied [] (start_economic_pass db)" by (simp add: tallied_def start_economic_pass_def dict_get_def)
  then have t: "tallied specs ?s"
    using tallied_pass [OF accounts_start [OF assms(5)], of specs] enabled_specs_codes [OF assms(3,4)] by simp
  have rows: "ed_providers (ep_db ?s) = ed_providers db"
  proof -
    have "ed_providers (ep_db (ingest_spec w cfg spec s)) = ed_providers (ep_db s)" for spec s
      by (cases rule: ingest_spec_cases [of spec w cfg s]) (simp_all add: fail_spec_def count_attempt_def)
    then have "ed_providers (ep_db (foldl (\<lambda>s spec. ingest_spec w cfg spec s) s xs)) = ed_providers (ep_db s)" for s xs
      by (induction xs arbitrary: s) simp_all
    then show ?thesis by (simp add: start_economic_pass_def)
  qed
  have "er_series r = ep_series ?s" unfolding run(2) s by (simp add: pass_result_def)
  then show ?thesis unfolding run(3) s using t
    by (simp add: finish_economic_pass_def rows record_health_map verdict_once tallied_def) (auto simp: image_iff)
qed


section \<open>A second pass\<close>

text \<open>A series whose rows in the catalog tables are what its entry declares.\<close>

definition catalog_settled :: "series_spec \<Rightarrow> int \<Rightarrow> catalog_tables \<Rightarrow> bool" where
  "catalog_settled spec sid t \<longleftrightarrow>
     filter (\<lambda>r. in_code r = sp_code spec) (fst t) \<noteq> [] \<and>
     (\<forall>r \<in> set (filter (\<lambda>r. in_code r = sp_code spec) (fst t)). in_managed r = in_managed (instrument_values spec 0)) \<and>
     (\<exists>r. filter (\<lambda>r. es_code r = sp_code spec) (snd t) = [r] \<and> es_id r = sid \<and> es_managed r = es_managed (series_values spec 0 0)) \<and>
     instrument_admitted (instrument_values spec 0) \<and> catalog_row_admitted (series_values spec 0 0)"

lemma values_at:
  "in_code (instrument_values spec now) = sp_code spec" "es_code (series_values spec i now) = sp_code spec"
  "in_managed (instrument_values spec now) = in_managed (instrument_values spec 0)"
  "es_managed (series_values spec i now) = es_managed (series_values spec 0 0)"
  "es_id (series_values spec i now) = i"
  by (simp_all add: instrument_values_def series_values_def)

lemma values_admitted:
  "instrument_admitted (instrument_values spec now) = instrument_admitted (instrument_values spec 0)"
  "catalog_row_admitted (series_values spec i now) = catalog_row_admitted (series_values spec 0 0)"
  by (simp_all add: instrument_admitted_def catalog_row_admitted_def instrument_values_def series_values_def)

lemma upsert_settled:
  assumes "filter (\<lambda>r. ident r = ident new) t \<noteq> []" and "\<forall>r \<in> set (filter (\<lambda>r. ident r = ident new) t). cols r = cols new"
  shows "upsert_managed ident cols set_m new t = t"
proof -
  have "ident new \<in> ident ` set t" using assms(1) filter_none by metis
  moreover have "map (\<lambda>r. if ident r = ident new \<and> cols r \<noteq> cols new then set_m (cols new) r else r) t = t"
    using assms(2) by (intro map_idI) auto
  ultimately show ?thesis by (simp add: upsert_managed_def)
qed

lemma upsert_elsewhere:
  assumes "\<And>m r. ident (set_m m r) = ident r" and "ident new \<noteq> c"
  shows "filter (\<lambda>r. ident r = c) (upsert_managed ident cols set_m new t) = filter (\<lambda>r. ident r = c) t"
proof -
  have "filter (\<lambda>r. ident r = c)
      (map (\<lambda>r. if ident r = ident new \<and> cols r \<noteq> cols new then set_m (cols new) r else r) t) =
    filter (\<lambda>r. ident r = c) t"
    using assms by (induction t) auto
  then show ?thesis using assms(2) by (simp add: upsert_managed_def)
qed

lemma upsert_has:
  assumes "\<And>m r. ident (set_m m r) = ident r" and "\<And>m r. cols (set_m m r) = m"
  shows "filter (\<lambda>r. ident r = ident new) (upsert_managed ident cols set_m new t) \<noteq> [] \<and>
    (\<forall>r \<in> set (filter (\<lambda>r. ident r = ident new) (upsert_managed ident cols set_m new t)). cols r = cols new)"
proof (cases "ident new \<in> ident ` set t")
  case True
  let ?f = "\<lambda>r. if ident r = ident new \<and> cols r \<noteq> cols new then set_m (cols new) r else r"
  have same: "ident (?f r) = ident r" for r using assms(1) by simp
  obtain x where x: "x \<in> set t" "ident x = ident new" using True by (metis imageE)
  have "filter (\<lambda>r. ident r = ident new) (map ?f t) = map ?f (filter (\<lambda>r. ident r = ident new) t)"
    by (simp only: filter_map comp_def same)
  moreover have "filter (\<lambda>r. ident r = ident new) t \<noteq> []" using x by (auto simp: filter_empty_conv)
  ultimately show ?thesis using True by (simp only: upsert_managed_def if_True) (auto simp: assms(2))
next
  case False
  then show ?thesis using filter_none [OF False] by (auto simp: upsert_managed_def image_iff)
qed

lemma settled_ensure:
  assumes "catalog_settled spec sid (I, S)" and "sp_kind spec = KIND_ECONOMIC_SERIES"
  shows "ensure_series spec now i (I, S) = Inr (sid, I, S)"
proof -
  note c = assms(1) [unfolded catalog_settled_def fst_conv snd_conv]
  obtain r where r: "filter (\<lambda>r. es_code r = sp_code spec) S = [r]" "es_id r = sid" "es_managed r = es_managed (series_values spec 0 0)"
    using c by blast
  have "upsert_managed in_code in_managed (set_instrument now) (instrument_values spec now) I = I"
    by (rule upsert_settled) (use c in \<open>simp_all add: values_at(1) values_at(3) [of spec now]\<close>)
  moreover have "upsert_managed es_code es_managed (set_catalog now) (series_values spec i now) S = S"
    by (rule upsert_settled) (use r in \<open>simp_all add: values_at(2) values_at(4) [of spec i now]\<close>)
  moreover have "existing_kind (sp_code spec) I = Some KIND_ECONOMIC_SERIES"
  proof -
    obtain x xs where x: "filter (\<lambda>r. in_code r = sp_code spec) I = x # xs" using c by (meson list.exhaust)
    then have "in_managed x = in_managed (instrument_values spec 0)" using c by (metis list.set_intros(1))
    then show ?thesis using assms(2) by (simp add: existing_kind_def x instrument_values_def)
  qed
  ultimately show ?thesis using c r(1,2)
    by (simp add: ensure_series_def Let_def values_admitted(1) [of spec now] values_admitted(2) [of spec i now])
qed

lemma ensure_settles:
  assumes "ensure_series spec now i (I, S) = Inr (sid, I', S')"
  shows "catalog_settled spec sid (I', S')"
proof -
  note ok = ensure_series_ok [OF assms]
  have "filter (\<lambda>r. in_code r = sp_code spec) I' \<noteq> [] \<and>
      (\<forall>r \<in> set (filter (\<lambda>r. in_code r = sp_code spec) I'). in_managed r = in_managed (instrument_values spec 0))"
    using upsert_has [of in_code "set_instrument now" in_managed "instrument_values spec now" I]
    unfolding ok(4) values_at(1) values_at(3) [of spec now] by (simp add: set_instrument_def)
  moreover have "\<forall>r \<in> set (filter (\<lambda>r. es_code r = sp_code spec) S'). es_managed r = es_managed (series_values spec 0 0)"
    using upsert_has [of es_code "set_catalog now" es_managed "series_values spec i now" S]
    unfolding ok(5) values_at(2) values_at(4) [of spec i now] by (simp add: set_catalog_def)
  ultimately show ?thesis using ok(2,3,6) unfolding catalog_settled_def fst_conv snd_conv
    values_admitted(1) [of spec now] values_admitted(2) [of spec i now] by (metis list.set_intros(1))
qed

lemma ensure_elsewhere:
  assumes "ensure_series spec' now i (I, S) = Inr (sid', I', S')" and "sp_code spec' \<noteq> sp_code spec"
  shows "catalog_settled spec sid (I', S') \<longleftrightarrow> catalog_settled spec sid (I, S)"
proof -
  note ok = ensure_series_ok [OF assms(1)]
  have "filter (\<lambda>r. in_code r = sp_code spec) I' = filter (\<lambda>r. in_code r = sp_code spec) I"
    unfolding ok(4) by (rule upsert_elsewhere) (simp_all add: set_instrument_def values_at assms(2))
  moreover have "filter (\<lambda>r. es_code r = sp_code spec) S' = filter (\<lambda>r. es_code r = sp_code spec) S"
    unfolding ok(5) by (rule upsert_elsewhere) (simp_all add: set_catalog_def values_at assms(2))
  ultimately show ?thesis unfolding catalog_settled_def fst_conv snd_conv by simp
qed

lemma ensure_ids:
  assumes "ensure_series spec now i (I, S) = Inr (sid, I', S')" and "distinct (map es_id S)" and "i \<notin> es_id ` set S"
  shows "distinct (map es_id S')"
proof -
  have "map es_id (map (\<lambda>r. if es_code r = es_code new \<and> es_managed r \<noteq> es_managed new then set_catalog now (es_managed new) r else r) S)
    = map es_id S" for new :: catalog_row
    by (induction S) (simp_all add: set_catalog_def)
  then show ?thesis using assms(2,3) unfolding ensure_series_ok(5) [OF assms(1)] upsert_managed_def
    by (simp add: values_at(5) del: map_map)
qed

text \<open>Two series of one table have different ids.\<close>

lemma settled_ids:
  assumes "catalog_settled a i (I, S)" and "catalog_settled b j (I, S)" and "distinct (map es_id S)" and "sp_code a \<noteq> sp_code b"
  shows "i \<noteq> j"
proof
  assume same: "i = j"
  obtain x where x: "filter (\<lambda>r. es_code r = sp_code a) S = [x]" "es_id x = i" using assms(1) by (auto simp: catalog_settled_def)
  obtain y where y: "filter (\<lambda>r. es_code r = sp_code b) S = [y]" "es_id y = j" using assms(2) by (auto simp: catalog_settled_def)
  have "x \<in> set S" "es_code x = sp_code a" "y \<in> set S" "es_code y = sp_code b"
    using arg_cong [OF x(1), of set] arg_cong [OF y(1), of set] by auto
  moreover from this have "x = y" using assms(3) same x(2) y(2) by (simp add: distinct_map inj_on_def)
  ultimately show False using assms(4) by simp
qed

text \<open>Such a series, with the rows that state what its source states.\<close>

definition settled :: "series_spec \<Rightarrow> series_point list \<Rightarrow> catalog_tables \<times> observation_table \<Rightarrow> bool" where
  "settled spec ps s \<longleftrightarrow> (\<exists>sid. catalog_settled spec sid (fst s) \<and> (\<forall>p \<in> set ps. \<forall>a. says (point_request sid a p) (snd s)))"

definition sound :: "catalog_tables \<times> observation_table \<Rightarrow> bool" where
  "sound s \<longleftrightarrow> store_ok (snd s) \<and> distinct (map es_id (snd (fst s)))"

definition presentable :: "series_point list \<Rightarrow> bool" where
  "presentable ps \<longleftrightarrow> distinct (map pt_start ps) \<and> NaN \<notin> pt_value ` set ps"

lemma point_check:
  "check_request (point_request sid a p) = (if pt_end p < pt_start p then Inl ValueError else Inr (FloatVal (pt_value p), a))"
  by (simp add: check_request_def point_request_def stored_value_def)

lemma point_period: "wr_period (point_request sid a p) = (sid, pt_start p)"
  by (simp add: wr_period_def point_request_def)

lemma point_says: "says (point_request sid a p) t \<longleftrightarrow> says (point_request sid b p) t"
  by (simp add: says_def point_check point_period) (simp add: point_request_def)

lemma write_points_all:
  "write_points sid a ps (c, t) = map_res (\<lambda>(ss, t'). (foldl (\<lambda>c s. count_write s c) c ss, t'))
    (olog.put_all (map (\<lambda>p. (point_request sid a p, a)) ps) t)"
proof (induction ps arbitrary: c t)
  case (Cons p ps)
  show ?case
  proof (cases "record_observation (point_request sid a p) a t")
    case (Inr x)
    obtain r t1 where x: "x = (r, t1)" by (cases x)
    show ?thesis using Cons [of "count_write (ow_status r) c" t1]
      by (cases "olog.put_all (map (\<lambda>p. (point_request sid a p, a)) ps) t1") (auto simp: Inr x)
  qed simp
qed simp

lemma point_requests_fit:
  assumes "olog.put_all (map (\<lambda>p. (point_request sid a p, a)) ps) t = Inr (ss, t')" and "NaN \<notin> pt_value ` set ps"
  shows "\<forall>p \<in> set ps. writable (point_request sid a p)"
  using assms
proof (induction ps arbitrary: t ss)
  case (Cons p ps)
  obtain r t1 ss1 where r: "record_observation (point_request sid a p) a t = Inr (r, t1)"
    and rest: "olog.put_all (map (\<lambda>p. (point_request sid a p, a)) ps) t1 = Inr (ss1, t')"
    using Cons.prems(1) by (auto simp: bind_res_eq_Inr map_res_eq_Inr)
  have "\<not> pt_end p < pt_start p" using r by (auto simp: record_observation_def plan_write_def point_check)
  then have "writable (point_request sid a p)" using Cons.prems(2) by (auto simp: writable_def point_check)
  then show ?case using Cons.IH [OF rest] Cons.prems(2) by simp
qed simp

lemma write_series_parts:
  assumes "write_series w spec a f (cat, t) = Inr (k, sid, cat', t')"
  shows "ensure_series spec a (ew_new_id w a (snd cat)) cat = Inr (sid, cat')"
    and "\<exists>ss. olog.put_all (map (\<lambda>p. (point_request sid a p, a)) (sf_points f)) t = Inr (ss, t')"
  using assms by (auto simp: write_series_def write_points_all map_res_eq_Inr split: sum.splits)

lemma write_series_settles:
  assumes "write_series w spec a f s = Inr (k, sid, s')" and "sound s" and "presentable (sf_points f)"
    and "ew_new_id w a (snd (fst s)) \<notin> es_id ` set (snd (fst s))"
  shows "settled spec (sf_points f) s' \<and> sound s'"
proof -
  obtain cat t cat' t' where s: "s = (cat, t)" "s' = (cat', t')" by (metis surj_pair)
  obtain I S I' S' where cats: "cat = (I, S)" "cat' = (I', S')" by (metis surj_pair)
  note parts = write_series_parts [OF assms(1) [unfolded s]]
  obtain ss where ss: "olog.put_all (map (\<lambda>p. (point_request sid a p, a)) (sf_points f)) t = Inr (ss, t')" using parts(2) by blast
  have ok: "store_ok t" using assms(2) s by (simp add: sound_def)
  have d: "distinct (map (wr_period \<circ> fst) (map (\<lambda>p. (point_request sid a p, a)) (sf_points f)))"
    using assms(3) by (simp add: presentable_def point_period comp_def distinct_map inj_on_def)
  have "\<forall>(v, n) \<in> set (map (\<lambda>p. (point_request sid a p, a)) (sf_points f)). writable v"
    using point_requests_fit [OF ss] assms(3) by (simp add: presentable_def)
  from olog.put_all_claims [OF ok ss d this] have "\<forall>p \<in> set (sf_points f). says (point_request sid a p) t'" by simp
  then have "\<forall>p \<in> set (sf_points f). \<forall>b. says (point_request sid b p) t'" using point_says by blast
  moreover have "catalog_settled spec sid cat'" using parts(1) unfolding cats by (rule ensure_settles)
  moreover have "store_ok t'" using write_series_ok(1) [of w spec a f s k sid cat' t'] assms(1) ok s by simp
  moreover have "distinct (map es_id S')"
    using ensure_ids [OF parts(1) [unfolded cats]] assms(2,4) by (simp add: sound_def s cats)
  ultimately show ?thesis unfolding settled_def sound_def s cats by auto
qed

lemma write_series_elsewhere:
  assumes "write_series w spec' a f s = Inr (k, sid', s')" and "sound s" and "sp_code spec' \<noteq> sp_code spec"
    and "ew_new_id w a (snd (fst s)) \<notin> es_id ` set (snd (fst s))" and "settled spec ps s"
  shows "settled spec ps s'"
proof -
  obtain cat t cat' t' where s: "s = (cat, t)" "s' = (cat', t')" by (metis surj_pair)
  obtain I S I' S' where cats: "cat = (I, S)" "cat' = (I', S')" by (metis surj_pair)
  note parts = write_series_parts [OF assms(1) [unfolded s]]
  obtain ss where ss: "olog.put_all (map (\<lambda>p. (point_request sid' a p, a)) (sf_points f)) t = Inr (ss, t')" using parts(2) by blast
  obtain sid where sid: "catalog_settled spec sid cat" "\<forall>p \<in> set ps. \<forall>a. says (point_request sid a p) t"
    using assms(5) s by (auto simp: settled_def)
  have here: "catalog_settled spec sid cat'" using ensure_elsewhere [OF parts(1) [unfolded cats] assms(3)] sid(1) cats by simp
  have "distinct (map es_id S')"
    using ensure_ids [OF parts(1) [unfolded cats]] assms(2,4) by (simp add: sound_def s cats)
  then have "sid \<noteq> sid'"
    using settled_ids [OF here [unfolded cats] ensure_settles [OF parts(1) [unfolded cats]]] assms(3) by auto
  then have other: "\<forall>(v, n) \<in> set (map (\<lambda>p. (point_request sid' a p, a)) (sf_points f)). wr_period (point_request sid b p) \<noteq> wr_period v" for b p
    by (simp add: point_period)
  have ok: "store_ok t" using assms(2) s by (simp add: sound_def)
  have "\<forall>p \<in> set ps. \<forall>b. says (point_request sid b p) t'"
    using olog.put_all_frame [OF ok ss other] sid(2) by blast
  then show ?thesis using here unfolding settled_def s by auto
qed

lemma write_series_silent:
  assumes "settled spec (sf_points f) s" and "sound s" and "sp_kind spec = KIND_ECONOMIC_SERIES"
  shows "\<exists>k sid. write_series w spec a f s = Inr (k, sid, s) \<and>
    ic_inserted k = 0 \<and> ic_revised k = 0 \<and> ic_raced k = 0 \<and> ic_unchanged k = ic_fetched k"
proof -
  obtain I S t where s: "s = ((I, S), t)" by (metis surj_pair)
  obtain sid where sid: "catalog_settled spec sid (I, S)" "\<forall>p \<in> set (sf_points f). \<forall>a. says (point_request sid a p) t"
    using assms(1) s by (auto simp: settled_def)
  have ok: "store_ok t" using assms(2) s by (simp add: sound_def)
  let ?n = "length (sf_points f)"
  have "olog.put_all (map (\<lambda>p. (point_request sid a p, a)) (sf_points f)) t = Inr (replicate ?n Unchanged, t)"
    using olog.put_all_silent [OF ok, of "map (\<lambda>p. (point_request sid a p, a)) (sf_points f)"] sid(2) by simp
  then have "write_series w spec a f s = Inr (foldl (\<lambda>c s. count_write s c) (fetch_counts f) (replicate ?n Unchanged), sid, s)"
    using settled_ensure [OF sid(1) assms(3)] by (simp add: write_series_def s write_points_all)
  moreover have "foldl (\<lambda>c s. count_write s c) c (replicate n Unchanged) = c\<lparr>ic_unchanged := ic_unchanged c + int n\<rparr>" for c n
    by (induction n arbitrary: c) (simp_all add: count_write_def)
  ultimately show ?thesis by (simp add: fetch_counts_def empty_counts_def)
qed


text \<open>The adapters of a source that does not change, with payloads that name a period once and hold no NaN.\<close>

definition steady :: "source_world \<Rightarrow> bool" where
  "steady w \<longleftrightarrow> (\<forall>p spec c c' f. fst (ew_fetch w p spec c) = Inr f \<longrightarrow>
     presentable (sf_points f) \<and> (\<exists>g. fst (ew_fetch w p spec c') = Inr g \<and> sf_points g = sf_points f))"

definition fresh_ids :: "source_world \<Rightarrow> bool" where
  "fresh_ids w \<longleftrightarrow> (\<forall>now t. ew_new_id w now t \<notin> es_id ` set t)"

text \<open>What the first pass leaves: for each attempted series, rows that state what its source states.\<close>

definition served :: "source_world \<Rightarrow> provider_settings \<Rightarrow> series_spec \<Rightarrow> catalog_tables \<times> observation_table \<Rightarrow> bool" where
  "served w cfg spec s \<longleftrightarrow> (\<exists>p f c. build_provider (sp_provider_code spec) cfg = Some p \<and> serves_series p \<and>
     fst (ew_fetch w p spec c) = Inr f \<and> settled spec (sf_points f) s)"

definition first_done :: "source_world \<Rightarrow> provider_settings \<Rightarrow> series_spec list \<Rightarrow> economic_pass \<Rightarrow> bool" where
  "first_done w cfg done' s \<longleftrightarrow> sound (tables_of (ep_db s)) \<and> 0 \<le> ep_failed s \<and>
     (ep_failed s = 0 \<longrightarrow> (\<forall>spec \<in> set done'. attempted spec \<longrightarrow> served w cfg spec (tables_of (ep_db s))))"

lemma first_step:
  assumes "first_done w cfg before s" and "sp_code spec \<notin> set (map sp_code before)" and "steady w" and "fresh_ids w"
  shows "first_done w cfg (before @ [spec]) (ingest_spec w cfg spec s)"
proof -
  note old = assms(1) [unfolded first_done_def]
  show ?thesis
  proof (cases rule: ingest_spec_cases [of spec w cfg s])
    case (skipped report)
    then show ?thesis using old by (simp add: first_done_def)
  next
    case (failed e clock)
    then show ?thesis using old by (simp add: first_done_def fail_spec_def count_attempt_def tables_of_def)
  next
    case (ingested p f clock k sid cat obs)
    have after: "tables_of (ep_db (ingest_spec w cfg spec s)) = (cat, obs)" "ep_failed (ingest_spec w cfg spec s) = ep_failed s"
      by (simp_all add: ingested(6) tables_of_def count_attempt_def)
    have w: "write_series w spec clock f (tables_of (ep_db s)) = Inr (k, sid, (cat, obs))" using ingested(5) by (simp add: tables_of_def)
    have fresh: "ew_new_id w clock (snd (fst (tables_of (ep_db s)))) \<notin> es_id ` set (snd (fst (tables_of (ep_db s))))"
      using assms(4) by (simp add: fresh_ids_def)
    have f: "fst (ew_fetch w p spec (ed_clock (ep_db s))) = Inr f" using ingested(4) by simp
    then have "presentable (sf_points f)" using assms(3) unfolding steady_def by blast
    then have new: "settled spec (sf_points f) (cat, obs)" "sound (cat, obs)"
      using write_series_settles [OF w _ _ fresh] old by blast+
    have "served w cfg x (cat, obs)" if "served w cfg x (tables_of (ep_db s))" "x \<in> set before" for x
    proof -
      have "sp_code spec \<noteq> sp_code x" using assms(2) that(2) by (metis imageI set_map)
      then show ?thesis using that(1) write_series_elsewhere [OF w _ _ fresh] old unfolding served_def by blast
    qed
    moreover have "served w cfg spec (cat, obs)" unfolding served_def using ingested(2,3) f new(1) by blast
    ultimately show ?thesis using old new(2) unfolding first_done_def after by auto
  qed
qed

lemma first_pass:
  assumes "first_done w cfg before s" and "distinct (map sp_code (before @ specs))" and "steady w" and "fresh_ids w"
  shows "first_done w cfg (before @ specs) (foldl (\<lambda>s spec. ingest_spec w cfg spec s) s specs)"
  using assms(1,2)
proof (induction specs arbitrary: before s)
  case (Cons spec specs)
  have "first_done w cfg (before @ [spec]) (ingest_spec w cfg spec s)"
    using first_step [OF Cons.prems(1) _ assms(3,4)] Cons.prems(2) by simp
  from Cons.IH [OF this] Cons.prems(2) show ?case by simp
qed simp

definition silent_report :: "series_report \<Rightarrow> bool" where
  "silent_report r \<longleftrightarrow> (case r of SeriesFailed e \<Rightarrow> False
     | SeriesIngested k sid a m \<Rightarrow> ic_inserted k = 0 \<and> ic_revised k = 0 \<and> ic_raced k = 0 \<and> ic_unchanged k = ic_fetched k
     | _ \<Rightarrow> True)"

lemma silent_step:
  assumes "sound (tables_of (ep_db s))" and "attempted spec \<longrightarrow> served w cfg spec (tables_of (ep_db s))"
    and "sp_kind spec = KIND_ECONOMIC_SERIES" and "steady w"
  shows "tables_of (ep_db (ingest_spec w cfg spec s)) = tables_of (ep_db s) \<and> ep_failed (ingest_spec w cfg spec s) = ep_failed s \<and>
    (\<exists>r. ep_series (ingest_spec w cfg spec s) = dict_set (sp_code spec) r (ep_series s) \<and> silent_report r)"
proof (cases "attempted spec")
  case False
  show ?thesis
  proof (cases rule: ingest_spec_cases [of spec w cfg s])
    case (skipped report)
    have "silent_report report" using skipped(2,3)
      by (simp add: silent_report_def is_failed_def is_ingested_def split: series_report.splits)
    then show ?thesis using skipped(4) by auto
  qed (use False in simp_all)
next
  case True
  then obtain p f c where p: "build_provider (sp_provider_code spec) cfg = Some p" "serves_series p"
    and f: "fst (ew_fetch w p spec c) = Inr f" "settled spec (sf_points f) (tables_of (ep_db s))"
    using assms(2) unfolding served_def by blast
  obtain g where "fst (ew_fetch w p spec (ed_clock (ep_db s))) = Inr g" and same: "sf_points g = sf_points f"
    using assms(4) f(1) unfolding steady_def by blast
  then obtain clock where g: "ew_fetch w p spec (ed_clock (ep_db s)) = (Inr g, clock)" by (metis prod.collapse)
  have set: "settled spec (sf_points g) (tables_of (ep_db s))" using f(2) same by simp
  obtain k sid where k: "write_series w spec clock g (tables_of (ep_db s)) = Inr (k, sid, tables_of (ep_db s))"
    and quiet: "ic_inserted k = 0 \<and> ic_revised k = 0 \<and> ic_raced k = 0 \<and> ic_unchanged k = ic_fetched k"
    using write_series_silent [OF set assms(1,3), of w clock] by blast
  have "ingest_one w cfg spec (ep_db s) = (SeriesIngested k sid clock (sf_meta g), (ep_db s)\<lparr>ed_clock := clock\<rparr>)"
    using k p g by (simp add: ingest_one_def tables_of_def)
  then have "ingest_spec w cfg spec s = (count_attempt spec s)\<lparr>ep_db := (ep_db s)\<lparr>ed_clock := clock\<rparr>,
      ep_series := dict_set (sp_code spec) (SeriesIngested k sid clock (sf_meta g)) (ep_series s), ep_ingested := ep_ingested s + 1\<rparr>"
    using True by (simp add: ingest_spec_def attempted_def count_attempt_def Let_def)
  then show ?thesis using quiet
    by (intro conjI exI [of _ "SeriesIngested k sid clock (sf_meta g)"])
      (simp_all add: tables_of_def count_attempt_def silent_report_def)
qed

lemma dict_set_values: "set (dict_set k v d) \<subseteq> insert (k, v) (set d)"
  by (auto simp: dict_set_def)

lemma silent_pass:
  assumes "sound (tables_of (ep_db s))" and "\<forall>spec \<in> set specs. attempted spec \<longrightarrow> served w cfg spec (tables_of (ep_db s))"
    and "\<forall>spec \<in> set specs. sp_kind spec = KIND_ECONOMIC_SERIES" and "steady w" and "\<forall>x \<in> set (ep_series s). silent_report (snd x)"
  shows "tables_of (ep_db (foldl (\<lambda>s spec. ingest_spec w cfg spec s) s specs)) = tables_of (ep_db s) \<and>
    ep_failed (foldl (\<lambda>s spec. ingest_spec w cfg spec s) s specs) = ep_failed s \<and>
    (\<forall>x \<in> set (ep_series (foldl (\<lambda>s spec. ingest_spec w cfg spec s) s specs)). silent_report (snd x))"
  using assms(1-3,5)
proof (induction specs arbitrary: s)
  case (Cons spec specs)
  have att: "attempted spec \<longrightarrow> served w cfg spec (tables_of (ep_db s))" and kind: "sp_kind spec = KIND_ECONOMIC_SERIES"
    using Cons.prems(2,3) by simp_all
  note step = silent_step [OF Cons.prems(1) att kind assms(4)]
  obtain r where r: "ep_series (ingest_spec w cfg spec s) = dict_set (sp_code spec) r (ep_series s)" "silent_report r" using step by blast
  have "\<forall>x \<in> set (ep_series (ingest_spec w cfg spec s)). silent_report (snd x)"
    using dict_set_values [of "sp_code spec" r "ep_series s"] r Cons.prems(4) by auto
  then show ?case using Cons.IH [of "ingest_spec w cfg spec s"] Cons.prems step by simp
qed simp

lemma by_code_declared: "by_code catalog c = Some s \<Longrightarrow> s \<in> set catalog"
  unfolding by_code_def find_Some_iff by (metis nth_mem set_rev)

lemma selected_subset:
  assumes "enabled_specs catalog codes = Inr specs"
  shows "set specs \<subseteq> set catalog"
proof (cases "codes = []")
  case True
  then show ?thesis using assms by (auto simp: enabled_specs_def)
next
  case False
  have "set (named_specs catalog seen cs) \<subseteq> set catalog" for seen cs
    by (induction catalog seen cs rule: named_specs.induct) (auto dest: by_code_declared split: option.splits)
  then show ?thesis using assms False by (auto simp: enabled_specs_def Let_def split: if_splits)
qed

text \<open>Re-running a pass is safe: over sources that did not change, a second pass right after one without
  failures, at whatever time, stores nothing and changes nothing in the catalog and the observations,
  fails nowhere, and reports every fetched value of every series as unchanged.\<close>

theorem second_pass_silent:
  assumes "ingest_economic w cfg catalog codes db = (Inr r, db')" and "er_failed r = 0"
    and "steady w" and "fresh_ids w" and "sound (tables_of db)"
    and "distinct (map sp_code catalog)" and "\<forall>spec \<in> set catalog. sp_kind spec = KIND_ECONOMIC_SERIES"
  shows "\<exists>r2 db2. ingest_economic w cfg catalog codes (db'\<lparr>ed_clock := later\<rparr>) = (Inr r2, db2) \<and> er_failed r2 = 0 \<and>
    tables_of db2 = tables_of db' \<and> (\<forall>x \<in> set (er_series r2). silent_report (snd x))"
proof -
  let ?run = "\<lambda>s specs. foldl (\<lambda>s spec. ingest_spec w cfg spec s) s specs"
  have "result_of (Inr r) = Some r" by (simp add: result_of_def)
  then obtain specs where run: "enabled_specs catalog codes = Inr specs" "r = pass_result (?run (start_economic_pass db) specs)"
    "db' = finish_economic_pass w (?run (start_economic_pass db) specs)"
    using ingest_economic_runs [OF assms(1)] by metis
  have "first_done w cfg [] (start_economic_pass db)" using assms(5) by (simp add: first_done_def start_economic_pass_def)
  then have "first_done w cfg specs (?run (start_economic_pass db) specs)"
    using first_pass [OF _ _ assms(3,4), of cfg "[]" _ specs] enabled_specs_codes [OF run(1) assms(6)] by simp
  moreover have same: "tables_of db' = tables_of (ep_db (?run (start_economic_pass db) specs))"
    unfolding run(3) by (simp add: finish_economic_pass_def tables_of_def)
  moreover have "ep_failed (?run (start_economic_pass db) specs) = 0" using assms(2) unfolding run(2) by (simp add: pass_result_def)
  ultimately have done1: "sound (tables_of db')" "\<forall>spec \<in> set specs. attempted spec \<longrightarrow> served w cfg spec (tables_of db')"
    unfolding first_done_def by simp_all
  let ?s = "start_economic_pass (db'\<lparr>ed_clock := later\<rparr>)"
  have start: "tables_of (ep_db ?s) = tables_of db'" "ep_series ?s = []" "ep_failed ?s = 0"
    by (simp_all add: start_economic_pass_def tables_of_def)
  have kinds: "\<forall>spec \<in> set specs. sp_kind spec = KIND_ECONOMIC_SERIES" using selected_subset [OF run(1)] assms(7) by blast
  have quiet: "tables_of (ep_db (?run ?s specs)) = tables_of db'" "ep_failed (?run ?s specs) = 0"
    "\<forall>x \<in> set (ep_series (?run ?s specs)). silent_report (snd x)"
    using silent_pass [OF _ _ kinds assms(3), of ?s cfg] done1 start by simp_all
  have "ingest_economic w cfg catalog codes (db'\<lparr>ed_clock := later\<rparr>) = (Inr (pass_result (?run ?s specs)), finish_economic_pass w (?run ?s specs))"
    using quiet(2) by (simp add: ingest_economic_def run(1) Let_def pass_result_def)
  then show ?thesis using quiet by (auto simp: pass_result_def finish_economic_pass_def tables_of_def)
qed


section \<open>Witnesses\<close>

definition one_point :: series_fetch where
  "one_point = \<lparr>sf_points = [\<lparr>pt_start = 10, pt_end = 20, pt_label = ''2025'', pt_value = Fin 3, pt_projection = False,
     pt_nowcast = False, pt_published = None\<rparr>], sf_skipped_null = 2, sf_meta = JNull\<rparr>"

definition steady_world :: source_world where
  "steady_world = \<lparr>ew_fetch = (\<lambda>p spec c. (Inr one_point, c + 1)),
     ew_new_id = (\<lambda>now t. if t = [] then 1 else Max (es_id ` set t) + 1), ew_text = (\<lambda>e. ''failed''), ew_decimal = (\<lambda>n. ''n'')\<rparr>"

text \<open>Its one provider has failed three times in a row.\<close>

definition ailing_provider :: provider_row where
  "ailing_provider = \<lparr>code = ''worldbank'', provider_name = [], category = [], priority = 1, enabled = True,
     last_success_at = None, last_error_at = None, last_error = None, consecutive_failures = 3, updated_at = None\<rparr>"

definition empty_db :: economic_db where
  "empty_db = \<lparr>ed_catalog = ([], []), ed_observations = [], ed_providers = [ailing_provider], ed_clock = 5\<rparr>"

definition no_keys :: provider_settings where
  "no_keys = \<lparr>brsapi_api_key = [], navasan_api_key = [], metals_dev_api_key = []\<rparr>"

lemma steady_world_laws: "steady steady_world" "fresh_ids steady_world"
proof -
  show "steady steady_world" by (auto simp: steady_def steady_world_def one_point_def presentable_def)
  have "Max (es_id ` set t) + 1 \<notin> es_id ` set t" if "t \<noteq> []" for t
  proof
    assume "Max (es_id ` set t) + 1 \<in> es_id ` set t"
    then have "Max (es_id ` set t) + 1 \<le> Max (es_id ` set t)" by (intro Max_ge) simp_all
    then show False by simp
  qed
  then have "ew_new_id steady_world now t \<notin> es_id ` set t" for now t by (cases "t = []") (auto simp: steady_world_def)
  then show "fresh_ids steady_world" by (simp add: fresh_ids_def)
qed

lemma demo_pass:
  "\<exists>r db. ingest_economic steady_world no_keys [cpi_spec] [] empty_db = (Inr r, db) \<and> er_failed r = 0 \<and> er_ingested r = 1 \<and>
    (\<forall>c e. (c, SeriesFailed e) \<notin> set (er_series r))"
proof -
  have ens: "ensure_series cpi_spec 6 1 ([], []) = Inr (1, [instrument_values cpi_spec 6], [series_values cpi_spec 1 6])"
  proof -
    have "instrument_admitted (instrument_values cpi_spec 6)" "catalog_row_admitted (series_values cpi_spec 1 6)" by code_simp+
    then show ?thesis by (simp add: ensure_series_def existing_kind_def upsert_managed_def) (simp add: series_values_def)
  qed
  have rec: "\<exists>x. record_observation (point_request 1 6 p) 6 [] = Inr x" if "pt_start p = 10" "pt_end p = 20" for p
    using that by (simp add: record_observation_def plan_write_def check_request_def stored_value_def current_row_def period_rows_def newest_first_def
      first_row_def newest_available_def finish_write_def insert_observation_def observation_admitted_def insert_ignore_def write_row_def point_request_def)
  have "\<exists>k obs. write_series steady_world cpi_spec 6 one_point (([], []), []) = Inr (k, 1, ([instrument_values cpi_spec 6], [series_values cpi_spec 1 6]), obs)"
  proof -
    have "ew_new_id steady_world 6 (snd ([], [])) = 1" by (simp add: steady_world_def)
    then show ?thesis using ens rec [of "hd (sf_points one_point)"]
      by (auto simp: write_series_def one_point_def)
  qed
  moreover have "build_provider ''worldbank'' no_keys = Some WorldBankProvider" by code_simp
  moreover have "ew_fetch steady_world WorldBankProvider cpi_spec 5 = (Inr one_point, 6)" by (simp add: steady_world_def)
  moreover have "sp_provider_code cpi_spec = ''worldbank''" "sp_enabled cpi_spec" by (simp_all add: cpi_spec_def)
  ultimately show ?thesis
    by (auto simp: ingest_economic_def enabled_specs_def ingest_spec_def ingest_one_def start_economic_pass_def empty_db_def
      count_attempt_def DOCUMENT_INGEST_PROVIDERS_def serves_series_def pass_result_def Let_def dict_set_def)
qed

lemma empty_ok: "store_ok (ed_observations empty_db)" "sound (tables_of empty_db)"
  by (simp_all add: empty_db_def store_ok_def sound_def tables_of_def)

lemma demo_selected: "enabled_specs [cpi_spec] [] = Inr [cpi_spec]"
  by (simp add: enabled_specs_def cpi_spec_def)

theorem pass_accounts_witness:
  "\<exists>r db. ingest_economic steady_world no_keys [cpi_spec] [] empty_db = (Inr r, db) \<and> map fst (er_series r) = [''IR_CPI'']"
proof -
  obtain r db where run: "ingest_economic steady_world no_keys [cpi_spec] [] empty_db = (Inr r, db)" using demo_pass by blast
  have "result_of (Inr r) = Some r" by (simp add: result_of_def)
  from pass_accounts [OF run this demo_selected _ empty_ok(1)] have "map fst (er_series r) = [sp_code cpi_spec]" by simp
  moreover have "sp_code cpi_spec = ''IR_CPI''" by (simp add: cpi_spec_def)
  ultimately show ?thesis using run by simp
qed

theorem pass_is_transactions_witness:
  "\<exists>r db ts. ingest_economic steady_world no_keys [cpi_spec] [] empty_db = (Inr r, db) \<and>
    run_transactions steady_world ts (tables_of empty_db) = Inr (tables_of db)"
proof -
  obtain r db where run: "ingest_economic steady_world no_keys [cpi_spec] [] empty_db = (Inr r, db)" using demo_pass by blast
  have "result_of (Inr r) = Some r" by (simp add: result_of_def)
  from pass_is_transactions [OF run this] show ?thesis using run by auto
qed

text \<open>The provider that had failed three times answers: its counter is zero again.\<close>

theorem one_verdict_per_provider_witness:
  "\<exists>r db. ingest_economic steady_world no_keys [cpi_spec] [] empty_db = (Inr r, db) \<and>
    map consecutive_failures (ed_providers empty_db) = [3] \<and> map consecutive_failures (ed_providers db) = [0]"
proof -
  obtain r db where run: "ingest_economic steady_world no_keys [cpi_spec] [] empty_db = (Inr r, db)"
    and ok: "\<forall>c e. (c, SeriesFailed e) \<notin> set (er_series r)" using demo_pass by blast
  have "result_of (Inr r) = Some r" by (simp add: result_of_def)
  note verdict = one_verdict_per_provider [OF run this demo_selected _ empty_ok(1)]
  have "attempted cpi_spec" "sp_provider_code cpi_spec = ''worldbank''" by code_simp+
  then show ?thesis using run verdict ok by (auto simp: empty_db_def ailing_provider_def)
qed

theorem second_pass_silent_witness:
  "\<exists>r db r2 db2. ingest_economic steady_world no_keys [cpi_spec] [] empty_db = (Inr r, db) \<and>
    ingest_economic steady_world no_keys [cpi_spec] [] (db\<lparr>ed_clock := 99\<rparr>) = (Inr r2, db2) \<and> tables_of db2 = tables_of db"
proof -
  obtain r db where run: "ingest_economic steady_world no_keys [cpi_spec] [] empty_db = (Inr r, db)" "er_failed r = 0"
    using demo_pass by blast
  have "sp_kind cpi_spec = KIND_ECONOMIC_SERIES" by (simp add: cpi_spec_def KIND_ECONOMIC_SERIES_def)
  then show ?thesis using second_pass_silent [OF run steady_world_laws empty_ok(2), of 99] run by auto
qed

end
