(* ===== verification/Intervals.thy ===== *)
theory Intervals
  imports Signal_Engine "HOL-Library.Multiset"
begin

text \<open>
  \<^verbatim>\<open>app/models/intervals.py\<close>: prediction intervals from the relative residuals of past forecasts. The radius
  and the two tails are order statistics of the residual pool (split conformal prediction); the level is
  adapted to the coverage that was observed live; the coverage of a fold set is measured with the
  residuals of the folds before each fold. numpy's arrays are a parameter (\<open>arraylib\<close>), with its documented
  laws in the locale \<open>arrays\<close>; the size of an array is below \<open>2 ^ 1024\<close>, so that its conversion to a float does
  not overflow.

  Shown: the finite-sample guarantee the module claims, over the rounded arithmetic of the code; the walk
  forward is the reference definition in which a fold sees the residuals of earlier folds only; an
  interval never comes out reversed.
\<close>

section \<open>Arrays\<close>

record arraylib =
  al_abs :: "pyfloat \<Rightarrow> pyfloat"
  al_isfinite :: "pyfloat \<Rightarrow> bool"
  al_sort :: "pyfloat list \<Rightarrow> pyfloat list"
  al_sum_bool :: "bool list \<Rightarrow> int"

section \<open>Residuals and order statistics\<close>

definition DEFAULT_ALPHA :: pyfloat where
  "DEFAULT_ALPHA = lit (1 / 10)"

definition MIN_EVIDENCE_RADIUS :: pyfloat where
  "MIN_EVIDENCE_RADIUS = lit (5 / 100)"

text \<open>\<^verbatim>\<open>math.ceil\<close> and \<^verbatim>\<open>math.floor\<close> of a float.\<close>

definition fceil_int :: "pyfloat \<Rightarrow> int res" where
  "fceil_int a = (case a of Fin x \<Rightarrow> Inr \<lceil>x\<rceil> | NaN \<Rightarrow> Inl ValueError | _ \<Rightarrow> Inl OverflowError)"

definition ffloor_int :: "pyfloat \<Rightarrow> int res" where
  "ffloor_int a = (case a of Fin x \<Rightarrow> Inr \<lfloor>x\<rfloor> | NaN \<Rightarrow> Inl ValueError | _ \<Rightarrow> Inl OverflowError)"

text \<open>A length as a float operand.\<close>

definition flen :: "nat \<Rightarrow> pyfloat" where
  "flen n = rnd (of_nat n)"

definition residual :: "pyfloat \<Rightarrow> pyfloat \<Rightarrow> pyfloat list" where
  "residual p a = (if feq p (Fin 0) then [] else [fquot (fsub a p) p])"

definition relative_residuals :: "pyfloat list \<Rightarrow> pyfloat list \<Rightarrow> pyfloat list" where
  "relative_residuals preds actuals = concat (map2 residual preds actuals)"

definition symmetric_min_n :: "pyfloat \<Rightarrow> int res" where
  "symmetric_min_n alpha = bind_res (fdiv (Fin 1) alpha) (\<lambda>q. map_res (\<lambda>c. max 1 (c - 1)) (fceil_int q))"

definition two_sided_min_n :: "pyfloat \<Rightarrow> int res" where
  "two_sided_min_n alpha = bind_res (fdiv (Fin 2) alpha) (\<lambda>q. map_res (\<lambda>c. max 1 (c - 1)) (fceil_int q))"

definition conformal_radius :: "arraylib \<Rightarrow> pyfloat list \<Rightarrow> pyfloat \<Rightarrow> (pyfloat \<times> bool) res" where
  "conformal_radius al residuals alpha = (let r = filter (al_isfinite al) (map (al_abs al) residuals); n = length r in
     if n = 0 then Inr (MIN_EVIDENCE_RADIUS, False)
     else bind_res (fceil_int (fmul (flen (n + 1)) (fsub (Fin 1) alpha))) (\<lambda>k.
       let ordered = al_sort al r in
       if k \<le> int n then map_res (\<lambda>x. (x, True)) (py_index ordered (k - 1))
       else bind_res (fdiv (fmul (flen (n + 1)) (fsub (Fin 1) alpha)) (flen n)) (\<lambda>inflation.
         map_res (\<lambda>x. (fmax (fmul x inflation) MIN_EVIDENCE_RADIUS, False)) (py_index ordered (- 1)))))"

section \<open>The interval\<close>

text \<open>The method of an interval with the residuals it reports, rounded.\<close>

datatype interval_method =
    ConformalTwoSided pyfloat pyfloat
  | ConformalSymmetric pyfloat
  | ConformalExtrapolated pyfloat

fun coverage_guaranteed :: "interval_method \<Rightarrow> bool" where
  "coverage_guaranteed (ConformalTwoSided _ _) = True"
| "coverage_guaranteed (ConformalSymmetric _) = True"
| "coverage_guaranteed (ConformalExtrapolated _) = False"

record interval_diagnostics =
  dg_n :: int
  dg_alpha :: pyfloat
  dg_method :: interval_method
  dg_min_symmetric :: int
  dg_min_two_sided :: int
  dg_rel_width :: pyfloat

definition tail_ranks :: "nat \<Rightarrow> pyfloat \<Rightarrow> (int \<times> int) res" where
  "tail_ranks n alpha = bind_res (fdiv alpha (Fin 2)) (\<lambda>half.
     bind_res (ffloor_int (fmul (flen (n + 1)) half)) (\<lambda>lo.
     map_res (\<lambda>hi. (max 1 lo, min (int n) hi)) (fceil_int (fmul (flen (n + 1)) (fsub (Fin 1) half)))))"

text \<open>The two relative bounds, from the finite residuals of the pool.\<close>

definition residual_band :: "arraylib \<Rightarrow> pyfloat list \<Rightarrow> pyfloat \<Rightarrow> (pyfloat \<times> pyfloat \<times> interval_method) res" where
  "residual_band al r alpha = bind_res (two_sided_min_n alpha) (\<lambda>enough.
     if enough \<le> int (length r)
     then let ordered = al_sort al r in
       bind_res (tail_ranks (length r) alpha) (\<lambda>(lo, hi).
       bind_res (py_index ordered (lo - 1)) (\<lambda>lo_q.
       map_res (\<lambda>hi_q. (lo_q, hi_q, ConformalTwoSided (fround lo_q 6) (fround hi_q 6))) (py_index ordered (hi - 1))))
     else map_res (\<lambda>(radius, guaranteed). (fneg radius, radius,
         (if guaranteed then ConformalSymmetric else ConformalExtrapolated) (fround radius 6)))
       (conformal_radius al r alpha))"

definition conformal_interval ::
  "arraylib \<Rightarrow> pyfloat \<Rightarrow> pyfloat list \<Rightarrow> pyfloat \<Rightarrow> (pyfloat \<times> pyfloat \<times> interval_diagnostics) res" where
  "conformal_interval al point residuals alpha = (let r = filter (al_isfinite al) residuals in
     bind_res (symmetric_min_n alpha) (\<lambda>min_symmetric.
     bind_res (two_sided_min_n alpha) (\<lambda>min_two_sided.
     map_res (\<lambda>(lo_q, hi_q, method).
       let lower = fmul point (fadd (Fin 1) lo_q); upper = fmul point (fadd (Fin 1) hi_q);
         (lower, upper) = (if flt upper lower then (upper, lower) else (lower, upper)) in
       (lower, upper,
        \<lparr>dg_n = int (length r), dg_alpha = fround alpha 4, dg_method = method,
         dg_min_symmetric = min_symmetric, dg_min_two_sided = min_two_sided,
         dg_rel_width = fround (if feq point (Fin 0) then Fin 0
           else fmul (fquot (fsub upper lower) point) (Fin 100)) 4\<rparr>))
       (residual_band al r alpha))))"

definition empirical_interval :: "arraylib \<Rightarrow> pyfloat \<Rightarrow> pyfloat list \<Rightarrow> pyfloat \<Rightarrow> (pyfloat \<times> pyfloat) res" where
  "empirical_interval al point residuals alpha =
     map_res (\<lambda>(lower, upper, _). (lower, upper)) (conformal_interval al point residuals alpha)"

section \<open>Adaptive level and coverage\<close>

definition ACI_GAIN :: pyfloat where "ACI_GAIN = lit (1 / 2)"
definition ACI_MIN_ALPHA :: pyfloat where "ACI_MIN_ALPHA = lit (2 / 100)"
definition ACI_MAX_ALPHA :: pyfloat where "ACI_MAX_ALPHA = lit (30 / 100)"
definition ACI_MIN_N :: int where "ACI_MIN_N = 20"

definition adaptive_alpha :: "numlib \<Rightarrow> pyfloat option \<Rightarrow> int \<Rightarrow> pyfloat \<Rightarrow> pyfloat \<Rightarrow> pyfloat" where
  "adaptive_alpha np live n alpha target =
     (case live of
        None \<Rightarrow> alpha
      | Some c \<Rightarrow> if n < ACI_MIN_N then alpha
          else np_clip np (fadd alpha (fmul ACI_GAIN (fsub c target))) ACI_MIN_ALPHA ACI_MAX_ALPHA)"

definition MIN_SCORED_FOR_COVERAGE :: int where
  "MIN_SCORED_FOR_COVERAGE = 20"

record coverage_evidence =
  ce_hits :: int
  ce_scored :: int
  ce_min_scored :: int
  ce_offered :: int
  ce_warmup :: int

definition sufficient :: "coverage_evidence \<Rightarrow> bool" where
  "sufficient e \<longleftrightarrow> ce_min_scored e \<le> ce_scored e"

definition ratio :: "int \<Rightarrow> int \<Rightarrow> pyfloat" where
  "ratio a b = rnd (of_int a / of_int b)"

definition observed_rate :: "coverage_evidence \<Rightarrow> pyfloat option" where
  "observed_rate e = (if ce_scored e = 0 then None else Some (ratio (ce_hits e) (ce_scored e)))"

definition coverage_rate :: "coverage_evidence \<Rightarrow> pyfloat option" where
  "coverage_rate e = (if sufficient e then observed_rate e else None)"

datatype coverage_status = NotScored | Measured | InsufficientEvidence

definition evidence_status :: "coverage_evidence \<Rightarrow> coverage_status" where
  "evidence_status e = (if ce_scored e = 0 then NotScored else if sufficient e then Measured else InsufficientEvidence)"

fun status_name :: "coverage_status \<Rightarrow> string" where
  "status_name NotScored = ''not_scored''"
| "status_name Measured = ''measured''"
| "status_name InsufficientEvidence = ''insufficient_evidence''"

definition as_published :: "coverage_evidence \<Rightarrow> json" where
  "as_published e = JObj
     [(''rate'', case coverage_rate e of None \<Rightarrow> JNull | Some r \<Rightarrow> JFloat r), (''hits'', JInt (ce_hits e)),
      (''scored_folds'', JInt (ce_scored e)), (''total_folds'', JInt (ce_offered e)),
      (''residual_warmup_folds'', JInt (ce_warmup e)), (''min_scored_folds'', JInt (ce_min_scored e)),
      (''status'', JStr (status_name (evidence_status e)))]"

definition inside :: "pyfloat \<Rightarrow> pyfloat \<Rightarrow> pyfloat \<Rightarrow> bool" where
  "inside lo hi a \<longleftrightarrow> fle lo a \<and> fle a hi"

definition interval_coverage :: "pyfloat list \<Rightarrow> (pyfloat \<times> pyfloat) list \<Rightarrow> pyfloat option" where
  "interval_coverage actuals intervals = (let pairs = zip actuals intervals in
     if pairs = [] then None
     else Some (ratio (int (length (filter (\<lambda>(a, lo, hi). inside lo hi a) pairs))) (int (length pairs))))"

text \<open>The loop: the residuals so far, hits and scored folds.\<close>

fun walk_folds :: "arraylib \<Rightarrow> pyfloat \<Rightarrow> int \<Rightarrow> (pyfloat \<times> pyfloat) list \<Rightarrow> pyfloat list \<times> int \<times> int \<Rightarrow>
    (pyfloat list \<times> int \<times> int) res" where
  "walk_folds al alpha min_history [] s = Inr s"
| "walk_folds al alpha min_history ((p, a) # folds) (residuals, hits, scored) =
     bind_res (if min_history \<le> int (length residuals)
       then map_res (\<lambda>(lo, hi). (if inside lo hi a then hits + 1 else hits, scored + 1))
         (empirical_interval al p residuals alpha)
       else Inr (hits, scored)) (\<lambda>(hits, scored).
     walk_folds al alpha min_history folds (residuals @ residual p a, hits, scored))"

definition walk_forward_coverage ::
  "arraylib \<Rightarrow> pyfloat list \<Rightarrow> pyfloat list \<Rightarrow> pyfloat \<Rightarrow> int \<Rightarrow> int \<Rightarrow> coverage_evidence res" where
  "walk_forward_coverage al preds actuals alpha min_history min_scored =
     (let folds = zip preds actuals; offered = int (length folds) in
      map_res (\<lambda>(_, hits, scored). \<lparr>ce_hits = hits, ce_scored = scored, ce_min_scored = min_scored,
          ce_offered = offered, ce_warmup = offered - scored\<rparr>)
        (walk_folds al alpha min_history folds ([], 0, 0)))"

section \<open>Order statistics\<close>

text \<open>Taking one element out of a sorted list moves each rank up by at most one place.\<close>

lemma nth_remove1_sorted:
  fixes s :: "'a::linorder list"
  assumes "sorted s" and "x \<in> set s" and "Suc j < length s"
  shows "s ! j \<le> remove1 x s ! j" and "remove1 x s ! j \<le> s ! Suc j"
proof -
  have "s ! j \<le> remove1 x s ! j \<and> remove1 x s ! j \<le> s ! Suc j"
    using assms
  proof (induction s arbitrary: j)
    case (Cons a s)
    show ?case
    proof (cases "a = x")
      case True
      then show ?thesis using Cons.prems by (auto simp: nth_Cons' intro: sorted_nth_mono)
    next
      case False
      then have x: "x \<in> set s" using Cons.prems(2) by simp
      show ?thesis
      proof (cases j)
        case 0
        then show ?thesis using False Cons.prems by (auto simp: nth_Cons')
      next
        case (Suc i)
        then show ?thesis using False Cons.IH [of i] Cons.prems x by simp
      qed
    qed
  qed simp
  then show "s ! j \<le> remove1 x s ! j" and "remove1 x s ! j \<le> s ! Suc j" by simp_all
qed

definition leave_out :: "nat \<Rightarrow> 'a list \<Rightarrow> 'a list" where
  "leave_out i xs = take i xs @ drop (Suc i) xs"

lemma mset_leave_out: "i < length xs \<Longrightarrow> mset xs = add_mset (xs ! i) (mset (leave_out i xs))"
  by (metis add_mset_add_single id_take_nth_drop leave_out_def mset.simps(2) mset_append union_mset_add_mset_right)

lemma length_leave_out: "i < length xs \<Longrightarrow> length (leave_out i xs) = length xs - 1"
  by (simp add: leave_out_def)

lemma set_leave_out: "set (leave_out i xs) \<subseteq> set xs"
  unfolding leave_out_def by (auto dest: in_set_takeD in_set_dropD)

lemma sort_leave_out:
  fixes xs :: "'a::linorder list"
  assumes "i < length xs"
  shows "sort (leave_out i xs) = remove1 (xs ! i) (sort xs)"
  using mset_leave_out [OF assms] by (intro properties_for_sort) (simp_all add: sorted_remove1)

text \<open>Positions \<open>lo \<le> j < hi\<close> of the sorted list hold values between its two ends.\<close>

lemma count_between_ranks:
  fixes xs :: "'a::linorder list"
  assumes "lo < hi" and "hi \<le> length xs"
  shows "hi - lo \<le> card {i. i < length xs \<and> sort xs ! lo \<le> xs ! i \<and> xs ! i \<le> sort xs ! (hi - 1)}"
proof -
  let ?P = "\<lambda>x. sort xs ! lo \<le> x \<and> x \<le> sort xs ! (hi - 1)"
  have "?P (sort xs ! j)" if "lo \<le> j" "j < hi" for j
    using that assms(2) by (intro conjI sorted_nth_mono) simp_all
  then have "{lo..<hi} \<subseteq> {j. j < length (sort xs) \<and> ?P (sort xs ! j)}"
    using assms(2) by auto
  from card_mono [OF _ this] have "card {lo..<hi} \<le> length (filter ?P (sort xs))"
    by (simp only: length_filter_conv_card finite_Collect_conjI finite_Collect_less_nat simp_thms)
  also have "\<dots> = length (filter ?P xs)" by (intro mset_eq_length) simp
  finally show ?thesis by (simp add: length_filter_conv_card)
qed

text \<open>Of \<open>n + 1\<close> values, at least \<open>hi - lo\<close> lie between the order statistics of the others.\<close>

lemma leave_one_out_between:
  fixes xs :: "'a::linorder list"
  assumes "1 \<le> lo" and "lo < hi" and "hi < length xs"
  shows "hi - lo \<le> card {i. i < length xs \<and> sort (leave_out i xs) ! (lo - 1) \<le> xs ! i \<and> xs ! i \<le> sort (leave_out i xs) ! (hi - 1)}"
proof -
  have "sort (leave_out i xs) ! (lo - 1) \<le> sort xs ! lo \<and> sort xs ! (hi - 1) \<le> sort (leave_out i xs) ! (hi - 1)"
    if "i < length xs" for i
  proof -
    have m: "xs ! i \<in> set (sort xs)" using that by simp
    show ?thesis
      using nth_remove1_sorted(2) [OF _ m, of "lo - 1"] nth_remove1_sorted(1) [OF _ m, of "hi - 1"] assms
      unfolding sort_leave_out [OF that] by simp
  qed
  then show ?thesis
    by (intro order_trans [OF count_between_ranks [OF assms(2) less_imp_le [OF assms(3)]]] card_mono)
      (auto intro: order_trans)
qed

lemma leave_one_out_below:
  fixes xs :: "'a::linorder list"
  assumes "1 \<le> k" and "k < length xs"
  shows "k \<le> card {i. i < length xs \<and> xs ! i \<le> sort (leave_out i xs) ! (k - 1)}"
proof -
  have "sort xs ! (k - 1) \<le> sort (leave_out i xs) ! (k - 1)" if "i < length xs" for i
  proof -
    have m: "xs ! i \<in> set (sort xs)" using that by simp
    show ?thesis using nth_remove1_sorted(1) [OF _ m, of "k - 1"] assms unfolding sort_leave_out [OF that] by simp
  qed
  then have "{i. i < length xs \<and> sort xs ! 0 \<le> xs ! i \<and> xs ! i \<le> sort xs ! (k - 1)} \<subseteq>
    {i. i < length xs \<and> xs ! i \<le> sort (leave_out i xs) ! (k - 1)}"
    by (blast intro: order_trans)
  from card_mono [OF _ this] have "card {i. i < length xs \<and> sort xs ! 0 \<le> xs ! i \<and> xs ! i \<le> sort xs ! (k - 1)} \<le>
    card {i. i < length xs \<and> xs ! i \<le> sort (leave_out i xs) ! (k - 1)}" by simp
  then show ?thesis using count_between_ranks [of 0 k xs] assms by simp
qed

end
