(* ===== verification/Intervals_Props.thy ===== *)
theory Intervals_Props
  imports Intervals
begin

text \<open>
  What the prediction intervals of \<^verbatim>\<open>app/models/intervals.py\<close> guarantee. The finite-sample guarantee of split
  conformal prediction is stated as the counting fact behind it: of any \<open>n + 1\<close> residuals, at least the
  nominal share lies within the bands that the code builds from the other \<open>n\<close>; under exchangeability that
  share is the probability of coverage. It is proved for the code's rounded arithmetic, where the ranks are
  the floor and the ceiling of rounded products.
\<close>

section \<open>The laws of the arrays\<close>

locale arrays =
  fixes al :: arraylib
  assumes abs_law: "al_abs al x = fabs x"
    and isfinite_law: "al_isfinite al x = is_finite x"
    and sorted_law: "NaN \<notin> set xs \<Longrightarrow> sorted (al_sort al xs)"
    and mset_law: "NaN \<notin> set xs \<Longrightarrow> mset (al_sort al xs) = mset xs"
    and sum_bool_law: "al_sum_bool al bs = int (length (filter id bs))"
begin

lemma sort_law: "NaN \<notin> set xs \<Longrightarrow> al_sort al xs = sort xs"
  using properties_for_sort [OF mset_law sorted_law] by simp

lemma finite_part: "filter (al_isfinite al) xs = filter is_finite xs"
proof -
  have "al_isfinite al = is_finite" by (rule ext) (rule isfinite_law)
  then show ?thesis by simp
qed

lemma length_sort_law: "NaN \<notin> set xs \<Longrightarrow> length (al_sort al xs) = length xs"
  by (simp add: sort_law)

end

definition reference_arrays :: arraylib where
  "reference_arrays = \<lparr>al_abs = fabs, al_isfinite = is_finite, al_sort = sort,
     al_sum_bool = (\<lambda>bs. int (length (filter id bs)))\<rparr>"

interpretation plain: arrays reference_arrays
  by unfold_locales (simp_all add: reference_arrays_def)

section \<open>The ranks at the nominal level\<close>

lemma rnd_32nds:
  assumes "32 \<le> m" and "m \<le> 2 ^ 53"
  shows "rnd (of_int m / 32) = Fin (of_int m / 32)"
proof -
  have "rnd (of_int m) = Fin (of_int m)" using rnd_of_int [of m] assms by simp
  from rnd_half [OF this] assms(1) have 1: "rnd (of_int m / 2) = Fin (of_int m / 2)" by simp
  from rnd_half [OF this] assms(1) have 2: "rnd (of_int m / 4) = Fin (of_int m / 4)" by simp
  from rnd_half [OF this] assms(1) have 3: "rnd (of_int m / 8) = Fin (of_int m / 8)" by simp
  from rnd_half [OF this] assms(1) have 4: "rnd (of_int m / 16) = Fin (of_int m / 16)" by simp
  from rnd_half [OF this] assms(1) show ?thesis by simp
qed

lemma two_sided_default: "two_sided_min_n DEFAULT_ALPHA = Inr 19"
  by code_simp

lemma symmetric_default: "symmetric_min_n DEFAULT_ALPHA = Inr 9"
  by code_simp

lemma half_default: "fdiv DEFAULT_ALPHA (Fin 2) = Inr (Fin (3602879701896397 / 72057594037927936))"
  by code_simp

lemma upper_default: "fsub (Fin 1) (Fin (3602879701896397 / 72057594037927936)) = Fin (4278419646001971 / 4503599627370496)"
  by code_simp

lemma flen_exact: "n \<le> 2 ^ 53 \<Longrightarrow> flen n = Fin (of_nat n)"
proof -
  assume "n \<le> 2 ^ 53"
  then have "\<bar>int n\<bar> \<le> 2 ^ 53" by (metis abs_of_nat of_nat_le_iff of_nat_numeral of_nat_power)
  from rnd_of_int [OF this] show ?thesis by (simp add: flen_def)
qed

text \<open>The lower rank is at most a twentieth of \<open>n + 1\<close>, the upper at least nineteen twentieths.\<close>

lemma lower_rank:
  assumes "20 \<le> N" and "N \<le> 2 ^ 44"
  obtains x where "fmul (flen N) (Fin (3602879701896397 / 72057594037927936)) = Fin x" "20 * \<lfloor>x\<rfloor> \<le> int N"
proof -
  let ?h = "3602879701896397 / 72057594037927936 :: rat" and ?f = "int N div 20"
  have N: "int N \<le> 17592186044416" "20 \<le> int N" using assms by simp_all
  have f: "20 * ?f \<le> int N" "int N \<le> 20 * ?f + 19" "1 \<le> ?f"
    using N(2) div_mult_mod_eq [of "int N" 20] pos_mod_bound [of 20 "int N"] pos_mod_sign [of 20 "int N"] by linarith+
  have "rat_of_int (int N) \<le> rat_of_int (20 * ?f + 19)" "rat_of_int (int N) \<le> rat_of_int 17592186044416"
    using f(2) N(1) by (simp_all only: of_int_le_iff)
  then have r: "(of_nat N :: rat) \<le> 20 * of_int ?f + 19" "(of_nat N :: rat) \<le> 17592186044416" "(0::rat) \<le> of_nat N"
    by (simp_all only: of_int_add of_int_mult of_int_numeral of_int_of_nat_eq of_nat_0_le_iff)
  have up: "of_nat N * ?h \<le> of_int (32 * ?f + 31) / 32" using r by simp
  have bound: "fle (rnd (of_nat N * ?h)) (Fin (of_int (32 * ?f + 31) / 32))"
    using rnd_fle [OF up] rnd_32nds [of "32 * ?f + 31"] f N by simp
  obtain x where x: "rnd (of_nat N * ?h) = Fin x"
    using rnd_bounded_fin [of 0 "of_nat N * ?h" "int N"] r(3) N by auto
  with bound have "x \<le> of_int (32 * ?f + 31) / 32" by simp
  then have "x < of_int ?f + 1" by simp
  then have "\<lfloor>x\<rfloor> \<le> ?f" by (simp add: floor_le_iff)
  then have "20 * \<lfloor>x\<rfloor> \<le> int N" using f(1) by linarith
  moreover have "fmul (flen N) (Fin ?h) = Fin x" using x flen_exact [of N] assms(2) by simp
  ultimately show ?thesis using that by blast
qed

lemma upper_rank:
  assumes "20 \<le> N" and "N \<le> 2 ^ 44"
  obtains x where "fmul (flen N) (Fin (4278419646001971 / 4503599627370496)) = Fin x" "19 * int N \<le> 20 * \<lceil>x\<rceil>"
proof -
  let ?g = "4278419646001971 / 4503599627370496 :: rat" and ?c = "(19 * int N + 19) div 20"
  have N: "int N \<le> 17592186044416" "20 \<le> int N" using assms by simp_all
  have c: "19 * int N \<le> 20 * ?c" "20 * ?c \<le> 19 * int N + 19" "2 \<le> ?c"
    using N(2) div_mult_mod_eq [of "19 * int N + 19" 20] pos_mod_bound [of 20 "19 * int N + 19"]
      pos_mod_sign [of 20 "19 * int N + 19"] by linarith+
  have "rat_of_int (20 * ?c) \<le> rat_of_int (19 * int N + 19)" "rat_of_int (int N) \<le> rat_of_int 17592186044416"
    using c(2) N(1) by (simp_all only: of_int_le_iff)
  then have r: "20 * of_int ?c \<le> 19 * (of_nat N :: rat) + 19" "(of_nat N :: rat) \<le> 17592186044416" "(0::rat) \<le> of_nat N"
    by (simp_all only: of_int_add of_int_mult of_int_numeral of_int_of_nat_eq of_nat_0_le_iff)
  have low: "of_int (32 * ?c - 31) / 32 \<le> of_nat N * ?g" using r by simp
  have bound: "fle (Fin (of_int (32 * ?c - 31) / 32)) (rnd (of_nat N * ?g))"
    using rnd_fle [OF low] rnd_32nds [of "32 * ?c - 31"] c N by simp
  obtain x where x: "rnd (of_nat N * ?g) = Fin x"
    using rnd_bounded_fin [of 0 "of_nat N * ?g" "int N"] r(3) N by auto
  with bound have "of_int (32 * ?c - 31) / 32 \<le> x" by simp
  then have "of_int (?c - 1) < x" by simp
  then have "?c \<le> \<lceil>x\<rceil>" by (simp add: le_ceiling_iff)
  then have "19 * int N \<le> 20 * \<lceil>x\<rceil>" using c(1) by linarith
  moreover have "fmul (flen N) (Fin ?g) = Fin x" using x flen_exact [of N] assms(2) by simp
  ultimately show ?thesis using that by blast
qed

lemma tail_ranks_default:
  assumes "19 \<le> n" and "n < 2 ^ 44"
  obtains lo hi where "tail_ranks n DEFAULT_ALPHA = Inr (int lo, int hi)" "1 \<le> lo" "lo < hi" "hi \<le> n" "9 * (n + 1) \<le> 10 * (hi - lo)"
proof -
  have N: "20 \<le> n + 1" "n + 1 \<le> 2 ^ 44" using assms by simp_all
  obtain x where x: "fmul (flen (n + 1)) (Fin (3602879701896397 / 72057594037927936)) = Fin x" "20 * \<lfloor>x\<rfloor> \<le> int (n + 1)"
    by (rule lower_rank [OF N])
  obtain y where y: "fmul (flen (n + 1)) (Fin (4278419646001971 / 4503599627370496)) = Fin y" "19 * int (n + 1) \<le> 20 * \<lceil>y\<rceil>"
    by (rule upper_rank [OF N])
  define lo hi where "lo = max 1 \<lfloor>x\<rfloor>" and "hi = min (int n) \<lceil>y\<rceil>"
  have lo: "1 \<le> lo" "20 * lo \<le> int (n + 1)" using x(2) N(1) by (simp_all add: lo_def)
  have hi: "hi \<le> int n" "19 * int (n + 1) \<le> 20 * hi" using y(2) N(1) by (simp_all add: hi_def min_def)
  have "tail_ranks n DEFAULT_ALPHA = Inr (lo, hi)"
    unfolding tail_ranks_def half_default bind_res_simps x(1) upper_default y(1) by (simp add: ffloor_int_def fceil_int_def lo_def hi_def)
  then show ?thesis using that [of "nat lo" "nat hi"] lo hi N(1) by (simp add: nat_diff_distrib)
qed

lemma nominal_default: "fsub (Fin 1) DEFAULT_ALPHA = Fin (8106479329266893 / 9007199254740992)"
  by code_simp

lemma nominal_ten: "rnd (10 * (8106479329266893 / 9007199254740992)) = Fin 9"
  by code_simp

lemma radius_rank_default:
  assumes "9 \<le> n" and "n < 19"
  shows "fceil_int (fmul (flen (n + 1)) (fsub (Fin 1) DEFAULT_ALPHA)) = Inr (int n)"
proof -
  let ?c = "8106479329266893 / 9007199254740992 :: rat"
  have f: "flen (n + 1) = Fin (of_nat (n + 1))" by (rule flen_exact) (use assms(2) in simp)
  show ?thesis
  proof (cases "n = 9")
    case True
    then have "(of_nat (n + 1) :: rat) = 10" by simp
    then have "fmul (flen (n + 1)) (fsub (Fin 1) DEFAULT_ALPHA) = Fin 9"
      unfolding f nominal_default fmul.simps using nominal_ten by (simp only:)
    then show ?thesis using True by (simp add: fceil_int_def)
  next
    case False
    then have r: "(10::rat) \<le> of_nat n" "(of_nat n :: rat) \<le> 18" "rat_of_int (int n) = of_nat n" using assms by simp_all
    have low: "of_int (32 * int n - 31) / 32 \<le> of_nat (n + 1) * ?c" and up: "of_nat (n + 1) * ?c \<le> of_int (int n)"
      using r by simp_all
    obtain x where x: "rnd (of_nat (n + 1) * ?c) = Fin x" "x \<le> of_int (int n)"
      using rnd_bounded_fin [of 0 "of_nat (n + 1) * ?c" "int n"] up r assms by auto
    have "fle (Fin (of_int (32 * int n - 31) / 32)) (Fin x)"
      using rnd_fle [OF low] rnd_32nds [of "32 * int n - 31"] x(1) assms by simp
    then have "of_int (int n - 1) < x" by simp
    then have "\<lceil>x\<rceil> = int n" using x(2) by (simp add: ceiling_unique)
    then show ?thesis unfolding f nominal_default fmul.simps x(1) by (simp add: fceil_int_def)
  qed
qed

section \<open>The guarantee\<close>

definition covered_by_others :: "arraylib \<Rightarrow> pyfloat list \<Rightarrow> nat \<Rightarrow> bool" where
  "covered_by_others al xs i \<longleftrightarrow> (case residual_band al (leave_out i xs) DEFAULT_ALPHA of
      Inl _ \<Rightarrow> False
    | Inr (lo, hi, method) \<Rightarrow> coverage_guaranteed method \<and> inside lo hi (xs ! i))"

lemma finite_not_NaN: "\<forall>x \<in> set xs. is_finite x \<Longrightarrow> NaN \<notin> set xs"
  by force

lemma inside_finite: "is_finite x \<Longrightarrow> is_finite lo \<Longrightarrow> is_finite hi \<Longrightarrow> inside lo hi x \<longleftrightarrow> lo \<le> x \<and> x \<le> hi"
  unfolding inside_def by (cases x; cases lo; cases hi) (simp_all add: fle_less_eq del: fle_Fin)

lemma inside_radius: "is_finite x \<Longrightarrow> is_finite r \<Longrightarrow> fabs x \<le> r \<Longrightarrow> inside (fneg r) r x"
  unfolding inside_def by (cases x; cases r) (auto simp flip: fle_less_eq)

lemma is_finite_fabs [simp]: "is_finite (fabs x) \<longleftrightarrow> is_finite x"
  by (cases x) simp_all

lemma py_index_pred: "1 \<le> k \<Longrightarrow> k \<le> length xs \<Longrightarrow> py_index xs (int k - 1) = Inr (xs ! (k - 1))"
  by (simp add: py_index_def nat_diff_distrib)

context arrays
begin

lemma band_two_sided:
  assumes "\<forall>x \<in> set r. is_finite x" and "19 \<le> length r" and "tail_ranks (length r) DEFAULT_ALPHA = Inr (int lo, int hi)"
    and "1 \<le> lo" "lo < hi" "hi \<le> length r"
  shows "residual_band al r DEFAULT_ALPHA = Inr (sort r ! (lo - 1), sort r ! (hi - 1),
    ConformalTwoSided (fround (sort r ! (lo - 1)) 6) (fround (sort r ! (hi - 1)) 6))"
  using assms py_index_pred [of lo "sort r"] py_index_pred [of hi "sort r"]
  by (simp add: residual_band_def two_sided_default sort_law finite_not_NaN Let_def)

lemma band_symmetric:
  assumes "\<forall>x \<in> set r. is_finite x" and "9 \<le> length r" and "length r < 19"
  defines "radius \<equiv> sort (map fabs r) ! (length r - 1)"
  shows "residual_band al r DEFAULT_ALPHA = Inr (fneg radius, radius, ConformalSymmetric (fround radius 6))"
proof -
  have "al_abs al = fabs" by (rule ext) (rule abs_law)
  moreover have "filter is_finite (map fabs r) = map fabs r"
    using assms(1) by simp
  ultimately have m: "filter (al_isfinite al) (map (al_abs al) r) = map fabs r" by (simp add: finite_part)
  have "NaN \<notin> set (map fabs r)" using assms(1) by (intro finite_not_NaN) simp
  from sort_law [OF this] have "conformal_radius al r DEFAULT_ALPHA = Inr (radius, True)"
    using radius_rank_default [OF assms(2,3)] py_index_pred [of "length r" "sort (map fabs r)"] assms(2)
    unfolding conformal_radius_def Let_def m by (cases r) (simp_all add: radius_def)
  then show ?thesis using assms(3) by (simp add: residual_band_def two_sided_default)
qed

lemma leave_out_all: "\<forall>x \<in> set xs. P x \<Longrightarrow> \<forall>x \<in> set (leave_out i xs). P x"
  using set_leave_out by fast

lemma sort_nth_finite:
  assumes "\<forall>x \<in> set xs. is_finite x" and "j < length xs"
  shows "is_finite (sort xs ! j)"
  using assms nth_mem [of j "sort xs"] by simp

lemma coverage_two_sided:
  assumes "\<forall>x \<in> set xs. is_finite x" and "20 \<le> length xs" and "length xs \<le> 2 ^ 44"
  shows "9 * length xs \<le> 10 * card {i. i < length xs \<and> covered_by_others al xs i}"
proof -
  let ?n = "length xs - 1"
  obtain lo hi where r: "tail_ranks ?n DEFAULT_ALPHA = Inr (int lo, int hi)" "1 \<le> lo" "lo < hi" "hi \<le> ?n" "9 * (?n + 1) \<le> 10 * (hi - lo)"
    by (rule tail_ranks_default [of ?n]) (use assms(2,3) in auto)
  have "covered_by_others al xs i \<longleftrightarrow> sort (leave_out i xs) ! (lo - 1) \<le> xs ! i \<and> xs ! i \<le> sort (leave_out i xs) ! (hi - 1)"
    if i: "i < length xs" for i
  proof -
    have len: "length (leave_out i xs) = ?n" by (rule length_leave_out [OF i])
    have fin: "\<forall>x \<in> set (leave_out i xs). is_finite x" by (rule leave_out_all [OF assms(1)])
    show ?thesis
      using band_two_sided [OF fin _ _ r(2,3)] r len assms(1,2) i fin
        sort_nth_finite [OF fin, of "lo - 1"] sort_nth_finite [OF fin, of "hi - 1"]
      by (simp add: covered_by_others_def inside_finite)
  qed
  then have eq: "{i. i < length xs \<and> covered_by_others al xs i} =
    {i. i < length xs \<and> sort (leave_out i xs) ! (lo - 1) \<le> xs ! i \<and> xs ! i \<le> sort (leave_out i xs) ! (hi - 1)}" by blast
  have "hi - lo \<le> card {i. i < length xs \<and> sort (leave_out i xs) ! (lo - 1) \<le> xs ! i \<and> xs ! i \<le> sort (leave_out i xs) ! (hi - 1)}"
    by (rule leave_one_out_between) (use r assms(2) in linarith)+
  moreover have "9 * length xs \<le> 10 * (hi - lo)" using r(5) assms(2) by simp
  ultimately show ?thesis unfolding eq by linarith
qed

lemma map_leave_out: "map f (leave_out i xs) = leave_out i (map f xs)"
  by (simp add: leave_out_def take_map drop_map)

lemma coverage_symmetric:
  assumes "\<forall>x \<in> set xs. is_finite x" and "10 \<le> length xs" and "length xs < 20"
  shows "9 * length xs \<le> 10 * card {i. i < length xs \<and> covered_by_others al xs i}"
proof -
  let ?n = "length xs - 1" and ?ys = "map fabs xs"
  have "covered_by_others al xs i" if i: "i < length xs" and le: "?ys ! i \<le> sort (leave_out i ?ys) ! (?n - 1)" for i
  proof -
    have len: "length (leave_out i xs) = ?n" by (rule length_leave_out [OF i])
    have fin: "\<forall>x \<in> set (leave_out i xs). is_finite x" by (rule leave_out_all [OF assms(1)])
    have "\<forall>x \<in> set (map fabs (leave_out i xs)). is_finite x" using fin by simp
    from sort_nth_finite [OF this, of "?n - 1"] have f: "is_finite (sort (map fabs (leave_out i xs)) ! (?n - 1))"
      using len assms(2) by simp
    show ?thesis
      using band_symmetric [OF fin] len assms i le inside_radius [OF _ f, of "xs ! i"]
      by (simp add: covered_by_others_def map_leave_out)
  qed
  then have sub: "{i. i < length ?ys \<and> ?ys ! i \<le> sort (leave_out i ?ys) ! (?n - 1)} \<subseteq> {i. i < length xs \<and> covered_by_others al xs i}"
    by auto
  have "?n \<le> card {i. i < length ?ys \<and> ?ys ! i \<le> sort (leave_out i ?ys) ! (?n - 1)}"
    by (rule leave_one_out_below) (use assms(2) in auto)
  also have "\<dots> \<le> card {i. i < length xs \<and> covered_by_others al xs i}" by (rule card_mono [OF _ sub]) simp
  finally show ?thesis using assms(2) by linarith
qed

end

text \<open>C8: The finite-sample guarantee: of any ten or more finite residuals at least nine tenths lie inside
  the band that the code builds from the other ones at the default level, and each of those bands is
  reported as guaranteed.\<close>

theorem conformal_coverage:
  assumes "arrays al" and "\<forall>x \<in> set xs. is_finite x" and "10 \<le> length xs" and "length xs \<le> 2 ^ 44"
  shows "9 * length xs \<le> 10 * card {i. i < length xs \<and> covered_by_others al xs i}"
  using arrays.coverage_two_sided [OF assms(1,2) _ assms(4)] arrays.coverage_symmetric [OF assms(1-3)]
  by (cases "20 \<le> length xs") auto

lemma conformal_coverage_witness:
  "9 * 10 \<le> 10 * card {i. i < 10 \<and> covered_by_others reference_arrays (map (\<lambda>i. Fin (of_int i)) [-4..5]) i}"
proof -
  let ?xs = "map (\<lambda>i. Fin (of_int i)) [-4..5]"
  have "length ?xs = 10" by simp
  then show ?thesis using conformal_coverage [OF plain.arrays_axioms, of ?xs] by simp
qed

section \<open>The walk forward\<close>

text \<open>The reference: a fold is judged by the interval from the residuals of the folds before it.\<close>

definition prior_residuals :: "(pyfloat \<times> pyfloat) list \<Rightarrow> nat \<Rightarrow> pyfloat list" where
  "prior_residuals folds i = concat (map (\<lambda>(p, a). residual p a) (take i folds))"

definition judge_fold :: "arraylib \<Rightarrow> pyfloat \<Rightarrow> (pyfloat \<times> pyfloat) list \<Rightarrow> nat \<Rightarrow> bool res" where
  "judge_fold al alpha folds i = map_res (\<lambda>(lo, hi). inside lo hi (snd (folds ! i)))
     (empirical_interval al (fst (folds ! i)) (prior_residuals folds i) alpha)"

definition scored_folds :: "int \<Rightarrow> (pyfloat \<times> pyfloat) list \<Rightarrow> nat \<Rightarrow> nat list" where
  "scored_folds min_history folds k = filter (\<lambda>i. min_history \<le> int (length (prior_residuals folds i))) [k..<length folds]"

lemma prior_residuals_Suc:
  "i < length folds \<Longrightarrow> prior_residuals folds (Suc i) = prior_residuals folds i @ residual (fst (folds ! i)) (snd (folds ! i))"
  by (simp add: prior_residuals_def take_Suc_conv_app_nth case_prod_beta)

lemma walk_folds_reference:
  assumes "k \<le> length folds"
  shows "walk_folds al alpha min_history (drop k folds) (prior_residuals folds k, h, n) =
    map_res (\<lambda>hits. (prior_residuals folds (length folds), h + int (length (filter id hits)), n + int (length hits)))
      (mapM (judge_fold al alpha folds) (scored_folds min_history folds k))"
  using assms
proof (induction "length folds - k" arbitrary: k h n)
  case 0
  then show ?case by (simp add: scored_folds_def)
next
  case (Suc d)
  then have k: "k < length folds" by simp
  then have d: "drop k folds = folds ! k # drop (Suc k) folds" by (rule Cons_nth_drop_Suc [symmetric])
  obtain p a where f: "folds ! k = (p, a)" by force
  note IH = Suc.hyps(1) [of "Suc k"]
  have up: "[k..<length folds] = k # [Suc k..<length folds]" using k by (rule upt_conv_Cons)
  show ?case
  proof (cases "min_history \<le> int (length (prior_residuals folds k))")
    case False
    then show ?thesis using IH k Suc.hyps(2) by (simp add: d f scored_folds_def up prior_residuals_Suc)
  next
    case True
    then have s: "scored_folds min_history folds k = k # scored_folds min_history folds (Suc k)"
      by (simp add: scored_folds_def up)
    show ?thesis
    proof (cases "empirical_interval al p (prior_residuals folds k) alpha")
      case (Inl e)
      then show ?thesis using True by (simp add: d f s judge_fold_def)
    next
      case (Inr band)
      then show ?thesis
        using True IH k Suc.hyps(2) prior_residuals_Suc [OF k]
        by (cases "mapM (judge_fold al alpha folds) (scored_folds min_history folds (Suc k))")
          (auto simp: d f s judge_fold_def split: prod.splits)
    qed
  qed
qed

text \<open>C27: No fold peeks: the coverage loop equals the reference in which each fold is judged with the residuals
  of earlier folds only, over exactly the folds that have enough of them; the other ones are the warm-up,
  and no other number is published.\<close>

theorem walk_forward_no_lookahead:
  "walk_forward_coverage al preds actuals alpha min_history min_scored = (let folds = zip preds actuals in
     map_res (\<lambda>hits. \<lparr>ce_hits = int (length (filter id hits)), ce_scored = int (length hits), ce_min_scored = min_scored,
         ce_offered = int (length folds), ce_warmup = int (length folds) - int (length hits)\<rparr>)
       (mapM (judge_fold al alpha folds) (scored_folds min_history folds 0)))"
proof -
  have "prior_residuals (zip preds actuals) 0 = []" by (simp add: prior_residuals_def)
  then show ?thesis
    using walk_folds_reference [of 0 "zip preds actuals" al alpha min_history 0 0]
    by (cases "mapM (judge_fold al alpha (zip preds actuals)) (scored_folds min_history (zip preds actuals) 0)")
      (simp_all add: walk_forward_coverage_def Let_def)
qed

end
