(* ===== verification/Evaluate.thy ===== *)
theory Evaluate
  imports Intervals "HOL-Library.Product_Lexorder"
begin

text \<open>
  \<^verbatim>\<open>app/jobs/evaluate.py\<close>: the outcome of a matured forecast is the nearest good observation of its symbol
  within the tolerance of its horizon, never one from before the forecast; then the live calibration is
  recomputed and stored. A row holds the columns of \<^verbatim>\<open>predictions\<close> the job reads or writes. Rows of equal
  \<^verbatim>\<open>target_time\<close> come in table order, the order the database leaves open. The fit of the meta-gate
  (\<^verbatim>\<open>app/models/metagate.py\<close>, with its summary) is a parameter, a function of the table; numpy is one as in
  the scorer. The clock stands still during a run. The column \<^verbatim>\<open>updated_at\<close> of a
  setting, logging and metrics are left out.
\<close>

section \<open>Tables\<close>

record forecast_row =
  fc_id :: int
  fc_symbol :: string
  fc_horizon :: string
  fc_predicted_at :: int
  fc_target :: int
  fc_point :: pyfloat
  fc_lower :: pyfloat
  fc_upper :: pyfloat
  fc_change :: pyfloat
  fc_regime :: string
  fc_actual :: "pyfloat option"
  fc_recorded_at :: "int option"

type_synonym forecasts = "forecast_row list"

definition LIVE_CAL_KEY :: string where "LIVE_CAL_KEY = ''live_calibration''"
definition META_GATE_KEY :: string where "META_GATE_KEY = ''meta_gate''"
definition LIVE_CAL_WINDOW :: nat where "LIVE_CAL_WINDOW = 60"

definition TOLERANCES :: "(string \<times> int) list" where
  "TOLERANCES = [(''1h'', 45 * minute_us), (''4h'', 2 * 60 * minute_us), (''eod'', 36 * 60 * minute_us),
     (''1d'', 36 * 60 * minute_us), (''3d'', 36 * 60 * minute_us), (''7d'', 48 * 60 * minute_us),
     (''30d'', 72 * 60 * minute_us)]"

definition DEFAULT_TOLERANCE :: int where
  "DEFAULT_TOLERANCE = 36 * 60 * minute_us"

definition tolerance_of :: "string \<Rightarrow> int" where
  "tolerance_of horizon = dict_get DEFAULT_TOLERANCE TOLERANCES horizon"

section \<open>The outcome of one forecast\<close>

definition window_floor :: "int \<Rightarrow> int \<Rightarrow> int option \<Rightarrow> int" where
  "window_floor target tolerance predicted = (let lower = target - tolerance in
     case predicted of Some p \<Rightarrow> if lower < p then p else lower | None \<Rightarrow> lower)"

definition price_window :: "price_row list \<Rightarrow> string \<Rightarrow> int \<Rightarrow> int \<Rightarrow> int option \<Rightarrow> price_row list" where
  "price_window table sy target tolerance predicted = sort_key p_observed_at (filter (\<lambda>r. p_symbol r = sy \<and>
     p_quality r = ''ok'' \<and> window_floor target tolerance predicted < p_observed_at r \<and> p_observed_at r \<le> target + tolerance) table)"

definition nearest_price :: "price_row list \<Rightarrow> string \<Rightarrow> int \<Rightarrow> int \<Rightarrow> int option \<Rightarrow> (pyfloat \<times> int) option" where
  "nearest_price table sy target tolerance predicted =
     map_option (\<lambda>r. (p_value r, p_observed_at r))
       (first_max (\<lambda>r best. \<bar>p_observed_at r - target\<bar> < \<bar>p_observed_at best - target\<bar>)
          (price_window table sy target tolerance predicted))"

definition recover_base :: "pyfloat \<Rightarrow> pyfloat \<Rightarrow> pyfloat option res" where
  "recover_base point change =
     (if fle change (Fin (- 100)) then Inr None
      else map_res (\<lambda>base. if feq base (Fin 0) then None else Some base)
        (fdiv point (fadd (Fin 1) (fquot change (Fin 100)))))"

text \<open>\<^verbatim>\<open>np.sign(point - base) == np.sign(actual - base)\<close>.\<close>

definition direction_hit :: "numlib \<Rightarrow> pyfloat \<Rightarrow> pyfloat \<Rightarrow> pyfloat \<Rightarrow> bool" where
  "direction_hit np point actual base \<longleftrightarrow> feq (np_sign np (fsub point base)) (np_sign np (fsub actual base))"

section \<open>Live calibration\<close>

record calibration_stats =
  cs_n :: int
  cs_dir_hit_rate :: "pyfloat option"
  cs_coverage :: pyfloat
  cs_coverage_n :: int
  cs_status :: coverage_status
  cs_by_regime :: "(string \<times> int \<times> pyfloat) list"
  cs_updated_at :: int

type_synonym calibration = "(string \<times> (string \<times> calibration_stats) list) list"

definition of_flag :: "bool \<Rightarrow> pyfloat" where
  "of_flag b = (if b then Fin 1 else Fin 0)"

definition hit_share :: "numlib \<Rightarrow> bool list \<Rightarrow> pyfloat" where
  "hit_share np hits = fround (np_mean np (map of_flag hits)) 4"

definition matured :: "forecast_row \<Rightarrow> bool" where
  "matured r \<longleftrightarrow> fc_actual r \<noteq> None"

definition matured_pairs :: "forecasts \<Rightarrow> (string \<times> string) list" where
  "matured_pairs table = sort (remdups (map (\<lambda>r. (fc_symbol r, fc_horizon r)) (filter matured table)))"

definition newest_outcomes :: "nat \<Rightarrow> forecasts \<Rightarrow> string \<times> string \<Rightarrow> forecasts" where
  "newest_outcomes win table = (\<lambda>(sy, h). take win (sort_key (\<lambda>r. - fc_target r)
     (filter (\<lambda>r. fc_symbol r = sy \<and> fc_horizon r = h \<and> matured r) table)))"

text \<open>Over the rows: covered, direction hits, and the hits by regime.\<close>

type_synonym tally = "bool list \<times> bool list \<times> (string \<times> bool list) list"

definition tally_row :: "numlib \<Rightarrow> forecast_row \<Rightarrow> tally \<Rightarrow> tally res" where
  "tally_row np r = (\<lambda>(covered, hits, regimes).
     let actual = the (fc_actual r); covered = covered @ [inside (fc_lower r) (fc_upper r) actual] in
     map_res (\<lambda>base. case base of
         None \<Rightarrow> (covered, hits, regimes)
       | Some b \<Rightarrow> let hit = direction_hit np (fc_point r) actual b in
           (covered, hits @ [hit], dict_set (fc_regime r) (dict_get [] regimes (fc_regime r) @ [hit]) regimes))
       (recover_base (fc_point r) (fc_change r)))"

fun tally_rows :: "numlib \<Rightarrow> forecasts \<Rightarrow> tally \<Rightarrow> tally res" where
  "tally_rows np [] t = Inr t"
| "tally_rows np (r # rs) t = bind_res (tally_row np r t) (tally_rows np rs)"

definition stats_of :: "numlib \<Rightarrow> arraylib \<Rightarrow> int \<Rightarrow> nat \<Rightarrow> tally \<Rightarrow> calibration_stats" where
  "stats_of np al now n = (\<lambda>(covered, hits, regimes).
     \<lparr>cs_n = int n, cs_dir_hit_rate = (if hits = [] then None else Some (hit_share np hits)),
      cs_coverage = hit_share np covered, cs_coverage_n = int (length covered),
      cs_status = evidence_status \<lparr>ce_hits = al_sum_bool al covered, ce_scored = int (length covered),
        ce_min_scored = MIN_SCORED_FOR_COVERAGE, ce_offered = 0, ce_warmup = 0\<rparr>,
      cs_by_regime = map (\<lambda>(g, hs). (g, int (length hs), hit_share np hs)) (filter (\<lambda>(g, hs). hs \<noteq> []) regimes),
      cs_updated_at = now\<rparr>)"

fun calibrate_pairs :: "numlib \<Rightarrow> arraylib \<Rightarrow> int \<Rightarrow> nat \<Rightarrow> forecasts \<Rightarrow> (string \<times> string) list \<Rightarrow> calibration \<Rightarrow> calibration res" where
  "calibrate_pairs np al now win table [] out = Inr out"
| "calibrate_pairs np al now win table ((sy, h) # pairs) out = (let rows = newest_outcomes win table (sy, h) in
     if rows = [] then calibrate_pairs np al now win table pairs out
     else bind_res (tally_rows np rows ([], [], [])) (\<lambda>t.
       calibrate_pairs np al now win table pairs
         (dict_set sy (dict_set h (stats_of np al now (length rows) t) (dict_get [] out sy)) out)))"

definition compute_live_calibration :: "numlib \<Rightarrow> arraylib \<Rightarrow> int \<Rightarrow> nat \<Rightarrow> forecasts \<Rightarrow> calibration res" where
  "compute_live_calibration np al now win table = calibrate_pairs np al now win table (matured_pairs table) []"

text \<open>The stored form; the instant is printed by a parameter.\<close>

definition stats_json :: "(int \<Rightarrow> string) \<Rightarrow> calibration_stats \<Rightarrow> json" where
  "stats_json stamp c = JObj
     [(''n'', JInt (cs_n c)), (''dir_hit_rate'', case cs_dir_hit_rate c of None \<Rightarrow> JNull | Some x \<Rightarrow> JFloat x),
      (''coverage'', JFloat (cs_coverage c)), (''coverage_n'', JInt (cs_coverage_n c)),
      (''coverage_status'', JStr (status_name (cs_status c))),
      (''by_regime'', JObj (map (\<lambda>(g, n, x). (g, JObj [(''n'', JInt n), (''dir_hit_rate'', JFloat x)])) (cs_by_regime c))),
      (''updated_at'', JStr (stamp (cs_updated_at c)))]"

definition calibration_json :: "(int \<Rightarrow> string) \<Rightarrow> calibration \<Rightarrow> json" where
  "calibration_json stamp cal = JObj (map (\<lambda>(sy, hs). (sy, JObj (map (\<lambda>(h, c). (h, stats_json stamp c)) hs))) cal)"

section \<open>The job\<close>

definition BATCH_LIMIT :: nat where "BATCH_LIMIT = 500"

definition pending :: "int \<Rightarrow> forecast_row \<Rightarrow> bool" where
  "pending now r \<longleftrightarrow> fc_actual r = None \<and> fc_target r \<le> now"

definition pending_batch :: "int \<Rightarrow> forecasts \<Rightarrow> forecasts" where
  "pending_batch now table = take BATCH_LIMIT (sort_key fc_target (filter (pending now) table))"

definition record_actual :: "int \<Rightarrow> int \<Rightarrow> pyfloat \<Rightarrow> forecasts \<Rightarrow> forecasts" where
  "record_actual now k actual table =
     map (\<lambda>r. if fc_id r = k then r\<lparr>fc_actual := Some actual, fc_recorded_at := Some now\<rparr> else r) table"

record evaluate_state =
  ev_table :: forecasts
  ev_evaluated :: int
  ev_unmatched :: int
  ev_errors :: "pyfloat list"
  ev_hits :: "bool list"

definition outcome_of :: "price_row list \<Rightarrow> forecast_row \<Rightarrow> (pyfloat \<times> int) option" where
  "outcome_of prices r = nearest_price prices (fc_symbol r) (fc_target r) (tolerance_of (fc_horizon r)) (Some (fc_predicted_at r))"

definition score_row :: "numlib \<Rightarrow> int \<Rightarrow> forecast_row \<Rightarrow> pyfloat \<Rightarrow> evaluate_state \<Rightarrow> py_error option \<times> evaluate_state" where
  "score_row np now r actual s =
     (let s = s\<lparr>ev_table := record_actual now (fc_id r) actual (ev_table s), ev_evaluated := ev_evaluated s + 1\<rparr>;
        s = (if feq actual (Fin 0) then s
             else s\<lparr>ev_errors := ev_errors s @ [fmul (fquot (fabs (fsub actual (fc_point r))) (fabs actual)) (Fin 100)]\<rparr>) in
      case recover_base (fc_point r) (fc_change r) of
        Inl e \<Rightarrow> (Some e, s)
      | Inr None \<Rightarrow> (None, s)
      | Inr (Some base) \<Rightarrow> (None, s\<lparr>ev_hits := ev_hits s @ [direction_hit np (fc_point r) actual base]\<rparr>))"

text \<open>The loop; an exception ends it, the outcomes recorded before it stay.\<close>

fun evaluate_rows :: "numlib \<Rightarrow> price_row list \<Rightarrow> int \<Rightarrow> forecasts \<Rightarrow> evaluate_state \<Rightarrow> py_error option \<times> evaluate_state" where
  "evaluate_rows np prices now [] s = (None, s)"
| "evaluate_rows np prices now (r # rs) s =
     (case outcome_of prices r of
        None \<Rightarrow> evaluate_rows np prices now rs (s\<lparr>ev_unmatched := ev_unmatched s + 1\<rparr>)
      | Some (actual, _) \<Rightarrow>
          (case score_row np now r actual s of
             (Some e, s) \<Rightarrow> (Some e, s)
           | (None, s) \<Rightarrow> evaluate_rows np prices now rs s))"

record gate_summary =
  gs_n :: int
  gs_base_rate :: pyfloat

record evaluate_result =
  rs_evaluated :: int
  rs_unmatched :: int
  rs_mape :: "pyfloat option"
  rs_accuracy :: "pyfloat option"
  rs_calibration :: calibration
  rs_gate :: "gate_summary option"

text \<open>Outside the job: the text of an instant and the fit of the meta-gate, with its stored form.\<close>

record evaluate_env =
  ee_iso :: "int \<Rightarrow> string"
  ee_fit_gate :: "forecasts \<Rightarrow> (gate_summary \<times> json) option"

definition start_evaluate :: "forecasts \<Rightarrow> evaluate_state" where
  "start_evaluate table = \<lparr>ev_table = table, ev_evaluated = 0, ev_unmatched = 0, ev_errors = [], ev_hits = []\<rparr>"

definition run_evaluate ::
  "numlib \<Rightarrow> arraylib \<Rightarrow> evaluate_env \<Rightarrow> price_row list \<Rightarrow> int \<Rightarrow> forecasts \<times> settings_table \<Rightarrow>
    evaluate_result res \<times> forecasts \<times> settings_table" where
  "run_evaluate np al env prices now = (\<lambda>(table, settings).
     case evaluate_rows np prices now (pending_batch now table) (start_evaluate table) of
       (Some e, s) \<Rightarrow> (Inl e, ev_table s, settings)
     | (None, s) \<Rightarrow>
         (case compute_live_calibration np al now LIVE_CAL_WINDOW (ev_table s) of
            Inl e \<Rightarrow> (Inl e, ev_table s, settings)
          | Inr cal \<Rightarrow>
              let settings = (if cal = [] then settings
                  else upsert_setting LIVE_CAL_KEY (calibration_json (ee_iso env) cal) settings);
                gate = ee_fit_gate env (ev_table s);
                settings = (case gate of None \<Rightarrow> settings | Some (_, j) \<Rightarrow> upsert_setting META_GATE_KEY j settings) in
              (Inr \<lparr>rs_evaluated = ev_evaluated s, rs_unmatched = ev_unmatched s,
                 rs_mape = (if ev_errors s = [] then None else Some (fround (np_mean np (ev_errors s)) 4)),
                 rs_accuracy = (if ev_hits s = [] then None else Some (hit_share np (ev_hits s))),
                 rs_calibration = cal, rs_gate = map_option fst gate\<rparr>, ev_table s, settings)))"

end
