(* ===== verification/Evaluate_Props.thy ===== *)
theory Evaluate_Props
  imports Evaluate Intervals_Props
begin

text \<open>
  What the evaluation job does to the table of forecasts: each outcome is a later observation of the same
  symbol and no candidate is nearer; nothing else changes; a full batch of forecasts without an outcome
  blocks all later ones.
\<close>

section \<open>The nearest observation\<close>

definition candidate :: "forecast_row \<Rightarrow> price_row \<Rightarrow> bool" where
  "candidate r p \<longleftrightarrow> p_symbol p = fc_symbol r \<and> p_quality p = ''ok'' \<and> fc_predicted_at r < p_observed_at p \<and>
     fc_target r - tolerance_of (fc_horizon r) < p_observed_at p \<and> p_observed_at p \<le> fc_target r + tolerance_of (fc_horizon r)"

definition distance :: "forecast_row \<Rightarrow> price_row \<Rightarrow> int" where
  "distance r p = \<bar>p_observed_at p - fc_target r\<bar>"

lemma set_price_window:
  "set (price_window prices (fc_symbol r) (fc_target r) (tolerance_of (fc_horizon r)) (Some (fc_predicted_at r))) =
    {p \<in> set prices. candidate r p}"
  by (auto simp: price_window_def window_floor_def Let_def candidate_def)

lemma outcome_nearest:
  assumes "outcome_of prices r = Some (a, t)"
  obtains p where "p \<in> set prices" "candidate r p" "p_value p = a" "p_observed_at p = t"
    "\<And>q. q \<in> set prices \<Longrightarrow> candidate r q \<Longrightarrow> distance r p \<le> distance r q"
proof -
  let ?w = "price_window prices (fc_symbol r) (fc_target r) (tolerance_of (fc_horizon r)) (Some (fc_predicted_at r))"
  obtain p where p: "first_max (\<lambda>x best. - distance r best < - distance r x) ?w = Some p" "p_value p = a" "p_observed_at p = t"
    using assms by (auto simp: outcome_of_def nearest_price_def distance_def)
  have "distance r p \<le> distance r q" if "q \<in> set prices" "candidate r q" for q
    using first_max_ge [OF p(1), of q] that set_price_window [of prices r] by simp
  then show ?thesis using that p first_max_mem [OF p(1)] set_price_window [of prices r] by blast
qed

lemma outcome_None: "outcome_of prices r = None \<longleftrightarrow> \<not> (\<exists>p \<in> set prices. candidate r p)"
proof -
  have "outcome_of prices r = None \<longleftrightarrow> set (price_window prices (fc_symbol r) (fc_target r) (tolerance_of (fc_horizon r)) (Some (fc_predicted_at r))) = {}"
    by (simp add: outcome_of_def nearest_price_def)
  then show ?thesis unfolding set_price_window by blast
qed

section \<open>The table after a run\<close>

definition fill :: "price_row list \<Rightarrow> int \<Rightarrow> forecast_row set \<Rightarrow> forecast_row \<Rightarrow> forecast_row" where
  "fill prices now batch r = (if r \<in> batch then case outcome_of prices r of
      None \<Rightarrow> r | Some (a, _) \<Rightarrow> r\<lparr>fc_actual := Some a, fc_recorded_at := Some now\<rparr> else r)"

lemma fill_id [simp]: "fc_id (fill prices now batch r) = fc_id r"
  by (simp add: fill_def split: option.split)

lemma record_fill:
  assumes "distinct (map fc_id table)" and "r \<in> set table" and "outcome_of prices r = Some (a, t)"
  shows "record_actual now (fc_id r) a (map (fill prices now batch) table) = map (fill prices now (insert r batch)) table"
  unfolding record_actual_def map_map
proof (rule map_cong [OF refl])
  fix x assume x: "x \<in> set table"
  let ?g = "\<lambda>x. if fc_id x = fc_id r then x\<lparr>fc_actual := Some a, fc_recorded_at := Some now\<rparr> else x"
  show "(?g \<circ> fill prices now batch) x = fill prices now (insert r batch) x"
  proof (cases "x = r")
    case True
    then show ?thesis using assms(3) by (simp add: fill_def)
  next
    case False
    then have "fc_id x \<noteq> fc_id r" using assms(1,2) x by (meson distinct_map inj_onD)
    then show ?thesis using False by (simp) (simp add: fill_def)
  qed
qed

lemma fill_unmatched: "outcome_of prices r = None \<Longrightarrow> fill prices now (insert r batch) = fill prices now batch"
  by (rule ext) (simp add: fill_def)

lemma score_row_table: "ev_table (snd (score_row np now r a s)) = record_actual now (fc_id r) a (ev_table s)"
  by (auto simp: score_row_def Let_def split: sum.splits option.splits)

lemma evaluate_rows_fill:
  assumes "distinct (map fc_id table)" and "set rows \<subseteq> set table" and "ev_table s = map (fill prices now batch) table"
    and "evaluate_rows np prices now rows s = (e, s')"
  shows "\<exists>k. ev_table s' = map (fill prices now (set (take k rows) \<union> batch)) table \<and> (e = None \<longrightarrow> k = length rows)"
  using assms(2-)
proof (induction rows arbitrary: s batch)
  case Nil
  then show ?case by (intro exI [of _ 0]) auto
next
  case (Cons r rows)
  show ?case
  proof (cases "outcome_of prices r")
    case None
    from Cons.IH [of "s\<lparr>ev_unmatched := ev_unmatched s + 1\<rparr>" batch] Cons.prems None obtain k where
      "ev_table s' = map (fill prices now (set (take k rows) \<union> batch)) table" "e = None \<longrightarrow> k = length rows" by auto
    then show ?thesis using fill_unmatched [OF None] by (intro exI [of _ "Suc k"]) simp
  next
    case (Some x)
    obtain a t where x: "outcome_of prices r = Some (a, t)" using Some by (cases x) auto
    obtain e1 s1 where sc: "score_row np now r a s = (e1, s1)" by force
    have t1: "ev_table s1 = map (fill prices now (insert r batch)) table"
      using score_row_table [of np now r a s] record_fill [OF assms(1) _ x] Cons.prems(1,2) by (simp add: sc)
    show ?thesis
    proof (cases e1)
      case None
      with Cons.IH [of s1 "insert r batch"] Cons.prems x sc t1 obtain k where
        "ev_table s' = map (fill prices now (set (take k rows) \<union> insert r batch)) table" "e = None \<longrightarrow> k = length rows" by auto
      then show ?thesis by (intro exI [of _ "Suc k"]) simp
    next
      case (Some err)
      then show ?thesis using Cons.prems(3) x sc t1 by (intro exI [of _ 1]) auto
    qed
  qed
qed

lemma run_evaluate_table:
  assumes "run_evaluate np al env prices now (table, settings) = (res, table', settings')"
  obtains e s where "evaluate_rows np prices now (pending_batch now table) (start_evaluate table) = (e, s)" "ev_table s = table'"
    "e = None \<or> (\<exists>x. res = Inl x)"
  using assms by (auto simp: run_evaluate_def Let_def split: prod.splits option.splits sum.splits if_splits)

lemma pending_batch_pending: "r \<in> set (pending_batch now table) \<Longrightarrow> r \<in> set table \<and> pending now r"
  unfolding pending_batch_def by (auto dest: in_set_takeD)

lemma run_evaluate_fill:
  assumes "distinct (map fc_id table)" and "run_evaluate np al env prices now (table, settings) = (res, table', settings')"
  obtains k where "table' = map (fill prices now (set (take k (pending_batch now table)))) table"
    "(\<exists>x. res = Inl x) \<or> k = length (pending_batch now table)"
proof -
  obtain e s where s: "evaluate_rows np prices now (pending_batch now table) (start_evaluate table) = (e, s)" "ev_table s = table'"
    "e = None \<or> (\<exists>x. res = Inl x)" by (rule run_evaluate_table [OF assms(2)])
  have "ev_table (start_evaluate table) = map (fill prices now {}) table"
    by (simp add: start_evaluate_def fill_def map_idI)
  moreover have "set (pending_batch now table) \<subseteq> set table" using pending_batch_pending by blast
  ultimately obtain k where "ev_table s = map (fill prices now (set (take k (pending_batch now table)) \<union> {})) table"
    "e = None \<longrightarrow> k = length (pending_batch now table)"
    using evaluate_rows_fill [OF assms(1) _ _ s(1)] by blast
  then show ?thesis using that [of k] s(2,3) by auto
qed

text \<open>C5: An outcome is never made up and never replaced: a run changes nothing but the outcome of forecasts
  that had matured without one, and each outcome is the value of a stored good observation of the same
  symbol, made after the forecast and within the tolerance of its horizon, such that no candidate is
  nearer to the target; and a run that ends normally with no more pending forecasts than its batch holds leaves no matured forecast
  without an outcome for which there is a candidate.\<close>

theorem evaluated_outcomes:
  assumes "run_evaluate np al env prices now (table, settings) = (res, table', settings')" and "distinct (map fc_id table)"
  shows "list_all2 (\<lambda>r r'. (r' = r \<and> (is_ok res \<and> length (filter (pending now) table) \<le> BATCH_LIMIT \<and> pending now r \<longrightarrow>
        \<not> (\<exists>p \<in> set prices. candidate r p))) \<or>
      pending now r \<and> (\<exists>p \<in> set prices. r' = r\<lparr>fc_actual := Some (p_value p), fc_recorded_at := Some now\<rparr> \<and> candidate r p \<and>
        (\<forall>q \<in> set prices. candidate r q \<longrightarrow> distance r p \<le> distance r q))) table table'"
proof -
  obtain k where t: "table' = map (fill prices now (set (take k (pending_batch now table)))) table"
    "(\<exists>x. res = Inl x) \<or> k = length (pending_batch now table)" by (rule run_evaluate_fill [OF assms(2,1)])
  let ?batch = "set (take k (pending_batch now table))"
  have whole: "r \<in> ?batch" if "is_ok res" "length (filter (pending now) table) \<le> BATCH_LIMIT" "pending now r" "r \<in> set table" for r
    using that t(2) by (auto simp: pending_batch_def)
  have "(fill prices now ?batch r = r \<and> (is_ok res \<and> length (filter (pending now) table) \<le> BATCH_LIMIT \<and> pending now r \<longrightarrow>
        \<not> (\<exists>p \<in> set prices. candidate r p))) \<or> pending now r \<and>
      (\<exists>p \<in> set prices. fill prices now ?batch r = r\<lparr>fc_actual := Some (p_value p), fc_recorded_at := Some now\<rparr> \<and> candidate r p \<and>
        (\<forall>q \<in> set prices. candidate r q \<longrightarrow> distance r p \<le> distance r q))" if r: "r \<in> set table" for r
  proof (cases "r \<in> ?batch")
    case False
    then show ?thesis using whole [OF _ _ _ r] by (auto simp: fill_def)
  next
    case True
    then have pending: "pending now r" using pending_batch_pending in_set_takeD by fast
    show ?thesis
    proof (cases "outcome_of prices r")
      case None
      then show ?thesis using True outcome_None [of prices r] by (simp add: fill_def)
    next
      case (Some x)
      then obtain a s where x: "outcome_of prices r = Some (a, s)" by (cases x) auto
      obtain p where "p \<in> set prices" "candidate r p" "p_value p = a"
        "\<And>q. q \<in> set prices \<Longrightarrow> candidate r q \<Longrightarrow> distance r p \<le> distance r q"
        using outcome_nearest [OF x] by metis
      then show ?thesis using True pending x by (auto simp: fill_def)
    qed
  qed
  then show ?thesis unfolding t(1) list_all2_map2 by (intro list.rel_refl_strong) blast
qed

definition demo_forecast :: "int \<Rightarrow> int \<Rightarrow> forecast_row" where
  "demo_forecast k target = \<lparr>fc_id = k, fc_symbol = ''XAUUSD'', fc_horizon = ''1h'', fc_predicted_at = target - 60 * minute_us,
     fc_target = target, fc_point = Fin 110, fc_lower = Fin 90, fc_upper = Fin 120, fc_change = Fin (- 100), fc_regime = ''unknown'',
     fc_actual = None, fc_recorded_at = None\<rparr>"

definition demo_price :: "int \<Rightarrow> price_row" where
  "demo_price t = \<lparr>p_symbol = ''XAUUSD'', p_value = Fin 108, p_currency = ''USD'', p_unit = ''oz'', p_source = ''demo'',
     p_observed_at = t, p_collected_at = t, p_quality = ''ok''\<rparr>"

definition demo_env :: evaluate_env where
  "demo_env = \<lparr>ee_iso = (\<lambda>_. []), ee_fit_gate = (\<lambda>_. None)\<rparr>"

abbreviation demo_evaluate :: "price_row list \<Rightarrow> int \<Rightarrow> forecasts \<Rightarrow> evaluate_result res \<times> forecasts \<times> settings_table" where
  "demo_evaluate prices now table \<equiv> run_evaluate reference_numpy reference_arrays demo_env prices now (table, [])"

lemma demo_outcome: "outcome_of [demo_price t] (demo_forecast k t) = Some (Fin 108, t)"
  by (simp add: outcome_of_def nearest_price_def price_window_def window_floor_def demo_price_def demo_forecast_def
      tolerance_of_def TOLERANCES_def dict_get_def)

lemma demo_batch: "pending_batch 5 [demo_forecast 1 5] = [demo_forecast 1 5]"
  by (simp add: pending_batch_def pending_def demo_forecast_def BATCH_LIMIT_def)

lemma demo_fields:
  "fc_id (demo_forecast k t) = k" "fc_point (demo_forecast k t) = Fin 110" "fc_change (demo_forecast k t) = Fin (- 100)"
  "fc_symbol (demo_forecast k t) = ''XAUUSD''" "fc_horizon (demo_forecast k t) = ''1h''"
  by (simp_all add: demo_forecast_def)

lemma demo_calibration:
  "is_ok (compute_live_calibration np al 5 LIVE_CAL_WINDOW [demo_forecast 1 5\<lparr>fc_actual := Some a, fc_recorded_at := t\<rparr>])"
  by (simp add: compute_live_calibration_def matured_pairs_def matured_def newest_outcomes_def LIVE_CAL_WINDOW_def
      tally_row_def recover_base_def demo_fields Let_def)

lemma demo_runs: "is_ok (fst (demo_evaluate [demo_price 5] 5 [demo_forecast 1 5]))"
  using demo_outcome [of 5 1] demo_calibration [of reference_numpy reference_arrays "Some 5" "Fin 108"]
  by (auto simp: run_evaluate_def demo_batch score_row_def start_evaluate_def record_actual_def Let_def recover_base_def
      demo_env_def demo_fields split: sum.splits)

lemma evaluated_outcomes_witness:
  "map fc_actual (fst (snd (demo_evaluate [demo_price 5] 5 [demo_forecast 1 5]))) = [Some (Fin 108)]"
proof -
  let ?run = "demo_evaluate [demo_price 5] 5 [demo_forecast 1 5]"
  obtain res table' settings' where run: "?run = (res, table', settings')" by (cases ?run) auto
  have "distinct (map fc_id [demo_forecast 1 5])" by simp
  note l = evaluated_outcomes [OF run this]
  obtain k where t: "table' = map (fill [demo_price 5] 5 (set (take k [demo_forecast 1 5]))) [demo_forecast 1 5]"
    "(\<exists>x. res = Inl x) \<or> k = length [demo_forecast 1 5]"
    by (rule run_evaluate_fill [OF _ run]) (simp_all add: demo_batch)
  obtain r' where r': "table' = [r']" using t(1) by simp
  have p: "pending 5 (demo_forecast 1 5)" "length (filter (pending 5) [demo_forecast 1 5]) \<le> BATCH_LIMIT"
    "candidate (demo_forecast 1 5) (demo_price 5)"
    by (simp_all add: pending_def demo_forecast_def demo_price_def candidate_def BATCH_LIMIT_def tolerance_of_def TOLERANCES_def dict_get_def)
  have ok: "is_ok res" using demo_runs by (simp add: run)
  have v: "p_value (demo_price 5) = Fin 108" by (simp add: demo_price_def)
  have "fc_actual r' = Some (Fin 108)" using l ok p v by (auto simp: r')
  then show ?thesis by (simp add: run r')
qed

section \<open>Starvation\<close>

lemma small_keys_first:
  fixes f :: "'a \<Rightarrow> 'k::linorder"
  assumes "n \<le> length (filter (\<lambda>x. f x < c) xs)" and "y \<in> set (take n (sort_key f xs))"
  shows "f y < c"
proof (rule ccontr)
  let ?s = "sort_key f xs"
  assume "\<not> f y < c"
  obtain i where i: "i < n" "i < length ?s" "y = ?s ! i" using assms(2) by (auto simp: in_set_conv_nth)
  have mono: "f (?s ! a) \<le> f (?s ! b)" if "a \<le> b" "b < length ?s" for a b
    using sorted_nth_mono [OF sorted_sort_key, of a b f xs] that by simp
  have "{j. j < length ?s \<and> f (?s ! j) < c} \<subseteq> {..<i}"
  proof
    fix j assume j: "j \<in> {j. j < length ?s \<and> f (?s ! j) < c}"
    show "j \<in> {..<i}"
    proof (rule ccontr)
      assume "j \<notin> {..<i}"
      then have "f y \<le> f (?s ! j)" using mono [of i j] i(3) j by simp
      then show False using j \<open>\<not> f y < c\<close> by auto
    qed
  qed
  from card_mono [OF _ this] have "length (filter (\<lambda>x. f x < c) ?s) \<le> i" by (simp add: length_filter_conv_card)
  moreover have "length (filter (\<lambda>x. f x < c) ?s) = length (filter (\<lambda>x. f x < c) xs)"
    by (intro mset_eq_length) simp
  ultimately show False using assms(1) i(1) by simp
qed

definition evaluate_runs ::
  "numlib \<Rightarrow> arraylib \<Rightarrow> evaluate_env \<Rightarrow> (price_row list \<times> int) list \<Rightarrow> forecasts \<times> settings_table \<Rightarrow> forecasts \<times> settings_table" where
  "evaluate_runs np al env runs db = foldl (\<lambda>db (prices, now). snd (run_evaluate np al env prices now db)) db runs"

lemma blocked_run:
  assumes "BATCH_LIMIT \<le> length (filter (\<lambda>r. fc_actual r = None \<and> fc_target r < c) table)" and "c \<le> now"
    and "\<forall>r \<in> set table. fc_actual r = None \<and> fc_target r < c \<longrightarrow> \<not> (\<exists>p \<in> set prices. candidate r p)" and "distinct (map fc_id table)"
  shows "fst (snd (run_evaluate np al env prices now (table, settings))) = table"
proof -
  let ?run = "run_evaluate np al env prices now (table, settings)"
  obtain res table' settings' where run: "?run = (res, table', settings')" by (cases ?run) auto
  obtain k where t: "table' = map (fill prices now (set (take k (pending_batch now table)))) table"
    by (rule run_evaluate_fill [OF assms(4) run])
  have "filter (\<lambda>r. fc_target r < c) (filter (pending now) table) = filter (\<lambda>r. fc_actual r = None \<and> fc_target r < c) table"
    unfolding filter_filter using assms(2) by (intro filter_cong) (auto simp: pending_def)
  then have "fc_target r < c" if "r \<in> set (pending_batch now table)" for r
    using small_keys_first [of BATCH_LIMIT fc_target c "filter (pending now) table" r] assms(1) that
    by (simp add: pending_batch_def)
  then have "outcome_of prices r = None" if "r \<in> set (pending_batch now table)" for r
    using assms(3) pending_batch_pending [OF that] that unfolding outcome_None pending_def by blast
  then have "fill prices now (set (take k (pending_batch now table))) r = r" for r
    by (auto simp: fill_def dest: in_set_takeD split: option.split)
  then have "map (fill prices now (set (take k (pending_batch now table)))) table = table" by (intro map_idI)
  then show ?thesis by (simp add: run t)
qed

text \<open>C23: A full batch of old forecasts without a candidate starves the job: they are never marked, every run
  selects them again, and no forecast is evaluated any more by any number of runs, whatever prices arrive
  for the later ones.\<close>

theorem unmatched_batch_starves:
  assumes "BATCH_LIMIT \<le> length (filter (\<lambda>r. fc_actual r = None \<and> fc_target r < c) table)" and "distinct (map fc_id table)"
    and "\<forall>(prices, now) \<in> set runs. c \<le> now \<and>
      (\<forall>r \<in> set table. fc_actual r = None \<and> fc_target r < c \<longrightarrow> \<not> (\<exists>p \<in> set prices. candidate r p))"
  shows "fst (evaluate_runs np al env runs (table, settings)) = table"
  using assms(3)
proof (induction runs arbitrary: settings)
  case (Cons run runs)
  obtain prices now where run: "run = (prices, now)" by force
  have "fst (snd (run_evaluate np al env prices now (table, settings))) = table"
    by (rule blocked_run [OF assms(1) _ _ assms(2)]) (use Cons.prems run in auto)
  then obtain settings' where "snd (run_evaluate np al env prices now (table, settings)) = (table, settings')"
    by (metis prod.collapse)
  then show ?case using Cons.IH [of settings'] Cons.prems by (simp add: evaluate_runs_def run)
qed (simp add: evaluate_runs_def)

definition demo_backlog :: forecasts where
  "demo_backlog = map (\<lambda>k. demo_forecast (int k) 0) [0..<500] @ [demo_forecast 500 (10 * 60 * minute_us)]"

lemma demo_backlog_facts:
  "distinct (map fc_id demo_backlog)" "length (filter (\<lambda>r. fc_actual r = None \<and> fc_target r < 1) demo_backlog) = 500"
  "\<forall>r \<in> set demo_backlog. fc_actual r = None \<and> fc_target r < 1 \<longrightarrow> (\<exists>k. r = demo_forecast k 0)"
  by (auto simp: demo_backlog_def demo_forecast_def distinct_map inj_on_def filter_map o_def)

lemma unmatched_batch_starves_witness:
  "fst (evaluate_runs reference_numpy reference_arrays demo_env (replicate 1000 ([demo_price (10 * 60 * minute_us)], 20 * 60 * minute_us))
     (demo_backlog, [])) = demo_backlog \<and>
   outcome_of [demo_price (10 * 60 * minute_us)] (last demo_backlog) \<noteq> None"
proof
  have "\<not> candidate (demo_forecast k 0) (demo_price (10 * 60 * minute_us))" for k
    by (simp add: candidate_def demo_forecast_def demo_price_def tolerance_of_def TOLERANCES_def dict_get_def)
  then show "fst (evaluate_runs reference_numpy reference_arrays demo_env (replicate 1000 ([demo_price (10 * 60 * minute_us)], 20 * 60 * minute_us))
     (demo_backlog, [])) = demo_backlog"
    using demo_backlog_facts by (intro unmatched_batch_starves [where c = 1]) (auto simp: BATCH_LIMIT_def)
  show "outcome_of [demo_price (10 * 60 * minute_us)] (last demo_backlog) \<noteq> None"
    using demo_outcome by (simp add: demo_backlog_def)
qed

end
