(* ===== verification/Backtest_Props.thy ===== *)
theory Backtest_Props
  imports Backtest
begin

text \<open>
  What a backtest may not do: look at later values when it decides, leave a position before its minimal
  holding time, or report an equity after costs above the one before costs.
\<close>

section \<open>Prefixes\<close>

lemma expectations_nth:
  assumes "expectations forecast p values = Inr es"
  shows "length es = length values - 1 - bp_warmup p"
    and "i < length es \<Longrightarrow> forecast (take (bp_warmup p + i + 1) values) (bp_horizon p) = Inr (es ! i)"
proof -
  have l: "list_all2 (\<lambda>t e. forecast (take (t + 1) values) (bp_horizon p) = Inr e) [bp_warmup p..<length values - 1] es"
    using assms by (simp add: expectations_def mapM_eq_Inr)
  then show n: "length es = length values - 1 - bp_warmup p" by (auto dest: list_all2_lengthD)
  show "i < length es \<Longrightarrow> forecast (take (bp_warmup p + i + 1) values) (bp_horizon p) = Inr (es ! i)"
    using list_all2_nthD2 [OF l, of i] n by simp
qed

definition after :: "numlib \<Rightarrow> backtest_params \<Rightarrow> (pyfloat list \<Rightarrow> string) \<Rightarrow> pyfloat list \<Rightarrow> pyfloat list \<Rightarrow> nat \<Rightarrow> strategy_state" where
  "after np p r values es k = strategy_run np p r values (take k es)"

lemma after_0 [simp]: "after np p r values es 0 = start_strategy"
  by (simp add: after_def strategy_run_def)

lemma after_Suc: "k < length es \<Longrightarrow> after np p r values es (Suc k) = day np p r values (after np p r values es k) (bp_warmup p + k, es ! k)"
  by (simp add: after_def strategy_run_def take_Suc_conv_app_nth enumerate_append_eq)

lemma after_all: "after np p r values es (length es) = strategy_run np p r values es"
  by (simp add: after_def)

text \<open>Three flat values, a rise that is bought, a fall that is sold.\<close>

definition demo_params :: backtest_params where
  "demo_params = \<lparr>bp_horizon = 1, bp_fee = Fin 0, bp_spread = Fin 0, bp_slippage = Fin 50, bp_min_holding = 1, bp_warmup = 0\<rparr>"

text \<open>The demonstration forecaster reads the last value of its history.\<close>

definition demo_forecaster :: "pyfloat list \<Rightarrow> nat \<Rightarrow> pyfloat res" where
  "demo_forecaster history steps = Inr (fsub (last history) (Fin 100))"

text \<open>C9: What the strategy has done by a day, and what it does on it, depends on the values up to that day
  alone: two series that agree so far, whatever follows, have the same equity, position, trades and regime
  returns before the day's decision and after it; only the score of the directions waits for later values.\<close>

theorem backtest_no_lookahead:
  assumes "expectations forecast p values = Inr es" and "expectations forecast p values' = Inr es'"
    and "take (bp_warmup p + k + 1) values = take (bp_warmup p + k + 1) values'"
    and "bp_warmup p + k + 1 < length values" and "bp_warmup p + k + 1 < length values'"
  shows "book (after np p r values es k) = book (after np p r values' es' k) \<and>
    book (snd (trade p (es ! k) (after np p r values es k))) = book (snd (trade p (es' ! k) (after np p r values' es' k)))"
proof -
  have pre: "take (bp_warmup p + j + 1) values = take (bp_warmup p + j + 1) values'" if "j \<le> k" for j
    using arg_cong [OF assms(3), of "take (bp_warmup p + j + 1)"] that by (simp add: min_def)
  have same: "es ! j = es' ! j" if "j \<le> k" for j
    using expectations_nth [OF assms(1)] expectations_nth [OF assms(2)] pre [OF that] that assms(4,5)
    by (metis (no_types, lifting) Suc_eq_plus1 diff_diff_left le_less_trans less_diff_conv add.commute add.left_commute sum.inject(2) add_le_cancel_left)
  have "book (after np p r values es j) = book (after np p r values' es' j)" if "j \<le> k" for j
    using that
  proof (induction j)
    case (Suc j)
    have len: "j < length es" "j < length es'"
      using expectations_nth(1) [OF assms(1)] expectations_nth(1) [OF assms(2)] assms(4,5) Suc.prems by linarith+
    have "take (bp_warmup p + j + 2) values = take (bp_warmup p + j + 2) values'" using pre [OF Suc.prems] by simp
    moreover have "bp_warmup p + j + 1 < length values" "bp_warmup p + j + 1 < length values'" using assms(4,5) Suc.prems by linarith+
    ultimately show ?case
      unfolding after_Suc [OF len(1)] after_Suc [OF len(2)] using book_day [OF Suc.IH] same [of j] Suc.prems by simp
  qed simp
  then have b: "book (after np p r values es k) = book (after np p r values' es' k)" by simp
  from book_trade [OF this, of p "es ! k"] same [of k] b show ?thesis by simp
qed

lemma demo_expectations:
  "expectations demo_forecaster demo_params [Fin 400, Fin 200, Fin 50, Fin 100] = Inr [Fin 300, Fin 100, Fin (- 50)]"
  "expectations demo_forecaster demo_params [Fin 400, Fin 200, Fin 800] = Inr [Fin 300, Fin 100]"
  by (simp_all add: expectations_def demo_forecaster_def demo_params_def upt_rec)

lemma backtest_no_lookahead_witness:
  "book (after reference_numpy demo_params (\<lambda>_. []) [Fin 400, Fin 200, Fin 50, Fin 100] [Fin 300, Fin 100, Fin (- 50)] 1) =
   book (after reference_numpy demo_params (\<lambda>_. []) [Fin 400, Fin 200, Fin 800] [Fin 300, Fin 100] 1)"
  using backtest_no_lookahead [OF demo_expectations, where k = 1] by (simp add: demo_params_def)

section \<open>Positions\<close>

lemma day_long:
  "ss_long (day np p r values s (t, e)) = (if ss_long s then \<not> (bp_min_holding p \<le> ss_held s \<and> flt e (Fin 0)) else flt (entry_threshold p) e)"
  "ss_held (day np p r values s (t, e)) = (if ss_long (day np p r values s (t, e)) then (if ss_long s then ss_held s else 0) + 1 else ss_held s)"
  by (auto simp: day_def carry_def trade_def score_direction_def Let_def)

text \<open>A position is opened on a day whose expectation exceeds the threshold of the costs, and closed on a
  later day of negative expectation, no earlier than the minimal holding time after it was opened.\<close>

theorem holding_respected:
  assumes "b < length es" and "a < b" and "\<not> ss_long (after np p r values es a)"
    and "\<forall>j. a < j \<and> j \<le> b \<longrightarrow> ss_long (after np p r values es j)" and "\<not> ss_long (after np p r values es (Suc b))"
  shows "flt (entry_threshold p) (es ! a) \<and> flt (es ! b) (Fin 0) \<and> bp_min_holding p \<le> int b - int a"
proof -
  let ?s = "after np p r values es"
  have step: "ss_held (?s (Suc j)) = (if ss_long (?s (Suc j)) then (if ss_long (?s j) then ss_held (?s j) else 0) + 1 else ss_held (?s j))"
    if "j < length es" for j
    using day_long(2) [of np p r "values" "?s j" "bp_warmup p + j" "es ! j"] by (simp only: after_Suc [OF that])
  have held: "ss_held (?s j) = int j - int a" if "a < j" "j \<le> b" for j
    using that
  proof (induction j)
    case (Suc j)
    have l: "j < length es" and long: "ss_long (?s (Suc j))" using Suc.prems assms(1,4) by simp_all
    show ?case
    proof (cases "j = a")
      case True
      then show ?thesis using step [OF l] long assms(3) by simp
    next
      case False
      then have "ss_long (?s j)" "ss_held (?s j) = int j - int a" using Suc assms(4) by simp_all
      then show ?thesis using step [OF l] long by simp
    qed
  qed simp
  have "ss_long (?s (Suc a))" using assms(2,4) by simp
  then have "flt (entry_threshold p) (es ! a)" using assms(1-3) day_long(1) by (simp add: after_Suc)
  moreover have "ss_long (?s b)" using assms(2,4) by simp
  then have "bp_min_holding p \<le> ss_held (?s b)" "flt (es ! b) (Fin 0)"
    using assms(5) day_long(1) [of np p r "values" "?s b"] by (simp_all add: after_Suc [OF assms(1)] split: if_splits)
  moreover have "ss_held (?s b) = int b - int a" using held assms(2) by simp
  ultimately show ?thesis by simp
qed

lemma demo_longs:
  "map (\<lambda>k. ss_long (after np demo_params r [Fin 400, Fin 200, Fin 50, Fin 100] [Fin 300, Fin 100, Fin (- 50)] k)) [0, 1, 2, 3] =
    [False, True, True, False]"
proof -
  have cost: "entry_threshold demo_params = Fin 75"
    by (simp add: entry_threshold_def round_trip_cost_pct_def cost_per_side_pct_def demo_params_def lit_def) code_simp
  have "bp_min_holding demo_params = 1" by (simp add: demo_params_def)
  then show ?thesis by (simp add: after_def strategy_run_def day_long start_strategy_def cost)
qed

lemma holding_respected_witness:
  "flt (entry_threshold demo_params) (Fin 300) \<and> flt (Fin (- 50)) (Fin 0) \<and> bp_min_holding demo_params \<le> 2"
proof -
  have l: "\<not> ss_long (after np demo_params r [Fin 400, Fin 200, Fin 50, Fin 100] [Fin 300, Fin 100, Fin (- 50)] 0)"
    "ss_long (after np demo_params r [Fin 400, Fin 200, Fin 50, Fin 100] [Fin 300, Fin 100, Fin (- 50)] 1)"
    "ss_long (after np demo_params r [Fin 400, Fin 200, Fin 50, Fin 100] [Fin 300, Fin 100, Fin (- 50)] 2)"
    "\<not> ss_long (after np demo_params r [Fin 400, Fin 200, Fin 50, Fin 100] [Fin 300, Fin 100, Fin (- 50)] (Suc 2))" for np r
    using demo_longs [of np r] by (simp_all add: numeral_3_eq_3)
  have "ss_long (after np demo_params r [Fin 400, Fin 200, Fin 50, Fin 100] [Fin 300, Fin 100, Fin (- 50)] j)" if "0 < j \<and> j \<le> 2" for np r j
  proof -
    have "j = 1 \<or> j = 2" using that by auto
    then show ?thesis using l(2,3) [of np r] by auto
  qed
  then show ?thesis using holding_respected [where b = 2 and a = 0 and es = "[Fin 300, Fin 100, Fin (- 50)]", OF _ _ l(1) _ l(4)] by simp
qed

section \<open>Costs\<close>

text \<open>The net curve is below the gross one unless a product has become undefined.\<close>

definition below :: "pyfloat \<Rightarrow> pyfloat \<Rightarrow> bool" where
  "below e g \<longleftrightarrow> e = NaN \<or> g = NaN \<or> fle (Fin 0) e \<and> fle e g"

lemma below_not_above: "below e g \<Longrightarrow> \<not> flt g e"
  using flt_not_fle [of g e] by (auto simp: below_def)

lemma nonneg_cases:
  assumes "fle (Fin 0) a"
  obtains "a = PInf" | x where "a = Fin x" "0 \<le> x"
  using assms by (rule fle_Fin_cases)

lemma fmul_at_least_0:
  assumes "fle (Fin 0) a" and "fle (Fin 0) b"
  shows "fmul a b = NaN \<or> fle (Fin 0) (fmul a b)"
  using assms(1)
proof (cases rule: nonneg_cases)
  case 1
  then show ?thesis using assms(2) by (cases rule: nonneg_cases [OF assms(2)]) (auto simp: signed_inf_def fle_def feq_def)
next
  case (2 x)
  from assms(2) show ?thesis
  proof (cases rule: nonneg_cases)
    case 1
    then show ?thesis using 2 by (auto simp: signed_inf_def fle_def feq_def)
  next
    case (2 y)
    then show ?thesis using \<open>a = Fin x\<close> \<open>0 \<le> x\<close> by (simp add: rnd_nonneg)
  qed
qed

lemma fmul_mono:
  assumes "fle (Fin 0) e" "fle e g" "fle (Fin 0) f" and "fmul e f \<noteq> NaN" "fmul g f \<noteq> NaN"
  shows "fle (fmul e f) (fmul g f)"
proof -
  have g: "fle (Fin 0) g" by (rule fle_trans [OF assms(1,2)])
  from g show ?thesis
  proof (cases rule: nonneg_cases)
    case 1
    have "fmul g f = PInf" using assms(3)
      by (cases rule: nonneg_cases) (use 1 assms(5) in \<open>auto simp: signed_inf_def split: if_splits\<close>)
    then show ?thesis using assms(4) by (cases "fmul e f") (auto simp: fle_def feq_def)
  next
    case (2 y)
    then obtain x where x: "e = Fin x" "0 \<le> x" "x \<le> y"
      using assms(1,2) by (cases e) (auto simp: fle_def feq_def)
    from assms(3) show ?thesis
    proof (cases rule: nonneg_cases)
      case 1
      have "0 < x" using 1 x assms(4) by (cases "x = 0") (auto simp: signed_inf_def)
      then have "0 < y" using x(3) by simp
      then show ?thesis using 1 2 x \<open>0 < x\<close> by (simp add: signed_inf_def fle_def feq_def)
    next
      case (2 z)
      then show ?thesis using x \<open>g = Fin y\<close> by (simp add: rnd_fle mult_right_mono)
    qed
  qed
qed

lemma fmul_below:
  assumes "below e g" and "f = NaN \<or> fle (Fin 0) f"
  shows "below (fmul e f) (fmul g f)"
proof (cases "e = NaN \<or> g = NaN \<or> f = NaN \<or> fmul e f = NaN \<or> fmul g f = NaN")
  case True
  have nan: "fmul NaN x = NaN" "fmul x NaN = NaN" for x by (cases x; simp)+
  from True show ?thesis by (auto simp: below_def nan)
next
  case False
  then have "fle (Fin 0) e" "fle e g" "fle (Fin 0) f" using assms by (auto simp: below_def)
  then show ?thesis using False fmul_at_least_0 fmul_mono unfolding below_def by blast
qed

lemma fmul_shrink:
  assumes "is_double e" and "below e g" and "0 \<le> k" "k \<le> 1"
  shows "below (fmul e (Fin k)) g"
proof (cases "e = NaN \<or> g = NaN \<or> fmul e (Fin k) = NaN")
  case True
  then show ?thesis by (auto simp: below_def)
next
  case False
  then have e: "fle (Fin 0) e" "fle e g" using assms(2) by (auto simp: below_def)
  have n: "fle (Fin 0) (fmul e (Fin k))" using fmul_at_least_0 [OF e(1), of "Fin k"] assms(3) False by simp
  have "fle (fmul e (Fin k)) e" using e(1)
  proof (cases rule: nonneg_cases)
    case 1
    then show ?thesis using False assms(3) by (auto simp: signed_inf_def fle_def feq_def split: if_splits)
  next
    case (2 x)
    then have "x * k \<le> x" using assms(4) mult_left_le [of k x] by (simp add: mult.commute)
    then show ?thesis using 2 assms(1) rnd_scale_down [of x "x * k"] by simp
  qed
  then show ?thesis using n e(2) fle_trans unfolding below_def by blast
qed

lemma keep_factor:
  assumes "fle (Fin 0) (cost_side p)" and "fle (cost_side p) (Fin 1)"
  obtains k where "fsub (Fin 1) (cost_side p) = Fin k" "0 \<le> k" "k \<le> 1"
proof -
  obtain c where c: "cost_side p = Fin c" "0 \<le> c" "c \<le> 1"
    using assms by (cases "cost_side p") (auto simp: fle_def feq_def)
  obtain k where "rnd (1 - c) = Fin k" "of_int 0 \<le> k" "k \<le> of_int 1"
    using rnd_bounded_fin [of 0 "1 - c" 1] c by auto
  then show ?thesis using that c by simp
qed

lemma growth_nonneg:
  assumes "\<not> flt a (Fin 0)" and "\<not> flt b (Fin 0)"
  shows "fadd (Fin 1) (change a b) = NaN \<or> fle (Fin 0) (fadd (Fin 1) (change a b))"
proof -
  have q: "nquot b a = NaN \<or> fle (Fin 0) (nquot b a)"
  proof (cases "\<exists>x y. a = Fin x \<and> b = Fin y \<and> x \<noteq> 0")
    case True
    then obtain x y where xy: "a = Fin x" "b = Fin y" "x \<noteq> 0" by blast
    then have "0 \<le> y / x" using assms by simp
    then show ?thesis using xy rnd_nonneg [of "y / x"] by (simp add: nquot_def)
  next
    case False
    then show ?thesis using assms by (cases a; cases b) (auto simp: nquot_def signed_inf_def fle_def feq_def)
  qed
  show ?thesis
  proof (cases "nquot b a")
    case (Fin x)
    then have "0 \<le> x" using q by simp
    then have "fle (Fin (- 1)) (rnd (x - 1))" using rnd_fle [of "- 1" "x - 1"] by simp
    then show ?thesis
    proof (rule fle_Fin_cases)
      fix y assume "rnd (x - 1) = Fin y" "- 1 \<le> y"
      then show ?thesis using Fin rnd_nonneg [of "1 + y"] by (simp add: change_def)
    qed (use Fin in \<open>simp add: change_def fle_def feq_def\<close>)
  qed (use q in \<open>auto simp: change_def fle_def feq_def fsub_def\<close>)
qed

definition curves_ok :: "pyfloat list \<Rightarrow> pyfloat list \<Rightarrow> bool" where
  "curves_ok es gs \<longleftrightarrow> es \<noteq> [] \<and> list_all2 (\<lambda>e g. is_double e \<and> below e g) es gs"

lemma curves_last: "curves_ok es gs \<Longrightarrow> is_double (last es) \<and> below (last es) (last gs)"
  unfolding curves_ok_def by (metis (no_types, lifting) last_conv_nth list_all2_conv_all_nth list_all2_lengthD length_greater_0_conv diff_less zero_less_one)

lemma curves_snoc: "curves_ok es gs \<Longrightarrow> is_double e \<Longrightarrow> below e g \<Longrightarrow> curves_ok (es @ [e]) (gs @ [g])"
  by (simp add: curves_ok_def list_all2_appendI)

lemma list_all2_last:
  assumes "list_all2 P es gs" and "es \<noteq> []" and "\<And>e g. P e g \<Longrightarrow> Q e g" and "Q x (last gs)"
  shows "list_all2 Q (butlast es @ [x]) gs"
proof -
  obtain as a where es: "es = as @ [a]" using assms(2) by (cases es rule: rev_cases) auto
  then obtain bs b where gs: "gs = bs @ [b]" using assms(1) by (cases gs rule: rev_cases) auto
  then have "list_all2 P as bs" using assms(1) es by (simp add: list_all2_append list_all2_lengthD [OF assms(1), unfolded es gs, simplified])
  then have "list_all2 Q as bs" by (rule list_all2_mono) (rule assms(3))
  then show ?thesis using assms(4) es gs by (simp add: list_all2_appendI)
qed

lemma trade_below:
  assumes "curves_ok (ss_equity s) (ss_gross s)" and "fle (Fin 0) (cost_side p)" "fle (cost_side p) (Fin 1)"
    and "trade p e s = (eq, s')"
  shows "is_double eq \<and> below eq (last (ss_gross s)) \<and> ss_equity s' = ss_equity s \<and> ss_gross s' = ss_gross s"
proof -
  obtain k where k: "fsub (Fin 1) (cost_side p) = Fin k" "0 \<le> k" "k \<le> 1" by (rule keep_factor [OF assms(2,3)])
  show ?thesis
    using assms(4) curves_last [OF assms(1)] fmul_shrink [OF _ _ k(2,3)] by (auto simp: trade_def Let_def k(1) split: if_splits)
qed

lemma day_below:
  assumes "curves_ok (ss_equity s) (ss_gross s)" and "fle (Fin 0) (cost_side p)" "fle (cost_side p) (Fin 1)"
    and "\<not> flt (values ! t) (Fin 0)" "\<not> flt (values ! (t + 1)) (Fin 0)"
  shows "curves_ok (ss_equity (day np p r values s (t, e))) (ss_gross (day np p r values s (t, e)))"
proof -
  let ?s = "score_direction np (bp_horizon p) values t e s"
  obtain eq s' where tr: "trade p e ?s = (eq, s')" by force
  have "ss_equity ?s = ss_equity s" "ss_gross ?s = ss_gross s" by (simp_all add: score_direction_def Let_def)
  then have b: "is_double eq" "below eq (last (ss_gross s))" "ss_equity s' = ss_equity s" "ss_gross s' = ss_gross s"
    using trade_below [OF _ assms(2,3) tr] assms(1) by auto
  have "below (fmul eq (fadd (Fin 1) (change (values ! t) (values ! (t + 1)))))
      (fmul (last (ss_gross s)) (fadd (Fin 1) (change (values ! t) (values ! (t + 1)))))"
    by (rule fmul_below [OF b(2) growth_nonneg [OF assms(4,5)]])
  then show ?thesis
    using b curves_snoc [OF assms(1)] by (simp add: day_def tr carry_def Let_def)
qed

text \<open>C28: Costs never help: with costs per side between nothing and everything, and no negative price, the
  reported equity of a backtest is at no point above the gross equity, the final closing included.\<close>

theorem net_never_above_gross:
  assumes "expectations forecast p values = Inr es" and "\<forall>v \<in> set values. \<not> flt v (Fin 0)"
    and "fle (Fin 0) (cost_side p)" and "fle (cost_side p) (Fin 1)"
  shows "let s = close_out p (strategy_run np p r values es) in list_all2 (\<lambda>e g. \<not> flt g e) (ss_equity s) (ss_gross s)"
proof -
  have "curves_ok (ss_equity (after np p r values es k)) (ss_gross (after np p r values es k))" if "k \<le> length es" for k
    using that
  proof (induction k)
    case 0
    then show ?case by (simp add: start_strategy_def curves_ok_def below_def)
  next
    case (Suc k)
    then have k: "k < length es" "bp_warmup p + k + 1 < length values"
      using expectations_nth(1) [OF assms(1)] by linarith+
    then show ?case
      unfolding after_Suc [OF k(1)] using Suc assms(2) by (intro day_below [OF _ assms(3,4)]) auto
  qed
  from this [of "length es"] have c: "curves_ok (ss_equity (strategy_run np p r values es)) (ss_gross (strategy_run np p r values es))"
    by (simp add: after_all)
  obtain k where k: "fsub (Fin 1) (cost_side p) = Fin k" "0 \<le> k" "k \<le> 1" by (rule keep_factor [OF assms(3,4)])
  let ?s = "strategy_run np p r values es"
  have l: "list_all2 (\<lambda>e g. is_double e \<and> below e g) (ss_equity ?s) (ss_gross ?s)" "ss_equity ?s \<noteq> []"
    using c by (simp_all add: curves_ok_def)
  have "below (fmul (last (ss_equity ?s)) (Fin k)) (last (ss_gross ?s))"
    using curves_last [OF c] fmul_shrink [OF _ _ k(2,3)] by blast
  from list_all2_last [where Q = below, OF l _ this] have "list_all2 below (ss_equity (close_out p ?s)) (ss_gross (close_out p ?s))"
    using list_all2_mono [OF l(1), of below] by (simp add: close_out_def k(1) Let_def)
  then show ?thesis unfolding Let_def by (rule list_all2_mono) (rule below_not_above)
qed

lemma net_never_above_gross_witness:
  "let s = close_out demo_params (strategy_run reference_numpy demo_params (\<lambda>_. []) [Fin 400, Fin 200, Fin 50, Fin 100] [Fin 300, Fin 100, Fin (- 50)])
   in list_all2 (\<lambda>e g. \<not> flt g e) (ss_equity s) (ss_gross s)"
proof -
  have "cost_side demo_params = rnd (1 / 2)" by (simp add: cost_side_def cost_per_side_pct_def demo_params_def)
  then have "cost_side demo_params = Fin (1 / 2)" using rnd_half [of 1] by simp
  then show ?thesis by (intro net_never_above_gross [OF demo_expectations(1)]) simp_all
qed

end
