(* ===== verification/Bourse_Parse.thy ===== *)
theory Bourse_Parse
  imports Equity_Adjust Tables "HOL-Library.Multiset" "HOL-Library.List_Lexorder" "HOL-Library.Char_ord"
begin

text \<open>
  \<^verbatim>\<open>app/bourse/parse.py\<close>: the payloads of the exchange, turned into rows or refused. The error of the module
  is a \<^verbatim>\<open>BarParseError\<close>, and so it is here. Outside, the record \<open>parse_env\<close>: the printed form of floats and
  containers, the folding of Persian names and symbols (text over the whole of Unicode), and the UTC instant
  of a Tehran wall clock. A string holds characters up to code 255, which include the superscript digits
  that \<^verbatim>\<open>str.isdigit\<close> accepts.

  Shown: a dated series comes out strictly ascending, with one row per kept row of the payload; an
  instrument code is exact, and never read from a float; a watch or a day file has one row per instrument.
\<close>

record parse_env =
  pe_repr :: "json \<Rightarrow> string"
  pe_fold_name :: "json \<Rightarrow> string"
  pe_fold_symbol :: "json \<Rightarrow> string"
  pe_tehran_utc :: "int \<Rightarrow> int"

section \<open>Fields\<close>

definition FLOW_MARKETS :: "(int \<times> string) list" where
  "FLOW_MARKETS = [(1, ''bourse''), (2, ''farabourse'')]"

definition list_field :: "json \<Rightarrow> string \<Rightarrow> json list res" where
  "list_field payload field = (case payload of
     JObj p \<Rightarrow> (case json_get p field of
         JList rows \<Rightarrow> if rows = [] then Inl BarParseError else Inr rows
       | _ \<Rightarrow> Inl BarParseError)
   | _ \<Rightarrow> Inl BarParseError)"

type_synonym json_row = "(string \<times> json) list"

definition as_object :: "json \<Rightarrow> json_row res" where
  "as_object v = (case v of JObj r \<Rightarrow> Inr r | _ \<Rightarrow> Inl BarParseError)"

definition num :: "json_row \<Rightarrow> string \<Rightarrow> pyfloat res" where
  "num row key = bind_res
     (case json_get row key of JInt n \<Rightarrow> float_of_int n | JFloat a \<Rightarrow> Inr a | _ \<Rightarrow> Inl BarParseError)
     (\<lambda>out. if is_finite out then Inr out else Inl BarParseError)"

definition count_of :: "json_row \<Rightarrow> string \<Rightarrow> int res" where
  "count_of row key = bind_res (num row key) (\<lambda>v.
     bind_res (ftrunc_int v) (\<lambda>n.
     if flt v (Fin 0) \<or> \<not> feq v (Fin (of_int n)) then Inl BarParseError else Inr n))"

text \<open>\<^verbatim>\<open>str.isdigit\<close> and an ASCII digit.\<close>

definition py_isdigit :: "string \<Rightarrow> bool" where
  "py_isdigit s \<longleftrightarrow> s \<noteq> [] \<and> (\<forall>c \<in> set s. digit_value c \<noteq> None \<or> of_char c \<in> {178, 179, 185 :: int})"

definition ascii_digits :: "string \<Rightarrow> bool" where
  "ascii_digits s \<longleftrightarrow> (\<forall>c \<in> set s. digit_value c \<noteq> None)"

definition code_of :: "parse_env \<Rightarrow> json \<Rightarrow> string res" where
  "code_of env v = (let t = py_strip (if v = JNull then [] else py_str (pe_repr env) v) in
     if py_isdigit t then Inr t else Inl BarParseError)"

definition exact_code :: "json \<Rightarrow> string res" where
  "exact_code v = bind_res (case v of
       JInt n \<Rightarrow> Inr (int_str n)
     | JStr s \<Rightarrow> Inr (py_strip s)
     | _ \<Rightarrow> Inl BarParseError)
     (\<lambda>t. if ascii_digits t \<and> 1 \<le> length t \<and> length t \<le> 20 then Inr t else Inl BarParseError)"

text \<open>\<^verbatim>\<open>str(v or "").strip()\<close>.\<close>

fun json_true :: "json \<Rightarrow> bool" where
  "json_true JNull = False"
| "json_true (JBool b) = b"
| "json_true (JInt n) = (n \<noteq> 0)"
| "json_true (JFloat a) = (\<not> feq a (Fin 0))"
| "json_true (JStr s) = (s \<noteq> [])"
| "json_true (JList xs) = (xs \<noteq> [])"
| "json_true (JObj kvs) = (kvs \<noteq> [])"

definition text_or_empty :: "parse_env \<Rightarrow> json \<Rightarrow> string" where
  "text_or_empty env v = py_strip (if json_true v then py_str (pe_repr env) v else [])"

text \<open>Sorted by the key; a key that comes twice is refused.\<close>

fun unseen :: "('a \<Rightarrow> 'k) \<Rightarrow> 'k list \<Rightarrow> 'a list \<Rightarrow> bool" where
  "unseen key seen [] \<longleftrightarrow> True"
| "unseen key seen (x # xs) \<longleftrightarrow> key x \<notin> set seen \<and> unseen key (key x # seen) xs"

definition ascending_unique :: "('a \<Rightarrow> 'k::linorder) \<Rightarrow> 'a list \<Rightarrow> 'a list res" where
  "ascending_unique key items = (let s = sort_key key items in if unseen key [] s then Inr s else Inl BarParseError)"

text \<open>The only code of the rows, all of them objects.\<close>

definition only :: "'a list \<Rightarrow> 'a res" where
  "only xs = (case remdups xs of [c] \<Rightarrow> Inr c | _ \<Rightarrow> Inl BarParseError)"

definition single_code :: "parse_env \<Rightarrow> json list \<Rightarrow> string \<Rightarrow> (string \<times> json_row list) res" where
  "single_code env rows asked =
     bind_res (mapM (\<lambda>r. code_of env (json_get r ''insCode'')) (List.map_filter (\<lambda>v. case v of JObj r \<Rightarrow> Some r | _ \<Rightarrow> None) rows)) (\<lambda>codes.
       bind_res (only codes) (\<lambda>c.
       bind_res (mapM as_object rows) (\<lambda>objects.
       if asked \<noteq> [] \<and> c \<noteq> asked then Inl BarParseError else Inr (c, objects))))"

section \<open>Index histories and live values\<close>

record index_value =
  iv_date :: date
  iv_close :: pyfloat
  iv_low :: "pyfloat option"
  iv_high :: "pyfloat option"

record index_history =
  ih_code :: string
  ih_values :: "index_value list"
  ih_dropped :: int
  ih_dropped_dates :: "date list"

definition optional_num :: "json_row \<Rightarrow> string \<Rightarrow> pyfloat option res" where
  "optional_num row key = (if json_get row key = JNull then Inr None else map_res Some (num row key))"

text \<open>A row: its date, dropped or with its values.\<close>

definition index_row :: "json_row \<Rightarrow> (date + index_value) res" where
  "index_row r = bind_res (parse_deven (json_get r ''dEven'')) (\<lambda>d.
     bind_res (num r ''xNivInuClMresIbs'') (\<lambda>close.
     if fle close (Fin 0) then Inr (Inl d)
     else bind_res (optional_num r ''xNivInuPbMresIbs'') (\<lambda>low.
       map_res (\<lambda>high. Inr \<lparr>iv_date = d, iv_close = close, iv_low = low, iv_high = high\<rparr>)
         (optional_num r ''xNivInuPhMresIbs''))))"

definition lefts :: "('a + 'b) list \<Rightarrow> 'a list" where
  "lefts xs = List.map_filter (\<lambda>x. case x of Inl a \<Rightarrow> Some a | Inr _ \<Rightarrow> None) xs"

definition rights :: "('a + 'b) list \<Rightarrow> 'b list" where
  "rights xs = List.map_filter (\<lambda>x. case x of Inl _ \<Rightarrow> None | Inr b \<Rightarrow> Some b) xs"

definition parse_index_history :: "parse_env \<Rightarrow> json \<Rightarrow> string \<Rightarrow> index_history res" where
  "parse_index_history env payload asked =
     bind_res (list_field payload ''indexB2'') (\<lambda>rows.
     bind_res (single_code env rows asked) (\<lambda>(c, objects).
     bind_res (mapM index_row objects) (\<lambda>parsed.
     if rights parsed = [] then Inl BarParseError
     else map_res (\<lambda>vs. \<lparr>ih_code = c, ih_values = vs, ih_dropped = int (length (lefts parsed)),
         ih_dropped_dates = sort (lefts parsed)\<rparr>)
       (ascending_unique iv_date (rights parsed)))))"

record live_index =
  li_code :: string
  li_value :: pyfloat
  li_change_pct :: pyfloat
  li_name :: string

fun live_rows :: "parse_env \<Rightarrow> json list \<Rightarrow> (string \<times> live_index) list \<Rightarrow> (string \<times> live_index) list res" where
  "live_rows env [] out = Inr out"
| "live_rows env (v # vs) out =
     bind_res (as_object v) (\<lambda>r.
     bind_res (code_of env (json_get r ''insCode'')) (\<lambda>c.
     bind_res (num r ''xDrNivJIdx004'') (\<lambda>x.
     if fle x (Fin 0) then live_rows env vs out
     else bind_res (num r ''xVarIdxJRfV'') (\<lambda>pct. live_rows env vs
       (dict_set c \<lparr>li_code = c, li_value = x, li_change_pct = pct, li_name = pe_fold_name env (json_get r ''lVal30'')\<rparr> out)))))"

definition parse_index_live :: "parse_env \<Rightarrow> json \<Rightarrow> (string \<times> live_index) list res" where
  "parse_index_live env payload = bind_res (list_field payload ''indexB1'') (\<lambda>rows. live_rows env rows [])"

section \<open>Market values and client types\<close>

record market_values =
  mv_market :: string
  mv_values :: "(date \<times> pyfloat) list"
  mv_dropped :: int

definition value_row :: "json \<Rightarrow> (unit + date \<times> pyfloat) res" where
  "value_row v = bind_res (as_object v) (\<lambda>r. bind_res (num r ''marketCap'') (\<lambda>cap.
     if fle cap (Fin 0) then Inr (Inl ()) else map_res (\<lambda>d. Inr (d, cap)) (parse_deven (json_get r ''deven''))))"

definition parse_market_values :: "json \<Rightarrow> string \<Rightarrow> market_values res" where
  "parse_market_values payload market =
     (if market \<notin> snd ` set FLOW_MARKETS then Inl BarParseError
      else bind_res (list_field payload ''marketValue'') (\<lambda>rows.
        bind_res (mapM value_row rows) (\<lambda>parsed.
        if rights parsed = [] then Inl BarParseError
        else map_res (\<lambda>vs. \<lparr>mv_market = market, mv_values = vs, mv_dropped = int (length (lefts parsed))\<rparr>)
          (ascending_unique fst (rights parsed)))))"

definition CLIENT_FIELDS :: "(string \<times> string \<times> bool) list" where
  "CLIENT_FIELDS = [
     (''buy_i_count'', ''buy_I_Count'', True), (''buy_n_count'', ''buy_N_Count'', True),
     (''sell_i_count'', ''sell_I_Count'', True), (''sell_n_count'', ''sell_N_Count'', True),
     (''buy_i_volume'', ''buy_I_Volume'', False), (''buy_n_volume'', ''buy_N_Volume'', False),
     (''sell_i_volume'', ''sell_I_Volume'', False), (''sell_n_volume'', ''sell_N_Volume'', False),
     (''buy_i_value'', ''buy_I_Value'', False), (''buy_n_value'', ''buy_N_Value'', False),
     (''sell_i_value'', ''sell_I_Value'', False), (''sell_n_value'', ''sell_N_Value'', False)]"

record client_row =
  cl_date :: date
  cl_fields :: "(string \<times> json) list"

record client_flows =
  cf_code :: string
  cf_rows :: "client_row list"

definition client_field :: "json_row \<Rightarrow> string \<times> string \<times> bool \<Rightarrow> (string \<times> json) res" where
  "client_field r = (\<lambda>(column, key, is_count).
     if is_count then map_res (\<lambda>n. (column, JInt n)) (count_of r key)
     else bind_res (num r key) (\<lambda>v. if flt v (Fin 0) then Inl BarParseError else Inr (column, JFloat v)))"

definition client_row_of :: "json_row \<Rightarrow> client_row res" where
  "client_row_of r = bind_res (parse_deven (json_get r ''recDate'')) (\<lambda>d.
     map_res (\<lambda>fs. \<lparr>cl_date = d, cl_fields = fs\<rparr>) (mapM (client_field r) CLIENT_FIELDS))"

definition parse_client_types :: "parse_env \<Rightarrow> json \<Rightarrow> string \<Rightarrow> client_flows res" where
  "parse_client_types env payload asked =
     bind_res (list_field payload ''clientType'') (\<lambda>rows.
     bind_res (single_code env rows asked) (\<lambda>(c, objects).
     bind_res (mapM client_row_of objects) (\<lambda>parsed.
     map_res (\<lambda>rs. \<lparr>cf_code = c, cf_rows = rs\<rparr>) (ascending_unique cl_date parsed))))"

section \<open>The market overview and the sectors\<close>

definition tehran_instant :: "parse_env \<Rightarrow> json \<Rightarrow> json \<Rightarrow> int res" where
  "tehran_instant env deven heven = bind_res (parse_deven deven) (\<lambda>d.
     bind_res (case int_of_json heven of
         Inl TypeError \<Rightarrow> Inl BarParseError | Inl ValueError \<Rightarrow> Inl BarParseError | r \<Rightarrow> r) (\<lambda>h.
       let hh = h div 10000; mm = h div 100 mod 100; ss = h mod 100 in
       if \<not> (0 \<le> hh \<and> hh \<le> 23 \<and> 0 \<le> mm \<and> mm \<le> 59 \<and> 0 \<le> ss \<and> ss \<le> 59) then Inl BarParseError
       else Inr (pe_tehran_utc env (combine (toordinal d) (hh * hour_us + mm * minute_us + ss * 1000000)))))"

definition positive_or_none :: "json_row \<Rightarrow> string \<Rightarrow> pyfloat option res" where
  "positive_or_none row key = map_res (\<lambda>v. if feq v (Fin 0) then None else Some v) (num row key)"

record market_overview =
  mo_market :: string
  mo_activity_at :: int
  mo_index_value :: "pyfloat option"
  mo_index_change :: "pyfloat option"
  mo_ew_value :: "pyfloat option"
  mo_ew_change :: "pyfloat option"
  mo_trade_count :: int
  mo_trade_volume :: pyfloat
  mo_trade_value :: pyfloat
  mo_market_value :: "pyfloat option"
  mo_state :: string
  mo_state_title :: string

definition change_if :: "pyfloat option \<Rightarrow> json_row \<Rightarrow> string \<Rightarrow> pyfloat option res" where
  "change_if v row key = (case v of None \<Rightarrow> Inr None | Some _ \<Rightarrow> map_res Some (num row key))"

definition parse_market_overview :: "parse_env \<Rightarrow> json \<Rightarrow> string \<Rightarrow> market_overview res" where
  "parse_market_overview env payload market =
     (if market \<notin> snd ` set FLOW_MARKETS then Inl BarParseError
      else bind_res (as_object payload) (\<lambda>p.
        bind_res (as_object (json_get p ''marketOverview'')) (\<lambda>mo.
        bind_res (positive_or_none mo ''indexLastValue'') (\<lambda>iv.
        bind_res (positive_or_none mo ''indexEqualWeightedLastValue'') (\<lambda>ew.
        bind_res (tehran_instant env (json_get mo ''marketActivityDEven'') (json_get mo ''marketActivityHEven'')) (\<lambda>at_utc.
        bind_res (change_if iv mo ''indexChange'') (\<lambda>ic.
        bind_res (change_if ew mo ''indexEqualWeightedChange'') (\<lambda>ec.
        bind_res (count_of mo ''marketActivityZTotTran'') (\<lambda>n.
        bind_res (num mo ''marketActivityQTotTran'') (\<lambda>vol.
        bind_res (num mo ''marketActivityQTotCap'') (\<lambda>cap.
        map_res (\<lambda>mv. \<lparr>mo_market = market, mo_activity_at = at_utc, mo_index_value = iv, mo_index_change = ic,
            mo_ew_value = ew, mo_ew_change = ec, mo_trade_count = n, mo_trade_volume = vol, mo_trade_value = cap,
            mo_market_value = mv, mo_state = text_or_empty env (json_get mo ''marketState''),
            mo_state_title = pe_fold_name env (json_get mo ''marketStateTitle'')\<rparr>)
          (positive_or_none mo ''marketValue''))))))))))))"

record sector_row =
  sr_code :: string
  sr_name :: string
  sr_down_over_2 :: int
  sr_down_under_2 :: int
  sr_up_under_2 :: int
  sr_up_over_2 :: int

definition sector_row_of :: "parse_env \<Rightarrow> json \<Rightarrow> sector_row res" where
  "sector_row_of env v = bind_res (as_object v) (\<lambda>r.
     let c = text_or_empty env (json_get r ''cSecVal'') in
     if \<not> py_isdigit c then Inl BarParseError
     else bind_res (count_of r ''c1'') (\<lambda>c1. bind_res (count_of r ''c2'') (\<lambda>c2.
       bind_res (count_of r ''c3'') (\<lambda>c3. map_res (\<lambda>c4.
         \<lparr>sr_code = c, sr_name = pe_fold_name env (json_get r ''lSecVal''), sr_down_over_2 = c1, sr_down_under_2 = c2,
          sr_up_under_2 = c3, sr_up_over_2 = c4\<rparr>) (count_of r ''c4'')))))"

definition parse_sector_summary :: "parse_env \<Rightarrow> json \<Rightarrow> sector_row list res" where
  "parse_sector_summary env payload = bind_res (list_field payload ''sectorSummeries'') (\<lambda>rows.
     bind_res (mapM (sector_row_of env) rows) (ascending_unique sr_code))"

section \<open>Listed shares\<close>

definition SHARE_MARKETS :: "(string \<times> string) list" where
  "SHARE_MARKETS = [(''IRO1'', ''bourse''), (''IRO3'', ''farabourse''), (''IRO7'', ''paye''), (''IRO5'', ''sme'')]"

definition SHARE_BOARDS :: "(string \<times> string) list" where
  "SHARE_BOARDS = [(''0001'', ''main''), (''0002'', ''block''), (''0003'', ''secondary'')]"

text \<open>The patterns \<^verbatim>\<open>IR[A-Z0-9]{10}\<close> and \<^verbatim>\<open>[0-9]{2}\<close> of a whole string.\<close>

definition upper_or_digit :: "char \<Rightarrow> bool" where
  "upper_or_digit c \<longleftrightarrow> digit_value c \<noteq> None \<or> (65 \<le> (of_char c :: int) \<and> (of_char c :: int) \<le> 90)"

definition ins_id_ok :: "string \<Rightarrow> bool" where
  "ins_id_ok s \<longleftrightarrow> take 2 s = ''IR'' \<and> length s = 12 \<and> (\<forall>c \<in> set (drop 2 s). upper_or_digit c)"

definition sector_code_ok :: "string \<Rightarrow> bool" where
  "sector_code_ok s \<longleftrightarrow> length s = 2 \<and> ascii_digits s"

record listed_share =
  ls_code :: string
  ls_ins_id :: string
  ls_symbol :: string
  ls_name :: string
  ls_market :: string
  ls_board :: string
  ls_company :: string
  ls_sector :: string

record market_watch =
  mw_shares :: "listed_share list"
  mw_rows_total :: int

definition share_of :: "parse_env \<Rightarrow> string list \<Rightarrow> json_row \<Rightarrow> string \<Rightarrow> string \<Rightarrow> listed_share res" where
  "share_of env seen r ins_id market =
     (if \<not> ins_id_ok ins_id then Inl BarParseError
      else bind_res (exact_code (json_get r ''insCode'')) (\<lambda>c.
        if c \<in> set seen then Inl BarParseError
        else let sy = pe_fold_symbol env (json_get r ''lva''); csv = text_or_empty env (json_get r ''csv'') in
          if sy = [] then Inl BarParseError
          else Inr \<lparr>ls_code = c, ls_ins_id = ins_id, ls_symbol = sy, ls_name = pe_fold_name env (json_get r ''lvc''),
            ls_market = market, ls_board = dict_get ''other'' SHARE_BOARDS (drop 8 ins_id), ls_company = take 8 ins_id,
            ls_sector = (if sector_code_ok csv then csv else [])\<rparr>))"

fun watch_rows :: "parse_env \<Rightarrow> json list \<Rightarrow> listed_share list \<Rightarrow> listed_share list res" where
  "watch_rows env [] shares = Inr shares"
| "watch_rows env (v # vs) shares = bind_res (as_object v) (\<lambda>r.
     let ins_id = text_or_empty env (json_get r ''insID'') in
     case map_of SHARE_MARKETS (take 4 ins_id) of
       None \<Rightarrow> watch_rows env vs shares
     | Some market \<Rightarrow> bind_res (share_of env (map ls_code shares) r ins_id market) (\<lambda>s. watch_rows env vs (shares @ [s])))"

definition parse_market_watch :: "parse_env \<Rightarrow> json \<Rightarrow> market_watch res" where
  "parse_market_watch env payload = bind_res (list_field payload ''marketwatch'') (\<lambda>rows.
     bind_res (watch_rows env rows []) (\<lambda>shares.
     if shares = [] then Inl BarParseError
     else Inr \<lparr>mw_shares = shares, mw_rows_total = int (length rows)\<rparr>))"

definition two_digits :: "int \<Rightarrow> string" where
  "two_digits n = (if n < 10 then CHR ''0'' # int_str n else int_str n)"

fun sector_names :: "parse_env \<Rightarrow> json list \<Rightarrow> (string \<times> string) list \<Rightarrow> (string \<times> string) list res" where
  "sector_names env [] out = Inr out"
| "sector_names env (v # vs) out = bind_res (as_object v) (\<lambda>r.
     if json_get r ''type'' \<noteq> JStr ''IndustrialGroup'' then sector_names env vs out
     else case json_get r ''code'' of
       JInt n \<Rightarrow> if \<not> (0 \<le> n \<and> n \<le> 99) then Inl BarParseError
         else if two_digits n \<in> fst ` set out then Inl BarParseError
         else sector_names env vs (dict_set (two_digits n) (pe_fold_name env (json_get r ''name'')) out)
     | _ \<Rightarrow> Inl BarParseError)"

definition parse_static_sectors :: "parse_env \<Rightarrow> json \<Rightarrow> (string \<times> string) list res" where
  "parse_static_sectors env payload = bind_res (list_field payload ''staticData'') (\<lambda>rows.
     bind_res (sector_names env rows []) (\<lambda>out. if out = [] then Inl BarParseError else Inr out))"

section \<open>Day files\<close>

definition DAY_FILE_FIELD :: string where
  "DAY_FILE_FIELD = ''closingPriceDailyHistoryWithInstDetails''"

fun day_rows :: "json list \<Rightarrow> (string \<times> json_row) list \<Rightarrow> (string \<times> json_row) list res" where
  "day_rows [] out = Inr out"
| "day_rows (v # vs) out = bind_res (as_object v) (\<lambda>r. bind_res (exact_code (json_get r ''insCode'')) (\<lambda>c.
     if c \<in> fst ` set out then Inl BarParseError else day_rows vs (dict_set c r out)))"

definition parse_day_file :: "json \<Rightarrow> (string \<times> json_row) list res" where
  "parse_day_file payload = bind_res (list_field payload DAY_FILE_FIELD) (\<lambda>rows. day_rows rows [])"

record session_row =
  se_close :: pyfloat
  se_last_trade :: "pyfloat option"
  se_price_yesterday :: pyfloat
  se_value :: pyfloat
  se_volume :: pyfloat
  se_trades :: int

definition last_trade_of :: "json_row \<Rightarrow> pyfloat option res" where
  "last_trade_of row = (if json_get row ''pDrCotVal'' = JNull then Inr None
     else bind_res (num row ''pDrCotVal'') (\<lambda>v.
       if flt v (Fin 0) then Inl BarParseError else Inr (if feq v (Fin 0) then None else Some v)))"

definition parse_session_row :: "json_row \<Rightarrow> session_row res" where
  "parse_session_row row =
     bind_res (num row ''pClosing'') (\<lambda>close. if fle close (Fin 0) then Inl BarParseError
     else bind_res (num row ''priceYesterday'') (\<lambda>reference. if fle reference (Fin 0) then Inl BarParseError
     else bind_res (last_trade_of row) (\<lambda>last_trade.
     bind_res (num row ''qTotCap'') (\<lambda>v.
     bind_res (num row ''qTotTran5J'') (\<lambda>vol.
     if flt v (Fin 0) \<or> flt vol (Fin 0) then Inl BarParseError
     else map_res (\<lambda>n. \<lparr>se_close = close, se_last_trade = last_trade, se_price_yesterday = reference, se_value = v,
         se_volume = vol, se_trades = n\<rparr>) (count_of row ''zTotTran''))))))"

section \<open>Sorted and unique\<close>

lemma unseen_distinct: "unseen key seen xs \<longleftrightarrow> distinct (map key xs) \<and> set seen \<inter> key ` set xs = {}"
  by (induction xs arbitrary: seen) auto

lemma ascending_unique_iff:
  "ascending_unique key items = Inr s \<longleftrightarrow> distinct (map key items) \<and> s = sort_key key items"
proof -
  have "distinct (map key (sort_key key items)) \<longleftrightarrow> distinct (map key items)"
    by (metis distinct_map distinct_sort set_sort)
  then show ?thesis by (auto simp: ascending_unique_def unseen_distinct Let_def)
qed

lemma ascending_unique_strict:
  assumes "ascending_unique key items = Inr s"
  shows "sorted_wrt (\<lambda>a b. key a < key b) s" and "mset s = mset items"
  using assms sort_key_strict [of key items] by (auto simp: ascending_unique_iff)

lemma list_field_Inr: "list_field payload field = Inr rows \<longleftrightarrow> rows \<noteq> [] \<and> (\<exists>p. payload = JObj p \<and> json_get p field = JList rows)"
  by (auto simp: list_field_def split: json.splits)

lemma as_object_Inr: "as_object v = Inr r \<longleftrightarrow> v = JObj r"
  by (cases v) (auto simp: as_object_def)

lemma mapM_as_object: "mapM as_object vs = Inr rs \<longleftrightarrow> vs = map JObj rs"
proof (induction vs arbitrary: rs)
  case (Cons v vs)
  then show ?case by (cases rs) (auto simp: bind_res_eq_Inr map_res_eq_Inr as_object_Inr)
qed auto

lemma length_lefts_rights: "length (lefts xs) + length (rights xs) = length xs"
  by (induction xs) (auto simp: lefts_def rights_def List.map_filter_simps split: sum.splits)

lemma set_rights: "set (rights xs) = {b. Inr b \<in> set xs}"
  by (induction xs) (auto simp: rights_def List.map_filter_simps split: sum.splits)

lemma set_lefts: "set (lefts xs) = {a. Inl a \<in> set xs}"
  by (induction xs) (auto simp: lefts_def List.map_filter_simps split: sum.splits)

lemma mapM_set: "mapM f xs = Inr ys \<Longrightarrow> y \<in> set ys \<Longrightarrow> \<exists>x \<in> set xs. f x = Inr y"
  by (induction xs arbitrary: ys) (auto simp: bind_res_eq_Inr map_res_eq_Inr)

lemma only_Inr: "only xs = Inr c \<Longrightarrow> set xs = {c}"
  using set_remdups [of xs] by (auto simp: only_def split: list.splits simp del: set_remdups)

lemma single_code_Inr:
  assumes "single_code env rows asked = Inr (c, rs)"
  shows "rows = map JObj rs" and "\<forall>r \<in> set rs. code_of env (json_get r ''insCode'') = Inr c" and "asked \<noteq> [] \<longrightarrow> c = asked"
proof -
  let ?objs = "List.map_filter (\<lambda>v. case v of JObj r \<Rightarrow> Some r | _ \<Rightarrow> None) rows"
  obtain codes where codes: "mapM (\<lambda>r. code_of env (json_get r ''insCode'')) ?objs = Inr codes" "only codes = Inr c"
    "mapM as_object rows = Inr rs" "asked \<noteq> [] \<longrightarrow> c = asked"
    using assms by (auto simp: single_code_def bind_res_eq_Inr split: if_splits)
  show rows: "rows = map JObj rs" using codes(3) by (simp add: mapM_as_object)
  have "?objs = rs" unfolding rows by (induction rs) (simp_all add: List.map_filter_simps)
  with codes(1) have l: "list_all2 (\<lambda>r x. code_of env (json_get r ''insCode'') = Inr x) rs codes" by (simp add: mapM_eq_Inr)
  have "set codes = {c}" by (rule only_Inr [OF codes(2)])
  show "\<forall>r \<in> set rs. code_of env (json_get r ''insCode'') = Inr c"
  proof -
    have "\<forall>r \<in> set rs. \<exists>x \<in> set codes. code_of env (json_get r ''insCode'') = Inr x"
      using l by (induction rule: list_all2_induct) auto
    with \<open>set codes = {c}\<close> show ?thesis by simp
  qed
  show "asked \<noteq> [] \<longrightarrow> c = asked" by (rule codes(4))
qed

section \<open>Dated series\<close>

lemma num_finite: "num row key = Inr v \<Longrightarrow> is_finite v"
  by (auto simp: num_def bind_res_eq_Inr split: if_splits)

lemma index_row_close: "index_row r = Inr (Inr v) \<Longrightarrow> is_finite (iv_close v) \<and> flt (Fin 0) (iv_close v)"
  using num_finite [of r "''xNivInuClMresIbs''"]
  by (auto simp: index_row_def bind_res_eq_Inr map_res_eq_Inr not_flt [symmetric] split: if_splits)
    (metis is_finite.simps(4) not_flt pyfloat.distinct(5))

text \<open>C29: An index history comes out complete and in order: all rows are objects of the one instrument that was
  asked for, each row is either kept or counted as dropped, the kept dates ascend strictly, and every value
  is that of a row with a finite positive close.\<close>

theorem index_history_sound:
  assumes "parse_index_history env payload asked = Inr h"
  shows "\<exists>rows. list_field payload ''indexB2'' = Inr (map JObj rows) \<and>
    (\<forall>r \<in> set rows. code_of env (json_get r ''insCode'') = Inr (ih_code h)) \<and> (asked \<noteq> [] \<longrightarrow> ih_code h = asked) \<and>
    int (length (ih_values h)) + ih_dropped h = int (length rows) \<and>
    sorted_wrt (\<lambda>a b. iv_date a < iv_date b) (ih_values h) \<and>
    (\<forall>v \<in> set (ih_values h). is_finite (iv_close v) \<and> flt (Fin 0) (iv_close v) \<and> (\<exists>r \<in> set rows. index_row r = Inr (Inr v))) \<and>
    (\<forall>d \<in> set (ih_dropped_dates h). \<exists>r \<in> set rows. index_row r = Inr (Inl d))"
proof -
  obtain vs c rows parsed where p: "list_field payload ''indexB2'' = Inr vs" "single_code env vs asked = Inr (c, rows)"
    "mapM index_row rows = Inr parsed" "ascending_unique iv_date (rights parsed) = Inr (ih_values h)"
    "ih_code h = c" "ih_dropped h = int (length (lefts parsed))" "ih_dropped_dates h = sort (lefts parsed)"
    using assms by (auto simp: parse_index_history_def bind_res_eq_Inr map_res_eq_Inr split: if_splits prod.splits)
  note rows = single_code_Inr [OF p(2)]
  have m: "mset (ih_values h) = mset (rights parsed)" by (rule ascending_unique_strict(2) [OF p(4)])
  have "length parsed = length rows" using p(3) by (auto simp: mapM_eq_Inr dest: list_all2_lengthD)
  then have len: "int (length (ih_values h)) + ih_dropped h = int (length rows)"
    using length_lefts_rights [of parsed] mset_eq_length [OF m] p(6) by simp
  have "\<exists>r \<in> set rows. index_row r = Inr (Inr v)" if "v \<in> set (ih_values h)" for v
    using that mapM_set [OF p(3)] mset_eq_setD [OF m] by (auto simp: set_rights)
  moreover have "\<exists>r \<in> set rows. index_row r = Inr (Inl d)" if "d \<in> set (ih_dropped_dates h)" for d
    using that mapM_set [OF p(3), of "Inl d"] p(7) by (auto simp: set_lefts)
  ultimately show ?thesis
    using p rows len ascending_unique_strict(1) [OF p(4)] index_row_close by blast
qed

definition demo_parse :: parse_env where
  "demo_parse = \<lparr>pe_repr = (\<lambda>_. []), pe_fold_name = (\<lambda>_. []), pe_fold_symbol = (\<lambda>_. ''x''), pe_tehran_utc = (\<lambda>t. t - 12600000000)\<rparr>"

definition demo_index_row :: "int \<Rightarrow> int \<Rightarrow> json" where
  "demo_index_row d x = JObj [(''insCode'', JInt 7), (''dEven'', JInt d), (''xNivInuClMresIbs'', JInt x)]"

lemma index_history_sound_witness:
  "case parse_index_history demo_parse (JObj [(''indexB2'', JList [demo_index_row 20240103 30, demo_index_row 20240102 0,
      demo_index_row 20240101 10])]) ''7'' of
     Inl _ \<Rightarrow> False
   | Inr h \<Rightarrow> map iv_date (ih_values h) = [Date 2024 1 1, Date 2024 1 3] \<and> sorted_wrt (\<lambda>a b. iv_date a < iv_date b) (ih_values h)"
proof -
  let ?p = "parse_index_history demo_parse (JObj [(''indexB2'', JList [demo_index_row 20240103 30, demo_index_row 20240102 0,
      demo_index_row 20240101 10])]) ''7''"
  have "map_res (\<lambda>h. map iv_date (ih_values h)) ?p = Inr [Date 2024 1 1, Date 2024 1 3]" by code_simp
  then obtain h where h: "?p = Inr h" "map iv_date (ih_values h) = [Date 2024 1 1, Date 2024 1 3]"
    by (auto simp: map_res_eq_Inr)
  show ?thesis using index_history_sound [OF h(1)] h by auto
qed

section \<open>Instrument codes\<close>

lemma digits_value_append:
  "digits_value acc ds = Some n \<Longrightarrow> ascii_digits ds \<Longrightarrow> digits_value acc (ds @ es) = digits_value n es"
proof (induction ds arbitrary: acc)
  case (Cons c cs)
  then show ?case by (auto simp: ascii_digits_def split: option.splits)
qed simp

lemma digit_code: "0 \<le> n \<Longrightarrow> n < 10 \<Longrightarrow> digit_value (char_of (48 + n)) = Some (n :: int)"
  by (simp add: digit_value_def Let_def of_char_of)

lemma nat_digits_value: "0 \<le> n \<Longrightarrow> ascii_digits (nat_digits n) \<and> digits_value 0 (nat_digits n) = Some n \<and> nat_digits n \<noteq> []"
proof (induction n rule: nat_digits.induct)
  case (1 n)
  show ?case
  proof (cases "n < 10")
    case True
    then show ?thesis using 1(2) digit_code [of n] by (simp add: nat_digits.simps [of n] ascii_digits_def)
  next
    case False
    then have IH: "ascii_digits (nat_digits (n div 10))" "digits_value 0 (nat_digits (n div 10)) = Some (n div 10)"
      using 1 by simp_all
    have d: "digit_value (char_of (48 + n mod 10)) = Some (n mod 10)" by (rule digit_code) simp_all
    show ?thesis
      using digits_value_append [OF IH(2,1), of "[char_of (48 + n mod 10)]"] IH(1) d False
      by (simp add: nat_digits.simps [of n] ascii_digits_def)
  qed
qed

lemma digit_bound: "digit_value c = Some d \<Longrightarrow> 0 \<le> d \<and> d < 10"
  by (auto simp: digit_value_def Let_def split: if_splits)

lemma digits_value_bound:
  "ascii_digits ds \<Longrightarrow> 0 \<le> acc \<Longrightarrow> \<exists>n. digits_value acc ds = Some n \<and> 0 \<le> n \<and> n < (acc + 1) * 10 ^ length ds"
proof (induction ds arbitrary: acc)
  case (Cons c cs)
  obtain d where d: "digit_value c = Some d" "0 \<le> d" "d < 10" using Cons.prems(1) digit_bound by (auto simp: ascii_digits_def)
  have "ascii_digits cs" using Cons.prems(1) by (simp add: ascii_digits_def)
  from Cons.IH [OF this, of "10 * acc + d"] d Cons.prems(2) obtain n where
    n: "digits_value (10 * acc + d) cs = Some n" "0 \<le> n" "n < (10 * acc + d + 1) * 10 ^ length cs" by auto
  have "(10 * acc + d + 1) * 10 ^ length cs \<le> (10 * acc + 10) * (10 :: int) ^ length cs"
    by (rule mult_right_mono) (use d in simp_all)
  also have "\<dots> = (acc + 1) * 10 ^ length (c # cs)" by (simp add: algebra_simps)
  finally have "n < (acc + 1) * 10 ^ length (c # cs)" using n(3) by linarith
  then show ?case using n(1,2) d(1) by simp
qed simp

lemma digit_not_space: "digit_value c \<noteq> None \<Longrightarrow> \<not> py_space c \<and> c \<noteq> CHR ''-'' \<and> c \<noteq> CHR ''+''"
  by (auto simp: digit_value_def py_space_def Let_def split: if_splits)

lemma strip_digits:
  assumes "ascii_digits t"
  shows "py_strip t = t"
proof -
  have n: "\<not> py_space c" if "c \<in> set t" for c using assms that digit_not_space by (auto simp: ascii_digits_def)
  have "dropWhile py_space xs = xs" if "set xs \<subseteq> set t" for xs
    using that n by (cases xs) auto
  from this [of t] this [of "rev t"] show ?thesis by (simp add: py_strip_def)
qed

lemma py_int_digits:
  assumes "ascii_digits t" and "t \<noteq> []" and "digits_value 0 t = Some n"
  shows "py_int t = Inr n"
proof -
  obtain c cs where t: "t = c # cs" using assms(2) by (cases t) auto
  then have c: "digit_value c \<noteq> None" using assms(1) by (simp add: ascii_digits_def)
  then have "unsigned_value t = Some n" using assms(3) by (auto simp: t unsigned_value_def)
  then show ?thesis
    using digit_not_space [OF c] strip_digits [OF assms(1)] by (simp add: py_int_def Let_def t)
qed

text \<open>C30: An instrument code survives the parser digit for digit: an accepted value is an integer or a string,
  never a float or a boolean; the code reads back as that very number, below ten to the twentieth, and it is
  accepted again as it is.\<close>

theorem instrument_code_roundtrip:
  assumes "exact_code v = Inr t"
  shows "\<exists>n. py_int t = Inr n \<and> 0 \<le> n \<and> n < 10 ^ 20 \<and> (v = JInt n \<or> (\<exists>s. v = JStr s \<and> py_strip s = t)) \<and> exact_code (JStr t) = Inr t"
proof -
  have t: "ascii_digits t" "1 \<le> length t" "length t \<le> 20"
    using assms by (auto simp: exact_code_def bind_res_eq_Inr split: if_splits)
  obtain n where n: "digits_value 0 t = Some n" "0 \<le> n" "n < (0 + 1) * 10 ^ length t"
    using digits_value_bound [OF t(1), of 0] by auto
  have "(10::int) ^ length t \<le> 10 ^ 20" by (rule power_increasing) (use t(3) in simp_all)
  then have b: "n < 10 ^ 20" using n(3) by simp
  have i: "py_int t = Inr n" by (rule py_int_digits [OF t(1) _ n(1)]) (use t(2) in auto)
  have again: "exact_code (JStr t) = Inr t" using t strip_digits [OF t(1)] by (simp add: exact_code_def)
  consider (int) m where "v = JInt m" "t = int_str m" | (str) s where "v = JStr s" "py_strip s = t"
    using assms by (auto simp: exact_code_def bind_res_eq_Inr split: json.splits if_splits)
  then show ?thesis
  proof cases
    case int
    have "0 \<le> m"
    proof (rule ccontr)
      assume "\<not> 0 \<le> m"
      then have "CHR ''-'' \<in> set t" using int(2) by (simp add: int_str_def)
      then show False using t(1) digit_not_space by (fastforce simp: ascii_digits_def)
    qed
    then have "t = nat_digits m" using int(2) by (simp add: int_str_def)
    then have "m = n" using nat_digits_value [OF \<open>0 \<le> m\<close>] n(1) by simp
    then show ?thesis using int(1) i n(2) b again by blast
  next
    case str
    then show ?thesis using i n(2) b again by blast
  qed
qed

lemma instrument_code_roundtrip_witness:
  "exact_code (JInt 46348559193224090) = Inr ''46348559193224090'' \<and> exact_code (JStr ''46348559193224090'') = Inr ''46348559193224090''"
proof -
  have "exact_code (JInt 46348559193224090) = Inr ''46348559193224090''" by code_simp
  from instrument_code_roundtrip [OF this] this show ?thesis by blast
qed

section \<open>One row per instrument\<close>

definition share_row :: "parse_env \<Rightarrow> json_row \<Rightarrow> bool" where
  "share_row env r \<longleftrightarrow> take 4 (text_or_empty env (json_get r ''insID'')) \<in> {''IRO1'', ''IRO3'', ''IRO5'', ''IRO7''}"

text \<open>Every field of a listed share is read from the one row.\<close>

definition listed_from :: "parse_env \<Rightarrow> json_row \<Rightarrow> listed_share \<Rightarrow> bool" where
  "listed_from env r s \<longleftrightarrow>
     ls_ins_id s = text_or_empty env (json_get r ''insID'') \<and> ins_id_ok (ls_ins_id s) \<and>
     exact_code (json_get r ''insCode'') = Inr (ls_code s) \<and>
     map_of SHARE_MARKETS (take 4 (ls_ins_id s)) = Some (ls_market s) \<and>
     ls_symbol s = pe_fold_symbol env (json_get r ''lva'') \<and> ls_symbol s \<noteq> [] \<and>
     ls_name s = pe_fold_name env (json_get r ''lvc'') \<and> ls_company s = take 8 (ls_ins_id s) \<and>
     ls_board s = dict_get ''other'' SHARE_BOARDS (drop 8 (ls_ins_id s)) \<and>
     (ls_sector s = text_or_empty env (json_get r ''csv'') \<and> sector_code_ok (ls_sector s) \<or>
      ls_sector s = [] \<and> \<not> sector_code_ok (text_or_empty env (json_get r ''csv'')))"

lemma share_row_market:
  "share_row env r \<longleftrightarrow> map_of SHARE_MARKETS (take 4 (text_or_empty env (json_get r ''insID''))) \<noteq> None"
  by (auto simp: share_row_def SHARE_MARKETS_def)

lemma share_of_listed:
  assumes "share_of env seen r (text_or_empty env (json_get r ''insID'')) market = Inr s"
    and "map_of SHARE_MARKETS (take 4 (text_or_empty env (json_get r ''insID''))) = Some market"
  shows "listed_from env r s" and "ls_code s \<notin> set seen"
  using assms by (auto simp: share_of_def listed_from_def bind_res_eq_Inr Let_def split: if_splits)

lemma watch_rows_listed:
  "watch_rows env vs shares = Inr out \<Longrightarrow> distinct (map ls_code shares) \<Longrightarrow>
    \<exists>objects added. vs = map JObj objects \<and> out = shares @ added \<and> distinct (map ls_code out) \<and>
      list_all2 (listed_from env) (filter (share_row env) objects) added"
proof (induction vs arbitrary: shares)
  case (Cons v vs)
  obtain r where v: "v = JObj r" using Cons.prems(1) by (auto simp: bind_res_eq_Inr as_object_Inr)
  let ?id = "text_or_empty env (json_get r ''insID'')"
  show ?case
  proof (cases "map_of SHARE_MARKETS (take 4 ?id)")
    case None
    then have "watch_rows env vs shares = Inr out" using Cons.prems(1) by (simp add: v as_object_def Let_def)
    from Cons.IH [OF this Cons.prems(2)] obtain objects added where "vs = map JObj objects" "out = shares @ added"
      "distinct (map ls_code out)" "list_all2 (listed_from env) (filter (share_row env) objects) added" by blast
    moreover have "\<not> share_row env r" using None by (simp add: share_row_market)
    ultimately show ?thesis using v by (intro exI [of _ "r # objects"] exI [of _ added]) simp
  next
    case (Some market)
    then obtain s where s: "share_of env (map ls_code shares) r ?id market = Inr s" "watch_rows env vs (shares @ [s]) = Inr out"
      using Cons.prems(1) by (auto simp: v as_object_def Let_def bind_res_eq_Inr)
    note f = share_of_listed [OF s(1) Some]
    have "distinct (map ls_code (shares @ [s]))" using f(2) Cons.prems(2) by simp
    from Cons.IH [OF s(2) this] obtain objects added where "vs = map JObj objects" "out = (shares @ [s]) @ added"
      "distinct (map ls_code out)" "list_all2 (listed_from env) (filter (share_row env) objects) added" by blast
    moreover have "share_row env r" using Some by (simp add: share_row_market)
    ultimately show ?thesis using v f(1) by (intro exI [of _ "r # objects"] exI [of _ "s # added"]) simp
  qed
qed simp

lemma day_rows_distinct:
  "day_rows vs out = Inr file \<Longrightarrow> distinct (map fst out) \<Longrightarrow> distinct (map fst file) \<and> length file = length out + length vs"
proof (induction vs arbitrary: out)
  case (Cons v vs)
  then obtain r c where c: "c \<notin> fst ` set out" "day_rows vs (dict_set c r out) = Inr file"
    by (auto simp: bind_res_eq_Inr split: if_splits)
  have d: "dict_set c r out = out @ [(c, r)]" using c(1) by (auto simp: dict_set_def)
  from Cons.IH [OF c(2)] show ?case using c(1) Cons.prems(2) by (simp add: d)
qed simp

text \<open>C31: A market watch that is accepted lists exactly the share rows of its payload, in their order and no
  instrument twice: a share row is one whose own \<^verbatim>\<open>insID\<close> begins with the prefix of one of the four
  markets, every field of a listed share is read from that one row, its id is well formed and its code exact;
  a row that is no share is left out but counted.\<close>

theorem watch_one_row_per_share:
  assumes "parse_market_watch env payload = Inr w"
  shows "\<exists>rows. list_field payload ''marketwatch'' = Inr (map JObj rows) \<and> mw_rows_total w = int (length rows) \<and>
    list_all2 (listed_from env) (filter (share_row env) rows) (mw_shares w) \<and>
    distinct (map ls_code (mw_shares w)) \<and> mw_shares w \<noteq> []"
proof -
  obtain rows shares where p: "list_field payload ''marketwatch'' = Inr rows" "watch_rows env rows [] = Inr shares" "shares \<noteq> []"
    "w = \<lparr>mw_shares = shares, mw_rows_total = int (length rows)\<rparr>"
    using assms by (auto simp: parse_market_watch_def bind_res_eq_Inr split: if_splits)
  from watch_rows_listed [OF p(2)] p show ?thesis by auto
qed

definition demo_watch :: "json_row list" where
  "demo_watch = [[(''insID'', JStr ''IRO1FOLD0001''), (''insCode'', JInt 7), (''csv'', JStr '' 27 '')],
     [(''insID'', JStr ''IRT1FOLD0001''), (''insCode'', JInt 9)]]"

text \<open>A share and a fund: the share is listed, the fund is not.\<close>

lemma watch_one_row_per_share_witness:
  "case parse_market_watch demo_parse (JObj [(''marketwatch'', JList (map JObj demo_watch))]) of
     Inl _ \<Rightarrow> False
   | Inr w \<Rightarrow> mw_rows_total w = 2 \<and> (\<exists>s. mw_shares w = [s] \<and> listed_from demo_parse (hd demo_watch) s)"
proof -
  let ?j = "JObj [(''marketwatch'', JList (map JObj demo_watch))]"
  have ok: "case parse_market_watch demo_parse ?j of Inl _ \<Rightarrow> False | Inr w \<Rightarrow> True" by code_simp
  then obtain w where w: "parse_market_watch demo_parse ?j = Inr w" by (auto split: sum.splits)
  have "list_field ?j ''marketwatch'' = Inr (map JObj demo_watch)"
    by (simp add: list_field_def json_get_def demo_watch_def)
  moreover have "filter (share_row demo_parse) demo_watch = [hd demo_watch]" by code_simp
  moreover have "length demo_watch = 2" by (simp add: demo_watch_def)
  moreover have "inj JObj" by (simp add: inj_def)
  ultimately show ?thesis using watch_one_row_per_share [OF w] w by (auto simp: list_all2_Cons1 inj_map_eq_map)
qed

end
