(* ===== verification/Tgju_Daily.thy ===== *)
theory Tgju_Daily
  imports Economic_Store Validation Registry
begin

text \<open>
  \<^verbatim>\<open>app/jobs/tgju_daily.py\<close>: the daily settled closes of the instruments nothing collects live, with the
  rules it takes from \<^verbatim>\<open>app/jobs/tgju_backfill.py\<close> (stamp, date window, truncation) and
  \<^verbatim>\<open>app/providers/tgju.py\<close> (the units of a slug). A day is its ordinal, an instant the microseconds of UTC. Outside,
  the record \<open>daily_env\<close>: what the source answers, the Tehran day of an instant, and printed forms. The register
  is the one this job writes; its days are ordinals instead of their ISO text, which orders alike. The column
  \<^verbatim>\<open>updated_at\<close>, logging and metrics are left out.
\<close>

section \<open>Tables of constants\<close>

definition SERIES_SLUGS :: "(string \<times> string) list" where
  "SERIES_SLUGS = [(''IR_SILVER_999'', ''silver_999''), (''IR_COIN_BAHAR'', ''sekeb''), (''IR_COIN_HALF'', ''nim''),
     (''IR_COIN_QUARTER'', ''rob''), (''IR_COIN_GERAMI'', ''gerami''), (''IR_GOLD_24K'', ''geram24''),
     (''IR_GOLD_MESGHAL'', ''mesghal'')]"

definition GAP_FILL_SLUGS :: "(string \<times> string) list" where
  "GAP_FILL_SLUGS = [(''IR_COIN_EMAMI'', ''sekee'')]"

definition GAP_FILL_FROM :: "(string \<times> int) list" where
  "GAP_FILL_FROM = [(''IR_COIN_EMAMI'', toordinal (Date 2026 4 27))]"

definition SLUG_MAP :: "(string \<times> string \<times> string \<times> string) list" where
  "SLUG_MAP = [(''geram18'', ''IR_GOLD_18K'', ''IRR/gram'', ''IRR''), (''sekee'', ''IR_COIN_EMAMI'', ''IRR/coin'', ''IRR''),
     (''price_dollar_rl'', ''USD_IRT'', ''IRR/usd'', ''IRR''), (''ons'', ''XAUUSD'', ''USD/ozt'', ''USD'')]"

definition HISTORY_SLUG_MAP :: "(string \<times> string \<times> string \<times> string) list" where
  "HISTORY_SLUG_MAP = [(''silver_999'', ''IR_SILVER_999'', ''IRR/gram'', ''IRR''), (''sekeb'', ''IR_COIN_BAHAR'', ''IRR/coin'', ''IRR''),
     (''nim'', ''IR_COIN_HALF'', ''IRR/coin'', ''IRR''), (''rob'', ''IR_COIN_QUARTER'', ''IRR/coin'', ''IRR''),
     (''gerami'', ''IR_COIN_GERAMI'', ''IRR/coin'', ''IRR''), (''geram24'', ''IR_GOLD_24K'', ''IRR/gram'', ''IRR''),
     (''mesghal'', ''IR_GOLD_MESGHAL'', ''IRR/mesghal'', ''IRR'')]"

definition slug_meta :: "string \<Rightarrow> (string \<times> string \<times> string) res" where
  "slug_meta slug = (case map_of SLUG_MAP slug of
     Some m \<Rightarrow> Inr m | None \<Rightarrow> (case map_of HISTORY_SLUG_MAP slug of Some m \<Rightarrow> Inr m | None \<Rightarrow> Inl KeyError))"

text \<open>Applied to the raw currency of the slug, which \<^verbatim>\<open>slug_meta\<close> has given before.\<close>

definition normalize_history_value :: "string \<Rightarrow> pyfloat \<Rightarrow> pyfloat" where
  "normalize_history_value currency raw = (if currency = ''IRR'' then rial_to_toman raw else raw)"

definition PROVIDER_CODE :: string where "PROVIDER_CODE = ''tgju''"
definition SOURCE :: string where "SOURCE = ''tgju_history''"
definition MAX_HISTORY_ROWS :: int where "MAX_HISTORY_ROWS = 20000"
definition MIN_BAR_DATE :: int where "MIN_BAR_DATE = toordinal (Date 1990 1 1)"
definition MAX_BAR_DATE_SLACK :: int where "MAX_BAR_DATE_SLACK = 1"
definition RECENT_ROWS :: int where "RECENT_ROWS = 40"
definition NEIGHBOURS_EACH_SIDE :: nat where "NEIGHBOURS_EACH_SIDE = 7"
definition SUSPECT_RATIO :: pyfloat where "SUSPECT_RATIO = lit (16 / 10)"
definition MIN_JUDGED_NEIGHBOURS :: nat where "MIN_JUDGED_NEIGHBOURS = 4"
definition RESTATEMENT_ABS_TOLERANCE :: pyfloat where "RESTATEMENT_ABS_TOLERANCE = lit (5 / 1000)"
definition MAX_REPORTED :: nat where "MAX_REPORTED = 10"
definition SPLICE_NOTE_MARKER :: string where "SPLICE_NOTE_MARKER = ''[series splice]''"
definition GAP_FILL_NOTE_MARKER :: string where "GAP_FILL_NOTE_MARKER = ''[tgju daily gap-fill]''"

section \<open>Bars and their verdict\<close>

record history_row =
  hr_day :: int
  hr_close :: pyfloat
  hr_text :: string
  hr_jalali :: string

record history_page =
  hp_rows :: "(int \<times> pyfloat) list"
  hp_returned :: int
  hp_total :: "int option"
  hp_bars :: "history_row list"

datatype bar_verdict = BarOk | BarSuspect | BarUnjudged

record judged =
  jd_bar :: history_row
  jd_verdict :: bar_verdict
  jd_median :: "pyfloat option"
  jd_neighbours :: nat

definition around :: "pyfloat list \<Rightarrow> nat \<Rightarrow> pyfloat list" where
  "around closes i = drop (i - NEIGHBOURS_EACH_SIDE) (take i closes) @ take NEIGHBOURS_EACH_SIDE (drop (Suc i) closes)"

definition off_ratio :: "pyfloat \<Rightarrow> pyfloat \<Rightarrow> pyfloat res" where
  "off_ratio close med = bind_res (fdiv close med) (\<lambda>up. map_res (fmax up) (fdiv med close))"

definition judge_bar :: "pyfloat list \<Rightarrow> nat \<Rightarrow> history_row \<Rightarrow> judged res" where
  "judge_bar closes i bar = (let near = around closes i;
       unjudged = \<lparr>jd_bar = bar, jd_verdict = BarUnjudged, jd_median = None, jd_neighbours = length near\<rparr> in
     if length near < MIN_JUDGED_NEIGHBOURS then Inr unjudged
     else bind_res (median near) (\<lambda>med.
       if fle med (Fin 0) then Inr unjudged
       else map_res (\<lambda>ratio. \<lparr>jd_bar = bar, jd_verdict = (if flt SUSPECT_RATIO ratio then BarSuspect else BarOk),
           jd_median = Some med, jd_neighbours = length near\<rparr>)
         (off_ratio (hr_close bar) med)))"

definition judge_bars :: "history_row list \<Rightarrow> judged list res" where
  "judge_bars bars = (let ordered = sort_key hr_day bars; closes = map hr_close ordered in
     mapM (\<lambda>(i, bar). judge_bar closes i bar) (enumerate 0 ordered))"

definition same_value :: "pyfloat \<Rightarrow> pyfloat \<Rightarrow> bool" where
  "same_value a b = isclose (lit (1 / 10 ^ 9)) RESTATEMENT_ABS_TOLERANCE a b"

section \<open>The days that are stored\<close>

definition close_stamp :: "int \<Rightarrow> int" where
  "close_stamp day = combine day (23 * hour_us)"

definition utc_day_end :: "int \<Rightarrow> int" where
  "utc_day_end day = combine day 0 + day_us"

definition bar_date_window :: "int \<Rightarrow> int \<times> int" where
  "bar_date_window now = (MIN_BAR_DATE, wall_ordinal now + MAX_BAR_DATE_SLACK)"

definition bar_date_error :: "(int \<times> pyfloat) list \<Rightarrow> int \<times> int \<Rightarrow> int list" where
  "bar_date_error pairs = (\<lambda>(low, high). filter (\<lambda>d. d < low \<or> high < d) (map fst pairs))"

definition truncation_error :: "history_page \<Rightarrow> int \<Rightarrow> bool" where
  "truncation_error page requested = (case hp_total page of
     Some n \<Rightarrow> hp_returned page < n | None \<Rightarrow> requested \<le> hp_returned page)"

definition has_history_rows :: "price_row list \<Rightarrow> string \<Rightarrow> bool" where
  "has_history_rows table sy \<longleftrightarrow> (\<exists>r \<in> set table. p_symbol r = sy \<and> p_source r = SOURCE)"

text \<open>Per day, per source, the last value of the day.\<close>

type_synonym day_values = "(int \<times> (string \<times> pyfloat) list) list"

definition add_existing :: "day_values \<Rightarrow> price_row \<Rightarrow> day_values" where
  "add_existing out r = (let d = wall_ordinal (p_observed_at r) in
     dict_set d (dict_set (p_source r) (p_value r) (dict_get [] out d)) out)"

definition existing_by_day :: "price_row list \<Rightarrow> string \<Rightarrow> int \<Rightarrow> int \<Rightarrow> day_values" where
  "existing_by_day table sy first_day last_day = foldl add_existing []
     (sort_key p_observed_at (filter (\<lambda>r. p_symbol r = sy \<and> combine first_day 0 \<le> p_observed_at r \<and>
        p_observed_at r < utc_day_end last_day) table))"

section \<open>The register and the note\<close>

record gap_stats =
  gs_days :: int
  gs_first :: int
  gs_last :: int

record register_entry =
  re_slug :: string
  re_gap_role :: bool
  re_last_pass :: int
  re_full_mode :: bool
  re_newest :: int
  re_full_pass :: "int option"
  re_total :: "int option"
  re_gap :: "gap_stats option"

text \<open>\<^verbatim>\<open>s.partition(sep)\<close>: what is before and after the first occurrence.\<close>

fun cut :: "string \<Rightarrow> string \<Rightarrow> (string \<times> string) option" where
  "cut sep [] = (if sep = [] then Some ([], []) else None)"
| "cut sep (c # cs) = (if take (length sep) (c # cs) = sep then Some ([], drop (length sep) (c # cs))
     else map_option (\<lambda>(h, t). (c # h, t)) (cut sep cs))"

definition note_with_gap_fill :: "string \<Rightarrow> string \<Rightarrow> string" where
  "note_with_gap_fill note sentence =
     (let (head, splice) = (case cut SPLICE_NOTE_MARKER note of None \<Rightarrow> (note, None) | Some (h, t) \<Rightarrow> (h, Some t));
        kept = py_strip (case cut GAP_FILL_NOTE_MARKER head of None \<Rightarrow> head | Some (h, _) \<Rightarrow> h);
        head = (if kept = [] then sentence else py_strip (kept @ '' '' @ sentence)) in
      case splice of None \<Rightarrow> head | Some t \<Rightarrow> head @ '' '' @ SPLICE_NOTE_MARKER @ t)"

record daily_env =
  de_fetch :: "string \<Rightarrow> bool \<Rightarrow> string + history_page"
  de_tehran_day :: "int \<Rightarrow> int"
  de_iso_day :: "int \<Rightarrow> string"
  de_iso :: "int \<Rightarrow> string"
  de_g10 :: "pyfloat \<Rightarrow> string"
  de_reason :: "pyfloat \<Rightarrow> nat \<Rightarrow> string"

definition gap_fill_note :: "daily_env \<Rightarrow> string \<Rightarrow> gap_stats \<Rightarrow> string" where
  "gap_fill_note env slug st = GAP_FILL_NOTE_MARKER @ '' On '' @ int_str (gs_days st) @
     '' UTC day(s) that held no observation from any source ('' @ de_iso_day env (gs_first st) @ '' to '' @ de_iso_day env (gs_last st) @
     ''), the value is TGJU's published '' @ slug @ '' daily close (source '' @ [CHR 39] @ SOURCE @ [CHR 39] @
     '', stamped 23:00 UTC), not a live quote. Days that already held an observation were left as they were.''"

section \<open>The fate of a bar\<close>

datatype bar_fate =
    NotSettled
  | SameAsStored
  | BeforeWindow
  | HeldSuspect pyfloat pyfloat
  | HeldUnjudged
  | Restated pyfloat pyfloat
  | OtherSource
  | Stored pyfloat

definition bar_fate_of :: "daily_env \<Rightarrow> string \<Rightarrow> bool \<Rightarrow> string \<Rightarrow> int \<Rightarrow> day_values \<Rightarrow> judged \<Rightarrow> bar_fate" where
  "bar_fate_of env sy gap_fill raw_currency now existing item =
     (let bar = jd_bar item; stamp = close_stamp (hr_day bar) in
      if de_tehran_day env now \<le> hr_day bar \<or> now < stamp then NotSettled
      else if gap_fill \<and> now < utc_day_end (hr_day bar) then NotSettled
      else let v = normalize_history_value raw_currency (hr_close bar); on_day = dict_get [] existing (hr_day bar) in
        case map_of on_day SOURCE of
          Some stored \<Rightarrow>
            if same_value stored v then SameAsStored
            else (case jd_verdict item of
                BarSuspect \<Rightarrow> HeldSuspect v (the (jd_median item))
              | BarUnjudged \<Rightarrow> HeldUnjudged
              | BarOk \<Rightarrow> Restated stored v)
        | None \<Rightarrow>
            if gap_fill \<and> on_day = [] \<and> hr_day bar < the (map_of GAP_FILL_FROM sy) then BeforeWindow
            else (case jd_verdict item of
                BarSuspect \<Rightarrow> HeldSuspect v (the (jd_median item))
              | BarUnjudged \<Rightarrow> HeldUnjudged
              | BarOk \<Rightarrow> if on_day \<noteq> [] then OtherSource else Stored v))"

definition base_payload :: "daily_env \<Rightarrow> string \<Rightarrow> string \<Rightarrow> history_row \<Rightarrow> pyfloat \<Rightarrow> (string \<times> json) list" where
  "base_payload env slug currency bar v =
     [(''slug'', JStr slug), (''kind'', JStr ''daily_close''), (''bar_date'', JStr (de_iso_day env (hr_day bar))),
      (''jalali_date'', JStr (hr_jalali bar)), (''close_text'', JStr (hr_text bar)),
      (''availability_utc'', JStr (de_iso env (close_stamp (hr_day bar)))), (''normalization'', JStr ''rial_to_toman''),
      (''normalized_value'', JFloat v), (''normalized_currency'', JStr currency)]"

definition daily_raw_row :: "string \<Rightarrow> history_row \<Rightarrow> string \<Rightarrow> string \<Rightarrow> int \<Rightarrow> string \<Rightarrow> json \<Rightarrow> string \<Rightarrow> raw_row" where
  "daily_raw_row sy bar raw_unit raw_currency now quality payload dedupe =
     \<lparr>r_provider = PROVIDER_CODE, r_symbol = sy, r_value = hr_close bar, r_unit = raw_unit, r_currency = raw_currency,
      r_payload = payload, r_observed_at = close_stamp (hr_day bar), r_collected_at = now, r_quality = quality, r_dedupe = dedupe\<rparr>"

definition history_key :: "daily_env \<Rightarrow> string \<Rightarrow> int \<Rightarrow> string" where
  "history_key env sy d = PROVIDER_CODE @ ''|'' @ sy @ ''|history|'' @ de_iso_day env d"

definition raw_of_fate :: "daily_env \<Rightarrow> string \<Rightarrow> string \<Rightarrow> string \<Rightarrow> string \<Rightarrow> string \<Rightarrow> int \<Rightarrow> judged \<times> bar_fate \<Rightarrow> raw_row option" where
  "raw_of_fate env sy slug currency raw_unit raw_currency now = (\<lambda>(item, fate). let bar = jd_bar item in
     case fate of
       HeldSuspect v med \<Rightarrow>
         let ratio = fmax (fquot (hr_close bar) med) (fquot med (hr_close bar)) in
         Some (daily_raw_row sy bar raw_unit raw_currency now ''suspect''
           (JObj (base_payload env slug currency bar v @ [(''suspect_reason'', JStr (de_reason env ratio (jd_neighbours item))),
              (''neighbour_median_rial'', JFloat med)]))
           (history_key env sy (hr_day bar) @ ''|suspect|'' @ de_g10 env (hr_close bar)))
     | Stored v \<Rightarrow> Some (daily_raw_row sy bar raw_unit raw_currency now ''ok'' (JObj (base_payload env slug currency bar v))
         (history_key env sy (hr_day bar)))
     | _ \<Rightarrow> None)"

definition price_of_fate :: "string \<Rightarrow> string \<Rightarrow> string \<Rightarrow> int \<Rightarrow> judged \<times> bar_fate \<Rightarrow> price_row option" where
  "price_of_fate sy currency unit now = (\<lambda>(item, fate). case fate of
     Stored v \<Rightarrow> Some \<lparr>p_symbol = sy, p_value = v, p_currency = currency, p_unit = unit, p_source = SOURCE,
       p_observed_at = close_stamp (hr_day (jd_bar item)), p_collected_at = now, p_quality = ''ok''\<rparr>
   | _ \<Rightarrow> None)"

section \<open>One symbol\<close>

record daily_db =
  td_prices :: "price_row list"
  td_raw :: "raw_row list"
  td_register :: "(string \<times> register_entry) list"
  td_notes :: "(string \<times> string option) list"
  td_providers :: "provider_row list"

datatype refusal_reason = UnitMismatch | TruncatedHistory | NoBars | BadBarDates "int list"

datatype full_reason = NoRowYet | NoFullPassYet | UnreadBetween int int

datatype daily_status = DailyOk | DailyDryRun | DailyRefused refusal_reason | DailyError string | DailySkipped

record daily_report =
  dr_symbol :: string
  dr_status :: daily_status
  dr_full :: "full_reason option"
  dr_fetched :: int
  dr_total :: "int option"
  dr_inserted :: int
  dr_raw_inserted :: int
  dr_would_insert :: int
  dr_unchanged :: int
  dr_restated :: int
  dr_restatements :: "(int \<times> pyfloat \<times> pyfloat) list"
  dr_suspect :: int
  dr_suspects :: "(int \<times> pyfloat \<times> pyfloat \<times> nat) list"
  dr_unjudged :: int
  dr_not_settled :: int
  dr_other_source :: int
  dr_before_window :: int
  dr_first_written :: "int option"
  dr_last_written :: "int option"
  dr_note_updated :: "bool option"

definition empty_report :: "string \<Rightarrow> daily_status \<Rightarrow> daily_report" where
  "empty_report sy st = \<lparr>dr_symbol = sy, dr_status = st, dr_full = None, dr_fetched = 0, dr_total = None, dr_inserted = 0,
     dr_raw_inserted = 0, dr_would_insert = 0, dr_unchanged = 0, dr_restated = 0, dr_restatements = [], dr_suspect = 0,
     dr_suspects = [], dr_unjudged = 0, dr_not_settled = 0, dr_other_source = 0, dr_before_window = 0,
     dr_first_written = None, dr_last_written = None, dr_note_updated = None\<rparr>"

definition fates_with :: "(bar_fate \<Rightarrow> bool) \<Rightarrow> (judged \<times> bar_fate) list \<Rightarrow> int" where
  "fates_with P fates = int (length (filter (P \<circ> snd) fates))"

fun is_suspect :: "bar_fate \<Rightarrow> bool" where "is_suspect (HeldSuspect _ _) = True" | "is_suspect _ = False"
fun is_restated :: "bar_fate \<Rightarrow> bool" where "is_restated (Restated _ _) = True" | "is_restated _ = False"
fun is_stored :: "bar_fate \<Rightarrow> bool" where "is_stored (Stored _) = True" | "is_stored _ = False"

definition day_of :: "judged \<times> bar_fate \<Rightarrow> int" where
  "day_of x = hr_day (jd_bar (fst x))"

definition restatement_of :: "judged \<times> bar_fate \<Rightarrow> (int \<times> pyfloat \<times> pyfloat) option" where
  "restatement_of x = (case snd x of Restated stored v \<Rightarrow> Some (day_of x, stored, v) | _ \<Rightarrow> None)"

definition suspect_of :: "judged \<times> bar_fate \<Rightarrow> (int \<times> pyfloat \<times> pyfloat \<times> nat) option" where
  "suspect_of x = (case snd x of HeldSuspect _ med \<Rightarrow> Some (day_of x, hr_close (jd_bar (fst x)), med, jd_neighbours (fst x)) | _ \<Rightarrow> None)"

definition tally_fates :: "(judged \<times> bar_fate) list \<Rightarrow> daily_report \<Rightarrow> daily_report" where
  "tally_fates fates r = (let written = map day_of (filter (is_stored \<circ> snd) fates) in r\<lparr>
     dr_would_insert := int (length written), dr_unchanged := fates_with (\<lambda>f. f = SameAsStored) fates,
     dr_restated := fates_with is_restated fates, dr_restatements := take MAX_REPORTED (List.map_filter restatement_of fates),
     dr_suspect := fates_with is_suspect fates, dr_suspects := take MAX_REPORTED (List.map_filter suspect_of fates),
     dr_unjudged := fates_with (\<lambda>f. f = HeldUnjudged) fates, dr_not_settled := fates_with (\<lambda>f. f = NotSettled) fates,
     dr_other_source := fates_with (\<lambda>f. f = OtherSource) fates, dr_before_window := fates_with (\<lambda>f. f = BeforeWindow) fates,
     dr_first_written := (if written = [] then None else Some (hd written)),
     dr_last_written := (if written = [] then None else Some (last written))\<rparr>)"

text \<open>Why the whole table is read, before the fetch and after a first look at the newest rows.\<close>

definition full_before :: "daily_db \<Rightarrow> string \<Rightarrow> full_reason option" where
  "full_before db sy =
     (if \<not> has_history_rows (td_prices db) sy then Some NoRowYet
      else case map_of (td_register db) sy of
        None \<Rightarrow> Some NoFullPassYet
      | Some e \<Rightarrow> if re_full_pass e = None then Some NoFullPassYet else None)"

definition unread_between :: "daily_db \<Rightarrow> string \<Rightarrow> history_page \<Rightarrow> full_reason option" where
  "unread_between db sy page =
     (case map_of (td_register db) sy of
        None \<Rightarrow> None
      | Some e \<Rightarrow> if hp_bars page = [] then None
          else let oldest = Min (hr_day ` set (hp_bars page)) in
            if re_newest e < oldest then Some (UnreadBetween oldest (re_newest e)) else None)"

definition fetch_bars :: "daily_env \<Rightarrow> daily_db \<Rightarrow> string \<Rightarrow> string \<Rightarrow> string + (history_page \<times> full_reason option)" where
  "fetch_bars env db sy slug =
     (case full_before db sy of
        Some why \<Rightarrow> (case de_fetch env slug True of Inl e \<Rightarrow> Inl e | Inr page \<Rightarrow> Inr (page, Some why))
      | None \<Rightarrow>
          (case de_fetch env slug False of
             Inl e \<Rightarrow> Inl e
           | Inr page \<Rightarrow>
               (case unread_between db sy page of
                  None \<Rightarrow> Inr (page, None)
                | Some why \<Rightarrow> (case de_fetch env slug True of Inl e \<Rightarrow> Inl e | Inr page \<Rightarrow> Inr (page, Some why)))))"

definition page_refused :: "history_page \<Rightarrow> full_reason option \<Rightarrow> int \<Rightarrow> refusal_reason option" where
  "page_refused page full now = (let bad = bar_date_error (hp_rows page) (bar_date_window now) in
     if full \<noteq> None \<and> truncation_error page MAX_HISTORY_ROWS then Some TruncatedHistory
     else if hp_bars page = [] then Some NoBars
     else if bad \<noteq> [] then Some (BadBarDates bad) else None)"

fun insert_prices :: "price_row list \<Rightarrow> price_row list \<Rightarrow> (price_row list \<times> int) res" where
  "insert_prices [] table = Inr (table, 0)"
| "insert_prices (r # rs) table = bind_res (insert_price r table) (\<lambda>(table, new).
     map_res (\<lambda>(t, n). (t, n + (if new then 1 else 0))) (insert_prices rs table))"

fun insert_raws :: "raw_row list \<Rightarrow> raw_row list \<Rightarrow> raw_row list \<times> int" where
  "insert_raws [] table = (table, 0)"
| "insert_raws (r # rs) table = (let (table, new) = insert_raw r table; (t, n) = insert_raws rs table in
     (t, n + (if new then 1 else 0)))"

definition next_entry :: "string \<Rightarrow> bool \<Rightarrow> int \<Rightarrow> full_reason option \<Rightarrow> history_page \<Rightarrow> int \<Rightarrow> register_entry option \<Rightarrow> register_entry" where
  "next_entry slug gap_fill now full page last_day old =
     \<lparr>re_slug = slug, re_gap_role = gap_fill, re_last_pass = now, re_full_mode = (full \<noteq> None),
      re_newest = (case old of None \<Rightarrow> last_day | Some e \<Rightarrow> max last_day (re_newest e)),
      re_full_pass = (if full \<noteq> None then Some now else case old of None \<Rightarrow> None | Some e \<Rightarrow> re_full_pass e),
      re_total = (if full \<noteq> None then hp_total page else case old of None \<Rightarrow> None | Some e \<Rightarrow> re_total e),
      re_gap = (case old of None \<Rightarrow> None | Some e \<Rightarrow> re_gap e)\<rparr>"

definition next_gap :: "int \<Rightarrow> int \<Rightarrow> int \<Rightarrow> gap_stats option \<Rightarrow> gap_stats" where
  "next_gap inserted first_day last_day old = (case old of
     None \<Rightarrow> \<lparr>gs_days = inserted, gs_first = first_day, gs_last = last_day\<rparr>
   | Some g \<Rightarrow> \<lparr>gs_days = gs_days g + inserted, gs_first = min (gs_first g) first_day, gs_last = max (gs_last g) last_day\<rparr>)"

definition write_note :: "string \<Rightarrow> string \<Rightarrow> (string \<times> string option) list \<Rightarrow> (string \<times> string option) list \<times> bool" where
  "write_note sy sentence notes = (case map_of notes sy of
     None \<Rightarrow> (notes, False)
   | Some note \<Rightarrow> (dict_set sy (Some (note_with_gap_fill (case note of None \<Rightarrow> [] | Some t \<Rightarrow> t) sentence)) notes, True))"

text \<open>The transaction: rows, register and note together, or nothing.\<close>

definition commit_symbol ::
  "daily_env \<Rightarrow> string \<Rightarrow> string \<Rightarrow> bool \<Rightarrow> int \<Rightarrow> full_reason option \<Rightarrow> history_page \<Rightarrow> int \<Rightarrow> price_row list \<Rightarrow> raw_row list \<Rightarrow>
    daily_report \<Rightarrow> daily_db \<Rightarrow> (daily_report \<times> daily_db) res" where
  "commit_symbol env sy slug gap_fill now full page last_day price_rows raw_rows report db =
     bind_res (insert_prices price_rows (td_prices db)) (\<lambda>(prices, inserted).
     let (raws, raw_inserted) = insert_raws raw_rows (td_raw db);
       entry = next_entry slug gap_fill now full page last_day (map_of (td_register db) sy);
       report = report\<lparr>dr_inserted := inserted, dr_raw_inserted := raw_inserted, dr_status := DailyOk\<rparr>;
       db = db\<lparr>td_prices := prices, td_raw := raws\<rparr> in
     case (gap_fill \<and> 0 < inserted, dr_first_written report, dr_last_written report) of
       (True, Some a, Some b) \<Rightarrow>
         let g = next_gap inserted a b (re_gap entry);
           (notes, updated) = write_note sy (gap_fill_note env slug g) (td_notes db) in
         Inr (report\<lparr>dr_note_updated := Some updated\<rparr>,
              db\<lparr>td_notes := notes, td_register := dict_set sy (entry\<lparr>re_gap := Some g\<rparr>) (td_register db)\<rparr>)
     | _ \<Rightarrow> Inr (report, db\<lparr>td_register := dict_set sy entry (td_register db)\<rparr>))"

definition slug_of :: "string \<Rightarrow> (string \<times> bool) res" where
  "slug_of sy = (case map_of GAP_FILL_SLUGS sy of
     Some s \<Rightarrow> Inr (s, True) | None \<Rightarrow> (case map_of SERIES_SLUGS sy of Some s \<Rightarrow> Inr (s, False) | None \<Rightarrow> Inl KeyError))"

text \<open>\<^verbatim>\<open>raw_unit.split("/", 1)[1]\<close>.\<close>

definition unit_part :: "string \<Rightarrow> string res" where
  "unit_part u = (case cut ''/'' u of None \<Rightarrow> Inl IndexError | Some (_, t) \<Rightarrow> Inr t)"

definition ingest_page ::
  "daily_env \<Rightarrow> bool \<Rightarrow> int \<Rightarrow> string \<Rightarrow> string \<Rightarrow> bool \<Rightarrow> string \<times> string \<Rightarrow> string \<times> string \<Rightarrow> history_page \<Rightarrow> full_reason option \<Rightarrow> daily_db \<Rightarrow>
    (daily_report \<times> daily_db) res" where
  "ingest_page env dry_run now sy slug gap_fill meta raw_meta page full db =
     (let report = (empty_report sy DailyOk)\<lparr>dr_full := full, dr_fetched := int (length (hp_bars page)), dr_total := hp_total page\<rparr> in
      case page_refused page full now of
        Some why \<Rightarrow> Inr (report\<lparr>dr_status := DailyRefused why\<rparr>, db)
      | None \<Rightarrow> bind_res (judge_bars (hp_bars page)) (\<lambda>items.
          let first_day = hr_day (jd_bar (hd items)); last_day = hr_day (jd_bar (last items));
            existing = existing_by_day (td_prices db) sy first_day last_day;
            fates = map (\<lambda>item. (item, bar_fate_of env sy gap_fill (snd raw_meta) now existing item)) items;
            price_rows = List.map_filter (price_of_fate sy (fst meta) (snd meta) now) fates;
            raw_rows = List.map_filter (raw_of_fate env sy slug (fst meta) (fst raw_meta) (snd raw_meta) now) fates;
            report = tally_fates fates report in
          if dry_run then Inr (report\<lparr>dr_status := DailyDryRun\<rparr>, db)
          else commit_symbol env sy slug gap_fill now full page last_day price_rows raw_rows report db))"

definition ingest_symbol :: "daily_env \<Rightarrow> bool \<Rightarrow> int \<Rightarrow> string \<Rightarrow> daily_db \<Rightarrow> (daily_report \<times> daily_db) res" where
  "ingest_symbol env dry_run now sy db =
     bind_res (slug_of sy) (\<lambda>(slug, gap_fill).
     bind_res (case map_of SYMBOL_META sy of None \<Rightarrow> Inl KeyError | Some m \<Rightarrow> Inr m) (\<lambda>meta.
     bind_res (slug_meta slug) (\<lambda>(_, raw_unit, raw_currency).
     bind_res (unit_part raw_unit) (\<lambda>u.
     if u \<noteq> snd meta then Inr (empty_report sy (DailyRefused UnitMismatch), db)
     else case fetch_bars env db sy slug of
         Inl e \<Rightarrow> Inr (empty_report sy (DailyError e), db)
       | Inr (page, full) \<Rightarrow> ingest_page env dry_run now sy slug gap_fill meta (raw_unit, raw_currency) page full db))))"

section \<open>The pass\<close>

definition supported_symbols :: "string list" where
  "supported_symbols = map fst SERIES_SLUGS @ map fst GAP_FILL_SLUGS"

definition provider_disabled :: "provider_row list \<Rightarrow> bool" where
  "provider_disabled table = (case find (\<lambda>r. code r = PROVIDER_CODE) table of None \<Rightarrow> False | Some r \<Rightarrow> \<not> enabled r)"

record daily_result =
  dl_symbols :: "daily_report list"
  dl_skipped :: bool
  dl_inserted :: int
  dl_would_insert :: int
  dl_suspect :: int
  dl_restated :: int
  dl_failed :: "string list"

datatype daily_failure = Unsupported "string list" | AllFailed daily_result | DailyRaised py_error

fun ingest_symbols :: "daily_env \<Rightarrow> bool \<Rightarrow> int \<Rightarrow> string list \<Rightarrow> daily_db \<Rightarrow> (py_error option \<times> daily_report list) \<times> daily_db" where
  "ingest_symbols env dry_run now [] db = ((None, []), db)"
| "ingest_symbols env dry_run now (sy # rest) db =
     (case ingest_symbol env dry_run now sy db of
        Inl e \<Rightarrow> ((Some e, []), db)
      | Inr (r, db) \<Rightarrow> (case ingest_symbols env dry_run now rest db of ((e, rs), db) \<Rightarrow> ((e, r # rs), db)))"

definition failed_report :: "daily_report \<Rightarrow> bool" where
  "failed_report r = (case dr_status r of DailyRefused _ \<Rightarrow> True | DailyError _ \<Rightarrow> True | _ \<Rightarrow> False)"

definition daily_result_of :: "bool \<Rightarrow> daily_report list \<Rightarrow> daily_result" where
  "daily_result_of skipped rs = \<lparr>dl_symbols = rs, dl_skipped = skipped, dl_inserted = sum_list (map dr_inserted rs),
     dl_would_insert = sum_list (map dr_would_insert rs), dl_suspect = sum_list (map dr_suspect rs),
     dl_restated = sum_list (map dr_restated rs), dl_failed = map dr_symbol (filter failed_report rs)\<rparr>"

text \<open>The first mentions, as \<^verbatim>\<open>dict.fromkeys\<close> keeps them.\<close>

definition first_mentions :: "string list \<Rightarrow> string list" where
  "first_mentions xs = rev (remdups (rev xs))"

definition run_tgju_daily :: "daily_env \<Rightarrow> bool \<Rightarrow> int \<Rightarrow> string list \<Rightarrow> daily_db \<Rightarrow> (daily_failure + daily_result) \<times> daily_db" where
  "run_tgju_daily env dry_run now symbols db =
     (let requested = (if symbols = [] then supported_symbols else symbols);
        unknown = filter (\<lambda>s. s \<notin> set supported_symbols) requested in
      if unknown \<noteq> [] then (Inl (Unsupported unknown), db)
      else let ordered = first_mentions requested; off = provider_disabled (td_providers db);
          ((e, rs), db) = (if off then ((None, map (\<lambda>s. empty_report s DailySkipped) ordered), db)
            else ingest_symbols env dry_run now ordered db) in
        case e of
          Some err \<Rightarrow> (Inl (DailyRaised err), db)
        | None \<Rightarrow> let result = daily_result_of off rs in
            if rs \<noteq> [] \<and> length (dl_failed result) = length rs then (Inl (AllFailed result), db) else (Inr result, db))"

end
