(* ===== verification/Tgju_Backfill.thy ===== *)
theory Tgju_Backfill
  imports Tgju_Daily
begin

text \<open>
  \<^verbatim>\<open>app/jobs/tgju_backfill.py\<close>: the deep history of a symbol that is collected live, put in front of the
  stored series after three checks: the payload is whole and its dates are plausible, no two
  neighbouring bars differ by more than a session and the drift of the days between them, and the last bar
  joins the first trusted live value. Constants and helpers shared with the daily job are in
  Tgju_Daily. Outside, the record \<open>backfill_env\<close>: what the source answers, \<^verbatim>\<open>math.log\<close> and the float
  power, printed forms. The clock stands still during one symbol. Logging and metrics are left out.
\<close>

section \<open>Constants\<close>

definition BACKFILL_SLUGS :: "(string \<times> string) list" where
  "BACKFILL_SLUGS = [(''IR_GOLD_18K'', ''geram18''), (''USD_IRT'', ''price_dollar_rl''), (''IR_COIN_EMAMI'', ''sekee'')]"

definition JOIN_BASE_TOLERANCE_PCT :: pyfloat where "JOIN_BASE_TOLERANCE_PCT = Fin 15"
definition JOIN_PER_DAY_TOLERANCE_PCT :: pyfloat where "JOIN_PER_DAY_TOLERANCE_PCT = Fin 5"
definition JOIN_MAX_TOLERANCE_PCT :: pyfloat where "JOIN_MAX_TOLERANCE_PCT = Fin 50"
definition SPAN_SESSION_RATIO :: pyfloat where "SPAN_SESSION_RATIO = lit (15 / 10)"
definition SPAN_DAILY_DRIFT :: pyfloat where "SPAN_DAILY_DRIFT = lit (1006 / 1000)"
definition MIN_CONVENTION_FACTOR :: pyfloat where "MIN_CONVENTION_FACTOR = lit (46083 / 10000)"
definition MAX_REPORTED_BREAKS :: nat where "MAX_REPORTED_BREAKS = 5"

definition UNTRUSTED_ANCHOR_SOURCES :: "string list" where
  "UNTRUSTED_ANCHOR_SOURCES = [''seed_sample'', ''csv_import'', SOURCE]"

record mathlib =
  ml_log :: "pyfloat \<Rightarrow> pyfloat res"
  ml_pow :: "pyfloat \<Rightarrow> int \<Rightarrow> pyfloat res"

definition SPAN_GUARANTEE_DAYS :: "mathlib \<Rightarrow> int res" where
  "SPAN_GUARANTEE_DAYS ml =
     bind_res (fdiv MIN_CONVENTION_FACTOR SPAN_SESSION_RATIO) (\<lambda>f.
     bind_res (ml_log ml f) (\<lambda>a.
     bind_res (ml_log ml SPAN_DAILY_DRIFT) (\<lambda>b.
     bind_res (fdiv a b) ftrunc_int)))"

section \<open>The live anchor\<close>

record live_anchor =
  an_cutoff :: int
  an_source :: string
  an_quality :: string
  an_rows :: int
  an_reference :: "(int \<times> pyfloat \<times> string) option"

definition excluded_sources :: "string list \<Rightarrow> string list" where
  "excluded_sources ignored = UNTRUSTED_ANCHOR_SOURCES @ map py_strip (filter (\<lambda>s. s \<noteq> [] \<and> py_strip s \<noteq> []) ignored)"

definition trusted_row :: "string list \<Rightarrow> string \<Rightarrow> price_row \<Rightarrow> bool" where
  "trusted_row ignored sy r \<longleftrightarrow> p_symbol r = sy \<and> p_quality r = ''ok'' \<and> flt (Fin 0) (p_value r) \<and>
     p_source r \<notin> set (excluded_sources ignored)"

definition live_anchor :: "price_row list \<Rightarrow> string \<Rightarrow> string list \<Rightarrow> live_anchor option" where
  "live_anchor table sy ignored = (let rows = filter (\<lambda>r. p_symbol r = sy) table in
     case sort_key p_observed_at rows of
       [] \<Rightarrow> None
     | oldest # _ \<Rightarrow> Some \<lparr>an_cutoff = p_observed_at oldest, an_source = p_source oldest, an_quality = p_quality oldest,
         an_rows = int (length rows),
         an_reference = (case sort_key p_observed_at (filter (trusted_row ignored sy) table) of
            [] \<Rightarrow> None | r # _ \<Rightarrow> Some (p_observed_at r, p_value r, p_source r))\<rparr>)"

section \<open>The checks\<close>

definition join_threshold_pct :: "int \<Rightarrow> pyfloat res" where
  "join_threshold_pct gap_days = map_res (\<lambda>gap.
     fmin (fadd JOIN_BASE_TOLERANCE_PCT (fmul JOIN_PER_DAY_TOLERANCE_PCT gap)) JOIN_MAX_TOLERANCE_PCT) (float_of_int (max gap_days 0))"

definition span_tolerance_ratio :: "mathlib \<Rightarrow> int \<Rightarrow> pyfloat res" where
  "span_tolerance_ratio ml gap_days = map_res (fmul SPAN_SESSION_RATIO) (ml_pow ml SPAN_DAILY_DRIFT (max gap_days 1))"

type_synonym kept_bar = "int \<times> pyfloat \<times> pyfloat"

record span_entry =
  se_from :: int
  se_to :: int
  se_gap :: int
  se_from_value :: pyfloat
  se_to_value :: pyfloat
  se_ratio :: pyfloat
  se_tolerance :: pyfloat

record span_state =
  ss_breaks :: "span_entry list"
  ss_unverifiable :: "span_entry list"
  ss_max_ratio :: pyfloat
  ss_max_ratio_at :: "int option"
  ss_max_gap :: int

definition span_step :: "mathlib \<Rightarrow> int \<Rightarrow> span_state \<Rightarrow> kept_bar \<times> kept_bar \<Rightarrow> span_state res" where
  "span_step ml guarantee s = (\<lambda>((prev_day, _, prev_value), (day, _, v)).
     if fle prev_value (Fin 0) \<or> fle v (Fin 0) then Inr s
     else let gap = day - prev_day in
       bind_res (off_ratio v prev_value) (\<lambda>ratio.
       map_res (\<lambda>tolerance.
         let entry = \<lparr>se_from = prev_day, se_to = day, se_gap = gap, se_from_value = fround prev_value 4, se_to_value = fround v 4,
               se_ratio = fround ratio 4, se_tolerance = fround tolerance 4\<rparr>;
             s = s\<lparr>ss_max_gap := max (ss_max_gap s) gap\<rparr>;
             s = (if flt (ss_max_ratio s) ratio then s\<lparr>ss_max_ratio := ratio, ss_max_ratio_at := Some day\<rparr> else s) in
         if flt tolerance ratio then s\<lparr>ss_breaks := ss_breaks s @ [entry]\<rparr>
         else if guarantee < gap then s\<lparr>ss_unverifiable := ss_unverifiable s @ [entry]\<rparr>
         else s) (span_tolerance_ratio ml gap)))"

fun span_loop :: "mathlib \<Rightarrow> int \<Rightarrow> span_state \<Rightarrow> (kept_bar \<times> kept_bar) list \<Rightarrow> span_state res" where
  "span_loop ml guarantee s [] = Inr s"
| "span_loop ml guarantee s (x # xs) = bind_res (span_step ml guarantee s x) (\<lambda>s. span_loop ml guarantee s xs)"

record coherence =
  co_bars :: int
  co_pairs :: int
  co_max_ratio :: pyfloat
  co_max_ratio_at :: "int option"
  co_max_gap :: int
  co_guarantee :: int
  co_break_count :: int
  co_breaks :: "span_entry list"
  co_unverifiable_count :: int
  co_unverifiable :: "span_entry list"
  co_ok :: bool

definition start_span :: span_state where
  "start_span = \<lparr>ss_breaks = [], ss_unverifiable = [], ss_max_ratio = Fin 1, ss_max_ratio_at = None, ss_max_gap = 0\<rparr>"

definition span_breaks :: "mathlib \<Rightarrow> kept_bar list \<Rightarrow> coherence res" where
  "span_breaks ml kept = bind_res (SPAN_GUARANTEE_DAYS ml) (\<lambda>guarantee.
     map_res (\<lambda>s. \<lparr>co_bars = int (length kept), co_pairs = max (int (length kept) - 1) 0, co_max_ratio = fround (ss_max_ratio s) 4,
         co_max_ratio_at = ss_max_ratio_at s, co_max_gap = ss_max_gap s, co_guarantee = guarantee,
         co_break_count = int (length (ss_breaks s)), co_breaks = take MAX_REPORTED_BREAKS (ss_breaks s),
         co_unverifiable_count = int (length (ss_unverifiable s)),
         co_unverifiable = take MAX_REPORTED_BREAKS (ss_unverifiable s), co_ok = (ss_breaks s = [])\<rparr>)
       (span_loop ml guarantee start_span (zip kept (tl kept))))"

record join_report =
  jn_last_day :: int
  jn_last_value :: pyfloat
  jn_live_at :: int
  jn_live_value :: pyfloat
  jn_gap :: int
  jn_jump :: pyfloat
  jn_threshold :: pyfloat
  jn_ok :: bool

definition check_join :: "int \<Rightarrow> pyfloat \<Rightarrow> int \<Rightarrow> pyfloat \<Rightarrow> join_report res" where
  "check_join last_day last_value reference_at reference_value =
     (let gap = wall_ordinal reference_at - last_day in
      bind_res (join_threshold_pct gap) (\<lambda>threshold.
      map_res (\<lambda>q. let jump = fmul q (Fin 100) in
          \<lparr>jn_last_day = last_day, jn_last_value = fround last_value 4, jn_live_at = reference_at,
           jn_live_value = fround reference_value 4, jn_gap = gap, jn_jump = fround jump 4, jn_threshold = threshold,
           jn_ok = fle jump threshold\<rparr>)
        (fdiv (fabs (fsub reference_value last_value)) last_value)))"

section \<open>The bars that are written\<close>

record skips =
  sk_after :: int
  sk_non_positive :: int
  sk_duplicate :: int

definition keep_bar :: "string \<Rightarrow> int \<Rightarrow> kept_bar list \<times> skips \<Rightarrow> int \<times> pyfloat \<Rightarrow> kept_bar list \<times> skips" where
  "keep_bar currency cutoff = (\<lambda>(kept, sk) (day, raw).
     if \<not> flt (Fin 0) raw then (kept, sk\<lparr>sk_non_positive := sk_non_positive sk + 1\<rparr>)
     else if wall_ordinal cutoff \<le> day then (kept, sk\<lparr>sk_after := sk_after sk + 1\<rparr>)
     else if day \<in> fst ` set kept then (kept, sk\<lparr>sk_duplicate := sk_duplicate sk + 1\<rparr>)
     else (kept @ [(day, raw, normalize_history_value currency raw)], sk))"

definition rows_to_write :: "string \<Rightarrow> (int \<times> pyfloat) list \<Rightarrow> int \<Rightarrow> kept_bar list \<times> skips" where
  "rows_to_write currency pairs cutoff =
     (let (kept, sk) = foldl (keep_bar currency cutoff) ([], \<lparr>sk_after = 0, sk_non_positive = 0, sk_duplicate = 0\<rparr>) pairs in
      (sort_key fst kept, sk))"

section \<open>The splice\<close>

record splice_record =
  sp_symbol :: string
  sp_at :: int
  sp_first :: int
  sp_last :: int
  sp_rows :: int
  sp_source :: string
  sp_definition :: string
  sp_live_source :: string
  sp_live_definition :: string
  sp_reference_source :: "string option"
  sp_reference_at :: "int option"
  sp_recorded_by :: string
  sp_recorded_at :: int
  sp_note :: string

record backfill_env =
  be_fetch :: "string \<Rightarrow> string + history_page"
  be_math :: mathlib
  be_definitions :: "string \<Rightarrow> (string \<times> string) option"
  be_note :: "string \<times> string \<Rightarrow> int \<Rightarrow> live_anchor \<Rightarrow> string"
  be_iso_day :: "int \<Rightarrow> string"
  be_iso :: "int \<Rightarrow> string"

definition splice_note :: "backfill_env \<Rightarrow> string \<times> string \<Rightarrow> int \<Rightarrow> live_anchor \<Rightarrow> string" where
  "splice_note env defs last_day anchor = SPLICE_NOTE_MARKER @ be_note env defs last_day anchor"

definition splice_of :: "backfill_env \<Rightarrow> string \<Rightarrow> int \<Rightarrow> int \<Rightarrow> live_anchor \<Rightarrow> int \<Rightarrow> int \<Rightarrow> splice_record res" where
  "splice_of env sy first_day last_day anchor rows now = (case be_definitions env sy of
     None \<Rightarrow> Inl KeyError
   | Some (before, after) \<Rightarrow> Inr \<lparr>sp_symbol = sy, sp_at = an_cutoff anchor, sp_first = first_day, sp_last = last_day, sp_rows = rows,
       sp_source = SOURCE, sp_definition = before, sp_live_source = an_source anchor, sp_live_definition = after,
       sp_reference_source = map_option (\<lambda>(_, _, s). s) (an_reference anchor),
       sp_reference_at = map_option fst (an_reference anchor), sp_recorded_by = ''tgju_backfill'', sp_recorded_at = now,
       sp_note = splice_note env (before, after) last_day anchor\<rparr>)"

definition note_with_splice :: "string \<Rightarrow> string \<Rightarrow> string" where
  "note_with_splice note sentence =
     (let kept = py_strip (case cut SPLICE_NOTE_MARKER note of None \<Rightarrow> note | Some (h, _) \<Rightarrow> h) in
      if kept = [] then sentence else py_strip (kept @ '' '' @ sentence))"

record backfill_db =
  bd_prices :: "price_row list"
  bd_raw :: "raw_row list"
  bd_splices :: "(string \<times> splice_record) list"
  bd_notes :: "(string \<times> string option) list"

definition write_splice_record :: "splice_record \<Rightarrow> backfill_db \<Rightarrow> backfill_db \<times> bool" where
  "write_splice_record sp db = (let db = db\<lparr>bd_splices := dict_set (sp_symbol sp) sp (bd_splices db)\<rparr> in
     case map_of (bd_notes db) (sp_symbol sp) of
       None \<Rightarrow> (db, False)
     | Some note \<Rightarrow> (db\<lparr>bd_notes := dict_set (sp_symbol sp)
         (Some (note_with_splice (case note of None \<Rightarrow> [] | Some t \<Rightarrow> t) (sp_note sp))) (bd_notes db)\<rparr>, True))"

section \<open>One symbol\<close>

datatype backfill_refusal =
    NotBackfillSymbol
  | NoLiveHistory
  | NoTrustedObservation int "string list"
  | CutoffOutsideWindow int string string
  | TruncatedPayload
  | BadDates "int list"
  | NothingEligible int skips
  | LastNotPositive int pyfloat
  | Incoherent coherence
  | JoinFailed join_report

datatype backfill_status = BackfillOk | BackfillDryRun | UpToDate | BackfillRefused backfill_refusal | BackfillError string

record backfill_report =
  br_symbol :: string
  br_status :: backfill_status
  br_anchor :: "live_anchor option"
  br_fetched :: int
  br_total :: "int option"
  br_eligible :: int
  br_skips :: "skips option"
  br_inserted :: int
  br_raw_inserted :: int
  br_would_insert :: int
  br_join :: "join_report option"
  br_coherence :: "coherence option"
  br_splice :: "(splice_record \<times> bool \<times> bool) option"

definition start_report :: "string \<Rightarrow> backfill_status \<Rightarrow> backfill_report" where
  "start_report sy st = \<lparr>br_symbol = sy, br_status = st, br_anchor = None, br_fetched = 0, br_total = None, br_eligible = 0,
     br_skips = None, br_inserted = 0, br_raw_inserted = 0, br_would_insert = 0, br_join = None, br_coherence = None, br_splice = None\<rparr>"

definition backfill_price :: "string \<Rightarrow> string \<times> string \<Rightarrow> int \<Rightarrow> kept_bar \<Rightarrow> price_row" where
  "backfill_price sy meta now = (\<lambda>(day, raw, v). \<lparr>p_symbol = sy, p_value = v, p_currency = fst meta, p_unit = snd meta,
     p_source = SOURCE, p_observed_at = close_stamp day, p_collected_at = now, p_quality = ''ok''\<rparr>)"

definition backfill_raw :: "backfill_env \<Rightarrow> string \<Rightarrow> string \<Rightarrow> string \<Rightarrow> string \<Rightarrow> string \<Rightarrow> int \<Rightarrow> kept_bar \<Rightarrow> raw_row" where
  "backfill_raw env sy slug currency raw_unit raw_currency now = (\<lambda>(day, raw, v).
     \<lparr>r_provider = PROVIDER_CODE, r_symbol = sy, r_value = raw, r_unit = raw_unit, r_currency = raw_currency,
      r_payload = JObj [(''slug'', JStr slug), (''kind'', JStr ''history_backfill''), (''bar_date'', JStr (be_iso_day env day)),
        (''availability_utc'', JStr (be_iso env (close_stamp day))), (''normalization'', JStr ''rial_to_toman''),
        (''normalized_value'', JFloat v), (''normalized_currency'', JStr currency)],
      r_observed_at = close_stamp day, r_collected_at = now, r_quality = ''ok'',
      r_dedupe = PROVIDER_CODE @ ''|'' @ sy @ ''|history|'' @ be_iso_day env day\<rparr>)"

text \<open>The one transaction: rows, splice and note, or nothing.\<close>

definition commit_backfill ::
  "backfill_env \<Rightarrow> int \<Rightarrow> string \<Rightarrow> string \<Rightarrow> string \<times> string \<Rightarrow> string \<times> string \<Rightarrow> kept_bar list \<Rightarrow> splice_record \<Rightarrow> backfill_report \<Rightarrow>
    backfill_db \<Rightarrow> (backfill_report \<times> backfill_db) res" where
  "commit_backfill env now sy slug meta raw_meta kept sp report db =
     map_res (\<lambda>(prices, inserted).
       let (raws, raw_inserted) = insert_raws (map (backfill_raw env sy slug (fst meta) (fst raw_meta) (snd raw_meta) now) kept) (bd_raw db);
         (db, noted) = write_splice_record sp (db\<lparr>bd_prices := prices, bd_raw := raws\<rparr>) in
       (report\<lparr>br_status := BackfillOk, br_inserted := inserted, br_raw_inserted := raw_inserted, br_splice := Some (sp, True, noted)\<rparr>, db))
     (insert_prices (map (backfill_price sy meta now) kept) (bd_prices db))"

text \<open>The eligible bars of a whole payload: the two checks on the series, then the write.\<close>

definition backfill_kept ::
  "backfill_env \<Rightarrow> bool \<Rightarrow> int \<Rightarrow> string \<Rightarrow> string \<Rightarrow> string \<times> string \<Rightarrow> string \<times> string \<Rightarrow> live_anchor \<Rightarrow> int \<times> pyfloat \<Rightarrow> kept_bar list \<Rightarrow>
    backfill_report \<Rightarrow> backfill_db \<Rightarrow> (backfill_report \<times> backfill_db) res" where
  "backfill_kept env dry_run now sy slug meta raw_meta anchor reference kept report db =
     (let first_day = fst (hd kept); last_day = fst (last kept); last_value = snd (snd (last kept)) in
      if fle last_value (Fin 0) then Inr (report\<lparr>br_status := BackfillRefused (LastNotPositive last_day last_value)\<rparr>, db)
      else bind_res (span_breaks (be_math env) kept) (\<lambda>co.
        let report = report\<lparr>br_coherence := Some co\<rparr> in
        if \<not> co_ok co then Inr (report\<lparr>br_status := BackfillRefused (Incoherent co)\<rparr>, db)
        else bind_res (check_join last_day last_value (fst reference) (snd reference)) (\<lambda>join.
          let report = report\<lparr>br_join := Some join\<rparr> in
          if \<not> jn_ok join then Inr (report\<lparr>br_status := BackfillRefused (JoinFailed join)\<rparr>, db)
          else bind_res (splice_of env sy first_day last_day anchor (int (length kept)) now) (\<lambda>sp.
            let report = report\<lparr>br_would_insert := int (length kept), br_splice := Some (sp, False, False)\<rparr> in
            if dry_run then Inr (report\<lparr>br_status := BackfillDryRun\<rparr>, db)
            else commit_backfill env now sy slug meta raw_meta kept sp report db))))"

definition backfill_page ::
  "backfill_env \<Rightarrow> bool \<Rightarrow> int \<Rightarrow> string \<Rightarrow> string \<Rightarrow> string \<times> string \<Rightarrow> string \<times> string \<Rightarrow> live_anchor \<Rightarrow> int \<times> pyfloat \<Rightarrow> history_page \<Rightarrow>
    backfill_report \<Rightarrow> backfill_db \<Rightarrow> (backfill_report \<times> backfill_db) res" where
  "backfill_page env dry_run now sy slug meta raw_meta anchor reference page report db =
     (let report = report\<lparr>br_fetched := int (length (hp_rows page)), br_total := hp_total page\<rparr>;
          bad = bar_date_error (hp_rows page) (bar_date_window now) in
      if truncation_error page MAX_HISTORY_ROWS then Inr (report\<lparr>br_status := BackfillRefused TruncatedPayload\<rparr>, db)
      else if bad \<noteq> [] then Inr (report\<lparr>br_status := BackfillRefused (BadDates bad)\<rparr>, db)
      else let (kept, sk) = rows_to_write (snd raw_meta) (hp_rows page) (an_cutoff anchor);
          report = report\<lparr>br_eligible := int (length kept), br_skips := Some sk\<rparr> in
        if kept = [] then
          (if hp_rows page \<noteq> [] \<and> sk_after sk = int (length (hp_rows page)) then Inr (report\<lparr>br_status := UpToDate\<rparr>, db)
           else Inr (report\<lparr>br_status := BackfillRefused (NothingEligible (int (length (hp_rows page))) sk)\<rparr>, db))
        else backfill_kept env dry_run now sy slug meta raw_meta anchor reference kept report db)"

definition backfill_symbol ::
  "backfill_env \<Rightarrow> bool \<Rightarrow> int \<Rightarrow> string list \<Rightarrow> string \<Rightarrow> backfill_db \<Rightarrow> (backfill_report \<times> backfill_db) res" where
  "backfill_symbol env dry_run now ignored sy db =
     (let refuse = (\<lambda>why. Inr (start_report sy (BackfillRefused why), db)) in
      case (map_of BACKFILL_SLUGS sy, map_of SYMBOL_META sy) of
        (Some slug, Some meta) \<Rightarrow>
          (case live_anchor (bd_prices db) sy ignored of
             None \<Rightarrow> refuse NoLiveHistory
           | Some anchor \<Rightarrow>
               (case an_reference anchor of
                  None \<Rightarrow> refuse (NoTrustedObservation (an_rows anchor) (UNTRUSTED_ANCHOR_SOURCES @ ignored))
                | Some (reference_at, reference_value, _) \<Rightarrow>
                    let report = (start_report sy BackfillOk)\<lparr>br_anchor := Some anchor\<rparr>; (low, high) = bar_date_window now;
                      day = wall_ordinal (an_cutoff anchor) in
                    if \<not> (low \<le> day \<and> day \<le> high)
                    then Inr (report\<lparr>br_status := BackfillRefused (CutoffOutsideWindow (an_cutoff anchor) (an_source anchor) (an_quality anchor))\<rparr>, db)
                    else (case be_fetch env slug of
                        Inl e \<Rightarrow> Inr (report\<lparr>br_status := BackfillError e\<rparr>, db)
                      | Inr page \<Rightarrow>
                          bind_res (case map_of SLUG_MAP slug of None \<Rightarrow> Inl KeyError | Some m \<Rightarrow> Inr m) (\<lambda>(_, raw_meta).
                          backfill_page env dry_run now sy slug meta raw_meta anchor (reference_at, reference_value) page report db))))
      | _ \<Rightarrow> refuse NotBackfillSymbol)"

section \<open>The pass\<close>

record backfill_result =
  bf_symbols :: "backfill_report list"
  bf_inserted :: int
  bf_would_insert :: int
  bf_refused :: "string list"

datatype backfill_failure = UnsupportedSymbols "string list" | BackfillRaised py_error

fun backfill_symbols ::
  "backfill_env \<Rightarrow> bool \<Rightarrow> int \<Rightarrow> string list \<Rightarrow> string list \<Rightarrow> backfill_db \<Rightarrow> (py_error option \<times> backfill_report list) \<times> backfill_db" where
  "backfill_symbols env dry_run now ignored [] db = ((None, []), db)"
| "backfill_symbols env dry_run now ignored (sy # rest) db =
     (case backfill_symbol env dry_run now ignored sy db of
        Inl e \<Rightarrow> ((Some e, []), db)
      | Inr (r, db) \<Rightarrow> (case backfill_symbols env dry_run now ignored rest db of ((e, rs), db) \<Rightarrow> ((e, r # rs), db)))"

definition failed_backfill :: "backfill_report \<Rightarrow> bool" where
  "failed_backfill r = (case br_status r of BackfillRefused _ \<Rightarrow> True | BackfillError _ \<Rightarrow> True | _ \<Rightarrow> False)"

definition run_tgju_backfill ::
  "backfill_env \<Rightarrow> bool \<Rightarrow> int \<Rightarrow> string list \<Rightarrow> string list \<Rightarrow> backfill_db \<Rightarrow> (backfill_failure + backfill_result) \<times> backfill_db" where
  "run_tgju_backfill env dry_run now ignored symbols db =
     (let requested = (if symbols = [] then map fst BACKFILL_SLUGS else symbols);
        unknown = filter (\<lambda>s. s \<notin> fst ` set BACKFILL_SLUGS) requested in
      if unknown \<noteq> [] then (Inl (UnsupportedSymbols unknown), db)
      else case backfill_symbols env dry_run now ignored (first_mentions requested) db of
          ((Some e, _), db) \<Rightarrow> (Inl (BackfillRaised e), db)
        | ((None, rs), db) \<Rightarrow> (Inr \<lparr>bf_symbols = rs, bf_inserted = sum_list (map br_inserted rs),
             bf_would_insert = sum_list (map br_would_insert rs), bf_refused = map br_symbol (filter failed_backfill rs)\<rparr>, db))"

end
