(* ===== verification/Tgju_Daily_Props.thy ===== *)
theory Tgju_Daily_Props
  imports Tgju_Daily
begin

text \<open>
  What the daily closes guarantee: a stored close had settled, passed the junk rule and fell on a day without
  any observation of the instrument; every bar has one fate and the report counts it; a repeated pass
  changes nothing.
\<close>

section \<open>Days\<close>

lemma wall_ordinal_at: "wall_ordinal (combine d t) = d + t div day_us"
  by (simp add: wall_ordinal_def combine_def)

lemma wall_ordinal_stamp: "wall_ordinal (close_stamp d) = d"
  by (simp add: close_stamp_def wall_ordinal_at)

lemma day_bounds: "combine a 0 \<le> t \<and> t < utc_day_end b \<longleftrightarrow> a \<le> wall_ordinal t \<and> wall_ordinal t \<le> b"
proof -
  have t: "86400000000 * (t div 86400000000) + t mod 86400000000 = t" "0 \<le> t mod 86400000000" "t mod 86400000000 < 86400000000"
    by simp_all
  have "(a - 719163) * 86400000000 \<le> t \<longleftrightarrow> a - 719163 \<le> t div 86400000000" using t by (auto; linarith)
  moreover have "t < (b - 719163 + 1) * 86400000000 \<longleftrightarrow> t div 86400000000 < b - 719163 + 1" using t by (auto; linarith)
  ultimately show ?thesis by (auto simp: combine_def utc_day_end_def wall_ordinal_def algebra_simps)
qed

section \<open>The stored days\<close>

lemma add_existing_get:
  "dict_get [] (add_existing out r) d =
     (if wall_ordinal (p_observed_at r) = d then dict_set (p_source r) (p_value r) (dict_get [] out d) else dict_get [] out d)"
  by (simp add: add_existing_def Let_def dict_get_set)

lemma dict_set_nonempty [simp]: "dict_set k v d \<noteq> []"
  using dict_set_keys [of k v d] by auto

lemma existing_fold:
  "dict_get [] (foldl add_existing out rows) d = [] \<longleftrightarrow>
    dict_get [] out d = [] \<and> (\<forall>r \<in> set rows. wall_ordinal (p_observed_at r) \<noteq> d)"
  by (induction rows arbitrary: out) (auto simp: add_existing_get)

lemma existing_empty:
  assumes "a \<le> d" and "d \<le> b"
  shows "dict_get [] (existing_by_day table sy a b) d = [] \<longleftrightarrow>
    (\<forall>r \<in> set table. p_symbol r = sy \<longrightarrow> wall_ordinal (p_observed_at r) \<noteq> d)"
proof -
  have "dict_get [] ([] :: day_values) d = []" by (simp add: dict_get_def)
  then show ?thesis
    using assms by (auto simp: existing_by_day_def existing_fold day_bounds)
qed

section \<open>The verdicts\<close>

lemma judge_bar_bar: "judge_bar closes i bar = Inr item \<Longrightarrow> jd_bar item = bar"
  by (auto simp: judge_bar_def Let_def bind_res_eq_Inr map_res_eq_Inr split: if_splits)

lemma mapM_enumerate_bars:
  "mapM (\<lambda>(i, bar). judge_bar closes i bar) (enumerate k bars) = Inr items \<Longrightarrow> map jd_bar items = bars"
  by (induction bars arbitrary: k items) (auto simp: bind_res_eq_Inr map_res_eq_Inr dest: judge_bar_bar)

lemma judge_bars_bars: "judge_bars bars = Inr items \<Longrightarrow> map jd_bar items = sort_key hr_day bars"
  by (auto simp: judge_bars_def Let_def dest: mapM_enumerate_bars)

lemma judged_between:
  assumes "judge_bars bars = Inr items" and "item \<in> set items"
  shows "hr_day (jd_bar (hd items)) \<le> hr_day (jd_bar item) \<and> hr_day (jd_bar item) \<le> hr_day (jd_bar (last items))"
proof -
  have "sorted (map hr_day (map jd_bar items))" by (simp add: judge_bars_bars [OF assms(1)] del: map_map)
  then have s: "sorted (map (\<lambda>x. hr_day (jd_bar x)) items)" by (simp add: o_def)
  obtain i where i: "i < length items" "item = items ! i" using assms(2) by (auto simp: in_set_conv_nth)
  then have ne: "items \<noteq> []" by auto
  show ?thesis
    using sorted_nth_mono [OF s, of 0 i] sorted_nth_mono [OF s, of i "length items - 1"] i ne
    by (simp add: hd_conv_nth last_conv_nth)
qed

section \<open>The insertions\<close>

lemma insert_prices_result:
  "insert_prices rows table = Inr (t, n) \<Longrightarrow>
    \<exists>new. t = table @ new \<and> n = int (length new) \<and> set new \<subseteq> set rows \<and> distinct (map price_key new) \<and>
      (\<forall>r \<in> set new. price_key r \<notin> price_key ` set table) \<and> (\<forall>r \<in> set rows. prices_positive r \<and> price_key r \<in> price_key ` set t)"
proof (induction rows arbitrary: table n)
  case (Cons r rows)
  obtain table1 fresh n1 where i: "insert_price r table = Inr (table1, fresh)" "insert_prices rows table1 = Inr (t, n1)"
    "n = n1 + (if fresh then 1 else 0)"
    using Cons.prems by (auto simp: bind_res_eq_Inr map_res_eq_Inr)
  then have pos: "prices_positive r" by (simp add: insert_price_def split: if_splits)
  obtain new where new: "t = table1 @ new" "n1 = int (length new)" "set new \<subseteq> set rows" "distinct (map price_key new)"
    "\<forall>r \<in> set new. price_key r \<notin> price_key ` set table1" "\<forall>r \<in> set rows. prices_positive r \<and> price_key r \<in> price_key ` set t"
    using Cons.IH [OF i(2)] by blast
  have ins: "(table1, fresh) = insert_ignore price_key r table" using i(1) pos by (simp add: insert_price_def)
  show ?case
  proof (cases "price_key r \<in> price_key ` set table")
    case True
    then show ?thesis using new ins i(3) pos by (intro exI [of _ new]) (auto simp: insert_ignore_def)
  next
    case False
    then show ?thesis using new ins i(3) pos by (intro exI [of _ "r # new"]) (auto simp: insert_ignore_def)
  qed
qed simp

lemma insert_raws_result:
  "insert_raws rows table = (t, n) \<Longrightarrow> set table \<subseteq> set t \<and> (\<forall>r \<in> set rows. r_dedupe r \<in> r_dedupe ` set t)"
proof (induction rows arbitrary: table n)
  case (Cons r rows)
  obtain table1 fresh n1 where i: "insert_raw r table = (table1, fresh)" "insert_raws rows table1 = (t, n1)"
    using Cons.prems by (auto simp: Let_def split: prod.splits)
  have "set table \<subseteq> set table1" "r_dedupe r \<in> r_dedupe ` set table1"
    using i(1) by (auto simp: insert_raw_def insert_ignore_def split: if_splits)
  then show ?case using Cons.IH [OF i(2)] by auto
qed simp

lemma insert_raws_known: "\<forall>r \<in> set rows. r_dedupe r \<in> r_dedupe ` set table \<Longrightarrow> insert_raws rows table = (table, 0)"
  by (induction rows) (auto simp: insert_raw_def insert_ignore_def)

section \<open>A pass over a symbol\<close>

definition plan :: "daily_env \<Rightarrow> string \<Rightarrow> bool \<Rightarrow> string \<Rightarrow> int \<Rightarrow> judged list \<Rightarrow> price_row list \<Rightarrow> (judged \<times> bar_fate) list" where
  "plan env sy gap_fill raw_currency now items table = map (\<lambda>item. (item, bar_fate_of env sy gap_fill raw_currency now
     (existing_by_day table sy (hr_day (jd_bar (hd items))) (hr_day (jd_bar (last items)))) item)) items"

lemma commit_symbol_result:
  assumes "commit_symbol env sy slug gap_fill now full page last_day price_rows raw_rows report db = Inr (r, db')"
  obtains n m where "insert_prices price_rows (td_prices db) = Inr (td_prices db', n)" "insert_raws raw_rows (td_raw db) = (td_raw db', m)"
    "dr_inserted r = n" "dr_status r = DailyOk" "dr_fetched r = dr_fetched report" "dr_would_insert r = dr_would_insert report"
    "dr_unchanged r = dr_unchanged report" "dr_restated r = dr_restated report" "dr_suspect r = dr_suspect report"
    "dr_unjudged r = dr_unjudged report" "dr_not_settled r = dr_not_settled report"
    "dr_other_source r = dr_other_source report" "dr_before_window r = dr_before_window report"
    "n = 0 \<longrightarrow> td_notes db' = td_notes db" "td_providers db' = td_providers db"
    "\<exists>e. td_register db' = dict_set sy e (td_register db) \<and> re_full_pass e = (if full \<noteq> None then Some now else
       case map_of (td_register db) sy of None \<Rightarrow> None | Some e \<Rightarrow> re_full_pass e) \<and>
       re_newest e = (case map_of (td_register db) sy of None \<Rightarrow> last_day | Some e \<Rightarrow> max last_day (re_newest e))"
proof -
  obtain prices n where p: "insert_prices price_rows (td_prices db) = Inr (prices, n)"
    using assms by (auto simp: commit_symbol_def bind_res_eq_Inr)
  obtain raws m where q: "insert_raws raw_rows (td_raw db) = (raws, m)" by force
  let ?e = "next_entry slug gap_fill now full page last_day (map_of (td_register db) sy)"
  let ?r = "report\<lparr>dr_inserted := n, dr_raw_inserted := m, dr_status := DailyOk\<rparr>"
  let ?db = "db\<lparr>td_prices := prices, td_raw := raws\<rparr>"
  have entry: "re_full_pass ?e = (if full \<noteq> None then Some now else case map_of (td_register db) sy of None \<Rightarrow> None | Some e \<Rightarrow> re_full_pass e)"
    "re_newest ?e = (case map_of (td_register db) sy of None \<Rightarrow> last_day | Some e \<Rightarrow> max last_day (re_newest e))"
    by (simp_all only: next_entry_def register_entry.simps)
  consider (plain) "r = ?r" "db' = ?db\<lparr>td_register := dict_set sy ?e (td_register db)\<rparr>"
    | (noted) ns updated g where "n \<noteq> 0" "r = ?r\<lparr>dr_note_updated := Some updated\<rparr>"
      "db' = ?db\<lparr>td_notes := ns, td_register := dict_set sy (?e\<lparr>re_gap := Some g\<rparr>) (td_register db)\<rparr>"
  proof (cases "gap_fill \<and> 0 < n \<and> dr_first_written report \<noteq> None \<and> dr_last_written report \<noteq> None")
    case True
    then obtain a b where "dr_first_written report = Some a" "dr_last_written report = Some b" by auto
    then show ?thesis using assms True noted
      by (simp add: commit_symbol_def p q Let_def split: prod.splits) blast
  next
    case False
    then show ?thesis using assms plain
      by (cases "dr_first_written report"; cases "dr_last_written report") (auto simp: commit_symbol_def p q Let_def split: if_splits bool.splits)
  qed
  then show ?thesis
  proof cases
    case plain
    have "\<exists>e. td_register db' = dict_set sy e (td_register db) \<and> re_full_pass e = (if full \<noteq> None then Some now else
       case map_of (td_register db) sy of None \<Rightarrow> None | Some e \<Rightarrow> re_full_pass e) \<and>
       re_newest e = (case map_of (td_register db) sy of None \<Rightarrow> last_day | Some e \<Rightarrow> max last_day (re_newest e))"
      by (intro exI [of _ ?e] conjI entry) (simp add: plain)
    from this show ?thesis by (intro that [of n m]) (simp_all add: p q plain)
  next
    case noted
    have "\<exists>e. td_register db' = dict_set sy e (td_register db) \<and> re_full_pass e = (if full \<noteq> None then Some now else
       case map_of (td_register db) sy of None \<Rightarrow> None | Some e \<Rightarrow> re_full_pass e) \<and>
       re_newest e = (case map_of (td_register db) sy of None \<Rightarrow> last_day | Some e \<Rightarrow> max last_day (re_newest e))"
      by (intro exI [of _ "?e\<lparr>re_gap := Some g\<rparr>"] conjI) (simp_all add: noted(3) entry)
    from this show ?thesis using noted(1) by (intro that [of n m]) (simp_all add: p q noted(2,3))
  qed
qed

text \<open>A run that reached the bars of a page.\<close>

definition reaches ::
  "daily_env \<Rightarrow> bool \<Rightarrow> int \<Rightarrow> string \<Rightarrow> daily_db \<Rightarrow> string \<Rightarrow> bool \<Rightarrow> string \<times> string \<Rightarrow> string \<times> string \<Rightarrow> history_page \<Rightarrow>
    full_reason option \<Rightarrow> judged list \<Rightarrow> bool" where
  "reaches env dry_run now sy db slug gap_fill meta raw_meta page full items \<longleftrightarrow>
     slug_of sy = Inr (slug, gap_fill) \<and> map_of SYMBOL_META sy = Some meta \<and>
     (\<exists>c. slug_meta slug = Inr (c, fst raw_meta, snd raw_meta)) \<and> unit_part (fst raw_meta) = Inr (snd meta) \<and>
     fetch_bars env db sy slug = Inr (page, full) \<and> page_refused page full now = None \<and> judge_bars (hp_bars page) = Inr items"

definition page_report :: "string \<Rightarrow> history_page \<Rightarrow> full_reason option \<Rightarrow> daily_report" where
  "page_report sy page full = (empty_report sy DailyOk)\<lparr>dr_full := full, dr_fetched := int (length (hp_bars page)), dr_total := hp_total page\<rparr>"

definition page_commit where
  "page_commit env now sy db slug gap_fill meta raw_meta page full items =
     (let fates = plan env sy gap_fill (snd raw_meta) now items (td_prices db) in
      commit_symbol env sy slug gap_fill now full page (hr_day (jd_bar (last items)))
        (List.map_filter (price_of_fate sy (fst meta) (snd meta) now) fates)
        (List.map_filter (raw_of_fate env sy slug (fst meta) (fst raw_meta) (snd raw_meta) now) fates)
        (tally_fates fates (page_report sy page full)) db)"

lemma ingest_page_reached:
  assumes "page_refused page full now = None" and "judge_bars (hp_bars page) = Inr items"
  shows "ingest_page env dry_run now sy slug gap_fill meta raw_meta page full db =
    (if dry_run then Inr ((tally_fates (plan env sy gap_fill (snd raw_meta) now items (td_prices db)) (page_report sy page full))\<lparr>dr_status := DailyDryRun\<rparr>, db)
     else page_commit env now sy db slug gap_fill meta raw_meta page full items)"
  using assms by (simp add: ingest_page_def page_commit_def page_report_def plan_def Let_def)

lemma ingest_reached:
  assumes "reaches env dry_run now sy db slug gap_fill meta raw_meta page full items"
  shows "ingest_symbol env dry_run now sy db = ingest_page env dry_run now sy slug gap_fill meta raw_meta page full db"
  using assms by (cases raw_meta) (auto simp: reaches_def ingest_symbol_def)

lemma ingest_symbol_cases:
  assumes "ingest_symbol env dry_run now sy db = Inr (r, db')"
  obtains (idle) "db' = db" "dr_inserted r = 0" "dr_status r \<noteq> DailyOk" "dr_status r \<noteq> DailyDryRun"
  | (reached) slug gap_fill meta raw_meta page full items where
      "reaches env dry_run now sy db slug gap_fill meta raw_meta page full items"
proof -
  obtain slug gap_fill where slug: "slug_of sy = Inr (slug, gap_fill)"
    using assms by (auto simp: ingest_symbol_def bind_res_eq_Inr)
  obtain meta where meta: "map_of SYMBOL_META sy = Some meta"
    using assms slug by (auto simp: ingest_symbol_def bind_res_eq_Inr split: option.splits)
  obtain c ru rc where rm: "slug_meta slug = Inr (c, ru, rc)"
    using assms slug meta by (auto simp: ingest_symbol_def bind_res_eq_Inr)
  obtain u where u: "unit_part ru = Inr u"
    using assms slug meta rm by (auto simp: ingest_symbol_def bind_res_eq_Inr)
  note run = assms [unfolded ingest_symbol_def slug meta bind_res_simps prod.case option.case rm u]
  show ?thesis
  proof (cases "u = snd meta")
    case False
    then show ?thesis using run idle by (auto simp: empty_report_def)
  next
    case unit: True
    show ?thesis
    proof (cases "fetch_bars env db sy slug")
      case (Inl e)
      then show ?thesis using run unit idle by (auto simp: empty_report_def)
    next
      case (Inr pf)
      obtain page full where f: "fetch_bars env db sy slug = Inr (page, full)" using Inr by (cases pf) auto
      have p: "ingest_page env dry_run now sy slug gap_fill meta (ru, rc) page full db = Inr (r, db')"
        using run unit f by simp
      show ?thesis
      proof (cases "page_refused page full now")
        case (Some why)
        then show ?thesis using p idle by (auto simp: ingest_page_def Let_def empty_report_def)
      next
        case None
        then obtain items where "judge_bars (hp_bars page) = Inr items"
          using p by (auto simp: ingest_page_def Let_def bind_res_eq_Inr)
        then have "reaches env dry_run now sy db slug gap_fill meta (ru, rc) page full items"
          using slug meta rm u unit f None by (simp add: reaches_def)
        then show ?thesis by (rule reached)
      qed
    qed
  qed
qed

section \<open>What is stored\<close>

lemma fate_stored:
  assumes "bar_fate_of env sy gap_fill rc now existing item = Stored v"
  shows "hr_day (jd_bar item) < de_tehran_day env now" "close_stamp (hr_day (jd_bar item)) \<le> now"
    "gap_fill \<longrightarrow> utc_day_end (hr_day (jd_bar item)) \<le> now \<and> the (map_of GAP_FILL_FROM sy) \<le> hr_day (jd_bar item)"
    "dict_get [] existing (hr_day (jd_bar item)) = []" "jd_verdict item = BarOk"
    "v = normalize_history_value rc (hr_close (jd_bar item))"
  using assms by (auto simp: bar_fate_of_def Let_def split: if_splits option.splits bar_verdict.splits)

text \<open>The rules of a stored close.\<close>

definition proper_close :: "daily_env \<Rightarrow> int \<Rightarrow> string \<Rightarrow> price_row list \<Rightarrow> price_row \<Rightarrow> bool" where
  "proper_close env now sy table p \<longleftrightarrow> p_symbol p = sy \<and> p_source p = SOURCE \<and> p_quality p = ''ok'' \<and> p_collected_at p = now \<and>
     p_observed_at p = close_stamp (wall_ordinal (p_observed_at p)) \<and> p_observed_at p \<le> now \<and>
     wall_ordinal (p_observed_at p) < de_tehran_day env now \<and>
     (sy \<in> fst ` set GAP_FILL_SLUGS \<longrightarrow> utc_day_end (wall_ordinal (p_observed_at p)) \<le> now \<and>
        the (map_of GAP_FILL_FROM sy) \<le> wall_ordinal (p_observed_at p)) \<and>
     (\<forall>q \<in> set table. p_symbol q = sy \<longrightarrow> wall_ordinal (p_observed_at q) \<noteq> wall_ordinal (p_observed_at p))"

lemma slug_of_gap: "slug_of sy = Inr (slug, gap_fill) \<Longrightarrow> gap_fill \<longleftrightarrow> sy \<in> fst ` set GAP_FILL_SLUGS"
  by (auto simp: slug_of_def GAP_FILL_SLUGS_def split: option.splits if_splits)

lemma planned_price:
  assumes "judge_bars bars = Inr items" and "slug_of sy = Inr (slug, gap_fill)"
    and "p \<in> set (List.map_filter (price_of_fate sy cur u now) (plan env sy gap_fill rc now items table))"
  shows "proper_close env now sy table p \<and>
    (\<exists>item \<in> set items. jd_verdict item = BarOk \<and> p_observed_at p = close_stamp (hr_day (jd_bar item)) \<and>
       p_value p = normalize_history_value rc (hr_close (jd_bar item)))"
proof -
  let ?ex = "existing_by_day table sy (hr_day (jd_bar (hd items))) (hr_day (jd_bar (last items)))"
  obtain x where x: "x \<in> set (plan env sy gap_fill rc now items table)" "price_of_fate sy cur u now x = Some p"
    using assms(3) by (auto simp: List.map_filter_def)
  then obtain item v where i: "item \<in> set items" "bar_fate_of env sy gap_fill rc now ?ex item = Stored v"
    "p = \<lparr>p_symbol = sy, p_value = v, p_currency = cur, p_unit = u, p_source = SOURCE,
       p_observed_at = close_stamp (hr_day (jd_bar item)), p_collected_at = now, p_quality = ''ok''\<rparr>"
    by (auto simp: plan_def price_of_fate_def split: bar_fate.splits)
  note b = judged_between [OF assms(1) i(1)]
  have "\<forall>q \<in> set table. p_symbol q = sy \<longrightarrow> wall_ordinal (p_observed_at q) \<noteq> hr_day (jd_bar item)"
    using fate_stored(4) [OF i(2)] existing_empty b by simp
  then show ?thesis
    using fate_stored [OF i(2)] slug_of_gap [OF assms(2)] i(1)
    by (auto simp: proper_close_def i(3) wall_ordinal_stamp)
qed

section \<open>A demonstration\<close>

definition demo_history :: history_page where
  "demo_history = \<lparr>hp_rows = map (\<lambda>d. (d, Fin 1000)) [740001..740005], hp_returned = 5, hp_total = Some 5,
     hp_bars = map (\<lambda>d. \<lparr>hr_day = d, hr_close = Fin 1000, hr_text = ''1,000'', hr_jalali = []\<rparr>) [740001..740005]\<rparr>"

definition demo_daily :: daily_env where
  "demo_daily = \<lparr>de_fetch = (\<lambda>_ _. Inr demo_history), de_tehran_day = wall_ordinal, de_iso_day = int_str, de_iso = int_str,
     de_g10 = (\<lambda>_. []), de_reason = (\<lambda>_ _. [])\<rparr>"

definition demo_daily_db :: daily_db where
  "demo_daily_db = \<lparr>td_prices = [], td_raw = [], td_register = [], td_notes = [], td_providers = []\<rparr>"

abbreviation demo_ingest :: "(daily_report \<times> daily_db) res" where
  "demo_ingest \<equiv> ingest_symbol demo_daily False (combine 740005 0) ''IR_COIN_HALF'' demo_daily_db"

definition demo_items :: "judged list" where
  "demo_items = map (\<lambda>b. \<lparr>jd_bar = b, jd_verdict = BarOk, jd_median = Some (Fin 1000), jd_neighbours = 4\<rparr>) (hp_bars demo_history)"

lemma demo_judge:
  assumes "hr_close b = Fin 1000" and "around closes i = [Fin 1000, Fin 1000, Fin 1000, Fin 1000]"
  shows "judge_bar closes i b = Inr \<lparr>jd_bar = b, jd_verdict = BarOk, jd_median = Some (Fin 1000), jd_neighbours = 4\<rparr>"
proof -
  have "median [Fin 1000, Fin 1000, Fin 1000, Fin 1000] = Inr (Fin 1000)" "\<not> flt SUSPECT_RATIO (Fin 1)" by code_simp+
  then show ?thesis using assms by (simp add: judge_bar_def MIN_JUDGED_NEIGHBOURS_def off_ratio_def fdiv_def fmax_def)
qed

lemma demo_judged: "judge_bars (hp_bars demo_history) = Inr demo_items"
proof -
  let ?c = "Fin 1000"
  have days: "[740001..740005] = [740001, 740002, 740003, 740004, 740005 :: int]" by (simp add: upto.simps)
  have "around [?c, ?c, ?c, ?c, ?c] 0 = [?c, ?c, ?c, ?c]" "around [?c, ?c, ?c, ?c, ?c] (Suc 0) = [?c, ?c, ?c, ?c]"
    "around [?c, ?c, ?c, ?c, ?c] (Suc (Suc 0)) = [?c, ?c, ?c, ?c]" "around [?c, ?c, ?c, ?c, ?c] (Suc (Suc (Suc 0))) = [?c, ?c, ?c, ?c]"
    "around [?c, ?c, ?c, ?c, ?c] (Suc (Suc (Suc (Suc 0)))) = [?c, ?c, ?c, ?c]"
    by (simp_all add: around_def NEIGHBOURS_EACH_SIDE_def eval_nat_numeral)
  then show ?thesis by (simp add: judge_bars_def demo_history_def demo_items_def days demo_judge Let_def)
qed

lemma demo_reaches:
  "reaches demo_daily False (combine 740005 0) ''IR_COIN_HALF'' demo_daily_db ''nim'' False (''IRT'', ''coin'') (''IRR/coin'', ''IRR'')
     demo_history (Some NoRowYet) demo_items"
proof -
  have "slug_of ''IR_COIN_HALF'' = Inr (''nim'', False)" "slug_meta ''nim'' = Inr (''IR_COIN_HALF'', ''IRR/coin'', ''IRR'')"
    "map_of SYMBOL_META ''IR_COIN_HALF'' = Some (''IRT'', ''coin'')" "unit_part ''IRR/coin'' = Inr ''coin''" by code_simp+
  moreover have "page_refused demo_history (Some NoRowYet) (combine 740005 0) = None" by code_simp
  moreover have "fetch_bars demo_daily demo_daily_db ''IR_COIN_HALF'' ''nim'' = Inr (demo_history, Some NoRowYet)"
    by (simp add: fetch_bars_def full_before_def has_history_rows_def demo_daily_def demo_daily_db_def)
  ultimately show ?thesis using demo_judged by (simp add: reaches_def)
qed

lemma demo_daily_run:
  obtains r db where "demo_ingest = Inr (r, db)" "dr_status r = DailyOk" "dr_inserted r = 4" "length (td_prices db) = 4"
proof -
  have "map_res (\<lambda>(r, db). (dr_status r, dr_inserted r, length (td_prices db)))
     (page_commit demo_daily (combine 740005 0) ''IR_COIN_HALF'' demo_daily_db ''nim'' False (''IRT'', ''coin'') (''IRR/coin'', ''IRR'')
        demo_history (Some NoRowYet) demo_items) = Inr (DailyOk, 4, 4)" by code_simp
  moreover have "demo_ingest = page_commit demo_daily (combine 740005 0) ''IR_COIN_HALF'' demo_daily_db ''nim'' False (''IRT'', ''coin'')
      (''IRR/coin'', ''IRR'') demo_history (Some NoRowYet) demo_items"
    using ingest_reached [OF demo_reaches] demo_reaches by (simp add: reaches_def ingest_page_reached)
  ultimately show ?thesis using that by (auto simp: map_res_eq_Inr)
qed

text \<open>A row is the toman value of a bar that the source's table for the instrument holds and the junk rule passed.\<close>

definition from_table :: "daily_env \<Rightarrow> string \<Rightarrow> price_row \<Rightarrow> bool" where
  "from_table env sy p \<longleftrightarrow> (\<exists>slug g whole page items item. slug_of sy = Inr (slug, g) \<and> de_fetch env slug whole = Inr page \<and>
     judge_bars (hp_bars page) = Inr items \<and> item \<in> set items \<and> jd_verdict item = BarOk \<and>
     p_observed_at p = close_stamp (hr_day (jd_bar item)) \<and> p_value p = rial_to_toman (hr_close (jd_bar item)))"

lemma slug_currency: "slug_of sy = Inr (slug, g) \<Longrightarrow> slug_meta slug = Inr (c, ru, rc) \<Longrightarrow> rc = ''IRR''"
  by (auto simp: slug_of_def slug_meta_def GAP_FILL_SLUGS_def SERIES_SLUGS_def SLUG_MAP_def HISTORY_SLUG_MAP_def split: option.splits if_splits)

text \<open>C4: Nothing is ever overwritten and nothing unsettled, junk or in the way is stored: a run only appends
  closes, and none in a dry run; each is the 23:00 UTC close of a day before the current Tehran day, with the
  stamp in the past, on which no source had an observation of the instrument before; a gap is filled inside
  its window and once the day has ended; no two fall on the same instant; and each is the normalised close of
  a bar of the source's table that the junk rule passed.\<close>

theorem closes_are_proper:
  assumes "ingest_symbol env dry_run now sy db = Inr (r, db')"
  shows "\<exists>new. td_prices db' = td_prices db @ new \<and> int (length new) = dr_inserted r \<and> (dry_run \<longrightarrow> new = []) \<and>
    distinct (map p_observed_at new) \<and> (\<forall>p \<in> set new. proper_close env now sy (td_prices db) p \<and> from_table env sy p)"
  using assms
proof (cases rule: ingest_symbol_cases)
  case idle
  then show ?thesis by (intro exI [of _ "[]"]) simp
next
  case (reached slug gap_fill meta raw_meta page full items)
  note f = reached [unfolded reaches_def]
  have run: "ingest_page env dry_run now sy slug gap_fill meta raw_meta page full db = Inr (r, db')"
    using ingest_reached [OF reached] assms by simp
  show ?thesis
  proof (cases dry_run)
    case True
    then have "db' = db" "dr_inserted r = 0"
      using run f by (auto simp: ingest_page_reached tally_fates_def page_report_def empty_report_def Let_def)
    then show ?thesis by (intro exI [of _ "[]"]) simp
  next
    case False
    let ?rows = "List.map_filter (price_of_fate sy (fst meta) (snd meta) now) (plan env sy gap_fill (snd raw_meta) now items (td_prices db))"
    have "page_commit env now sy db slug gap_fill meta raw_meta page full items = Inr (r, db')"
      using run f False by (simp add: ingest_page_reached)
    then obtain n where n: "insert_prices ?rows (td_prices db) = Inr (td_prices db', n)" "dr_inserted r = n"
      unfolding page_commit_def Let_def by (rule commit_symbol_result) auto
    obtain new where new: "td_prices db' = td_prices db @ new" "n = int (length new)" "set new \<subseteq> set ?rows" "distinct (map price_key new)"
      using insert_prices_result [OF n(1)] by blast
    obtain whole where w: "de_fetch env slug whole = Inr page"
      using f by (auto simp: fetch_bars_def split: option.splits sum.splits)
    have rc: "snd raw_meta = ''IRR''" using f slug_currency by blast
    have p: "proper_close env now sy (td_prices db) p \<and> from_table env sy p" if "p \<in> set new" for p
    proof -
      have j: "judge_bars (hp_bars page) = Inr items" "slug_of sy = Inr (slug, gap_fill)" and "p \<in> set ?rows" using f that new(3) by auto
      from planned_price [OF this] obtain item where "proper_close env now sy (td_prices db) p" "item \<in> set items"
        "jd_verdict item = BarOk" "p_observed_at p = close_stamp (hr_day (jd_bar item))" "p_value p = rial_to_toman (hr_close (jd_bar item))"
        by (auto simp: rc normalize_history_value_def)
      then show ?thesis using j w unfolding from_table_def by blast
    qed
    have "inj_on p_observed_at (set new)"
    proof (rule inj_onI)
      fix p q assume "p \<in> set new" "q \<in> set new" "p_observed_at p = p_observed_at q"
      moreover then have "price_key p = price_key q" using p [of p] p [of q] by (simp add: price_key_def proper_close_def)
      ultimately show "p = q" using new(4) by (meson distinct_map inj_onD)
    qed
    then have "distinct (map p_observed_at new)" using new(4) by (simp add: distinct_map)
    then show ?thesis using new(1,2) n(2) p False by (intro exI [of _ new]) simp
  qed
qed

lemma closes_are_proper_witness:
  "case demo_ingest of Inl _ \<Rightarrow> False
   | Inr (r, db) \<Rightarrow> length (td_prices db) = 4 \<and> distinct (map p_observed_at (td_prices db)) \<and> dr_inserted r = 4"
proof -
  obtain r db where run: "demo_ingest = Inr (r, db)" "dr_status r = DailyOk" "dr_inserted r = 4" "length (td_prices db) = 4"
    by (rule demo_daily_run)
  show ?thesis using closes_are_proper [OF run(1)] run by (simp add: demo_daily_db_def)
qed

section \<open>The counts\<close>

lemma fates_partition:
  "int (length fates) = int (length (filter (is_stored \<circ> snd) fates)) + fates_with (\<lambda>f. f = SameAsStored) fates +
     fates_with is_restated fates + fates_with is_suspect fates + fates_with (\<lambda>f. f = HeldUnjudged) fates +
     fates_with (\<lambda>f. f = NotSettled) fates + fates_with (\<lambda>f. f = OtherSource) fates + fates_with (\<lambda>f. f = BeforeWindow) fates"
proof (induction fates)
  case (Cons x fates)
  then show ?case by (cases "snd x") (simp_all add: fates_with_def)
qed (simp add: fates_with_def)

lemma stored_prices:
  "length (List.map_filter (price_of_fate sy cur u now) fates) = length (filter (is_stored \<circ> snd) fates)"
proof (induction fates)
  case (Cons x fates)
  then show ?case by (cases "snd x") (auto simp: List.map_filter_simps price_of_fate_def split: prod.splits)
qed (simp add: List.map_filter_simps)

text \<open>Every bar that was fetched has exactly one fate and the report counts it under it; no more rows are
  inserted than the report announces.\<close>

theorem every_bar_counted:
  assumes "ingest_symbol env dry_run now sy db = Inr (r, db')" and "dr_status r = DailyOk \<or> dr_status r = DailyDryRun"
  shows "dr_fetched r = dr_would_insert r + dr_unchanged r + dr_restated r + dr_suspect r + dr_unjudged r + dr_not_settled r +
      dr_other_source r + dr_before_window r \<and> dr_inserted r \<le> dr_would_insert r"
  using assms(1)
proof (cases rule: ingest_symbol_cases)
  case idle
  then show ?thesis using assms(2) by simp
next
  case (reached slug gap_fill meta raw_meta page full items)
  note f = reached [unfolded reaches_def]
  let ?fates = "plan env sy gap_fill (snd raw_meta) now items (td_prices db)"
  let ?report = "tally_fates ?fates (page_report sy page full)"
  have run: "ingest_page env dry_run now sy slug gap_fill meta raw_meta page full db = Inr (r, db')"
    using ingest_reached [OF reached] assms(1) by simp
  have "length items = length (hp_bars page)"
    using judge_bars_bars [of "hp_bars page" items] f by (metis length_map length_sort)
  then have len: "int (length ?fates) = int (length (hp_bars page))" by (simp add: plan_def)
  have counts: "dr_fetched ?report = dr_would_insert ?report + dr_unchanged ?report + dr_restated ?report + dr_suspect ?report +
      dr_unjudged ?report + dr_not_settled ?report + dr_other_source ?report + dr_before_window ?report"
    "dr_would_insert ?report = int (length (filter (is_stored \<circ> snd) ?fates))" "dr_inserted ?report = 0"
    using fates_partition [of ?fates] len by (simp_all add: tally_fates_def page_report_def empty_report_def Let_def)
  show ?thesis
  proof (cases dry_run)
    case True
    then show ?thesis using run f counts by (auto simp: ingest_page_reached)
  next
    case False
    let ?rows = "List.map_filter (price_of_fate sy (fst meta) (snd meta) now) ?fates"
    have "page_commit env now sy db slug gap_fill meta raw_meta page full items = Inr (r, db')"
      using run f False by (simp add: ingest_page_reached)
    then obtain n where n: "insert_prices ?rows (td_prices db) = Inr (td_prices db', n)" "dr_inserted r = n"
      "dr_fetched r = dr_fetched ?report" "dr_would_insert r = dr_would_insert ?report"
      "dr_unchanged r = dr_unchanged ?report" "dr_restated r = dr_restated ?report" "dr_suspect r = dr_suspect ?report"
      "dr_unjudged r = dr_unjudged ?report" "dr_not_settled r = dr_not_settled ?report"
      "dr_other_source r = dr_other_source ?report" "dr_before_window r = dr_before_window ?report"
      unfolding page_commit_def Let_def by (rule commit_symbol_result) auto
    have "insert_prices rows table = Inr (t, k) \<Longrightarrow> k \<le> int (length rows)" for rows table t k
      by (induction rows arbitrary: table t k) (fastforce simp: bind_res_eq_Inr map_res_eq_Inr)+
    from this [OF n(1)] have "n \<le> dr_would_insert ?report" using stored_prices counts(2) by metis
    then show ?thesis using n(2-) counts(1) by simp
  qed
qed

lemma every_bar_counted_witness:
  "case demo_ingest of Inl _ \<Rightarrow> False
   | Inr (r, _) \<Rightarrow> dr_fetched r = dr_would_insert r + dr_unchanged r + dr_restated r + dr_suspect r + dr_unjudged r + dr_not_settled r +
      dr_other_source r + dr_before_window r"
proof -
  obtain r db where run: "demo_ingest = Inr (r, db)" "dr_status r = DailyOk" by (rule demo_daily_run)
  show ?thesis using every_bar_counted [OF run(1)] run by simp
qed

section \<open>Repetition\<close>

definition set_value :: "(string \<times> pyfloat) list \<Rightarrow> price_row \<Rightarrow> (string \<times> pyfloat) list" where
  "set_value acc r = dict_set (p_source r) (p_value r) acc"

lemma existing_of_day:
  "dict_get [] (foldl add_existing out rows) d = foldl set_value (dict_get [] out d) (filter (\<lambda>r. wall_ordinal (p_observed_at r) = d) rows)"
  by (induction rows arbitrary: out) (auto simp: add_existing_get set_value_def)

text \<open>What a day already holds does not depend on the window that is read.\<close>

definition stored_on :: "price_row list \<Rightarrow> string \<Rightarrow> int \<Rightarrow> (string \<times> pyfloat) list" where
  "stored_on table sy d = foldl set_value []
     (sort_key p_observed_at (filter (\<lambda>r. p_symbol r = sy \<and> wall_ordinal (p_observed_at r) = d) table))"

lemma existing_at:
  assumes "a \<le> d" and "d \<le> b"
  shows "dict_get [] (existing_by_day table sy a b) d = stored_on table sy d"
proof -
  have "filter (\<lambda>r. wall_ordinal (p_observed_at r) = d) (filter (\<lambda>r. p_symbol r = sy \<and> combine a 0 \<le> p_observed_at r \<and>
      p_observed_at r < utc_day_end b) table) = filter (\<lambda>r. p_symbol r = sy \<and> wall_ordinal (p_observed_at r) = d) table"
    unfolding filter_filter using assms by (intro filter_cong refl) (auto simp: day_bounds)
  moreover have "dict_get [] ([] :: day_values) d = []" by (simp add: dict_get_def)
  ultimately show ?thesis by (simp add: existing_by_day_def existing_of_day filter_sort stored_on_def)
qed

lemma stored_on_empty: "stored_on table sy d = [] \<longleftrightarrow> (\<forall>r \<in> set table. p_symbol r = sy \<longrightarrow> wall_ordinal (p_observed_at r) \<noteq> d)"
  using existing_empty [of d d d table sy] existing_at [of d d d table sy] by simp

lemma stored_on_frame:
  assumes "\<forall>p \<in> set new. p_symbol p = sy \<longrightarrow> wall_ordinal (p_observed_at p) \<noteq> d"
  shows "stored_on (table @ new) sy d = stored_on table sy d"
proof -
  have "filter (\<lambda>r. p_symbol r = sy \<and> wall_ordinal (p_observed_at r) = d) new = []" using assms by (auto simp: filter_empty_conv)
  then show ?thesis by (simp add: stored_on_def)
qed

text \<open>The fate of a bar rests on its verdict and its own day.\<close>

lemma fate_like:
  assumes "jd_bar x = jd_bar y" and "jd_verdict x = jd_verdict y"
    and "dict_get [] ex (hr_day (jd_bar y)) = dict_get [] ex' (hr_day (jd_bar y))"
  shows "bar_fate_of env sy g rc now ex x = Stored v \<longleftrightarrow> bar_fate_of env sy g rc now ex' y = Stored v"
    and "(\<exists>m. bar_fate_of env sy g rc now ex x = HeldSuspect v m) \<longleftrightarrow> (\<exists>m. bar_fate_of env sy g rc now ex' y = HeldSuspect v m)"
  using assms by (auto simp: bar_fate_of_def Let_def split: if_splits option.splits bar_verdict.splits)

lemma fate_suspect_of_empty:
  assumes "bar_fate_of env sy g rc now ex' item = HeldSuspect v m" and "dict_get [] ex (hr_day (jd_bar item)) = []"
    and "g \<longrightarrow> the (map_of GAP_FILL_FROM sy) \<le> hr_day (jd_bar item)"
  shows "bar_fate_of env sy g rc now ex item = HeldSuspect v m"
  using assms by (auto simp: bar_fate_of_def Let_def split: if_splits option.splits bar_verdict.splits)

text \<open>The plan of a second pass over bars that were judged alike in the first, after that stored what it planned.\<close>

definition like_before :: "judged list \<Rightarrow> judged list \<Rightarrow> bool" where
  "like_before items items2 \<longleftrightarrow> (\<forall>y \<in> set items2. \<exists>x \<in> set items. jd_bar x = jd_bar y \<and> jd_verdict x = jd_verdict y)"

definition fate_in :: "daily_env \<Rightarrow> string \<Rightarrow> bool \<Rightarrow> string \<Rightarrow> int \<Rightarrow> judged list \<Rightarrow> price_row list \<Rightarrow> judged \<Rightarrow> bar_fate" where
  "fate_in env sy g rc now items table x = bar_fate_of env sy g rc now
     (existing_by_day table sy (hr_day (jd_bar (hd items))) (hr_day (jd_bar (last items)))) x"

lemma plan_fates: "plan env sy g rc now items table = map (\<lambda>x. (x, fate_in env sy g rc now items table x)) items"
  by (simp add: plan_def fate_in_def)

lemma second_plan:
  assumes j: "judge_bars bars = Inr items" "judge_bars bars2 = Inr items2" "slug_of sy = Inr (slug, g)"
    and rows: "rows = List.map_filter (price_of_fate sy cur u now) (plan env sy g rc now items table)"
    and ins: "insert_prices rows table = Inr (table', n)"
    and y: "y \<in> set items2" and x: "x \<in> set items" "jd_bar x = jd_bar y" "jd_verdict x = jd_verdict y"
  shows "fate_in env sy g rc now items2 table' y \<noteq> Stored v"
    and "fate_in env sy g rc now items2 table' y = HeldSuspect v m \<Longrightarrow> \<exists>m. fate_in env sy g rc now items table x = HeldSuspect v m"
proof -
  let ?d = "hr_day (jd_bar y)"
  obtain new where new: "table' = table @ new" "set new \<subseteq> set rows" "\<forall>r \<in> set rows. price_key r \<in> price_key ` set table'"
    using insert_prices_result [OF ins] by blast
  have proper: "proper_close env now sy table p" if "p \<in> set new" for p
    using planned_price [OF j(1,3), of p cur u now env rc table] that new(2) rows by blast
  have at1: "dict_get [] (existing_by_day t sy (hr_day (jd_bar (hd items))) (hr_day (jd_bar (last items)))) ?d = stored_on t sy ?d" for t
    using existing_at judged_between [OF j(1) x(1)] x(2) by simp
  have at2: "dict_get [] (existing_by_day t sy (hr_day (jd_bar (hd items2))) (hr_day (jd_bar (last items2)))) ?d = stored_on t sy ?d" for t
    using existing_at judged_between [OF j(2) y] by simp
  note like = fate_like [OF x(2,3)]
  show "fate_in env sy g rc now items2 table' y \<noteq> Stored v"
  proof
    assume st: "fate_in env sy g rc now items2 table' y = Stored v"
    then have e: "stored_on table' sy ?d = []" using fate_stored(4) at2 unfolding fate_in_def by metis
    then have "stored_on table sy ?d = []" unfolding stored_on_empty new(1) by auto
    then have "fate_in env sy g rc now items table x = Stored v"
      using like(1) [of "existing_by_day table sy (hr_day (jd_bar (hd items))) (hr_day (jd_bar (last items)))"
        "existing_by_day table' sy (hr_day (jd_bar (hd items2))) (hr_day (jd_bar (last items2)))"] st e
      unfolding fate_in_def at1 at2 by metis
    then have "(x, Stored v) \<in> set (plan env sy g rc now items table)" using x(1) unfolding plan_fates by force
    then obtain p where p: "p \<in> set rows" "p_symbol p = sy" "p_observed_at p = close_stamp ?d"
      using x(2) unfolding rows List.map_filter_def by (force simp: price_of_fate_def)
    then obtain q where "q \<in> set table'" "price_key q = price_key p" using new(3) by (metis imageE)
    then have "p_symbol q = sy" "wall_ordinal (p_observed_at q) = ?d" "q \<in> set table'"
      using p(2,3) by (simp_all add: price_key_def wall_ordinal_stamp)
    with e show False unfolding stored_on_empty by blast
  qed
  assume sus: "fate_in env sy g rc now items2 table' y = HeldSuspect v m"
  show "\<exists>m. fate_in env sy g rc now items table x = HeldSuspect v m"
  proof (cases "\<exists>p \<in> set new. wall_ordinal (p_observed_at p) = ?d")
    case False
    then have "stored_on table' sy ?d = stored_on table sy ?d" unfolding new(1) by (intro stored_on_frame) blast
    then show ?thesis using like(2) sus unfolding fate_in_def by (metis at1 at2)
  next
    case True
    then obtain p where p: "proper_close env now sy table p" "wall_ordinal (p_observed_at p) = ?d" using proper by blast
    then have "stored_on table sy ?d = []" unfolding stored_on_empty by (auto simp: proper_close_def)
    moreover have "g \<longrightarrow> the (map_of GAP_FILL_FROM sy) \<le> ?d" using p slug_of_gap [OF j(3)] by (simp add: proper_close_def)
    ultimately have "dict_get [] (existing_by_day table sy (hr_day (jd_bar (hd items))) (hr_day (jd_bar (last items)))) ?d = []"
      and "g \<longrightarrow> the (map_of GAP_FILL_FROM sy) \<le> ?d" by (simp_all only: at1)
    from fate_suspect_of_empty [OF sus [unfolded fate_in_def] this] have "bar_fate_of env sy g rc now
        (existing_by_day table sy (hr_day (jd_bar (hd items))) (hr_day (jd_bar (last items)))) y = HeldSuspect v m" .
    then show ?thesis using like(2) unfolding fate_in_def by blast
  qed
qed

lemma second_prices:
  assumes "judge_bars bars = Inr items" "judge_bars bars2 = Inr items2" "like_before items items2" "slug_of sy = Inr (slug, g)"
    and "insert_prices (List.map_filter (price_of_fate sy cur u now) (plan env sy g rc now items table)) table = Inr (table', n)"
  shows "List.map_filter (price_of_fate sy cur u now') (plan env sy g rc now items2 table') = []"
proof -
  have "price_of_fate sy cur u now' z = None" if z: "z \<in> set (plan env sy g rc now items2 table')" for z
  proof -
    obtain y where y: "y \<in> set items2" "z = (y, fate_in env sy g rc now items2 table' y)" using z by (auto simp: plan_fates)
    then obtain x where "x \<in> set items" "jd_bar x = jd_bar y" "jd_verdict x = jd_verdict y" using assms(3) by (auto simp: like_before_def)
    from second_plan(1) [OF assms(1,2,4) refl assms(5) y(1) this] show ?thesis
      by (auto simp: price_of_fate_def y(2) split: bar_fate.splits)
  qed
  then show ?thesis by (simp add: List.map_filter_def filter_empty_conv)
qed

text \<open>An audit row is identified by the day and the close of its bar.\<close>

lemma second_raws:
  assumes "judge_bars bars = Inr items" "judge_bars bars2 = Inr items2" "like_before items items2" "slug_of sy = Inr (slug, g)"
    and "insert_prices (List.map_filter (price_of_fate sy cur u now) (plan env sy g rc now items table)) table = Inr (table', n)"
    and "r \<in> set (List.map_filter (raw_of_fate env sy s cur ru rc now) (plan env sy g rc now items2 table'))"
  shows "r_dedupe r \<in> r_dedupe ` set (List.map_filter (raw_of_fate env sy s cur ru rc now) (plan env sy g rc now items table))"
proof -
  obtain y where y: "y \<in> set items2" "raw_of_fate env sy s cur ru rc now (y, fate_in env sy g rc now items2 table' y) = Some r"
    using assms(6) by (auto simp: List.map_filter_def plan_fates)
  then obtain x where x: "x \<in> set items" "jd_bar x = jd_bar y" "jd_verdict x = jd_verdict y" using assms(3) by (auto simp: like_before_def)
  note second = second_plan [OF assms(1,2,4) refl assms(5) y(1) x]
  obtain v m where f: "fate_in env sy g rc now items2 table' y = HeldSuspect v m"
    using y(2) second(1) by (cases "fate_in env sy g rc now items2 table' y") (auto simp: raw_of_fate_def Let_def)
  then obtain m' where "fate_in env sy g rc now items table x = HeldSuspect v m'" using second(2) by blast
  moreover have "\<exists>q. raw_of_fate env sy s cur ru rc now (x, HeldSuspect v m') = Some q \<and> r_dedupe q = r_dedupe r"
    using y(2) x(2) by (auto simp: f raw_of_fate_def daily_raw_row_def Let_def)
  ultimately obtain q where q: "raw_of_fate env sy s cur ru rc now (x, fate_in env sy g rc now items table x) = Some q"
    "r_dedupe q = r_dedupe r" by auto
  then have "q \<in> set (List.map_filter (raw_of_fate env sy s cur ru rc now) (plan env sy g rc now items table))"
    using x(1) unfolding List.map_filter_def plan_fates by force
  then show ?thesis using q(2) by (metis imageI)
qed

subsection \<open>The newest rows of the same table\<close>

definition by_day :: "history_page \<Rightarrow> history_row list" where
  "by_day page = sort_key hr_day (hp_bars page)"

text \<open>The verdict on the bar at a position, among the bars of its own page.\<close>

definition verdict_at :: "history_page \<Rightarrow> nat \<Rightarrow> bar_verdict res" where
  "verdict_at page i = map_res jd_verdict (judge_bar (map hr_close (by_day page)) i (by_day page ! i))"

text \<open>The recent request answers with the newest rows of the whole table, from position \<open>k\<close> on, and the
  oldest of them are judged there as in the whole table.\<close>

definition newest_rows :: "nat \<Rightarrow> history_page \<Rightarrow> history_page \<Rightarrow> bool" where
  "newest_rows k recent whole \<longleftrightarrow> by_day recent = drop k (by_day whole) \<and> hp_bars recent \<noteq> [] \<and>
     fst ` set (hp_rows recent) \<subseteq> fst ` set (hp_rows whole) \<and>
     (\<forall>i < NEIGHBOURS_EACH_SIDE. i < length (hp_bars recent) \<longrightarrow> verdict_at recent i = verdict_at whole (k + i))"

text \<open>Beyond the oldest seven a bar has the same neighbours in both pages.\<close>

lemma around_drop: "NEIGHBOURS_EACH_SIDE \<le> i \<Longrightarrow> around (drop k xs) i = around xs (k + i)"
proof -
  assume "NEIGHBOURS_EACH_SIDE \<le> i"
  then have "drop (i - NEIGHBOURS_EACH_SIDE) (take i (drop k xs)) = drop (k + i - NEIGHBOURS_EACH_SIDE) (take (k + i) xs)"
    by (simp add: take_drop add.commute)
  then show ?thesis by (simp add: around_def add.commute)
qed

lemma verdict_kept:
  assumes "newest_rows k recent whole" and "i < length (hp_bars recent)"
  shows "verdict_at recent i = verdict_at whole (k + i)"
proof (cases "i < NEIGHBOURS_EACH_SIDE")
  case True
  then show ?thesis using assms by (simp add: newest_rows_def)
next
  case False
  have d: "by_day recent = drop k (by_day whole)" using assms(1) by (simp add: newest_rows_def)
  have "length (by_day recent) = length (hp_bars recent)" by (simp add: by_day_def)
  then have "k + i \<le> length (by_day whole)" using assms(2) d by simp
  then have b: "by_day recent ! i = by_day whole ! (k + i)" by (simp add: d)
  have "around (map hr_close (by_day recent)) i = around (map hr_close (by_day whole)) (k + i)"
    using around_drop [of i k "map hr_close (by_day whole)"] False by (simp add: d drop_map)
  then show ?thesis by (simp add: verdict_at_def judge_bar_def b Let_def)
qed

lemma judge_bars_nth:
  "judge_bars (hp_bars page) = Inr items \<longleftrightarrow> length items = length (hp_bars page) \<and>
    (\<forall>i < length items. judge_bar (map hr_close (by_day page)) i (by_day page ! i) = Inr (items ! i))"
proof -
  have "mapM (\<lambda>(i, bar). judge_bar closes i bar) (enumerate n bars) = Inr items \<longleftrightarrow> length items = length bars \<and>
      (\<forall>i < length items. judge_bar closes (n + i) (bars ! i) = Inr (items ! i))" for closes n bars
    by (auto simp: mapM_eq_Inr list_all2_conv_all_nth nth_enumerate_eq)
  from this [of "map hr_close (by_day page)" 0 "by_day page"] show ?thesis
    by (simp add: judge_bars_def by_day_def Let_def)
qed

lemma newest_judged_alike:
  assumes "newest_rows k recent whole" and "judge_bars (hp_bars whole) = Inr items"
  obtains items2 where "judge_bars (hp_bars recent) = Inr items2" "like_before items items2"
proof -
  have d: "by_day recent = drop k (by_day whole)" using assms(1) by (simp add: newest_rows_def)
  have w: "length items = length (by_day whole)" "\<And>i. i < length items \<Longrightarrow>
      judge_bar (map hr_close (by_day whole)) i (by_day whole ! i) = Inr (items ! i)"
    using assms(2) unfolding judge_bars_nth by (simp_all add: by_day_def)
  have len: "length (by_day recent) = length (hp_bars recent)" by (simp add: by_day_def)
  have inside: "k + i < length items" if "i < length (hp_bars recent)" for i using that d w(1) len by simp
  have ok: "\<exists>y. judge_bar (map hr_close (by_day recent)) i (by_day recent ! i) = Inr y \<and> jd_verdict y = jd_verdict (items ! (k + i))"
    if i: "i < length (hp_bars recent)" for i
  proof -
    have "map_res jd_verdict (judge_bar (map hr_close (by_day recent)) i (by_day recent ! i)) = Inr (jd_verdict (items ! (k + i)))"
      using verdict_kept [OF assms(1) i] w(2) [OF inside [OF i]] by (simp add: verdict_at_def)
    then show ?thesis by (auto simp: map_res_eq_Inr)
  qed
  then obtain y where y: "\<And>i. i < length (hp_bars recent) \<Longrightarrow>
      judge_bar (map hr_close (by_day recent)) i (by_day recent ! i) = Inr (y i) \<and> jd_verdict (y i) = jd_verdict (items ! (k + i))" by metis
  let ?items2 = "map y [0..<length (hp_bars recent)]"
  have "judge_bars (hp_bars recent) = Inr ?items2" unfolding judge_bars_nth using y by simp
  moreover have "like_before items ?items2"
    unfolding like_before_def
  proof
    fix z assume "z \<in> set ?items2"
    then obtain i where i: "i < length (hp_bars recent)" "z = y i" by auto
    have "jd_bar (items ! (k + i)) = by_day whole ! (k + i)" using judge_bar_bar [OF w(2) [OF inside [OF i(1)]]] .
    moreover have "jd_bar z = by_day recent ! i" using judge_bar_bar y [OF i(1)] i(2) by blast
    moreover have "by_day recent ! i = by_day whole ! (k + i)" using d inside [OF i(1)] w(1) by simp
    ultimately show "\<exists>x \<in> set items. jd_bar x = jd_bar z \<and> jd_verdict x = jd_verdict z"
      using y [OF i(1)] i inside [OF i(1)] by (intro bexI [of _ "items ! (k + i)"]) auto
  qed
  ultimately show thesis by (rule that)
qed

lemma like_before_refl: "like_before items items"
  by (auto simp: like_before_def)

text \<open>What the second pass reads, and that it finds it in order.\<close>

lemma fetch_again:
  assumes "fetch_bars env db sy slug = Inr (page, full)" and "page_refused page full now = None"
    and "judge_bars (hp_bars page) = Inr items"
    and source: "\<exists>k recent whole. de_fetch env slug True = Inr whole \<and> de_fetch env slug False = Inr recent \<and> newest_rows k recent whole"
    and "set (td_prices db) \<subseteq> set (td_prices db')" and "map_of (td_register db') sy = Some e"
    and "re_full_pass e = (if full \<noteq> None then Some now else case map_of (td_register db) sy of None \<Rightarrow> None | Some e \<Rightarrow> re_full_pass e)"
    and "re_newest e = (case map_of (td_register db) sy of None \<Rightarrow> hr_day (jd_bar (last items)) | Some e \<Rightarrow> max (hr_day (jd_bar (last items))) (re_newest e))"
  obtains page2 full2 items2 where "fetch_bars env db' sy slug = Inr (page2, full2)" "page_refused page2 full2 now = None"
    "judge_bars (hp_bars page2) = Inr items2" "like_before items items2"
proof -
  obtain k recent whole where w: "de_fetch env slug True = Inr whole" "de_fetch env slug False = Inr recent" "newest_rows k recent whole"
    using source by blast
  show thesis
  proof (cases full)
    case None
    have f: "full_before db sy = None" "unread_between db sy recent = None" "page = recent"
      using assms(1) None w by (auto simp: fetch_bars_def split: option.splits sum.splits)
    then obtain e0 where e0: "has_history_rows (td_prices db) sy" "map_of (td_register db) sy = Some e0" "re_full_pass e0 \<noteq> None"
      by (auto simp: full_before_def split: if_splits option.splits)
    have "has_history_rows (td_prices db') sy" using e0(1) assms(5) by (auto simp: has_history_rows_def)
    moreover have "re_full_pass e \<noteq> None" "re_newest e0 \<le> re_newest e" using assms(7,8) e0 None by simp_all
    ultimately have "full_before db' sy = None" "unread_between db' sy recent = None"
      using f(2) e0(2) assms(6) by (auto simp: full_before_def unread_between_def Let_def split: if_splits) (meson le_less_trans)
    then have "fetch_bars env db' sy slug = Inr (page, None)" using w f(3) by (simp add: fetch_bars_def)
    then show thesis using that assms(2,3) like_before_refl None by blast
  next
    case (Some why)
    have page: "page = whole" using assms(1) Some w by (auto simp: fetch_bars_def split: option.splits sum.splits)
    show thesis
    proof (cases "fetch_bars env db' sy slug = Inr (recent, None)")
      case True
      obtain items2 where j: "judge_bars (hp_bars recent) = Inr items2" "like_before items items2"
        using newest_judged_alike [OF w(3)] assms(3) page by blast
      have "filter (\<lambda>d. d < low \<or> high < d) (map fst (hp_rows recent)) = []"
        if "filter (\<lambda>d. d < low \<or> high < d) (map fst (hp_rows whole)) = []" for low high
        using that w(3) unfolding newest_rows_def filter_empty_conv set_map by blast
      then have "page_refused recent None now = None"
        using assms(2) w(3) page by (auto simp: page_refused_def bar_date_error_def newest_rows_def Let_def split: if_splits prod.splits)
      then show thesis using that True j by blast
    next
      case False
      then obtain why2 where "fetch_bars env db' sy slug = Inr (whole, Some why2)"
        using w by (auto simp: fetch_bars_def split: option.splits)
      moreover have "page_refused whole (Some why2) now = None" using assms(2) page Some by (auto simp: page_refused_def Let_def split: if_splits)
      ultimately show thesis using that assms(3) page like_before_refl by blast
    qed
  qed
qed

text \<open>C24: Running the job again is safe. Over an unchanged table of the source, of which the recent request
  answers with the newest rows, a second pass at the same instant after one that ended normally, whether
  it reads the whole table or the recent rows after a whole one, ends normally, stores no price and no
  audit row, and leaves the notes as they are. The verdict on the seven oldest of the recent rows must be
  that of the whole table; that of every later row then is, since it has the same neighbours.\<close>

theorem second_daily_pass_silent:
  assumes "ingest_symbol env False now sy db = Inr (r, db')" and "dr_status r = DailyOk"
    and source: "\<forall>slug g. slug_of sy = Inr (slug, g) \<longrightarrow> (\<exists>k recent whole. de_fetch env slug True = Inr whole \<and>
      de_fetch env slug False = Inr recent \<and> newest_rows k recent whole)"
  shows "\<exists>r2 db2. ingest_symbol env False now sy db' = Inr (r2, db2) \<and> dr_status r2 = DailyOk \<and> dr_inserted r2 = 0 \<and>
    td_prices db2 = td_prices db' \<and> td_raw db2 = td_raw db' \<and> td_notes db2 = td_notes db'"
  using assms(1)
proof (cases rule: ingest_symbol_cases)
  case idle
  then show ?thesis using assms(2) by simp
next
  case (reached slug gap_fill meta raw_meta page full items)
  note f = reached [unfolded reaches_def]
  let ?prices = "\<lambda>items t. List.map_filter (price_of_fate sy (fst meta) (snd meta) now) (plan env sy gap_fill (snd raw_meta) now items t)"
  let ?raws = "\<lambda>items t. List.map_filter (raw_of_fate env sy slug (fst meta) (fst raw_meta) (snd raw_meta) now) (plan env sy gap_fill (snd raw_meta) now items t)"
  have "page_commit env now sy db slug gap_fill meta raw_meta page full items = Inr (r, db')"
    using ingest_reached [OF reached] assms(1) f by (simp add: ingest_page_reached)
  then obtain n m e where c: "insert_prices (?prices items (td_prices db)) (td_prices db) = Inr (td_prices db', n)"
    "insert_raws (?raws items (td_prices db)) (td_raw db) = (td_raw db', m)" "td_register db' = dict_set sy e (td_register db)"
    "re_full_pass e = (if full \<noteq> None then Some now else case map_of (td_register db) sy of None \<Rightarrow> None | Some e \<Rightarrow> re_full_pass e)"
    "re_newest e = (case map_of (td_register db) sy of None \<Rightarrow> hr_day (jd_bar (last items)) | Some e \<Rightarrow> max (hr_day (jd_bar (last items))) (re_newest e))"
    unfolding page_commit_def Let_def by (rule commit_symbol_result) blast
  have j: "judge_bars (hp_bars page) = Inr items" "slug_of sy = Inr (slug, gap_fill)" "fetch_bars env db sy slug = Inr (page, full)"
    "page_refused page full now = None" using f by simp_all
  have kept: "set (td_prices db) \<subseteq> set (td_prices db')" "map_of (td_register db') sy = Some e"
    using insert_prices_result [OF c(1)] c(3) by (auto simp: dict_set_get)
  obtain page2 full2 items2 where second: "fetch_bars env db' sy slug = Inr (page2, full2)" "page_refused page2 full2 now = None"
    "judge_bars (hp_bars page2) = Inr items2" "like_before items items2"
    using fetch_again [OF j(3,4,1) source [rule_format, OF j(2)] kept c(4,5)] .
  have again: "reaches env False now sy db' slug gap_fill meta raw_meta page2 full2 items2"
    using f second(1-3) by (simp add: reaches_def)
  have no_price: "?prices items2 (td_prices db') = []" by (rule second_prices [OF j(1) second(3,4) j(2) c(1)])
  have "\<forall>r \<in> set (?raws items2 (td_prices db')). r_dedupe r \<in> r_dedupe ` set (td_raw db')"
  proof
    fix r assume "r \<in> set (?raws items2 (td_prices db'))"
    then have "r_dedupe r \<in> r_dedupe ` set (?raws items (td_prices db))" by (rule second_raws [OF j(1) second(3,4) j(2) c(1)])
    then show "r_dedupe r \<in> r_dedupe ` set (td_raw db')" using insert_raws_result [OF c(2)] by fastforce
  qed
  then have no_raw: "insert_raws (?raws items2 (td_prices db')) (td_raw db') = (td_raw db', 0)" by (rule insert_raws_known)
  obtain r2 db2 where two: "page_commit env now sy db' slug gap_fill meta raw_meta page2 full2 items2 = Inr (r2, db2)"
    unfolding page_commit_def commit_symbol_def no_price no_raw Let_def by (auto split: prod.splits option.splits bool.splits)
  then obtain n' m' where "insert_prices (?prices items2 (td_prices db')) (td_prices db') = Inr (td_prices db2, n')"
    "insert_raws (?raws items2 (td_prices db')) (td_raw db') = (td_raw db2, m')" "dr_inserted r2 = n'" "dr_status r2 = DailyOk"
    "n' = 0 \<longrightarrow> td_notes db2 = td_notes db'"
    unfolding page_commit_def Let_def by (rule commit_symbol_result) blast
  moreover have "ingest_symbol env False now sy db' = Inr (r2, db2)"
    using ingest_reached [OF again] two f again [unfolded reaches_def] by (simp add: ingest_page_reached)
  ultimately show ?thesis using no_price no_raw by auto
qed

text \<open>A whole table of six bars; the recent request answers with the newest five.\<close>

definition six_history :: history_page where
  "six_history = \<lparr>hp_rows = map (\<lambda>d. (d, Fin 1000)) [740000..740005], hp_returned = 6, hp_total = Some 6,
     hp_bars = map (\<lambda>d. \<lparr>hr_day = d, hr_close = Fin 1000, hr_text = ''1,000'', hr_jalali = []\<rparr>) [740000..740005]\<rparr>"

definition six_daily :: daily_env where
  "six_daily = demo_daily\<lparr>de_fetch := (\<lambda>_ whole. Inr (if whole then six_history else demo_history))\<rparr>"

definition six_items :: "judged list" where
  "six_items = map (\<lambda>b. \<lparr>jd_bar = b, jd_verdict = BarOk, jd_median = Some (Fin 1000), jd_neighbours = 5\<rparr>) (hp_bars six_history)"

lemma six_judge:
  assumes "hr_close b = Fin 1000" and "around closes i = [Fin 1000, Fin 1000, Fin 1000, Fin 1000, Fin 1000]"
  shows "judge_bar closes i b = Inr \<lparr>jd_bar = b, jd_verdict = BarOk, jd_median = Some (Fin 1000), jd_neighbours = 5\<rparr>"
proof -
  have "median [Fin 1000, Fin 1000, Fin 1000, Fin 1000, Fin 1000] = Inr (Fin 1000)" "\<not> flt SUSPECT_RATIO (Fin 1)" by code_simp+
  then show ?thesis using assms by (simp add: judge_bar_def MIN_JUDGED_NEIGHBOURS_def off_ratio_def fdiv_def fmax_def)
qed

lemma six_judged: "judge_bars (hp_bars six_history) = Inr six_items"
proof -
  let ?c = "Fin 1000"
  have days: "[740000..740005] = [740000, 740001, 740002, 740003, 740004, 740005 :: int]" by (simp add: upto.simps)
  have "around [?c, ?c, ?c, ?c, ?c, ?c] 0 = [?c, ?c, ?c, ?c, ?c]" "around [?c, ?c, ?c, ?c, ?c, ?c] (Suc 0) = [?c, ?c, ?c, ?c, ?c]"
    "around [?c, ?c, ?c, ?c, ?c, ?c] (Suc (Suc 0)) = [?c, ?c, ?c, ?c, ?c]" "around [?c, ?c, ?c, ?c, ?c, ?c] (Suc (Suc (Suc 0))) = [?c, ?c, ?c, ?c, ?c]"
    "around [?c, ?c, ?c, ?c, ?c, ?c] (Suc (Suc (Suc (Suc 0)))) = [?c, ?c, ?c, ?c, ?c]"
    "around [?c, ?c, ?c, ?c, ?c, ?c] (Suc (Suc (Suc (Suc (Suc 0))))) = [?c, ?c, ?c, ?c, ?c]"
    by (simp_all add: around_def NEIGHBOURS_EACH_SIDE_def eval_nat_numeral)
  then show ?thesis by (simp add: judge_bars_def six_history_def six_items_def days six_judge Let_def)
qed

lemma six_run:
  obtains r db where "ingest_symbol six_daily False (combine 740005 0) ''IR_COIN_HALF'' demo_daily_db = Inr (r, db)"
    "dr_status r = DailyOk" "length (td_prices db) = 5"
proof -
  let ?now = "combine 740005 0" and ?sy = "''IR_COIN_HALF''" and ?m = "(''IRT'', ''coin'')" and ?raw = "(''IRR/coin'', ''IRR'')"
  have r: "reaches six_daily False ?now ?sy demo_daily_db ''nim'' False ?m ?raw six_history (Some NoRowYet) six_items"
  proof -
    have "page_refused six_history (Some NoRowYet) ?now = None" by code_simp
    moreover have "fetch_bars six_daily demo_daily_db ?sy ''nim'' = Inr (six_history, Some NoRowYet)"
      by (simp add: fetch_bars_def full_before_def has_history_rows_def six_daily_def demo_daily_db_def)
    ultimately show ?thesis using demo_reaches six_judged by (simp add: reaches_def)
  qed
  have "map_res (\<lambda>(r, db). (dr_status r, length (td_prices db)))
     (page_commit six_daily ?now ?sy demo_daily_db ''nim'' False ?m ?raw six_history (Some NoRowYet) six_items) = Inr (DailyOk, 5)" by code_simp
  moreover have "ingest_symbol six_daily False ?now ?sy demo_daily_db =
      page_commit six_daily ?now ?sy demo_daily_db ''nim'' False ?m ?raw six_history (Some NoRowYet) six_items"
    using ingest_reached [OF r] r by (simp add: reaches_def ingest_page_reached)
  ultimately show ?thesis using that by (auto simp: map_res_eq_Inr)
qed

lemma verdict_of: "judge_bars (hp_bars page) = Inr items \<Longrightarrow> i < length items \<Longrightarrow> verdict_at page i = Inr (jd_verdict (items ! i))"
  unfolding judge_bars_nth by (simp add: verdict_at_def)

lemma six_newest: "newest_rows 1 demo_history six_history"
proof -
  have days: "[740000..740005] = 740000 # [740001..740005 :: int]" by (simp add: upto.simps)
  have "by_day demo_history = drop 1 (by_day six_history)"
    by (simp add: by_day_def demo_history_def six_history_def upto.simps)
  moreover have "verdict_at demo_history i = verdict_at six_history (1 + i)" if "i < length (hp_bars demo_history)" for i
  proof -
    have n: "length demo_items = 5" "length six_items = 6" "length (hp_bars demo_history) = 5"
      by (simp_all add: demo_items_def six_items_def demo_history_def six_history_def)
    have "\<forall>x \<in> set demo_items. jd_verdict x = BarOk" "\<forall>x \<in> set six_items. jd_verdict x = BarOk"
      by (auto simp: demo_items_def six_items_def)
    then have "jd_verdict (demo_items ! i) = BarOk" "jd_verdict (six_items ! (1 + i)) = BarOk" using n that by simp_all
    then show ?thesis using verdict_of [OF demo_judged, of i] verdict_of [OF six_judged, of "1 + i"] n that by simp
  qed
  moreover have "hp_bars demo_history \<noteq> []" "fst ` set (hp_rows demo_history) \<subseteq> fst ` set (hp_rows six_history)"
    by (auto simp: demo_history_def six_history_def)
  ultimately show ?thesis by (simp add: newest_rows_def)
qed

lemma second_daily_pass_silent_witness:
  "case ingest_symbol six_daily False (combine 740005 0) ''IR_COIN_HALF'' demo_daily_db of Inl _ \<Rightarrow> False
   | Inr (r, db) \<Rightarrow> length (td_prices db) = 5 \<and> (\<exists>r2 db2. ingest_symbol six_daily False (combine 740005 0) ''IR_COIN_HALF'' db = Inr (r2, db2) \<and>
      dr_status r2 = DailyOk \<and> td_prices db2 = td_prices db)"
proof -
  obtain r db where run: "ingest_symbol six_daily False (combine 740005 0) ''IR_COIN_HALF'' demo_daily_db = Inr (r, db)"
    "dr_status r = DailyOk" "length (td_prices db) = 5" by (rule six_run)
  have "\<forall>slug g. slug_of ''IR_COIN_HALF'' = Inr (slug, g) \<longrightarrow> (\<exists>k recent whole. de_fetch six_daily slug True = Inr whole \<and>
      de_fetch six_daily slug False = Inr recent \<and> newest_rows k recent whole)"
    using six_newest by (auto simp: six_daily_def)
  from second_daily_pass_silent [OF run(1,2) this] show ?thesis unfolding run(1) using run(3) by auto
qed

end
