(* ===== verification/Tgju_Backfill_Props.thy ===== *)
theory Tgju_Backfill_Props
  imports Tgju_Backfill Tgju_Daily_Props
begin

text \<open>
  What the deep history guarantees: it only extends a series backwards, whole or not at all; no break of scale
  or convention hides inside it or at the join, over rounded arithmetic and an inexact library; a repeated
  run writes nothing.
\<close>

section \<open>The eligible bars\<close>

definition eligible :: "int \<Rightarrow> int \<times> pyfloat \<Rightarrow> bool" where
  "eligible cutoff x \<longleftrightarrow> flt (Fin 0) (snd x) \<and> fst x < wall_ordinal cutoff"

definition bar_of :: "string \<Rightarrow> int \<Rightarrow> (int \<times> pyfloat) list \<Rightarrow> kept_bar \<Rightarrow> bool" where
  "bar_of currency cutoff pairs b \<longleftrightarrow> (\<exists>x \<in> set pairs. eligible cutoff x \<and> b = (fst x, snd x, normalize_history_value currency (snd x)))"

lemma keep_bar_fold:
  assumes "foldl (keep_bar currency cutoff) (kept, sk) pairs = (kept', sk')" and "distinct (map fst kept)"
  shows "distinct (map fst kept') \<and> set kept \<subseteq> set kept' \<and> (\<forall>b \<in> set kept'. b \<in> set kept \<or> bar_of currency cutoff pairs b) \<and>
    (\<forall>x \<in> set pairs. eligible cutoff x \<longrightarrow> fst x \<in> fst ` set kept')"
  using assms
proof (induction pairs arbitrary: kept sk)
  case (Cons x pairs)
  obtain day raw where x: "x = (day, raw)" by fastforce
  have mono: "bar_of currency cutoff pairs b \<Longrightarrow> bar_of currency cutoff (x # pairs) b" for b by (auto simp: bar_of_def)
  show ?case
  proof (cases "eligible cutoff x \<and> day \<notin> fst ` set kept")
    case True
    then have "keep_bar currency cutoff (kept, sk) x = (kept @ [(day, raw, normalize_history_value currency raw)], sk)"
      by (simp add: keep_bar_def x eligible_def not_le)
    with Cons.prems True have f: "foldl (keep_bar currency cutoff) (kept @ [(day, raw, normalize_history_value currency raw)], sk) pairs = (kept', sk')"
      "distinct (map fst (kept @ [(day, raw, normalize_history_value currency raw)]))" by (simp_all add: x)
    have "bar_of currency cutoff (x # pairs) (day, raw, normalize_history_value currency raw)" using True by (auto simp: bar_of_def x)
    moreover have "day \<in> fst ` set kept'" using Cons.IH [OF f] by force
    ultimately show ?thesis using Cons.IH [OF f] mono by (simp add: x) metis
  next
    case False
    then have "\<exists>sk1. keep_bar currency cutoff (kept, sk) x = (kept, sk1)"
      by (simp add: keep_bar_def x eligible_def not_less) blast
    then obtain sk1 where "keep_bar currency cutoff (kept, sk) x = (kept, sk1)" ..
    with Cons.prems have f: "foldl (keep_bar currency cutoff) (kept, sk1) pairs = (kept', sk')" by simp
    have "eligible cutoff x \<Longrightarrow> fst x \<in> fst ` set kept'" using False Cons.IH [OF f Cons.prems(2)] by (auto simp: x)
    then show ?thesis using Cons.IH [OF f Cons.prems(2)] mono by auto
  qed
qed simp

lemma rows_to_write_kept:
  assumes "rows_to_write currency pairs cutoff = (kept, sk)"
  shows "sorted_wrt (<) (map fst kept)" and "b \<in> set kept \<Longrightarrow> bar_of currency cutoff pairs b"
    and "x \<in> set pairs \<Longrightarrow> eligible cutoff x \<Longrightarrow> fst x \<in> fst ` set kept"
proof -
  obtain ks where k: "foldl (keep_bar currency cutoff) ([], \<lparr>sk_after = 0, sk_non_positive = 0, sk_duplicate = 0\<rparr>) pairs = (ks, sk)"
    "kept = sort_key fst ks"
    using assms by (auto simp: rows_to_write_def Let_def split: prod.splits)
  note f = keep_bar_fold [OF k(1)]
  have "distinct (map fst kept)" using f by (simp add: k(2) distinct_map)
  moreover have "sorted (map fst kept)" by (simp add: k(2))
  ultimately show "sorted_wrt (<) (map fst kept)" by (simp add: strict_sorted_iff)
  show "b \<in> set kept \<Longrightarrow> bar_of currency cutoff pairs b" using f by (auto simp: k(2))
  show "x \<in> set pairs \<Longrightarrow> eligible cutoff x \<Longrightarrow> fst x \<in> fst ` set kept" using f by (auto simp: k(2))
qed

section \<open>The anchor\<close>

lemma sort_head:
  assumes "sort_key f xs = x # ys"
  shows "x \<in> set xs" and "y \<in> set xs \<Longrightarrow> f x \<le> f y"
proof -
  have s: "set (sort_key f xs) = set xs" by simp
  then show "x \<in> set xs" using assms by (metis list.set_intros(1))
  have "sorted (map f (x # ys))" by (metis assms sorted_sort_key)
  then have "\<forall>y \<in> set (x # ys). f x \<le> f y" by auto
  then show "y \<in> set xs \<Longrightarrow> f x \<le> f y" using s assms by metis
qed

lemma live_anchor_cutoff:
  assumes "live_anchor table sy ignored = Some anchor"
  shows "\<exists>q \<in> set table. p_symbol q = sy \<and> p_observed_at q = an_cutoff anchor"
    and "q \<in> set table \<Longrightarrow> p_symbol q = sy \<Longrightarrow> an_cutoff anchor \<le> p_observed_at q"
proof -
  obtain x ys where x: "sort_key p_observed_at (filter (\<lambda>r. p_symbol r = sy) table) = x # ys" "an_cutoff anchor = p_observed_at x"
    using assms by (auto simp: live_anchor_def Let_def split: list.splits)
  show "\<exists>q \<in> set table. p_symbol q = sy \<and> p_observed_at q = an_cutoff anchor" using sort_head(1) [OF x(1)] x(2) by auto
  show "q \<in> set table \<Longrightarrow> p_symbol q = sy \<Longrightarrow> an_cutoff anchor \<le> p_observed_at q" using sort_head(2) [OF x(1), of q] x(2) by simp
qed

lemma live_anchor_reference:
  assumes "live_anchor table sy ignored = Some anchor" and "an_reference anchor = Some (t, v, s)"
  shows "\<exists>q \<in> set table. trusted_row ignored sy q \<and> p_observed_at q = t \<and> p_value q = v \<and>
    (\<forall>q' \<in> set table. trusted_row ignored sy q' \<longrightarrow> t \<le> p_observed_at q')"
proof -
  obtain x ys where x: "sort_key p_observed_at (filter (trusted_row ignored sy) table) = x # ys" "t = p_observed_at x" "v = p_value x"
    using assms by (auto simp: live_anchor_def Let_def split: list.splits)
  show ?thesis using sort_head(1) [OF x(1)] sort_head(2) [OF x(1)] x(2,3) by (intro bexI [of _ x]) auto
qed

section \<open>A run\<close>

text \<open>What a run that wrote has established.\<close>

definition written ::
  "backfill_env \<Rightarrow> int \<Rightarrow> string list \<Rightarrow> string \<Rightarrow> backfill_db \<Rightarrow> live_anchor \<Rightarrow> int \<times> pyfloat \<times> string \<Rightarrow> history_page \<Rightarrow> kept_bar list \<Rightarrow>
    coherence \<Rightarrow> join_report \<Rightarrow> bool" where
  "written env now ignored sy db anchor reference page kept co join \<longleftrightarrow>
     live_anchor (bd_prices db) sy ignored = Some anchor \<and> an_reference anchor = Some reference \<and>
     (\<exists>slug. map_of BACKFILL_SLUGS sy = Some slug \<and> be_fetch env slug = Inr page) \<and>
     bar_date_error (hp_rows page) (bar_date_window now) = [] \<and>
     (\<exists>sk. rows_to_write ''IRR'' (hp_rows page) (an_cutoff anchor) = (kept, sk)) \<and> kept \<noteq> [] \<and>
     flt (Fin 0) (snd (snd (last kept))) \<and> span_breaks (be_math env) kept = Inr co \<and> co_ok co \<and>
     check_join (fst (last kept)) (snd (snd (last kept))) (fst reference) (fst (snd reference)) = Inr join \<and> jn_ok join"

lemma backfill_slug_currency:
  "map_of BACKFILL_SLUGS sy = Some slug \<Longrightarrow> map_of SLUG_MAP slug = Some (c, ru, rc) \<Longrightarrow> rc = ''IRR''"
  by (auto simp: BACKFILL_SLUGS_def SLUG_MAP_def split: if_splits)

lemma commit_backfill_prices:
  assumes "commit_backfill env now sy slug meta raw_meta kept sp report db = Inr (r, db')"
  obtains n where "insert_prices (map (backfill_price sy meta now) kept) (bd_prices db) = Inr (bd_prices db', n)" "br_inserted r = n"
    "br_status r = BackfillOk" "br_would_insert r = br_would_insert report"
proof -
  obtain prices n where p: "insert_prices (map (backfill_price sy meta now) kept) (bd_prices db) = Inr (prices, n)"
    using assms by (auto simp: commit_backfill_def map_res_eq_Inr)
  obtain raws m where q: "insert_raws (map (backfill_raw env sy slug (fst meta) (fst raw_meta) (snd raw_meta) now) kept) (bd_raw db) = (raws, m)"
    by force
  obtain db1 noted where w: "write_splice_record sp (db\<lparr>bd_prices := prices, bd_raw := raws\<rparr>) = (db1, noted)" by force
  then have d: "bd_prices db1 = prices" by (auto simp: write_splice_record_def Let_def split: option.splits)
  have "db' = db1" "r = report\<lparr>br_status := BackfillOk, br_inserted := n, br_raw_inserted := m, br_splice := Some (sp, True, noted)\<rparr>"
    using assms by (simp_all add: commit_backfill_def p q w)
  then show ?thesis using that [of n] p d by simp
qed

lemma fle_or_positive: "\<not> fle a (Fin 0) \<Longrightarrow> a = NaN \<or> flt (Fin 0) a"
  using fle_or_flt [of a "Fin 0"] by auto

lemma normalized_not_NaN: "flt (Fin 0) a \<Longrightarrow> normalize_history_value ''IRR'' a \<noteq> NaN"
  by (cases a) (auto simp: normalize_history_value_def rial_to_toman_def lit_def)

lemma backfill_kept_cases:
  assumes "backfill_kept env dry_run now sy slug meta raw_meta anchor reference kept report db = Inr (r, db')" and "br_inserted report = 0"
  obtains (idle) "db' = db" "br_inserted r = 0" "br_status r \<noteq> BackfillOk"
  | (wrote) co join n where "\<not> fle (snd (snd (last kept))) (Fin 0)" "span_breaks (be_math env) kept = Inr co" "co_ok co"
      "check_join (fst (last kept)) (snd (snd (last kept))) (fst reference) (snd reference) = Inr join" "jn_ok join"
      "insert_prices (map (backfill_price sy meta now) kept) (bd_prices db) = Inr (bd_prices db', n)" "br_inserted r = n"
      "br_status r = BackfillOk" "br_would_insert r = int (length kept)" "\<not> dry_run"
proof -
  let ?last = "snd (snd (last kept))"
  note run = assms(1) [unfolded backfill_kept_def Let_def]
  show ?thesis
  proof (cases "fle ?last (Fin 0)")
    case True
    then show ?thesis using run idle assms(2) by auto
  next
    case pos: False
    then obtain co where co: "span_breaks (be_math env) kept = Inr co" using run by (auto simp: bind_res_eq_Inr)
    show ?thesis
    proof (cases "co_ok co")
      case False
      then show ?thesis using run pos co idle assms(2) by auto
    next
      case ok: True
      then obtain join where join: "check_join (fst (last kept)) ?last (fst reference) (snd reference) = Inr join"
        using run pos co by (auto simp: bind_res_eq_Inr)
      show ?thesis
      proof (cases "jn_ok join \<and> \<not> dry_run")
        case False
        then show ?thesis using run pos co ok join idle assms(2) by (auto simp: bind_res_eq_Inr split: if_splits)
      next
        case True
        then obtain sp where "commit_backfill env now sy slug meta raw_meta kept sp (report\<lparr>br_coherence := Some co, br_join := Some join,
            br_would_insert := int (length kept), br_splice := Some (sp, False, False)\<rparr>) db = Inr (r, db')"
          using run pos co ok join by (auto simp: bind_res_eq_Inr)
        then obtain n where "insert_prices (map (backfill_price sy meta now) kept) (bd_prices db) = Inr (bd_prices db', n)" "br_inserted r = n"
          "br_status r = BackfillOk" "br_would_insert r = int (length kept)" by (rule commit_backfill_prices) auto
        then show ?thesis using wrote pos co ok join True by blast
      qed
    qed
  qed
qed

lemma backfill_symbol_cases:
  assumes "backfill_symbol env dry_run now ignored sy db = Inr (r, db')"
  obtains (idle) "db' = db" "br_inserted r = 0" "br_status r \<noteq> BackfillOk"
  | (wrote) anchor reference page kept co join meta n where "written env now ignored sy db anchor reference page kept co join"
      "insert_prices (map (backfill_price sy meta now) kept) (bd_prices db) = Inr (bd_prices db', n)" "br_inserted r = n"
      "br_status r = BackfillOk" "br_would_insert r = int (length kept)" "\<not> dry_run" "map_of SYMBOL_META sy = Some meta"
proof -
  note run = assms [unfolded backfill_symbol_def Let_def]
  show ?thesis
  proof (cases "\<exists>slug meta anchor reference page. map_of BACKFILL_SLUGS sy = Some slug \<and> map_of SYMBOL_META sy = Some meta \<and>
      live_anchor (bd_prices db) sy ignored = Some anchor \<and> an_reference anchor = Some reference \<and>
      fst (bar_date_window now) \<le> wall_ordinal (an_cutoff anchor) \<and> wall_ordinal (an_cutoff anchor) \<le> snd (bar_date_window now) \<and>
      be_fetch env slug = Inr page")
    case False
    then have "db' = db \<and> br_inserted r = 0 \<and> br_status r \<noteq> BackfillOk"
      using run by (auto simp: start_report_def split: option.splits sum.splits prod.splits if_splits)
    then show ?thesis using idle by blast
  next
    case True
    then obtain slug meta anchor t v s page where slug: "map_of BACKFILL_SLUGS sy = Some slug" and meta: "map_of SYMBOL_META sy = Some meta"
      and anchor: "live_anchor (bd_prices db) sy ignored = Some anchor" "an_reference anchor = Some (t, v, s)"
      and day: "fst (bar_date_window now) \<le> wall_ordinal (an_cutoff anchor)" "wall_ordinal (an_cutoff anchor) \<le> snd (bar_date_window now)"
      and page: "be_fetch env slug = Inr page" by force
    obtain c ru rc where sm: "map_of SLUG_MAP slug = Some (c, ru, rc)"
      using run slug meta anchor day page by (auto simp: bind_res_eq_Inr split: option.splits prod.splits)
    then have rc: "rc = ''IRR''" using backfill_slug_currency slug by blast
    let ?report = "(start_report sy BackfillOk)\<lparr>br_anchor := Some anchor\<rparr>"
    have p: "backfill_page env dry_run now sy slug meta (ru, ''IRR'') anchor (t, v) page ?report db = Inr (r, db')"
      using run slug meta anchor day page sm rc by (simp split: prod.splits)
    obtain kept sk where k: "rows_to_write ''IRR'' (hp_rows page) (an_cutoff anchor) = (kept, sk)" by fastforce
    show ?thesis
    proof (cases "truncation_error page MAX_HISTORY_ROWS \<or> bar_date_error (hp_rows page) (bar_date_window now) \<noteq> [] \<or> kept = []")
      case True
      then have "db' = db \<and> br_inserted r = 0 \<and> br_status r \<noteq> BackfillOk"
        using p k by (auto simp: backfill_page_def Let_def start_report_def split: if_splits)
      then show ?thesis using idle by blast
    next
      case False
      define report where "report = ?report\<lparr>br_fetched := int (length (hp_rows page)), br_total := hp_total page,
         br_eligible := int (length kept), br_skips := Some sk\<rparr>"
      have b: "backfill_kept env dry_run now sy slug meta (ru, ''IRR'') anchor (t, v) kept report db = Inr (r, db')"
        using p k False by (simp add: backfill_page_def Let_def report_def)
      have "br_inserted report = 0" by (simp add: report_def start_report_def)
      from b this show ?thesis
      proof (cases rule: backfill_kept_cases)
        case idle
        then show ?thesis using that(1) by blast
      next
        case (wrote co join n)
        obtain raw where "eligible (an_cutoff anchor) (fst (last kept), raw)" "snd (snd (last kept)) = normalize_history_value ''IRR'' raw"
          using rows_to_write_kept(2) [OF k, of "last kept"] False by (auto simp: bar_of_def)
        then have "flt (Fin 0) (snd (snd (last kept)))"
          using fle_or_positive [OF wrote(1)] normalized_not_NaN by (auto simp: eligible_def)
        then have "written env now ignored sy db anchor (t, v, s) page kept co join"
          using anchor slug page k False wrote unfolding written_def by auto
        then show ?thesis using that(2) wrote(6-) meta by blast
      qed
    qed
  qed
qed

section \<open>The series only grows backwards\<close>

lemma bar_dates: "bar_date_error pairs (low, high) = [] \<Longrightarrow> x \<in> set pairs \<Longrightarrow> low \<le> fst x \<and> fst x \<le> high"
  by (auto simp: bar_date_error_def filter_empty_conv not_less)

lemma backfill_price_simps [simp]:
  "p_symbol (backfill_price sy meta now b) = sy" "p_source (backfill_price sy meta now b) = SOURCE"
  "p_quality (backfill_price sy meta now b) = ''ok''" "p_observed_at (backfill_price sy meta now b) = close_stamp (fst b)"
  "p_value (backfill_price sy meta now b) = snd (snd b)"
  by (simp_all add: backfill_price_def split: prod.splits)

lemma close_stamp_less: "close_stamp a < close_stamp b \<longleftrightarrow> a < b"
  by (simp add: close_stamp_def combine_def)

text \<open>Rows whose keys are new are all inserted, in order.\<close>

lemma insert_prices_all:
  assumes "insert_prices rows table = Inr (t, n)" and "\<forall>r \<in> set rows. price_key r \<notin> price_key ` set table" and "distinct (map price_key rows)"
  shows "t = table @ rows \<and> n = int (length rows)"
  using assms
proof (induction rows arbitrary: table n)
  case (Cons r rows)
  have "insert_price r table = Inr (table @ [r], True)" using Cons.prems
    by (auto simp: insert_price_def insert_ignore_def bind_res_eq_Inr split: if_splits)
  then obtain m where "insert_prices rows (table @ [r]) = Inr (t, m)" "n = m + 1"
    using Cons.prems(1) by (auto simp: map_res_eq_Inr)
  moreover have "price_key x \<noteq> price_key r" if "x \<in> set rows" for x
    using Cons.prems(3) imageI [OF that, of price_key] by (auto simp del: image_eqI)
  ultimately show ?case using Cons.IH [of "table @ [r]" m] Cons.prems(2,3) by simp
qed simp

text \<open>A close put in front of a series.\<close>

definition earlier_close :: "int \<Rightarrow> string \<Rightarrow> price_row list \<Rightarrow> history_page \<Rightarrow> price_row \<Rightarrow> bool" where
  "earlier_close now sy table page p \<longleftrightarrow> p_symbol p = sy \<and> p_source p = SOURCE \<and> p_quality p = ''ok'' \<and>
     p_observed_at p = close_stamp (wall_ordinal (p_observed_at p)) \<and> MIN_BAR_DATE \<le> wall_ordinal (p_observed_at p) \<and>
     (\<forall>q \<in> set table. p_symbol q = sy \<longrightarrow> wall_ordinal (p_observed_at p) < wall_ordinal (p_observed_at q)) \<and>
     (\<exists>(day, raw) \<in> set (hp_rows page). day = wall_ordinal (p_observed_at p) \<and> flt (Fin 0) raw \<and> p_value p = rial_to_toman raw)"

lemma wall_ordinal_mono: "a \<le> b \<Longrightarrow> wall_ordinal a \<le> wall_ordinal b"
  unfolding wall_ordinal_def by (intro add_right_mono add_left_mono zdiv_mono1) simp_all

lemma written_rows:
  assumes w: "written env now ignored sy db anchor reference page kept co join"
    and i: "insert_prices (map (backfill_price sy meta now) kept) (bd_prices db) = Inr (t, n)"
  shows "t = bd_prices db @ map (backfill_price sy meta now) kept \<and> n = int (length kept) \<and>
    (\<forall>b \<in> set kept. earlier_close now sy (bd_prices db) page (backfill_price sy meta now b))"
proof -
  obtain sk where k: "rows_to_write ''IRR'' (hp_rows page) (an_cutoff anchor) = (kept, sk)"
    and a: "live_anchor (bd_prices db) sy ignored = Some anchor" and d: "bar_date_error (hp_rows page) (bar_date_window now) = []"
    using w by (auto simp: written_def)
  have e: "earlier_close now sy (bd_prices db) page (backfill_price sy meta now b)" if b: "b \<in> set kept" for b
  proof -
    obtain x where x: "x \<in> set (hp_rows page)" "eligible (an_cutoff anchor) x" "b = (fst x, snd x, rial_to_toman (snd x))"
      using rows_to_write_kept(2) [OF k b] by (auto simp: bar_of_def normalize_history_value_def)
    have "fst x < wall_ordinal (p_observed_at q)" if "q \<in> set (bd_prices db)" "p_symbol q = sy" for q
      using x(2) wall_ordinal_mono [OF live_anchor_cutoff(2) [OF a that]] by (simp add: eligible_def)
    moreover have "MIN_BAR_DATE \<le> fst x" using bar_dates [OF d [unfolded bar_date_window_def] x(1)] by simp
    ultimately show ?thesis
      using x by (auto simp: earlier_close_def wall_ordinal_stamp eligible_def intro!: bexI [of _ x] split: prod.splits)
  qed
  have fresh: "\<forall>r \<in> set (map (backfill_price sy meta now) kept). price_key r \<notin> price_key ` set (bd_prices db)"
  proof (intro ballI notI)
    fix r assume r: "r \<in> set (map (backfill_price sy meta now) kept)" and "price_key r \<in> price_key ` set (bd_prices db)"
    then obtain q where "q \<in> set (bd_prices db)" "p_symbol q = p_symbol r" "p_observed_at q = p_observed_at r" by (auto simp: price_key_def)
    then show False using r e by (fastforce simp: earlier_close_def)
  qed
  have "sorted_wrt (<) (map fst kept)" by (rule rows_to_write_kept(1) [OF k])
  then have "distinct (map fst kept)" by (simp add: strict_sorted_iff)
  then have "distinct (map price_key (map (backfill_price sy meta now) kept))"
    by (auto simp: distinct_map price_key_def o_def inj_on_def close_stamp_def combine_def)
  from insert_prices_all [OF i fresh this] e show ?thesis by simp
qed

text \<open>C33: The deep history only extends a series backwards, all of it or nothing: a run that ends otherwise than
  well changes nothing; one that ends well appends every bar it announced, in the order of their days, each a
  positive close of the source's table, converted to toman, stamped 23:00 UTC on a plausible day before the day
  of every observation of the symbol that was stored before.\<close>

theorem backfill_extends_backwards:
  assumes "backfill_symbol env dry_run now ignored sy db = Inr (r, db')"
  shows "(br_status r \<noteq> BackfillOk \<longrightarrow> db' = db \<and> br_inserted r = 0) \<and>
    (br_status r = BackfillOk \<longrightarrow> \<not> dry_run \<and> (\<exists>new slug page. bd_prices db' = bd_prices db @ new \<and> new \<noteq> [] \<and>
       int (length new) = br_inserted r \<and> br_inserted r = br_would_insert r \<and> sorted_wrt (<) (map p_observed_at new) \<and>
       map_of BACKFILL_SLUGS sy = Some slug \<and> be_fetch env slug = Inr page \<and> (\<forall>p \<in> set new. earlier_close now sy (bd_prices db) page p)))"
  using assms
proof (cases rule: backfill_symbol_cases)
  case idle
  then show ?thesis by simp
next
  case (wrote anchor reference page kept co join meta n)
  let ?new = "map (backfill_price sy meta now) kept"
  have rows: "bd_prices db' = bd_prices db @ ?new" "n = int (length kept)"
    "\<forall>b \<in> set kept. earlier_close now sy (bd_prices db) page (backfill_price sy meta now b)"
    using written_rows [OF wrote(1,2)] by simp_all
  obtain slug sk where slug: "map_of BACKFILL_SLUGS sy = Some slug" "be_fetch env slug = Inr page"
    and k: "rows_to_write ''IRR'' (hp_rows page) (an_cutoff anchor) = (kept, sk)" "kept \<noteq> []" using wrote(1) by (auto simp: written_def)
  have "sorted_wrt (<) (map p_observed_at ?new)"
    using rows_to_write_kept(1) [OF k(1)] by (simp add: sorted_wrt_map close_stamp_less)
  then show ?thesis using rows slug k(2) wrote(3-) by (intro conjI impI exI [of _ ?new] exI [of _ slug] exI [of _ page]) auto
qed

section \<open>Repetition\<close>

text \<open>Running it again is harmless: after a run that wrote, a further run over the same table of the source,
  whenever and with whatever options, ends without an exception and changes nothing.\<close>

theorem second_backfill_silent:
  assumes "backfill_symbol env dry_run now ignored sy db = Inr (r, db')" and "br_status r = BackfillOk"
  shows "\<exists>r2. backfill_symbol env dry_run' now' ignored' sy db' = Inr (r2, db') \<and> br_inserted r2 = 0"
  using assms(1)
proof (cases rule: backfill_symbol_cases)
  case idle
  then show ?thesis using assms(2) by simp
next
  case (wrote anchor reference page kept co join meta n)
  have rows: "bd_prices db' = bd_prices db @ map (backfill_price sy meta now) kept" using written_rows [OF wrote(1,2)] by simp
  obtain slug sk where slug: "map_of BACKFILL_SLUGS sy = Some slug" "be_fetch env slug = Inr page"
    and k: "rows_to_write ''IRR'' (hp_rows page) (an_cutoff anchor) = (kept, sk)" and a: "live_anchor (bd_prices db) sy ignored = Some anchor"
    using wrote(1) by (auto simp: written_def)
  have none: "kept' = []"
    if an: "live_anchor (bd_prices db') sy ignored' = Some anchor'" and k': "rows_to_write ''IRR'' (hp_rows page) (an_cutoff anchor') = (kept', sk')"
    for anchor' kept' sk'
  proof (rule ccontr)
    assume "kept' \<noteq> []"
    then obtain x where x: "x \<in> set (hp_rows page)" "eligible (an_cutoff anchor') x"
      using rows_to_write_kept(2) [OF k', of "hd kept'"] by (auto simp: bar_of_def)
    obtain q where "q \<in> set (bd_prices db)" "p_symbol q = sy" "p_observed_at q = an_cutoff anchor" using live_anchor_cutoff(1) [OF a] by blast
    then have "an_cutoff anchor' \<le> an_cutoff anchor" using live_anchor_cutoff(2) [OF an, of q] by (simp add: rows)
    then have "eligible (an_cutoff anchor) x" using x(2) wall_ordinal_mono by (fastforce simp: eligible_def)
    then obtain b where b: "b \<in> set kept" "fst b = fst x" using rows_to_write_kept(3) [OF k x(1)] by auto
    then have "an_cutoff anchor' \<le> close_stamp (fst x)"
      using live_anchor_cutoff(2) [OF an, of "backfill_price sy meta now b"] by (simp add: rows)
    then have "wall_ordinal (an_cutoff anchor') \<le> fst x" using wall_ordinal_mono [of "an_cutoff anchor'" "close_stamp (fst x)"] by (simp add: wall_ordinal_stamp)
    then show False using x(2) by (simp add: eligible_def)
  qed
  obtain c ru where sm: "map_of SLUG_MAP slug = Some (c, ru, ''IRR'')"
    using slug(1) by (auto simp: BACKFILL_SLUGS_def SLUG_MAP_def split: if_splits)
  have page': "\<exists>r2. backfill_page env dry_run' now' sy slug m (ru, ''IRR'') anchor' ref page report db' = Inr (r2, db') \<and> br_inserted r2 = 0"
    if "live_anchor (bd_prices db') sy ignored' = Some anchor'" "br_inserted report = 0" for m anchor' ref report
    using none [OF that(1)] that(2) by (fastforce simp: backfill_page_def Let_def split: prod.splits)
  show ?thesis
  proof (cases "live_anchor (bd_prices db') sy ignored'")
    case None
    then show ?thesis using slug by (cases "map_of SYMBOL_META sy") (auto simp: backfill_symbol_def Let_def start_report_def)
  next
    case (Some anchor')
    then show ?thesis using slug sm page' [OF Some]
      by (auto simp: backfill_symbol_def Let_def start_report_def split: option.splits prod.splits)
  qed
qed

section \<open>The library\<close>

lemma rq_relative:
  assumes "1 / 2 \<le> x"
  shows "\<bar>rq x - x\<bar> \<le> x / 2 ^ 53"
proof -
  have e: "2 powi expo x \<le> x" using expo_bounds [of x] assms by simp
  have "expo (1 / 2) \<le> expo x" using expo_mono [of "1 / 2" x] assms by simp
  moreover have "expo (1 / 2) = - 1" by (rule expo_unique) (simp_all add: power_int_def)
  ultimately have g: "grid x = expo x - 52" using assms by (simp add: grid_def)
  have "rq x - x = (of_int (round_even (x / 2 powi grid x)) - x / 2 powi grid x) * 2 powi grid x"
    by (simp add: rq_def left_diff_distrib)
  then have "\<bar>rq x - x\<bar> = \<bar>of_int (round_even (x / 2 powi grid x)) - x / 2 powi grid x\<bar> * 2 powi grid x"
    by (simp only: abs_mult) simp
  also have "\<dots> \<le> 1 / 2 * 2 powi grid x" by (intro mult_right_mono round_even_nearest) simp
  also have "\<dots> = 2 powi expo x / 2 ^ 53" by (simp add: g power_int_diff)
  also have "\<dots> \<le> x / 2 ^ 53" using e by (simp add: divide_right_mono)
  finally show ?thesis .
qed

text \<open>The library, as documented: the natural logarithm and the power, each to a relative error far above one unit
  in the last place.\<close>

locale libm =
  fixes ml :: mathlib
  assumes log_close: "1001 / 1000 \<le> q \<Longrightarrow>
      \<exists>y. ml_log ml (Fin q) = Inr (Fin y) \<and> \<bar>real_of_rat y - ln (real_of_rat q)\<bar> \<le> ln (real_of_rat q) / 10 ^ 9"
    and pow_close: "1 \<le> q \<Longrightarrow> 0 \<le> n \<Longrightarrow> q ^ nat n \<le> 10 ^ 300 \<Longrightarrow>
      \<exists>y. ml_pow ml (Fin q) n = Inr (Fin y) \<and> \<bar>y - q ^ nat n\<bar> \<le> q ^ nat n / 10 ^ 9"

definition drift :: rat where "drift = 4530621225134719 / 4503599627370496"

lemma drift_float: "SPAN_DAILY_DRIFT = Fin drift"
  unfolding drift_def by code_simp

lemma power_step:
  assumes "l \<le> x ^ k" "x ^ k \<le> u" "0 \<le> l" "a \<le> x" "x \<le> b" "0 \<le> a"
  shows "l * l \<le> x ^ (2 * k)" "x ^ (2 * k) \<le> u * u" "l * l * a \<le> x ^ Suc (2 * k)" "x ^ Suc (2 * k) \<le> u * u * (b :: rat)"
proof -
  have x: "0 \<le> x" "0 \<le> x ^ k" using assms by simp_all
  have two: "x ^ (2 * k) = x ^ k * x ^ k" by (simp add: mult_2 power_add)
  show s: "l * l \<le> x ^ (2 * k)" "x ^ (2 * k) \<le> u * u" unfolding two using assms x by (simp_all add: mult_mono)
  have "x ^ Suc (2 * k) = x ^ (2 * k) * x" by simp
  then show "l * l * a \<le> x ^ Suc (2 * k)" "x ^ Suc (2 * k) \<le> u * u * b" 
    using mult_mono [OF s(1) assms(4)] mult_mono [OF s(2) assms(5)] assms x by (simp_all add: mult.commute)
qed

lemma drift_powers:
  "drift ^ 187 \<le> 30609 / 10000" "9423 / 1000 \<le> drift ^ 375" "drift ^ 375 \<le> 9426 / 1000"
proof -
  let ?a = "100599999 / 100000000 :: rat" and ?b = "100600001 / 100000000 :: rat"
  have r: "?a \<le> drift" "drift \<le> ?b" "0 \<le> ?a" by (simp_all add: drift_def)
  have 2: "10120359 / 10000000 \<le> drift ^ 2" "drift ^ 2 \<le> 10120361 / 10000000"
    using power_step [of ?a drift 1 ?b, OF _ _ _ r] r by (simp_all add: power2_eq_square)
  have 5: "10303619 / 10000000 \<le> drift ^ 5" "drift ^ 5 \<le> 10303625 / 10000000"
    using power_step(3,4) [OF 2 _ r] by simp_all
  have 11: "10680154 / 10000000 \<le> drift ^ 11" "drift ^ 11 \<le> 10680171 / 10000000"
    using power_step(3,4) [OF 5 _ r] by simp_all
  have 23: "11475004 / 10000000 \<le> drift ^ 23" "drift ^ 23 \<le> 11475046 / 10000000"
    using power_step(3,4) [OF 11 _ r] by simp_all
  have 46: "1316757 / 1000000 \<le> drift ^ 46" "drift ^ 46 \<le> 1316768 / 1000000"
    using power_step(1,2) [OF 23 _ r] by simp_all
  have 93: "174425 / 100000 \<le> drift ^ 93" "drift ^ 93 \<le> 174429 / 100000"
    using power_step(3,4) [OF 46 _ r] by simp_all
  have 187: "306066 / 100000 \<le> drift ^ 187" "drift ^ 187 \<le> 30609 / 10000"
    using power_step(3,4) [OF 93 _ r] by simp_all
  then show "drift ^ 187 \<le> 30609 / 10000" by simp
  show "9423 / 1000 \<le> drift ^ 375" "drift ^ 375 \<le> 9426 / 1000"
    using power_step(3,4) [OF 187 _ r] by simp_all
qed

lemma drift_real: "1 < real_of_rat drift" "1001 / 1000 \<le> drift" "1 \<le> drift"
  by (simp_all add: drift_def of_rat_divide)

definition ratio_limit :: rat where "ratio_limit = 6917979387603819 / 2251799813685248"

lemma ratio_limit_float: "fdiv MIN_CONVENTION_FACTOR SPAN_SESSION_RATIO = Inr (Fin ratio_limit)"
  unfolding ratio_limit_def by code_simp

lemma log_quotient:
  "375 * ln (real_of_rat drift) \<le> 2 * ln (real_of_rat ratio_limit)"
  "4 * ln (real_of_rat ratio_limit) \<le> 751 * ln (real_of_rat drift)" "0 < ln (real_of_rat drift)"
proof -
  let ?d = "real_of_rat drift" and ?f = "real_of_rat ratio_limit"
  have f: "1 \<le> ?f" by (simp add: ratio_limit_def of_rat_divide)
  have "drift ^ 375 \<le> ratio_limit ^ 2" using drift_powers(3) by (rule order_trans) (simp add: ratio_limit_def power2_eq_square)
  then have a: "?d ^ 375 \<le> ?f ^ 2" by (metis of_rat_less_eq of_rat_power)
  have "ratio_limit ^ 4 \<le> (9423 / 1000) * (9423 / 1000) * (1005 / 1000)" by (simp add: ratio_limit_def power4_eq_xxxx)
  also have "\<dots> \<le> drift ^ 375 * drift ^ 375 * drift" using drift_powers(2) by (intro mult_mono) (simp_all add: drift_def)
  finally have "ratio_limit ^ 4 \<le> drift ^ 751" by (simp flip: power_add power_Suc2)
  then have b: "?f ^ 4 \<le> ?d ^ 751" by (metis of_rat_less_eq of_rat_power)
  have pos: "0 < ?d" "0 < ?f" using drift_real(1) f by simp_all
  have "ln (?d ^ 375) \<le> ln (?f ^ 2)" using a pos by (subst ln_le_cancel_iff) simp_all
  then show "375 * ln ?d \<le> 2 * ln ?f" using pos by (simp add: ln_realpow)
  have "ln (?f ^ 4) \<le> ln (?d ^ 751)" using b pos by (subst ln_le_cancel_iff) simp_all
  then show "4 * ln ?f \<le> 751 * ln ?d" using pos by (simp add: ln_realpow)
  show "0 < ln ?d" using drift_real(1) by simp
qed

lemma rnd_dyadic: "rnd (6015 / 32) = Fin (6015 / 32)" "rnd (147 / 32) = Fin (147 / 32)"
  by code_simp+

lemma session_ratio_float: "SPAN_SESSION_RATIO = Fin (3 / 2)"
  by code_simp

context libm
begin

lemma guarantee_days: "SPAN_GUARANTEE_DAYS ml = Inr 187"
proof -
  let ?d = "ln (real_of_rat drift)" and ?f = "ln (real_of_rat ratio_limit)"
  obtain a where a: "ml_log ml (Fin ratio_limit) = Inr (Fin a)" "\<bar>real_of_rat a - ?f\<bar> \<le> ?f / 10 ^ 9"
    using log_close [of ratio_limit] by (auto simp: ratio_limit_def)
  obtain b where b: "ml_log ml (Fin drift) = Inr (Fin b)" "\<bar>real_of_rat b - ?d\<bar> \<le> ?d / 10 ^ 9"
    using log_close [of drift] drift_real(2) by auto
  note q = log_quotient
  have ten: "(10 :: real) ^ 9 = 1000000000" by simp
  have ab: "?f - ?f / 1000000000 \<le> real_of_rat a" "real_of_rat a \<le> ?f + ?f / 1000000000"
    "?d - ?d / 1000000000 \<le> real_of_rat b" "real_of_rat b \<le> ?d + ?d / 1000000000"
    using a(2) b(2) unfolding abs_le_iff ten by linarith+
  have bpos: "0 < real_of_rat b" using ab(3) q(3) by linarith
  have "187 * real_of_rat b \<le> real_of_rat a" using ab q by linarith
  then have lo: "187 * b \<le> a" by (metis of_rat_less_eq of_rat_mult of_rat_numeral_eq)
  have "real_of_rat a \<le> 6015 / 32 * real_of_rat b" using ab q by linarith
  then have "real_of_rat a \<le> real_of_rat (6015 / 32 * b)" by (simp add: of_rat_mult of_rat_divide)
  then have hi: "a \<le> 6015 / 32 * b" by (simp only: of_rat_less_eq)
  have b0: "0 < b" using bpos by simp
  have "187 \<le> a / b" "a / b \<le> 6015 / 32" using lo hi b0 by (simp_all add: field_simps)
  then have r: "fle (Fin 187) (rnd (a / b))" "fle (rnd (a / b)) (Fin (6015 / 32))"
    using rnd_fle [of 187 "a / b"] rnd_fle [of "a / b" "6015 / 32"] rnd_dyadic by simp_all
  then obtain y where y: "rnd (a / b) = Fin y" "187 \<le> y" "y \<le> 6015 / 32"
    by (cases "rnd (a / b)") (auto simp: fle_def feq_def)
  then have "\<lfloor>y\<rfloor> = 187" by (simp add: floor_eq_iff)
  then show ?thesis
    unfolding SPAN_GUARANTEE_DAYS_def ratio_limit_float drift_float bind_res_simps a(1) b(1)
    using b0 y by (simp add: fdiv_def ftrunc_int_def)
qed

lemma tolerance_within:
  assumes "gap \<le> 187" and "span_tolerance_ratio ml gap = Inr tol"
  shows "fle tol (Fin (147 / 32))"
proof -
  let ?n = "max gap 1"
  have p: "drift ^ nat ?n \<le> 30609 / 10000" "1 \<le> drift ^ nat ?n"
    using order_trans [OF power_increasing [of "nat ?n" 187 drift] drift_powers(1)] drift_real(3) assms(1)
    by (simp_all add: nat_le_iff one_le_power)
  have "drift ^ nat ?n \<le> 10 ^ 300" using p(1) by (rule order_trans) simp
  then obtain y where y: "ml_pow ml (Fin drift) ?n = Inr (Fin y)" "\<bar>y - drift ^ nat ?n\<bar> \<le> drift ^ nat ?n / 10 ^ 9"
    using pow_close [of drift ?n] drift_real(3) by (auto simp del: power_numeral simp: le_max_iff_disj)
  have ten: "(10 :: rat) ^ 9 = 1000000000" by simp
  have "3 / 2 * y \<le> 147 / 32" using y(2) p(1) unfolding abs_le_iff ten by linarith
  moreover have "tol = rnd (3 / 2 * y)" using assms(2) y(1) by (simp add: span_tolerance_ratio_def drift_float session_ratio_float map_res_eq_Inr)
  ultimately show ?thesis using rnd_fle [of "3 / 2 * y" "147 / 32"] rnd_dyadic by simp
qed

end

text \<open>An instance: the exact power and the logarithm to twenty decimals.\<close>

definition reference_math :: mathlib where
  "reference_math = \<lparr>ml_log = (\<lambda>a. case a of Fin q \<Rightarrow> Inr (Fin (of_int \<lfloor>ln (real_of_rat q) * 10 ^ 20\<rfloor> / 10 ^ 20)) | _ \<Rightarrow> Inl ValueError),
     ml_pow = (\<lambda>a n. case a of Fin q \<Rightarrow> Inr (Fin (q ^ nat n)) | _ \<Rightarrow> Inl OverflowError)\<rparr>"

lemma ln_at_least:
  assumes "1001 / 1000 \<le> (x :: real)"
  shows "1 / 1001 \<le> ln x"
proof -
  have x: "0 < x" using assms by linarith
  then have "ln (1 / x) \<le> 1 / x - 1" by (intro ln_le_minus_one) simp
  moreover have "ln (1 / x) = - ln x" using x by (simp add: ln_inverse flip: inverse_eq_divide)
  moreover have "1 / x \<le> 1000 / 1001" using x assms by (simp add: field_simps)
  ultimately show ?thesis by linarith
qed

interpretation reference_libm: libm reference_math
proof unfold_locales
  fix q :: rat assume q: "1001 / 1000 \<le> q"
  then have r: "1001 / 1000 \<le> real_of_rat q" by (metis of_rat_divide of_rat_less_eq of_rat_numeral_eq)
  then have l: "1 / 1001 \<le> ln (real_of_rat q)" by (rule ln_at_least)
  let ?f = "\<lfloor>ln (real_of_rat q) * 10 ^ 20\<rfloor>"
  have "of_int ?f \<le> ln (real_of_rat q) * 10 ^ 20" "ln (real_of_rat q) * 10 ^ 20 < of_int ?f + 1" by linarith+
  then have c: "\<bar>of_int ?f / 10 ^ 20 - ln (real_of_rat q)\<bar> \<le> ln (real_of_rat q) / 10 ^ 9" using l by (simp add: abs_le_iff field_simps)
  have r: "real_of_rat (of_int ?f / 10 ^ 20) = of_int ?f / 10 ^ 20" by (simp add: of_rat_divide of_rat_power)
  have "ml_log reference_math (Fin q) = Inr (Fin (of_int ?f / 10 ^ 20))" by (simp add: reference_math_def)
  then show "\<exists>y. ml_log reference_math (Fin q) = Inr (Fin y) \<and> \<bar>real_of_rat y - ln (real_of_rat q)\<bar> \<le> ln (real_of_rat q) / 10 ^ 9"
    using c unfolding r [symmetric] by blast
next
  fix q :: rat and n :: int assume "1 \<le> q"
  then show "\<exists>y. ml_pow reference_math (Fin q) n = Inr (Fin y) \<and> \<bar>y - q ^ nat n\<bar> \<le> q ^ nat n / 10 ^ 9"
    by (intro exI [of _ "q ^ nat n"]) (simp add: reference_math_def)
qed

section \<open>No break of scale\<close>

definition similar :: "pyfloat \<Rightarrow> pyfloat \<Rightarrow> bool" where
  "similar a b \<longleftrightarrow> (\<exists>x y. a = Fin x \<and> b = Fin y \<and> 0 < x \<and> 0 < y \<and> y < 46083 / 10000 * x \<and> x < 46083 / 10000 * y)"

definition joins :: "pyfloat \<Rightarrow> pyfloat \<Rightarrow> bool" where
  "joins a b \<longleftrightarrow> (\<exists>x y. a = Fin x \<and> b = Fin y \<and> 0 < x \<and> 0 < y \<and> y < 2 * x \<and> (1 \<le> x \<longrightarrow> 48 / 100 * x < y \<and> y < 152 / 100 * x))"

definition pair_ok :: "mathlib \<Rightarrow> kept_bar \<times> kept_bar \<Rightarrow> bool" where
  "pair_ok ml x \<longleftrightarrow> fle (snd (snd (fst x))) (Fin 0) \<or> fle (snd (snd (snd x))) (Fin 0) \<or>
     (\<exists>ratio tol. off_ratio (snd (snd (snd x))) (snd (snd (fst x))) = Inr ratio \<and>
        span_tolerance_ratio ml (fst (snd x) - fst (fst x)) = Inr tol \<and> \<not> flt tol ratio)"

lemma span_step_pair:
  assumes "span_step ml g s x = Inr s'" and "ss_breaks s' = []"
  shows "ss_breaks s = [] \<and> pair_ok ml x"
proof -
  obtain pd pr pv d r v where x: "x = ((pd, pr, pv), (d, r, v))" by (metis prod.collapse)
  show ?thesis
  proof (cases "fle pv (Fin 0) \<or> fle v (Fin 0)")
    case True
    then show ?thesis using assms by (auto simp: span_step_def x pair_ok_def)
  next
    case False
    then obtain ratio tol where "off_ratio v pv = Inr ratio" "span_tolerance_ratio ml (d - pd) = Inr tol"
      using assms(1) by (auto simp: span_step_def x bind_res_eq_Inr map_res_eq_Inr Let_def)
    then show ?thesis using assms False by (auto simp: span_step_def x pair_ok_def Let_def split: if_splits)
  qed
qed

lemma span_loop_pairs:
  "span_loop ml g s xs = Inr s' \<Longrightarrow> ss_breaks s' = [] \<Longrightarrow> ss_breaks s = [] \<and> (\<forall>x \<in> set xs. pair_ok ml x)"
proof (induction xs arbitrary: s)
  case (Cons x xs)
  then obtain s1 where "span_step ml g s x = Inr s1" "span_loop ml g s1 xs = Inr s'" by (auto simp: bind_res_eq_Inr)
  then show ?case using Cons.IH Cons.prems(2) span_step_pair by (metis set_ConsD)
qed simp

lemma coherent_pairs:
  assumes "span_breaks ml kept = Inr co" and "co_ok co" and "Suc i < length kept"
  shows "pair_ok ml (kept ! i, kept ! Suc i)"
proof -
  obtain g s where "span_loop ml g start_span (zip kept (tl kept)) = Inr s" "ss_breaks s = []"
    using assms(1,2) by (auto simp: span_breaks_def bind_res_eq_Inr map_res_eq_Inr)
  from span_loop_pairs [OF this] have "\<forall>x \<in> set (zip kept (tl kept)). pair_ok ml x" by blast
  moreover have "(kept ! i, kept ! Suc i) \<in> set (zip kept (tl kept))"
    using assms(3) by (auto simp: set_zip nth_tl intro!: exI [of _ i])
  ultimately show ?thesis by blast
qed

lemma rnd_limit: "46083 / 10000 \<le> x \<Longrightarrow> \<not> fle (rnd x) (Fin (147 / 32))"
proof
  assume x: "46083 / 10000 \<le> x" "fle (rnd x) (Fin (147 / 32))"
  have "rnd (46083 / 10000) = Fin (324280283793929 / 70368744177664)" by code_simp
  then show False using rnd_fle [OF x(1)] x(2) by (cases "rnd x") (auto simp: fle_def feq_def)
qed

lemma off_ratio_positive:
  assumes "0 < x" and "0 < y" and "off_ratio (Fin y) (Fin x) = Inr ratio"
  shows "ratio = fmax (rnd (y / x)) (rnd (x / y))"
  using assms by (auto simp: off_ratio_def fdiv_def)

text \<open>Two neighbours within the days of the guarantee.\<close>

lemma ratio_below:
  assumes "0 < x" and "0 < y" and "fle (fmax (rnd (y / x)) (rnd (x / y))) (Fin (147 / 32))"
  shows "y < 46083 / 10000 * x \<and> x < 46083 / 10000 * y"
proof -
  have "fle (rnd (y / x)) (Fin (147 / 32))" "fle (rnd (x / y)) (Fin (147 / 32))"
    using fmax_ge [of "rnd (y / x)" "rnd (x / y)"] assms(3) by (auto intro: fle_trans)
  then have "y / x < 46083 / 10000" "x / y < 46083 / 10000" using rnd_limit not_le by blast+
  then show ?thesis using assms(1,2) by (simp add: field_simps)
qed

lemma pair_similar:
  assumes "libm ml" and "pair_ok ml (b, c)" and "snd (snd b) = Fin x" and "snd (snd c) = Fin y" and "0 < x" and "0 < y"
    and "fst c - fst b \<le> 187"
  shows "similar (snd (snd b)) (snd (snd c))"
proof -
  obtain ratio tol where t: "off_ratio (Fin y) (Fin x) = Inr ratio" "span_tolerance_ratio ml (fst c - fst b) = Inr tol" "\<not> flt tol ratio"
    using assms by (auto simp: pair_ok_def)
  have r: "ratio = fmax (rnd (y / x)) (rnd (x / y))" by (rule off_ratio_positive [OF assms(5,6) t(1)])
  have tol: "fle tol (Fin (147 / 32))" using libm.tolerance_within [OF assms(1,7) t(2)] .
  then have "tol \<noteq> NaN" by auto
  then have "fle ratio tol" using t(3) not_flt [of tol ratio] by (auto simp: r fmax_def)
  then have "fle ratio (Fin (147 / 32))" using tol by (rule fle_trans)
  then show ?thesis using ratio_below [OF assms(5,6)] assms(3-6) by (simp add: r similar_def)
qed

lemma rnd_abs: "fabs (rnd x) = rnd \<bar>x\<bar>"
proof (cases "0 \<le> x")
  case True
  then show ?thesis using rnd_nonneg [of x] by (cases "rnd x") (auto simp: fle_def feq_def)
next
  case False
  then show ?thesis using rnd_nonneg [of "- x"] rnd_minus [of x] by (cases "rnd x") (auto simp: fle_def feq_def)
qed

lemma threshold_below:
  assumes "join_threshold_pct gap = Inr t"
  shows "fle t (Fin 50)"
proof -
  obtain g where g: "t = fmin (fadd (Fin 15) (rnd (5 * g))) (Fin 50)"
    using assms by (auto simp: join_threshold_pct_def map_res_eq_Inr float_of_int_def JOIN_BASE_TOLERANCE_PCT_def
        JOIN_PER_DAY_TOLERANCE_PCT_def JOIN_MAX_TOLERANCE_PCT_def split: pyfloat.splits)
  have "fadd (Fin 15) (rnd (5 * g)) \<noteq> NaN" by (cases "rnd (5 * g)") auto
  then show ?thesis unfolding g using fmin_le by simp
qed

lemma rnd_relative:
  assumes "1 / 2 \<le> x" and "rnd x = Fin y"
  shows "x - x / 2 ^ 53 \<le> y"
proof -
  have "y = rq x" using assms(2) by (auto simp: rnd_def Let_def split: if_splits)
  then show ?thesis using rq_relative [OF assms(1)] unfolding abs_le_iff by linarith
qed

lemma jump_bound:
  assumes "fle (fmul (fquot (rnd w) (Fin x)) (Fin 100)) (Fin 50)" and "0 < x" and "0 \<le> w"
  shows "\<exists>z. rnd w = Fin z \<and> z \<le> 51 / 100 * x"
proof -
  have n: "fle (Fin 0) (rnd w)" using assms(3) by (rule rnd_nonneg)
  show ?thesis
  proof (cases "rnd w")
    case (Fin z)
    show ?thesis
    proof (rule ccontr)
      assume "\<nexists>z. rnd w = Fin z \<and> z \<le> 51 / 100 * x"
      then have "51 / 100 \<le> z / x" using Fin assms(2) by (simp add: field_simps)
      then have q: "fle (rnd (51 / 100)) (rnd (z / x))" by (rule rnd_fle)
      have c: "rnd (51 / 100) = Fin (2296835809958953 / 4503599627370496)" "rnd (101 / 2) = Fin (101 / 2)" by code_simp+
      show False
      proof (cases "rnd (z / x)")
        case Q: (Fin q)
        then have "101 / 2 \<le> q * 100" using q c(1) by simp
        then have "fle (Fin (101 / 2)) (rnd (q * 100))" using rnd_fle c(2) by metis
        moreover have "fle (rnd (q * 100)) (Fin 50)" using assms(1) Fin Q by simp
        ultimately have "fle (Fin (101 / 2)) (Fin 50)" by (rule fle_trans)
        then show False by simp
      qed (use q c(1) assms(1) Fin in \<open>auto simp: fle_def feq_def signed_inf_def\<close>)
    qed
  qed (use n assms in \<open>auto simp: fle_def feq_def signed_inf_def\<close>)
qed

lemma join_joins:
  assumes "check_join d (Fin x) t v = Inr join" and "jn_ok join" and "0 < x" and "rnd x = Fin x" and "flt (Fin 0) v"
  shows "joins (Fin x) v"
proof -
  obtain th where th: "join_threshold_pct (wall_ordinal t - d) = Inr th"
    and le: "fle (fmul (fquot (fabs (fsub v (Fin x))) (Fin x)) (Fin 100)) th"
    using assms(1-3) by (auto simp: check_join_def Let_def bind_res_eq_Inr map_res_eq_Inr fdiv_def)
  have j: "fle (fmul (fquot (fabs (fsub v (Fin x))) (Fin x)) (Fin 100)) (Fin 50)" using le threshold_below [OF th] by (rule fle_trans)
  show ?thesis
  proof (cases v)
    case (Fin y)
    then have y: "0 < y" using assms(5) by simp
    let ?w = "\<bar>y - x\<bar>"
    obtain z where z: "rnd ?w = Fin z" "z \<le> 51 / 100 * x"
      using jump_bound [of ?w x] j assms(3) Fin by (auto simp: rnd_abs)
    have "y < 2 * x"
    proof (rule ccontr)
      assume "\<not> y < 2 * x"
      then have "x \<le> ?w" by simp
      then have "x \<le> z" using rnd_fle [of x ?w] assms(4) z(1) by simp
      then show False using z(2) assms(3) by simp
    qed
    moreover have "48 / 100 * x < y \<and> y < 152 / 100 * x" if "1 \<le> x"
    proof -
      have "?w < 52 / 100 * x"
      proof (cases "1 / 2 \<le> ?w")
        case True
        then show ?thesis using rnd_relative [OF True z(1)] z(2) that by simp
      qed (use that in simp)
      then show ?thesis by linarith
    qed
    ultimately show ?thesis using y assms(3) Fin by (simp add: joins_def)
  qed (use j assms(3,5) in \<open>auto simp: fle_def feq_def signed_inf_def fsub_def\<close>)
qed

lemma toman_finite:
  assumes "is_finite raw" and "is_double raw" and "flt (Fin 0) raw"
  obtains x where "rial_to_toman raw = Fin x" "rnd x = Fin x"
proof -
  obtain q where q: "raw = Fin q" "rnd q = Fin q" "0 < q" using assms by (cases raw) auto
  have "fle (rnd (q / 10)) (Fin q)" "fle (Fin 0) (rnd (q / 10))"
    using rnd_fle [of "q / 10" q] rnd_nonneg [of "q / 10"] q by simp_all
  then obtain x where "rnd (q / 10) = Fin x" by (cases "rnd (q / 10)") (auto simp: fle_def feq_def)
  then show ?thesis using that [of x] q(1) by (simp add: rial_to_toman_def lit_def rnd_idem)
qed

lemma backfill_currency: "map_of BACKFILL_SLUGS sy = Some slug \<Longrightarrow> map_of SYMBOL_META sy = Some meta \<Longrightarrow> fst meta = ''IRT''"
  by (auto simp: BACKFILL_SLUGS_def SYMBOL_META_def split: if_splits)

text \<open>The source's table holds doubles.\<close>

definition doubles_fetched :: "backfill_env \<Rightarrow> bool" where
  "doubles_fetched env \<longleftrightarrow> (\<forall>slug page. be_fetch env slug = Inr page \<longrightarrow>
     (\<forall>x \<in> set (hp_rows page). is_finite (snd x) \<and> is_double (snd x)))"

lemma written_values:
  assumes w: "written env now ignored sy db anchor reference page kept co join" and "doubles_fetched env"
    and i: "insert_prices (map (backfill_price sy meta now) kept) (bd_prices db) = Inr (t, n)" and m: "map_of SYMBOL_META sy = Some meta"
    and b: "b \<in> set kept"
  obtains x where "snd (snd b) = Fin x" "0 < x" "rnd x = Fin x"
proof -
  obtain sk slug where k: "rows_to_write ''IRR'' (hp_rows page) (an_cutoff anchor) = (kept, sk)"
    and slug: "map_of BACKFILL_SLUGS sy = Some slug" "be_fetch env slug = Inr page" using w by (auto simp: written_def)
  obtain y where y: "y \<in> set (hp_rows page)" "flt (Fin 0) (snd y)" "snd (snd b) = rial_to_toman (snd y)"
    using rows_to_write_kept(2) [OF k b] by (auto simp: bar_of_def eligible_def normalize_history_value_def)
  then obtain x where x: "snd (snd b) = Fin x" "rnd x = Fin x"
    using toman_finite [of "snd y"] assms(2) slug(2) by (auto simp: doubles_fetched_def)
  have "prices_positive (backfill_price sy meta now b)" using insert_prices_result [OF i] b by force
  then have "0 < x" using x(1) backfill_currency [OF slug(1) m]
    by (auto simp: prices_positive_def backfill_price_def split: prod.splits)
  then show ?thesis using that x by blast
qed

text \<open>C32: No break of scale or convention gets into a series: of the closes a run has written, two neighbours at
  most 187 days apart, the guarantee the code computes, differ by less than the factor 4.6083 between a gram
  and a mesghal, and the newest of them and the first trusted live value differ by a factor below two upwards and, from one
  toman on, by about a half at most, so never by the factor ten between rial and toman; whatever rounding and
  the inexact logarithm and power of the library do.\<close>

theorem no_scale_break_written:
  assumes "libm (be_math env)" and "doubles_fetched env"
    and "backfill_symbol env dry_run now ignored sy db = Inr (r, db')" and "br_status r = BackfillOk"
  shows "SPAN_GUARANTEE_DAYS (be_math env) = Inr 187 \<and> (\<exists>new. bd_prices db' = bd_prices db @ new \<and> new \<noteq> [] \<and>
    (\<forall>i. Suc i < length new \<longrightarrow> wall_ordinal (p_observed_at (new ! Suc i)) - wall_ordinal (p_observed_at (new ! i)) \<le> 187 \<longrightarrow>
       similar (p_value (new ! i)) (p_value (new ! Suc i))) \<and>
    (\<exists>q \<in> set (bd_prices db). trusted_row ignored sy q \<and> (\<forall>q' \<in> set (bd_prices db). trusted_row ignored sy q' \<longrightarrow>
       p_observed_at q \<le> p_observed_at q') \<and> joins (p_value (last new)) (p_value q)))"
  using assms(3)
proof (cases rule: backfill_symbol_cases)
  case idle
  then show ?thesis using assms(4) by simp
next
  case (wrote anchor reference page kept co join meta n)
  let ?new = "map (backfill_price sy meta now) kept"
  have rows: "bd_prices db' = bd_prices db @ ?new" using written_rows [OF wrote(1,2)] by simp
  have w: "live_anchor (bd_prices db) sy ignored = Some anchor" "an_reference anchor = Some reference" "kept \<noteq> []"
    "span_breaks (be_math env) kept = Inr co" "co_ok co" "jn_ok join"
    "check_join (fst (last kept)) (snd (snd (last kept))) (fst reference) (fst (snd reference)) = Inr join"
    using wrote(1) by (auto simp: written_def)
  note value_of = written_values [OF wrote(1) assms(2) wrote(2) wrote(7)]
  have pairs: "similar (p_value (?new ! i)) (p_value (?new ! Suc i))"
    if i: "Suc i < length ?new" "wall_ordinal (p_observed_at (?new ! Suc i)) - wall_ordinal (p_observed_at (?new ! i)) \<le> 187" for i
  proof -
    obtain x where x: "snd (snd (kept ! i)) = Fin x" "0 < x" using value_of [of "kept ! i"] i(1) by auto
    obtain y where y: "snd (snd (kept ! Suc i)) = Fin y" "0 < y" using value_of [of "kept ! Suc i"] i(1) by auto
    have "pair_ok (be_math env) (kept ! i, kept ! Suc i)" using coherent_pairs [OF w(4,5)] i(1) by simp
    from pair_similar [OF assms(1) this x(1) y(1) x(2) y(2)] show ?thesis using i by (simp add: wall_ordinal_stamp)
  qed
  obtain t v s where ref: "reference = (t, v, s)" by (metis prod.collapse)
  obtain q where q: "q \<in> set (bd_prices db)" "trusted_row ignored sy q" "p_value q = v"
    "\<forall>q' \<in> set (bd_prices db). trusted_row ignored sy q' \<longrightarrow> p_observed_at q \<le> p_observed_at q'"
    using live_anchor_reference [OF w(1) w(2) [unfolded ref]] by blast
  obtain x where x: "snd (snd (last kept)) = Fin x" "0 < x" "rnd x = Fin x" using value_of [of "last kept"] w(3) by auto
  have "joins (Fin x) v" using join_joins [of "fst (last kept)" x t v join] w(6,7) x q(2,3) by (simp add: ref trusted_row_def)
  then have j: "joins (p_value (last ?new)) (p_value q)" using w(3) x(1) q(3) by (simp add: last_map)
  show ?thesis
    using libm.guarantee_days [OF assms(1)] rows w(3) pairs q(1,2,4) j by (intro conjI exI [of _ ?new] bexI [of _ q]) auto
qed

section \<open>A demonstration\<close>

definition demo_deep :: history_page where
  "demo_deep = \<lparr>hp_rows = [(740001, Fin 1000), (740002, Fin 1000)], hp_returned = 2, hp_total = Some 2, hp_bars = []\<rparr>"

definition demo_backfill :: backfill_env where
  "demo_backfill = \<lparr>be_fetch = (\<lambda>_. Inr demo_deep), be_math = reference_math, be_definitions = (\<lambda>_. Some ([], [])),
     be_note = (\<lambda>_ _ _. []), be_iso_day = int_str, be_iso = int_str\<rparr>"

definition demo_live :: price_row where
  "demo_live = \<lparr>p_symbol = ''IR_COIN_EMAMI'', p_value = Fin 100, p_currency = ''IRT'', p_unit = ''coin'', p_source = ''milli'',
     p_observed_at = combine 740003 0, p_collected_at = 0, p_quality = ''ok''\<rparr>"

definition demo_backfill_db :: backfill_db where
  "demo_backfill_db = \<lparr>bd_prices = [demo_live], bd_raw = [], bd_splices = [], bd_notes = []\<rparr>"

abbreviation demo_backfill_run :: "(backfill_report \<times> backfill_db) res" where
  "demo_backfill_run \<equiv> backfill_symbol demo_backfill False (combine 740006 0) [] ''IR_COIN_EMAMI'' demo_backfill_db"

definition demo_kept :: "kept_bar list" where
  "demo_kept = [(740001, Fin 1000, Fin 100), (740002, Fin 1000, Fin 100)]"

definition demo_anchor :: live_anchor where
  "demo_anchor = \<lparr>an_cutoff = combine 740003 0, an_source = ''milli'', an_quality = ''ok'', an_rows = 1,
     an_reference = Some (combine 740003 0, Fin 100, ''milli'')\<rparr>"

lemma demo_span: "\<exists>co. span_breaks reference_math demo_kept = Inr co \<and> co_ok co"
proof -
  have m: "ml_pow reference_math SPAN_DAILY_DRIFT 1 = Inr (Fin drift)" by (simp add: reference_math_def drift_float)
  have "1 \<le> 3 / 2 * drift" by (simp add: drift_def)
  then have "\<not> flt (rnd (3 / 2 * drift)) (Fin 1)" using rnd_fle [of 1 "3 / 2 * drift"] by (auto dest: flt_not_fle)
  moreover have "off_ratio (Fin 100) (Fin 100) = Inr (Fin 1)" by code_simp
  ultimately show ?thesis
    by (simp add: span_breaks_def reference_libm.guarantee_days demo_kept_def span_step_def span_tolerance_ratio_def m
        session_ratio_float Let_def start_span_def)
qed

lemma demo_backfilled:
  obtains r db where "demo_backfill_run = Inr (r, db)" "br_status r = BackfillOk" "br_inserted r = 2"
proof -
  have f: "map_of BACKFILL_SLUGS ''IR_COIN_EMAMI'' = Some ''sekee''" "map_of SLUG_MAP ''sekee'' = Some (''IR_COIN_EMAMI'', ''IRR/coin'', ''IRR'')"
    "map_of SYMBOL_META ''IR_COIN_EMAMI'' = Some (''IRT'', ''coin'')" by code_simp+
  have a: "live_anchor (bd_prices demo_backfill_db) ''IR_COIN_EMAMI'' [] = Some demo_anchor" by code_simp
  have k: "rows_to_write ''IRR'' (hp_rows demo_deep) (an_cutoff demo_anchor) = (demo_kept, \<lparr>sk_after = 0, sk_non_positive = 0, sk_duplicate = 0\<rparr>)"
    by code_simp
  have p: "\<not> truncation_error demo_deep MAX_HISTORY_ROWS" "bar_date_error (hp_rows demo_deep) (bar_date_window (combine 740006 0)) = []"
    "fst (bar_date_window (combine 740006 0)) \<le> wall_ordinal (an_cutoff demo_anchor) \<and> wall_ordinal (an_cutoff demo_anchor) \<le> snd (bar_date_window (combine 740006 0))"
    by code_simp+
  obtain low high where w: "bar_date_window (combine 740006 0) = (low, high)" by fastforce
  obtain co where co: "span_breaks reference_math demo_kept = Inr co" "co_ok co" using demo_span by blast
  have "\<exists>join. check_join 740002 (Fin 100) (combine 740003 0) (Fin 100) = Inr join \<and> jn_ok join"
  proof -
    have "map_res jn_ok (check_join 740002 (Fin 100) (combine 740003 0) (Fin 100)) = Inr True" by code_simp
    then show ?thesis by (auto simp: map_res_eq_Inr)
  qed
  then obtain join where join: "check_join 740002 (Fin 100) (combine 740003 0) (Fin 100) = Inr join" "jn_ok join" by blast
  have ins: "map_res snd (insert_prices (map (backfill_price ''IR_COIN_EMAMI'' (''IRT'', ''coin'') (combine 740006 0)) demo_kept) [demo_live]) = Inr 2"
    by code_simp
  then obtain prices where ins: "insert_prices (map (backfill_price ''IR_COIN_EMAMI'' (''IRT'', ''coin'') (combine 740006 0)) demo_kept) [demo_live] = Inr (prices, 2)"
    by (auto simp: map_res_eq_Inr)
  have kept: "demo_kept \<noteq> []" "fst (hd demo_kept) = 740001" "last demo_kept = (740002, Fin 1000, Fin 100)" by (simp_all add: demo_kept_def)
  have commit: "\<exists>r2 db2. commit_backfill demo_backfill (combine 740006 0) ''IR_COIN_EMAMI'' ''sekee'' (''IRT'', ''coin'') m demo_kept sp report
      demo_backfill_db = Inr (r2, db2) \<and> br_status r2 = BackfillOk \<and> br_inserted r2 = 2" for m sp report
    using ins by (simp add: commit_backfill_def demo_backfill_db_def Let_def split: prod.splits)
  have "\<exists>r2 db2. backfill_kept demo_backfill False (combine 740006 0) ''IR_COIN_EMAMI'' ''sekee'' (''IRT'', ''coin'') m demo_anchor
      (combine 740003 0, Fin 100) demo_kept report demo_backfill_db = Inr (r2, db2) \<and> br_status r2 = BackfillOk \<and> br_inserted r2 = 2" for m report
    using commit co join kept by (simp add: backfill_kept_def Let_def demo_backfill_def splice_of_def)
  then have "\<exists>r2 db2. demo_backfill_run = Inr (r2, db2) \<and> br_status r2 = BackfillOk \<and> br_inserted r2 = 2"
    using f a k p kept(1) by (simp add: backfill_symbol_def backfill_page_def Let_def demo_anchor_def demo_backfill_def w)
  then show ?thesis using that by blast
qed

lemma backfill_extends_backwards_witness:
  "\<exists>r db new. demo_backfill_run = Inr (r, db) \<and> bd_prices db = [demo_live] @ new \<and> length new = 2 \<and>
     sorted_wrt (<) (map p_observed_at new) \<and> (\<forall>p \<in> set new. earlier_close (combine 740006 0) ''IR_COIN_EMAMI'' [demo_live] demo_deep p)"
proof -
  obtain r db where run: "demo_backfill_run = Inr (r, db)" "br_status r = BackfillOk" "br_inserted r = 2" by (rule demo_backfilled)
  show ?thesis using backfill_extends_backwards [OF run(1)] run by (auto simp: demo_backfill_db_def demo_backfill_def)
qed

lemma second_backfill_silent_witness:
  "\<exists>r db r2. demo_backfill_run = Inr (r, db) \<and> br_inserted r = 2 \<and>
     backfill_symbol demo_backfill False (combine 740007 0) [] ''IR_COIN_EMAMI'' db = Inr (r2, db) \<and> br_inserted r2 = 0"
proof -
  obtain r db where run: "demo_backfill_run = Inr (r, db)" "br_status r = BackfillOk" "br_inserted r = 2" by (rule demo_backfilled)
  show ?thesis using second_backfill_silent [OF run(1,2), of False "combine 740007 0" "[]"] run(1,3) by auto
qed

lemma no_scale_break_written_witness:
  "\<exists>r db new. demo_backfill_run = Inr (r, db) \<and> bd_prices db = [demo_live] @ new \<and> new \<noteq> [] \<and> joins (p_value (last new)) (Fin 100)"
proof -
  obtain r db where run: "demo_backfill_run = Inr (r, db)" "br_status r = BackfillOk" "br_inserted r = 2" by (rule demo_backfilled)
  have m: "libm (be_math demo_backfill)" by (simp add: demo_backfill_def reference_libm.libm_axioms)
  have d: "doubles_fetched demo_backfill" by (simp add: doubles_fetched_def demo_backfill_def demo_deep_def)
  show ?thesis using no_scale_break_written [OF m d run(1,2)] run(1) by (auto simp: demo_backfill_db_def demo_live_def)
qed

end
