(* ===== verification/Spec2Isabelle.thy ===== *)
theory Spec2Isabelle
  imports Jalali Market_Hours Validation Equity_Adjust Registry Index_Scale Signal_Assembly Collect_Props Trend_Job
    Retention Safe_Fetch_Props Safe_Parse Provider_Request Backup_Manifest Economic_Store_Props Economic_Catalog
    Economic_Job_Props Intervals_Props Evaluate_Props Backtest_Props Bourse_Parse Tgju_Backfill_Props
begin

text \<open>
  Verification of the prediction service of the Iran gold predictor, the Python code under
  \<^verbatim>\<open>src/prediction-python/app\<close> (paths below are relative to it).

  \<^bold>\<open>The program.\<close> A scheduled job collects quotes from some twenty providers, judges each against the
  stored series and stores it; other jobs ingest economic series, equities and news, evaluate the trend
  alignment of the supported symbols and publish buy or sell readings. A retention job bounds the
  tables and a backup tool writes and checks a manifest. All state is in SQL tables; the jobs talk to each
  other through them only. Everything fetched from outside may be wrong, late, hostile or missing, so
  the logic that matters is in the guards: what may be stored, shown, followed, deleted or believed.

  \<^bold>\<open>Conventions.\<close> A function that can raise returns \<open>py_error + 'a\<close> (Prelude), so that every raise is a
  branch. A Python float is IEEE binary64 with every operation rounded once (PyFloat), an int is an
  \<open>int\<close>, an IP address is a word of 32 or 128 bits. A date is its calendar fields or its ordinal, an
  instant the microseconds of UTC (Calendar). A table is the list of its rows in insertion order and a
  statement is a function on it. Text has code points below 256 (PyString); messages for people are
  constructors that carry the numbers they print. Code that is not in the repository is a parameter:
  the HTTP peer, the resolver, the tz database, numpy, pandas, hashes, codecs and parsers; what is
  assumed of one is a locale (\<open>numpy\<close>, \<open>civil_zone\<close>) that is interpreted in the theory
  that states it, and each theorem that assumes such a law has a witness with a concrete instance.

  \<^bold>\<open>The library.\<close> Prelude, Calendar, PyFloat, PyString, PyJson and Py_Url hold the exceptions, the
  library's dates, floats, strings, decoded JSON and URL splitting. Tables holds the tables that several
  jobs write.

  \<^item> Jalali: \<^verbatim>\<open>economic/jalali.py\<close>, \<^verbatim>\<open>gregorian_to_jalali\<close> of \<^verbatim>\<open>features/engineering.py\<close> and the copy in
    \<^verbatim>\<open>providers/tse_funds.py\<close>: both directions are inverse on every date, the copies agree.
  \<^item> Market_Hours: \<^verbatim>\<open>core/market_hours.py\<close> and \<^verbatim>\<open>core/freshness.py\<close>: the backward search for the start of
    a closure ends within its step budget; freshness does not decay while a market is closed.
  \<^item> Formula, Validation: \<^verbatim>\<open>core/formula.py\<close>, \<^verbatim>\<open>core/validation.py\<close>, \<^verbatim>\<open>core/normalize.py\<close>: what the jump,
    median and repetition tests admit.
  \<^item> Registry: \<^verbatim>\<open>providers/registry.py\<close>: the circuit breaker is open exactly while its bounded cooldown
    runs and a success closes it, the failure counter counts the failures since the last success.
  \<^item> Provider_Request: \<^verbatim>\<open>providers/base.py\<close>: the retry loop ends, and at the first decisive answer.
  \<^item> Collect, Collect_Props: \<^verbatim>\<open>jobs/collect.py\<close>, the whole pass: every stored price has its evidence, also
    when the pass raises half way; provider calls and keys.
  \<^item> Economic_Store, Economic_Store_Props, Economic_Catalog: \<^verbatim>\<open>economic/store.py\<close>: the append-only store with
    its overlapping writers as a step relation, its invariant by rule induction, the refinement of an
    abstract history per period by the writer and the reader, and the agreement of the two SQL dialects.
  \<^item> Equity_Adjust, Index_Scale: \<^verbatim>\<open>equities/adjust.py\<close>, \<^verbatim>\<open>bourse/scale.py\<close>: back-adjustment against a
    reference definition; the two gates refuse exactly what they say.
  \<^item> Universe, Costs, Signal_Engine, Signal_Assembly: \<^verbatim>\<open>signals/universe.py\<close>, \<^verbatim>\<open>core/costs.py\<close>,
    \<^verbatim>\<open>signals/engine.py\<close>: every factor is settled once, a row is consistent with itself, and is published
    exactly under the stated conditions; the trend alignment makes no call, unless a later factor speaks.
  \<^item> Trend_Alignment, Trend_Backtest, Trend_Job: \<^verbatim>\<open>models/trend_alignment.py\<close>, \<^verbatim>\<open>models/trend_backtest.py\<close>,
    \<^verbatim>\<open>jobs/trend_alignment.py\<close>: only closed candles count, a replay does not look ahead, events stay unique
    over every run of passes, a confirmation is silent.
  \<^item> Retention: \<^verbatim>\<open>core/retention.py\<close>: what a learning loop needs survives, whatever raises; batches refine
    one bounded statement.
  \<^item> Net_Address, Safe_Fetch, Safe_Fetch_Props, Safe_Parse: \<^verbatim>\<open>news/safefetch.py\<close>: every request goes to a
    vetted target, credentials stay with the first host, the requests are bounded, results are within
    the caps, every error names its cause and which exceptions escape is exact; so is the nesting check.
  \<^item> Backup_Manifest: \<^verbatim>\<open>core/backup_manifest.py\<close>: a built manifest verifies, an intact verdict means that
    the files it names are there as recorded.
  \<^item> Economic_Job, Economic_Job_Props: \<^verbatim>\<open>jobs/economic.py\<close>: the pass over the catalog is the sequence of the whole
    transactions of the series that succeeded, its counts are exact, each provider gets one verdict.
  \<^item> Tgju_Daily, Tgju_Daily_Props: \<^verbatim>\<open>jobs/tgju_daily.py\<close>: only settled closes of days nobody observed are stored,
    each bar has one fate, a repeated pass over the whole table or its newest rows stores nothing.
  \<^item> Tgju_Backfill, Tgju_Backfill_Props: \<^verbatim>\<open>jobs/tgju_backfill.py\<close>: the deep history only extends a series
    backwards, whole or not at all; no break of scale or convention hides in it or at its join.
  \<^item> Bourse_Parse: \<^verbatim>\<open>bourse/parse.py\<close>: a parsed history is complete, ascending and of one instrument, codes
    survive digit for digit, a watch lists exactly the share rows.
  \<^item> Intervals, Intervals_Props: \<^verbatim>\<open>models/intervals.py\<close>: the finite-sample coverage of the conformal band, over
    rounded arithmetic; the walk forward judges a fold with earlier folds only.
  \<^item> Evaluate, Evaluate_Props: \<^verbatim>\<open>jobs/evaluate.py\<close>: an outcome is the nearest good later observation, and
    none that has a candidate is missed unless the run raises or the pending ones exceed its batch; a full batch without candidates starves the later ones.
  \<^item> Backtest, Backtest_Props: \<^verbatim>\<open>backtest/engine.py\<close>: no look ahead, entries and exits obey threshold and minimal
    holding, net never exceeds gross.

  \<^bold>\<open>Composition.\<close> Collect calls Registry, Validation and Tables; Registry builds what Provider_Request
  asks with. Signal_Assembly reads what Collect stores, applies Universe, calls Signal_Engine and
  publishes with Costs. Trend_Job folds stored prices into candles, calls Trend_Alignment and refreshes
  Trend_Backtest. Economic_Job writes through Economic_Store, Tgju_Daily into Tables, Evaluate reads those prices
  and calls Intervals. The guarded fetch is Safe_Fetch over Net_Address and Py_Url.

  \<^bold>\<open>Bounds and fuel.\<close> No definition runs on fuel that the code does not have: the retry loops count the
  attempts left, the redirect loop the hops left, the closure search its 10-minute steps, the batch loop
  \<^verbatim>\<open>MAX_BATCHES\<close>; the depth scan and the parsers recurse on their text. Each is a total function, so
  every theorem about its result includes that there is one.

  \<^bold>\<open>Not modelled.\<close> The parsers of single providers and news sources, the document parsers of
  \<^verbatim>\<open>economic/cbi.py\<close> and \<^verbatim>\<open>economic/sci.py\<close> (Persian text and PDF or spreadsheet layout), the news
  classifier (keyword data), the feature frame and the statistical and neural models (pandas, numpy,
  scikit-learn, torch), the HTTP surface \<^verbatim>\<open>main.py\<close>, metrics, and the remaining ingest jobs. The Go backend,
  the frontend and the SQL migrations are other languages. Transactions that are rolled back, and
  isolation other than statement by statement, appear only where a theory says so.
\<close>

end
